(* ===== verification/Prelude.thy ===== *)
theory Prelude
  imports Main "HOL-Library.AList" "HOL-Library.Multiset" "HOL-Library.List_Lexorder"
    "HOL-Library.Char_ord"
begin

text \<open>
  Shared vocabulary of the development: the JavaScript values the relay computes with
  (strings, JSON payloads, insertion-ordered \<open>Map\<close>s), the generic lemmas on association lists
  and multisets that the component proofs use, and the generic transition system whose
  invariant rule every state machine of the development instantiates.

  A JavaScript string is a \<^typ>\<open>string\<close>: every \<^typ>\<open>char\<close> is one UTF-16 code unit in
  the range U+0000 to U+00FF, so \<open>length\<close> is JavaScript's \<open>.length\<close> and a unit of U+0080
  or more takes two bytes in UTF-8. A JavaScript number that the code treats as an integer is
  an \<^typ>\<open>int\<close>; every number of the modelled code is a count, a size, a sequence number or a
  time in milliseconds, and stays in the safe-integer range.
\<close>

named_theorems jsmap_simps \<open>equations for insertion-ordered maps\<close>

section \<open>Insertion-ordered maps\<close>

text \<open>
  A JavaScript \<open>Map\<close> is an association list in insertion order: \<open>get\<close> is \<^const>\<open>map_of\<close>,
  \<open>set\<close> is \<^const>\<open>AList.update\<close> (in place when the key is present, appended otherwise),
  \<open>delete\<close> is \<^const>\<open>AList.delete\<close>, \<open>size\<close> is \<^const>\<open>length\<close>.
\<close>

type_synonym ('k, 'v) jsmap = "('k \<times> 'v) list"

abbreviation jm_get :: "('k, 'v) jsmap \<Rightarrow> 'k \<Rightarrow> 'v option" where
  "jm_get m k \<equiv> map_of m k"

abbreviation jm_set :: "'k \<Rightarrow> 'v \<Rightarrow> ('k, 'v) jsmap \<Rightarrow> ('k, 'v) jsmap" where
  "jm_set \<equiv> AList.update"

abbreviation jm_delete :: "'k \<Rightarrow> ('k, 'v) jsmap \<Rightarrow> ('k, 'v) jsmap" where
  "jm_delete \<equiv> AList.delete"

abbreviation jm_keys :: "('k, 'v) jsmap \<Rightarrow> 'k list" where
  "jm_keys m \<equiv> map fst m"

abbreviation jm_wf :: "('k, 'v) jsmap \<Rightarrow> bool" where
  "jm_wf m \<equiv> distinct (jm_keys m)"

definition jm_values :: "('k, 'v) jsmap \<Rightarrow> 'v list" where
  "jm_values m = map snd m"

text \<open>\<open>m.get(k) ?? d\<close>.\<close>

definition jm_get_or :: "('k, 'v) jsmap \<Rightarrow> 'k \<Rightarrow> 'v \<Rightarrow> 'v" where
  "jm_get_or m k d = (case jm_get m k of None \<Rightarrow> d | Some v \<Rightarrow> v)"

lemma jm_get_set [simp, jsmap_simps]:
  "jm_get (jm_set k v m) k' = (if k' = k then Some v else jm_get m k')"
  by (simp add: update_conv')

lemma jm_get_delete [simp, jsmap_simps]:
  "jm_get (jm_delete k m) k' = (if k' = k then None else jm_get m k')"
  by (simp add: delete_conv')

lemma jm_wf_set [simp, intro]: "jm_wf m \<Longrightarrow> jm_wf (jm_set k v m)"
  by (rule distinct_update)

lemma jm_wf_delete [simp, intro]: "jm_wf m \<Longrightarrow> jm_wf (jm_delete k m)"
  by (rule distinct_delete)

lemma jm_wf_filter [simp, intro]: "jm_wf m \<Longrightarrow> jm_wf (filter P m)"
  by (rule distinct_map_filter)

lemma jm_get_or_set [simp, jsmap_simps]:
  "jm_get_or (jm_set k v m) k' d = (if k' = k then v else jm_get_or m k' d)"
  by (simp add: jm_get_or_def)

lemma jm_get_or_Some [simp]: "jm_get m k = Some v \<Longrightarrow> jm_get_or m k d = v"
  by (simp add: jm_get_or_def)

lemma jm_get_or_None [simp]: "jm_get m k = None \<Longrightarrow> jm_get_or m k d = d"
  by (simp add: jm_get_or_def)

lemma jm_get_filter:
  assumes "jm_wf m"
  shows "jm_get (filter P m) k
    = (case jm_get m k of None \<Rightarrow> None | Some v \<Rightarrow> if P (k, v) then Some v else None)"
  using assms
proof (induction m)
  case Nil
  then show ?case by simp
next
  case (Cons a m)
  obtain k' v' where a: "a = (k', v')" by force
  have fresh: "jm_get m k' = None" using Cons.prems a by (auto simp: map_of_eq_None_iff)
  show ?case
  proof (cases "k = k'")
    case True
    have "jm_get (filter P m) k' = None"
      using Cons.prems a by (auto simp: map_of_eq_None_iff)
    with True a show ?thesis by simp
  next
    case False
    with Cons a show ?thesis by simp
  qed
qed

lemma length_jm_set_new: "jm_get m k = None \<Longrightarrow> length (jm_set k v m) = Suc (length m)"
  by (induction m) (auto split: if_splits)

lemma length_jm_set_old: "jm_get m k \<noteq> None \<Longrightarrow> length (jm_set k v m) = length m"
  by (induction m) (auto split: if_splits)

lemma length_jm_set_le: "length (jm_set k v m) \<le> Suc (length m)"
  by (cases "jm_get m k = None") (simp_all add: length_jm_set_new length_jm_set_old)

lemma jm_set_new: "jm_get m k = None \<Longrightarrow> jm_set k v m = m @ [(k, v)]"
  by (induction m) (auto split: if_splits)

lemma jm_set_same: "jm_get m k = Some v \<Longrightarrow> jm_set k v m = m"
  by (induction m) (auto split: if_splits)

lemma jm_get_in_set: "jm_wf m \<Longrightarrow> (k, v) \<in> set m \<longleftrightarrow> jm_get m k = Some v"
  by (auto simp: map_of_eq_Some_iff)

lemma jm_delete_filter: "jm_delete k m = filter (\<lambda>(k', _). k' \<noteq> k) m"
  by (auto simp: AList.delete_eq intro!: filter_cong)

lemma mset_jm_set:
  assumes "jm_wf m" and "jm_get m k = Some v0"
  shows "mset (jm_set k v m) = mset m - {#(k, v0)#} + {#(k, v)#}"
  using assms
proof (induction m)
  case Nil
  then show ?case by simp
next
  case (Cons a m)
  then show ?case
    by (cases a) (auto simp: map_of_eq_None_iff image_iff split: if_splits)
qed

lemma mset_jm_delete:
  assumes "jm_wf m" and "jm_get m k = Some v0"
  shows "mset (jm_delete k m) = mset m - {#(k, v0)#}"
  using assms
proof (induction m)
  case Nil
  then show ?case by simp
next
  case (Cons a m)
  obtain k' v' where a: "a = (k', v')" by force
  show ?case
  proof (cases "k = k'")
    case True
    then have "jm_delete k m = m"
      using Cons.prems a by (force simp: jm_delete_filter filter_id_conv)
    with True a Cons.prems show ?thesis by simp
  next
    case False
    then have "jm_get m k = Some v0" using Cons.prems a by simp
    then have "mset (jm_delete k m) = mset m - {#(k, v0)#}" using Cons.IH Cons.prems by simp
    with False a show ?thesis by simp
  qed
qed

section \<open>Maps whose entries expire\<close>

text \<open>
  Several components keep a \<open>Map\<close> whose values carry an expiry time and differ only in how they
  compare it with the clock. \<open>live_get\<close> is the lookup that ignores expired values and
  \<open>sweep\<close> the collection that deletes them; the locale states the one law the comparison must
  have: what has expired stays expired.
\<close>

definition live_get :: "(int \<Rightarrow> 'v \<Rightarrow> bool) \<Rightarrow> int \<Rightarrow> ('k, 'v) jsmap \<Rightarrow> 'k \<Rightarrow> 'v option" where
  "live_get alive t m k =
     (case jm_get m k of None \<Rightarrow> None | Some v \<Rightarrow> if alive t v then Some v else None)"

definition sweep :: "(int \<Rightarrow> 'v \<Rightarrow> bool) \<Rightarrow> int \<Rightarrow> ('k, 'v) jsmap \<Rightarrow> ('k, 'v) jsmap" where
  "sweep alive t m = filter (\<lambda>(k, v). alive t v) m"

lemma live_get_set: "live_get alive t (jm_set k v m) k'
    = (if k' = k then (if alive t v then Some v else None) else live_get alive t m k')"
  by (simp add: live_get_def)

lemma live_get_delete: "live_get alive t (jm_delete k m) k' = (if k' = k then None else live_get alive t m k')"
  by (simp add: live_get_def)

lemma live_get_SomeD: "live_get alive t m k = Some v \<Longrightarrow> jm_get m k = Some v \<and> alive t v"
  by (auto simp: live_get_def split: option.splits if_splits)

lemma jm_wf_sweep [simp, intro]: "jm_wf m \<Longrightarrow> jm_wf (sweep alive t m)"
  unfolding sweep_def by (rule jm_wf_filter)

lemma length_sweep: "length (sweep alive t m) \<le> length m"
  by (simp add: sweep_def)

lemma jm_get_sweep: "jm_wf m \<Longrightarrow> jm_get (sweep alive t m) k = live_get alive t m k"
  unfolding sweep_def live_get_def by (subst jm_get_filter) (auto split: option.splits)

locale expiring =
  fixes alive :: "int \<Rightarrow> 'v \<Rightarrow> bool"
  assumes alive_antimono: "alive t v \<Longrightarrow> t' \<le> t \<Longrightarrow> alive t' v"
begin

lemma live_get_sweep:
  "jm_wf m \<Longrightarrow> t \<le> t' \<Longrightarrow> live_get alive t' (sweep alive t m) k = live_get alive t' m k"
  by (auto simp: live_get_def jm_get_sweep alive_antimono split: option.splits)

lemma dead_stays_dead:
  "live_get alive t m k = None \<Longrightarrow> t \<le> t' \<Longrightarrow> live_get alive t' m k = None"
  by (auto simp: live_get_def alive_antimono split: option.splits if_splits)

lemma live_earlier:
  "live_get alive t m k = Some v \<Longrightarrow> t' \<le> t \<Longrightarrow> live_get alive t' m k = Some v"
  by (auto simp: live_get_def alive_antimono split: option.splits if_splits)

end

section \<open>Lists\<close>

lemma list_all2_left: "list_all2 P xs ys \<Longrightarrow> x \<in> set xs \<Longrightarrow> \<exists>y \<in> set ys. P x y"
  by (induction rule: list_all2_induct) auto

lemma list_all2_right: "list_all2 P xs ys \<Longrightarrow> y \<in> set ys \<Longrightarrow> \<exists>x \<in> set xs. P x y"
  by (induction rule: list_all2_induct) auto

section \<open>Strings\<close>

text \<open>White space of \<open>String.prototype.trim\<close> in the modelled range.\<close>

definition js_space :: "char \<Rightarrow> bool" where
  "js_space c = (let n = (of_char c :: nat) in n \<in> {9, 10, 11, 12, 13, 32, 160})"

definition js_trim_start :: "string \<Rightarrow> string" where
  "js_trim_start s = dropWhile js_space s"

definition js_trim :: "string \<Rightarrow> string" where
  "js_trim s = rev (dropWhile js_space (rev (js_trim_start s)))"

definition starts_with :: "string \<Rightarrow> string \<Rightarrow> bool" where
  "starts_with s p = (take (length p) s = p)"

text \<open>\<open>Buffer.byteLength(s, 'utf8')\<close>.\<close>

definition utf8_length :: "string \<Rightarrow> nat" where
  "utf8_length s = sum_list (map (\<lambda>c. if (of_char c :: nat) < 128 then 1 else 2) s)"

lemma length_le_utf8_length: "length s \<le> utf8_length s"
  by (induction s) (auto simp: utf8_length_def)

definition digit_char :: "nat \<Rightarrow> char" where
  "digit_char d = char_of (48 + d)"

fun nat_str :: "nat \<Rightarrow> string" where
  "nat_str n = (if n < 10 then [digit_char n] else nat_str (n div 10) @ [digit_char (n mod 10)])"

declare nat_str.simps [simp del]

definition int_str :: "int \<Rightarrow> string" where
  "int_str i = (if i < 0 then CHR ''-'' # nat_str (nat (- i)) else nat_str (nat i))"

definition hex_char :: "nat \<Rightarrow> char" where
  "hex_char d = (if d < 10 then char_of (48 + d) else char_of (87 + d))"

fun join_with :: "string \<Rightarrow> string list \<Rightarrow> string" where
  "join_with sep [] = []"
| "join_with sep [x] = x"
| "join_with sep (x # y # ys) = x @ sep @ join_with sep (y # ys)"

definition decimal_value :: "string \<Rightarrow> nat" where
  "decimal_value s = foldl (\<lambda>acc c. acc * 10 + (of_char c - 48)) 0 s"

definition is_digit :: "char \<Rightarrow> bool" where
  "is_digit c = (let n = (of_char c :: nat) in 48 \<le> n \<and> n \<le> 57)"

lemma of_char_digit: "d < 10 \<Longrightarrow> (of_char (digit_char d) :: nat) = 48 + d"
  by (simp add: digit_char_def of_char_of)

lemma decimal_value_snoc: "decimal_value (xs @ [c]) = decimal_value xs * 10 + (of_char c - 48)"
  by (simp add: decimal_value_def)

lemma is_digit_char: "d < 10 \<Longrightarrow> is_digit (digit_char d)"
  by (simp add: is_digit_def of_char_digit)

lemma nat_str_digits: "list_all is_digit (nat_str n) \<and> nat_str n \<noteq> []"
proof (induction n rule: nat_str.induct)
  case (1 n)
  then show ?case
    by (subst (1 2) nat_str.simps) (auto simp: is_digit_char)
qed

lemma decimal_value_nat_str [simp]: "decimal_value (nat_str n) = n"
proof (induction n rule: nat_str.induct)
  case (1 n)
  show ?case
  proof (cases "n < 10")
    case True
    then show ?thesis by (subst nat_str.simps) (simp add: decimal_value_def of_char_digit)
  next
    case False
    then show ?thesis using 1 by (subst nat_str.simps) (simp add: decimal_value_snoc of_char_digit)
  qed
qed

lemma nat_str_inj [simp]: "nat_str m = nat_str n \<longleftrightarrow> m = n"
  by (metis decimal_value_nat_str)

lemma digit_not_minus: "is_digit c \<Longrightarrow> c \<noteq> CHR ''-'' \<and> c \<noteq> CHR ''+'' \<and> c \<noteq> CHR '':'' \<and> c \<noteq> CHR 0x00"
  by (auto simp: is_digit_def Let_def)

lemma nat_str_not_minus: "nat_str m \<noteq> CHR ''-'' # s"
proof
  assume "nat_str m = CHR ''-'' # s"
  then have "list_all is_digit (CHR ''-'' # s)" using nat_str_digits[of m] by simp
  then show False using digit_not_minus[of "CHR ''-''"] by simp
qed

lemma int_str_inj [simp]: "int_str m = int_str n \<longleftrightarrow> m = n"
  using nat_str_not_minus by (auto simp: int_str_def not_less) (metis nat_eq_iff)+

lemma int_str_no_separator: "c \<in> set (int_str n) \<Longrightarrow> c \<noteq> CHR '':'' \<and> c \<noteq> CHR 0x00"
  using nat_str_digits digit_not_minus by (fastforce simp: int_str_def list_all_iff split: if_splits)

text \<open>Two texts that end in a separator-free field agree only field by field.\<close>

lemma append_sep_inj:
  assumes "c \<notin> set x" and "c \<notin> set y"
  shows "a @ c # x = b @ c # y \<longleftrightarrow> a = b \<and> x = y"
proof
  assume eq: "a @ c # x = b @ c # y"
  have "takeWhile (\<lambda>z. z \<noteq> c) (rev (a @ c # x)) = rev x" using assms(1) by (simp add: takeWhile_append)
  moreover have "takeWhile (\<lambda>z. z \<noteq> c) (rev (b @ c # y)) = rev y" using assms(2) by (simp add: takeWhile_append)
  ultimately have "rev x = rev y" using eq by simp
  with eq show "a = b \<and> x = y" by simp
qed simp

section \<open>JSON values\<close>

text \<open>
  The values a frame holds after \<open>JSON.parse\<close>; numbers are the integers. A field with value
  \<open>undefined\<close> is a field that is absent.
\<close>

datatype json =
    JNull
  | JBool bool
  | JNum int
  | JStr string
  | JArr "json list"
  | JObj "(string \<times> json) list"

type_synonym payload = "(string \<times> json) list"

definition json_char :: "char \<Rightarrow> string" where
  "json_char c =
     (let n = (of_char c :: nat) in
      if n = 34 \<or> n = 92 then [CHR 0x5C, c]
      else if n = 8 then [CHR 0x5C, CHR ''b'']
      else if n = 9 then [CHR 0x5C, CHR ''t'']
      else if n = 10 then [CHR 0x5C, CHR ''n'']
      else if n = 12 then [CHR 0x5C, CHR ''f'']
      else if n = 13 then [CHR 0x5C, CHR ''r'']
      else if n < 32 then [CHR 0x5C, CHR ''u'', CHR ''0'', CHR ''0'', hex_char (n div 16), hex_char (n mod 16)]
      else [c])"

definition json_quote :: "string \<Rightarrow> string" where
  "json_quote s = CHR 0x22 # concat (map json_char s) @ [CHR 0x22]"

text \<open>\<open>JSON.stringify\<close>.\<close>

fun json_stringify :: "json \<Rightarrow> string" where
  "json_stringify JNull = ''null''"
| "json_stringify (JBool b) = (if b then ''true'' else ''false'')"
| "json_stringify (JNum n) = int_str n"
| "json_stringify (JStr s) = json_quote s"
| "json_stringify (JArr xs) = ''['' @ join_with '','' (map json_stringify xs) @ '']''"
| "json_stringify (JObj fs) =
     ''{'' @ join_with '','' (map (\<lambda>(k, v). json_quote k @ '':'' @ json_stringify v) fs) @ ''}''"

text \<open>\<open>String(v)\<close>; an array joins its elements, \<open>null\<close> as the empty string.\<close>

fun js_String :: "json \<Rightarrow> string" where
  "js_String JNull = ''null''"
| "js_String (JBool b) = (if b then ''true'' else ''false'')"
| "js_String (JNum n) = int_str n"
| "js_String (JStr s) = s"
| "js_String (JArr xs) = join_with '','' (map (\<lambda>x. if x = JNull then [] else js_String x) xs)"
| "js_String (JObj fs) = ''[object Object]''"

text \<open>\<open>String(v ?? '')\<close> of an optional field.\<close>

fun js_String_or_empty :: "json option \<Rightarrow> string" where
  "js_String_or_empty None = []"
| "js_String_or_empty (Some JNull) = []"
| "js_String_or_empty (Some v) = js_String v"

text \<open>
  \<open>Number(v)\<close> where the result is an integer; \<^const>\<open>None\<close> is NaN. Of the numeric string
  literals the decimal integers are represented.
\<close>

definition str_Number :: "string \<Rightarrow> int option" where
  "str_Number s =
     (let t = js_trim s;
          negative = (t \<noteq> [] \<and> hd t = CHR ''-'');
          digits = (if t \<noteq> [] \<and> (hd t = CHR ''-'' \<or> hd t = CHR ''+'') then tl t else t)
      in if t = [] then Some 0
         else if digits \<noteq> [] \<and> list_all is_digit digits
           then Some (if negative then - int (decimal_value digits) else int (decimal_value digits))
         else None)"

fun js_Number :: "json option \<Rightarrow> int option" where
  "js_Number None = None"
| "js_Number (Some JNull) = Some 0"
| "js_Number (Some (JBool b)) = Some (if b then 1 else 0)"
| "js_Number (Some (JNum n)) = Some n"
| "js_Number (Some v) = str_Number (js_String v)"

definition MAX_SAFE_INTEGER :: int where
  "MAX_SAFE_INTEGER = 9007199254740991"

definition is_safe_integer :: "int \<Rightarrow> bool" where
  "is_safe_integer n = (\<bar>n\<bar> \<le> MAX_SAFE_INTEGER)"

text \<open>Quoting is injective: every escape is read back as one character.\<close>

definition hex_code :: "nat \<Rightarrow> nat" where
  "hex_code d = (if d < 10 then 48 + d else 87 + d)"

lemma hex_code_inj: "a < 16 \<Longrightarrow> b < 16 \<Longrightarrow> hex_code a = hex_code b \<longleftrightarrow> a = b"
  by (auto simp: hex_code_def split: if_splits)

lemma of_char_hex: "d < 16 \<Longrightarrow> (of_char (hex_char d) :: nat) = hex_code d"
  by (simp add: hex_char_def hex_code_def of_char_of)

definition escape_code :: "nat \<Rightarrow> nat" where
  "escape_code n = (if n = 34 \<or> n = 92 then n else if n = 8 then 98 else if n = 9 then 116
     else if n = 10 then 110 else if n = 12 then 102 else if n = 13 then 114 else 117)"

definition escaped :: "nat \<Rightarrow> bool" where
  "escaped n \<longleftrightarrow> n < 32 \<or> n = 34 \<or> n = 92"

lemma json_char_codes:
  "map of_char (json_char c) =
     (let n = (of_char c :: nat) in
      if escaped n
      then [92, escape_code n] @ (if escape_code n = 117 then [48, 48, hex_code (n div 16), hex_code (n mod 16)] else [])
      else [n])"
  by (auto simp: json_char_def Let_def of_char_hex escape_code_def escaped_def)

lemma escape_code_inj:
  "escaped m \<Longrightarrow> escaped n \<Longrightarrow> escape_code m = escape_code n \<Longrightarrow> m = n \<or> (m < 32 \<and> n < 32 \<and> escape_code n = 117)"
  by (auto simp: escape_code_def escaped_def split: if_splits)

lemma json_char_prefix:
  assumes "json_char c @ s = json_char d @ t" shows "c = d \<and> s = t"
proof -
  let ?n = "of_char c :: nat" and ?m = "of_char d :: nat"
  have eq: "map of_char (json_char c) @ map of_char s = map of_char (json_char d) @ (map of_char t :: nat list)"
    using arg_cong[OF assms, of "map of_char"] by simp
  have e92: "escaped 92" by (simp add: escaped_def)
  have "?n = ?m"
  proof (cases "escaped ?n \<and> escaped ?m")
    case True
    then have "escape_code ?n = escape_code ?m" using eq by (simp add: json_char_codes Let_def)
    then consider "?n = ?m" | "?n < 32" "?m < 32" "escape_code ?n = 117" "escape_code ?m = 117"
      using escape_code_inj True by metis
    then show ?thesis
    proof cases
      case 2
      then have "hex_code (?n div 16) = hex_code (?m div 16)" "hex_code (?n mod 16) = hex_code (?m mod 16)"
        using eq True by (simp_all add: json_char_codes Let_def)
      moreover have "?n div 16 < 16" "?m div 16 < 16" using 2 by linarith+
      ultimately have "?n div 16 = ?m div 16" "?n mod 16 = ?m mod 16" by (simp_all add: hex_code_inj)
      then show ?thesis by (metis div_mult_mod_eq)
    qed
  next
    case False
    then show ?thesis using eq e92 by (auto simp: json_char_codes Let_def split: if_splits)
  qed
  then have "c = d" by (simp add: of_char_eq_iff)
  then show ?thesis using assms by simp
qed

lemma json_char_head: "json_char c \<noteq> [] \<and> hd (json_char c) \<noteq> CHR 0x22"
  by (auto simp: json_char_def Let_def)

lemma json_quote_inj [simp]: "json_quote s = json_quote t \<longleftrightarrow> s = t"
proof -
  have body: "concat (map json_char s) @ [CHR 0x22] = concat (map json_char t) @ [CHR 0x22] \<Longrightarrow> s = t"
  proof (induction s arbitrary: t)
    case Nil
    then show ?case using json_char_head by (cases t) (auto simp: append_eq_Cons_conv)
  next
    case (Cons c s)
    show ?case
    proof (cases t)
      case Nil
      then show ?thesis using Cons.prems json_char_head[of c] by (auto simp: append_eq_Cons_conv)
    next
      case t: (Cons d t')
      then have "json_char c @ (concat (map json_char s) @ [CHR 0x22]) = json_char d @ (concat (map json_char t') @ [CHR 0x22])"
        using Cons.prems by simp
      from json_char_prefix[OF this] show ?thesis using Cons.IH[of t'] t by simp
    qed
  qed
  then show ?thesis by (auto simp: json_quote_def)
qed
section \<open>Transition systems\<close>

text \<open>
  The interface between a component's step relation and the safety properties stated of all its
  runs: a set of start states, the steps, an invariant that the start states have and every
  step keeps.
\<close>

locale transition_system =
  fixes start :: "'s \<Rightarrow> bool"
    and step :: "'s \<Rightarrow> 's \<Rightarrow> bool"
    and inv :: "'s \<Rightarrow> bool"
  assumes inv_start: "start s \<Longrightarrow> inv s"
    and inv_step: "inv s \<Longrightarrow> step s t \<Longrightarrow> inv t"
begin

lemma inv_steps: "step\<^sup>*\<^sup>* s t \<Longrightarrow> inv s \<Longrightarrow> inv t"
  by (induction rule: rtranclp_induct) (auto intro: inv_step)

lemma inv_reachable: "start s \<Longrightarrow> step\<^sup>*\<^sup>* s t \<Longrightarrow> inv t"
  by (rule inv_steps) (auto intro: inv_start)

text \<open>A measure no step decreases is monotone along a run.\<close>

lemma monotone_steps:
  fixes m :: "'s \<Rightarrow> 'o::preorder"
  assumes "\<And>s t. inv s \<Longrightarrow> step s t \<Longrightarrow> m s \<le> m t"
  shows "step\<^sup>*\<^sup>* s t \<Longrightarrow> inv s \<Longrightarrow> m s \<le> m t"
proof (induction rule: rtranclp_induct)
  case base
  show ?case by simp
next
  case (step t u)
  have "inv t" using step inv_steps by blast
  with step assms show ?case by (blast intro: order_trans)
qed

end

end
