(* ===== verification/Rate_Limit.thy ===== *)
theory Rate_Limit
  imports Prelude
begin

text \<open>
  The per-address connection limiter of \<open>relay/src/rate-limit.ts\<close>: a burst window, a longer
  window and an escalating ban for repeated authentication failures. The injected clock is the
  time argument \<open>t\<close> (milliseconds) of every operation.
\<close>

section \<open>Model\<close>

record RateLimitConfig =
  burstWindowMs :: int
  burstMax :: int
  windowMs :: int
  windowMax :: int
  authFailThreshold :: int

definition DEFAULT_RATE_LIMIT_CONFIG :: RateLimitConfig where
  "DEFAULT_RATE_LIMIT_CONFIG =
     \<lparr>burstWindowMs = 10000, burstMax = 5, windowMs = 60000, windowMax = 30, authFailThreshold = 3\<rparr>"

record WindowEntry =
  we_count :: int
  we_resetAt :: int

record AuthFailEntry =
  fails :: int
  bannedUntil :: int
  lastFailAt :: int

datatype CheckResult = CheckAllowed | CheckDenied string

record ConnectionRateLimiter =
  burst :: "(string, WindowEntry) jsmap"
  window :: "(string, WindowEntry) jsmap"
  authFails :: "(string, AuthFailEntry) jsmap"

definition new_limiter :: ConnectionRateLimiter where
  "new_limiter = \<lparr>burst = [], window = [], authFails = []\<rparr>"

definition ladderSeconds :: "int list" where
  "ladderSeconds = [30, 120, 600, 1800]"

definition authFailBanDuration :: "int \<Rightarrow> RateLimitConfig \<Rightarrow> int" where
  "authFailBanDuration n cfg =
     (if n < authFailThreshold cfg then 0
      else let idx = min (n - authFailThreshold cfg) (int (length ladderSeconds) - 1)
           in ladderSeconds ! nat idx)"

text \<open>
  The entry a check works with: the stored one, or a fresh one when there is none or it has
  expired; its count is incremented before it is stored.
\<close>

definition bump_window :: "int \<Rightarrow> int \<Rightarrow> string \<Rightarrow> (string, WindowEntry) jsmap \<Rightarrow> WindowEntry" where
  "bump_window t span ip m =
     (let fresh = \<lparr>we_count = 0, we_resetAt = t + span\<rparr>;
          b = (case jm_get m ip of None \<Rightarrow> fresh
               | Some e \<Rightarrow> if t > we_resetAt e then fresh else e)
      in b\<lparr>we_count := we_count b + 1\<rparr>)"

definition rl_banned :: "int \<Rightarrow> string \<Rightarrow> ConnectionRateLimiter \<Rightarrow> bool" where
  "rl_banned t ip l =
     (case jm_get (authFails l) ip of None \<Rightarrow> False | Some af \<Rightarrow> t < bannedUntil af)"

definition check ::
    "RateLimitConfig \<Rightarrow> int \<Rightarrow> string \<Rightarrow> ConnectionRateLimiter \<Rightarrow> CheckResult \<times> ConnectionRateLimiter" where
  "check cfg t ip l =
     (if rl_banned t ip l then (CheckDenied ''authentication failure ban'', l)
      else
        let b = bump_window t (burstWindowMs cfg) ip (burst l);
            l1 = l\<lparr>burst := jm_set ip b (burst l)\<rparr>
        in if we_count b > burstMax cfg then (CheckDenied ''burst rate limit exceeded'', l1)
           else
             let w = bump_window t (windowMs cfg) ip (window l1);
                 l2 = l1\<lparr>window := jm_set ip w (window l1)\<rparr>
             in if we_count w > windowMax cfg then (CheckDenied ''rate limit exceeded'', l2)
                else (CheckAllowed, l2))"

definition recordAuthFailure ::
    "RateLimitConfig \<Rightarrow> int \<Rightarrow> string \<Rightarrow> ConnectionRateLimiter \<Rightarrow> int \<times> ConnectionRateLimiter" where
  "recordAuthFailure cfg t ip l =
     (let af0 = (case jm_get (authFails l) ip of
                   None \<Rightarrow> \<lparr>fails = 0, bannedUntil = 0, lastFailAt = t\<rparr>
                 | Some af \<Rightarrow> af);
          af1 = af0\<lparr>fails := fails af0 + 1, lastFailAt := t\<rparr>;
          dur = authFailBanDuration (fails af1) cfg;
          af2 = (if dur > 0 then af1\<lparr>bannedUntil := t + dur * 1000\<rparr> else af1)
      in (dur, l\<lparr>authFails := jm_set ip af2 (authFails l)\<rparr>))"

definition clearAuthFailure :: "string \<Rightarrow> ConnectionRateLimiter \<Rightarrow> ConnectionRateLimiter" where
  "clearAuthFailure ip l = l\<lparr>authFails := jm_delete ip (authFails l)\<rparr>"

definition rl_gc :: "int \<Rightarrow> ConnectionRateLimiter \<Rightarrow> ConnectionRateLimiter" where
  "rl_gc t l =
     \<lparr>burst = filter (\<lambda>(k, v). \<not> t > we_resetAt v) (burst l),
      window = filter (\<lambda>(k, v). \<not> t > we_resetAt v) (window l),
      authFails = filter (\<lambda>(k, v). \<not> (t > bannedUntil v \<and> t > lastFailAt v + 86400000)) (authFails l)\<rparr>"

section \<open>Operations in sequence\<close>

text \<open>A trace of limiter calls with their times; a run collects the result of every check.\<close>

datatype rl_op = OpCheck string | OpAuthFailure string | OpClear string | OpGc

fun rl_step ::
    "RateLimitConfig \<Rightarrow> int \<times> rl_op \<Rightarrow> ConnectionRateLimiter \<Rightarrow> (string \<times> CheckResult) list \<times> ConnectionRateLimiter" where
  "rl_step cfg (t, OpCheck ip) l = (case check cfg t ip l of (r, l') \<Rightarrow> ([(ip, r)], l'))"
| "rl_step cfg (t, OpAuthFailure ip) l = ([], snd (recordAuthFailure cfg t ip l))"
| "rl_step cfg (t, OpClear ip) l = ([], clearAuthFailure ip l)"
| "rl_step cfg (t, OpGc) l = ([], rl_gc t l)"

fun rl_run ::
    "RateLimitConfig \<Rightarrow> (int \<times> rl_op) list \<Rightarrow> ConnectionRateLimiter \<Rightarrow> (string \<times> CheckResult) list \<times> ConnectionRateLimiter" where
  "rl_run cfg [] l = ([], l)"
| "rl_run cfg (x # xs) l =
     (let (r, l1) = rl_step cfg x l; (rs, l2) = rl_run cfg xs l1 in (r @ rs, l2))"

definition allowed_for :: "string \<Rightarrow> (string \<times> CheckResult) list \<Rightarrow> nat" where
  "allowed_for ip rs = length (filter (\<lambda>x. x = (ip, CheckAllowed)) rs)"

definition limiter_wf :: "ConnectionRateLimiter \<Rightarrow> bool" where
  "limiter_wf l \<longleftrightarrow> jm_wf (burst l) \<and> jm_wf (window l) \<and> jm_wf (authFails l)"

lemma limiter_wf_new [simp]: "limiter_wf new_limiter"
  by (simp add: limiter_wf_def new_limiter_def)

lemma rl_step_wf: "limiter_wf l \<Longrightarrow> limiter_wf (snd (rl_step cfg x l))"
  by (cases "(cfg, x, l)" rule: rl_step.cases)
    (auto simp: limiter_wf_def check_def recordAuthFailure_def clearAuthFailure_def rl_gc_def Let_def)

section \<open>Burst budget\<close>

text \<open>
  What an address can still be granted inside an interval that ends at \<open>b\<close> and is no longer
  than the burst window: what is left of the stored entry, plus one fresh entry unless the
  stored one outlives the interval.
\<close>

definition burst_budget :: "RateLimitConfig \<Rightarrow> int \<Rightarrow> string \<Rightarrow> ConnectionRateLimiter \<Rightarrow> nat" where
  "burst_budget cfg b ip l =
     (case jm_get (burst l) ip of
        None \<Rightarrow> nat (burstMax cfg)
      | Some e \<Rightarrow> nat (burstMax cfg - we_count e) + (if b \<le> we_resetAt e then 0 else nat (burstMax cfg)))"

lemma check_burst:
  "burst (snd (check cfg t ip l)) =
     (if rl_banned t ip l then burst l
      else jm_set ip (bump_window t (burstWindowMs cfg) ip (burst l)) (burst l))"
  by (simp add: check_def Let_def)

lemma check_allowed_burst:
  "fst (check cfg t ip l) = CheckAllowed \<Longrightarrow>
     \<not> rl_banned t ip l \<and> we_count (bump_window t (burstWindowMs cfg) ip (burst l)) \<le> burstMax cfg"
  by (auto simp: check_def Let_def split: if_splits)

lemma check_budget:
  assumes "a \<le> t" and "t \<le> b" and "b \<le> a + burstWindowMs cfg"
    and "\<forall>e. jm_get (burst l) ip = Some e \<longrightarrow> 0 \<le> we_count e"
  shows "(if fst (check cfg t ip l) = CheckAllowed then 1 else 0)
      + burst_budget cfg b ip (snd (check cfg t ip l)) \<le> burst_budget cfg b ip l"
proof (cases "rl_banned t ip l")
  case True
  then show ?thesis by (simp add: check_def)
next
  case False
  show ?thesis
  proof (cases "fst (check cfg t ip l) = CheckAllowed")
    case True
    with check_allowed_burst[OF True] False assms show ?thesis
      by (auto simp: burst_budget_def check_burst bump_window_def Let_def split: option.splits if_splits)
  next
    case not_allowed: False
    with False assms show ?thesis
      by (auto simp: burst_budget_def check_burst bump_window_def Let_def split: option.splits if_splits)
  qed
qed

text \<open>Counts are never negative: they start at zero and only grow.\<close>

definition counts_ok :: "ConnectionRateLimiter \<Rightarrow> bool" where
  "counts_ok l \<longleftrightarrow> (\<forall>ip e. jm_get (burst l) ip = Some e \<longrightarrow> 0 \<le> we_count e)"

lemma rl_step_counts_ok:
  assumes "limiter_wf l" and "counts_ok l"
  shows "counts_ok (snd (rl_step cfg x l))"
proof (cases "(cfg, x, l)" rule: rl_step.cases)
  case (1 cfg t ip l)
  with assms show ?thesis
    by (auto simp: counts_ok_def check_burst bump_window_def Let_def split_def split: option.splits if_splits)
next
  case (4 cfg t l)
  with assms show ?thesis
    by (auto simp: counts_ok_def rl_gc_def limiter_wf_def jm_get_filter split: option.splits if_splits)
qed (use assms in \<open>auto simp: counts_ok_def recordAuthFailure_def clearAuthFailure_def Let_def\<close>)

lemma rl_step_budget:
  assumes "limiter_wf l" and "counts_ok l"
    and "a \<le> fst x" and "fst x \<le> b" and "b \<le> a + burstWindowMs cfg"
  shows "allowed_for ip (fst (rl_step cfg x l)) + burst_budget cfg b ip (snd (rl_step cfg x l))
      \<le> burst_budget cfg b ip l"
proof (cases "(cfg, x, l)" rule: rl_step.cases)
  case (1 cfg' t ip' l')
  show ?thesis
  proof (cases "ip' = ip")
    case True
    with 1 assms check_budget[of a t b cfg l ip] show ?thesis
      by (auto simp: allowed_for_def counts_ok_def split_def)
  next
    case False
    with 1 show ?thesis
      by (auto simp: allowed_for_def split_def burst_budget_def check_burst)
  qed
next
  case (4 cfg' t l')
  with assms show ?thesis
    by (auto simp: allowed_for_def burst_budget_def rl_gc_def limiter_wf_def jm_get_filter
        split: option.splits if_splits)
qed (auto simp: allowed_for_def burst_budget_def recordAuthFailure_def clearAuthFailure_def Let_def)

lemma rl_run_budget:
  assumes "limiter_wf l" and "counts_ok l"
    and "\<forall>x \<in> set xs. a \<le> fst x \<and> fst x \<le> b" and "b \<le> a + burstWindowMs cfg"
  shows "allowed_for ip (fst (rl_run cfg xs l)) \<le> burst_budget cfg b ip l"
  using assms
proof (induction xs arbitrary: l)
  case Nil
  then show ?case by (simp add: allowed_for_def)
next
  case (Cons x xs)
  obtain r l1 where s: "rl_step cfg x l = (r, l1)" by force
  obtain rs l2 where rest: "rl_run cfg xs l1 = (rs, l2)" by force
  have "allowed_for ip r + burst_budget cfg b ip l1 \<le> burst_budget cfg b ip l"
    using rl_step_budget[of l a x b cfg ip] Cons.prems s by simp
  moreover have "allowed_for ip rs \<le> burst_budget cfg b ip l1"
    using Cons.IH[of l1] Cons.prems s rest rl_step_wf[of l cfg x] rl_step_counts_ok[of l cfg x] by simp
  ultimately show ?case using s rest by (simp add: allowed_for_def)
qed

lemma rl_run_wf_counts:
  "limiter_wf l \<Longrightarrow> counts_ok l \<Longrightarrow>
     limiter_wf (snd (rl_run cfg xs l)) \<and> counts_ok (snd (rl_run cfg xs l))"
proof (induction xs arbitrary: l)
  case Nil
  then show ?case by simp
next
  case (Cons x xs)
  then show ?case
    using rl_step_wf[of l cfg x] rl_step_counts_ok[of l cfg x] by (auto simp: Let_def split_def)
qed

lemma counts_ok_new [simp]: "counts_ok new_limiter"
  by (simp add: counts_ok_def new_limiter_def)

lemma burst_budget_le: "counts_ok l \<Longrightarrow> burst_budget cfg b ip l \<le> 2 * nat (burstMax cfg)"
  by (fastforce simp: burst_budget_def counts_ok_def split: option.splits)

section \<open>Bans\<close>

text \<open>Consecutive failures of one address, oldest first.\<close>

fun record_failures :: "RateLimitConfig \<Rightarrow> string \<Rightarrow> int list \<Rightarrow> ConnectionRateLimiter \<Rightarrow> ConnectionRateLimiter" where
  "record_failures cfg ip [] l = l"
| "record_failures cfg ip (t # ts) l = record_failures cfg ip ts (snd (recordAuthFailure cfg t ip l))"

lemma record_failures_append:
  "record_failures cfg ip (ts @ us) l = record_failures cfg ip us (record_failures cfg ip ts l)"
  by (induction ts arbitrary: l) auto

definition fail_count :: "string \<Rightarrow> ConnectionRateLimiter \<Rightarrow> int" where
  "fail_count ip l = (case jm_get (authFails l) ip of None \<Rightarrow> 0 | Some af \<Rightarrow> fails af)"

lemma fail_count_record: "fail_count ip (snd (recordAuthFailure cfg t ip l)) = fail_count ip l + 1"
  by (auto simp: fail_count_def recordAuthFailure_def Let_def split: option.splits)

lemma fail_count_records: "fail_count ip (record_failures cfg ip ts l) = fail_count ip l + int (length ts)"
  by (induction ts arbitrary: l) (auto simp: fail_count_record)

lemma authFailBanDuration_range:
  assumes "authFailThreshold cfg \<le> n"
  shows "30 \<le> authFailBanDuration n cfg \<and> authFailBanDuration n cfg \<le> 1800"
proof -
  define i where "i = nat (min (n - authFailThreshold cfg) 3)"
  have "i \<in> {0, 1, 2, 3}" using assms by (auto simp: i_def)
  moreover have "authFailBanDuration n cfg = ladderSeconds ! i"
    using assms by (simp add: authFailBanDuration_def ladderSeconds_def i_def Let_def)
  ultimately show ?thesis by (auto simp: ladderSeconds_def)
qed

lemma recordAuthFailure_bans:
  assumes "authFailThreshold cfg \<le> fail_count ip l + 1"
    and "t' < t + authFailBanDuration (fail_count ip l + 1) cfg * 1000"
  shows "rl_banned t' ip (snd (recordAuthFailure cfg t ip l))"
  using assms authFailBanDuration_range[OF assms(1)]
  by (auto simp: rl_banned_def recordAuthFailure_def fail_count_def Let_def split: option.splits)

section \<open>Properties\<close>



text \<open>
  A client that keeps failing authentication is shut out: after at least
  \<open>authFailThreshold\<close> consecutive failures every check before the ban ends is refused with the
  ban's reason and leaves the limiter as it was; the ban lasts between 30 seconds and 30
  minutes, counted from the last failure.
\<close>

lemma repeated_failures_are_banned:
  assumes "authFailThreshold cfg \<le> int (length (ts @ [t]))"
    and "t' < t + authFailBanDuration (int (length (ts @ [t]))) cfg * 1000"
  shows "check cfg t' ip (record_failures cfg ip (ts @ [t]) new_limiter)
      = (CheckDenied ''authentication failure ban'', record_failures cfg ip (ts @ [t]) new_limiter)
    \<and> authFailBanDuration (int (length (ts @ [t]))) cfg \<in> {30..1800}"
proof -
  let ?l = "record_failures cfg ip ts new_limiter"
  have n: "fail_count ip ?l + 1 = int (length (ts @ [t]))"
    using fail_count_records[of ip cfg ts new_limiter] by (simp add: fail_count_def new_limiter_def)
  have "rl_banned t' ip (snd (recordAuthFailure cfg t ip ?l))"
    using recordAuthFailure_bans[of cfg ip ?l t' t] assms unfolding n by blast
  then show ?thesis
    using authFailBanDuration_range[OF assms(1)] by (simp add: record_failures_append check_def)
qed

lemma repeated_failures_are_banned_example:
  "fst (check DEFAULT_RATE_LIMIT_CONFIG 29000 ''a''
      (record_failures DEFAULT_RATE_LIMIT_CONFIG ''a'' ([0, 1] @ [2]) new_limiter))
    = CheckDenied ''authentication failure ban''"
  using repeated_failures_are_banned[of DEFAULT_RATE_LIMIT_CONFIG "[0, 1]" 2 29000 "''a''"]
  by (simp add: DEFAULT_RATE_LIMIT_CONFIG_def authFailBanDuration_def ladderSeconds_def)

text \<open>
  Garbage collection is invisible to admission: at the time it runs or later, every check
  of every address gets the answer it would have got without it.
\<close>

lemma rl_gc_keeps_decisions:
  assumes "t \<le> t'"
  shows "fst (check cfg t' ip (rl_gc t (snd (rl_run cfg history new_limiter))))
    = fst (check cfg t' ip (snd (rl_run cfg history new_limiter)))"
proof -
  let ?l = "snd (rl_run cfg history new_limiter)"
  have wf: "jm_wf (burst ?l)" "jm_wf (window ?l)" "jm_wf (authFails ?l)"
    using rl_run_wf_counts[OF limiter_wf_new counts_ok_new, of cfg history]
    by (simp_all add: limiter_wf_def)
  have "rl_banned t' ip (rl_gc t ?l) = rl_banned t' ip ?l"
    using wf assms by (auto simp: rl_banned_def rl_gc_def jm_get_filter split: option.splits)
  moreover have "bump_window t' w ip (burst (rl_gc t ?l)) = bump_window t' w ip (burst ?l)" for w
    using wf assms by (auto simp: bump_window_def rl_gc_def jm_get_filter Let_def split: option.splits)
  moreover have "bump_window t' w ip (window (rl_gc t ?l)) = bump_window t' w ip (window ?l)" for w
    using wf assms by (auto simp: bump_window_def rl_gc_def jm_get_filter Let_def split: option.splits)
  ultimately show ?thesis by (simp add: check_def Let_def)
qed

lemma rl_gc_keeps_decisions_example:
  "fst (check DEFAULT_RATE_LIMIT_CONFIG 20000 ''a'' (rl_gc 15000
      (snd (rl_run DEFAULT_RATE_LIMIT_CONFIG [(0, OpCheck ''a'')] new_limiter)))) = CheckAllowed"
  using rl_gc_keeps_decisions[of 15000 20000 DEFAULT_RATE_LIMIT_CONFIG "''a''" "[(0, OpCheck ''a'')]"]
  by (simp add: DEFAULT_RATE_LIMIT_CONFIG_def check_def bump_window_def rl_banned_def new_limiter_def Let_def)

end
