(* ===== verification/Connection_Guards.thy ===== *)
theory Connection_Guards
  imports Prelude
begin

text \<open>
  The guards in front of the relay's sockets and side effects: the admission of connections
  that still authenticate (\<open>relay/src/connection-admission.ts\<close>), the bounded task executor
  (\<open>relay/src/ingress/bounded-executor.ts\<close>), the authority lease of a daemon registration
  (\<open>relay/src/ingress/auth-lease.ts\<close>) and the push deduper (\<open>relay/src/push-deduper.ts\<close>).
  Clocks and jitter sources are arguments.
\<close>

section \<open>Connection admission\<close>

datatype ConnectionKind = KDaemon | KClient

record ConnectionAdmissionOptions =
  daemonGlobalMax :: int
  clientGlobalMax :: int
  daemonPerAddressMax :: int
  clientPerAddressMax :: int

record ConnectionAdmission =
  ca_active :: "(ConnectionKind, int) jsmap"
  ca_byAddress :: "(string, int) jsmap"

text \<open>The closure returned to an admitted caller, with the variables it captures.\<close>

record admission_ticket =
  tk_kind :: ConnectionKind
  tk_addressKey :: string
  tk_released :: bool

datatype AdmissionResult = Admitted admission_ticket | NotAdmitted int

fun kind_str :: "ConnectionKind \<Rightarrow> string" where
  "kind_str KDaemon = ''daemon''"
| "kind_str KClient = ''client''"

definition addressKey :: "ConnectionKind \<Rightarrow> string \<Rightarrow> string" where
  "addressKey kind addr = kind_str kind @ [CHR 0x00] @ addr"

definition globalMax :: "ConnectionAdmissionOptions \<Rightarrow> ConnectionKind \<Rightarrow> int" where
  "globalMax o' kind = (if kind = KDaemon then daemonGlobalMax o' else clientGlobalMax o')"

definition perAddressMax :: "ConnectionAdmissionOptions \<Rightarrow> ConnectionKind \<Rightarrow> int" where
  "perAddressMax o' kind = (if kind = KDaemon then daemonPerAddressMax o' else clientPerAddressMax o')"

definition tryAcquire ::
    "ConnectionAdmissionOptions \<Rightarrow> int \<Rightarrow> ConnectionKind \<Rightarrow> string \<Rightarrow> ConnectionAdmission
      \<Rightarrow> AdmissionResult \<times> ConnectionAdmission" where
  "tryAcquire o' jitter kind remoteAddress a =
     (let key = addressKey kind remoteAddress;
          kindActive = jm_get_or (ca_active a) kind 0;
          addressActive = jm_get_or (ca_byAddress a) key 0
      in if kindActive \<ge> globalMax o' kind \<or> addressActive \<ge> perAddressMax o' kind
         then (NotAdmitted (max 0 jitter), a)
         else (Admitted \<lparr>tk_kind = kind, tk_addressKey = key, tk_released = False\<rparr>,
               \<lparr>ca_active = jm_set kind (kindActive + 1) (ca_active a),
                ca_byAddress = jm_set key (addressActive + 1) (ca_byAddress a)\<rparr>))"

definition dec_or_delete :: "'k \<Rightarrow> ('k, int) jsmap \<Rightarrow> ('k, int) jsmap" where
  "dec_or_delete k m =
     (let n = jm_get_or m k 1 - 1 in if n = 0 then jm_delete k m else jm_set k n m)"

definition release_ticket ::
    "admission_ticket \<Rightarrow> ConnectionAdmission \<Rightarrow> admission_ticket \<times> ConnectionAdmission" where
  "release_ticket tk a =
     (if tk_released tk then (tk, a)
      else (tk\<lparr>tk_released := True\<rparr>,
            \<lparr>ca_active = dec_or_delete (tk_kind tk) (ca_active a),
             ca_byAddress = dec_or_delete (tk_addressKey tk) (ca_byAddress a)\<rparr>))"

text \<open>
  The admission and every ticket handed out. A caller may release any ticket at any time and
  any number of times.
\<close>

type_synonym admission_sys = "ConnectionAdmission \<times> admission_ticket list"

inductive admission_step :: "ConnectionAdmissionOptions \<Rightarrow> admission_sys \<Rightarrow> admission_sys \<Rightarrow> bool"
  for o' :: ConnectionAdmissionOptions where
  admit: "tryAcquire o' jitter kind addr a = (Admitted tk, a') \<Longrightarrow>
     admission_step o' (a, tks) (a', tks @ [tk])"
| refuse: "tryAcquire o' jitter kind addr a = (NotAdmitted r, a') \<Longrightarrow>
     admission_step o' (a, tks) (a', tks)"
| free: "i < length tks \<Longrightarrow> release_ticket (tks ! i) a = (tk', a') \<Longrightarrow>
     admission_step o' (a, tks) (a', tks[i := tk'])"

definition held :: "(admission_ticket \<Rightarrow> bool) \<Rightarrow> admission_ticket list \<Rightarrow> nat" where
  "held P tks = length (filter (\<lambda>tk. \<not> tk_released tk \<and> P tk) tks)"

text \<open>Every counter is the number of unreleased tickets it stands for, and absent at zero.\<close>

definition counts_held :: "('k, int) jsmap \<Rightarrow> (admission_ticket \<Rightarrow> 'k) \<Rightarrow> admission_ticket list \<Rightarrow> bool" where
  "counts_held m f tks \<longleftrightarrow>
     (\<forall>k. jm_get m k = (let n = held (\<lambda>tk. f tk = k) tks in if n = 0 then None else Some (int n)))"

definition ticket_ok :: "admission_ticket \<Rightarrow> bool" where
  "ticket_ok tk \<longleftrightarrow> (\<exists>addr. tk_addressKey tk = addressKey (tk_kind tk) addr)"

definition admission_inv :: "ConnectionAdmissionOptions \<Rightarrow> admission_sys \<Rightarrow> bool" where
  "admission_inv o' s \<longleftrightarrow>
     counts_held (ca_active (fst s)) tk_kind (snd s)
     \<and> counts_held (ca_byAddress (fst s)) tk_addressKey (snd s)
     \<and> (\<forall>tk \<in> set (snd s). ticket_ok tk)
     \<and> (\<forall>kind. int (held (\<lambda>tk. tk_kind tk = kind) (snd s)) \<le> max 0 (globalMax o' kind))
     \<and> (\<forall>kind addr. int (held (\<lambda>tk. tk_addressKey tk = addressKey kind addr) (snd s))
          \<le> max 0 (perAddressMax o' kind))"

definition admission_start :: "admission_sys \<Rightarrow> bool" where
  "admission_start s \<longleftrightarrow> s = (\<lparr>ca_active = [], ca_byAddress = []\<rparr>, [])"

lemma addressKey_inj [simp]: "addressKey k a = addressKey k' a' \<longleftrightarrow> k = k' \<and> a = a'"
  by (cases k; cases k') (auto simp: addressKey_def)

lemma held_snoc: "held P (tks @ [tk]) = held P tks + (if \<not> tk_released tk \<and> P tk then 1 else 0)"
  by (simp add: held_def)

lemma held_release:
  assumes "i < length tks" and "\<not> tk_released (tks ! i)"
    and "\<And>tk. P (tk\<lparr>tk_released := True\<rparr>) = P tk"
  shows "held P tks = held P (tks[i := (tks ! i)\<lparr>tk_released := True\<rparr>]) + (if P (tks ! i) then 1 else 0)"
  using assms(1,2)
proof (induction tks arbitrary: i)
  case Nil
  then show ?case by simp
next
  case (Cons tk tks)
  show ?case
  proof (cases i)
    case 0
    with Cons.prems show ?thesis by (simp add: held_def assms(3))
  next
    case (Suc j)
    with Cons.IH[of j] Cons.prems show ?thesis by (simp add: held_def)
  qed
qed

lemma counts_held_get: "counts_held m f tks \<Longrightarrow> jm_get_or m k 0 = int (held (\<lambda>tk. f tk = k) tks)"
  by (auto simp: counts_held_def jm_get_or_def Let_def split: option.splits if_splits)

lemma counts_held_admit:
  assumes "counts_held m f tks" and "\<not> tk_released tk" and "f tk = k"
  shows "counts_held (jm_set k (jm_get_or m k 0 + 1) m) f (tks @ [tk])"
  using assms counts_held_get[OF assms(1), of k] by (auto simp: counts_held_def held_snoc Let_def)

lemma counts_held_free:
  assumes inv: "counts_held m f tks" and i: "i < length tks" and nr: "\<not> tk_released (tks ! i)"
    and f: "\<And>tk. f (tk\<lparr>tk_released := True\<rparr>) = f tk"
  shows "counts_held (dec_or_delete (f (tks ! i)) m) f (tks[i := (tks ! i)\<lparr>tk_released := True\<rparr>])"
proof -
  let ?k = "f (tks ! i)" and ?tks' = "tks[i := (tks ! i)\<lparr>tk_released := True\<rparr>]"
  have step: "held (\<lambda>tk. f tk = k) tks = held (\<lambda>tk. f tk = k) ?tks' + (if f (tks ! i) = k then 1 else 0)" for k
    using held_release[OF i nr, of "\<lambda>tk. f tk = k"] f by simp
  have "jm_get m ?k = Some (int (held (\<lambda>tk. f tk = ?k) ?tks' + 1))"
    using inv step[of ?k] by (auto simp: counts_held_def Let_def)
  then have "jm_get_or m ?k 1 - 1 = int (held (\<lambda>tk. f tk = ?k) ?tks')" by simp
  then show ?thesis
    using inv step by (auto simp: counts_held_def dec_or_delete_def Let_def)
qed

lemma admission_inv_admit:
  assumes "admission_inv o' (a, tks)" and "tryAcquire o' jitter kind addr a = (Admitted tk, a')"
  shows "admission_inv o' (a', tks @ [tk])"
proof -
  let ?key = "addressKey kind addr"
  have tk: "tk = \<lparr>tk_kind = kind, tk_addressKey = ?key, tk_released = False\<rparr>"
    and a': "a' = \<lparr>ca_active = jm_set kind (jm_get_or (ca_active a) kind 0 + 1) (ca_active a),
                   ca_byAddress = jm_set ?key (jm_get_or (ca_byAddress a) ?key 0 + 1) (ca_byAddress a)\<rparr>"
    and lim: "jm_get_or (ca_active a) kind 0 < globalMax o' kind"
      "jm_get_or (ca_byAddress a) ?key 0 < perAddressMax o' kind"
    using assms(2) by (auto simp: tryAcquire_def Let_def split: if_splits)
  have inv: "counts_held (ca_active a) tk_kind tks" "counts_held (ca_byAddress a) tk_addressKey tks"
    using assms(1) by (simp_all add: admission_inv_def)
  have "counts_held (ca_active a') tk_kind (tks @ [tk])" "counts_held (ca_byAddress a') tk_addressKey (tks @ [tk])"
    unfolding a' by (auto intro!: counts_held_admit inv simp: tk)
  then show ?thesis
    using assms(1) lim counts_held_get[OF inv(1)] counts_held_get[OF inv(2)]
    by (auto simp: admission_inv_def held_snoc tk ticket_ok_def)
qed

lemma held_free_le: "held P (tks[i := (tks ! i)\<lparr>tk_released := True\<rparr>]) \<le> held P tks"
  if "i < length tks" "\<And>tk. P (tk\<lparr>tk_released := True\<rparr>) = P tk" "\<not> tk_released (tks ! i)"
  using held_release[OF that(1,3), of P] that(2) by simp

lemma admission_inv_free:
  assumes "admission_inv o' (a, tks)" and i: "i < length tks" and "release_ticket (tks ! i) a = (tk', a')"
  shows "admission_inv o' (a', tks[i := tk'])"
proof (cases "tk_released (tks ! i)")
  case True
  with assms(3) have "tks[i := tk'] = tks" and "a' = a"
    by (auto simp: release_ticket_def)
  with assms(1) show ?thesis by simp
next
  case False
  let ?tks' = "tks[i := (tks ! i)\<lparr>tk_released := True\<rparr>]"
  have r: "tk' = (tks ! i)\<lparr>tk_released := True\<rparr>"
    "a' = \<lparr>ca_active = dec_or_delete (tk_kind (tks ! i)) (ca_active a),
           ca_byAddress = dec_or_delete (tk_addressKey (tks ! i)) (ca_byAddress a)\<rparr>"
    using assms(3) False by (auto simp: release_ticket_def)
  have inv: "counts_held (ca_active a) tk_kind tks" "counts_held (ca_byAddress a) tk_addressKey tks"
    using assms(1) by (simp_all add: admission_inv_def)
  have "counts_held (ca_active a') tk_kind ?tks'" "counts_held (ca_byAddress a') tk_addressKey ?tks'"
    unfolding r using counts_held_free[OF inv(1) i False] counts_held_free[OF inv(2) i False] by simp_all
  moreover have "\<forall>tk \<in> set ?tks'. ticket_ok tk"
  proof -
    have "ticket_ok (tks ! i)" and "\<forall>tk \<in> set tks. ticket_ok tk"
      using assms(1) i by (simp_all add: admission_inv_def)
    then show ?thesis using set_update_subset_insert[of tks i] by (fastforce simp: ticket_ok_def)
  qed
  moreover have "int (held (\<lambda>tk. tk_kind tk = k) ?tks') \<le> max 0 (globalMax o' k)" for k
  proof -
    have "held (\<lambda>tk. tk_kind tk = k) ?tks' \<le> held (\<lambda>tk. tk_kind tk = k) tks"
      by (rule held_free_le[OF i]) (use False in simp_all)
    moreover have "int (held (\<lambda>tk. tk_kind tk = k) tks) \<le> max 0 (globalMax o' k)"
      using assms(1) by (simp add: admission_inv_def)
    ultimately show ?thesis by linarith
  qed
  moreover have "int (held (\<lambda>tk. tk_addressKey tk = addressKey k s) ?tks') \<le> max 0 (perAddressMax o' k)" for k s
  proof -
    have "held (\<lambda>tk. tk_addressKey tk = addressKey k s) ?tks' \<le> held (\<lambda>tk. tk_addressKey tk = addressKey k s) tks"
      by (rule held_free_le[OF i]) (use False in simp_all)
    moreover have "int (held (\<lambda>tk. tk_addressKey tk = addressKey k s) tks) \<le> max 0 (perAddressMax o' k)"
      using assms(1) by (simp add: admission_inv_def)
    ultimately show ?thesis by linarith
  qed
  ultimately show ?thesis unfolding r(1) admission_inv_def by simp
qed

lemma admission_inv_step: "admission_step o' s s' \<Longrightarrow> admission_inv o' s \<Longrightarrow> admission_inv o' s'"
proof (induction rule: admission_step.induct)
  case (admit jitter kind addr a tk a' tks)
  then show ?case by (blast intro: admission_inv_admit)
next
  case (refuse jitter kind addr a r a' tks)
  then show ?case by (auto simp: tryAcquire_def Let_def split: if_splits)
next
  case (free i tks a tk' a')
  then show ?case by (blast intro: admission_inv_free)
qed

interpretation admission: transition_system admission_start "admission_step o'" "admission_inv o'"
proof unfold_locales
  fix s :: admission_sys
  assume "admission_start s"
  then show "admission_inv o' s"
    by (simp add: admission_start_def admission_inv_def counts_held_def held_def)
qed (blast intro: admission_inv_step)

section \<open>Bounded executor\<close>

record ExecutorOptions =
  maxConcurrent :: int
  maxPending :: int

datatype executor_config_error = MaxConcurrentRange | MaxPendingRange

text \<open>
  The counter and the FIFO of the class; \<open>ex_started\<close> logs the tasks in the order their \<open>start\<close>
  closures ran.
\<close>

record 'task BoundedExecutor =
  ex_active :: int
  ex_pending :: "'task list"
  ex_started :: "'task list"

datatype run_result = TaskStarted | TaskPending | ExecutorOverloaded

definition new_executor :: "ExecutorOptions \<Rightarrow> executor_config_error + 'task BoundedExecutor" where
  "new_executor o' =
     (if \<not> is_safe_integer (maxConcurrent o') \<or> maxConcurrent o' < 1 then Inl MaxConcurrentRange
      else if \<not> is_safe_integer (maxPending o') \<or> maxPending o' < 0 then Inl MaxPendingRange
      else Inr \<lparr>ex_active = 0, ex_pending = [], ex_started = []\<rparr>)"

definition start_task :: "'task \<Rightarrow> 'task BoundedExecutor \<Rightarrow> 'task BoundedExecutor" where
  "start_task x e = e\<lparr>ex_active := ex_active e + 1, ex_started := ex_started e @ [x]\<rparr>"

definition run_task ::
    "ExecutorOptions \<Rightarrow> 'task \<Rightarrow> 'task BoundedExecutor \<Rightarrow> run_result \<times> 'task BoundedExecutor" where
  "run_task o' x e =
     (if ex_active e < maxConcurrent o' then (TaskStarted, start_task x e)
      else if int (length (ex_pending e)) \<ge> maxPending o' then (ExecutorOverloaded, e)
      else (TaskPending, e\<lparr>ex_pending := ex_pending e @ [x]\<rparr>))"

text \<open>The \<open>finally\<close> callback of a settled task.\<close>

definition settle_task :: "'task BoundedExecutor \<Rightarrow> 'task BoundedExecutor" where
  "settle_task e =
     (let e1 = e\<lparr>ex_active := ex_active e - 1\<rparr>
      in case ex_pending e1 of [] \<Rightarrow> e1
         | x # xs \<Rightarrow> start_task x (e1\<lparr>ex_pending := xs\<rparr>))"

text \<open>A settlement happens only while a started task has not settled.\<close>

datatype 'task exec_event = RunTask 'task | Settle

fun exec_step :: "ExecutorOptions \<Rightarrow> 'task exec_event \<Rightarrow> 'task BoundedExecutor \<Rightarrow> 'task BoundedExecutor" where
  "exec_step o' (RunTask x) e = snd (run_task o' x e)"
| "exec_step o' Settle e = (if 0 < ex_active e then settle_task e else e)"

fun accepted_tasks :: "ExecutorOptions \<Rightarrow> 'task exec_event list \<Rightarrow> 'task BoundedExecutor \<Rightarrow> 'task list" where
  "accepted_tasks o' [] e = []"
| "accepted_tasks o' (RunTask x # evs) e =
     (if fst (run_task o' x e) = ExecutorOverloaded then [] else [x])
       @ accepted_tasks o' evs (exec_step o' (RunTask x) e)"
| "accepted_tasks o' (Settle # evs) e = accepted_tasks o' evs (exec_step o' Settle e)"

definition exec_run :: "ExecutorOptions \<Rightarrow> 'task exec_event list \<Rightarrow> 'task BoundedExecutor \<Rightarrow> 'task BoundedExecutor" where
  "exec_run o' evs e = fold (exec_step o') evs e"

definition exec_inv :: "ExecutorOptions \<Rightarrow> 'task BoundedExecutor \<Rightarrow> bool" where
  "exec_inv o' e \<longleftrightarrow> 0 \<le> ex_active e \<and> ex_active e \<le> maxConcurrent o'
     \<and> int (length (ex_pending e)) \<le> maxPending o'
     \<and> (ex_pending e \<noteq> [] \<longrightarrow> ex_active e = maxConcurrent o')"

lemma exec_inv_new: "new_executor o' = Inr e \<Longrightarrow> exec_inv o' e"
  by (auto simp: new_executor_def exec_inv_def split: if_splits)

lemma exec_inv_step: "1 \<le> maxConcurrent o' \<Longrightarrow> exec_inv o' e \<Longrightarrow> exec_inv o' (exec_step o' ev e)"
  by (cases ev) (auto simp: exec_inv_def run_task_def settle_task_def start_task_def Let_def split: list.splits)

lemma exec_step_fifo:
  "ex_started (exec_step o' ev e) @ ex_pending (exec_step o' ev e)
     = ex_started e @ ex_pending e @ accepted_tasks o' [ev] e" if "exec_inv o' e"
proof (cases ev)
  case (RunTask x)
  with that show ?thesis by (auto simp: run_task_def start_task_def exec_inv_def)
next
  case Settle
  then show ?thesis by (auto simp: settle_task_def start_task_def Let_def split: list.splits)
qed

lemma accepted_tasks_Cons:
  "accepted_tasks o' (ev # evs) e = accepted_tasks o' [ev] e @ accepted_tasks o' evs (exec_step o' ev e)"
  by (cases ev) auto

lemma exec_run_inv_fifo:
  assumes "1 \<le> maxConcurrent o'" and "exec_inv o' e"
  shows "exec_inv o' (exec_run o' evs e)
    \<and> ex_started (exec_run o' evs e) @ ex_pending (exec_run o' evs e)
       = ex_started e @ ex_pending e @ accepted_tasks o' evs e"
  using assms(2)
proof (induction evs arbitrary: e)
  case Nil
  then show ?case by (simp add: exec_run_def)
next
  case (Cons ev evs)
  have inv: "exec_inv o' (exec_step o' ev e)" using assms(1) Cons.prems by (rule exec_inv_step)
  show ?case
    using Cons.IH[OF inv] exec_step_fifo[OF Cons.prems, of ev]
    by (simp add: exec_run_def accepted_tasks_Cons[of o' ev evs] flip: append_assoc)
qed

section \<open>Authority leases\<close>

record LeaseState =
  confirmedAt :: int
  expiresAt :: int
  refreshAt :: int

record AuthLeaseOptions =
  leaseMs :: int
  refreshMs :: int

type_synonym AuthLeaseManager = "(string, LeaseState) jsmap"

definition nextJitter :: "int \<Rightarrow> int" where
  "nextJitter jitter = max 0 jitter"

definition lease_confirm ::
    "AuthLeaseOptions \<Rightarrow> int \<Rightarrow> string \<Rightarrow> int \<Rightarrow> AuthLeaseManager \<Rightarrow> AuthLeaseManager" where
  "lease_confirm o' jitter registrationId now m =
     jm_set registrationId
       \<lparr>confirmedAt = now, expiresAt = now + leaseMs o',
        refreshAt = now + refreshMs o' + nextJitter jitter\<rparr> m"

definition shouldRefresh :: "string \<Rightarrow> int \<Rightarrow> AuthLeaseManager \<Rightarrow> bool" where
  "shouldRefresh registrationId now m =
     (case jm_get m registrationId of None \<Rightarrow> False | Some st \<Rightarrow> now \<ge> refreshAt st)"

definition isUsable :: "string \<Rightarrow> int \<Rightarrow> AuthLeaseManager \<Rightarrow> bool" where
  "isUsable registrationId now m =
     (case jm_get m registrationId of None \<Rightarrow> False | Some st \<Rightarrow> now < expiresAt st)"

datatype lookup_verdict = KeepLease | ExpireLease

definition onLookupUnavailable ::
    "AuthLeaseOptions \<Rightarrow> int \<Rightarrow> string \<Rightarrow> int \<Rightarrow> AuthLeaseManager \<Rightarrow> lookup_verdict \<times> AuthLeaseManager" where
  "onLookupUnavailable o' jitter registrationId now m =
     (case jm_get m registrationId of
        None \<Rightarrow> (ExpireLease, m)
      | Some st \<Rightarrow>
          if now \<ge> expiresAt st then (ExpireLease, m)
          else (KeepLease, jm_set registrationId
             (st\<lparr>refreshAt := min (expiresAt st) (now + refreshMs o' + nextJitter jitter)\<rparr>) m))"

definition lease_remove :: "string \<Rightarrow> AuthLeaseManager \<Rightarrow> AuthLeaseManager" where
  "lease_remove registrationId m = jm_delete registrationId m"

datatype lease_op =
    LConfirm string int
  | LUnavailable string int
  | LRemove string

fun lease_step :: "AuthLeaseOptions \<Rightarrow> int \<times> lease_op \<Rightarrow> AuthLeaseManager \<Rightarrow> AuthLeaseManager" where
  "lease_step o' (now, LConfirm r j) m = lease_confirm o' j r now m"
| "lease_step o' (now, LUnavailable r j) m = snd (onLookupUnavailable o' j r now m)"
| "lease_step o' (now, LRemove r) m = lease_remove r m"

definition lease_run :: "AuthLeaseOptions \<Rightarrow> (int \<times> lease_op) list \<Rightarrow> AuthLeaseManager \<Rightarrow> AuthLeaseManager" where
  "lease_run o' ops m = fold (lease_step o') ops m"

text \<open>The times at which the registration was confirmed.\<close>

definition confirm_times :: "string \<Rightarrow> (int \<times> lease_op) list \<Rightarrow> int list" where
  "confirm_times r ops = map fst (filter (\<lambda>x. \<exists>j. snd x = LConfirm r j) ops)"

definition lease_alive :: "int \<Rightarrow> LeaseState \<Rightarrow> bool" where
  "lease_alive now st \<longleftrightarrow> now < expiresAt st"

interpretation lease: expiring lease_alive
  by unfold_locales (simp add: lease_alive_def)

lemma isUsable_live: "isUsable r now m \<longleftrightarrow> live_get lease_alive now m r \<noteq> None"
  by (auto simp: isUsable_def live_get_def lease_alive_def split: option.splits)

definition lease_grounded :: "AuthLeaseOptions \<Rightarrow> int list \<Rightarrow> string \<Rightarrow> AuthLeaseManager \<Rightarrow> bool" where
  "lease_grounded o' ts r m \<longleftrightarrow>
     (\<forall>st. jm_get m r = Some st \<longrightarrow> (\<exists>t0 \<in> set ts. expiresAt st = t0 + leaseMs o'))"

lemma lease_step_grounded:
  assumes "lease_grounded o' ts r m"
  shows "lease_grounded o' (ts @ confirm_times r [x]) r (lease_step o' x m)"
proof (cases x)
  case (Pair now op)
  with assms show ?thesis
    by (cases op) (auto simp: lease_grounded_def confirm_times_def lease_confirm_def
        onLookupUnavailable_def lease_remove_def split: option.splits if_splits)
qed

lemma confirm_times_append: "confirm_times r (xs @ ys) = confirm_times r xs @ confirm_times r ys"
  by (simp add: confirm_times_def)

lemma lease_run_grounded: "lease_grounded o' (confirm_times r ops) r (lease_run o' ops [])"
proof (induction ops rule: rev_induct)
  case Nil
  then show ?case by (simp add: lease_grounded_def lease_run_def)
next
  case (snoc x xs)
  then show ?case
    using lease_step_grounded[OF snoc, of x] by (simp add: lease_run_def confirm_times_append)
qed

section \<open>Push deduplication\<close>

record PushDeduper =
  pd_seen :: "(string, int) jsmap"
  pd_sweeping :: bool

definition new_deduper :: PushDeduper where
  "new_deduper = \<lparr>pd_seen = [], pd_sweeping = False\<rparr>"

definition shouldPush :: "int \<Rightarrow> int \<Rightarrow> string \<Rightarrow> PushDeduper \<Rightarrow> bool \<times> PushDeduper" where
  "shouldPush ttlMs now key d =
     (let record = (True, d\<lparr>pd_seen := jm_set key (now + ttlMs) (pd_seen d)\<rparr>)
      in case jm_get (pd_seen d) key of
           None \<Rightarrow> record
         | Some expiry \<Rightarrow> if now < expiry then (False, d) else record)"

definition forget :: "string \<Rightarrow> PushDeduper \<Rightarrow> PushDeduper" where
  "forget key d = d\<lparr>pd_seen := jm_delete key (pd_seen d)\<rparr>"

definition startSweeping :: "PushDeduper \<Rightarrow> PushDeduper" where
  "startSweeping d = (if pd_sweeping d then d else d\<lparr>pd_sweeping := True\<rparr>)"

definition pd_sweep :: "int \<Rightarrow> PushDeduper \<Rightarrow> PushDeduper" where
  "pd_sweep now d = d\<lparr>pd_seen := filter (\<lambda>(key, expiry). \<not> expiry \<le> now) (pd_seen d)\<rparr>"

definition pd_stop :: "PushDeduper \<Rightarrow> PushDeduper" where
  "pd_stop d = \<lparr>pd_seen = [], pd_sweeping = False\<rparr>"

definition push_alive :: "int \<Rightarrow> int \<Rightarrow> bool" where
  "push_alive now expiry \<longleftrightarrow> now < expiry"

interpretation push: expiring push_alive
  by unfold_locales (simp add: push_alive_def)

text \<open>The guard used by several notifications at once, with the timer's sweeps between them.\<close>

datatype push_op = PushCheck string | PushSweep

fun push_step :: "int \<Rightarrow> int \<times> push_op \<Rightarrow> PushDeduper \<Rightarrow> (int \<times> string) list \<times> PushDeduper" where
  "push_step ttl (now, PushCheck key) d =
     (case shouldPush ttl now key d of (ok, d') \<Rightarrow> (if ok then [(now, key)] else [], d'))"
| "push_step ttl (now, PushSweep) d = ([], pd_sweep now d)"

fun push_run :: "int \<Rightarrow> (int \<times> push_op) list \<Rightarrow> PushDeduper \<Rightarrow> (int \<times> string) list" where
  "push_run ttl [] d = []"
| "push_run ttl (x # xs) d = (case push_step ttl x d of (out, d') \<Rightarrow> out @ push_run ttl xs d')"

lemma push_run_Cons:
  "push_run ttl (x # xs) d = fst (push_step ttl x d) @ push_run ttl xs (snd (push_step ttl x d))"
  by (simp add: split_def)

declare push_run.simps(2) [simp del] push_run_Cons [simp]

lemma shouldPush_live:
  "shouldPush ttl now key d =
     (if live_get push_alive now (pd_seen d) key = None
      then (True, d\<lparr>pd_seen := jm_set key (now + ttl) (pd_seen d)\<rparr>) else (False, d))"
  by (auto simp: shouldPush_def live_get_def push_alive_def Let_def split: option.splits)

lemma pd_sweep_sweep: "pd_seen (pd_sweep now d) = sweep push_alive now (pd_seen d)"
  by (auto simp: pd_sweep_def sweep_def push_alive_def not_le intro!: filter_cong)

lemma push_step_live:
  assumes "jm_wf (pd_seen d)" and "live_get push_alive t (pd_seen d) key = Some v" and "fst x \<le> t"
  shows "live_get push_alive t (pd_seen (snd (push_step ttl x d))) key = Some v
    \<and> (\<forall>now. (now, key) \<notin> set (fst (push_step ttl x d)))"
proof -
  obtain now op where x: "x = (now, op)" by force
  have live: "live_get push_alive now (pd_seen d) key = Some v"
    using push.live_earlier[OF assms(2)] assms(3) x by simp
  show ?thesis
  proof (cases op)
    case (PushCheck key')
    with assms x live show ?thesis by (auto simp: shouldPush_live live_get_set)
  next
    case PushSweep
    with assms x show ?thesis by (simp add: pd_sweep_sweep push.live_get_sweep)
  qed
qed

lemma push_step_wf: "jm_wf (pd_seen d) \<Longrightarrow> jm_wf (pd_seen (snd (push_step ttl x d)))"
  by (cases "(ttl, x, d)" rule: push_step.cases) (auto simp: shouldPush_live pd_sweep_def)

text \<open>While an entry is live at a later time, no push of its key is emitted up to that time.\<close>

lemma push_run_quiet:
  assumes "jm_wf (pd_seen d)" and "live_get push_alive t (pd_seen d) key = Some v"
    and "\<forall>x \<in> set xs. fst x \<le> t"
  shows "(now, key) \<notin> set (push_run ttl xs d)"
  using assms
proof (induction xs arbitrary: d)
  case Nil
  then show ?case by simp
next
  case (Cons x xs)
  have "live_get push_alive t (pd_seen (snd (push_step ttl x d))) key = Some v
      \<and> (\<forall>now. (now, key) \<notin> set (fst (push_step ttl x d)))"
    using push_step_live[of d t key v x ttl] Cons.prems by simp
  then show ?case using Cons.IH[of "snd (push_step ttl x d)"] Cons.prems push_step_wf[of d ttl x]
    by simp
qed

lemma push_step_out:
  assumes "(t, key) \<in> set (fst (push_step ttl x d))"
  shows "fst x = t \<and> fst (push_step ttl x d) = [(t, key)]
    \<and> jm_get (pd_seen (snd (push_step ttl x d))) key = Some (t + ttl)"
  using assms by (cases "(ttl, x, d)" rule: push_step.cases) (auto simp: shouldPush_live split: if_splits)

lemma push_run_times: "(t, key) \<in> set (push_run ttl xs d) \<Longrightarrow> t \<in> fst ` set xs"
proof (induction xs arbitrary: d)
  case (Cons x xs)
  then show ?case using push_step_out[of t key ttl x d] by auto
qed simp

lemma push_run_prefix_quiet:
  assumes "jm_wf (pd_seen d)" and "jm_get (pd_seen d) key = Some e"
    and "sorted (map fst xs)" and "(t, key) \<in> set (push_run ttl xs d)"
  shows "e \<le> t"
proof (rule ccontr)
  assume "\<not> e \<le> t"
  define ys where "ys = takeWhile (\<lambda>x. fst x \<le> t) xs"
  have split: "xs = ys @ dropWhile (\<lambda>x. fst x \<le> t) xs" by (simp add: ys_def)
  have live: "live_get push_alive t (pd_seen d) key = Some e"
    using \<open>\<not> e \<le> t\<close> assms(2) by (simp add: live_get_def push_alive_def)
  have app: "set (push_run ttl (ys @ zs) d) \<subseteq> set (push_run ttl ys d) \<union> {p. fst p \<in> fst ` set zs}" for ys zs d
  proof (induction ys arbitrary: d)
    case Nil
    then show ?case using push_run_times by (fastforce intro: rev_image_eqI)
  next
    case (Cons y ys)
    then show ?case by auto
  qed
  have "\<forall>x \<in> set (dropWhile (\<lambda>x. fst x \<le> t) xs). t < fst x"
    using assms(3)
    by (induction xs) auto
  then have "t \<notin> fst ` set (dropWhile (\<lambda>x. fst x \<le> t) xs)" by force
  moreover have "(t, key) \<in> set (push_run ttl ys d) \<union> {p. fst p \<in> fst ` set (dropWhile (\<lambda>x. fst x \<le> t) xs)}"
    using assms(4) app[of ys "dropWhile (\<lambda>x. fst x \<le> t) xs" d] unfolding split[symmetric] by (rule rev_subsetD)
  ultimately have "(t, key) \<in> set (push_run ttl ys d)" by simp
  moreover have "(t, key) \<notin> set (push_run ttl ys d)"
    by (rule push_run_quiet[OF assms(1) live]) (auto simp: ys_def dest: set_takeWhileD)
  ultimately show False by simp
qed

definition pushes_of :: "string \<Rightarrow> (int \<times> string) list \<Rightarrow> int list" where
  "pushes_of key out = map fst (filter (\<lambda>p. snd p = key) out)"

lemma push_run_spaced:
  assumes "jm_wf (pd_seen d)" and "sorted (map fst xs)"
  shows "sorted_wrt (\<lambda>a b. a + ttl \<le> b) (pushes_of key (push_run ttl xs d))"
  using assms
proof (induction xs arbitrary: d)
  case Nil
  then show ?case by (simp add: pushes_of_def)
next
  case (Cons x xs)
  obtain out d' where s: "push_step ttl x d = (out, d')" by force
  have wf: "jm_wf (pd_seen d')" using push_step_wf[OF Cons.prems(1), of ttl x] s by simp
  have rest: "sorted_wrt (\<lambda>a b. a + ttl \<le> b) (pushes_of key (push_run ttl xs d'))"
    using Cons.IH[OF wf] Cons.prems(2) by simp
  show ?case
  proof (cases "\<exists>t. (t, key) \<in> set out")
    case True
    then obtain t where "(t, key) \<in> set (fst (push_step ttl x d))" using s by auto
    from push_step_out[OF this] have o: "out = [(t, key)]" "jm_get (pd_seen d') key = Some (t + ttl)"
      using s by simp_all
    have "\<forall>u \<in> set (pushes_of key (push_run ttl xs d')). t + ttl \<le> u"
      using push_run_prefix_quiet[OF wf o(2)] Cons.prems(2) by (auto simp: pushes_of_def)
    with s o(1) rest show ?thesis by (simp add: pushes_of_def)
  next
    case False
    then have "pushes_of key out = []" by (auto simp: pushes_of_def filter_empty_conv)
    with s rest show ?thesis by (simp add: pushes_of_def)
  qed
qed

section \<open>Properties\<close>

definition admission_empty :: admission_sys where
  "admission_empty = (\<lparr>ca_active = [], ca_byAddress = []\<rparr>, [])"

text \<open>
  Admission control is exact in every run of acquisitions and releases, releases repeated
  or not: the connections that hold a ticket never exceed the limit of their kind nor the limit
  of their address, and the counters of the class are the numbers of tickets held.
\<close>

lemma admission_respects_limits:
  assumes "(admission_step o')\<^sup>*\<^sup>* admission_empty s"
  shows "int (held (\<lambda>tk. tk_kind tk = kind) (snd s)) \<le> max 0 (globalMax o' kind)
    \<and> int (held (\<lambda>tk. tk_addressKey tk = addressKey kind addr) (snd s)) \<le> max 0 (perAddressMax o' kind)
    \<and> jm_get_or (ca_active (fst s)) kind 0 = int (held (\<lambda>tk. tk_kind tk = kind) (snd s))
    \<and> jm_get_or (ca_byAddress (fst s)) (addressKey kind addr) 0
        = int (held (\<lambda>tk. tk_addressKey tk = addressKey kind addr) (snd s))"
proof -
  have "admission_inv o' s"
    by (rule admission.inv_reachable[OF _ assms]) (simp add: admission_start_def admission_empty_def)
  then show ?thesis by (auto simp: admission_inv_def dest: counts_held_get)
qed

lemma admission_respects_limits_example:
  "\<exists>s. (admission_step \<lparr>daemonGlobalMax = 1, clientGlobalMax = 1, daemonPerAddressMax = 1, clientPerAddressMax = 1\<rparr>)\<^sup>*\<^sup>*
      admission_empty s \<and> held (\<lambda>tk. tk_kind tk = KDaemon) (snd s) = 1
    \<and> jm_get_or (ca_active (fst s)) KDaemon 0 = 1"
proof -
  let ?o = "\<lparr>daemonGlobalMax = 1, clientGlobalMax = 1, daemonPerAddressMax = 1, clientPerAddressMax = 1\<rparr>"
  let ?tk = "\<lparr>tk_kind = KDaemon, tk_addressKey = addressKey KDaemon ''10.0.0.1'', tk_released = False\<rparr>"
  let ?s = "(\<lparr>ca_active = [(KDaemon, 1)], ca_byAddress = [(addressKey KDaemon ''10.0.0.1'', 1)]\<rparr>, [] @ [?tk])"
  have "tryAcquire ?o 0 KDaemon ''10.0.0.1'' \<lparr>ca_active = [], ca_byAddress = []\<rparr> = (Admitted ?tk, fst ?s)"
    by (simp add: tryAcquire_def globalMax_def perAddressMax_def jm_get_or_def Let_def)
  then have run: "(admission_step ?o)\<^sup>*\<^sup>* admission_empty ?s"
    unfolding admission_empty_def fst_conv by (intro r_into_rtranclp admission_step.admit)
  have "held (\<lambda>tk. tk_kind tk = KDaemon) (snd ?s) = 1" by (simp add: held_def)
  with run admission_respects_limits[OF run, of KDaemon "''10.0.0.1''"] show ?thesis by fastforce
qed

text \<open>
  The executor bounds its work and keeps its order: for every sequence of submissions and
  settlements, no more than \<open>maxConcurrent\<close> tasks run, no more than \<open>maxPending\<close> wait, none waits
  while a slot is free, and the tasks start in the order in which they were accepted, none lost
  and none started twice.
\<close>

lemma executor_bounded_and_fifo:
  assumes "new_executor o' = Inr e"
  shows "ex_active (exec_run o' evs e) \<le> maxConcurrent o'
    \<and> int (length (ex_pending (exec_run o' evs e))) \<le> maxPending o'
    \<and> (ex_pending (exec_run o' evs e) = [] \<or> ex_active (exec_run o' evs e) = maxConcurrent o')
    \<and> ex_started (exec_run o' evs e) @ ex_pending (exec_run o' evs e) = accepted_tasks o' evs e"
proof -
  have "1 \<le> maxConcurrent o'" and "ex_started e = []" and "ex_pending e = []"
    using assms by (auto simp: new_executor_def split: if_splits)
  then show ?thesis
    using exec_run_inv_fifo[OF _ exec_inv_new[OF assms], of evs] by (auto simp: exec_inv_def)
qed

lemma executor_bounded_and_fifo_example:
  "ex_started (exec_run \<lparr>maxConcurrent = 1, maxPending = 1\<rparr> [RunTask ''a'', RunTask ''b'', RunTask ''c'', Settle]
      \<lparr>ex_active = 0, ex_pending = [], ex_started = []\<rparr>) = [''a'', ''b'']"
  using executor_bounded_and_fifo[of "\<lparr>maxConcurrent = 1, maxPending = 1\<rparr>"
      "\<lparr>ex_active = 0, ex_pending = [], ex_started = []\<rparr>" "[RunTask ''a'', RunTask ''b'', RunTask ''c'', Settle]"]
  by (simp add: new_executor_def is_safe_integer_def MAX_SAFE_INTEGER_def exec_run_def run_task_def
      settle_task_def start_task_def)

text \<open>
  A lease never outlives its confirmation: whatever failed lookups, removals and other
  confirmations come between, a registration is usable only within \<open>leaseMs\<close> of a time at which
  it was itself confirmed.
\<close>

lemma lease_needs_recent_confirmation:
  assumes "isUsable r now (lease_run o' ops [])"
  shows "\<exists>t0 \<in> set (confirm_times r ops). now < t0 + leaseMs o'"
  using assms lease_run_grounded[of o' r ops]
  by (fastforce simp: isUsable_def lease_grounded_def split: option.splits)

lemma lease_needs_recent_confirmation_example:
  "\<exists>t0 \<in> set (confirm_times ''r'' [(0, LConfirm ''r'' 5), (20000, LUnavailable ''r'' 7)]). 29999 < t0 + 30000"
  using lease_needs_recent_confirmation[of "''r''" 29999 "\<lparr>leaseMs = 30000, refreshMs = 10000\<rparr>"
      "[(0, LConfirm ''r'' 5), (20000, LUnavailable ''r'' 7)]"]
  by (simp add: isUsable_def lease_run_def lease_confirm_def onLookupUnavailable_def)

text \<open>
  A notification is pushed at most once per time-to-live: for every interleaving of push
  checks, of the same and of other keys, with the timer's sweeps, two pushes of one key are at
  least \<open>ttlMs\<close> apart.
\<close>

lemma pushes_are_spaced:
  assumes "sorted (map fst xs)"
  shows "sorted_wrt (\<lambda>a b. a + ttl \<le> b) (pushes_of key (push_run ttl xs new_deduper))"
  by (rule push_run_spaced[OF _ assms]) (simp add: new_deduper_def)

lemma pushes_are_spaced_example:
  "pushes_of ''k'' (push_run 30000 [(0, PushCheck ''k''), (100, PushCheck ''k''), (60000, PushSweep), (60001, PushCheck ''k'')]
      new_deduper) = [0, 60001]
   \<and> sorted_wrt (\<lambda>a b. a + 30000 \<le> b) [0, 60001 :: int]"
proof -
  let ?xs = "[(0, PushCheck ''k''), (100, PushCheck ''k''), (60000, PushSweep), (60001, PushCheck ''k'')] :: (int \<times> push_op) list"
  have "pushes_of ''k'' (push_run 30000 ?xs new_deduper) = [0, 60001]"
    by (simp add: pushes_of_def new_deduper_def shouldPush_def pd_sweep_def Let_def)
  with pushes_are_spaced[of ?xs 30000 "''k''"] show ?thesis by simp
qed

end
