(* ===== verification/Event_Policy.thy ===== *)
theory Event_Policy
  imports Prelude
begin

text \<open>
  The vocabulary of the durable ingress (\<open>relay/src/ingress/types.ts\<close>) and the policy that reads
  a daemon frame (\<open>relay/src/ingress/event-policy.ts\<close>): which frames are durable, in which
  priority class they queue, and under which key they are deduplicated.
\<close>

section \<open>Types\<close>

datatype PriorityClass = Control | Live | Replay | Aggregate

text \<open>\<open>ie_ref\<close> is the identity of the JavaScript object; two envelopes are the same object iff it agrees.\<close>

record IngressEnvelope =
  ie_ref :: nat
  ie_userId :: "int option"
  ie_daemonId :: string
  ie_registrationId :: string
  ie_daemonGeneration :: int
  ie_seq :: int
  ie_dedupKey :: string
  ie_sessionId :: "string option"
  ie_eventType :: string
  ie_priority :: PriorityClass
  ie_receiptOnly :: bool
  ie_payload :: payload
  ie_materializationContext :: payload
  ie_receivedAt :: int

record AckCheckpoint =
  ac_daemonId :: string
  ac_daemonGeneration :: int
  ac_ackSeq :: int

datatype flow_reason =
    FlowNormal | FlowIngestBackpressure | FlowArtifactBackpressure | FlowWorkerBacklog
  | FlowRelayOverloaded | FlowEventTooLarge

record FlowControlState =
  fc_window :: int
  fc_retryAfterMs :: int
  fc_reason :: flow_reason
  fc_blockedSeq :: "int option"

section \<open>Policy\<close>

definition control_types :: "string list" where
  "control_types =
     [''session_created'', ''session_discovered'', ''session_id_changed'', ''session_status'',
      ''session_create_failed'',
      ''session_meta'', ''session_model_changed'', ''session_agent_changed'',
      ''approval_request'', ''approval_resolved'', ''question_request'', ''question_resolved'',
      ''interactive_prompt'', ''interactive_resolved'', ''interaction_result'', ''permission_config_changed'',
      ''command_receipt'',
      ''collaboration_dispatch_receipt'', ''collaboration_context_receipt'', ''collaboration_config_receipt'',
      ''turn_status'']"

definition aggregate_types :: "string list" where
  "aggregate_types = [''subagent_usage'']"

definition ephemeralControl_types :: "string list" where
  "ephemeralControl_types =
     [''ping'', ''daemon_shutdown'', ''cancel_takeover'',
      ''codex_rate_limits_changed'', ''invocation_result'', ''model_list'', ''codex_home_list'',
      ''directory_result'', ''session_document_resolved'', ''upgrade_result'']"

definition ephemeralAggregate_types :: "string list" where
  "ephemeralAggregate_types =
     [''generate_title_request'', ''generate_subagent_title_request'', ''session_title_update'']"

definition normalizeSessionId :: "json option \<Rightarrow> string option" where
  "normalizeSessionId value =
     (case value of
        Some (JStr s) \<Rightarrow>
          if length s = 0 \<or> length s > 64 then None
          else if s \<noteq> js_trim s then None
          else if starts_with s ''pending-'' then None
          else Some s
      | _ \<Rightarrow> None)"

record event_policy =
  ep_durable :: bool
  ep_priority :: PriorityClass

definition classifyDaemonEvent :: "payload \<Rightarrow> event_policy" where
  "classifyDaemonEvent p =
     (let type = js_String_or_empty (map_of p ''type'') in
      if type = ''error'' \<and> normalizeSessionId (map_of p ''session_id'') = None
        then \<lparr>ep_durable = False, ep_priority = Control\<rparr>
      else if type \<in> set ephemeralControl_types then \<lparr>ep_durable = False, ep_priority = Control\<rparr>
      else if type \<in> set ephemeralAggregate_types then \<lparr>ep_durable = False, ep_priority = Aggregate\<rparr>
      else if type \<in> set control_types then \<lparr>ep_durable = True, ep_priority = Control\<rparr>
      else if type \<in> set aggregate_types then \<lparr>ep_durable = True, ep_priority = Aggregate\<rparr>
      else if map_of p ''resync'' = Some (JBool True) then \<lparr>ep_durable = True, ep_priority = Replay\<rparr>
      else \<lparr>ep_durable = True, ep_priority = Live\<rparr>)"

text \<open>A field that is a non-empty string.\<close>

definition nonempty_string :: "json option \<Rightarrow> string option" where
  "nonempty_string v = (case v of Some (JStr s) \<Rightarrow> if s \<noteq> [] then Some s else None | _ \<Rightarrow> None)"

definition buildDedupKey :: "string \<Rightarrow> int \<Rightarrow> int \<Rightarrow> payload \<Rightarrow> string" where
  "buildDedupKey daemonId generation seq p =
     (let session = js_String_or_empty (map_of p ''session_id'');
          type = js_String_or_empty (map_of p ''type'')
      in case nonempty_string (map_of p ''event_id'') of
           Some e \<Rightarrow> session @ '':'' @ type @ '':event:'' @ e
         | None \<Rightarrow>
             (case nonempty_string (map_of p ''request_id'') of
                Some r \<Rightarrow> session @ '':'' @ type @ '':request:'' @ r
              | None \<Rightarrow> daemonId @ '':'' @ int_str generation @ '':'' @ int_str seq))"

section \<open>Properties\<close>

text \<open>The four type lists are disjoint, so the order of the tests decides nothing.\<close>

lemma event_types_disjoint:
  "set ephemeralControl_types \<inter> set control_types = {}"
  "set ephemeralAggregate_types \<inter> set control_types = {}"
  "set ephemeralControl_types \<inter> set aggregate_types = {}"
  "set ephemeralAggregate_types \<inter> set aggregate_types = {}"
  "set ephemeralControl_types \<inter> set ephemeralAggregate_types = {}"
  "set control_types \<inter> set aggregate_types = {}"
  by (simp_all add: ephemeralControl_types_def ephemeralAggregate_types_def control_types_def aggregate_types_def)

lemma normalizeSessionId_SomeD:
  assumes "normalizeSessionId v = Some s"
  shows "v = Some (JStr s) \<and> s \<noteq> [] \<and> length s \<le> 64 \<and> js_trim s = s \<and> \<not> starts_with s ''pending-''"
  using assms by (auto simp: normalizeSessionId_def split: option.splits json.splits if_splits)

text \<open>
  Control frames are never droppable: a frame of a control type is durable and queues in the
  control class whatever else it carries, and a frame is classified ephemeral only when its type
  is one of the ephemeral ones or it is an error without a canonical session.
\<close>

lemma control_frames_are_durable:
  shows "(js_String_or_empty (map_of p ''type'') \<in> set control_types
      \<longrightarrow> classifyDaemonEvent p = \<lparr>ep_durable = True, ep_priority = Control\<rparr>)
    \<and> (\<not> ep_durable (classifyDaemonEvent p)
      \<longrightarrow> js_String_or_empty (map_of p ''type'') \<in> set (ephemeralControl_types @ ephemeralAggregate_types)
        \<or> (js_String_or_empty (map_of p ''type'') = ''error'' \<and> normalizeSessionId (map_of p ''session_id'') = None))"
proof -
  have "''error'' \<notin> set control_types" by (simp add: control_types_def)
  then show ?thesis
    using event_types_disjoint(1,2) by (auto simp: classifyDaemonEvent_def Let_def split: if_splits)
qed

text \<open>
  Deduplication keys converge and separate: an event with an identity of its own keeps its
  key when the daemon replays it under another sequence number, generation or daemon identity,
  and events of one daemon without an identity share a key only when they have the same
  generation and sequence number.
\<close>

lemma dedup_key_converges_and_separates:
  shows "(nonempty_string (map_of p ''event_id'') \<noteq> None \<or> nonempty_string (map_of p ''request_id'') \<noteq> None
      \<longrightarrow> buildDedupKey d g s p = buildDedupKey d' g' s' p)
    \<and> (nonempty_string (map_of p ''event_id'') = None \<and> nonempty_string (map_of p ''request_id'') = None
       \<and> nonempty_string (map_of q ''event_id'') = None \<and> nonempty_string (map_of q ''request_id'') = None
      \<longrightarrow> (buildDedupKey d g s p = buildDedupKey d g' s' q \<longleftrightarrow> g = g' \<and> s = s'))"
proof (intro conjI impI)
  assume "nonempty_string (map_of p ''event_id'') \<noteq> None \<or> nonempty_string (map_of p ''request_id'') \<noteq> None"
  then show "buildDedupKey d g s p = buildDedupKey d' g' s' p"
    by (auto simp: buildDedupKey_def Let_def split: option.splits)
next
  have sep: "CHR '':'' \<notin> set (int_str n)" for n using int_str_no_separator by blast
  assume "nonempty_string (map_of p ''event_id'') = None \<and> nonempty_string (map_of p ''request_id'') = None
    \<and> nonempty_string (map_of q ''event_id'') = None \<and> nonempty_string (map_of q ''request_id'') = None"
  then show "buildDedupKey d g s p = buildDedupKey d g' s' q \<longleftrightarrow> g = g' \<and> s = s'"
    using append_sep_inj[OF sep sep, of "int_str g" s "int_str g'" s'] by (auto simp: buildDedupKey_def)
qed

lemma dedup_key_converges_and_separates_example:
  "buildDedupKey ''d1'' 1 7 [(''type'', JStr ''agent_text''), (''event_id'', JStr ''e'')]
     = buildDedupKey ''d2'' 2 9 [(''type'', JStr ''agent_text''), (''event_id'', JStr ''e'')]
   \<and> buildDedupKey ''d'' 1 7 [(''type'', JStr ''ping'')] \<noteq> buildDedupKey ''d'' 1 8 [(''type'', JStr ''ping'')]"
  using dedup_key_converges_and_separates[of "[(''type'', JStr ''agent_text''), (''event_id'', JStr ''e'')]"
      "''d1''" 1 7 "''d2''" 2 9 "[]"]
    dedup_key_converges_and_separates[of "[(''type'', JStr ''ping'')]" "''d''" 1 7 "''d''" 1 8 "[(''type'', JStr ''ping'')]"]
  by (simp add: nonempty_string_def)

end
