(* ===== verification/Fair_Queue.thy ===== *)
theory Fair_Queue
  imports Complex_Main Event_Policy
begin

text \<open>
  The bounded ingress queue of \<open>relay/src/ingress/fair-queue.ts\<close>: deficit round robin over the
  active daemons, a fixed priority schedule inside each daemon, and capacity that stays charged
  from admission until the batch is committed.

  Objects live in the maps of the class, so a method that mutates a daemon's queue stores the
  new record under the daemon's key. The size of a payload is a function of the payload, so the
  \<open>cached\<close> weak map, which only avoids serialising it twice, has no state of its own here. The
  \<open>reserved\<close> weak set is the list of its members. A thrown error keeps the mutations made
  before it: the operations that can throw return the state beside the outcome.
\<close>

section \<open>Configuration\<close>

definition prioritySchedule :: "PriorityClass list" where
  "prioritySchedule =
     [Control, Control, Control, Control, Live, Live, Live, Replay, Aggregate]"

record FairIngressQueueConfig =
  cfg_maxEventsPerDaemon :: "int option"
  cfg_maxBytesPerDaemon :: "int option"
  cfg_maxEvents :: "int option"
  cfg_maxBytes :: "int option"
  cfg_maxEventBytes :: "int option"
  cfg_quantumBytes :: "int option"
  cfg_maxArtifactEventsPerDaemon :: "int option"
  cfg_maxArtifactBytesPerDaemon :: "int option"
  cfg_maxArtifactEvents :: "int option"
  cfg_maxArtifactBytes :: "int option"

definition empty_config :: FairIngressQueueConfig where
  "empty_config = \<lparr>cfg_maxEventsPerDaemon = None, cfg_maxBytesPerDaemon = None, cfg_maxEvents = None,
     cfg_maxBytes = None, cfg_maxEventBytes = None, cfg_quantumBytes = None,
     cfg_maxArtifactEventsPerDaemon = None, cfg_maxArtifactBytesPerDaemon = None,
     cfg_maxArtifactEvents = None, cfg_maxArtifactBytes = None\<rparr>"

text \<open>The fraction is \<^const>\<open>None\<close> when it is not a finite number.\<close>

record BatchLimits =
  bl_maxRows :: "int option"
  bl_maxBytes :: "int option"
  bl_maxPerDaemonFraction :: "rat option"

datatype EnqueueResult = EnqueueAccepted | Backpressured FlowControlState

definition positiveInteger :: "int option \<Rightarrow> int \<Rightarrow> int" where
  "positiveInteger value fallback =
     (case value of Some v \<Rightarrow> if is_safe_integer v \<and> v > 0 then v else fallback | None \<Rightarrow> fallback)"

definition nonNegativeInteger :: "int option \<Rightarrow> int \<Rightarrow> int" where
  "nonNegativeInteger value fallback =
     (case value of Some v \<Rightarrow> if is_safe_integer v \<and> v \<ge> 0 then v else fallback | None \<Rightarrow> fallback)"

section \<open>State\<close>

record QueuedEnvelope =
  qe_event :: IngressEnvelope
  qe_payloadBytes :: int

record DaemonQueue =
  byPriority :: "PriorityClass \<Rightarrow> QueuedEnvelope list"
  dq_bytes :: int
  dq_count :: int
  deficit :: int
  priorityCursor :: nat

record DaemonUsage =
  du_count :: int
  du_bytes :: int
  artifactCount :: int
  artifactBytes :: int

record fq_limits =
  maxEventsPerDaemon :: int
  maxBytesPerDaemon :: int
  maxEvents :: int
  maxBytes :: int
  maxEventBytes :: int
  quantumBytes :: int
  maxArtifactEventsPerDaemon :: int
  maxArtifactBytesPerDaemon :: int
  maxArtifactEvents :: int
  maxArtifactBytes :: int

record FairIngressQueue =
  fq_limits :: fq_limits
  fq_daemons :: "(string, DaemonQueue) jsmap"
  fq_usage :: "(string, DaemonUsage) jsmap"
  fq_activeDaemonIds :: "string list"
  fq_activeIndex :: "(string, nat) jsmap"
  fq_reserved :: "IngressEnvelope list"
  fq_nextDaemon :: nat
  fq_queuedCount :: int
  fq_totalCount :: int
  fq_totalBytes :: int
  fq_totalArtifactCount :: int
  fq_totalArtifactBytes :: int

datatype fq_error = BatchNotReserved | UsageInvariantViolated | QueueInvariantViolated

definition documentArtifactEventTypes :: "string list" where
  "documentArtifactEventTypes =
     [''session_document_begin'', ''session_document_chunk'', ''session_document_commit'']"

definition isDocumentArtifact :: "IngressEnvelope \<Rightarrow> bool" where
  "isDocumentArtifact e \<longleftrightarrow> ie_eventType e \<in> set documentArtifactEventTypes"

definition resolve_limits :: "FairIngressQueueConfig \<Rightarrow> fq_limits" where
  "resolve_limits c =
     \<lparr>maxEventsPerDaemon = positiveInteger (cfg_maxEventsPerDaemon c) 1024,
      maxBytesPerDaemon = positiveInteger (cfg_maxBytesPerDaemon c) 4194304,
      maxEvents = positiveInteger (cfg_maxEvents c) 50000,
      maxBytes = positiveInteger (cfg_maxBytes c) 67108864,
      maxEventBytes = positiveInteger (cfg_maxEventBytes c) 1048576,
      quantumBytes = positiveInteger (cfg_quantumBytes c) 65536,
      maxArtifactEventsPerDaemon = positiveInteger (cfg_maxArtifactEventsPerDaemon c) 256,
      maxArtifactBytesPerDaemon = positiveInteger (cfg_maxArtifactBytesPerDaemon c) 8388608,
      maxArtifactEvents = positiveInteger (cfg_maxArtifactEvents c) 10000,
      maxArtifactBytes = positiveInteger (cfg_maxArtifactBytes c) 33554432\<rparr>"

definition new_fair_queue :: "FairIngressQueueConfig \<Rightarrow> FairIngressQueue" where
  "new_fair_queue c =
     \<lparr>fq_limits = resolve_limits c, fq_daemons = [], fq_usage = [], fq_activeDaemonIds = [],
      fq_activeIndex = [], fq_reserved = [], fq_nextDaemon = 0, fq_queuedCount = 0,
      fq_totalCount = 0, fq_totalBytes = 0, fq_totalArtifactCount = 0, fq_totalArtifactBytes = 0\<rparr>"

section \<open>Insertion\<close>

definition toQueued :: "IngressEnvelope \<Rightarrow> QueuedEnvelope" where
  "toQueued e = \<lparr>qe_event = e, qe_payloadBytes = int (utf8_length (json_stringify (JObj (ie_payload e))))\<rparr>"

definition newDaemonQueue :: DaemonQueue where
  "newDaemonQueue =
     \<lparr>byPriority = (\<lambda>_. []), dq_bytes = 0, dq_count = 0, deficit = 0, priorityCursor = 0\<rparr>"

definition backpressureState :: "flow_reason \<Rightarrow> int option \<Rightarrow> FlowControlState" where
  "backpressureState reason blockedSeq =
     \<lparr>fc_window = 1, fc_retryAfterMs = (if reason = FlowEventTooLarge then 0 else 25),
      fc_reason = reason, fc_blockedSeq = blockedSeq\<rparr>"

definition store_daemon :: "string \<Rightarrow> DaemonQueue \<Rightarrow> FairIngressQueue \<Rightarrow> FairIngressQueue" where
  "store_daemon d D q = q\<lparr>fq_daemons := jm_set d D (fq_daemons q)\<rparr>"

definition ensureDaemon :: "string \<Rightarrow> FairIngressQueue \<Rightarrow> DaemonQueue \<times> FairIngressQueue" where
  "ensureDaemon d q =
     (case jm_get (fq_daemons q) d of
        Some D \<Rightarrow> (D, q)
      | None \<Rightarrow>
          (newDaemonQueue,
           q\<lparr>fq_daemons := jm_set d newDaemonQueue (fq_daemons q),
             fq_activeIndex := jm_set d (length (fq_activeDaemonIds q)) (fq_activeIndex q),
             fq_activeDaemonIds := fq_activeDaemonIds q @ [d]\<rparr>))"

definition accountQueuedAdd :: "DaemonQueue \<Rightarrow> int \<Rightarrow> FairIngressQueue \<Rightarrow> DaemonQueue \<times> FairIngressQueue" where
  "accountQueuedAdd D bytes q =
     (D\<lparr>dq_count := dq_count D + 1, dq_bytes := dq_bytes D + bytes\<rparr>,
      q\<lparr>fq_queuedCount := fq_queuedCount q + 1\<rparr>)"

definition emptyUsage :: DaemonUsage where
  "emptyUsage = \<lparr>du_count = 0, du_bytes = 0, artifactCount = 0, artifactBytes = 0\<rparr>"

text \<open>The charge of an admitted envelope: the second half of \<open>insertBack\<close>.\<close>

definition charge :: "QueuedEnvelope \<Rightarrow> FairIngressQueue \<Rightarrow> FairIngressQueue" where
  "charge x q =
     (let e = qe_event x; b = qe_payloadBytes x;
          u0 = jm_get_or (fq_usage q) (ie_daemonId e) emptyUsage;
          u1 = u0\<lparr>du_count := du_count u0 + 1, du_bytes := du_bytes u0 + b\<rparr>;
          u2 = (if isDocumentArtifact e
                then u1\<lparr>artifactCount := artifactCount u1 + 1, artifactBytes := artifactBytes u1 + b\<rparr>
                else u1);
          q1 = (if isDocumentArtifact e
                then q\<lparr>fq_totalArtifactCount := fq_totalArtifactCount q + 1,
                       fq_totalArtifactBytes := fq_totalArtifactBytes q + b\<rparr>
                else q)
      in q1\<lparr>fq_usage := jm_set (ie_daemonId e) u2 (fq_usage q),
            fq_totalCount := fq_totalCount q + 1,
            fq_totalBytes := fq_totalBytes q + b\<rparr>)"

definition insert_with ::
    "(QueuedEnvelope list \<Rightarrow> QueuedEnvelope list) \<Rightarrow> QueuedEnvelope \<Rightarrow> FairIngressQueue \<Rightarrow> FairIngressQueue" where
  "insert_with place x q =
     (let d = ie_daemonId (qe_event x); p = ie_priority (qe_event x);
          (D0, q1) = ensureDaemon d q;
          D1 = D0\<lparr>byPriority := (byPriority D0)(p := place (byPriority D0 p))\<rparr>;
          (D2, q2) = accountQueuedAdd D1 (qe_payloadBytes x) q1
      in store_daemon d D2 q2)"

definition insertBack :: "QueuedEnvelope \<Rightarrow> FairIngressQueue \<Rightarrow> FairIngressQueue" where
  "insertBack x q = charge x (insert_with (\<lambda>xs. xs @ [x]) x q)"

definition insertFront :: "QueuedEnvelope \<Rightarrow> FairIngressQueue \<Rightarrow> FairIngressQueue" where
  "insertFront x q = insert_with (\<lambda>xs. x # xs) x q"

definition enqueue :: "IngressEnvelope \<Rightarrow> FairIngressQueue \<Rightarrow> EnqueueResult \<times> FairIngressQueue" where
  "enqueue e q =
     (let x = toQueued e; b = qe_payloadBytes x; L = fq_limits q;
          u = jm_get_or (fq_usage q) (ie_daemonId e) emptyUsage
      in if b > min (maxEventBytes L) (min (maxBytesPerDaemon L) (maxBytes L))
           then (Backpressured (backpressureState FlowEventTooLarge (Some (ie_seq e))), q)
         else if isDocumentArtifact e \<and>
             (artifactCount u \<ge> maxArtifactEventsPerDaemon L
              \<or> artifactBytes u + b > maxArtifactBytesPerDaemon L
              \<or> fq_totalArtifactCount q \<ge> maxArtifactEvents L
              \<or> fq_totalArtifactBytes q + b > maxArtifactBytes L)
           then (Backpressured (backpressureState FlowArtifactBackpressure None), q)
         else if du_count u \<ge> maxEventsPerDaemon L
             \<or> du_bytes u + b > maxBytesPerDaemon L
             \<or> fq_totalCount q \<ge> maxEvents L
             \<or> fq_totalBytes q + b > maxBytes L
           then (Backpressured (backpressureState FlowIngestBackpressure None), q)
         else (EnqueueAccepted, insertBack x q))"

section \<open>Reservation\<close>

fun requeue_reversed :: "IngressEnvelope list \<Rightarrow> FairIngressQueue \<Rightarrow> FairIngressQueue \<times> fq_error option" where
  "requeue_reversed [] q = (q, None)"
| "requeue_reversed (e # es) q =
     (if e \<notin> set (fq_reserved q) then (q, Some BatchNotReserved)
      else requeue_reversed es (insertFront (toQueued e) (q\<lparr>fq_reserved := removeAll e (fq_reserved q)\<rparr>)))"

definition requeueFront :: "IngressEnvelope list \<Rightarrow> FairIngressQueue \<Rightarrow> FairIngressQueue \<times> fq_error option" where
  "requeueFront events q = requeue_reversed (rev events) q"

text \<open>The release of a reserved envelope's charge: the body of \<open>commitBatch\<close>'s loop.\<close>

definition discharge :: "IngressEnvelope \<Rightarrow> DaemonUsage \<Rightarrow> FairIngressQueue \<Rightarrow> FairIngressQueue" where
  "discharge e u q =
     (let b = qe_payloadBytes (toQueued e);
          u1 = u\<lparr>du_count := du_count u - 1, du_bytes := du_bytes u - b\<rparr>;
          u2 = (if isDocumentArtifact e
                then u1\<lparr>artifactCount := artifactCount u1 - 1, artifactBytes := artifactBytes u1 - b\<rparr>
                else u1);
          q1 = (if isDocumentArtifact e
                then q\<lparr>fq_totalArtifactCount := fq_totalArtifactCount q - 1,
                       fq_totalArtifactBytes := fq_totalArtifactBytes q - b\<rparr>
                else q);
          q2 = q1\<lparr>fq_totalCount := fq_totalCount q - 1, fq_totalBytes := fq_totalBytes q - b\<rparr>
      in q2\<lparr>fq_usage := (if du_count u2 = 0 then jm_delete (ie_daemonId e) (fq_usage q)
                          else jm_set (ie_daemonId e) u2 (fq_usage q))\<rparr>)"

fun commitBatch :: "IngressEnvelope list \<Rightarrow> FairIngressQueue \<Rightarrow> FairIngressQueue \<times> fq_error option" where
  "commitBatch [] q = (q, None)"
| "commitBatch (e # es) q =
     (if e \<notin> set (fq_reserved q) then (q, Some BatchNotReserved)
      else let q1 = q\<lparr>fq_reserved := removeAll e (fq_reserved q)\<rparr> in
           (case jm_get (fq_usage q1) (ie_daemonId e) of
              None \<Rightarrow> (q1, Some UsageInvariantViolated)
            | Some u \<Rightarrow> commitBatch es (discharge e u q1)))"

section \<open>Removal and the daemon ring\<close>

text \<open>
  The swap-with-last removal. The index it writes is that of another active daemon, so the
  assignment is inside the array.
\<close>

definition removeDaemon :: "string \<Rightarrow> FairIngressQueue \<Rightarrow> FairIngressQueue" where
  "removeDaemon d q =
     (case jm_get (fq_activeIndex q) d of
        None \<Rightarrow> q
      | Some index \<Rightarrow>
          let ids = fq_activeDaemonIds q;
              ids1 = butlast ids;
              ai1 = jm_delete d (fq_activeIndex q);
              moved = (ids \<noteq> [] \<and> last ids \<noteq> [] \<and> last ids \<noteq> d);
              ids2 = (if moved then ids1[index := last ids] else ids1);
              ai2 = (if moved then jm_set (last ids) index ai1 else ai1);
              next1 = (if ids2 = [] then 0
                       else if fq_nextDaemon q > index then fq_nextDaemon q - 1 else fq_nextDaemon q)
          in q\<lparr>fq_activeDaemonIds := ids2, fq_activeIndex := ai2,
               fq_daemons := jm_delete d (fq_daemons q),
               fq_nextDaemon := next1 mod (max 1 (length ids2))\<rparr>)"

definition removeFront ::
    "string \<Rightarrow> DaemonQueue \<Rightarrow> PriorityClass \<Rightarrow> FairIngressQueue \<Rightarrow> fq_error + FairIngressQueue" where
  "removeFront d D p q =
     (case byPriority D p of
        [] \<Rightarrow> Inl QueueInvariantViolated
      | x # xs \<Rightarrow>
          let D1 = D\<lparr>byPriority := (byPriority D)(p := xs), dq_count := dq_count D - 1,
                     dq_bytes := dq_bytes D - qe_payloadBytes x\<rparr>;
              q1 = (store_daemon d D1 q)\<lparr>fq_queuedCount := fq_queuedCount q - 1\<rparr>
          in Inr (if dq_count D1 = 0 then removeDaemon d q1 else q1))"

definition nextActiveDaemon :: "FairIngressQueue \<Rightarrow> string option \<times> FairIngressQueue" where
  "nextActiveDaemon q =
     (let n = length (fq_activeDaemonIds q) in
      if n = 0 then (None, q)
      else let index = fq_nextDaemon q mod n
           in (Some (fq_activeDaemonIds q ! index), q\<lparr>fq_nextDaemon := (index + 1) mod n\<rparr>))"

text \<open>The scan over the nine schedule slots, starting at the cursor.\<close>

fun eligible_from :: "DaemonQueue \<Rightarrow> int \<Rightarrow> nat list \<Rightarrow> (QueuedEnvelope \<times> nat) option" where
  "eligible_from D remaining [] = None"
| "eligible_from D remaining (offset # offsets) =
     (let index = (priorityCursor D + offset) mod length prioritySchedule in
      case byPriority D (prioritySchedule ! index) of
        [] \<Rightarrow> eligible_from D remaining offsets
      | x # _ \<Rightarrow>
          if qe_payloadBytes x > deficit D then eligible_from D remaining offsets
          else if qe_payloadBytes x > remaining then eligible_from D remaining offsets
          else Some (x, (index + 1) mod length prioritySchedule))"

definition nextEligible :: "DaemonQueue \<Rightarrow> int \<Rightarrow> (QueuedEnvelope \<times> nat) option" where
  "nextEligible D remaining = eligible_from D remaining [0..<length prioritySchedule]"

section \<open>Taking a batch\<close>

record drain_state =
  ds_queue :: FairIngressQueue
  ds_batch :: "IngressEnvelope list"
  ds_perDaemon :: "(string, int) jsmap"
  ds_bytes :: int
  ds_stalled :: nat

datatype drain_outcome = DrainContinue drain_state | DrainReturn drain_state | DrainThrow fq_error drain_state

text \<open>The tail of a visit that found an envelope to take.\<close>

definition drain_take :: "string \<Rightarrow> DaemonQueue \<Rightarrow> QueuedEnvelope \<Rightarrow> drain_state \<Rightarrow> drain_outcome" where
  "drain_take d D x s =
     (case removeFront d D (ie_priority (qe_event x)) (ds_queue s) of
        Inl err \<Rightarrow> DrainThrow err s
      | Inr q1 \<Rightarrow>
          let q2 = q1\<lparr>fq_reserved := List.insert (qe_event x) (fq_reserved q1)\<rparr>;
              q3 = (case jm_get (fq_daemons q2) d of
                      None \<Rightarrow> q2
                    | Some D2 \<Rightarrow> store_daemon d (D2\<lparr>deficit := deficit D2 - qe_payloadBytes x\<rparr>) q2)
          in DrainContinue
               \<lparr>ds_queue = q3, ds_batch = ds_batch s @ [qe_event x],
                ds_perDaemon = jm_set d (jm_get_or (ds_perDaemon s) d 0 + 1) (ds_perDaemon s),
                ds_bytes = ds_bytes s + qe_payloadBytes x, ds_stalled = 0\<rparr>)"

definition drain_step :: "int \<Rightarrow> int \<Rightarrow> bool \<Rightarrow> drain_state \<Rightarrow> drain_outcome" where
  "drain_step maxB perDaemonLimit relaxed s =
     (let (next, q1) = nextActiveDaemon (ds_queue s); s1 = s\<lparr>ds_queue := q1\<rparr> in
      case next of
        None \<Rightarrow> DrainReturn s1
      | Some d \<Rightarrow>
          if d = [] then DrainReturn s1
          else (case jm_get (fq_daemons q1) d of
                  None \<Rightarrow> DrainContinue s1
                | Some D \<Rightarrow>
                    let D1 = D\<lparr>deficit := deficit D + quantumBytes (fq_limits q1)\<rparr>;
                        q2 = store_daemon d D1 q1;
                        s2 = s\<lparr>ds_queue := q2\<rparr>;
                        stalled' = Suc (ds_stalled s);
                        s3 = s2\<lparr>ds_stalled := stalled'\<rparr>;
                        all_stalled = (stalled' \<ge> length (fq_activeDaemonIds q2))
                    in if jm_get_or (ds_perDaemon s) d 0 \<ge> perDaemonLimit
                       then (if all_stalled then DrainReturn s3 else DrainContinue s3)
                       else (case nextEligible D1 (maxB - ds_bytes s) of
                               None \<Rightarrow>
                                 if all_stalled \<and> (relaxed \<or> ds_batch s \<noteq> [])
                                 then DrainReturn s3 else DrainContinue s3
                             | Some (x, cursor) \<Rightarrow>
                                 let D2 = D1\<lparr>priorityCursor := cursor\<rparr>
                                 in drain_take d D2 x (s2\<lparr>ds_queue := store_daemon d D2 q2\<rparr>))))"

text \<open>The loop, on the visits that remain; the count starts at \<open>maxVisits\<close>.\<close>

fun drain_loop :: "nat \<Rightarrow> int \<Rightarrow> int \<Rightarrow> int \<Rightarrow> bool \<Rightarrow> drain_state \<Rightarrow> drain_state \<times> fq_error option" where
  "drain_loop 0 maxRows maxB perDaemonLimit relaxed s = (s, None)"
| "drain_loop (Suc visits) maxRows maxB perDaemonLimit relaxed s =
     (if int (length (ds_batch s)) < maxRows \<and> fq_activeDaemonIds (ds_queue s) \<noteq> []
      then (case drain_step maxB perDaemonLimit relaxed s of
              DrainContinue s' \<Rightarrow> drain_loop visits maxRows maxB perDaemonLimit relaxed s'
            | DrainReturn s' \<Rightarrow> (s', None)
            | DrainThrow err s' \<Rightarrow> (s', Some err))
      else (s, None))"

definition maxVisits :: "int \<Rightarrow> FairIngressQueue \<Rightarrow> nat" where
  "maxVisits maxRows q = nat (max 1 maxRows * max 1 (int (length (fq_activeDaemonIds q))) * 32)"

definition drain ::
    "IngressEnvelope list \<Rightarrow> (string, int) jsmap \<Rightarrow> int \<Rightarrow> int \<Rightarrow> int \<Rightarrow> int \<Rightarrow> bool \<Rightarrow> FairIngressQueue
      \<Rightarrow> drain_state \<times> fq_error option" where
  "drain batch perDaemon maxRows maxB perDaemonLimit initialBytes relaxed q =
     drain_loop (maxVisits maxRows q) maxRows maxB perDaemonLimit relaxed
       \<lparr>ds_queue = q, ds_batch = batch, ds_perDaemon = perDaemon, ds_bytes = initialBytes, ds_stalled = 0\<rparr>"

definition batchBytes :: "IngressEnvelope list \<Rightarrow> int" where
  "batchBytes batch = foldl (\<lambda>total e. total + qe_payloadBytes (toQueued e)) 0 batch"

definition takeBatch :: "BatchLimits \<Rightarrow> FairIngressQueue \<Rightarrow> (fq_error + IngressEnvelope list) \<times> FairIngressQueue" where
  "takeBatch limits q =
     (let maxRows = nonNegativeInteger (bl_maxRows limits) 0;
          maxB = nonNegativeInteger (bl_maxBytes limits) 0
      in if maxRows = 0 \<or> maxB = 0 \<or> fq_activeDaemonIds q = [] then (Inr [], q)
         else
           let fraction = max 0 (min 1 (case bl_maxPerDaemonFraction limits of Some f \<Rightarrow> f | None \<Rightarrow> 1));
               perDaemonLimit = max 1 \<lfloor>of_int maxRows * fraction\<rfloor>;
               hadReadyPeers = (length (fq_activeDaemonIds q) > 1)
           in case drain [] [] maxRows maxB perDaemonLimit 0 False q of
                (s1, Some err) \<Rightarrow> (Inl err, ds_queue s1)
              | (s1, None) \<Rightarrow>
                  if \<not> hadReadyPeers \<and> int (length (ds_batch s1)) < maxRows
                  then (case drain (ds_batch s1) (ds_perDaemon s1) maxRows maxB maxRows
                                (batchBytes (ds_batch s1)) True (ds_queue s1) of
                          (s2, Some err) \<Rightarrow> (Inl err, ds_queue s2)
                        | (s2, None) \<Rightarrow> (Inr (ds_batch s2), ds_queue s2))
                  else (Inr (ds_batch s1), ds_queue s1))"

definition fq_size :: "FairIngressQueue \<Rightarrow> int" where
  "fq_size q = fq_queuedCount q"

end
