(* ===== verification/Fair_Queue_Structure.thy ===== *)
theory Fair_Queue_Structure
  imports Fair_Queue
begin

text \<open>
  The representation invariant of the ingress queue: the daemon map, the ring of active daemons
  with its index, and the counters of each daemon's queue agree. Every primitive of the queue
  keeps it, and its effect is stated on the contents, the list of envelopes of every daemon and
  priority class.
\<close>

section \<open>Contents\<close>

definition dq_mset :: "DaemonQueue \<Rightarrow> QueuedEnvelope multiset" where
  "dq_mset D = mset (byPriority D Control) + mset (byPriority D Live)
     + mset (byPriority D Replay) + mset (byPriority D Aggregate)"

definition dm_mset :: "(string, DaemonQueue) jsmap \<Rightarrow> QueuedEnvelope multiset" where
  "dm_mset m = (\<Sum>x\<in>#mset m. dq_mset (snd x))"

definition fq_mset :: "FairIngressQueue \<Rightarrow> QueuedEnvelope multiset" where
  "fq_mset q = dm_mset (fq_daemons q)"

definition content :: "FairIngressQueue \<Rightarrow> string \<Rightarrow> PriorityClass \<Rightarrow> QueuedEnvelope list" where
  "content q d p = (case jm_get (fq_daemons q) d of None \<Rightarrow> [] | Some D \<Rightarrow> byPriority D p)"

text \<open>What no structural operation touches.\<close>

definition fq_frame :: "FairIngressQueue \<Rightarrow> FairIngressQueue \<Rightarrow> bool" where
  "fq_frame q q' \<longleftrightarrow> fq_limits q' = fq_limits q \<and> fq_usage q' = fq_usage q
     \<and> fq_totalCount q' = fq_totalCount q \<and> fq_totalBytes q' = fq_totalBytes q
     \<and> fq_totalArtifactCount q' = fq_totalArtifactCount q
     \<and> fq_totalArtifactBytes q' = fq_totalArtifactBytes q"

lemma fq_frame_refl [simp]: "fq_frame q q"
  by (simp add: fq_frame_def)

lemma fq_frame_trans: "fq_frame q q1 \<Longrightarrow> fq_frame q1 q2 \<Longrightarrow> fq_frame q q2"
  by (simp add: fq_frame_def)

lemma mset_byPriority_le: "mset (byPriority D p) \<subseteq># dq_mset D"
  by (cases p) (simp_all add: dq_mset_def)

lemma dq_mset_upd:
  "dq_mset (D\<lparr>byPriority := (byPriority D)(p := ys)\<rparr>) = dq_mset D - mset (byPriority D p) + mset ys"
  by (cases p) (simp_all add: dq_mset_def)

lemma dq_mset_cong [simp]:
  "dq_mset (D\<lparr>dq_count := a\<rparr>) = dq_mset D" "dq_mset (D\<lparr>dq_bytes := b\<rparr>) = dq_mset D"
  "dq_mset (D\<lparr>deficit := c\<rparr>) = dq_mset D" "dq_mset (D\<lparr>priorityCursor := n\<rparr>) = dq_mset D"
  by (simp_all add: dq_mset_def)

lemma dq_mset_empty: "dq_mset D = {#} \<longleftrightarrow> (\<forall>p. byPriority D p = [])"
  by (auto simp: dq_mset_def) (metis PriorityClass.exhaust)

lemma dq_mset_new [simp]: "dq_mset newDaemonQueue = {#}"
  by (simp add: dq_mset_empty newDaemonQueue_def)

lemma dm_mset_new: "jm_get m d = None \<Longrightarrow> dm_mset (jm_set d D m) = dm_mset m + dq_mset D"
  by (simp add: dm_mset_def jm_set_new)

lemma dm_mset_remove:
  assumes "jm_wf m" and "jm_get m d = Some D"
  shows "dm_mset m = dm_mset (jm_delete d m) + dq_mset D"
proof -
  have "(d, D) \<in># mset m" using assms(2) by (simp add: map_of_SomeD)
  then have "mset m = add_mset (d, D) (mset (jm_delete d m))" by (simp add: mset_jm_delete[OF assms])
  then show ?thesis by (simp add: dm_mset_def)
qed

lemma dm_mset_replace:
  assumes "jm_wf m" and "jm_get m d = Some D"
  shows "dm_mset (jm_set d D' m) = dm_mset (jm_delete d m) + dq_mset D'"
  by (simp add: dm_mset_def mset_jm_set[OF assms] mset_jm_delete[OF assms])

lemma dm_mset_replace_same:
  assumes "jm_wf m" and "jm_get m d = Some D" and "dq_mset D' = dq_mset D"
  shows "dm_mset (jm_set d D' m) = dm_mset m"
  using dm_mset_replace[OF assms(1,2)] dm_mset_remove[OF assms(1,2)] assms(3) by simp

lemma dm_mset_member:
  assumes "jm_wf m" shows "x \<in># dm_mset m \<longleftrightarrow> (\<exists>d D. jm_get m d = Some D \<and> x \<in># dq_mset D)"
  unfolding dm_mset_def by (force simp: jm_get_in_set[OF assms, symmetric] in_Union_mset_iff)

section \<open>Invariant\<close>

definition dq_ok :: "string \<Rightarrow> DaemonQueue \<Rightarrow> bool" where
  "dq_ok d D \<longleftrightarrow>
     (\<forall>p. \<forall>x \<in> set (byPriority D p).
        ie_daemonId (qe_event x) = d \<and> ie_priority (qe_event x) = p \<and> toQueued (qe_event x) = x)
     \<and> dq_count D = int (size (dq_mset D))
     \<and> dq_bytes D = (\<Sum>x\<in>#dq_mset D. qe_payloadBytes x)
     \<and> 0 \<le> deficit D"

definition ring_ok :: "FairIngressQueue \<Rightarrow> bool" where
  "ring_ok q \<longleftrightarrow>
     distinct (fq_activeDaemonIds q)
     \<and> set (fq_activeDaemonIds q) = {d. jm_get (fq_daemons q) d \<noteq> None}
     \<and> (\<forall>i < length (fq_activeDaemonIds q). jm_get (fq_activeIndex q) (fq_activeDaemonIds q ! i) = Some i)
     \<and> (\<forall>d. jm_get (fq_activeIndex q) d \<noteq> None \<longrightarrow> d \<in> set (fq_activeDaemonIds q))
     \<and> (fq_nextDaemon q < length (fq_activeDaemonIds q) \<or> fq_nextDaemon q = 0)"

definition fq_struct :: "FairIngressQueue \<Rightarrow> bool" where
  "fq_struct q \<longleftrightarrow>
     jm_wf (fq_daemons q) \<and> ring_ok q
     \<and> (\<forall>d D. jm_get (fq_daemons q) d = Some D \<longrightarrow> d \<noteq> [] \<and> dq_ok d D \<and> dq_mset D \<noteq> {#})
     \<and> fq_queuedCount q = int (size (fq_mset q))
     \<and> 0 < quantumBytes (fq_limits q)"

lemma fq_structD:
  assumes "fq_struct q"
  shows "jm_wf (fq_daemons q)" "ring_ok q" "fq_queuedCount q = int (size (fq_mset q))"
    "0 < quantumBytes (fq_limits q)"
  using assms by (simp_all add: fq_struct_def)

lemma fq_struct_daemon:
  "fq_struct q \<Longrightarrow> jm_get (fq_daemons q) d = Some D \<Longrightarrow> d \<noteq> [] \<and> dq_ok d D \<and> dq_mset D \<noteq> {#}"
  by (simp add: fq_struct_def)

lemma fq_struct_ids: "fq_struct q \<Longrightarrow> [] \<notin> set (fq_activeDaemonIds q)"
proof (cases "jm_get (fq_daemons q) []")
  case None
  assume "fq_struct q"
  then have "set (fq_activeDaemonIds q) = {d. jm_get (fq_daemons q) d \<noteq> None}"
    using fq_structD(2)[of q] by (simp add: ring_ok_def)
  with None show ?thesis by simp
next
  case (Some D)
  assume "fq_struct q"
  then show ?thesis using fq_struct_daemon[of q "[]"] Some by simp
qed

lemma fq_struct_new: "fq_struct (new_fair_queue c)"
  by (simp add: fq_struct_def new_fair_queue_def ring_ok_def fq_mset_def dm_mset_def resolve_limits_def
      positiveInteger_def split: option.splits)

section \<open>Insertion\<close>

definition grow :: "(QueuedEnvelope list \<Rightarrow> QueuedEnvelope list) \<Rightarrow> QueuedEnvelope \<Rightarrow> DaemonQueue \<Rightarrow> DaemonQueue" where
  "grow place x D =
     D\<lparr>byPriority := (byPriority D)(ie_priority (qe_event x) := place (byPriority D (ie_priority (qe_event x)))),
       dq_count := dq_count D + 1, dq_bytes := dq_bytes D + qe_payloadBytes x\<rparr>"

lemma insert_with_eq:
  "insert_with place x q =
     (case jm_get (fq_daemons q) (ie_daemonId (qe_event x)) of
        Some D \<Rightarrow>
          q\<lparr>fq_daemons := jm_set (ie_daemonId (qe_event x)) (grow place x D) (fq_daemons q),
            fq_queuedCount := fq_queuedCount q + 1\<rparr>
      | None \<Rightarrow>
          q\<lparr>fq_daemons := jm_set (ie_daemonId (qe_event x)) (grow place x newDaemonQueue) (fq_daemons q),
            fq_activeIndex := jm_set (ie_daemonId (qe_event x)) (length (fq_activeDaemonIds q)) (fq_activeIndex q),
            fq_activeDaemonIds := fq_activeDaemonIds q @ [ie_daemonId (qe_event x)],
            fq_queuedCount := fq_queuedCount q + 1\<rparr>)"
  by (simp add: insert_with_def ensureDaemon_def accountQueuedAdd_def store_daemon_def grow_def Let_def
      split: option.splits)

lemma dq_mset_grow:
  assumes "\<And>xs. mset (place xs) = add_mset x (mset xs)"
  shows "dq_mset (grow place x D) = add_mset x (dq_mset D)"
  using mset_byPriority_le[of D "ie_priority (qe_event x)"]
  by (simp add: grow_def dq_mset_upd assms)

lemma dq_ok_grow:
  assumes "\<And>xs. mset (place xs) = add_mset x (mset xs)"
    and "dq_ok d D" and "ie_daemonId (qe_event x) = d" and "toQueued (qe_event x) = x"
  shows "dq_ok d (grow place x D)"
proof -
  have "set (place xs) = insert x (set xs)" for xs
    using assms(1)[of xs] by (metis set_mset_add_mset_insert set_mset_mset)
  then have sub: "set (byPriority (grow place x D) p)
      \<subseteq> (if p = ie_priority (qe_event x) then {x} else {}) \<union> set (byPriority D p)" for p
    by (auto simp: grow_def)
  have "ie_daemonId (qe_event y) = d \<and> ie_priority (qe_event y) = p \<and> toQueued (qe_event y) = y"
    if "y \<in> set (byPriority (grow place x D) p)" for y p
  proof (cases "y \<in> set (byPriority D p)")
    case True
    then show ?thesis using assms(2) by (simp add: dq_ok_def)
  next
    case False
    then have "y = x" and "p = ie_priority (qe_event x)" using sub[of p] that by (auto split: if_splits)
    then show ?thesis using assms(3,4) by simp
  qed
  moreover have "dq_count (grow place x D) = dq_count D + 1" "deficit (grow place x D) = deficit D"
    "dq_bytes (grow place x D) = dq_bytes D + qe_payloadBytes x"
    by (simp_all add: grow_def)
  ultimately show ?thesis using assms(2) by (simp add: dq_ok_def dq_mset_grow[OF assms(1)])
qed

lemma dq_ok_new: "dq_ok d newDaemonQueue"
  by (simp add: dq_ok_def) (simp add: newDaemonQueue_def)

lemma ring_ok_append:
  assumes "ring_ok q" and "jm_get (fq_daemons q) d = None"
  shows "ring_ok (q\<lparr>fq_daemons := jm_set d D (fq_daemons q),
      fq_activeIndex := jm_set d (length (fq_activeDaemonIds q)) (fq_activeIndex q),
      fq_activeDaemonIds := fq_activeDaemonIds q @ [d], fq_queuedCount := n\<rparr>)"
proof -
  have "d \<notin> set (fq_activeDaemonIds q)" using assms by (simp add: ring_ok_def)
  then have "\<forall>i < length (fq_activeDaemonIds q). fq_activeDaemonIds q ! i \<noteq> d" by (auto simp: in_set_conv_nth)
  with assms show ?thesis
    by (auto simp: ring_ok_def nth_append less_Suc_eq split: if_splits)
qed

lemma ring_ok_replace:
  assumes "ring_ok q" and "jm_get (fq_daemons q) d \<noteq> None"
  shows "ring_ok (q\<lparr>fq_daemons := jm_set d D (fq_daemons q), fq_queuedCount := n\<rparr>)"
  using assms by (auto simp: ring_ok_def)

lemma insert_with_struct:
  assumes place: "\<And>xs. mset (place xs) = add_mset x (mset xs)"
    and q: "fq_struct q" and x: "toQueued (qe_event x) = x" and d: "ie_daemonId (qe_event x) \<noteq> []"
  shows "fq_struct (insert_with place x q) \<and> fq_mset (insert_with place x q) = add_mset x (fq_mset q)"
proof (cases "jm_get (fq_daemons q) (ie_daemonId (qe_event x))")
  case None
  let ?d = "ie_daemonId (qe_event x)"
  have ms: "fq_mset (insert_with place x q) = add_mset x (fq_mset q)"
    using None by (simp add: insert_with_eq fq_mset_def dm_mset_new dq_mset_grow[OF place])
  have ok: "dq_ok ?d (grow place x newDaemonQueue)"
    by (rule dq_ok_grow[OF place dq_ok_new refl x])
  have "ring_ok (insert_with place x q)"
    using None ring_ok_append[OF fq_structD(2)[OF q] None] by (simp add: insert_with_eq)
  with ms ok None q d show ?thesis
    by (auto simp: fq_struct_def insert_with_eq dq_mset_grow[OF place])
next
  case (Some D)
  let ?d = "ie_daemonId (qe_event x)"
  have ms: "fq_mset (insert_with place x q) = add_mset x (fq_mset q)"
    using Some dm_mset_replace[OF fq_structD(1)[OF q] Some] dm_mset_remove[OF fq_structD(1)[OF q] Some]
    by (simp add: insert_with_eq fq_mset_def dq_mset_grow[OF place])
  have ok: "dq_ok ?d (grow place x D)"
    using fq_struct_daemon[OF q Some] by (auto intro: dq_ok_grow[OF place _ refl x])
  have "ring_ok (insert_with place x q)"
    using Some ring_ok_replace[OF fq_structD(2)[OF q]] by (simp add: insert_with_eq)
  with ms ok Some q d show ?thesis
    by (auto simp: fq_struct_def insert_with_eq dq_mset_grow[OF place])
qed

lemma insert_with_content:
  "content (insert_with place x q) d p =
     (if d = ie_daemonId (qe_event x) \<and> p = ie_priority (qe_event x)
      then place (content q d p) else content q d p)"
  by (auto simp: content_def insert_with_eq grow_def newDaemonQueue_def split: option.splits)

lemma insert_with_frame:
  "fq_frame q (insert_with place x q) \<and> fq_reserved (insert_with place x q) = fq_reserved q"
  by (simp add: fq_frame_def insert_with_eq split: option.splits)

section \<open>The ring\<close>

lemma swap_remove:
  assumes "distinct ids" and "i < length ids" and "ids ! i = d"
  shows "distinct (if last ids = d then butlast ids else (butlast ids)[i := last ids])"
    and "set (if last ids = d then butlast ids else (butlast ids)[i := last ids]) = set ids - {d}"
    and "last ids \<noteq> d \<Longrightarrow> i < length (butlast ids)"
proof -
  obtain xs l where ids: "ids = xs @ [l]" using assms(2) by (cases ids rule: rev_cases) auto
  have in_xs: "l \<noteq> d \<Longrightarrow> i < length xs \<and> xs ! i = d"
    using assms(2,3) ids by (auto simp: nth_append less_Suc_eq split: if_splits)
  have "set (xs[i := l]) = insert l (set xs - {d})" if "l \<noteq> d"
    using set_update_distinct[of xs i l] assms(1) ids in_xs[OF that] by simp
  then show "set (if last ids = d then butlast ids else (butlast ids)[i := last ids]) = set ids - {d}"
    using assms(1) ids by auto
  show "distinct (if last ids = d then butlast ids else (butlast ids)[i := last ids])"
    using assms(1) ids by (auto intro: distinct_list_update)
  show "last ids \<noteq> d \<Longrightarrow> i < length (butlast ids)" using in_xs ids by simp
qed

lemma ring_index:
  assumes "ring_ok q" and "jm_get (fq_activeIndex q) d = Some i"
  shows "i < length (fq_activeDaemonIds q) \<and> fq_activeDaemonIds q ! i = d"
proof -
  have "d \<in> set (fq_activeDaemonIds q)"
    using assms unfolding ring_ok_def by (metis option.distinct(1))
  then obtain j where "j < length (fq_activeDaemonIds q)" "fq_activeDaemonIds q ! j = d"
    by (auto simp: in_set_conv_nth)
  with assms show ?thesis by (auto simp: ring_ok_def)
qed

lemma ring_index_exists:
  assumes "ring_ok q" and "jm_get (fq_daemons q) d \<noteq> None"
  shows "\<exists>i. jm_get (fq_activeIndex q) d = Some i"
proof -
  have "d \<in> set (fq_activeDaemonIds q)" using assms by (simp add: ring_ok_def)
  then obtain j where "j < length (fq_activeDaemonIds q)" "fq_activeDaemonIds q ! j = d"
    by (auto simp: in_set_conv_nth)
  with assms show ?thesis by (auto simp: ring_ok_def)
qed

lemma removeDaemon_daemons:
  assumes "ring_ok q" and "jm_get (fq_daemons q) d \<noteq> None"
  shows "fq_daemons (removeDaemon d q) = jm_delete d (fq_daemons q)"
    and "fq_frame q (removeDaemon d q)" and "fq_reserved (removeDaemon d q) = fq_reserved q"
    and "fq_queuedCount (removeDaemon d q) = fq_queuedCount q"
  using ring_index_exists[OF assms] by (auto simp: removeDaemon_def fq_frame_def Let_def)

lemma removeDaemon_ring:
  assumes "ring_ok q" and "jm_get (fq_daemons q) d \<noteq> None" and "[] \<notin> set (fq_activeDaemonIds q)"
  shows "ring_ok (removeDaemon d q)"
proof -
  obtain i where i: "jm_get (fq_activeIndex q) d = Some i" using ring_index_exists[OF assms(1,2)] ..
  let ?ids = "fq_activeDaemonIds q" and ?q' = "removeDaemon d q"
  let ?ids' = "if last ?ids = d then butlast ?ids else (butlast ?ids)[i := last ?ids]"
  have at: "i < length ?ids" "?ids ! i = d" using ring_index[OF assms(1) i] by simp_all
  have dist: "distinct ?ids" using assms(1) by (simp add: ring_ok_def)
  have ne: "?ids \<noteq> []" using at by auto
  then have "last ?ids \<in> set ?ids" by simp
  with ne assms(3) have ne: "?ids \<noteq> []" "last ?ids \<noteq> []" by metis+
  have ids': "fq_activeDaemonIds ?q' = ?ids'" using i ne by (simp add: removeDaemon_def Let_def)
  have ai': "fq_activeIndex ?q' = (if last ?ids = d then jm_delete d (fq_activeIndex q)
      else jm_set (last ?ids) i (jm_delete d (fq_activeIndex q)))"
    using i ne by (simp add: removeDaemon_def Let_def)
  have idx: "jm_get (fq_activeIndex ?q') (?ids' ! j) = Some j" if "j < length ?ids'" for j
  proof -
    have j: "j < length (butlast ?ids)" using that by (simp split: if_splits)
    have ne_last: "?ids ! j \<noteq> last ?ids"
      using dist j ne by (simp add: last_conv_nth nth_eq_iff_index_eq)
    have old: "jm_get (fq_activeIndex q) (?ids ! j) = Some j" using assms(1) j by (simp add: ring_ok_def)
    show ?thesis
    proof (cases "last ?ids \<noteq> d \<and> j = i")
      case True
      then show ?thesis using swap_remove(3)[OF dist at] by (simp add: ai')
    next
      case False
      then have "?ids' ! j = ?ids ! j" using j by (auto simp: nth_butlast)
      moreover have "?ids ! j \<noteq> d"
        using False ne_last dist at j by (metis length_butlast less_diff_conv add_lessD1 nth_eq_iff_index_eq)
      ultimately show ?thesis using ne_last old by (auto simp: ai')
    qed
  qed
  have keys: "jm_get (fq_activeIndex ?q') e \<noteq> None \<Longrightarrow> e \<in> set ?ids'" for e
    using assms(1) ne swap_remove(2)[OF dist at] by (auto simp: ai' ring_ok_def split: if_splits)
  have nxt: "fq_nextDaemon ?q' < length ?ids' \<or> fq_nextDaemon ?q' = 0"
    using i ne by (auto simp: removeDaemon_def Let_def max_def)
  show ?thesis
    unfolding ring_ok_def ids' removeDaemon_daemons(1)[OF assms(1,2)]
    using swap_remove(1,2)[OF dist at] idx keys nxt assms(1) by (auto simp: ring_ok_def)
qed

section \<open>Removal\<close>

definition shrink :: "PriorityClass \<Rightarrow> DaemonQueue \<Rightarrow> DaemonQueue" where
  "shrink p D = D\<lparr>byPriority := (byPriority D)(p := tl (byPriority D p)), dq_count := dq_count D - 1,
     dq_bytes := dq_bytes D - qe_payloadBytes (hd (byPriority D p))\<rparr>"

lemma dq_mset_shrink:
  assumes "byPriority D p = x # xs" shows "dq_mset D = add_mset x (dq_mset (shrink p D))"
proof -
  obtain R where "dq_mset D = mset (byPriority D p) + R"
    using mset_byPriority_le[of D p] by (auto simp: mset_subset_eq_exists_conv)
  then show ?thesis using assms by (simp add: shrink_def dq_mset_upd)
qed

lemma dq_ok_shrink:
  assumes "dq_ok d D" and "byPriority D p = x # xs"
  shows "dq_ok d (shrink p D)"
proof -
  have "set (byPriority (shrink p D) p') \<subseteq> set (byPriority D p')" for p'
    using assms(2) by (auto simp: shrink_def)
  moreover have "dq_count (shrink p D) = dq_count D - 1" "deficit (shrink p D) = deficit D"
    "dq_bytes (shrink p D) = dq_bytes D - qe_payloadBytes x"
    using assms(2) by (simp_all add: shrink_def)
  ultimately show ?thesis
    using assms(1) dq_mset_shrink[OF assms(2)] by (auto simp: dq_ok_def)
qed

lemma removeFront_eq:
  assumes "byPriority D p = x # xs"
  shows "removeFront d D p q =
     (let q1 = (store_daemon d (shrink p D) q)\<lparr>fq_queuedCount := fq_queuedCount q - 1\<rparr>
      in Inr (if dq_count (shrink p D) = 0 then removeDaemon d q1 else q1))"
  using assms by (simp add: removeFront_def shrink_def Let_def)

text \<open>The effect of taking the head of one class, on the state alone.\<close>

definition took :: "QueuedEnvelope \<Rightarrow> FairIngressQueue \<Rightarrow> FairIngressQueue \<Rightarrow> bool" where
  "took x q q' \<longleftrightarrow> fq_mset q = add_mset x (fq_mset q')
     \<and> (\<forall>d p. content q d p = (if d = ie_daemonId (qe_event x) \<and> p = ie_priority (qe_event x)
          then x # content q' d p else content q' d p))"

lemma removeFront_struct:
  assumes q: "fq_struct q" and D: "jm_get (fq_daemons q) d = Some D" and x: "byPriority D p = x # xs"
  shows "\<exists>q'. removeFront d D p q = Inr q' \<and> fq_struct q' \<and> took x q q' \<and> fq_frame q q'
    \<and> fq_reserved q' = fq_reserved q
    \<and> (\<forall>D'. jm_get (fq_daemons q') d = Some D' \<longrightarrow> deficit D' = deficit D)"
proof -
  have ok: "d \<noteq> []" "dq_ok d D" using fq_struct_daemon[OF q D] by simp_all
  have ev: "ie_daemonId (qe_event x) = d" "ie_priority (qe_event x) = p"
    using ok(2) x unfolding dq_ok_def by (metis list.set_intros(1))+
  let ?D1 = "shrink p D"
  let ?q1 = "(store_daemon d ?D1 q)\<lparr>fq_queuedCount := fq_queuedCount q - 1\<rparr>"
  have ok1: "dq_ok d ?D1" by (rule dq_ok_shrink[OF ok(2) x])
  have ms1: "fq_mset q = add_mset x (fq_mset ?q1)"
    using dm_mset_remove[OF fq_structD(1)[OF q] D] dm_mset_replace[OF fq_structD(1)[OF q] D]
    by (simp add: fq_mset_def store_daemon_def dq_mset_shrink[OF x])
  have ring1: "ring_ok ?q1"
    using ring_ok_replace[OF fq_structD(2)[OF q], where d = d and D = ?D1] D by (simp add: store_daemon_def)
  have wf1: "jm_wf (fq_daemons ?q1)" using fq_structD(1)[OF q] by (simp add: store_daemon_def)
  have get1: "jm_get (fq_daemons ?q1) d = Some ?D1" by (simp add: store_daemon_def)
  have con: "content q d' p' = (if d' = d \<and> p' = p then x # content ?q1 d' p' else content ?q1 d' p')" for d' p'
    using D x by (auto simp: content_def store_daemon_def shrink_def)
  show ?thesis
  proof (cases "dq_count ?D1 = 0")
    case False
    have "dq_mset ?D1 \<noteq> {#}" using False ok1 by (auto simp: dq_ok_def)
    then have "fq_struct ?q1"
      using q ok ok1 ring1 wf1 ms1 by (auto simp: fq_struct_def store_daemon_def)
    then show ?thesis
      using False ms1 con ev by (auto simp: removeFront_eq[OF x] took_def fq_frame_def store_daemon_def shrink_def)
  next
    case True
    let ?q2 = "removeDaemon d ?q1"
    have empty: "dq_mset ?D1 = {#}" using True ok1 by (simp add: dq_ok_def)
    have nonempty: "[] \<notin> set (fq_activeDaemonIds ?q1)"
      using fq_struct_ids[OF q] by (simp add: store_daemon_def)
    have dm: "fq_daemons ?q2 = jm_delete d (fq_daemons ?q1)" "fq_frame ?q1 ?q2"
      "fq_reserved ?q2 = fq_reserved ?q1" "fq_queuedCount ?q2 = fq_queuedCount ?q1"
      using removeDaemon_daemons[OF ring1] get1 by simp_all
    have ms2: "fq_mset ?q2 = fq_mset ?q1"
      using dm_mset_remove[OF wf1 get1] by (simp add: fq_mset_def dm(1) empty)
    have con2: "content ?q2 d' p' = content ?q1 d' p'" for d' p'
      using empty get1 by (auto simp: content_def dm(1) dq_mset_empty)
    have lim: "fq_limits ?q2 = fq_limits q" using dm(2) by (simp add: fq_frame_def store_daemon_def)
    have "fq_struct ?q2"
      unfolding fq_struct_def dm(1,4) ms2 lim
      using q ms1 wf1 removeDaemon_ring[OF ring1 _ nonempty] get1
      by (auto simp: fq_struct_def store_daemon_def)
    moreover have "fq_frame q ?q2" using dm(2) by (simp add: fq_frame_def store_daemon_def)
    ultimately show ?thesis
      using True ms1 ms2 con con2 ev dm
      by (auto simp: removeFront_eq[OF x] took_def store_daemon_def)
  qed
qed

end
