(* ===== verification/Fair_Queue_Drain.thy ===== *)
theory Fair_Queue_Drain
  imports Fair_Queue_Structure
begin

text \<open>
  What one visit of the drain loop does, and its lift over the loop. A visit either leaves the
  contents as they are or takes the head of one class of the visited daemon; it never throws on a
  well-formed queue.
\<close>

section \<open>Eligibility\<close>

lemma eligible_from_Some:
  assumes "eligible_from D r os = Some (x, c)"
  shows "\<exists>p xs. byPriority D p = x # xs \<and> qe_payloadBytes x \<le> deficit D \<and> qe_payloadBytes x \<le> r"
  using assms by (induction D r os rule: eligible_from.induct) (auto simp: Let_def split: list.splits if_splits)

lemma eligible_from_None:
  assumes "eligible_from D r os = None" and "k \<in> set os"
    and "byPriority D (prioritySchedule ! ((priorityCursor D + k) mod length prioritySchedule)) = x # xs"
  shows "\<not> (qe_payloadBytes x \<le> deficit D \<and> qe_payloadBytes x \<le> r)"
  using assms by (induction D r os rule: eligible_from.induct) (auto simp: Let_def split: list.splits if_splits)

lemma schedule_has_every_class: "\<exists>i < length prioritySchedule. prioritySchedule ! i = p"
proof -
  have "p \<in> set prioritySchedule" by (cases p) (simp_all add: prioritySchedule_def)
  then show ?thesis by (simp add: in_set_conv_nth)
qed

lemma nextEligible_None:
  assumes "nextEligible D r = None" and "byPriority D p = x # xs"
  shows "\<not> (qe_payloadBytes x \<le> deficit D \<and> qe_payloadBytes x \<le> r)"
proof -
  let ?n = "length prioritySchedule" and ?c = "priorityCursor D"
  obtain i where i: "i < ?n" "prioritySchedule ! i = p" using schedule_has_every_class by blast
  let ?k = "(i + (?n - ?c mod ?n)) mod ?n"
  have n: "0 < ?n" by (simp add: prioritySchedule_def)
  have "(?c + ?k) mod ?n = (?c mod ?n + (i + (?n - ?c mod ?n))) mod ?n"
    by (simp add: mod_add_left_eq mod_add_right_eq)
  also have "?c mod ?n + (i + (?n - ?c mod ?n)) = i + ?n" using mod_less_divisor[OF n, of ?c] by linarith
  finally have "(?c + ?k) mod ?n = i" using i by simp
  moreover have "?k \<in> set [0..<?n]" using n by simp
  ultimately show ?thesis
    using eligible_from_None[of D r "[0..<?n]" ?k x xs] assms i by (simp add: nextEligible_def)
qed

lemmas nextEligible_Some = eligible_from_Some[where os = "[0..<length prioritySchedule]",
    folded nextEligible_def]

section \<open>Visits\<close>

lemma store_daemon_tweak:
  assumes q: "fq_struct q" and D: "jm_get (fq_daemons q) d = Some D"
    and D': "byPriority D' = byPriority D" "dq_count D' = dq_count D" "dq_bytes D' = dq_bytes D"
      "0 \<le> deficit D'"
  shows "fq_struct (store_daemon d D' q)" "content (store_daemon d D' q) = content q"
    "fq_mset (store_daemon d D' q) = fq_mset q"
proof -
  have ms: "dq_mset D' = dq_mset D" by (simp add: dq_mset_def D'(1))
  show mq: "fq_mset (store_daemon d D' q) = fq_mset q"
    using dm_mset_replace_same[OF fq_structD(1)[OF q] D ms] by (simp add: fq_mset_def store_daemon_def)
  show "content (store_daemon d D' q) = content q"
    using D D'(1) by (auto simp: content_def store_daemon_def fun_eq_iff)
  have ok: "d \<noteq> []" "dq_ok d D'" "dq_mset D' \<noteq> {#}"
    using fq_struct_daemon[OF q D] D' ms by (simp_all add: dq_ok_def)
  have "ring_ok (store_daemon d D' q)"
    using fq_structD(2)[OF q] D by (auto simp: ring_ok_def store_daemon_def)
  then show "fq_struct (store_daemon d D' q)"
    unfolding fq_struct_def mq using q ok by (auto simp: fq_struct_def store_daemon_def)
qed

lemma store_daemon_frame [simp]:
  "fq_frame q (store_daemon d D' q)" "fq_reserved (store_daemon d D' q) = fq_reserved q"
  "fq_activeDaemonIds (store_daemon d D' q) = fq_activeDaemonIds q"
  "fq_nextDaemon (store_daemon d D' q) = fq_nextDaemon q"
  "fq_limits (store_daemon d D' q) = fq_limits q"
  "jm_get (fq_daemons (store_daemon d D' q)) d' = (if d' = d then Some D' else jm_get (fq_daemons q) d')"
  by (simp_all add: store_daemon_def fq_frame_def)

lemma nextActiveDaemon_ring:
  assumes q: "fq_struct q" and ne: "fq_activeDaemonIds q \<noteq> []"
  defines "n \<equiv> length (fq_activeDaemonIds q)" and "i \<equiv> fq_nextDaemon q"
  shows "nextActiveDaemon q = (Some (fq_activeDaemonIds q ! i), q\<lparr>fq_nextDaemon := (i + 1) mod n\<rparr>)"
    and "i < n" and "\<exists>D. jm_get (fq_daemons q) (fq_activeDaemonIds q ! i) = Some D"
    and "fq_activeDaemonIds q ! i \<noteq> []"
proof -
  have ring: "ring_ok q" by (rule fq_structD(2)[OF q])
  show i: "i < n" using ring ne by (auto simp: ring_ok_def n_def i_def)
  then have "fq_nextDaemon q mod length (fq_activeDaemonIds q) = i" by (simp add: n_def i_def)
  then show "nextActiveDaemon q = (Some (fq_activeDaemonIds q ! i), q\<lparr>fq_nextDaemon := (i + 1) mod n\<rparr>)"
    using ne by (simp add: nextActiveDaemon_def n_def Let_def)
  have mem: "fq_activeDaemonIds q ! i \<in> set (fq_activeDaemonIds q)" using i by (simp add: n_def)
  then show "\<exists>D. jm_get (fq_daemons q) (fq_activeDaemonIds q ! i) = Some D"
    using ring by (auto simp: ring_ok_def)
  show "fq_activeDaemonIds q ! i \<noteq> []" using mem fq_struct_ids[OF q] by metis
qed

lemma rotate_struct:
  assumes "fq_struct q" and "m < length (fq_activeDaemonIds q)"
  shows "fq_struct (q\<lparr>fq_nextDaemon := m\<rparr>)" "content (q\<lparr>fq_nextDaemon := m\<rparr>) = content q"
    "fq_mset (q\<lparr>fq_nextDaemon := m\<rparr>) = fq_mset q"
  using assms by (auto simp: fq_struct_def ring_ok_def fq_mset_def content_def fun_eq_iff)

text \<open>The two outcomes of a visit to daemon \<open>d\<close>.\<close>

definition idle_visit :: "drain_state \<Rightarrow> drain_state \<Rightarrow> bool" where
  "idle_visit s s' \<longleftrightarrow> fq_struct (ds_queue s')
     \<and> content (ds_queue s') = content (ds_queue s) \<and> fq_mset (ds_queue s') = fq_mset (ds_queue s)
     \<and> fq_frame (ds_queue s) (ds_queue s') \<and> fq_reserved (ds_queue s') = fq_reserved (ds_queue s)
     \<and> ds_batch s' = ds_batch s \<and> ds_perDaemon s' = ds_perDaemon s \<and> ds_bytes s' = ds_bytes s"

definition take_visit :: "int \<Rightarrow> int \<Rightarrow> QueuedEnvelope \<Rightarrow> drain_state \<Rightarrow> drain_state \<Rightarrow> bool" where
  "take_visit maxB cap x s s' \<longleftrightarrow>
     (let d = ie_daemonId (qe_event x); n = jm_get_or (ds_perDaemon s) d 0 in
      fq_struct (ds_queue s') \<and> took x (ds_queue s) (ds_queue s') \<and> fq_frame (ds_queue s) (ds_queue s')
      \<and> fq_reserved (ds_queue s') = List.insert (qe_event x) (fq_reserved (ds_queue s))
      \<and> ds_batch s' = ds_batch s @ [qe_event x] \<and> toQueued (qe_event x) = x
      \<and> n < cap \<and> ds_perDaemon s' = jm_set d (n + 1) (ds_perDaemon s)
      \<and> ds_bytes s + qe_payloadBytes x \<le> maxB \<and> ds_bytes s' = ds_bytes s + qe_payloadBytes x)"

definition visit :: "int \<Rightarrow> int \<Rightarrow> drain_state \<Rightarrow> drain_state \<Rightarrow> bool" where
  "visit maxB cap s s' \<longleftrightarrow> idle_visit s s' \<or> (\<exists>x. take_visit maxB cap x s s')"

lemma took_cong:
  assumes "took x q1 q2" and "content q1 = content q" and "fq_mset q1 = fq_mset q"
    and "content q2 = content q'" and "fq_mset q2 = fq_mset q'"
  shows "took x q q'"
  using assms by (simp add: took_def)

lemma reserve_struct:
  "fq_struct (q\<lparr>fq_reserved := r\<rparr>) \<longleftrightarrow> fq_struct q" "content (q\<lparr>fq_reserved := r\<rparr>) = content q"
  "fq_mset (q\<lparr>fq_reserved := r\<rparr>) = fq_mset q" "fq_frame (q\<lparr>fq_reserved := r\<rparr>) q' = fq_frame q q'"
  "fq_frame q' (q\<lparr>fq_reserved := r\<rparr>) = fq_frame q' q"
  by (auto simp: fq_struct_def ring_ok_def fq_mset_def content_def fun_eq_iff fq_frame_def)

lemma drain_take_effect:
  assumes q: "fq_struct (ds_queue s)" and D: "jm_get (fq_daemons (ds_queue s)) d = Some D"
    and x: "byPriority D p = x # xs" "qe_payloadBytes x \<le> deficit D" "ds_bytes s + qe_payloadBytes x \<le> maxB"
    and cap: "jm_get_or (ds_perDaemon s) d 0 < cap"
  shows "\<exists>s'. drain_take d D x s = DrainContinue s' \<and> take_visit maxB cap x s s'"
proof -
  have "dq_ok d D" using fq_struct_daemon[OF q D] by simp
  then have ev: "ie_daemonId (qe_event x) = d" "ie_priority (qe_event x) = p" "toQueued (qe_event x) = x"
    using x(1) unfolding dq_ok_def by (metis list.set_intros(1))+
  obtain q1 where q1: "removeFront d D p (ds_queue s) = Inr q1" "fq_struct q1" "took x (ds_queue s) q1"
      "fq_frame (ds_queue s) q1" "fq_reserved q1 = fq_reserved (ds_queue s)"
      "\<forall>D'. jm_get (fq_daemons q1) d = Some D' \<longrightarrow> deficit D' = deficit D"
    using removeFront_struct[OF q D x(1)] by blast
  let ?q2 = "q1\<lparr>fq_reserved := List.insert (qe_event x) (fq_reserved q1)\<rparr>"
  let ?q3 = "case jm_get (fq_daemons ?q2) d of None \<Rightarrow> ?q2
      | Some D2 \<Rightarrow> store_daemon d (D2\<lparr>deficit := deficit D2 - qe_payloadBytes x\<rparr>) ?q2"
  have q2: "fq_struct ?q2" using q1(2) by (simp add: reserve_struct)
  have q3: "fq_struct ?q3 \<and> content ?q3 = content q1 \<and> fq_mset ?q3 = fq_mset q1
      \<and> fq_frame (ds_queue s) ?q3 \<and> fq_reserved ?q3 = List.insert (qe_event x) (fq_reserved q1)"
  proof (cases "jm_get (fq_daemons ?q2) d")
    case None
    then show ?thesis using q1 by (simp add: reserve_struct)
  next
    case (Some D2)
    let ?D3 = "D2\<lparr>deficit := deficit D2 - qe_payloadBytes x\<rparr>"
    have "0 \<le> deficit ?D3" using Some q1(6) x(2) by simp
    then have "fq_struct (store_daemon d ?D3 ?q2)" "content (store_daemon d ?D3 ?q2) = content ?q2"
      "fq_mset (store_daemon d ?D3 ?q2) = fq_mset ?q2"
      using store_daemon_tweak[OF q2 Some] by simp_all
    moreover have "fq_frame (ds_queue s) (store_daemon d ?D3 ?q2)"
      using fq_frame_trans[OF q1(4)] by (simp add: fq_frame_def store_daemon_def)
    ultimately show ?thesis using Some by (simp add: reserve_struct)
  qed
  obtain q3 where q3': "q3 = ?q3" by simp
  have "drain_take d D x s = DrainContinue
      \<lparr>ds_queue = q3, ds_batch = ds_batch s @ [qe_event x],
       ds_perDaemon = jm_set d (jm_get_or (ds_perDaemon s) d 0 + 1) (ds_perDaemon s),
       ds_bytes = ds_bytes s + qe_payloadBytes x, ds_stalled = 0\<rparr>"
    by (simp add: drain_take_def ev q1(1) q3' Let_def)
  moreover have "took x (ds_queue s) q3"
    using q3[folded q3'] by (intro took_cong[OF q1(3)]) simp_all
  ultimately show ?thesis
    using q3[folded q3'] q1(5) cap x(3) ev by (simp add: take_visit_def)
qed

text \<open>The queue after the visited daemon got its quantum.\<close>

definition credit :: "FairIngressQueue \<Rightarrow> DaemonQueue \<Rightarrow> DaemonQueue" where
  "credit q D = D\<lparr>deficit := deficit D + quantumBytes (fq_limits q)\<rparr>"

definition visited :: "FairIngressQueue \<Rightarrow> string" where
  "visited q = fq_activeDaemonIds q ! fq_nextDaemon q"

definition granted :: "DaemonQueue \<Rightarrow> FairIngressQueue \<Rightarrow> FairIngressQueue" where
  "granted D q = store_daemon (visited q) (credit q D)
     (q\<lparr>fq_nextDaemon := (fq_nextDaemon q + 1) mod length (fq_activeDaemonIds q)\<rparr>)"

lemma drain_step_eq:
  assumes q: "fq_struct (ds_queue s)" and ne: "fq_activeDaemonIds (ds_queue s) \<noteq> []"
    and D: "jm_get (fq_daemons (ds_queue s)) (visited (ds_queue s)) = Some D"
  defines "d \<equiv> visited (ds_queue s)" and "s2 \<equiv> s\<lparr>ds_queue := granted D (ds_queue s)\<rparr>"
    and "all_stalled \<equiv> length (fq_activeDaemonIds (ds_queue s)) \<le> Suc (ds_stalled s)"
  shows "drain_step maxB cap relaxed s =
    (let s3 = s2\<lparr>ds_stalled := Suc (ds_stalled s)\<rparr> in
     if cap \<le> jm_get_or (ds_perDaemon s) d 0
     then if all_stalled then DrainReturn s3 else DrainContinue s3
     else case nextEligible (credit (ds_queue s) D) (maxB - ds_bytes s) of
            None \<Rightarrow> if all_stalled \<and> (relaxed \<or> ds_batch s \<noteq> []) then DrainReturn s3 else DrainContinue s3
          | Some (x, cursor) \<Rightarrow>
              drain_take d (credit (ds_queue s) D\<lparr>priorityCursor := cursor\<rparr>) x
                (s2\<lparr>ds_queue := store_daemon d (credit (ds_queue s) D\<lparr>priorityCursor := cursor\<rparr>) (ds_queue s2)\<rparr>))"
  using nextActiveDaemon_ring[OF q ne] D
  by (simp add: drain_step_def visited_def granted_def credit_def d_def s2_def all_stalled_def Let_def
      cong: if_cong option.case_cong)

lemma granted_struct:
  assumes q: "fq_struct q" and ne: "fq_activeDaemonIds q \<noteq> []" and D: "jm_get (fq_daemons q) (visited q) = Some D"
  shows "fq_struct (granted D q)" "content (granted D q) = content q" "fq_mset (granted D q) = fq_mset q"
    "fq_frame q (granted D q)" "fq_reserved (granted D q) = fq_reserved q"
    "jm_get (fq_daemons (granted D q)) (visited q) = Some (credit q D)" "0 \<le> deficit (credit q D)"
proof -
  let ?q1 = "q\<lparr>fq_nextDaemon := (fq_nextDaemon q + 1) mod length (fq_activeDaemonIds q)\<rparr>"
  have q1: "fq_struct ?q1" "content ?q1 = content q" "fq_mset ?q1 = fq_mset q"
    using rotate_struct[OF q] ne by simp_all
  show def: "0 \<le> deficit (credit q D)"
    using fq_struct_daemon[OF q D] fq_structD(4)[OF q] by (simp add: dq_ok_def credit_def)
  have D1: "jm_get (fq_daemons ?q1) (visited q) = Some D" using D by simp
  show "fq_struct (granted D q)" "content (granted D q) = content q" "fq_mset (granted D q) = fq_mset q"
    using store_daemon_tweak[OF q1(1) D1, of "credit q D"] def q1 by (simp_all add: granted_def credit_def)
  show "fq_frame q (granted D q)" "fq_reserved (granted D q) = fq_reserved q"
    "jm_get (fq_daemons (granted D q)) (visited q) = Some (credit q D)"
    by (simp_all add: granted_def store_daemon_def fq_frame_def)
qed

lemma drain_step_take:
  assumes q: "fq_struct (ds_queue s)" and ne: "fq_activeDaemonIds (ds_queue s) \<noteq> []"
    and D: "jm_get (fq_daemons (ds_queue s)) (visited (ds_queue s)) = Some D"
    and cap: "jm_get_or (ds_perDaemon s) (visited (ds_queue s)) 0 < cap"
    and x: "nextEligible (credit (ds_queue s) D) (maxB - ds_bytes s) = Some (x, cursor)"
  shows "\<exists>s'. drain_step maxB cap relaxed s = DrainContinue s' \<and> take_visit maxB cap x s s'"
proof -
  let ?q = "ds_queue s" and ?d = "visited (ds_queue s)"
  let ?D2 = "credit ?q D\<lparr>priorityCursor := cursor\<rparr>"
  let ?s = "s\<lparr>ds_queue := store_daemon ?d ?D2 (granted D ?q)\<rparr>"
  note g = granted_struct[OF q ne D]
  have t: "fq_struct (ds_queue ?s)" "content (ds_queue ?s) = content ?q" "fq_mset (ds_queue ?s) = fq_mset ?q"
    using store_daemon_tweak[OF g(1) g(6), of ?D2] g by simp_all
  obtain p xs where x': "byPriority ?D2 p = x # xs" "qe_payloadBytes x \<le> deficit ?D2"
      "ds_bytes ?s + qe_payloadBytes x \<le> maxB"
    using nextEligible_Some[OF x] by auto
  obtain s' where s': "drain_take ?d ?D2 x ?s = DrainContinue s'" "take_visit maxB cap x ?s s'"
    using drain_take_effect[OF t(1) _ x', of ?d cap] cap by auto
  have fr: "fq_frame ?q (ds_queue ?s)" using g(4) by (simp add: fq_frame_def store_daemon_def)
  have "take_visit maxB cap x s s'"
    using s'(2) t(2,3) g(5) fq_frame_trans[OF fr]
    by (simp add: take_visit_def Let_def) (simp add: took_def)
  then show ?thesis using s'(1) cap x by (simp add: drain_step_eq[OF q ne D] Let_def)
qed

lemma drain_step_idle:
  assumes q: "fq_struct (ds_queue s)" and ne: "fq_activeDaemonIds (ds_queue s) \<noteq> []"
    and D: "jm_get (fq_daemons (ds_queue s)) (visited (ds_queue s)) = Some D"
    and "cap \<le> jm_get_or (ds_perDaemon s) (visited (ds_queue s)) 0
      \<or> nextEligible (credit (ds_queue s) D) (maxB - ds_bytes s) = None"
  shows "\<exists>s'. (drain_step maxB cap relaxed s = DrainContinue s' \<or> drain_step maxB cap relaxed s = DrainReturn s')
    \<and> idle_visit s s' \<and> ds_queue s' = granted D (ds_queue s)"
  using assms(4) granted_struct[OF q ne D]
  by (auto simp: drain_step_eq[OF q ne D] idle_visit_def Let_def)

lemma drain_step_visit:
  assumes q: "fq_struct (ds_queue s)" and ne: "fq_activeDaemonIds (ds_queue s) \<noteq> []"
  shows "\<exists>s'. (drain_step maxB cap relaxed s = DrainContinue s' \<or> drain_step maxB cap relaxed s = DrainReturn s')
    \<and> visit maxB cap s s'"
proof -
  obtain D where D: "jm_get (fq_daemons (ds_queue s)) (visited (ds_queue s)) = Some D"
    using nextActiveDaemon_ring(3)[OF q ne] by (auto simp: visited_def)
  show ?thesis
  proof (cases "cap \<le> jm_get_or (ds_perDaemon s) (visited (ds_queue s)) 0
      \<or> nextEligible (credit (ds_queue s) D) (maxB - ds_bytes s) = None")
    case True
    then show ?thesis using drain_step_idle[OF q ne D] unfolding visit_def by blast
  next
    case False
    then obtain x c where "nextEligible (credit (ds_queue s) D) (maxB - ds_bytes s) = Some (x, c)" by auto
    then show ?thesis using drain_step_take[OF q ne D] False unfolding visit_def by (meson not_le)
  qed
qed

section \<open>The loop\<close>

lemma visit_struct: "visit maxB cap s s' \<Longrightarrow> fq_struct (ds_queue s')"
  by (auto simp: visit_def idle_visit_def take_visit_def Let_def)

lemma drain_loop_rule:
  assumes "fq_struct (ds_queue s)" and "P s"
    and step: "\<And>s s'. P s \<Longrightarrow> int (length (ds_batch s)) < maxRows \<Longrightarrow> visit maxB cap s s' \<Longrightarrow> P s'"
  shows "\<exists>s'. drain_loop n maxRows maxB cap relaxed s = (s', None) \<and> P s' \<and> fq_struct (ds_queue s')"
  using assms(1,2)
proof (induction n arbitrary: s)
  case (Suc n)
  show ?case
  proof (cases "int (length (ds_batch s)) < maxRows \<and> fq_activeDaemonIds (ds_queue s) \<noteq> []")
    case True
    obtain s' where s': "drain_step maxB cap relaxed s = DrainContinue s' \<or> drain_step maxB cap relaxed s = DrainReturn s'"
        "visit maxB cap s s'"
      using drain_step_visit[OF Suc.prems(1)] True by blast
    have ok: "P s'" "fq_struct (ds_queue s')" using step Suc.prems True s'(2) visit_struct by blast+
    show ?thesis using s'(1) True ok Suc.IH[OF ok(2,1)] by auto
  qed (use Suc.prems in auto)
qed simp

end
