(* ===== verification/Fair_Queue_Correct.thy ===== *)
theory Fair_Queue_Correct
  imports Fair_Queue_Drain
begin

text \<open>
  The ingress queue against its contract. Taking a batch moves a prefix of every
  (daemon, priority) line into the reservation, requeueing undoes exactly that, and the charged
  capacity is at all times the envelopes that are queued or reserved.
\<close>

section \<open>Residents\<close>

text \<open>
  An envelope object is resident from its admission to its commit, first queued, then reserved.
  Every admitted envelope is an object of its own, so no object is resident twice.
\<close>

definition resident :: "FairIngressQueue \<Rightarrow> QueuedEnvelope multiset" where
  "resident q = fq_mset q + image_mset toQueued (mset (fq_reserved q))"

definition single :: "FairIngressQueue \<Rightarrow> bool" where
  "single q \<longleftrightarrow> (\<forall>x. count (resident q) x \<le> 1)"

lemma toQueued_event [simp]: "qe_event (toQueued e) = e"
  by (simp add: toQueued_def)

lemma count_toQueued: "count (image_mset toQueued M) (toQueued e) = count M e"
  by (induction M) (auto simp: toQueued_def)

lemma single_distinct:
  assumes "single q" shows "distinct (fq_reserved q)"
proof -
  have "count (mset (fq_reserved q)) e \<le> 1" for e
  proof -
    have "count (image_mset toQueued (mset (fq_reserved q))) (toQueued e) \<le> 1"
      using assms unfolding single_def resident_def by (metis add_leD2 count_union)
    then show ?thesis by (simp add: count_toQueued)
  qed
  then show ?thesis unfolding distinct_count_atmost_1
    by (metis count_mset_0_iff le_antisym less_one linorder_not_less)
qed

section \<open>Taking a batch\<close>

definition line_of :: "string \<Rightarrow> PriorityClass \<Rightarrow> IngressEnvelope list \<Rightarrow> IngressEnvelope list" where
  "line_of d p = filter (\<lambda>e. ie_daemonId e = d \<and> ie_priority e = p)"

definition of_daemon :: "string \<Rightarrow> IngressEnvelope list \<Rightarrow> IngressEnvelope list" where
  "of_daemon d = filter (\<lambda>e. ie_daemonId e = d)"

definition batch_size :: "IngressEnvelope list \<Rightarrow> int" where
  "batch_size es = (\<Sum>e\<leftarrow>es. qe_payloadBytes (toQueued e))"

lemma batchBytes_sum: "batchBytes es = batch_size es"
proof -
  have "foldl (\<lambda>total e. total + qe_payloadBytes (toQueued e)) a es = a + batch_size es" for a
    by (induction es arbitrary: a) (simp_all add: batch_size_def)
  then show ?thesis by (simp add: batchBytes_def)
qed

text \<open>The state of a drain that began on queue \<open>q\<close> with nothing taken.\<close>

definition drained :: "int \<Rightarrow> int \<Rightarrow> int \<Rightarrow> FairIngressQueue \<Rightarrow> drain_state \<Rightarrow> bool" where
  "drained maxRows maxB cap q s \<longleftrightarrow>
     (\<forall>d p. map toQueued (line_of d p (ds_batch s)) @ content (ds_queue s) d p = content q d p)
     \<and> fq_mset q = mset (map toQueued (ds_batch s)) + fq_mset (ds_queue s)
     \<and> fq_frame q (ds_queue s) \<and> mset (fq_reserved (ds_queue s)) = mset (fq_reserved q) + mset (ds_batch s)
     \<and> int (length (ds_batch s)) \<le> maxRows
     \<and> ds_bytes s = batch_size (ds_batch s) \<and> ds_bytes s \<le> maxB
     \<and> (\<forall>d. jm_get_or (ds_perDaemon s) d 0 = int (length (of_daemon d (ds_batch s)))
          \<and> int (length (of_daemon d (ds_batch s))) \<le> cap)"

lemma drained_visit:
  assumes P: "drained maxRows maxB cap q s" and rows: "int (length (ds_batch s)) < maxRows"
    and v: "visit maxB cap s s'" and single: "single q"
  shows "drained maxRows maxB cap q s'"
  using v unfolding visit_def
proof (elim disjE exE)
  assume "idle_visit s s'"
  then show ?thesis using P fq_frame_trans by (fastforce simp: drained_def idle_visit_def)
next
  fix x assume t: "take_visit maxB cap x s s'"
  let ?e = "qe_event x"
  have tk: "took x (ds_queue s) (ds_queue s')" and fr: "fq_frame (ds_queue s) (ds_queue s')"
    and b: "ds_batch s' = ds_batch s @ [?e]" and x: "toQueued ?e = x"
    and res: "fq_reserved (ds_queue s') = List.insert ?e (fq_reserved (ds_queue s))"
    and by': "ds_bytes s' = ds_bytes s + qe_payloadBytes x" "ds_bytes s + qe_payloadBytes x \<le> maxB"
    and pd: "ds_perDaemon s' = jm_set (ie_daemonId ?e) (jm_get_or (ds_perDaemon s) (ie_daemonId ?e) 0 + 1) (ds_perDaemon s)"
    and pl: "jm_get_or (ds_perDaemon s) (ie_daemonId ?e) 0 < cap"
    using t by (simp_all add: take_visit_def Let_def)
  have "resident q = add_mset x (fq_mset (ds_queue s') + image_mset toQueued (mset (fq_reserved (ds_queue s))))"
    using P tk by (simp add: resident_def drained_def took_def)
  moreover have "count (resident q) x \<le> 1" using single by (simp add: single_def)
  ultimately have "count (image_mset toQueued (mset (fq_reserved (ds_queue s)))) (toQueued ?e) = 0"
    by (simp add: x)
  then have res': "mset (fq_reserved (ds_queue s')) = add_mset ?e (mset (fq_reserved (ds_queue s)))"
    unfolding count_toQueued by (simp add: res)
  have "map toQueued (line_of d p (ds_batch s')) @ content (ds_queue s') d p = content q d p" for d p
  proof -
    have "map toQueued (line_of d p (ds_batch s)) @ content (ds_queue s) d p = content q d p"
      using P by (simp add: drained_def)
    moreover have "content (ds_queue s) d p = (if d = ie_daemonId ?e \<and> p = ie_priority ?e
        then x # content (ds_queue s') d p else content (ds_queue s') d p)"
      using tk by (simp add: took_def)
    ultimately show ?thesis by (auto simp: b line_of_def x split: if_splits)
  qed
  moreover have "fq_mset q = mset (map toQueued (ds_batch s')) + fq_mset (ds_queue s')"
    using P tk by (simp add: drained_def took_def b x)
  moreover have "fq_frame q (ds_queue s')" using P fr fq_frame_trans by (auto simp: drained_def)
  moreover have "jm_get_or (ds_perDaemon s') d 0 = int (length (of_daemon d (ds_batch s')))
      \<and> int (length (of_daemon d (ds_batch s'))) \<le> cap" for d
    using P pl by (auto simp: drained_def pd b of_daemon_def jm_get_or_def)
  ultimately show ?thesis
    using P rows by' by (simp add: drained_def b res' batch_size_def x)
qed

lemma drain_drained:
  assumes "fq_struct (ds_queue s)" and "drained maxRows maxB cap q s" and "single q"
  shows "\<exists>s'. drain_loop n maxRows maxB cap relaxed s = (s', None)
    \<and> drained maxRows maxB cap q s' \<and> fq_struct (ds_queue s')"
  using drain_loop_rule[where P = "drained maxRows maxB cap q"] drained_visit assms by blast

definition row_cap :: "BatchLimits \<Rightarrow> int" where
  "row_cap limits = nonNegativeInteger (bl_maxRows limits) 0"

definition byte_cap :: "BatchLimits \<Rightarrow> int" where
  "byte_cap limits = nonNegativeInteger (bl_maxBytes limits) 0"

definition daemon_cap :: "BatchLimits \<Rightarrow> int" where
  "daemon_cap limits = max 1 \<lfloor>of_int (row_cap limits) *
     max 0 (min 1 (case bl_maxPerDaemonFraction limits of Some f \<Rightarrow> f | None \<Rightarrow> 1))\<rfloor>"

lemma caps_nonneg [simp]: "0 \<le> row_cap l" "0 \<le> byte_cap l" "0 \<le> daemon_cap l" "0 < daemon_cap l"
  by (auto simp: row_cap_def byte_cap_def daemon_cap_def nonNegativeInteger_def split: option.splits)

lemma of_daemon_length: "length (of_daemon d es) \<le> length es"
  by (simp add: of_daemon_def)

lemma takeBatch_spec:
  assumes q: "fq_struct q" and single: "single q"
  shows "\<exists>batch q'. takeBatch limits q = (Inr batch, q') \<and> fq_struct q'
    \<and> (\<forall>d p. map toQueued (line_of d p batch) @ content q' d p = content q d p)
    \<and> fq_mset q = mset (map toQueued batch) + fq_mset q'
    \<and> fq_frame q q' \<and> mset (fq_reserved q') = mset (fq_reserved q) + mset batch
    \<and> int (length batch) \<le> row_cap limits \<and> batch_size batch \<le> byte_cap limits
    \<and> (1 < length (fq_activeDaemonIds q) \<longrightarrow> (\<forall>d. int (length (of_daemon d batch)) \<le> daemon_cap limits))"
proof (cases "row_cap limits = 0 \<or> byte_cap limits = 0 \<or> fq_activeDaemonIds q = []")
  case True
  then have "takeBatch limits q = (Inr [], q)"
    by (auto simp: takeBatch_def row_cap_def byte_cap_def Let_def)
  then show ?thesis using q by (simp add: line_of_def of_daemon_def batch_size_def)
next
  case False
  let ?r = "row_cap limits" and ?b = "byte_cap limits" and ?c = "daemon_cap limits"
  have init: "drained ?r ?b ?c q \<lparr>ds_queue = q, ds_batch = [], ds_perDaemon = [], ds_bytes = 0, ds_stalled = 0\<rparr>"
    by (simp add: drained_def line_of_def of_daemon_def batch_size_def jm_get_or_def)
  obtain s1 where s1: "drain [] [] ?r ?b ?c 0 False q = (s1, None)" "drained ?r ?b ?c q s1" "fq_struct (ds_queue s1)"
    using drain_drained[OF _ init single] q unfolding drain_def by force
  show ?thesis
  proof (cases "1 < length (fq_activeDaemonIds q) \<or> \<not> int (length (ds_batch s1)) < ?r")
    case True
    then have "takeBatch limits q = (Inr (ds_batch s1), ds_queue s1)"
      using False s1(1) by (auto simp: takeBatch_def row_cap_def byte_cap_def daemon_cap_def Let_def)
    then show ?thesis using s1(2,3) by (simp add: drained_def)
  next
    case stop: False
    let ?s = "\<lparr>ds_queue = ds_queue s1, ds_batch = ds_batch s1, ds_perDaemon = ds_perDaemon s1,
        ds_bytes = batchBytes (ds_batch s1), ds_stalled = 0\<rparr>"
    have "int (length (of_daemon d (ds_batch s1))) \<le> ?r" for d
      using of_daemon_length[of d "ds_batch s1"] stop by linarith
    then have "drained ?r ?b ?r q ?s" using s1(2) by (simp add: drained_def batchBytes_sum)
    then obtain s2 where s2: "drain (ds_batch s1) (ds_perDaemon s1) ?r ?b ?r (batchBytes (ds_batch s1)) True (ds_queue s1)
        = (s2, None)" "drained ?r ?b ?r q s2" "fq_struct (ds_queue s2)"
      using drain_drained[of ?s] single s1(3) unfolding drain_def by force
    have "takeBatch limits q = (Inr (ds_batch s2), ds_queue s2)"
      using False stop s1(1) s2(1) by (simp add: takeBatch_def row_cap_def byte_cap_def daemon_cap_def Let_def)
    then show ?thesis using s2(2,3) stop by (auto simp: drained_def)
  qed
qed

section \<open>Requeueing\<close>

lemma insertFront_struct:
  assumes "fq_struct q" and "ie_daemonId e \<noteq> []"
  shows "fq_struct (insertFront (toQueued e) q)"
    and "fq_mset (insertFront (toQueued e) q) = add_mset (toQueued e) (fq_mset q)"
  using insert_with_struct[of "\<lambda>xs. toQueued e # xs" "toQueued e" q] assms
  by (simp_all add: insertFront_def toQueued_def)

lemma insertFront_content:
  "content (insertFront (toQueued e) q) d p =
     (if d = ie_daemonId e \<and> p = ie_priority e then toQueued e # content q d p else content q d p)"
  by (simp add: insertFront_def insert_with_content)

lemma requeue_reversed_spec:
  assumes "fq_struct q" and "mset es \<subseteq># mset (fq_reserved q)" and "\<forall>e \<in> set es. ie_daemonId e \<noteq> []"
    and "distinct (fq_reserved q)"
  shows "\<exists>q'. requeue_reversed es q = (q', None) \<and> fq_struct q' \<and> fq_frame q q'
    \<and> fq_mset q' = mset (map toQueued es) + fq_mset q
    \<and> mset (fq_reserved q') = mset (fq_reserved q) - mset es
    \<and> (\<forall>d p. content q' d p = map toQueued (rev (line_of d p es)) @ content q d p)"
  using assms
proof (induction es arbitrary: q)
  case (Cons e es)
  let ?q1 = "q\<lparr>fq_reserved := removeAll e (fq_reserved q)\<rparr>"
  let ?q2 = "insertFront (toQueued e) ?q1"
  have e: "e \<in> set (fq_reserved q)" "ie_daemonId e \<noteq> []"
    using Cons.prems(2,3) by (auto dest: mset_subset_eqD)
  have q1: "fq_struct ?q1" using Cons.prems(1) by (simp add: reserve_struct)
  have res: "fq_reserved ?q2 = remove1 e (fq_reserved q)"
    using insert_with_frame[of ?q1] Cons.prems(4) by (simp add: insertFront_def distinct_remove1_removeAll)
  have "mset es \<subseteq># mset (fq_reserved ?q2)"
    using Cons.prems(2) by (simp add: res insert_subset_eq_iff)
  then obtain q' where q': "requeue_reversed es ?q2 = (q', None)" "fq_struct q'" "fq_frame ?q2 q'"
      "fq_mset q' = mset (map toQueued es) + fq_mset ?q2"
      "mset (fq_reserved q') = mset (fq_reserved ?q2) - mset es"
      "\<forall>d p. content q' d p = map toQueued (rev (line_of d p es)) @ content ?q2 d p"
    using Cons.IH[of ?q2] insertFront_struct(1)[OF q1 e(2)] Cons.prems(3,4) res by auto
  have fr: "fq_frame q ?q2"
    using insert_with_frame[of ?q1] by (simp add: insertFront_def reserve_struct)
  have "fq_mset ?q2 = add_mset (toQueued e) (fq_mset q)"
    using insertFront_struct(2)[OF q1 e(2)] by (simp add: reserve_struct)
  then show ?case
    using e(1) q' fq_frame_trans[OF fr q'(3)]
    by (auto simp: res line_of_def insertFront_content reserve_struct)
qed (simp add: line_of_def)

lemma requeueFront_spec:
  assumes "fq_struct q" and "mset es \<subseteq># mset (fq_reserved q)" and "\<forall>e \<in> set es. ie_daemonId e \<noteq> []"
    and "distinct (fq_reserved q)"
  shows "\<exists>q'. requeueFront es q = (q', None) \<and> fq_struct q' \<and> fq_frame q q'
    \<and> fq_mset q' = mset (map toQueued es) + fq_mset q
    \<and> mset (fq_reserved q') = mset (fq_reserved q) - mset es
    \<and> (\<forall>d p. content q' d p = map toQueued (line_of d p es) @ content q d p)"
  using requeue_reversed_spec[of q "rev es"] assms
  by (simp add: requeueFront_def line_of_def rev_filter rev_map)

section \<open>Charged capacity\<close>

definition tally_count :: "(QueuedEnvelope \<Rightarrow> bool) \<Rightarrow> QueuedEnvelope multiset \<Rightarrow> int" where
  "tally_count P R = int (size (filter_mset P R))"

definition tally_bytes :: "(QueuedEnvelope \<Rightarrow> bool) \<Rightarrow> QueuedEnvelope multiset \<Rightarrow> int" where
  "tally_bytes P R = (\<Sum>x\<in>#filter_mset P R. qe_payloadBytes x)"

abbreviation by_daemon :: "string \<Rightarrow> QueuedEnvelope \<Rightarrow> bool" where
  "by_daemon d x \<equiv> ie_daemonId (qe_event x) = d"

abbreviation artifact :: "QueuedEnvelope \<Rightarrow> bool" where
  "artifact x \<equiv> isDocumentArtifact (qe_event x)"

definition usage_of :: "string \<Rightarrow> QueuedEnvelope multiset \<Rightarrow> DaemonUsage" where
  "usage_of d R =
     \<lparr>du_count = tally_count (by_daemon d) R, du_bytes = tally_bytes (by_daemon d) R,
      artifactCount = tally_count (\<lambda>x. by_daemon d x \<and> artifact x) R,
      artifactBytes = tally_bytes (\<lambda>x. by_daemon d x \<and> artifact x) R\<rparr>"

text \<open>The counters of the queue are the tallies of a multiset of envelopes.\<close>

definition accounts :: "QueuedEnvelope multiset \<Rightarrow> FairIngressQueue \<Rightarrow> bool" where
  "accounts R q \<longleftrightarrow>
     (\<forall>d. jm_get_or (fq_usage q) d emptyUsage = usage_of d R)
     \<and> fq_totalCount q = tally_count (\<lambda>_. True) R \<and> fq_totalBytes q = tally_bytes (\<lambda>_. True) R
     \<and> fq_totalArtifactCount q = tally_count artifact R \<and> fq_totalArtifactBytes q = tally_bytes artifact R"

lemma tally_add [simp]:
  "tally_count P (add_mset x R) = (if P x then 1 else 0) + tally_count P R"
  "tally_bytes P (add_mset x R) = (if P x then qe_payloadBytes x else 0) + tally_bytes P R"
  by (simp_all add: tally_count_def tally_bytes_def)

lemma usage_of_add:
  "usage_of d (add_mset x R) =
     (let u = usage_of d R; b = qe_payloadBytes x;
          u1 = u\<lparr>du_count := du_count u + 1, du_bytes := du_bytes u + b\<rparr>
      in if \<not> by_daemon d x then u
         else if artifact x then u1\<lparr>artifactCount := artifactCount u + 1, artifactBytes := artifactBytes u + b\<rparr>
         else u1)"
  by (simp add: usage_of_def Let_def)

lemma accounts_empty:
  "accounts {#} q \<longleftrightarrow> (\<forall>d. jm_get_or (fq_usage q) d emptyUsage = emptyUsage) \<and> fq_totalCount q = 0
     \<and> fq_totalBytes q = 0 \<and> fq_totalArtifactCount q = 0 \<and> fq_totalArtifactBytes q = 0"
  by (simp add: accounts_def usage_of_def emptyUsage_def tally_count_def tally_bytes_def)

lemma accounts_frame: "accounts R q \<Longrightarrow> fq_frame q q' \<Longrightarrow> accounts R q'"
  by (simp add: accounts_def fq_frame_def)

lemma accounts_charge:
  assumes "accounts R q" shows "accounts (add_mset x R) (charge x q)"
  using assms
  by (auto simp: accounts_def charge_def Let_def usage_of_add jm_get_or_def split: if_splits)

lemma tally_none: "\<forall>x \<in># R. \<not> P x \<Longrightarrow> tally_count P R = 0 \<and> tally_bytes P R = 0"
  by (induction R) (auto simp: tally_count_def tally_bytes_def)

lemma usage_zero:
  assumes "du_count (usage_of d R) = 0" shows "usage_of d R = emptyUsage"
  using assms tally_none[of R "by_daemon d"] tally_none[of R "\<lambda>x. by_daemon d x \<and> artifact x"]
  by (simp add: usage_of_def emptyUsage_def) (simp add: tally_count_def)

lemma accounts_discharge:
  assumes a: "accounts (add_mset (toQueued e) R) q" and u: "jm_get (fq_usage q) (ie_daemonId e) = Some u"
  shows "accounts R (discharge e u q)"
proof -
  let ?d = "ie_daemonId e" and ?b = "qe_payloadBytes (toQueued e)"
  have ev: "qe_event (toQueued e) = e" by (simp add: toQueued_def)
  have "jm_get_or (fq_usage q) ?d emptyUsage = usage_of ?d (add_mset (toQueued e) R)"
    using a unfolding accounts_def by blast
  then have "u = usage_of ?d (add_mset (toQueued e) R)" using u by simp
  then have u2: "usage_of ?d R = (let u1 = u\<lparr>du_count := du_count u - 1, du_bytes := du_bytes u - ?b\<rparr> in
      if isDocumentArtifact e
      then u1\<lparr>artifactCount := artifactCount u1 - 1, artifactBytes := artifactBytes u1 - ?b\<rparr> else u1)"
    by (simp add: usage_of_add ev Let_def)
  have "fq_usage (discharge e u q) = (if du_count (usage_of ?d R) = 0 then jm_delete ?d (fq_usage q)
      else jm_set ?d (usage_of ?d R) (fq_usage q))"
    by (simp add: u2 discharge_def Let_def)
  then have "jm_get_or (fq_usage (discharge e u q)) ?d emptyUsage = usage_of ?d R"
    by (simp add: jm_get_or_def jm_get_delete usage_zero)
  moreover have "jm_get_or (fq_usage (discharge e u q)) d emptyUsage = usage_of d R" if "d \<noteq> ?d" for d
  proof -
    have "jm_get_or (fq_usage q) d emptyUsage = usage_of d R"
      using a that by (simp add: accounts_def usage_of_add ev)
    then show ?thesis using that by (simp add: discharge_def Let_def jm_get_or_def jm_get_delete)
  qed
  ultimately have "\<forall>d. jm_get_or (fq_usage (discharge e u q)) d emptyUsage = usage_of d R" by metis
  moreover have "fq_totalCount (discharge e u q) = tally_count (\<lambda>_. True) R
      \<and> fq_totalBytes (discharge e u q) = tally_bytes (\<lambda>_. True) R
      \<and> fq_totalArtifactCount (discharge e u q) = tally_count artifact R
      \<and> fq_totalArtifactBytes (discharge e u q) = tally_bytes artifact R"
    using a by (simp add: accounts_def discharge_def ev Let_def)
  ultimately show ?thesis by (simp add: accounts_def)
qed

text \<open>Structure does not depend on the counters.\<close>

lemma usage_struct:
  assumes "fq_daemons q' = fq_daemons q" "fq_activeDaemonIds q' = fq_activeDaemonIds q"
    "fq_activeIndex q' = fq_activeIndex q" "fq_nextDaemon q' = fq_nextDaemon q"
    "fq_queuedCount q' = fq_queuedCount q" "fq_limits q' = fq_limits q"
  shows "fq_struct q' \<longleftrightarrow> fq_struct q" and "content q' = content q" and "fq_mset q' = fq_mset q"
  using assms by (simp_all add: fq_struct_def ring_ok_def fq_mset_def content_def fun_eq_iff)

lemma charge_struct:
  "fq_struct (charge x q) \<longleftrightarrow> fq_struct q" "content (charge x q) = content q"
  "fq_mset (charge x q) = fq_mset q" "fq_reserved (charge x q) = fq_reserved q"
  "fq_limits (charge x q) = fq_limits q"
proof -
  have same: "fq_daemons (charge x q) = fq_daemons q" "fq_activeDaemonIds (charge x q) = fq_activeDaemonIds q"
    "fq_activeIndex (charge x q) = fq_activeIndex q" "fq_nextDaemon (charge x q) = fq_nextDaemon q"
    "fq_queuedCount (charge x q) = fq_queuedCount q" "fq_limits (charge x q) = fq_limits q"
    "fq_reserved (charge x q) = fq_reserved q"
    by (simp_all add: charge_def Let_def)
  show "fq_struct (charge x q) \<longleftrightarrow> fq_struct q" "content (charge x q) = content q" "fq_mset (charge x q) = fq_mset q"
    "fq_reserved (charge x q) = fq_reserved q" "fq_limits (charge x q) = fq_limits q"
    using usage_struct[OF same(1-6)] same by simp_all
qed

lemma discharge_struct:
  "fq_struct (discharge e u q) \<longleftrightarrow> fq_struct q" "content (discharge e u q) = content q"
  "fq_mset (discharge e u q) = fq_mset q" "fq_reserved (discharge e u q) = fq_reserved q"
  "fq_limits (discharge e u q) = fq_limits q" "fq_queuedCount (discharge e u q) = fq_queuedCount q"
proof -
  have same: "fq_daemons (discharge e u q) = fq_daemons q" "fq_activeDaemonIds (discharge e u q) = fq_activeDaemonIds q"
    "fq_activeIndex (discharge e u q) = fq_activeIndex q" "fq_nextDaemon (discharge e u q) = fq_nextDaemon q"
    "fq_queuedCount (discharge e u q) = fq_queuedCount q" "fq_limits (discharge e u q) = fq_limits q"
    "fq_reserved (discharge e u q) = fq_reserved q"
    by (simp_all add: discharge_def Let_def)
  show "fq_struct (discharge e u q) \<longleftrightarrow> fq_struct q" "content (discharge e u q) = content q" "fq_mset (discharge e u q) = fq_mset q"
    "fq_reserved (discharge e u q) = fq_reserved q" "fq_limits (discharge e u q) = fq_limits q"
    "fq_queuedCount (discharge e u q) = fq_queuedCount q"
    using usage_struct[OF same(1-6)] same by simp_all
qed

lemma usage_present:
  assumes "accounts R q" and "x \<in># R"
  shows "\<exists>u. jm_get (fq_usage q) (ie_daemonId (qe_event x)) = Some u"
proof (rule ccontr)
  assume "\<nexists>u. jm_get (fq_usage q) (ie_daemonId (qe_event x)) = Some u"
  then have "usage_of (ie_daemonId (qe_event x)) R = emptyUsage"
    using assms(1) unfolding accounts_def by (metis jm_get_or_None not_None_eq)
  then show False using assms(2) by (auto simp: usage_of_def emptyUsage_def tally_count_def)
qed

lemma commitBatch_spec:
  assumes "mset es \<subseteq># mset (fq_reserved q)" and "accounts (mset (map toQueued es) + R) q"
    and "distinct (fq_reserved q)"
  shows "\<exists>q'. commitBatch es q = (q', None) \<and> accounts R q'
    \<and> (fq_struct q' \<longleftrightarrow> fq_struct q) \<and> content q' = content q \<and> fq_mset q' = fq_mset q
    \<and> mset (fq_reserved q') = mset (fq_reserved q) - mset es
    \<and> fq_limits q' = fq_limits q \<and> fq_queuedCount q' = fq_queuedCount q"
  using assms
proof (induction es arbitrary: q)
  case (Cons e es)
  let ?q1 = "q\<lparr>fq_reserved := removeAll e (fq_reserved q)\<rparr>"
  have e: "e \<in> set (fq_reserved q)" using Cons.prems(1) by (auto dest: mset_subset_eqD)
  have res: "removeAll e (fq_reserved q) = remove1 e (fq_reserved q)"
    using Cons.prems(3) by (simp add: distinct_remove1_removeAll)
  obtain u where u: "jm_get (fq_usage q) (ie_daemonId e) = Some u"
    using usage_present[OF Cons.prems(2), of "toQueued e"] by (auto simp: toQueued_def)
  let ?q2 = "discharge e u ?q1"
  have "accounts (add_mset (toQueued e) (mset (map toQueued es) + R)) ?q1"
    using Cons.prems(2) by (simp add: accounts_def)
  then have a2: "accounts (mset (map toQueued es) + R) ?q2" using u by (intro accounts_discharge) simp_all
  have "mset es \<subseteq># mset (fq_reserved ?q2)"
    using Cons.prems(1) by (simp add: discharge_struct insert_subset_eq_iff res)
  from Cons.IH[OF this a2] show ?case
    using e u Cons.prems(3) by (auto simp: discharge_struct reserve_struct res)
qed simp

section \<open>The capacity invariant\<close>

definition admissible_size :: "fq_limits \<Rightarrow> int" where
  "admissible_size L = min (maxEventBytes L) (min (maxBytesPerDaemon L) (maxBytes L))"

definition daemon_fits :: "fq_limits \<Rightarrow> DaemonUsage \<Rightarrow> bool" where
  "daemon_fits L u \<longleftrightarrow> du_count u \<le> maxEventsPerDaemon L \<and> du_bytes u \<le> maxBytesPerDaemon L
     \<and> artifactCount u \<le> maxArtifactEventsPerDaemon L \<and> artifactBytes u \<le> maxArtifactBytesPerDaemon L"

definition fits :: "fq_limits \<Rightarrow> QueuedEnvelope multiset \<Rightarrow> bool" where
  "fits L R \<longleftrightarrow> tally_count (\<lambda>_. True) R \<le> maxEvents L \<and> tally_bytes (\<lambda>_. True) R \<le> maxBytes L
     \<and> tally_count artifact R \<le> maxArtifactEvents L \<and> tally_bytes artifact R \<le> maxArtifactBytes L
     \<and> (\<forall>d. daemon_fits L (usage_of d R))
     \<and> (\<forall>x \<in># R. 0 \<le> qe_payloadBytes x \<and> qe_payloadBytes x \<le> admissible_size L)"

definition fq_inv :: "FairIngressQueue \<Rightarrow> bool" where
  "fq_inv q \<longleftrightarrow> fq_struct q \<and> accounts (resident q) q \<and> fits (fq_limits q) (resident q)
     \<and> single q \<and> (\<forall>e \<in> set (fq_reserved q). ie_daemonId e \<noteq> [])"

lemma fq_invD:
  assumes "fq_inv q"
  shows "fq_struct q" "accounts (resident q) q" "fits (fq_limits q) (resident q)" "single q"
    "e \<in> set (fq_reserved q) \<Longrightarrow> ie_daemonId e \<noteq> []"
  using assms by (simp_all add: fq_inv_def)

lemma tally_mono:
  assumes "R \<subseteq># S" and "\<forall>x \<in># S. 0 \<le> qe_payloadBytes x"
  shows "tally_count P R \<le> tally_count P S" "tally_bytes P R \<le> tally_bytes P S"
proof -
  obtain T where S: "S = R + T" using assms(1) by (auto simp: mset_subset_eq_exists_conv)
  have "0 \<le> (\<Sum>x\<in>#filter_mset P T. qe_payloadBytes x)"
    using assms(2) S by (induction T arbitrary: S) auto
  then show "tally_count P R \<le> tally_count P S" "tally_bytes P R \<le> tally_bytes P S"
    by (simp_all add: S tally_count_def tally_bytes_def)
qed

lemma fits_mono:
  assumes "fits L S" and "R \<subseteq># S" shows "fits L R"
proof -
  have nn: "\<forall>x \<in># S. 0 \<le> qe_payloadBytes x" using assms(1) by (simp add: fits_def)
  note m = tally_mono[OF assms(2) nn]
  have "daemon_fits L (usage_of d R)" for d
  proof -
    have "daemon_fits L (usage_of d S)" using assms(1) by (simp add: fits_def)
    then show ?thesis
      using m[of "by_daemon d"] m[of "\<lambda>x. by_daemon d x \<and> artifact x"]
      by (simp add: daemon_fits_def usage_of_def)
  qed
  moreover have "\<forall>x \<in># R. 0 \<le> qe_payloadBytes x \<and> qe_payloadBytes x \<le> admissible_size L"
    using assms by (auto simp: fits_def dest: mset_subset_eqD)
  ultimately show ?thesis
    using assms(1) m[of "\<lambda>_. True"] m[of artifact] by (simp add: fits_def)
qed

lemma fits_empty: "fits (resolve_limits c) {#}"
  by (simp add: fits_def daemon_fits_def usage_of_def tally_count_def tally_bytes_def resolve_limits_def
      positiveInteger_def split: option.splits)

lemma toQueued_nonneg [simp]: "0 \<le> qe_payloadBytes (toQueued e)"
  by (simp add: toQueued_def)

lemma insertBack_inv:
  assumes q: "fq_inv q" and d: "ie_daemonId e \<noteq> []" and new: "toQueued e \<notin># resident q"
    and f: "fits (fq_limits q) (add_mset (toQueued e) (resident q))"
  shows "fq_inv (insertBack (toQueued e) q)"
    and "resident (insertBack (toQueued e) q) = add_mset (toQueued e) (resident q)"
proof -
  let ?x = "toQueued e" let ?q1 = "insert_with (\<lambda>xs. xs @ [?x]) ?x q"
  have s: "fq_struct ?q1" "fq_mset ?q1 = add_mset ?x (fq_mset q)"
    using insert_with_struct[of "\<lambda>xs. xs @ [?x]" ?x q] fq_invD(1)[OF q] d by simp_all
  have fr: "fq_frame q ?q1" "fq_reserved ?q1 = fq_reserved q" using insert_with_frame by blast+
  show r: "resident (insertBack ?x q) = add_mset ?x (resident q)"
    by (simp add: resident_def insertBack_def charge_struct s fr)
  have "accounts (add_mset ?x (resident q)) (insertBack ?x q)"
    unfolding insertBack_def by (rule accounts_charge[OF accounts_frame[OF fq_invD(2)[OF q] fr(1)]])
  moreover have "fq_limits (insertBack ?x q) = fq_limits q"
    using fr(1) by (simp add: insertBack_def charge_struct fq_frame_def)
  moreover have "single (insertBack ?x q)"
    using fq_invD(4)[OF q] new unfolding single_def r by (auto simp: not_in_iff)
  ultimately show "fq_inv (insertBack ?x q)"
    using s(1) f q fr(2) unfolding fq_inv_def r by (simp add: insertBack_def charge_struct)
qed

lemma enqueue_cases:
  assumes q: "fq_inv q"
  shows "enqueue e q = (Backpressured (backpressureState FlowEventTooLarge (Some (ie_seq e))), q)
      \<and> admissible_size (fq_limits q) < qe_payloadBytes (toQueued e)
    \<or> enqueue e q = (Backpressured (backpressureState FlowArtifactBackpressure None), q)
    \<or> enqueue e q = (Backpressured (backpressureState FlowIngestBackpressure None), q)
    \<or> enqueue e q = (EnqueueAccepted, insertBack (toQueued e) q)
      \<and> fits (fq_limits q) (add_mset (toQueued e) (resident q))"
proof -
  let ?x = "toQueued e" and ?L = "fq_limits q" and ?R = "resident q"
  note a = fq_invD(2)[OF q, unfolded accounts_def] and f = fq_invD(3)[OF q, unfolded fits_def]
  have u: "jm_get_or (fq_usage q) (ie_daemonId e) emptyUsage = usage_of (ie_daemonId e) ?R" using a by blast
  let ?u = "usage_of (ie_daemonId e) ?R"
  have df: "daemon_fits ?L (usage_of d ?R)" for d using f by simp
  have fits: "fits ?L (add_mset ?x ?R)"
    if "qe_payloadBytes ?x \<le> admissible_size ?L"
      and "isDocumentArtifact e \<Longrightarrow> artifactCount ?u < maxArtifactEventsPerDaemon ?L
        \<and> artifactBytes ?u + qe_payloadBytes ?x \<le> maxArtifactBytesPerDaemon ?L
        \<and> fq_totalArtifactCount q < maxArtifactEvents ?L
        \<and> fq_totalArtifactBytes q + qe_payloadBytes ?x \<le> maxArtifactBytes ?L"
      and "du_count ?u < maxEventsPerDaemon ?L" "du_bytes ?u + qe_payloadBytes ?x \<le> maxBytesPerDaemon ?L"
        "fq_totalCount q < maxEvents ?L" "fq_totalBytes q + qe_payloadBytes ?x \<le> maxBytes ?L"
  proof -
    have "daemon_fits ?L (usage_of d (add_mset ?x ?R))" for d
      using df[of d] that by (auto simp: daemon_fits_def usage_of_add Let_def)
    moreover have "tally_count (\<lambda>_. True) (add_mset ?x ?R) \<le> maxEvents ?L
      \<and> tally_bytes (\<lambda>_. True) (add_mset ?x ?R) \<le> maxBytes ?L" using a that by simp
    moreover have "tally_count artifact (add_mset ?x ?R) \<le> maxArtifactEvents ?L
      \<and> tally_bytes artifact (add_mset ?x ?R) \<le> maxArtifactBytes ?L"
      using a f that(2) by (cases "isDocumentArtifact e") simp_all
    ultimately show ?thesis using f that(1) by (simp add: fits_def)
  qed
  show ?thesis
    unfolding enqueue_def Let_def u admissible_size_def[symmetric]
    using fits by (simp add: not_le not_less)
qed

lemma enqueue_inv:
  assumes "fq_inv q" and "ie_daemonId e \<noteq> []" and "toQueued e \<notin># resident q" shows "fq_inv (snd (enqueue e q))"
  using enqueue_cases[OF assms(1), of e] insertBack_inv(1)[OF assms] assms(1) by auto

lemma takeBatch_inv:
  assumes q: "fq_inv q" and t: "takeBatch limits q = (r, q')"
  shows "fq_inv q'" and "resident q' = resident q"
proof -
  obtain batch where b: "r = Inr batch" "fq_struct q'" "fq_mset q = mset (map toQueued batch) + fq_mset q'"
      "fq_frame q q'" "mset (fq_reserved q') = mset (fq_reserved q) + mset batch"
    using takeBatch_spec[OF fq_invD(1,4)[OF q], of limits] t by auto
  show res: "resident q' = resident q" using b(3,5) by (simp add: resident_def)
  have "ie_daemonId e \<noteq> []" if "e \<in> set batch" for e
  proof -
    have "toQueued e \<in># fq_mset q" using b(3) that by simp
    then obtain d D where "jm_get (fq_daemons q) d = Some D" "toQueued e \<in># dq_mset D"
      using dm_mset_member[OF fq_structD(1)[OF fq_invD(1)[OF q]]] by (auto simp: fq_mset_def)
    moreover from this have "d \<noteq> []" "dq_ok d D" using fq_struct_daemon[OF fq_invD(1)[OF q]] by auto
    ultimately have "ie_daemonId (qe_event (toQueued e)) = d"
      unfolding dq_ok_def dq_mset_def by (metis in_multiset_in_set union_iff)
    then show ?thesis using \<open>d \<noteq> []\<close> by simp
  qed
  moreover have "set (fq_reserved q') = set (fq_reserved q) \<union> set batch"
    using b(5) by (metis set_mset_mset set_mset_union)
  ultimately show "fq_inv q'"
    using q b(2,4) accounts_frame[OF fq_invD(2)[OF q] b(4)]
    by (auto simp: fq_inv_def res fq_frame_def single_def)
qed

lemma set_reserved_subset: "mset es \<subseteq># mset xs \<Longrightarrow> set es \<subseteq> set xs"
  by (metis set_mset_mono set_mset_mset)

lemma resident_split:
  assumes "mset es \<subseteq># mset (fq_reserved q)"
  shows "resident q = mset (map toQueued es) + (fq_mset q + image_mset toQueued (mset (fq_reserved q) - mset es))"
proof -
  obtain T where T: "mset (fq_reserved q) = mset es + T" using assms by (auto simp: mset_subset_eq_exists_conv)
  show ?thesis by (simp add: resident_def T)
qed

lemma commitBatch_inv:
  assumes q: "fq_inv q" and es: "mset es \<subseteq># mset (fq_reserved q)" and c: "commitBatch es q = (q', r)"
  shows "fq_inv q' \<and> r = None \<and> content q' = content q \<and> mset (fq_reserved q') = mset (fq_reserved q) - mset es
    \<and> resident q = mset (map toQueued es) + resident q'"
proof -
  let ?R = "fq_mset q + image_mset toQueued (mset (fq_reserved q) - mset es)"
  have a: "accounts (mset (map toQueued es) + ?R) q"
    using fq_invD(2)[OF q] by (simp add: resident_split[OF es])
  then have s: "r = None" "accounts ?R q'" "fq_struct q'" "content q' = content q" "fq_mset q' = fq_mset q"
      "mset (fq_reserved q') = mset (fq_reserved q) - mset es" "fq_limits q' = fq_limits q"
    using commitBatch_spec[OF es a single_distinct[OF fq_invD(4)[OF q]]] c fq_invD(1)[OF q] by auto
  have R: "resident q' = ?R" by (simp add: resident_def s)
  have "set (fq_reserved q') \<subseteq> set (fq_reserved q)"
    using s(6) by (metis diff_subset_eq_self set_reserved_subset)
  moreover have "single q'"
    using fq_invD(4)[OF q] unfolding single_def R resident_split[OF es] by (metis add_leD2 count_union)
  ultimately have "fq_inv q'"
    using s q fits_mono[OF fq_invD(3)[OF q], of ?R] resident_split[OF es] unfolding fq_inv_def R by auto
  then show ?thesis using s R resident_split[OF es] by simp
qed

lemma requeueFront_inv:
  assumes q: "fq_inv q" and es: "mset es \<subseteq># mset (fq_reserved q)" and c: "requeueFront es q = (q', r)"
  shows "fq_inv q' \<and> r = None \<and> resident q' = resident q
    \<and> (\<forall>d p. content q' d p = map toQueued (line_of d p es) @ content q d p)
    \<and> mset (fq_reserved q') = mset (fq_reserved q) - mset es"
proof -
  have "\<forall>e \<in> set es. ie_daemonId e \<noteq> []"
    using fq_invD(5)[OF q] set_reserved_subset[OF es] by blast
  then have s: "r = None" "fq_struct q'" "fq_frame q q'" "fq_mset q' = mset (map toQueued es) + fq_mset q"
      "mset (fq_reserved q') = mset (fq_reserved q) - mset es"
      "\<forall>d p. content q' d p = map toQueued (line_of d p es) @ content q d p"
    using requeueFront_spec[OF fq_invD(1)[OF q] es] single_distinct[OF fq_invD(4)[OF q]] c by auto
  have R: "resident q' = resident q"
    using s(4,5) by (simp add: resident_split[OF es]) (simp add: resident_def)
  have "set (fq_reserved q') \<subseteq> set (fq_reserved q)"
    using s(5) by (metis diff_subset_eq_self set_reserved_subset)
  then have "fq_inv q'"
    using s q accounts_frame[OF fq_invD(2)[OF q] s(3)] unfolding fq_inv_def single_def R
    by (auto simp: fq_frame_def)
  then show ?thesis using s R by simp
qed

text \<open>The calls a client makes: new envelope objects of identified daemons, and batches it holds.\<close>

inductive queue_step :: "FairIngressQueue \<Rightarrow> FairIngressQueue \<Rightarrow> bool" where
  step_enqueue: "ie_daemonId e \<noteq> [] \<Longrightarrow> toQueued e \<notin># resident q \<Longrightarrow> enqueue e q = (r, q') \<Longrightarrow> queue_step q q'"
| step_take: "takeBatch limits q = (t, q') \<Longrightarrow> queue_step q q'"
| step_commit: "mset es \<subseteq># mset (fq_reserved q) \<Longrightarrow> commitBatch es q = (q', c) \<Longrightarrow> queue_step q q'"
| step_requeue: "mset es \<subseteq># mset (fq_reserved q) \<Longrightarrow> requeueFront es q = (q', c) \<Longrightarrow> queue_step q q'"

lemma fq_inv_new: "fq_inv (new_fair_queue c)"
proof -
  have "resident (new_fair_queue c) = {#}" by (simp add: resident_def new_fair_queue_def fq_mset_def dm_mset_def)
  then show ?thesis
    using fq_struct_new[of c] fits_empty[of c]
    by (simp add: fq_inv_def accounts_empty single_def) (simp add: new_fair_queue_def jm_get_or_def)
qed

interpretation fq: transition_system "\<lambda>q. \<exists>c. q = new_fair_queue c" queue_step fq_inv
proof
  show "fq_inv q" if "\<exists>c. q = new_fair_queue c" for q using that fq_inv_new by blast
  show "fq_inv q'" if "fq_inv q" "queue_step q q'" for q q'
    using that(2,1)
  proof (cases rule: queue_step.cases)
    case (step_enqueue e r)
    then show ?thesis using enqueue_inv[OF that(1) step_enqueue(1,2)] by simp
  qed (blast dest: takeBatch_inv(1) commitBatch_inv requeueFront_inv)+
qed

end
