(* ===== verification/Fair_Queue_Service.thy ===== *)
theory Fair_Queue_Service
  imports Fair_Queue_Correct
begin

text \<open>
  Service guarantees of the ingress queue: the drain always makes progress when some head fits
  the batch, and the contract of the queue over every sequence of calls.
\<close>

section \<open>Progress\<close>

text \<open>How often the ring reaches position \<open>i\<close> in \<open>v\<close> visits that start at position \<open>j\<close>.\<close>

definition visits_to :: "nat \<Rightarrow> nat \<Rightarrow> nat \<Rightarrow> nat \<Rightarrow> nat" where
  "visits_to n i j v = card {t. t < v \<and> (j + t) mod n = i}"

lemma visits_to_0 [simp]: "visits_to n i j 0 = 0"
  by (simp add: visits_to_def)

lemma visits_to_Suc:
  assumes "j < n" and "i < n"
  shows "visits_to n i j (Suc v) = (if j = i then 1 else 0) + visits_to n i ((j + 1) mod n) v"
proof -
  let ?A = "{t. t < v \<and> ((j + 1) mod n + t) mod n = i}"
  have eq: "(Suc j mod n + t) mod n = Suc (j + t) mod n" for t using mod_add_left_eq[of "Suc j" n t] by simp
  have "{t. t < Suc v \<and> (j + t) mod n = i} = (if j = i then {0} else {}) \<union> Suc ` ?A"
  proof (intro set_eqI iffI)
    fix t assume "t \<in> {t. t < Suc v \<and> (j + t) mod n = i}"
    then show "t \<in> (if j = i then {0} else {}) \<union> Suc ` ?A"
      using assms by (cases t) (auto simp: eq image_iff)
  next
    fix t assume "t \<in> (if j = i then {0} else {}) \<union> Suc ` ?A"
    then show "t \<in> {t. t < Suc v \<and> (j + t) mod n = i}"
      using assms by (auto simp: eq split: if_splits)
  qed
  then show ?thesis by (simp add: visits_to_def card_insert_if card_image)
qed

lemma visits_to_rounds:
  assumes "i < n" shows "k \<le> visits_to n i i (k * n)"
proof -
  have "(\<lambda>m. m * n) ` {..<k} \<subseteq> {t. t < k * n \<and> (i + t) mod n = i}" using assms by auto
  moreover have "finite {t. t < k * n \<and> (i + t) mod n = i}" by simp
  ultimately have "card ((\<lambda>m. m * n) ` {..<k}) \<le> visits_to n i i (k * n)"
    unfolding visits_to_def by (meson card_mono)
  moreover have "inj_on (\<lambda>m. m * n) {..<k}" using assms by (auto simp: inj_on_def)
  ultimately show ?thesis by (simp add: card_image)
qed

lemma visits_to_mono: "v \<le> w \<Longrightarrow> visits_to n i j v \<le> visits_to n i j w"
  unfolding visits_to_def by (rule card_mono) auto

lemma drain_keeps_batch:
  assumes "fq_struct (ds_queue s)" and "ds_batch s \<noteq> []"
  shows "ds_batch (fst (drain_loop n maxRows maxB cap relaxed s)) \<noteq> []"
proof -
  have "\<exists>s'. drain_loop n maxRows maxB cap relaxed s = (s', None) \<and> ds_batch s' \<noteq> [] \<and> fq_struct (ds_queue s')"
    by (rule drain_loop_rule[OF assms(1), where P = "\<lambda>s. ds_batch s \<noteq> []"])
      (auto simp: assms visit_def idle_visit_def take_visit_def Let_def)
  then show ?thesis by auto
qed

text \<open>
  A daemon whose head fits the batch and whose deficit reaches the head's size within the
  remaining visits gets served, unless another one is served before.
\<close>

lemma drain_progress:
  assumes "fq_struct (ds_queue s)" and "ds_batch s = []" and "ds_bytes s = 0" and "0 < maxRows"
    and "\<And>d. jm_get_or (ds_perDaemon s) d 0 < cap"
    and "i < length (fq_activeDaemonIds (ds_queue s))"
    and "jm_get (fq_daemons (ds_queue s)) (fq_activeDaemonIds (ds_queue s) ! i) = Some D"
    and "byPriority D p = x # xs" and "qe_payloadBytes x \<le> maxB"
    and "qe_payloadBytes x \<le> deficit D + quantumBytes (fq_limits (ds_queue s)) *
      int (visits_to (length (fq_activeDaemonIds (ds_queue s))) i (fq_nextDaemon (ds_queue s)) v)"
    and "0 < visits_to (length (fq_activeDaemonIds (ds_queue s))) i (fq_nextDaemon (ds_queue s)) v"
  shows "ds_batch (fst (drain_loop v maxRows maxB cap False s)) \<noteq> []"
  using assms
proof (induction v arbitrary: s D)
  case (Suc v)
  let ?q = "ds_queue s"
  let ?n = "length (fq_activeDaemonIds ?q)" and ?j = "fq_nextDaemon ?q"
  have q: "fq_struct ?q" and ne: "fq_activeDaemonIds ?q \<noteq> []" using Suc.prems(1,6) by auto
  have j: "?j < ?n" by (rule nextActiveDaemon_ring(2)[OF q ne])
  have step: "drain_loop (Suc v) maxRows maxB cap False s =
      (case drain_step maxB cap False s of
         DrainContinue s' \<Rightarrow> drain_loop v maxRows maxB cap False s'
       | DrainReturn s' \<Rightarrow> (s', None) | DrainThrow err s' \<Rightarrow> (s', Some err))"
    using Suc.prems(2,4) ne by simp
  obtain E where E: "jm_get (fq_daemons ?q) (visited ?q) = Some E"
    using nextActiveDaemon_ring(3)[OF q ne] by (auto simp: visited_def)
  show ?case
  proof (cases "nextEligible (credit ?q E) (maxB - ds_bytes s)")
    case (Some y)
    then obtain s' where s': "drain_step maxB cap False s = DrainContinue s'" "take_visit maxB cap (fst y) s s'"
      using drain_step_take[OF q ne E Suc.prems(5), of maxB "fst y" "snd y"] by auto
    then have "fq_struct (ds_queue s')" "ds_batch s' \<noteq> []" by (simp_all add: take_visit_def Let_def)
    then show ?thesis using drain_keeps_batch step s'(1) by simp
  next
    case None
    let ?s = "s\<lparr>ds_queue := granted E ?q\<rparr>\<lparr>ds_stalled := Suc (ds_stalled s)\<rparr>"
    have st: "drain_step maxB cap False s = DrainContinue ?s"
      using None Suc.prems(2,5) by (simp add: drain_step_eq[OF q ne E] Let_def not_le[symmetric])
    have ids: "fq_activeDaemonIds (ds_queue ?s) = fq_activeDaemonIds ?q"
      "fq_nextDaemon (ds_queue ?s) = (?j + 1) mod ?n" "fq_limits (ds_queue ?s) = fq_limits ?q"
      by (simp_all add: granted_def)
    define D' where "D' = (if ?j = i then credit ?q D else D)"
    have same: "?j = i \<Longrightarrow> E = D" using E Suc.prems(7) by (simp add: visited_def)
    have "distinct (fq_activeDaemonIds ?q)" using fq_structD(2)[OF q] by (simp add: ring_ok_def)
    then have inj: "fq_activeDaemonIds ?q ! i = visited ?q \<longleftrightarrow> ?j = i"
      using Suc.prems(6) j by (auto simp: visited_def nth_eq_iff_index_eq)
    have D': "jm_get (fq_daemons (ds_queue ?s)) (fq_activeDaemonIds (ds_queue ?s) ! i) = Some D'"
      using Suc.prems(7) inj same by (simp add: granted_def D'_def)
    have unfit: "?j = i \<Longrightarrow> deficit (credit ?q D) < qe_payloadBytes x"
      using nextEligible_None[OF None, of p x xs] same Suc.prems(3,8,9) by (auto simp: credit_def)
    note vs = visits_to_Suc[OF j Suc.prems(6), of v]
    let ?V = "visits_to ?n i ((?j + 1) mod ?n) v"
    have reach: "qe_payloadBytes x \<le> deficit D' + quantumBytes (fq_limits ?q) * int ?V"
      using Suc.prems(10) unfolding vs D'_def by (auto simp: credit_def algebra_simps)
    have "0 < ?V"
    proof (rule ccontr)
      assume "\<not> 0 < ?V"
      then show False using reach unfit Suc.prems(11) unfolding vs D'_def by (auto split: if_splits)
    qed
    then have "ds_batch (fst (drain_loop v maxRows maxB cap False ?s)) \<noteq> []"
      using Suc.prems reach granted_struct(1)[OF q ne E] D' ids
      by (intro Suc.IH[where D = D']) (simp_all add: D'_def credit_def)
    then show ?thesis using step st by simp
  qed
qed simp

lemma takeBatch_progress:
  assumes q: "fq_struct q" and ne: "0 < fq_size q" and caps: "0 < row_cap limits" "0 < byte_cap limits"
    and size: "\<forall>x \<in># fq_mset q. qe_payloadBytes x \<le> min (byte_cap limits) (32 * quantumBytes (fq_limits q))"
    and t: "takeBatch limits q = (Inr batch, q')"
  shows "batch \<noteq> []"
proof -
  let ?r = "row_cap limits" and ?b = "byte_cap limits" and ?c = "daemon_cap limits"
  let ?s = "\<lparr>ds_queue = q, ds_batch = [], ds_perDaemon = [], ds_bytes = 0, ds_stalled = 0\<rparr>"
  let ?n = "length (fq_activeDaemonIds q)" and ?i = "fq_nextDaemon q"
  have "fq_mset q \<noteq> {#}" using ne fq_structD(3)[OF q] by (auto simp: fq_size_def)
  then have "fq_daemons q \<noteq> []" by (auto simp: fq_mset_def dm_mset_def)
  then have ids: "fq_activeDaemonIds q \<noteq> []"
    using fq_structD(2)[OF q] by (cases "fq_daemons q") (auto simp: ring_ok_def)
  have i: "?i < ?n" by (rule nextActiveDaemon_ring(2)[OF q ids])
  obtain D where D: "jm_get (fq_daemons q) (fq_activeDaemonIds q ! ?i) = Some D"
    using nextActiveDaemon_ring(3)[OF q ids] by blast
  have ok: "dq_mset D \<noteq> {#}" "0 \<le> deficit D" using fq_struct_daemon[OF q D] by (simp_all add: dq_ok_def)
  then obtain p x xs where x: "byPriority D p = x # xs" by (auto simp: dq_mset_empty neq_Nil_conv)
  then have "x \<in># dq_mset D" using mset_byPriority_le[of D p] by (auto dest: mset_subset_eqD)
  then have "x \<in># fq_mset q" using D dm_mset_member[OF fq_structD(1)[OF q]] by (auto simp: fq_mset_def)
  then have xb: "qe_payloadBytes x \<le> ?b" "qe_payloadBytes x \<le> 32 * quantumBytes (fq_limits q)" using size by auto
  have "32 * ?n \<le> maxVisits ?r q"
  proof -
    have "32 * int ?n \<le> max 1 ?r * max 1 (int ?n) * 32"
      using caps(1) mult_right_mono[of 1 ?r "int ?n"] by (auto simp: max_def)
    then show ?thesis unfolding maxVisits_def by linarith
  qed
  then have v: "32 \<le> visits_to ?n ?i ?i (maxVisits ?r q)"
    using visits_to_rounds[OF i, of 32] visits_to_mono order_trans by blast
  then have "quantumBytes (fq_limits q) * 32 \<le> quantumBytes (fq_limits q) * int (visits_to ?n ?i ?i (maxVisits ?r q))"
    using fq_structD(4)[OF q] by (intro mult_left_mono) auto
  then have "qe_payloadBytes x \<le> deficit D + quantumBytes (fq_limits q) * int (visits_to ?n ?i ?i (maxVisits ?r q))"
    using xb ok(2) by linarith
  then have first: "ds_batch (fst (drain [] [] ?r ?b ?c 0 False q)) \<noteq> []"
    unfolding drain_def
    using q caps i D x xb v by (intro drain_progress[of ?s _ _ ?i D p x xs]) (simp_all add: jm_get_or_def)
  obtain s1 where s1: "drain [] [] ?r ?b ?c 0 False q = (s1, None)" "fq_struct (ds_queue s1)"
    using drain_loop_rule[of ?s "\<lambda>_. True"] q unfolding drain_def by force
  have "ds_batch (fst (drain (ds_batch s1) (ds_perDaemon s1) ?r ?b ?r (batchBytes (ds_batch s1)) True (ds_queue s1))) \<noteq> []"
    unfolding drain_def by (rule drain_keeps_batch) (use first s1 in simp_all)
  then show ?thesis
    using t s1(1) first ids caps
    by (auto simp: takeBatch_def row_cap_def byte_cap_def daemon_cap_def Let_def split: prod.splits if_splits option.splits)
qed

section \<open>The reservation interface\<close>

text \<open>
  What a client that drains the queue relies on: a taken batch moves from the waiting elements to
  the reserved ones, and a reserved batch can be given back or released.
\<close>

locale reservation_queue =
  fixes inv :: "'q \<Rightarrow> bool"
    and waiting :: "'q \<Rightarrow> 'e multiset"
    and reserved :: "'q \<Rightarrow> 'e multiset"
    and take_batch :: "'q \<Rightarrow> ('err + 'e list) \<times> 'q"
    and commit :: "'e list \<Rightarrow> 'q \<Rightarrow> 'q \<times> 'err option"
    and requeue :: "'e list \<Rightarrow> 'q \<Rightarrow> 'q \<times> 'err option"
  assumes take_law: "inv q \<Longrightarrow> \<exists>b q'. take_batch q = (Inr b, q') \<and> inv q'
      \<and> waiting q = mset b + waiting q' \<and> reserved q' = reserved q + mset b"
    and commit_law: "inv q \<Longrightarrow> mset b \<subseteq># reserved q \<Longrightarrow> \<exists>q'. commit b q = (q', None) \<and> inv q'
      \<and> waiting q' = waiting q \<and> reserved q' = reserved q - mset b"
    and requeue_law: "inv q \<Longrightarrow> mset b \<subseteq># reserved q \<Longrightarrow> \<exists>q'. requeue b q = (q', None) \<and> inv q'
      \<and> waiting q' = mset b + waiting q \<and> reserved q' = reserved q - mset b"
begin

lemma take_held:
  assumes "inv q" and "reserved q = {#}" and "take_batch q = (r, q')"
  shows "\<exists>b. r = Inr b \<and> inv q' \<and> reserved q' = mset b \<and> waiting q = mset b + waiting q'"
  using take_law[OF assms(1)] assms(2,3) by auto

lemma commit_held:
  assumes "inv q" and "reserved q = mset b" and "commit b q = (q', r)"
  shows "r = None \<and> inv q' \<and> reserved q' = {#} \<and> waiting q' = waiting q"
  using commit_law[OF assms(1), of b] assms(2,3) by auto

lemma requeue_held:
  assumes "inv q" and "reserved q = mset b" and "requeue b q = (q', r)"
  shows "r = None \<and> inv q' \<and> reserved q' = {#} \<and> waiting q' = mset b + waiting q"
  using requeue_law[OF assms(1), of b] assms(2,3) by auto

end

definition fq_waiting :: "FairIngressQueue \<Rightarrow> IngressEnvelope multiset" where
  "fq_waiting q = image_mset qe_event (fq_mset q)"

definition fq_held :: "FairIngressQueue \<Rightarrow> IngressEnvelope multiset" where
  "fq_held q = mset (fq_reserved q)"

lemma image_event_toQueued [simp]: "image_mset qe_event (image_mset toQueued M) = M"
  by (simp add: multiset.map_comp comp_def)

lemma resident_events: "image_mset qe_event (resident q) = fq_waiting q + fq_held q"
  by (simp add: resident_def fq_waiting_def fq_held_def)

interpretation fqr: reservation_queue fq_inv fq_waiting fq_held "takeBatch limits" commitBatch requeueFront
proof
  fix q assume q: "fq_inv q"
  obtain b q' where t: "takeBatch limits q = (Inr b, q')" "fq_mset q = mset (map toQueued b) + fq_mset q'"
      "mset (fq_reserved q') = mset (fq_reserved q) + mset b"
    using takeBatch_spec[OF fq_invD(1,4)[OF q], of limits] by blast
  show "\<exists>b q'. takeBatch limits q = (Inr b, q') \<and> fq_inv q' \<and> fq_waiting q = mset b + fq_waiting q'
      \<and> fq_held q' = fq_held q + mset b"
    using t takeBatch_inv(1)[OF q t(1)] by (simp add: fq_waiting_def fq_held_def)
next
  fix q b assume q: "fq_inv q" and "mset b \<subseteq># fq_held q"
  then have b: "mset b \<subseteq># mset (fq_reserved q)" by (simp add: fq_held_def)
  obtain q' r where c: "commitBatch b q = (q', r)" by fastforce
  note s = commitBatch_inv[OF q b c]
  have "fq_held q' = fq_held q - mset b" using s by (simp add: fq_held_def)
  moreover have "image_mset qe_event (resident q) = mset b + image_mset qe_event (resident q')" using s by simp
  ultimately have "fq_waiting q' = fq_waiting q"
    unfolding resident_events using \<open>mset b \<subseteq># fq_held q\<close>
    by (auto simp: subset_mset.diff_add_assoc2 ac_simps mset_subset_eq_exists_conv)
  then show "\<exists>q'. commitBatch b q = (q', None) \<and> fq_inv q' \<and> fq_waiting q' = fq_waiting q \<and> fq_held q' = fq_held q - mset b"
    using s c \<open>fq_held q' = fq_held q - mset b\<close> by auto
next
  fix q b assume q: "fq_inv q" and "mset b \<subseteq># fq_held q"
  then have b: "mset b \<subseteq># mset (fq_reserved q)" by (simp add: fq_held_def)
  obtain q' r where c: "requeueFront b q = (q', r)" by fastforce
  note s = requeueFront_inv[OF q b c]
  have h: "fq_held q' = fq_held q - mset b" using s by (simp add: fq_held_def)
  have "image_mset qe_event (resident q') = image_mset qe_event (resident q)" using s by simp
  then have "fq_waiting q' = mset b + fq_waiting q"
    unfolding resident_events h using \<open>mset b \<subseteq># fq_held q\<close> by (auto simp: mset_subset_eq_exists_conv ac_simps)
  then show "\<exists>q'. requeueFront b q = (q', None) \<and> fq_inv q' \<and> fq_waiting q' = mset b + fq_waiting q
      \<and> fq_held q' = fq_held q - mset b" using s c h by auto
qed

section \<open>The contract\<close>

definition controller_limits :: BatchLimits where
  "controller_limits = \<lparr>bl_maxRows = Some 256, bl_maxBytes = Some 1048576, bl_maxPerDaemonFraction = Some (1/4)\<rparr>"

definition sample_envelope :: "nat \<Rightarrow> string \<Rightarrow> int \<Rightarrow> IngressEnvelope" where
  "sample_envelope r d seq =
     \<lparr>ie_ref = r, ie_userId = Some 7, ie_daemonId = d, ie_registrationId = ''r1'', ie_daemonGeneration = 1, ie_seq = seq,
      ie_dedupKey = ''k'' @ int_str seq, ie_sessionId = None, ie_eventType = ''text'', ie_priority = Live,
      ie_receiptOnly = False, ie_payload = [(''seq'', JNum seq)], ie_materializationContext = [],
      ie_receivedAt = 0\<rparr>"

definition fq_reachable :: "FairIngressQueueConfig \<Rightarrow> FairIngressQueue \<Rightarrow> bool" where
  "fq_reachable c q \<longleftrightarrow> queue_step\<^sup>*\<^sup>* (new_fair_queue c) q"

lemma reachable_inv: "fq_reachable c q \<Longrightarrow> fq_inv q"
  using fq.inv_reachable by (auto simp: fq_reachable_def)

lemma queue_step_limits: "queue_step q q' \<Longrightarrow> fq_inv q \<Longrightarrow> fq_limits q' = fq_limits q"
proof (induction rule: queue_step.induct)
  case (step_enqueue e q r q')
  have "fq_limits (insertBack (toQueued e) q) = fq_limits q"
    using insert_with_frame[of q] by (simp add: insertBack_def charge_struct fq_frame_def)
  then show ?case using enqueue_cases[OF step_enqueue(4), of e] step_enqueue(3) by auto
next
  case (step_take limits q t q')
  then show ?case using takeBatch_spec[OF fq_invD(1,4)[OF step_take(2)], of limits] by (auto simp: fq_frame_def)
next
  case (step_commit es q q' c)
  have "accounts (mset (map toQueued es) + (fq_mset q + image_mset toQueued (mset (fq_reserved q) - mset es))) q"
    using fq_invD(2)[OF step_commit(3)] by (simp add: resident_split[OF step_commit(1)])
  from commitBatch_spec[OF step_commit(1) this single_distinct[OF fq_invD(4)[OF step_commit(3)]]]
  show ?case using step_commit(2) by auto
next
  case (step_requeue es q q' c)
  have "\<forall>e \<in> set es. ie_daemonId e \<noteq> []"
    using fq_invD(5)[OF step_requeue(3)] set_reserved_subset[OF step_requeue(1)] by blast
  from requeueFront_spec[OF fq_invD(1)[OF step_requeue(3)] step_requeue(1) this single_distinct[OF fq_invD(4)[OF step_requeue(3)]]]
  show ?case using step_requeue(2) by (auto simp: fq_frame_def)
qed

lemma reachable_limits: "fq_reachable c q \<Longrightarrow> fq_limits q = resolve_limits c"
  unfolding fq_reachable_def
proof (induction rule: rtranclp_induct)
  case (step q q')
  then show ?case using queue_step_limits reachable_inv by (simp add: fq_reachable_def)
qed (simp add: new_fair_queue_def)


lemma sample_enqueue_step:
  assumes "d \<noteq> []" "toQueued (sample_envelope r d n) \<notin># resident q"
    and "enqueue (sample_envelope r d n) q = (res, q')"
  shows "queue_step q q'"
  using queue_step.step_enqueue[of "sample_envelope r d n"] assms by (simp add: sample_envelope_def)

definition sample_queue :: FairIngressQueue where
  "sample_queue = snd (enqueue (sample_envelope 0 ''d1'' 1) (new_fair_queue empty_config))"

lemma sample_reachable: "fq_reachable empty_config sample_queue"
proof -
  have "resident (new_fair_queue empty_config) = {#}"
    by (simp add: resident_def new_fair_queue_def fq_mset_def dm_mset_def)
  then have "queue_step (new_fair_queue empty_config) sample_queue"
    unfolding sample_queue_def by (intro sample_enqueue_step[of "''d1''" 0 1]) (simp_all add: prod_eq_iff)
  then show ?thesis by (simp add: fq_reachable_def)
qed


text \<open>
  C5. A batch is a fair prefix of the queue. Taking one never throws; in every (daemon, priority)
  line the taken envelopes followed by what is left are the line as it was, so nothing is lost,
  duplicated or reordered; the batch respects the row and byte limits, and no daemon gets more
  than its share of the rows when another daemon is waiting.
\<close>

theorem batch_is_fair_prefix:
  assumes "fq_reachable c q"
  shows "\<exists>batch q'. takeBatch limits q = (Inr batch, q')
    \<and> (\<forall>d p. map toQueued (line_of d p batch) @ content q' d p = content q d p)
    \<and> mset (fq_reserved q') = mset (fq_reserved q) + mset batch
    \<and> int (length batch) \<le> row_cap limits \<and> batchBytes batch \<le> byte_cap limits
    \<and> (length (fq_activeDaemonIds q) > 1 \<longrightarrow>
         (\<forall>d. int (length (of_daemon d batch)) \<le> daemon_cap limits))"
  using takeBatch_spec[OF fq_invD(1,4)[OF reachable_inv[OF assms]], of limits]
  by (auto simp: batchBytes_sum)

theorem batch_is_fair_prefix_witness:
  "\<exists>batch q'. takeBatch controller_limits sample_queue = (Inr batch, q')
    \<and> map toQueued (line_of ''d1'' Live batch) @ content q' ''d1'' Live = content sample_queue ''d1'' Live
    \<and> int (length batch) \<le> 256"
  using batch_is_fair_prefix[OF sample_reachable, of controller_limits]
  by (force simp: row_cap_def controller_limits_def nonNegativeInteger_def is_safe_integer_def MAX_SAFE_INTEGER_def)

text \<open>
  Requeueing a batch that could not be persisted undoes taking it: the reservation and every
  (daemon, priority) line are as they were, and the charged capacity has not moved.
\<close>

lemma requeue_undoes_take:
  assumes "fq_reachable c q" and "takeBatch limits q = (Inr batch, q1)"
  shows "\<exists>q2. requeueFront batch q1 = (q2, None) \<and> content q2 = content q
    \<and> mset (fq_reserved q2) = mset (fq_reserved q) \<and> resident q2 = resident q"
proof -
  have q: "fq_inv q" by (rule reachable_inv[OF assms(1)])
  have t: "\<forall>d p. map toQueued (line_of d p batch) @ content q1 d p = content q d p"
      "mset (fq_reserved q1) = mset (fq_reserved q) + mset batch"
    using takeBatch_spec[OF fq_invD(1,4)[OF q], of limits] assms(2) by auto
  obtain q2 r where q2: "requeueFront batch q1 = (q2, r)" by fastforce
  have "mset batch \<subseteq># mset (fq_reserved q1)" using t(2) by simp
  from requeueFront_inv[OF takeBatch_inv(1)[OF q assms(2)] this q2]
  show ?thesis using q2 t takeBatch_inv(2)[OF q assms(2)] by (auto simp: fun_eq_iff)
qed

lemma sample_take: "\<exists>batch q1. takeBatch controller_limits sample_queue = (Inr batch, q1)"
  using takeBatch_spec[OF fq_invD(1,4)[OF reachable_inv[OF sample_reachable]], of controller_limits] by blast

lemma requeue_undoes_take_example:
  "\<exists>batch q1 q2. takeBatch controller_limits sample_queue = (Inr batch, q1)
     \<and> requeueFront batch q1 = (q2, None) \<and> content q2 = content sample_queue"
  using sample_take requeue_undoes_take[OF sample_reachable] by blast

text \<open>
  Committing a batch frees exactly what it held: it does not throw, leaves the waiting
  envelopes alone, and the batch's envelopes are no longer resident; a second commit of the same
  batch is refused with nothing released.
\<close>

lemma commit_releases_the_batch:
  assumes "fq_reachable c q" and "takeBatch limits q = (Inr batch, q1)"
  shows "\<exists>q2. commitBatch batch q1 = (q2, None) \<and> content q2 = content q1
    \<and> resident q = mset (map toQueued batch) + resident q2
    \<and> fq_totalCount q2 = fq_totalCount q - int (length batch)
    \<and> fq_totalBytes q2 = fq_totalBytes q - batchBytes batch
    \<and> (batch \<noteq> [] \<longrightarrow> commitBatch batch q2 = (q2, Some BatchNotReserved))"
proof -
  have q: "fq_inv q" by (rule reachable_inv[OF assms(1)])
  have t: "mset (fq_reserved q1) = mset (fq_reserved q) + mset batch"
    using takeBatch_spec[OF fq_invD(1,4)[OF q], of limits] assms(2) by auto
  have q1: "fq_inv q1" "resident q1 = resident q" using takeBatch_inv[OF q assms(2)] by simp_all
  obtain q2 r where q2: "commitBatch batch q1 = (q2, r)" by fastforce
  have sub: "mset batch \<subseteq># mset (fq_reserved q1)" using t by simp
  have c: "fq_inv q2" "r = None" "content q2 = content q1" "mset (fq_reserved q2) = mset (fq_reserved q)"
      "resident q = mset (map toQueued batch) + resident q2"
    using commitBatch_inv[OF q1(1) sub q2] t q1(2) by simp_all
  have "fq_totalCount q = int (length batch) + fq_totalCount q2" "fq_totalBytes q = batchBytes batch + fq_totalBytes q2"
    using fq_invD(2)[OF q] fq_invD(2)[OF c(1)] unfolding accounts_def c(5)
    by (simp_all add: tally_count_def tally_bytes_def batchBytes_sum batch_size_def
        multiset.map_comp comp_def flip: sum_mset_sum_list)
  moreover have "commitBatch batch q2 = (q2, Some BatchNotReserved)" if ne: "batch \<noteq> []"
  proof -
    have "distinct (fq_reserved q1)" by (rule single_distinct[OF fq_invD(4)[OF q1(1)]])
    then have "set (fq_reserved q) \<inter> set batch = {}"
      using t by (metis distinct_append mset_append mset_eq_imp_distinct_iff)
    moreover have "set (fq_reserved q2) = set (fq_reserved q)" using c(4) by (rule mset_eq_setD)
    ultimately show ?thesis using ne by (cases batch) auto
  qed
  ultimately show ?thesis using q2 c by auto
qed

lemma commit_releases_the_batch_example:
  "\<exists>batch q1 q2. takeBatch controller_limits sample_queue = (Inr batch, q1)
     \<and> commitBatch batch q1 = (q2, None) \<and> resident sample_queue = mset (map toQueued batch) + resident q2"
  using sample_take commit_releases_the_batch[OF sample_reachable] by blast

text \<open>
  C6. The drain cannot stall. With any configuration whose largest admissible event is at most
  thirty-two quanta, and so with the default one, a batch taken with the controller's limits from
  a queue that is not empty is not empty, as long as no event is above the batch's byte limit.
\<close>

theorem nonempty_queue_yields_batch:
  assumes "fq_reachable c q" and "0 < fq_size q" and "0 < row_cap limits"
    and "admissible_size (resolve_limits c) \<le> min (byte_cap limits) (32 * quantumBytes (resolve_limits c))"
  shows "\<exists>batch q'. takeBatch limits q = (Inr batch, q') \<and> batch \<noteq> []"
proof -
  note inv = fq_invD[OF reachable_inv[OF assms(1)]] and L = reachable_limits[OF assms(1)]
  obtain batch q' where t: "takeBatch limits q = (Inr batch, q')"
    using takeBatch_spec[OF inv(1,4), of limits] by blast
  have small: "\<forall>x \<in># fq_mset q. qe_payloadBytes x \<le> min (byte_cap limits) (32 * quantumBytes (fq_limits q))"
  proof
    fix x assume "x \<in># fq_mset q"
    then have "qe_payloadBytes x \<le> admissible_size (resolve_limits c)"
      using inv(3) unfolding fits_def L by (simp add: resident_def)
    then show "qe_payloadBytes x \<le> min (byte_cap limits) (32 * quantumBytes (fq_limits q))"
      using assms(4) unfolding L by (rule order_trans)
  qed
  have "0 < admissible_size (resolve_limits c)"
    by (simp add: admissible_size_def resolve_limits_def positiveInteger_def split: option.splits)
  then have "0 < byte_cap limits" using assms(4) by linarith
  from takeBatch_progress[OF inv(1) assms(2,3) this small t] show ?thesis using t by blast
qed

theorem nonempty_queue_yields_batch_witness:
  "\<exists>batch q'. takeBatch controller_limits sample_queue = (Inr batch, q') \<and> batch \<noteq> []"
proof (rule nonempty_queue_yields_batch[OF sample_reachable])
  show "0 < fq_size sample_queue"
    by (simp add: fq_size_def sample_queue_def sample_envelope_def enqueue_def toQueued_def) code_simp
qed (simp_all add: row_cap_def byte_cap_def admissible_size_def controller_limits_def nonNegativeInteger_def
    resolve_limits_def empty_config_def positiveInteger_def is_safe_integer_def MAX_SAFE_INTEGER_def)

end
