(* ===== verification/Inbox_Repository.thy ===== *)
theory Inbox_Repository
  imports Event_Policy "HOL-Library.Product_Lexorder"
begin

text \<open>
  The durable inbox of \<open>relay/src/ingress/inbox-repository.ts\<close> over its three tables (the schema is
  in \<open>relay/src/schema/durable-ingress.ts\<close>): accepted events with their processing state, the
  transport receipts of every daemon generation, and the acknowledged watermark of each.

  A table is the list of its rows in insertion order and a statement is a function of the tables;
  \<open>NOW()\<close> is an argument. Every method is one statement or one transaction, so it is one step
  here; a transaction that throws leaves the tables as they were. The rows that another
  transaction holds locked, which \<open>SKIP LOCKED\<close> passes over, and PostgreSQL's \<open>hashtext\<close> are
  arguments.
\<close>

section \<open>Tables\<close>

record InboxRow =
  ir_inboxId :: int
  ir_userId :: "int option"
  ir_daemonId :: string
  ir_daemonGeneration :: int
  ir_seq :: int
  ir_dedupKey :: string
  ir_sessionId :: "string option"
  ir_eventType :: string
  ir_priorityClass :: int
  ir_schemaVersion :: int
  ir_occurredAt :: "int option"
  ir_receivedAt :: int
  ir_payload :: payload
  ir_materializationContext :: payload
  ir_status :: int
  ir_attempts :: int
  ir_availableAt :: int
  ir_claimedAt :: "int option"
  ir_claimedBy :: "string option"
  ir_completedAt :: "int option"
  ir_materializedEventId :: "int option"
  ir_lastError :: "string option"

record ReceiptRow =
  rr_receiptId :: int
  rr_inboxId :: "int option"
  rr_daemonId :: string
  rr_daemonGeneration :: int
  rr_seq :: int
  rr_receivedAt :: int

record CheckpointRow =
  ck_ack_seq :: int
  ck_updated_at :: int

type_synonym stream = "string \<times> int"

record inbox_db =
  db_inbox :: "InboxRow list"
  db_next_inbox :: int
  db_receipts :: "ReceiptRow list"
  db_next_receipt :: int
  db_checkpoints :: "(stream, CheckpointRow) jsmap"

definition empty_inbox_db :: inbox_db where
  "empty_inbox_db = \<lparr>db_inbox = [], db_next_inbox = 1, db_receipts = [], db_next_receipt = 1, db_checkpoints = []\<rparr>"

record ClaimFence =
  cf_inboxId :: int
  cf_attempts :: int

record ClaimBatchOptions =
  cb_workerId :: string
  cb_limit :: int
  cb_shardCount :: int
  cb_shardIndex :: int

datatype inbox_error =
    CheckpointUnavailable | TransportMismatch | CanonicalRowUnavailable | InvalidShard | LostClaim int

fun PRIORITY_CLASS :: "PriorityClass \<Rightarrow> int" where
  "PRIORITY_CLASS Control = 0"
| "PRIORITY_CLASS Live = 1"
| "PRIORITY_CLASS Replay = 2"
| "PRIORITY_CLASS Aggregate = 3"

section \<open>Keys\<close>

definition checkpointKey :: "string \<Rightarrow> int \<Rightarrow> string" where
  "checkpointKey daemonId generation = daemonId @ CHR 0x00 # int_str generation"

definition coalesce_user :: "int option \<Rightarrow> int" where
  "coalesce_user u = (case u of None \<Rightarrow> 0 | Some n \<Rightarrow> n)"

definition canonicalKey :: "int option \<Rightarrow> string \<Rightarrow> string" where
  "canonicalKey userId dedupKey = json_stringify (JArr [JNum (coalesce_user userId), JStr dedupKey])"

definition transportKey :: "IngressEnvelope \<Rightarrow> string" where
  "transportKey e = checkpointKey (ie_daemonId e) (ie_daemonGeneration e) @ CHR 0x00 # int_str (ie_seq e)"

definition receiptTransportKey :: "ReceiptRow \<Rightarrow> string" where
  "receiptTransportKey r = checkpointKey (rr_daemonId r) (rr_daemonGeneration r) @ CHR 0x00 # int_str (rr_seq r)"

definition stream_of :: "IngressEnvelope \<Rightarrow> stream" where
  "stream_of e = (ie_daemonId e, ie_daemonGeneration e)"

definition toCheckpoint :: "stream \<Rightarrow> CheckpointRow \<Rightarrow> AckCheckpoint" where
  "toCheckpoint s r = \<lparr>ac_daemonId = fst s, ac_daemonGeneration = snd s, ac_ackSeq = ck_ack_seq r\<rparr>"

section \<open>Persisting a batch\<close>

definition lockCheckpoint :: "int \<Rightarrow> stream \<Rightarrow> inbox_db \<Rightarrow> inbox_error + AckCheckpoint \<times> inbox_db" where
  "lockCheckpoint now s db =
     (let db1 = (case jm_get (db_checkpoints db) s of
                   Some _ \<Rightarrow> db
                 | None \<Rightarrow> db\<lparr>db_checkpoints := jm_set s \<lparr>ck_ack_seq = 0, ck_updated_at = now\<rparr> (db_checkpoints db)\<rparr>)
      in case jm_get (db_checkpoints db1) s of
           None \<Rightarrow> Inl CheckpointUnavailable
         | Some row \<Rightarrow> Inr (toCheckpoint s row, db1))"

definition find_canonical :: "int \<times> string \<Rightarrow> InboxRow list \<Rightarrow> InboxRow option" where
  "find_canonical k rows = find (\<lambda>r. (coalesce_user (ir_userId r), ir_dedupKey r) = k) rows"

definition new_inbox_row :: "int \<Rightarrow> int \<Rightarrow> IngressEnvelope \<Rightarrow> InboxRow" where
  "new_inbox_row now rowid e =
     \<lparr>ir_inboxId = rowid, ir_userId = ie_userId e, ir_daemonId = ie_daemonId e,
      ir_daemonGeneration = ie_daemonGeneration e, ir_seq = ie_seq e, ir_dedupKey = ie_dedupKey e,
      ir_sessionId = ie_sessionId e, ir_eventType = ie_eventType e,
      ir_priorityClass = PRIORITY_CLASS (ie_priority e), ir_schemaVersion = 1, ir_occurredAt = None,
      ir_receivedAt = ie_receivedAt e, ir_payload = ie_payload e,
      ir_materializationContext = ie_materializationContext e, ir_status = 0, ir_attempts = 0,
      ir_availableAt = now, ir_claimedAt = None, ir_claimedBy = None, ir_completedAt = None,
      ir_materializedEventId = None, ir_lastError = None\<rparr>"

text \<open>
  One tuple of the multi-row upsert. The serial column takes its next value before the conflict
  is found; the update on conflict writes back the key that is there.
\<close>

definition upsert_tuple ::
    "int \<Rightarrow> IngressEnvelope \<Rightarrow> (string, int) jsmap \<times> inbox_db \<Rightarrow> (string, int) jsmap \<times> inbox_db" where
  "upsert_tuple now e acc =
     (let (ids, db) = acc; rowid = db_next_inbox db; db1 = db\<lparr>db_next_inbox := rowid + 1\<rparr> in
      case find_canonical (coalesce_user (ie_userId e), ie_dedupKey e) (db_inbox db) of
        Some row \<Rightarrow> (jm_set (canonicalKey (ir_userId row) (ir_dedupKey row)) (ir_inboxId row) ids, db1)
      | None \<Rightarrow>
          (jm_set (canonicalKey (ie_userId e) (ie_dedupKey e)) rowid ids,
           db1\<lparr>db_inbox := db_inbox db @ [new_inbox_row now rowid e]\<rparr>))"

definition unique_canonical :: "IngressEnvelope list \<Rightarrow> (string, IngressEnvelope) jsmap" where
  "unique_canonical events =
     foldl (\<lambda>m e. let k = canonicalKey (ie_userId e) (ie_dedupKey e)
                  in if jm_get m k = None then jm_set k e m else m) [] events"

definition upsertCanonicalInboxRows ::
    "int \<Rightarrow> IngressEnvelope list \<Rightarrow> inbox_db \<Rightarrow> (string, int) jsmap \<times> inbox_db" where
  "upsertCanonicalInboxRows now events db =
     (let unique = unique_canonical events in
      if unique = [] then ([], db)
      else fold (upsert_tuple now) (map snd (sort_key fst unique)) ([], db))"

fun transport_coordinates ::
    "IngressEnvelope list \<Rightarrow> (string, IngressEnvelope) jsmap \<Rightarrow> inbox_error + (string, IngressEnvelope) jsmap" where
  "transport_coordinates [] m = Inr m"
| "transport_coordinates (e # es) m =
     (let k = transportKey e in
      case jm_get m k of
        None \<Rightarrow> transport_coordinates es (jm_set k e m)
      | Some x \<Rightarrow>
          if canonicalKey (ie_userId x) (ie_dedupKey x) \<noteq> canonicalKey (ie_userId e) (ie_dedupKey e)
          then Inl TransportMismatch else transport_coordinates es m)"

definition row_by_id :: "int \<Rightarrow> InboxRow list \<Rightarrow> InboxRow option" where
  "row_by_id i rows = find (\<lambda>r. ir_inboxId r = i) rows"

text \<open>The check of one joined receipt row against the incoming event of its coordinate.\<close>

definition receipt_agrees :: "inbox_db \<Rightarrow> ReceiptRow \<Rightarrow> IngressEnvelope \<Rightarrow> bool" where
  "receipt_agrees db r e =
     (let row = (case rr_inboxId r of None \<Rightarrow> None | Some i \<Rightarrow> row_by_id i (db_inbox db));
          matchesReceiptOnly = (rr_inboxId r = None \<and> ie_receiptOnly e);
          matchesCanonical = (rr_inboxId r \<noteq> None \<and> \<not> ie_receiptOnly e \<and>
            (case row of None \<Rightarrow> False
             | Some x \<Rightarrow> canonicalKey (ir_userId x) (ir_dedupKey x) = canonicalKey (ie_userId e) (ie_dedupKey e)))
      in matchesReceiptOnly \<or> matchesCanonical)"

definition receipts_of_coordinates ::
    "(string, IngressEnvelope) jsmap \<Rightarrow> inbox_db \<Rightarrow> ReceiptRow list" where
  "receipts_of_coordinates m db =
     filter (\<lambda>r. \<exists>e \<in> set (jm_values m). rr_daemonId r = ie_daemonId e
       \<and> rr_daemonGeneration r = ie_daemonGeneration e \<and> rr_seq r = ie_seq e) (db_receipts db)"

definition lockAndFilterExistingReceipts ::
    "IngressEnvelope list \<Rightarrow> inbox_db \<Rightarrow> inbox_error + IngressEnvelope list" where
  "lockAndFilterExistingReceipts events db =
     (case transport_coordinates events [] of
        Inl err \<Rightarrow> Inl err
      | Inr coords \<Rightarrow>
          if coords = [] then Inr []
          else
            let existing = receipts_of_coordinates coords db;
                bad = (\<lambda>r. case jm_get coords (receiptTransportKey r) of None \<Rightarrow> True | Some e \<Rightarrow> \<not> receipt_agrees db r e)
            in if \<exists>r \<in> set existing. bad r then Inl TransportMismatch
               else Inr (map snd (filter (\<lambda>(k, _). k \<notin> receiptTransportKey ` set existing) coords)))"

definition has_receipt :: "stream \<Rightarrow> inbox_db \<Rightarrow> int \<Rightarrow> bool" where
  "has_receipt s db n \<longleftrightarrow>
     (\<exists>r \<in> set (db_receipts db). rr_daemonId r = fst s \<and> rr_daemonGeneration r = snd s \<and> rr_seq r = n)"

definition insert_receipt :: "int option \<Rightarrow> IngressEnvelope \<Rightarrow> inbox_db \<Rightarrow> inbox_db" where
  "insert_receipt inboxId e db =
     (let rid = db_next_receipt db; db1 = db\<lparr>db_next_receipt := rid + 1\<rparr> in
      if has_receipt (stream_of e) db (ie_seq e) then db1
      else db1\<lparr>db_receipts := db_receipts db @
        [\<lparr>rr_receiptId = rid, rr_inboxId = inboxId, rr_daemonId = ie_daemonId e,
          rr_daemonGeneration = ie_daemonGeneration e, rr_seq = ie_seq e, rr_receivedAt = ie_receivedAt e\<rparr>]\<rparr>)"

text \<open>The loop builds every tuple before the statement runs, so an error inserts nothing.\<close>

definition insertTransportReceipts ::
    "IngressEnvelope list \<Rightarrow> (string, int) jsmap \<Rightarrow> inbox_db \<Rightarrow> inbox_error + inbox_db" where
  "insertTransportReceipts events inboxIds db =
     (let target = (\<lambda>e. if ie_receiptOnly e then None else jm_get inboxIds (canonicalKey (ie_userId e) (ie_dedupKey e)))
      in if \<exists>e \<in> set events. \<not> ie_receiptOnly e \<and> target e = None then Inl CanonicalRowUnavailable
         else Inr (fold (\<lambda>e. insert_receipt (target e) e) events db))"

text \<open>
  The recursive query: the greatest sequence number reached from the watermark in steps of one
  over the receipts. It visits every receipt of the stream at most once.
\<close>

fun contiguous_from :: "nat \<Rightarrow> (int \<Rightarrow> bool) \<Rightarrow> int \<Rightarrow> int" where
  "contiguous_from 0 has n = n"
| "contiguous_from (Suc k) has n = (if has (n + 1) then contiguous_from k has (n + 1) else n)"

definition advanceContiguousCheckpoint :: "int \<Rightarrow> AckCheckpoint \<Rightarrow> inbox_db \<Rightarrow> AckCheckpoint \<times> inbox_db" where
  "advanceContiguousCheckpoint now c db =
     (let s = (ac_daemonId c, ac_daemonGeneration c);
          ackSeq = contiguous_from (length (db_receipts db)) (has_receipt s db) (ac_ackSeq c);
          db1 = (if ackSeq \<noteq> ac_ackSeq c
                 then db\<lparr>db_checkpoints := jm_set s \<lparr>ck_ack_seq = ackSeq, ck_updated_at = now\<rparr> (db_checkpoints db)\<rparr>
                 else db)
      in (c\<lparr>ac_ackSeq := ackSeq\<rparr>, db1))"

fun lock_checkpoints ::
    "int \<Rightarrow> (string \<times> stream) list \<Rightarrow> (string, AckCheckpoint) jsmap \<Rightarrow> inbox_db
      \<Rightarrow> inbox_error + (string, AckCheckpoint) jsmap \<times> inbox_db" where
  "lock_checkpoints now [] m db = Inr (m, db)"
| "lock_checkpoints now ((k, s) # rest) m db =
     (case lockCheckpoint now s db of
        Inl err \<Rightarrow> Inl err
      | Inr (c, db1) \<Rightarrow> lock_checkpoints now rest (jm_set k c m) db1)"

text \<open>Setting the entry of the key that is visited keeps its place in the map.\<close>

fun advance_checkpoints ::
    "int \<Rightarrow> (string, AckCheckpoint) jsmap \<Rightarrow> inbox_db \<Rightarrow> (string, AckCheckpoint) jsmap \<times> inbox_db" where
  "advance_checkpoints now [] db = ([], db)"
| "advance_checkpoints now ((k, c) # rest) db =
     (let (c1, db1) = advanceContiguousCheckpoint now c db;
          (rest1, db2) = advance_checkpoints now rest db1
      in ((k, c1) # rest1, db2))"

definition generationInputs :: "IngressEnvelope list \<Rightarrow> (string, stream) jsmap" where
  "generationInputs events =
     foldl (\<lambda>m e. jm_set (checkpointKey (ie_daemonId e) (ie_daemonGeneration e)) (stream_of e) m) [] events"

definition is_unacked :: "(string, AckCheckpoint) jsmap \<Rightarrow> IngressEnvelope \<Rightarrow> bool" where
  "is_unacked cps e =
     (case jm_get cps (checkpointKey (ie_daemonId e) (ie_daemonGeneration e)) of
        None \<Rightarrow> False | Some c \<Rightarrow> ie_seq e > ac_ackSeq c)"

definition persist_body ::
    "int \<Rightarrow> IngressEnvelope list \<Rightarrow> inbox_db \<Rightarrow> inbox_error + (string, AckCheckpoint) jsmap \<times> inbox_db" where
  "persist_body now events db =
     (case lock_checkpoints now (sort_key fst (generationInputs events)) [] db of
        Inl err \<Rightarrow> Inl err
      | Inr (cps, db1) \<Rightarrow>
          (case lockAndFilterExistingReceipts (filter (is_unacked cps) events) db1 of
             Inl err \<Rightarrow> Inl err
           | Inr pending \<Rightarrow>
               let (inboxIds, db2) = upsertCanonicalInboxRows now (filter (\<lambda>e. \<not> ie_receiptOnly e) pending) db1
               in (case insertTransportReceipts pending inboxIds db2 of
                     Inl err \<Rightarrow> Inl err
                   | Inr db3 \<Rightarrow> Inr (advance_checkpoints now cps db3))))"

definition persistBatch ::
    "int \<Rightarrow> IngressEnvelope list \<Rightarrow> inbox_db \<Rightarrow> (inbox_error + (string, AckCheckpoint) jsmap) \<times> inbox_db" where
  "persistBatch now events db =
     (case persist_body now events db of
        Inl err \<Rightarrow> (Inl err, db)
      | Inr (cps, db') \<Rightarrow> (Inr cps, db'))"

definition seedCheckpoint :: "int \<Rightarrow> string \<Rightarrow> int \<Rightarrow> int \<Rightarrow> inbox_db \<Rightarrow> AckCheckpoint \<times> inbox_db" where
  "seedCheckpoint now daemonId generation ackedSeq db =
     (let s = (daemonId, generation);
          row = (case jm_get (db_checkpoints db) s of
                   None \<Rightarrow> \<lparr>ck_ack_seq = ackedSeq, ck_updated_at = now\<rparr>
                 | Some r \<Rightarrow> \<lparr>ck_ack_seq = max (ck_ack_seq r) ackedSeq,
                             ck_updated_at = (if ackedSeq > ck_ack_seq r then now else ck_updated_at r)\<rparr>)
      in (toCheckpoint s row, db\<lparr>db_checkpoints := jm_set s row (db_checkpoints db)\<rparr>))"

section \<open>Claims\<close>

definition row_stream :: "InboxRow \<Rightarrow> stream" where
  "row_stream r = (ir_daemonId r, ir_daemonGeneration r)"

definition unresolved :: "InboxRow \<Rightarrow> bool" where
  "unresolved r \<longleftrightarrow> ir_status r \<in> {0, 1}"

definition stream_order :: "InboxRow \<Rightarrow> int \<times> int" where
  "stream_order r = (ir_seq r, ir_inboxId r)"

text \<open>\<open>DISTINCT ON (daemon_id, daemon_generation)\<close> in the order of \<open>seq\<close> and \<open>inbox_id\<close>.\<close>

definition is_stream_head :: "inbox_db \<Rightarrow> InboxRow \<Rightarrow> bool" where
  "is_stream_head db r \<longleftrightarrow> unresolved r \<and>
     (\<forall>x \<in> set (db_inbox db). unresolved x \<and> row_stream x = row_stream r \<longrightarrow> stream_order r \<le> stream_order x)"

definition claim_order :: "InboxRow \<Rightarrow> int \<times> int \<times> int" where
  "claim_order r = (ir_priorityClass r, ir_receivedAt r, ir_inboxId r)"

definition in_shard :: "(string \<Rightarrow> int) \<Rightarrow> int \<Rightarrow> int \<Rightarrow> InboxRow \<Rightarrow> bool" where
  "in_shard hashtext shardCount shardIndex r \<longleftrightarrow> \<bar>hashtext (ir_daemonId r)\<bar> mod shardCount = shardIndex"

definition claim_candidates ::
    "(string \<Rightarrow> int) \<Rightarrow> (int \<Rightarrow> bool) \<Rightarrow> int \<Rightarrow> ClaimBatchOptions \<Rightarrow> inbox_db \<Rightarrow> InboxRow list" where
  "claim_candidates hashtext locked now opts db =
     take (nat (max 0 (cb_limit opts)))
       (sort_key claim_order
         (filter (\<lambda>r. is_stream_head db r \<and> ir_status r = 0 \<and> ir_availableAt r \<le> now
            \<and> in_shard hashtext (cb_shardCount opts) (cb_shardIndex opts) r \<and> \<not> locked (ir_inboxId r))
           (db_inbox db)))"

definition mark_claimed :: "int \<Rightarrow> string \<Rightarrow> InboxRow \<Rightarrow> InboxRow" where
  "mark_claimed now worker r =
     r\<lparr>ir_status := 1, ir_attempts := ir_attempts r + 1, ir_claimedAt := Some now,
       ir_claimedBy := Some worker, ir_lastError := None\<rparr>"

text \<open>\<open>UPDATE ... WHERE\<close>: the rows that satisfy the condition are replaced.\<close>

definition update_where :: "(InboxRow \<Rightarrow> bool) \<Rightarrow> (InboxRow \<Rightarrow> InboxRow) \<Rightarrow> inbox_db \<Rightarrow> inbox_db" where
  "update_where P f db = db\<lparr>db_inbox := map (\<lambda>r. if P r then f r else r) (db_inbox db)\<rparr>"

definition claimBatch ::
    "(string \<Rightarrow> int) \<Rightarrow> (int \<Rightarrow> bool) \<Rightarrow> int \<Rightarrow> ClaimBatchOptions \<Rightarrow> inbox_db
      \<Rightarrow> (inbox_error + InboxRow list) \<times> inbox_db" where
  "claimBatch hashtext locked now opts db =
     (if max 0 (cb_limit opts) = 0 then (Inr [], db)
      else if cb_shardCount opts < 1 \<or> cb_shardIndex opts < 0 \<or> cb_shardIndex opts \<ge> cb_shardCount opts
        then (Inl InvalidShard, db)
      else let ids = map ir_inboxId (claim_candidates hashtext locked now opts db);
               P = (\<lambda>r. ir_inboxId r \<in> set ids \<and> ir_status r = 0);
               claimed = map (mark_claimed now (cb_workerId opts)) (filter P (db_inbox db))
           in (Inr (sort_key claim_order claimed), update_where P (mark_claimed now (cb_workerId opts)) db))"

text \<open>The condition under which a worker may write the outcome of its claim.\<close>

definition holds_claim :: "int \<Rightarrow> string \<Rightarrow> int \<Rightarrow> InboxRow \<Rightarrow> bool" where
  "holds_claim inboxId worker attempts r \<longleftrightarrow>
     ir_inboxId r = inboxId \<and> ir_status r = 1 \<and> ir_claimedBy r = Some worker \<and> ir_attempts r = attempts"

definition fenced_update ::
    "int \<Rightarrow> string \<Rightarrow> int \<Rightarrow> (InboxRow \<Rightarrow> InboxRow) \<Rightarrow> inbox_db \<Rightarrow> (inbox_error + unit) \<times> inbox_db" where
  "fenced_update inboxId worker attempts f db =
     (if length (filter (holds_claim inboxId worker attempts) (db_inbox db)) \<noteq> 1
      then (Inl (LostClaim inboxId), update_where (holds_claim inboxId worker attempts) f db)
      else (Inr (), update_where (holds_claim inboxId worker attempts) f db))"

definition reschedule ::
    "int \<Rightarrow> int \<Rightarrow> int \<Rightarrow> string \<Rightarrow> string \<Rightarrow> inbox_db \<Rightarrow> (inbox_error + unit) \<times> inbox_db" where
  "reschedule inboxId attempts availableAt err worker =
     fenced_update inboxId worker attempts
       (\<lambda>r. r\<lparr>ir_status := 0, ir_attempts := attempts, ir_availableAt := availableAt, ir_claimedAt := None,
              ir_claimedBy := None, ir_completedAt := None, ir_lastError := Some err\<rparr>)"

definition complete ::
    "int \<Rightarrow> int \<Rightarrow> int option \<Rightarrow> string \<Rightarrow> int \<Rightarrow> inbox_db \<Rightarrow> (inbox_error + unit) \<times> inbox_db" where
  "complete now inboxId eventId worker attempts =
     fenced_update inboxId worker attempts
       (\<lambda>r. r\<lparr>ir_status := 2, ir_completedAt := Some now, ir_materializedEventId := eventId,
              ir_claimedAt := None, ir_claimedBy := None, ir_lastError := None\<rparr>)"

definition deadLetter ::
    "int \<Rightarrow> int \<Rightarrow> int \<Rightarrow> string \<Rightarrow> string \<Rightarrow> inbox_db \<Rightarrow> (inbox_error + unit) \<times> inbox_db" where
  "deadLetter now inboxId attempts err worker =
     fenced_update inboxId worker attempts
       (\<lambda>r. r\<lparr>ir_status := 3, ir_attempts := attempts, ir_claimedAt := None, ir_claimedBy := None,
              ir_completedAt := Some now, ir_lastError := Some err\<rparr>)"

definition renewClaims :: "int \<Rightarrow> ClaimFence list \<Rightarrow> string \<Rightarrow> inbox_db \<Rightarrow> int set \<times> inbox_db" where
  "renewClaims now claims worker db =
     (let P = (\<lambda>r. \<exists>c \<in> set claims. holds_claim (cf_inboxId c) worker (cf_attempts c) r)
      in if claims = [] then ({}, db)
         else (ir_inboxId ` set (filter P (db_inbox db)), update_where P (\<lambda>r. r\<lparr>ir_claimedAt := Some now\<rparr>) db))"

definition is_stale :: "int \<Rightarrow> int \<Rightarrow> InboxRow \<Rightarrow> bool" where
  "is_stale now leaseMs r \<longleftrightarrow>
     ir_status r = 1 \<and> (case ir_claimedAt r of None \<Rightarrow> False | Some t \<Rightarrow> t < now - max 1 leaseMs)"

definition resetStaleClaims :: "(int \<Rightarrow> bool) \<Rightarrow> int \<Rightarrow> int \<Rightarrow> int \<Rightarrow> inbox_db \<Rightarrow> nat \<times> inbox_db" where
  "resetStaleClaims locked now leaseMs limit db =
     (let stale = take (nat (max 1 limit))
            (sort_key (\<lambda>r. (case ir_claimedAt r of None \<Rightarrow> 0 | Some t \<Rightarrow> t, ir_inboxId r))
              (filter (\<lambda>r. is_stale now leaseMs r \<and> \<not> locked (ir_inboxId r)) (db_inbox db)));
          P = (\<lambda>r. ir_inboxId r \<in> set (map ir_inboxId stale))
      in (length (filter P (db_inbox db)),
          update_where P (\<lambda>r. r\<lparr>ir_status := 0, ir_availableAt := now, ir_claimedAt := None,
            ir_claimedBy := None, ir_completedAt := None\<rparr>) db))"

section \<open>Replay prefix\<close>

definition replay_contentTypes :: "string list" where
  "replay_contentTypes = [''tool_result'', ''tool_call'', ''agent_text'', ''agent_reasoning'', ''agent_patch'',
     ''agent_file'', ''agent_file_change'', ''agent_plan'', ''agent_todo'', ''agent_compaction'']"

definition REPLAY_BATCH_MAX_BYTES :: int where
  "REPLAY_BATCH_MAX_BYTES = 512 * 1024"

text \<open>\<open>x == null\<close> of a field.\<close>

definition nullish :: "json option \<Rightarrow> bool" where
  "nullish v \<longleftrightarrow> v = None \<or> v = Some JNull"

definition isSideEffectFreeReplay :: "InboxRow \<Rightarrow> bool" where
  "isSideEffectFreeReplay r \<longleftrightarrow>
     (case ir_userId r of None \<Rightarrow> False | Some u \<Rightarrow> u > 0)
     \<and> (case ir_sessionId r of None \<Rightarrow> False | Some s \<Rightarrow> s \<noteq> [])
     \<and> ir_eventType r \<in> set replay_contentTypes
     \<and> jm_get (ir_payload r) ''type'' = Some (JStr (ir_eventType r))
     \<and> jm_get (ir_payload r) ''session_id'' = map_option JStr (ir_sessionId r)
     \<and> jm_get (ir_payload r) ''resync'' = Some (JBool True)
     \<and> nullish (jm_get (ir_payload r) ''usage'')
     \<and> jm_get (ir_payload r) ''is_subagent'' \<noteq> Some (JBool True)
     \<and> nullish (jm_get (ir_payload r) ''request_id'')
     \<and> (case jm_get (ir_payload r) ''event_id'' of Some (JStr s) \<Rightarrow> s \<noteq> [] | _ \<Rightarrow> False)
     \<and> (\<forall>(k, v) \<in> set (ir_materializationContext r).
          k \<in> {''agentType'', ''cwd'', ''hostname''} \<or> (k = ''reservationId'' \<and> v = JNull))"

definition payload_bytes :: "InboxRow \<Rightarrow> int" where
  "payload_bytes r = int (utf8_length (json_stringify (JObj (ir_payload r))))"

fun take_replay_prefix :: "int \<Rightarrow> InboxRow \<Rightarrow> int \<Rightarrow> InboxRow list \<Rightarrow> InboxRow list" where
  "take_replay_prefix now head bytes [] = []"
| "take_replay_prefix now head bytes (r # rs) =
     (if ir_status r \<noteq> 0 \<or> ir_availableAt r > now \<or> ir_priorityClass r \<noteq> 2
         \<or> ir_userId r \<noteq> ir_userId head \<or> ir_sessionId r \<noteq> ir_sessionId head
         \<or> \<not> isSideEffectFreeReplay r
      then []
      else if bytes + payload_bytes r > REPLAY_BATCH_MAX_BYTES then []
      else r # take_replay_prefix now head (bytes + payload_bytes r) rs)"

definition readReplayPrefix :: "int \<Rightarrow> InboxRow \<Rightarrow> int \<Rightarrow> inbox_db \<Rightarrow> InboxRow list" where
  "readReplayPrefix now head limit db =
     (let size' = min 31 (max 0 (limit - 1)) in
      if ir_priorityClass head \<noteq> 2 \<or> \<not> isSideEffectFreeReplay head then []
      else if size' = 0 then []
      else if payload_bytes head > REPLAY_BATCH_MAX_BYTES then []
      else take_replay_prefix now head (payload_bytes head)
             (take (nat size') (sort_key stream_order
               (filter (\<lambda>r. row_stream r = row_stream head \<and> unresolved r \<and> stream_order r > stream_order head)
                 (db_inbox db)))))"

end
