(* ===== verification/Inbox_Persist.thy ===== *)
theory Inbox_Persist
  imports Inbox_Repository
begin

text \<open>
  Persisting a batch: the tables stay well formed, the acknowledged watermark is the end of the
  contiguous run of receipts, and a replayed batch changes nothing.
\<close>

section \<open>Keys identify what they name\<close>

lemma checkpointKey_inj [simp]: "checkpointKey d g = checkpointKey d' g' \<longleftrightarrow> d = d' \<and> g = g'"
proof -
  have "CHR 0x00 \<notin> set (int_str g)" "CHR 0x00 \<notin> set (int_str g')" using int_str_no_separator by blast+
  from append_sep_inj[OF this] show ?thesis by (simp add: checkpointKey_def)
qed

lemma coordinate_inj:
  "checkpointKey d g @ CHR 0x00 # int_str n = checkpointKey d' g' @ CHR 0x00 # int_str n' \<longleftrightarrow> d = d' \<and> g = g' \<and> n = n'"
proof -
  have "CHR 0x00 \<notin> set (int_str n)" "CHR 0x00 \<notin> set (int_str n')" using int_str_no_separator by blast+
  from append_sep_inj[OF this] show ?thesis by simp
qed

lemma transportKey_inj:
  "transportKey e = transportKey e' \<longleftrightarrow> stream_of e = stream_of e' \<and> ie_seq e = ie_seq e'"
  by (auto simp: transportKey_def coordinate_inj stream_of_def)

lemma receiptTransportKey_eq:
  "receiptTransportKey r = transportKey e \<longleftrightarrow> (rr_daemonId r, rr_daemonGeneration r) = stream_of e \<and> rr_seq r = ie_seq e"
  "transportKey e = receiptTransportKey r \<longleftrightarrow> (rr_daemonId r, rr_daemonGeneration r) = stream_of e \<and> rr_seq r = ie_seq e"
  by (auto simp: transportKey_def receiptTransportKey_def coordinate_inj stream_of_def)

lemma int_str_no_comma: "CHR '','' \<notin> set (int_str n)"
proof -
  have "\<not> is_digit (CHR '','')" by (simp add: is_digit_def)
  then show ?thesis using nat_str_digits by (auto simp: int_str_def list_all_iff)
qed

lemma canonicalKey_inj:
  "canonicalKey u k = canonicalKey u' k' \<longleftrightarrow> coalesce_user u = coalesce_user u' \<and> k = k'"
proof
  assume eq: "canonicalKey u k = canonicalKey u' k'"
  let ?l = "int_str (coalesce_user u)" and ?l' = "int_str (coalesce_user u')"
  have "?l @ CHR '','' # json_quote k = ?l' @ CHR '','' # json_quote k'" using eq by (simp add: canonicalKey_def)
  then have "rev (json_quote k) @ CHR '','' # rev ?l = rev (json_quote k') @ CHR '','' # rev ?l'"
    by (metis (no_types) append.assoc append_Cons append_Nil rev_append rev.simps(2))
  moreover have "CHR '','' \<notin> set (rev ?l)" "CHR '','' \<notin> set (rev ?l')" using int_str_no_comma by auto
  ultimately have "json_quote k = json_quote k' \<and> ?l = ?l'" by (simp add: append_sep_inj)
  then show "coalesce_user u = coalesce_user u' \<and> k = k'" by simp
qed (simp add: canonicalKey_def)

section \<open>Well-formed tables\<close>

definition row_key :: "InboxRow \<Rightarrow> int \<times> string" where
  "row_key r = (coalesce_user (ir_userId r), ir_dedupKey r)"

definition env_key :: "IngressEnvelope \<Rightarrow> int \<times> string" where
  "env_key e = (coalesce_user (ie_userId e), ie_dedupKey e)"

definition receipt_key :: "ReceiptRow \<Rightarrow> stream \<times> int" where
  "receipt_key r = ((rr_daemonId r, rr_daemonGeneration r), rr_seq r)"

definition env_coord :: "IngressEnvelope \<Rightarrow> stream \<times> int" where
  "env_coord e = (stream_of e, ie_seq e)"

lemma canonicalKey_row [simp]:
  "canonicalKey (ir_userId r) (ir_dedupKey r) = canonicalKey (ie_userId e) (ie_dedupKey e) \<longleftrightarrow> row_key r = env_key e"
  "canonicalKey (ie_userId e) (ie_dedupKey e) = canonicalKey (ir_userId r) (ir_dedupKey r) \<longleftrightarrow> row_key r = env_key e"
  by (auto simp: row_key_def env_key_def canonicalKey_inj)

lemma canonicalKey_env [simp]:
  "canonicalKey (ie_userId e) (ie_dedupKey e) = canonicalKey (ie_userId e') (ie_dedupKey e') \<longleftrightarrow> env_key e = env_key e'"
  by (auto simp: env_key_def canonicalKey_inj)

lemma transportKey_env: "transportKey e = transportKey e' \<longleftrightarrow> env_coord e = env_coord e'"
  by (auto simp: env_coord_def transportKey_inj)

definition rows_wf :: "int \<Rightarrow> InboxRow list \<Rightarrow> bool" where
  "rows_wf n rows \<longleftrightarrow> distinct (map ir_inboxId rows) \<and> distinct (map row_key rows)
     \<and> (\<forall>r \<in> set rows. ir_inboxId r < n)"

definition inbox_wf :: "inbox_db \<Rightarrow> bool" where
  "inbox_wf db \<longleftrightarrow> rows_wf (db_next_inbox db) (db_inbox db)
     \<and> distinct (map receipt_key (db_receipts db))
     \<and> (\<forall>r \<in> set (db_receipts db). \<forall>i. rr_inboxId r = Some i \<longrightarrow> i \<in> ir_inboxId ` set (db_inbox db))
     \<and> jm_wf (db_checkpoints db)"

lemma inbox_wf_empty: "inbox_wf empty_inbox_db"
  by (simp add: inbox_wf_def rows_wf_def empty_inbox_db_def)

lemma find_distinct:
  assumes "distinct (map f xs)" and "x \<in> set xs"
  shows "find (\<lambda>y. f y = f x) xs = Some x"
  using assms by (induction xs) (auto simp: image_iff)

lemma row_by_id_Some:
  assumes "distinct (map ir_inboxId rows)"
  shows "row_by_id i rows = Some r \<longleftrightarrow> r \<in> set rows \<and> ir_inboxId r = i"
  using find_distinct[OF assms, of r] by (auto simp: row_by_id_def find_Some_iff)

lemma find_canonical_Some:
  "find_canonical k rows = Some r \<Longrightarrow> r \<in> set rows \<and> row_key r = k"
  by (auto simp: find_canonical_def find_Some_iff row_key_def)

lemma find_canonical_None: "find_canonical k rows = None \<longleftrightarrow> k \<notin> row_key ` set rows"
  by (auto simp: find_canonical_def find_None_iff row_key_def)

section \<open>Checkpoints\<close>

definition ack_of :: "inbox_db \<Rightarrow> stream \<Rightarrow> int" where
  "ack_of db s = (case jm_get (db_checkpoints db) s of None \<Rightarrow> 0 | Some r \<Rightarrow> ck_ack_seq r)"

definition cp_at :: "stream \<Rightarrow> int \<Rightarrow> AckCheckpoint" where
  "cp_at s n = \<lparr>ac_daemonId = fst s, ac_daemonGeneration = snd s, ac_ackSeq = n\<rparr>"

definition ensure_checkpoint :: "int \<Rightarrow> stream \<Rightarrow> inbox_db \<Rightarrow> inbox_db" where
  "ensure_checkpoint now s db = (case jm_get (db_checkpoints db) s of Some _ \<Rightarrow> db
     | None \<Rightarrow> db\<lparr>db_checkpoints := jm_set s \<lparr>ck_ack_seq = 0, ck_updated_at = now\<rparr> (db_checkpoints db)\<rparr>)"

lemma lockCheckpoint_eq:
  "lockCheckpoint now s db = Inr (cp_at s (ack_of db s), ensure_checkpoint now s db)"
  by (simp add: lockCheckpoint_def ensure_checkpoint_def toCheckpoint_def cp_at_def ack_of_def split: option.splits)

lemma ensure_checkpoint_fields [simp]:
  "db_inbox (ensure_checkpoint now s db) = db_inbox db"
  "db_next_inbox (ensure_checkpoint now s db) = db_next_inbox db"
  "db_receipts (ensure_checkpoint now s db) = db_receipts db"
  "ack_of (ensure_checkpoint now s db) s' = ack_of db s'"
  "jm_wf (db_checkpoints db) \<Longrightarrow> jm_wf (db_checkpoints (ensure_checkpoint now s db))"
  by (auto simp: ensure_checkpoint_def ack_of_def split: option.splits)

definition ensure_all :: "int \<Rightarrow> stream list \<Rightarrow> inbox_db \<Rightarrow> inbox_db" where
  "ensure_all now ss db = fold (ensure_checkpoint now) ss db"

lemma ensure_all_fields [simp]:
  "db_inbox (ensure_all now ss db) = db_inbox db"
  "db_next_inbox (ensure_all now ss db) = db_next_inbox db"
  "db_receipts (ensure_all now ss db) = db_receipts db"
  "ack_of (ensure_all now ss db) s = ack_of db s"
  by (induction ss arbitrary: db) (simp_all add: ensure_all_def)

lemma ensure_all_wf: "jm_wf (db_checkpoints db) \<Longrightarrow> jm_wf (db_checkpoints (ensure_all now ss db))"
  by (induction ss arbitrary: db) (simp_all add: ensure_all_def)

lemma ensure_checkpoint_present:
  "jm_get (db_checkpoints db) s \<noteq> None \<Longrightarrow> jm_get (db_checkpoints (ensure_checkpoint now s' db)) s \<noteq> None"
  "jm_get (db_checkpoints (ensure_checkpoint now s db)) s \<noteq> None"
  by (auto simp: ensure_checkpoint_def split: option.splits)

lemma ensure_all_present:
  assumes "s \<in> set ss \<or> jm_get (db_checkpoints db) s \<noteq> None"
  shows "jm_get (db_checkpoints (ensure_all now ss db)) s \<noteq> None"
  using assms
proof (induction ss arbitrary: db)
  case (Cons a ss)
  have "s \<in> set ss \<or> jm_get (db_checkpoints (ensure_checkpoint now a db)) s \<noteq> None"
    using Cons.prems ensure_checkpoint_present(1)[of db s now a] ensure_checkpoint_present(2)[of now s db]
    by (metis set_ConsD)
  from Cons.IH[OF this] show ?case by (simp add: ensure_all_def)
qed (simp add: ensure_all_def)

lemma ensure_all_same:
  assumes "\<forall>s \<in> set ss. jm_get (db_checkpoints db) s \<noteq> None" shows "ensure_all now ss db = db"
  using assms by (induction ss) (auto simp: ensure_all_def ensure_checkpoint_def)

lemma lock_checkpoints_eq:
  assumes "distinct (map fst xs)" and "\<forall>k \<in> fst ` set xs. jm_get m k = None"
  shows "lock_checkpoints now xs m db =
    Inr (m @ map (\<lambda>(k, s). (k, cp_at s (ack_of db s))) xs, ensure_all now (map snd xs) db)"
  using assms
proof (induction xs arbitrary: m db)
  case (Cons a xs)
  obtain k s where a: "a = (k, s)" by (cases a) auto
  have "jm_set k (cp_at s (ack_of db s)) m = m @ [(k, cp_at s (ack_of db s))]"
    using Cons.prems(2) a by (intro jm_set_new) auto
  moreover have "\<forall>k' \<in> fst ` set xs. jm_get (m @ [(k, cp_at s (ack_of db s))]) k' = None"
    using Cons.prems a by (auto simp: map_of_append map_add_def split: option.splits)
  ultimately show ?case
    using Cons.IH[of "m @ [(k, cp_at s (ack_of db s))]" "ensure_checkpoint now s db"] Cons.prems(1) a
    by (simp add: lockCheckpoint_eq ensure_all_def)
qed (simp add: ensure_all_def)

section \<open>The contiguous run\<close>

lemma contiguous_from_run:
  "n \<le> contiguous_from k has n \<and> (\<forall>i. n < i \<and> i \<le> contiguous_from k has n \<longrightarrow> has i)"
proof (induction k arbitrary: n)
  case (Suc k)
  show ?case using Suc[of "n + 1"] by (auto simp: order.strict_iff_order) (metis add1_zle_eq order_neq_le_trans)
qed auto

lemma contiguous_from_maximal:
  assumes "finite {i. n < i \<and> has i}" and "card {i. n < i \<and> has i} \<le> k"
  shows "\<not> has (contiguous_from k has n + 1)"
  using assms
proof (induction k arbitrary: n)
  case 0
  then show ?case by auto
next
  case (Suc k)
  have sub: "{i. n + 1 < i \<and> has i} \<subseteq> {i. n < i \<and> has i}" by auto
  show ?case
  proof (cases "has (n + 1)")
    case True
    then have "{i. n + 1 < i \<and> has i} \<subset> {i. n < i \<and> has i}" using sub by (auto simp: psubset_eq)
    then have "card {i. n + 1 < i \<and> has i} < card {i. n < i \<and> has i}" by (rule psubset_card_mono[OF Suc.prems(1)])
    then show ?thesis using Suc.IH[of "n + 1"] Suc.prems True finite_subset[OF sub Suc.prems(1)] by simp
  qed simp
qed

definition advanced :: "inbox_db \<Rightarrow> stream \<Rightarrow> int \<Rightarrow> int" where
  "advanced db s n = contiguous_from (length (db_receipts db)) (has_receipt s db) n"

lemma has_receipt_key: "has_receipt s db n \<longleftrightarrow> (s, n) \<in> receipt_key ` set (db_receipts db)"
  by (force simp: has_receipt_def receipt_key_def image_iff)

lemma receipts_finite:
  "finite {i. n < i \<and> has_receipt s db i}" "card {i. n < i \<and> has_receipt s db i} \<le> length (db_receipts db)"
proof -
  let ?A = "{i. n < i \<and> has_receipt s db i}" and ?B = "rr_seq ` set (db_receipts db)"
  have "?A \<subseteq> ?B" by (auto simp: has_receipt_def)
  moreover have "card ?B \<le> length (db_receipts db)" by (metis card_image_le card_length finite_set le_trans)
  ultimately show "finite ?A" "card ?A \<le> length (db_receipts db)"
    using finite_subset card_mono by (blast, meson finite_imageI finite_set card_mono le_trans)
qed

lemma advanced_spec:
  "n \<le> advanced db s n" "n < i \<Longrightarrow> i \<le> advanced db s n \<Longrightarrow> has_receipt s db i"
  "\<not> has_receipt s db (advanced db s n + 1)"
  using contiguous_from_run[of n "length (db_receipts db)" "has_receipt s db"]
    contiguous_from_maximal[OF receipts_finite] by (auto simp: advanced_def)

text \<open>The watermark is the only one with these three properties.\<close>

lemma advanced_unique:
  assumes "n \<le> m" and "\<forall>i. n < i \<and> i \<le> m \<longrightarrow> has_receipt s db i" and "\<not> has_receipt s db (m + 1)"
  shows "advanced db s n = m"
proof (rule ccontr)
  assume "advanced db s n \<noteq> m"
  then consider "advanced db s n < m" | "m < advanced db s n" by linarith
  then show False
  proof cases
    case 1
    then have "n < advanced db s n + 1 \<and> advanced db s n + 1 \<le> m" using advanced_spec(1)[of n db s] by linarith
    then show False using assms(2) advanced_spec(3)[of s db n] by blast
  next
    case 2
    then have "n < m + 1 \<and> m + 1 \<le> advanced db s n" using assms(1) by linarith
    then show False using advanced_spec(2)[of n "m + 1" db s] assms(3) by blast
  qed
qed

section \<open>Coordinates\<close>

definition first_at :: "string \<Rightarrow> IngressEnvelope list \<Rightarrow> IngressEnvelope option" where
  "first_at k es = find (\<lambda>e. transportKey e = k) es"

lemma transport_coordinates_Inr:
  assumes "transport_coordinates es m = Inr m'"
  shows "jm_get m' k = (case jm_get m k of Some x \<Rightarrow> Some x | None \<Rightarrow> first_at k es)"
    and "jm_wf m \<Longrightarrow> jm_wf m'"
proof -
  have "jm_get m' k = (case jm_get m k of Some x \<Rightarrow> Some x | None \<Rightarrow> first_at k es) \<and> (jm_wf m \<longrightarrow> jm_wf m')"
    using assms
  proof (induction es m rule: transport_coordinates.induct)
    case (2 a es m)
    show ?case
    proof (cases "jm_get m (transportKey a)")
      case None
      then have "transport_coordinates es (jm_set (transportKey a) a m) = Inr m'" using "2.prems" by simp
      from "2.IH"(1)[OF refl None this] show ?thesis using None by (auto simp: first_at_def split: option.splits)
    next
      case (Some y)
      then have t: "env_key y = env_key a" "transport_coordinates es m = Inr m'"
        using "2.prems" by (simp_all split: if_splits)
      from "2.IH"(2)[OF refl Some _ t(2)] t(1) show ?thesis using Some by (auto simp: first_at_def split: option.splits)
    qed
  qed (simp add: first_at_def split: option.splits)
  then show "jm_get m' k = (case jm_get m k of Some x \<Rightarrow> Some x | None \<Rightarrow> first_at k es)" "jm_wf m \<Longrightarrow> jm_wf m'" by auto
qed

lemma transport_coordinates_agree:
  assumes "transport_coordinates es m = Inr m'" and "e \<in> set es" and "jm_get m' (transportKey e) = Some x"
  shows "env_key x = env_key e"
  using assms
proof (induction es m arbitrary: m' rule: transport_coordinates.induct)
  case (2 a es m)
  show ?case
  proof (cases "jm_get m (transportKey a)")
    case None
    then have t: "transport_coordinates es (jm_set (transportKey a) a m) = Inr m'" using "2.prems"(1) by simp
    show ?thesis
    proof (cases "e \<in> set es")
      case True
      then show ?thesis using "2.IH"(1)[OF refl None t _ "2.prems"(3)] by simp
    next
      case False
      then have "e = a" using "2.prems"(2) by simp
      then show ?thesis using transport_coordinates_Inr(1)[OF t, of "transportKey a"] "2.prems"(3) by simp
    qed
  next
    case (Some y)
    then have t: "transport_coordinates es m = Inr m'" "env_key y = env_key a"
      using "2.prems"(1) by (auto simp: Let_def split: if_splits)
    show ?thesis
    proof (cases "e \<in> set es")
      case True
      then show ?thesis using "2.IH"(2)[OF refl Some _ t(1) _ "2.prems"(3)] t(2) by simp
    next
      case False
      then have "e = a" using "2.prems"(2) by simp
      then show ?thesis using transport_coordinates_Inr(1)[OF t(1), of "transportKey a"] Some "2.prems"(3) t(2) by simp
    qed
  qed
qed simp

lemma transport_coordinates_ok:
  assumes "\<forall>e \<in> set es. case jm_get m (transportKey e) of Some x \<Rightarrow> env_key x = env_key e
      | None \<Rightarrow> (\<forall>x. first_at (transportKey e) es = Some x \<longrightarrow> env_key x = env_key e)"
  shows "\<exists>m'. transport_coordinates es m = Inr m'"
  using assms
proof (induction es m rule: transport_coordinates.induct)
  case (2 a es m)
  show ?case
  proof (cases "jm_get m (transportKey a)")
    case None
    have "case jm_get (jm_set (transportKey a) a m) (transportKey e) of Some x \<Rightarrow> env_key x = env_key e
        | None \<Rightarrow> (\<forall>x. first_at (transportKey e) es = Some x \<longrightarrow> env_key x = env_key e)" if "e \<in> set es" for e
      using "2.prems"[rule_format, of e] that None
      by (auto simp: first_at_def split: option.splits if_splits)
    from "2.IH"(1)[OF refl None] this show ?thesis using None by simp
  next
    case (Some y)
    then have y: "env_key y = env_key a" using "2.prems"[rule_format, of a] by simp
    have "case jm_get m (transportKey e) of Some x \<Rightarrow> env_key x = env_key e
        | None \<Rightarrow> (\<forall>x. first_at (transportKey e) es = Some x \<longrightarrow> env_key x = env_key e)" if "e \<in> set es" for e
      using "2.prems"[rule_format, of e] that Some
      by (auto simp: first_at_def split: option.splits if_splits)
    from "2.IH"(2)[OF refl Some _] this show ?thesis using Some y by simp
  qed
qed simp

lemma first_at_Some: "first_at k es = Some e \<Longrightarrow> e \<in> set es \<and> transportKey e = k"
  by (auto simp: first_at_def find_Some_iff)

lemma first_at_exists: "e \<in> set es \<Longrightarrow> \<exists>x. first_at (transportKey e) es = Some x"
  by (cases "first_at (transportKey e) es") (auto simp: first_at_def find_None_iff)

lemma first_at_filter:
  assumes "\<And>e. transportKey e = k \<Longrightarrow> P e"
  shows "first_at k (filter P es) = first_at k es"
  using assms by (induction es) (auto simp: first_at_def)

text \<open>
  What the receipt check leaves: for every coordinate of the batch its first event, unless the
  coordinate has a receipt, which then agrees with that event.
\<close>

definition has_agreeing_receipt :: "inbox_db \<Rightarrow> IngressEnvelope \<Rightarrow> bool" where
  "has_agreeing_receipt db e \<longleftrightarrow> (\<exists>r \<in> set (db_receipts db). receipt_key r = env_coord e \<and> receipt_agrees db r e)"

lemma receipt_key_coord: "receipt_key r = env_coord e \<longleftrightarrow> receiptTransportKey r = transportKey e"
  by (auto simp: receipt_key_def env_coord_def receiptTransportKey_eq)

lemma lockAndFilter_Inr:
  assumes "lockAndFilterExistingReceipts es db = Inr pending"
  shows "distinct (map env_coord pending)"
    and "e \<in> set pending \<Longrightarrow> e \<in> set es \<and> first_at (transportKey e) es = Some e \<and> \<not> has_receipt (stream_of e) db (ie_seq e)"
    and "x \<in> set es \<Longrightarrow> \<exists>e. first_at (transportKey x) es = Some e \<and> env_key e = env_key x
      \<and> (e \<in> set pending \<or> has_agreeing_receipt db e)"
proof -
  obtain coords where c: "transport_coordinates es [] = Inr coords"
    using assms by (auto simp: lockAndFilterExistingReceipts_def split: sum.splits)
  have get: "jm_get coords k = first_at k es" for k using transport_coordinates_Inr(1)[OF c] by simp
  have wf: "jm_wf coords" using transport_coordinates_Inr(2)[OF c] by simp
  let ?ex = "receipts_of_coordinates coords db"
  have mem: "(k, e) \<in> set coords \<longleftrightarrow> first_at k es = Some e" for k e by (simp add: jm_get_in_set[OF wf] get)
  have entry: "(k, e) \<in> set coords \<Longrightarrow> k = transportKey e" for k e using mem first_at_Some by blast
  have pend: "pending = map snd (filter (\<lambda>(k, _). k \<notin> receiptTransportKey ` set ?ex) coords)"
    using assms c by (auto simp: lockAndFilterExistingReceipts_def Let_def split: if_splits)
  have good: "\<exists>e. first_at (receiptTransportKey r) es = Some e \<and> receipt_agrees db r e" if "r \<in> set ?ex" for r
    using assms c that by (auto simp: lockAndFilterExistingReceipts_def Let_def receipts_of_coordinates_def jm_values_def
        get split: if_splits option.splits)
  have ex_iff: "r \<in> set ?ex \<longleftrightarrow> r \<in> set (db_receipts db) \<and> (\<exists>e. first_at (transportKey e) es = Some e \<and> receipt_key r = env_coord e)" for r
  proof -
    have "e \<in> snd ` set coords \<longleftrightarrow> first_at (transportKey e) es = Some e" for e
      using mem entry by force
    then have "(\<exists>e \<in> set (jm_values coords). Q e) \<longleftrightarrow> (\<exists>e. first_at (transportKey e) es = Some e \<and> Q e)" for Q
      unfolding jm_values_def set_map by blast
    then show ?thesis
      by (simp add: receipts_of_coordinates_def receipt_key_def env_coord_def stream_of_def)
  qed
  have "distinct (map transportKey pending)"
  proof -
    have "map transportKey pending = map fst (filter (\<lambda>(k, _). k \<notin> receiptTransportKey ` set ?ex) coords)"
      unfolding pend using entry by (auto simp: comp_def)
    then show ?thesis using jm_wf_filter[OF wf] by simp
  qed
  then show "distinct (map env_coord pending)" unfolding distinct_map by (simp add: inj_on_def transportKey_env)
  have in_pend: "e \<in> set pending \<longleftrightarrow> first_at (transportKey e) es = Some e \<and> transportKey e \<notin> receiptTransportKey ` set ?ex" for e
  proof -
    have "e \<in> set pending \<longleftrightarrow> (\<exists>k. (k, e) \<in> set coords \<and> k \<notin> receiptTransportKey ` set ?ex)"
      unfolding pend by force
    then show ?thesis using mem entry by blast
  qed
  show "e \<in> set es \<and> first_at (transportKey e) es = Some e \<and> \<not> has_receipt (stream_of e) db (ie_seq e)"
    if "e \<in> set pending" for e
  proof -
    have f: "first_at (transportKey e) es = Some e" "transportKey e \<notin> receiptTransportKey ` set ?ex"
      using that in_pend by blast+
    have "\<not> has_receipt (stream_of e) db (ie_seq e)"
    proof
      assume "has_receipt (stream_of e) db (ie_seq e)"
      then obtain r where "r \<in> set (db_receipts db)" "receipt_key r = env_coord e"
        by (auto simp: has_receipt_key env_coord_def)
      then have "r \<in> set ?ex" "receiptTransportKey r = transportKey e" using f(1) ex_iff receipt_key_coord by blast+
      then show False using f(2) by (metis imageI)
    qed
    then show ?thesis using f first_at_Some by blast
  qed
  show "\<exists>e. first_at (transportKey x) es = Some e \<and> env_key e = env_key x \<and> (e \<in> set pending \<or> has_agreeing_receipt db e)"
    if x: "x \<in> set es" for x
  proof -
    obtain e where e: "first_at (transportKey x) es = Some e" using first_at_exists[OF x] ..
    then have k: "transportKey e = transportKey x" using first_at_Some by blast
    have "env_key e = env_key x" using transport_coordinates_agree[OF c x] e get by simp
    moreover have "e \<in> set pending \<or> has_agreeing_receipt db e"
    proof (cases "transportKey e \<in> receiptTransportKey ` set ?ex")
      case True
      then obtain r where r: "r \<in> set ?ex" "receiptTransportKey r = transportKey e" by (metis imageE)
      then have "receipt_agrees db r e" using good[OF r(1)] e k by simp
      then show ?thesis using r ex_iff receipt_key_coord unfolding has_agreeing_receipt_def by blast
    next
      case False
      then show ?thesis using in_pend e k by simp
    qed
    ultimately show ?thesis using e by blast
  qed
qed

section \<open>Rows and receipts\<close>

abbreviation canon :: "IngressEnvelope \<Rightarrow> string" where
  "canon e \<equiv> canonicalKey (ie_userId e) (ie_dedupKey e)"

definition ids_sound :: "(string, int) jsmap \<Rightarrow> InboxRow list \<Rightarrow> bool" where
  "ids_sound ids rows \<longleftrightarrow> (\<forall>k i. jm_get ids k = Some i \<longrightarrow>
     (\<exists>r \<in> set rows. canonicalKey (ir_userId r) (ir_dedupKey r) = k \<and> ir_inboxId r = i))"

definition upserted :: "(string, int) jsmap \<times> inbox_db \<Rightarrow> (string, int) jsmap \<times> inbox_db \<Rightarrow> bool" where
  "upserted a b \<longleftrightarrow> (\<exists>new. db_inbox (snd b) = db_inbox (snd a) @ new \<and> (\<forall>r \<in> set new. ir_status r = 0 \<and> ir_claimedBy r = None \<and> ir_attempts r = 0))
     \<and> db_receipts (snd b) = db_receipts (snd a) \<and> db_checkpoints (snd b) = db_checkpoints (snd a)
     \<and> rows_wf (db_next_inbox (snd b)) (db_inbox (snd b)) \<and> ids_sound (fst b) (db_inbox (snd b))
     \<and> dom (map_of (fst a)) \<subseteq> dom (map_of (fst b))"

lemma upserted_trans: "upserted a b \<Longrightarrow> upserted b c \<Longrightarrow> upserted a c"
  unfolding upserted_def by (elim conjE exE) (intro conjI; force)

lemma upsert_tuple_effect:
  assumes wf: "rows_wf (db_next_inbox db) (db_inbox db)" and ids: "ids_sound ids (db_inbox db)"
  shows "upserted (ids, db) (upsert_tuple now e (ids, db)) \<and> jm_get (fst (upsert_tuple now e (ids, db))) (canon e) \<noteq> None"
proof (cases "find_canonical (env_key e) (db_inbox db)")
  case None
  then have new: "env_key e \<notin> row_key ` set (db_inbox db)" by (simp add: find_canonical_None)
  let ?r = "new_inbox_row now (db_next_inbox db) e"
  have r: "row_key ?r = env_key e" "ir_inboxId ?r = db_next_inbox db" "ir_status ?r = 0" "ir_claimedBy ?r = None"
    "ir_attempts ?r = 0" "canonicalKey (ir_userId ?r) (ir_dedupKey ?r) = canon e"
    by (simp_all add: new_inbox_row_def row_key_def env_key_def)
  have up: "upsert_tuple now e (ids, db) = (jm_set (canon e) (db_next_inbox db) ids,
      db\<lparr>db_next_inbox := db_next_inbox db + 1, db_inbox := db_inbox db @ [?r]\<rparr>)"
    using None by (simp add: upsert_tuple_def env_key_def Let_def)
  have "rows_wf (db_next_inbox db + 1) (db_inbox db @ [?r])" using wf new r by (force simp: rows_wf_def)
  moreover have "ids_sound (jm_set (canon e) (db_next_inbox db) ids) (db_inbox db @ [?r])"
    using ids r by (auto simp: ids_sound_def)
  ultimately show ?thesis using r unfolding up upserted_def by auto
next
  case (Some row)
  note row = find_canonical_Some[OF Some]
  then have key: "canonicalKey (ir_userId row) (ir_dedupKey row) = canon e" by simp
  have up: "upsert_tuple now e (ids, db) = (jm_set (canon e) (ir_inboxId row) ids, db\<lparr>db_next_inbox := db_next_inbox db + 1\<rparr>)"
    by (simp add: upsert_tuple_def Let_def key Some[unfolded env_key_def] del: canonicalKey_row)
  have "rows_wf (db_next_inbox db + 1) (db_inbox db)" using wf by (force simp: rows_wf_def)
  moreover have "ids_sound (jm_set (canon e) (ir_inboxId row) ids) (db_inbox db)"
    using ids row key by (auto simp: ids_sound_def)
  ultimately show ?thesis unfolding up upserted_def by auto
qed

lemma upsert_fold:
  assumes "rows_wf (db_next_inbox (snd acc)) (db_inbox (snd acc))" and "ids_sound (fst acc) (db_inbox (snd acc))"
  shows "upserted acc (fold (upsert_tuple now) es acc)
    \<and> (\<forall>e \<in> set es. jm_get (fst (fold (upsert_tuple now) es acc)) (canon e) \<noteq> None)"
  using assms
proof (induction es arbitrary: acc)
  case Nil
  then show ?case by (auto simp: upserted_def)
next
  case (Cons e es)
  have s: "upserted acc (upsert_tuple now e acc)" "jm_get (fst (upsert_tuple now e acc)) (canon e) \<noteq> None"
    using upsert_tuple_effect[of "snd acc" "fst acc" now e] Cons.prems by simp_all
  have f: "upserted (upsert_tuple now e acc) (fold (upsert_tuple now) es (upsert_tuple now e acc))"
    "\<forall>x \<in> set es. jm_get (fst (fold (upsert_tuple now) es (upsert_tuple now e acc))) (canon x) \<noteq> None"
    using Cons.IH[of "upsert_tuple now e acc"] s(1) by (simp_all add: upserted_def)
  have "jm_get (fst (fold (upsert_tuple now) es (upsert_tuple now e acc))) (canon e) \<noteq> None"
    using f(1) s(2) unfolding upserted_def by (auto simp: dom_def)
  then show ?case using upserted_trans[OF s(1) f(1)] f(2) by simp
qed

lemma unique_canonical_covers:
  "e \<in> set es \<Longrightarrow> \<exists>x \<in> snd ` set (unique_canonical es). canon x = canon e"
proof -
  let ?f = "\<lambda>m e. let k = canon e in if jm_get m k = None then jm_set k e m else m"
  have grow: "(\<exists>x \<in> snd ` set m. canon x = c) \<Longrightarrow> (\<exists>x \<in> snd ` set (foldl ?f m es). canon x = c)" for m es c
  proof (induction es arbitrary: m)
    case (Cons a es)
    have "\<exists>x \<in> snd ` set (?f m a). canon x = c"
      using Cons.prems by (auto simp: Let_def jm_set_new)
    then show ?case using Cons.IH by simp
  qed simp
  have keys: "\<forall>(k, x) \<in> set m. k = canon x \<Longrightarrow> e \<in> set es \<Longrightarrow> \<exists>x \<in> snd ` set (foldl ?f m es). canon x = canon e" for m
  proof (induction es arbitrary: m)
    case (Cons a es)
    have inv: "\<forall>(k, x) \<in> set (?f m a). k = canon x" using Cons.prems(1) by (auto simp: Let_def jm_set_new)
    show ?case
    proof (cases "e = a")
      case True
      have "\<exists>x \<in> snd ` set (?f m a). canon x = canon a"
      proof (cases "jm_get m (canon a)")
        case None
        then show ?thesis by (force simp: Let_def jm_set_new)
      next
        case (Some x)
        then have "(canon a, x) \<in> set m" by (rule map_of_SomeD)
        then show ?thesis using Some Cons.prems(1) by (force simp: Let_def)
      qed
      then show ?thesis using grow[of "?f m a" "canon a" es] True by (simp only: foldl.simps)
    next
      case False
      then show ?thesis using Cons.IH[OF inv] Cons.prems(2) by simp
    qed
  qed simp
  show "e \<in> set es \<Longrightarrow> ?thesis" using keys[of "[]"] by (simp add: unique_canonical_def)
qed

lemma upsertCanonicalInboxRows_spec:
  assumes "rows_wf (db_next_inbox db) (db_inbox db)"
  shows "upserted ([], db) (upsertCanonicalInboxRows now es db)"
    and "e \<in> set es \<Longrightarrow> \<exists>r \<in> set (db_inbox (snd (upsertCanonicalInboxRows now es db))).
      row_key r = env_key e \<and> jm_get (fst (upsertCanonicalInboxRows now es db)) (canon e) = Some (ir_inboxId r)"
proof -
  let ?L = "map snd (sort_key fst (unique_canonical es))"
  have eq: "upsertCanonicalInboxRows now es db = fold (upsert_tuple now) ?L ([], db)"
    by (simp add: upsertCanonicalInboxRows_def Let_def)
  have f: "upserted ([], db) (fold (upsert_tuple now) ?L ([], db))"
    "\<forall>e \<in> set ?L. jm_get (fst (fold (upsert_tuple now) ?L ([], db))) (canon e) \<noteq> None"
    using upsert_fold[of "([], db)" now ?L] assms by (simp_all add: ids_sound_def)
  show "upserted ([], db) (upsertCanonicalInboxRows now es db)" unfolding eq by (rule f(1))
  show "\<exists>r \<in> set (db_inbox (snd (upsertCanonicalInboxRows now es db))).
      row_key r = env_key e \<and> jm_get (fst (upsertCanonicalInboxRows now es db)) (canon e) = Some (ir_inboxId r)"
    if e: "e \<in> set es"
  proof -
    obtain x where x: "x \<in> set ?L" "canon x = canon e" using unique_canonical_covers[OF e] by auto
    then obtain i where i: "jm_get (fst (fold (upsert_tuple now) ?L ([], db))) (canon e) = Some i"
      using f(2) by (metis not_None_eq)
    moreover have "ids_sound (fst (fold (upsert_tuple now) ?L ([], db))) (db_inbox (snd (fold (upsert_tuple now) ?L ([], db))))"
      using f(1) by (simp add: upserted_def)
    ultimately obtain r where "r \<in> set (db_inbox (snd (fold (upsert_tuple now) ?L ([], db))))"
        "canonicalKey (ir_userId r) (ir_dedupKey r) = canon e" "ir_inboxId r = i"
      unfolding ids_sound_def by blast
    then show ?thesis using i unfolding eq by (intro bexI[of _ r]) simp_all
  qed
qed

lemma insert_receipt_fold:
  assumes "distinct (map env_coord es)" and "\<forall>e \<in> set es. \<not> has_receipt (stream_of e) db (ie_seq e)"
    and db': "db' = fold (\<lambda>e. insert_receipt (target e) e) es db"
  shows "db_inbox db' = db_inbox db \<and> db_next_inbox db' = db_next_inbox db \<and> db_checkpoints db' = db_checkpoints db
    \<and> (\<exists>new. db_receipts db' = db_receipts db @ new
        \<and> list_all2 (\<lambda>e r. receipt_key r = env_coord e \<and> rr_inboxId r = target e) es new)"
  using assms
proof (induction es arbitrary: db)
  case (Cons e es)
  let ?db = "insert_receipt (target e) e db"
  let ?r = "\<lparr>rr_receiptId = db_next_receipt db, rr_inboxId = target e, rr_daemonId = ie_daemonId e,
    rr_daemonGeneration = ie_daemonGeneration e, rr_seq = ie_seq e, rr_receivedAt = ie_receivedAt e\<rparr>"
  have ins: "db_receipts ?db = db_receipts db @ [?r]" "db_inbox ?db = db_inbox db"
    "db_next_inbox ?db = db_next_inbox db" "db_checkpoints ?db = db_checkpoints db"
    using Cons.prems(2) by (simp_all add: insert_receipt_def Let_def)
  have key: "receipt_key ?r = env_coord e" by (simp add: receipt_key_def env_coord_def stream_of_def)
  have "\<forall>x \<in> set es. \<not> has_receipt (stream_of x) ?db (ie_seq x)"
  proof
    fix x assume x: "x \<in> set es"
    then have "env_coord x \<noteq> env_coord e" using Cons.prems(1) by (metis distinct.simps(2) imageI list.set_map list.simps(9))
    then show "\<not> has_receipt (stream_of x) ?db (ie_seq x)"
      using Cons.prems(2) x key by (auto simp: has_receipt_key ins env_coord_def)
  qed
  then obtain new where "db_inbox db' = db_inbox ?db" "db_next_inbox db' = db_next_inbox ?db"
      "db_checkpoints db' = db_checkpoints ?db" "db_receipts db' = db_receipts ?db @ new"
      "list_all2 (\<lambda>e r. receipt_key r = env_coord e \<and> rr_inboxId r = target e) es new"
    using Cons.IH[of ?db] Cons.prems(1,3) by auto
  then show ?case using ins key by (auto intro!: exI[of _ "?r # new"])
qed simp

section \<open>The transaction\<close>

definition streams_of :: "IngressEnvelope list \<Rightarrow> (string \<times> stream) list" where
  "streams_of events = sort_key fst (generationInputs events)"

definition keyed :: "(string, stream) jsmap \<Rightarrow> bool" where
  "keyed m \<longleftrightarrow> (\<forall>x \<in> set m. fst x = checkpointKey (fst (snd x)) (snd (snd x)))"

lemma keyed_add:
  assumes "keyed m"
  shows "keyed (jm_set (checkpointKey (fst s) (snd s)) s m)"
    and "snd ` set (jm_set (checkpointKey (fst s) (snd s)) s m) = insert s (snd ` set m)"
proof -
  let ?k = "checkpointKey (fst s) (snd s)"
  have "keyed (jm_set ?k s m) \<and> snd ` set (jm_set ?k s m) = insert s (snd ` set m)"
  proof (cases "jm_get m ?k")
    case None
    then show ?thesis using assms by (auto simp: jm_set_new keyed_def)
  next
    case (Some s')
    then have mem: "(?k, s') \<in> set m" by (rule map_of_SomeD)
    then have "?k = checkpointKey (fst s') (snd s')" using assms unfolding keyed_def by fastforce
    then have "s' = s" by (simp add: prod_eq_iff)
    then show ?thesis using Some mem assms by (force simp: jm_set_same)
  qed
  then show "keyed (jm_set ?k s m)" "snd ` set (jm_set ?k s m) = insert s (snd ` set m)" by simp_all
qed

lemma generationInputs_spec:
  "jm_wf (generationInputs es) \<and> keyed (generationInputs es) \<and> snd ` set (generationInputs es) = stream_of ` set es"
proof -
  let ?f = "\<lambda>m e. jm_set (checkpointKey (ie_daemonId e) (ie_daemonGeneration e)) (stream_of e) m"
  have "jm_wf m \<Longrightarrow> keyed m \<Longrightarrow> jm_wf (foldl ?f m es) \<and> keyed (foldl ?f m es)
      \<and> snd ` set (foldl ?f m es) = snd ` set m \<union> stream_of ` set es" for m
  proof (induction es arbitrary: m)
    case (Cons a es)
    have "keyed (?f m a)" "snd ` set (?f m a) = insert (stream_of a) (snd ` set m)"
      using keyed_add[OF Cons.prems(2), of "stream_of a"] by (simp_all add: stream_of_def)
    moreover have "jm_wf (?f m a)" using Cons.prems(1) by simp
    ultimately show ?case using Cons.IH[of "?f m a"] by simp
  qed simp
  from this[of "[]"] show ?thesis by (simp add: generationInputs_def keyed_def)
qed

lemma distinct_map_sort: "distinct (map f xs) \<Longrightarrow> distinct (map f (sort_key g xs))"
  by (metis distinct_map distinct_sort set_sort)

lemma streams_of_spec:
  "distinct (map fst (streams_of es))" "distinct (map snd (streams_of es))"
  "snd ` set (streams_of es) = stream_of ` set es"
  "(k, s) \<in> set (streams_of es) \<Longrightarrow> k = checkpointKey (fst s) (snd s)"
proof -
  note g = generationInputs_spec[of es]
  show d: "distinct (map fst (streams_of es))"
    unfolding streams_of_def using g by (intro distinct_map_sort) simp
  show "snd ` set (streams_of es) = stream_of ` set es" using g by (simp add: streams_of_def)
  show k: "k = checkpointKey (fst s) (snd s)" if "(k, s) \<in> set (streams_of es)" for k s
    using g that unfolding keyed_def streams_of_def set_sort by fastforce
  have "x = y" if x: "x \<in> set (streams_of es)" and y: "y \<in> set (streams_of es)" and eq: "snd x = snd y" for x y
    using k x y eq by (metis prod.collapse)
  then have "inj_on snd (set (streams_of es))" by (rule inj_onI)
  then show "distinct (map snd (streams_of es))" using d by (simp add: distinct_map)
qed

lemma advance_checkpoints_eq:
  assumes "distinct (map snd xs)" and "\<forall>s \<in> snd ` set xs. jm_get (db_checkpoints db) s \<noteq> None"
    and "jm_wf (db_checkpoints db)"
  shows "\<exists>cks. advance_checkpoints now (map (\<lambda>(k, s). (k, cp_at s (ack_of db s))) xs) db =
      (map (\<lambda>(k, s). (k, cp_at s (advanced db s (ack_of db s)))) xs, db\<lparr>db_checkpoints := cks\<rparr>)
    \<and> jm_wf cks \<and> (\<forall>s. ack_of (db\<lparr>db_checkpoints := cks\<rparr>) s =
        (if s \<in> snd ` set xs then advanced db s (ack_of db s) else ack_of db s))
    \<and> (\<forall>s. jm_get cks s = None \<longleftrightarrow> jm_get (db_checkpoints db) s = None)
    \<and> ((\<forall>s \<in> snd ` set xs. advanced db s (ack_of db s) = ack_of db s) \<longrightarrow> cks = db_checkpoints db)"
  using assms
proof (induction xs arbitrary: db)
  case Nil
  then show ?case by (intro exI[of _ "db_checkpoints db"]) (simp add: ack_of_def)
next
  case (Cons a xs)
  obtain k s where a: "a = (k, s)" by (cases a) auto
  let ?n = "advanced db s (ack_of db s)"
  define c1 where "c1 = (if ?n \<noteq> ack_of db s then jm_set s \<lparr>ck_ack_seq = ?n, ck_updated_at = now\<rparr> (db_checkpoints db)
      else db_checkpoints db)"
  let ?db = "db\<lparr>db_checkpoints := c1\<rparr>"
  have adv: "advanceContiguousCheckpoint now (cp_at s (ack_of db s)) db = (cp_at s ?n, ?db)"
    by (simp add: advanceContiguousCheckpoint_def cp_at_def advanced_def c1_def Let_def)
  have s_in: "jm_get (db_checkpoints db) s \<noteq> None" using Cons.prems(2) a by simp
  have ack: "ack_of ?db s' = (if s' = s then ?n else ack_of db s')" for s' by (simp add: ack_of_def c1_def)
  have pres: "jm_get c1 s' = None \<longleftrightarrow> jm_get (db_checkpoints db) s' = None" for s' using s_in by (simp add: c1_def)
  have same: "advanced ?db s' n = advanced db s' n" for s' n by (simp add: advanced_def has_receipt_def[abs_def])
  have xs_ack: "s' \<in> snd ` set xs \<Longrightarrow> ack_of ?db s' = ack_of db s'" for s' using Cons.prems(1) a ack by auto
  have eq: "map (\<lambda>(k, s). (k, cp_at s (ack_of db s))) xs = map (\<lambda>(k, s). (k, cp_at s (ack_of ?db s))) xs"
    "map (\<lambda>(k, s). (k, cp_at s (advanced ?db s (ack_of ?db s)))) xs = map (\<lambda>(k, s). (k, cp_at s (advanced db s (ack_of db s)))) xs"
    using xs_ack by (simp_all add: same case_prod_beta cong: map_cong)
  have p: "distinct (map snd xs)" "\<forall>s \<in> snd ` set xs. jm_get (db_checkpoints ?db) s \<noteq> None" "jm_wf (db_checkpoints ?db)"
    using Cons.prems a pres by (simp, fastforce, simp add: c1_def)
  obtain cks where c: "advance_checkpoints now (map (\<lambda>(k, s). (k, cp_at s (ack_of db s))) xs) ?db =
      (map (\<lambda>(k, s). (k, cp_at s (advanced db s (ack_of db s)))) xs, ?db\<lparr>db_checkpoints := cks\<rparr>)
    \<and> jm_wf cks \<and> (\<forall>s'. ack_of (?db\<lparr>db_checkpoints := cks\<rparr>) s' =
        (if s' \<in> snd ` set xs then advanced ?db s' (ack_of ?db s') else ack_of ?db s'))
    \<and> (\<forall>s'. jm_get cks s' = None \<longleftrightarrow> jm_get (db_checkpoints ?db) s' = None)
    \<and> ((\<forall>s' \<in> snd ` set xs. advanced ?db s' (ack_of ?db s') = ack_of ?db s') \<longrightarrow> cks = db_checkpoints ?db)"
    using Cons.IH[OF p] unfolding eq(1)[symmetric] eq(2) by blast
  note cks = c[THEN conjunct1] c[THEN conjunct2, THEN conjunct1] c[THEN conjunct2, THEN conjunct2, THEN conjunct1]
    c[THEN conjunct2, THEN conjunct2, THEN conjunct2, THEN conjunct1]
    c[THEN conjunct2, THEN conjunct2, THEN conjunct2, THEN conjunct2]
  have s_new: "s \<notin> snd ` set xs" using Cons.prems(1) a by simp
  show ?case
  proof (intro exI[of _ cks] conjI)
    show "advance_checkpoints now (map (\<lambda>(k, s). (k, cp_at s (ack_of db s))) (a # xs)) db =
      (map (\<lambda>(k, s). (k, cp_at s (advanced db s (ack_of db s)))) (a # xs), db\<lparr>db_checkpoints := cks\<rparr>)"
      using adv cks(1) a by simp
    show "jm_wf cks" by (rule cks(2))
    show "\<forall>s'. ack_of (db\<lparr>db_checkpoints := cks\<rparr>) s' =
        (if s' \<in> snd ` set (a # xs) then advanced db s' (ack_of db s') else ack_of db s')"
      using cks(3) s_new a by (auto simp: same ack)
    show "\<forall>s'. jm_get cks s' = None \<longleftrightarrow> jm_get (db_checkpoints db) s' = None" using cks(4) pres by simp
    show "(\<forall>s' \<in> snd ` set (a # xs). advanced db s' (ack_of db s') = ack_of db s') \<longrightarrow> cks = db_checkpoints db"
      using cks(5) a xs_ack by (auto simp: same c1_def)
  qed
qed

end
