(* ===== verification/Inbox_Durability.thy ===== *)
theory Inbox_Durability
  imports Inbox_Persist
begin

text \<open>
  The contract of \<open>persistBatch\<close>: what a successful call leaves in the tables, that calling it
  again is free, and that its acknowledgements only ever cover what is stored.
\<close>

definition unacked :: "inbox_db \<Rightarrow> IngressEnvelope list \<Rightarrow> IngressEnvelope list" where
  "unacked db events = filter (\<lambda>e. ie_seq e > ack_of db (stream_of e)) events"

definition checkpoints_at :: "inbox_db \<Rightarrow> IngressEnvelope list \<Rightarrow> (string, AckCheckpoint) jsmap" where
  "checkpoints_at db events = map (\<lambda>(k, s). (k, cp_at s (ack_of db s))) (streams_of events)"

lemma checkpoints_at_get:
  assumes "e \<in> set events"
  shows "jm_get (checkpoints_at db events) (checkpointKey (ie_daemonId e) (ie_daemonGeneration e)) =
    Some (cp_at (stream_of e) (ack_of db (stream_of e)))"
proof -
  have "stream_of e \<in> snd ` set (streams_of events)" using streams_of_spec(3)[of events] assms by simp
  then obtain k where k: "(k, stream_of e) \<in> set (streams_of events)" by force
  then have key: "k = checkpointKey (ie_daemonId e) (ie_daemonGeneration e)"
    using streams_of_spec(4)[OF k] by (simp add: stream_of_def)
  have "map fst (checkpoints_at db events) = map fst (streams_of events)"
    by (simp add: checkpoints_at_def case_prod_beta)
  then have "jm_wf (checkpoints_at db events)" using streams_of_spec(1)[of events] by simp
  moreover have "(k, cp_at (stream_of e) (ack_of db (stream_of e))) \<in> set (checkpoints_at db events)"
    using k by (force simp: checkpoints_at_def)
  ultimately show ?thesis using jm_get_in_set key by metis
qed

lemma persist_lock:
  "lock_checkpoints now (sort_key fst (generationInputs events)) [] db =
     Inr (checkpoints_at db events, ensure_all now (map snd (streams_of events)) db)"
  "filter (is_unacked (checkpoints_at db events)) events = unacked db events"
proof -
  show "lock_checkpoints now (sort_key fst (generationInputs events)) [] db =
     Inr (checkpoints_at db events, ensure_all now (map snd (streams_of events)) db)"
    using lock_checkpoints_eq[of "streams_of events" "[]" now db] streams_of_spec(1)[of events]
    by (simp add: checkpoints_at_def streams_of_def[symmetric])
  show "filter (is_unacked (checkpoints_at db events)) events = unacked db events"
    unfolding unacked_def
    by (rule filter_cong) (simp_all add: is_unacked_def checkpoints_at_get, simp add: cp_at_def)
qed

lemma row_by_id_append:
  assumes "distinct (map ir_inboxId (rows @ new))" and "row_by_id i rows = Some x"
  shows "row_by_id i (rows @ new) = Some x"
  using assms by (simp add: row_by_id_Some)

lemma receipt_agrees_grow:
  assumes "receipt_agrees db r e" and "db_inbox db' = db_inbox db @ new" and "distinct (map ir_inboxId (db_inbox db'))"
  shows "receipt_agrees db' r e"
proof (cases "rr_inboxId r")
  case None
  then show ?thesis using assms(1) by (simp add: receipt_agrees_def)
next
  case (Some i)
  then obtain x where x: "row_by_id i (db_inbox db) = Some x" "row_key x = env_key e" "\<not> ie_receiptOnly e"
    using assms(1) by (auto simp: receipt_agrees_def split: option.splits)
  then have "row_by_id i (db_inbox db') = Some x" using row_by_id_append assms(2,3) by metis
  then show ?thesis using x Some by (simp add: receipt_agrees_def)
qed

text \<open>Everything a successful call establishes.\<close>

definition persisted ::
    "IngressEnvelope list \<Rightarrow> inbox_db \<Rightarrow> (string, AckCheckpoint) jsmap \<Rightarrow> inbox_db \<Rightarrow> bool" where
  "persisted events db cps db' \<longleftrightarrow>
     inbox_wf db' \<and> cps = checkpoints_at db' events
     \<and> (\<exists>new. db_inbox db' = db_inbox db @ new \<and> (\<forall>r \<in> set new. ir_status r = 0 \<and> ir_claimedBy r = None \<and> ir_attempts r = 0))
     \<and> (\<exists>new. db_receipts db' = db_receipts db @ new)
     \<and> (\<forall>s. ack_of db' s = (if s \<in> stream_of ` set events then advanced db' s (ack_of db s) else ack_of db s))
     \<and> (\<forall>s \<in> stream_of ` set events. jm_get (db_checkpoints db') s \<noteq> None)
     \<and> (\<forall>x \<in> set (unacked db events). \<exists>e. first_at (transportKey x) (unacked db events) = Some e
          \<and> env_key e = env_key x \<and> has_agreeing_receipt db' e)"

lemma persistedD:
  assumes "persisted events db cps db'"
  shows "inbox_wf db'" "cps = checkpoints_at db' events"
    "\<exists>new. db_inbox db' = db_inbox db @ new \<and> (\<forall>r \<in> set new. ir_status r = 0 \<and> ir_claimedBy r = None \<and> ir_attempts r = 0)"
    "\<exists>new. db_receipts db' = db_receipts db @ new"
    "ack_of db' s = (if s \<in> stream_of ` set events then advanced db' s (ack_of db s) else ack_of db s)"
    "\<forall>s \<in> stream_of ` set events. jm_get (db_checkpoints db') s \<noteq> None"
    "\<forall>x \<in> set (unacked db events). \<exists>e. first_at (transportKey x) (unacked db events) = Some e
      \<and> env_key e = env_key x \<and> has_agreeing_receipt db' e"
  using assms unfolding persisted_def by blast+

lemma persist_receipts:
  assumes wf: "inbox_wf db" and pend: "lockAndFilterExistingReceipts es db = Inr pending"
    and up: "upsertCanonicalInboxRows now (filter (\<lambda>e. \<not> ie_receiptOnly e) pending) db = (ids, db2)"
    and ins: "insertTransportReceipts pending ids db2 = Inr db3"
  shows "inbox_wf db3" and "db_checkpoints db3 = db_checkpoints db"
    and "\<exists>new. db_inbox db3 = db_inbox db @ new \<and> (\<forall>r \<in> set new. ir_status r = 0 \<and> ir_claimedBy r = None \<and> ir_attempts r = 0)"
    and "\<exists>new. db_receipts db3 = db_receipts db @ new"
    and "e \<in> set pending \<or> has_agreeing_receipt db e \<Longrightarrow> has_agreeing_receipt db3 e"
proof -
  let ?target = "\<lambda>e. if ie_receiptOnly e then None else jm_get ids (canon e)"
  have rows: "rows_wf (db_next_inbox db) (db_inbox db)" using wf by (simp add: inbox_wf_def)
  have u: "upserted ([], db) (ids, db2)" using upsertCanonicalInboxRows_spec(1)[OF rows] up by metis
  have target: "\<exists>r \<in> set (db_inbox db2). row_key r = env_key e \<and> jm_get ids (canon e) = Some (ir_inboxId r)"
    if "e \<in> set pending" "\<not> ie_receiptOnly e" for e
    using upsertCanonicalInboxRows_spec(2)[OF rows, of e "filter (\<lambda>e. \<not> ie_receiptOnly e) pending" now] up that by simp
  have db3: "db3 = fold (\<lambda>e. insert_receipt (?target e) e) pending db2"
    using ins by (simp add: insertTransportReceipts_def Let_def split: if_splits)
  have no: "\<forall>e \<in> set pending. \<not> has_receipt (stream_of e) db2 (ie_seq e)"
    using lockAndFilter_Inr(2)[OF pend] u by (auto simp: upserted_def has_receipt_def)
  obtain newr where f: "db_inbox db3 = db_inbox db2" "db_next_inbox db3 = db_next_inbox db2"
      "db_checkpoints db3 = db_checkpoints db2" "db_receipts db3 = db_receipts db2 @ newr"
      "list_all2 (\<lambda>e r. receipt_key r = env_coord e \<and> rr_inboxId r = ?target e) pending newr"
    using insert_receipt_fold[OF lockAndFilter_Inr(1)[OF pend] no db3] by blast
  obtain newi where i: "db_inbox db2 = db_inbox db @ newi"
      "\<forall>r \<in> set newi. ir_status r = 0 \<and> ir_claimedBy r = None \<and> ir_attempts r = 0"
    using u by (auto simp: upserted_def)
  have u2: "db_receipts db2 = db_receipts db" "db_checkpoints db2 = db_checkpoints db"
      "rows_wf (db_next_inbox db2) (db_inbox db2)" using u by (simp_all add: upserted_def)
  show "db_checkpoints db3 = db_checkpoints db" using f u2 by simp
  show "\<exists>new. db_inbox db3 = db_inbox db @ new \<and> (\<forall>r \<in> set new. ir_status r = 0 \<and> ir_claimedBy r = None \<and> ir_attempts r = 0)"
    using f i by auto
  show "\<exists>new. db_receipts db3 = db_receipts db @ new" using f u2 by auto
  have keys: "map receipt_key newr = map env_coord pending"
    using f(5) by (induction rule: list_all2_induct) auto
  have newr: "\<exists>e \<in> set pending. receipt_key r = env_coord e \<and> rr_inboxId r = ?target e" if "r \<in> set newr" for r
    using list_all2_right[OF f(5) that] .
  have fk: "\<forall>r \<in> set newr. \<forall>i. rr_inboxId r = Some i \<longrightarrow> i \<in> ir_inboxId ` set (db_inbox db3)"
    using newr target f(1) by (fastforce split: if_splits)
  have "set (map env_coord pending) \<inter> receipt_key ` set (db_receipts db) = {}"
    using no u2(1) by (auto simp: has_receipt_key env_coord_def)
  then have "distinct (map receipt_key (db_receipts db @ newr))"
    unfolding map_append keys using wf lockAndFilter_Inr(1)[OF pend] by (auto simp: inbox_wf_def)
  then show wf3: "inbox_wf db3"
    using wf fk f i u2 unfolding inbox_wf_def by (auto simp: u2 f image_Un)
  show "has_agreeing_receipt db3 e" if "e \<in> set pending \<or> has_agreeing_receipt db e"
    using that
  proof
    assume e: "e \<in> set pending"
    obtain r where r: "r \<in> set newr" "receipt_key r = env_coord e" "rr_inboxId r = ?target e"
      using list_all2_left[OF f(5) e] by blast
    have "receipt_agrees db3 r e"
    proof (cases "ie_receiptOnly e")
      case False
      then obtain row where "row \<in> set (db_inbox db3)" "row_key row = env_key e" "jm_get ids (canon e) = Some (ir_inboxId row)"
        using target[OF e] f(1) by auto
      then show ?thesis
        using r False wf3 by (auto simp: receipt_agrees_def inbox_wf_def rows_wf_def row_by_id_Some[THEN iffD2])
    qed (use r in \<open>simp add: receipt_agrees_def\<close>)
    then show ?thesis using r f(4) by (auto simp: has_agreeing_receipt_def)
  next
    assume "has_agreeing_receipt db e"
    then obtain r where r: "r \<in> set (db_receipts db)" "receipt_key r = env_coord e" "receipt_agrees db r e"
      by (auto simp: has_agreeing_receipt_def)
    have "receipt_agrees db3 r e"
      using receipt_agrees_grow[OF r(3), of db3 newi] f(1) i(1) wf3 by (simp add: inbox_wf_def rows_wf_def)
    then show ?thesis using r f(4) u2(1) by (auto simp: has_agreeing_receipt_def)
  qed
qed

lemma advanced_cong: "db_receipts db' = db_receipts db \<Longrightarrow> advanced db' s n = advanced db s n"
  by (simp add: advanced_def has_receipt_def[abs_def])

lemma inbox_wf_checkpoints: "inbox_wf db \<Longrightarrow> jm_wf cks \<Longrightarrow> inbox_wf (db\<lparr>db_checkpoints := cks\<rparr>)"
  by (simp add: inbox_wf_def)

lemma has_agreeing_receipt_cong:
  "db_receipts db' = db_receipts db \<Longrightarrow> db_inbox db' = db_inbox db \<Longrightarrow> has_agreeing_receipt db' e = has_agreeing_receipt db e"
  unfolding has_agreeing_receipt_def receipt_agrees_def by (simp only:)

lemma persist_spec:
  assumes wf: "inbox_wf db" and p: "persistBatch now events db = (Inr cps, db')"
  shows "persisted events db cps db'"
proof -
  let ?db1 = "ensure_all now (map snd (streams_of events)) db"
  have body: "persist_body now events db = Inr (cps, db')"
    using p by (auto simp: persistBatch_def split: sum.splits)
  obtain pending ids db2 db3 where
    pend: "lockAndFilterExistingReceipts (unacked db events) ?db1 = Inr pending" and
    up: "upsertCanonicalInboxRows now (filter (\<lambda>e. \<not> ie_receiptOnly e) pending) ?db1 = (ids, db2)" and
    ins: "insertTransportReceipts pending ids db2 = Inr db3" and
    adv: "advance_checkpoints now (checkpoints_at db events) db3 = (cps, db')"
    using body unfolding persist_body_def persist_lock sum.case prod.case Let_def
    by (auto split: sum.splits prod.splits)
  have wf1: "inbox_wf ?db1" using wf ensure_all_wf by (simp add: inbox_wf_def)
  note r = persist_receipts[OF wf1 pend up ins]
  have ack3: "ack_of db3 s = ack_of db s" for s using r(2) by (simp add: ack_of_def) (simp flip: ack_of_def)
  have at3: "checkpoints_at db events = map (\<lambda>(k, s). (k, cp_at s (ack_of db3 s))) (streams_of events)"
    by (simp add: checkpoints_at_def ack3)
  have there: "\<forall>s \<in> snd ` set (streams_of events). jm_get (db_checkpoints db3) s \<noteq> None"
    using ensure_all_present r(2) by (metis list.set_map)
  from advance_checkpoints_eq[OF streams_of_spec(2) there, of now, folded at3] obtain cks where
    a: "(cps, db') = (map (\<lambda>(k, s). (k, cp_at s (advanced db3 s (ack_of db3 s)))) (streams_of events), db3\<lparr>db_checkpoints := cks\<rparr>)"
    "jm_wf cks" "\<forall>s. ack_of (db3\<lparr>db_checkpoints := cks\<rparr>) s =
      (if s \<in> snd ` set (streams_of events) then advanced db3 s (ack_of db3 s) else ack_of db3 s)"
    "\<forall>s. jm_get cks s = None \<longleftrightarrow> jm_get (db_checkpoints db3) s = None"
    using r(1) unfolding adv inbox_wf_def by blast
  have db': "db' = db3\<lparr>db_checkpoints := cks\<rparr>" using a(1) by simp
  have ack': "ack_of db' s = (if s \<in> stream_of ` set events then advanced db' s (ack_of db s) else ack_of db s)" for s
  proof -
    have "advanced db' s (ack_of db s) = advanced db3 s (ack_of db s)" by (rule advanced_cong) (simp add: db')
    moreover have "ack_of db' s = (if s \<in> stream_of ` set events then advanced db3 s (ack_of db s) else ack_of db s)"
      using a(3)[rule_format, of s] unfolding db'[symmetric] streams_of_spec(3) ack3 .
    ultimately show ?thesis by simp
  qed
  have "cps = checkpoints_at db' events"
  proof -
    have "cp_at s (advanced db3 s (ack_of db3 s)) = cp_at s (ack_of db' s)" if "s \<in> snd ` set (streams_of events)" for s
      using a(3)[rule_format, of s] that unfolding db'[symmetric] by simp
    then show ?thesis using a(1) by (auto simp: checkpoints_at_def case_prod_beta intro!: map_cong)
  qed
  moreover have "\<forall>s \<in> stream_of ` set events. jm_get (db_checkpoints db') s \<noteq> None"
    using a(4) there unfolding streams_of_spec(3) db' by (metis inbox_db.select_convs(5) inbox_db.update_convs(5) inbox_db.surjective)
  moreover have "inbox_wf db'" unfolding db' by (rule inbox_wf_checkpoints[OF r(1) a(2)])
  moreover have "\<exists>e. first_at (transportKey x) (unacked db events) = Some e \<and> env_key e = env_key x \<and> has_agreeing_receipt db' e"
    if "x \<in> set (unacked db events)" for x
    using lockAndFilter_Inr(3)[OF pend that] r(5) has_agreeing_receipt_cong[of db' db3] db' by auto
  ultimately show ?thesis using r(3,4) ack' unfolding persisted_def by (simp add: db')
qed

text \<open>Agreement of the one receipt at a coordinate is all the check asks for.\<close>

lemma lockAndFilter_none_pending:
  assumes wf: "inbox_wf db"
    and ok: "\<forall>x \<in> set es. \<exists>e. first_at (transportKey x) es = Some e \<and> env_key e = env_key x \<and> has_agreeing_receipt db e"
  shows "lockAndFilterExistingReceipts es db = Inr []"
proof -
  have "\<forall>e \<in> set es. case jm_get [] (transportKey e) of Some x \<Rightarrow> env_key x = env_key e
      | None \<Rightarrow> (\<forall>x. first_at (transportKey e) es = Some x \<longrightarrow> env_key x = env_key e)" using ok by auto
  then obtain coords where c: "transport_coordinates es [] = Inr coords" using transport_coordinates_ok by blast
  have get: "jm_get coords k = first_at k es" for k using transport_coordinates_Inr(1)[OF c] by simp
  have wfc: "jm_wf coords" using transport_coordinates_Inr(2)[OF c] by simp
  have entry: "first_at k es = Some e \<and> k = transportKey e \<and> has_agreeing_receipt db e" if "(k, e) \<in> set coords" for k e
  proof -
    have f: "first_at k es = Some e" using that get jm_get_in_set[OF wfc] by simp
    then have "e \<in> set es" "transportKey e = k" using first_at_Some by blast+
    then show ?thesis using ok f by auto
  qed
  have uniq: "r = r'" if "r \<in> set (db_receipts db)" "r' \<in> set (db_receipts db)" "receipt_key r = receipt_key r'" for r r'
    using wf that unfolding inbox_wf_def distinct_map inj_on_def by blast
  have agree: "\<exists>e. jm_get coords (receiptTransportKey r) = Some e \<and> receipt_agrees db r e"
    if r: "r \<in> set (receipts_of_coordinates coords db)" for r
  proof -
    obtain k e where ke: "(k, e) \<in> set coords" "r \<in> set (db_receipts db)" "receipt_key r = env_coord e"
      using r by (auto simp: receipts_of_coordinates_def jm_values_def receipt_key_def env_coord_def stream_of_def)
    obtain r' where r': "r' \<in> set (db_receipts db)" "receipt_key r' = env_coord e" "receipt_agrees db r' e"
      using entry[OF ke(1)] by (auto simp: has_agreeing_receipt_def)
    have "r' = r" using uniq r' ke by simp
    then show ?thesis using r'(3) entry[OF ke(1)] ke(3) get receipt_key_coord by auto
  qed
  have "k \<in> receiptTransportKey ` set (receipts_of_coordinates coords db)" if ke: "(k, e) \<in> set coords" for k e
  proof -
    obtain r where r: "r \<in> set (db_receipts db)" "receipt_key r = env_coord e"
      using entry[OF ke] by (auto simp: has_agreeing_receipt_def)
    have "r \<in> set (receipts_of_coordinates coords db)"
      using r ke by (force simp: receipts_of_coordinates_def jm_values_def receipt_key_def env_coord_def stream_of_def)
    then show ?thesis using r(2) entry[OF ke] receipt_key_coord by (metis imageI)
  qed
  then have "filter (\<lambda>(k, _). k \<notin> receiptTransportKey ` set (receipts_of_coordinates coords db)) coords = []"
    by (auto simp: filter_empty_conv)
  moreover have "\<not> (\<exists>r \<in> set (receipts_of_coordinates coords db).
      case jm_get coords (receiptTransportKey r) of None \<Rightarrow> True | Some e \<Rightarrow> \<not> receipt_agrees db r e)"
    using agree by (metis option.simps(5))
  ultimately show ?thesis by (simp add: lockAndFilterExistingReceipts_def c Let_def)
qed

lemma persist_nothing_new:
  assumes wf: "inbox_wf db" and present: "\<forall>s \<in> stream_of ` set events. jm_get (db_checkpoints db) s \<noteq> None"
    and settled: "\<forall>s \<in> stream_of ` set events. advanced db s (ack_of db s) = ack_of db s"
    and ok: "lockAndFilterExistingReceipts (unacked db events) db = Inr []"
  shows "persistBatch now events db = (Inr (checkpoints_at db events), db)"
proof -
  have same: "ensure_all now (map snd (streams_of events)) db = db"
    using present streams_of_spec(3)[of events] by (intro ensure_all_same) auto
  have p: "\<forall>s \<in> snd ` set (streams_of events). jm_get (db_checkpoints db) s \<noteq> None"
    using present unfolding streams_of_spec(3) .
  have wfc: "jm_wf (db_checkpoints db)" using wf by (simp add: inbox_wf_def)
  obtain cks where cks: "advance_checkpoints now (checkpoints_at db events) db =
      (map (\<lambda>(k, s). (k, cp_at s (advanced db s (ack_of db s)))) (streams_of events), db\<lparr>db_checkpoints := cks\<rparr>)"
      "cks = db_checkpoints db"
    using advance_checkpoints_eq[OF streams_of_spec(2) p wfc, of now, folded checkpoints_at_def] settled
    unfolding streams_of_spec(3) by blast
  have "map (\<lambda>(k, s). (k, cp_at s (advanced db s (ack_of db s)))) (streams_of events) = checkpoints_at db events"
  proof -
    have "advanced db (snd x) (ack_of db (snd x)) = ack_of db (snd x)" if "x \<in> set (streams_of events)" for x
      using settled streams_of_spec(3)[of events] that by (metis imageI)
    then show ?thesis unfolding checkpoints_at_def by (simp add: case_prod_beta)
  qed
  then have "advance_checkpoints now (checkpoints_at db events) db = (checkpoints_at db events, db)" using cks by simp
  then show ?thesis
    unfolding persistBatch_def persist_body_def persist_lock same
    by (simp add: persist_lock(2) ok upsertCanonicalInboxRows_def unique_canonical_def insertTransportReceipts_def)
qed

lemma persisted_representative:
  assumes "persisted events db cps db'" and "e \<in> set events" and "ack_of db (stream_of e) < ie_seq e"
  shows "has_receipt (stream_of e) db' (ie_seq e)"
    and "\<exists>x \<in> set events. env_coord x = env_coord e
      \<and> (\<not> ie_receiptOnly x \<longrightarrow> (\<exists>row \<in> set (db_inbox db'). row_key row = env_key e))"
proof -
  have "e \<in> set (unacked db events)" using assms(2,3) by (simp add: unacked_def)
  then obtain x where x: "first_at (transportKey e) (unacked db events) = Some x" "env_key x = env_key e"
      "has_agreeing_receipt db' x" using persistedD(7)[OF assms(1)] by blast
  have x': "x \<in> set events" "env_coord x = env_coord e"
    using first_at_Some[OF x(1)] by (simp_all add: unacked_def transportKey_env)
  obtain r where r: "r \<in> set (db_receipts db')" "receipt_key r = env_coord x" "receipt_agrees db' r x"
    using x(3) by (auto simp: has_agreeing_receipt_def)
  show "has_receipt (stream_of e) db' (ie_seq e)"
    unfolding has_receipt_key using r(1,2) x'(2) by (metis env_coord_def imageI)
  have "\<exists>row \<in> set (db_inbox db'). row_key row = env_key e" if "\<not> ie_receiptOnly x"
    using r(3) that x(2) by (auto simp: receipt_agrees_def row_by_id_def find_Some_iff split: option.splits)
  then show "\<exists>x \<in> set events. env_coord x = env_coord e
      \<and> (\<not> ie_receiptOnly x \<longrightarrow> (\<exists>row \<in> set (db_inbox db'). row_key row = env_key e))" using x' by blast
qed

section \<open>Properties\<close>

definition inbox_event :: "int \<Rightarrow> string \<Rightarrow> IngressEnvelope" where
  "inbox_event seq key =
     \<lparr>ie_ref = 0, ie_userId = Some 7, ie_daemonId = ''d1'', ie_registrationId = ''r1'', ie_daemonGeneration = 1,
      ie_seq = seq, ie_dedupKey = key, ie_sessionId = None, ie_eventType = ''agent_text'', ie_priority = Live,
      ie_receiptOnly = False, ie_payload = [(''seq'', JNum seq)], ie_materializationContext = [], ie_receivedAt = 0\<rparr>"

definition inbox_batch :: "IngressEnvelope list" where
  "inbox_batch = [inbox_event 1 ''a'', inbox_event 2 ''b'', inbox_event 4 ''c'']"

definition inbox_after :: inbox_db where
  "inbox_after = snd (persistBatch 10 inbox_batch empty_inbox_db)"

lemma inbox_batch_persists:
  "\<exists>cps. persistBatch 10 inbox_batch empty_inbox_db = (Inr cps, inbox_after)"
proof -
  have "\<not> isl (fst (persistBatch 10 inbox_batch empty_inbox_db))" by code_simp
  then show ?thesis unfolding inbox_after_def by (metis prod.collapse isl_def sum.exhaust)
qed



text \<open>
  C3. Replaying a persisted batch is free. A daemon that did not see its acknowledgement sends
  the batch again: the second call returns the same watermarks and leaves every table exactly as
  the first one did.
\<close>

theorem persist_replay_is_idempotent:
  assumes "inbox_wf db" and "persistBatch now events db = (Inr cps, db')"
  shows "persistBatch later events db' = (Inr cps, db')"
proof -
  note p = persistedD[OF persist_spec[OF assms]]
  have wf': "inbox_wf db'" by (rule p(1))
  have settled: "advanced db' s (ack_of db' s) = ack_of db' s" if "s \<in> stream_of ` set events" for s
  proof -
    have "ack_of db' s = advanced db' s (ack_of db s)" using p(5)[of s] that by simp
    then show ?thesis using advanced_spec(3)[of s db' "ack_of db s"] by (intro advanced_unique) auto
  qed
  have mono: "ack_of db s \<le> ack_of db' s" for s
    using p(5)[of s] advanced_spec(1)[of "ack_of db s" db' s] by simp
  have "x \<in> set (unacked db' events) \<Longrightarrow> x \<in> set (unacked db events)" for x
    using mono[of "stream_of x"] by (auto simp: unacked_def)
  moreover have "first_at (transportKey x) (unacked db' events) = first_at (transportKey x) (unacked db events)"
    if "x \<in> set (unacked db' events)" for x
  proof -
    have "ie_seq x > ack_of db' (stream_of x)" using that by (simp add: unacked_def)
    then show ?thesis
      using mono[of "stream_of x"] unfolding unacked_def
      by (subst (1 2) first_at_filter) (auto simp: transportKey_inj)
  qed
  ultimately have "lockAndFilterExistingReceipts (unacked db' events) db' = Inr []"
    using p(7) by (intro lockAndFilter_none_pending[OF wf']) simp
  then show ?thesis using persist_nothing_new[OF wf' p(6)] p(2) settled by simp
qed

theorem persist_replay_is_idempotent_witness:
  "persistBatch 99 inbox_batch inbox_after = (fst (persistBatch 10 inbox_batch empty_inbox_db), inbox_after)"
proof -
  obtain cps where p: "persistBatch 10 inbox_batch empty_inbox_db = (Inr cps, inbox_after)"
    using inbox_batch_persists ..
  show ?thesis using persist_replay_is_idempotent[OF inbox_wf_empty p, of 99] p by simp
qed

lemma transport_coordinates_Inl: "transport_coordinates es m = Inl err \<Longrightarrow> err = TransportMismatch"
  by (induction es m rule: transport_coordinates.induct) (auto simp: Let_def split: option.splits if_splits)

lemma lockAndFilter_Inl:
  assumes "lockAndFilterExistingReceipts es db = Inl err"
  shows "err = TransportMismatch \<and> (\<exists>x \<in> set es. (\<exists>y \<in> set es. env_coord y = env_coord x \<and> env_key y \<noteq> env_key x)
    \<or> (\<exists>r \<in> set (db_receipts db). receipt_key r = env_coord x \<and> \<not> receipt_agrees db r x))"
proof (cases "transport_coordinates es []")
  case (Inl e)
  then have "\<not> (\<forall>e \<in> set es. \<forall>x. first_at (transportKey e) es = Some x \<longrightarrow> env_key x = env_key e)"
    using transport_coordinates_ok[of es "[]"] by auto
  then obtain x y where "x \<in> set es" "first_at (transportKey x) es = Some y" "env_key y \<noteq> env_key x" by blast
  moreover from this have "y \<in> set es" "env_coord y = env_coord x"
    using first_at_Some by (blast, simp add: transportKey_env[symmetric] first_at_Some)
  moreover have "err = TransportMismatch"
    using assms Inl transport_coordinates_Inl[OF Inl] by (simp add: lockAndFilterExistingReceipts_def)
  ultimately show ?thesis by blast
next
  case (Inr coords)
  have get: "jm_get coords k = first_at k es" for k using transport_coordinates_Inr(1)[OF Inr] by simp
  have wfc: "jm_wf coords" using transport_coordinates_Inr(2)[OF Inr] by simp
  obtain r where r: "r \<in> set (receipts_of_coordinates coords db)"
      "case jm_get coords (receiptTransportKey r) of None \<Rightarrow> True | Some e \<Rightarrow> \<not> receipt_agrees db r e"
      and err: "err = TransportMismatch"
    using assms Inr by (auto simp: lockAndFilterExistingReceipts_def Let_def split: if_splits)
  obtain k e where e: "(k, e) \<in> set coords" "r \<in> set (db_receipts db)" "receipt_key r = env_coord e"
    using r(1) by (auto simp: receipts_of_coordinates_def jm_values_def receipt_key_def env_coord_def stream_of_def)
  then have f: "first_at k es = Some e" using get jm_get_in_set[OF wfc] by simp
  then have "e \<in> set es" "k = transportKey e" using first_at_Some by blast+
  moreover have "\<not> receipt_agrees db r e"
    using r(2) f e(3) calculation(2) unfolding get by (simp add: receipt_key_coord)
  ultimately show ?thesis using e err by blast
qed



end
