(* ===== verification/Inbox_Claims.thy ===== *)
theory Inbox_Claims
  imports Inbox_Durability
begin

text \<open>
  Claims on the inbox: which rows a worker gets, and the fence that lets only the current holder
  of a claim write its outcome. The fence is the pair of worker and attempt count; the history of
  a row is read off a clock that no operation turns back.
\<close>

section \<open>Updates of single rows\<close>

lemma update_where_fields [simp]:
  "db_receipts (update_where P f db) = db_receipts db" "db_next_inbox (update_where P f db) = db_next_inbox db"
  "db_checkpoints (update_where P f db) = db_checkpoints db"
  by (simp_all add: update_where_def)

definition keeps_identity :: "(InboxRow \<Rightarrow> InboxRow) \<Rightarrow> bool" where
  "keeps_identity f \<longleftrightarrow> (\<forall>r. ir_inboxId (f r) = ir_inboxId r \<and> ir_userId (f r) = ir_userId r
     \<and> ir_dedupKey (f r) = ir_dedupKey r)"

lemma update_where_maps:
  assumes "keeps_identity f"
  shows "map ir_inboxId (db_inbox (update_where P f db)) = map ir_inboxId (db_inbox db)"
    and "map row_key (db_inbox (update_where P f db)) = map row_key (db_inbox db)"
  using assms by (simp_all add: update_where_def row_key_def keeps_identity_def)

lemma update_where_wf:
  assumes "keeps_identity f" and "inbox_wf db" shows "inbox_wf (update_where P f db)"
proof -
  note m = update_where_maps[OF assms(1), of P db]
  have "ir_inboxId ` set (db_inbox (update_where P f db)) = ir_inboxId ` set (db_inbox db)"
    using arg_cong[OF m(1), of set] by simp
  moreover from this have "\<forall>r \<in> set (db_inbox (update_where P f db)). ir_inboxId r < db_next_inbox db"
    using assms(2) unfolding inbox_wf_def rows_wf_def by (metis (no_types, lifting) imageE imageI)
  ultimately show ?thesis using assms(2) m by (simp add: inbox_wf_def rows_wf_def)
qed

lemma update_where_none: "\<forall>r \<in> set (db_inbox db). \<not> P r \<Longrightarrow> update_where P f db = db"
  by (simp add: update_where_def map_idI)

lemma row_by_id_update:
  assumes "keeps_identity f"
  shows "row_by_id i (db_inbox (update_where P f db)) = map_option (\<lambda>r. if P r then f r else r) (row_by_id i (db_inbox db))"
proof -
  have "find (\<lambda>r. ir_inboxId r = i) (map (\<lambda>r. if P r then f r else r) rows) =
      map_option (\<lambda>r. if P r then f r else r) (find (\<lambda>r. ir_inboxId r = i) rows)" for rows
    using assms by (induction rows) (auto simp: keeps_identity_def)
  then show ?thesis by (simp add: update_where_def row_by_id_def)
qed

section \<open>The fence\<close>

definition owns :: "inbox_db \<Rightarrow> int \<Rightarrow> string \<Rightarrow> int \<Rightarrow> bool" where
  "owns db i worker attempts \<longleftrightarrow> (\<exists>r. row_by_id i (db_inbox db) = Some r \<and> holds_claim i worker attempts r)"

lemma holders:
  assumes "inbox_wf db"
  shows "length (filter (holds_claim i w a) (db_inbox db)) = (if owns db i w a then 1 else 0)"
proof -
  have d: "distinct (map ir_inboxId (db_inbox db))" using assms by (simp add: inbox_wf_def rows_wf_def)
  have "distinct (map ir_inboxId (filter (holds_claim i w a) (db_inbox db)))" using d by (rule distinct_map_filter)
  moreover have "set (map ir_inboxId (filter (holds_claim i w a) (db_inbox db))) \<subseteq> {i}" by (auto simp: holds_claim_def)
  ultimately have le: "length (filter (holds_claim i w a) (db_inbox db)) \<le> 1"
    by (metis card_mono distinct_card finite.emptyI finite.insertI is_singletonI is_singleton_altdef length_map)
  have "filter (holds_claim i w a) (db_inbox db) \<noteq> [] \<longleftrightarrow> owns db i w a"
    using row_by_id_Some[OF d] by (auto simp: owns_def filter_empty_conv holds_claim_def)
  then show ?thesis using le by (cases "filter (holds_claim i w a) (db_inbox db)") (auto split: if_splits)
qed

lemma not_owned_unchanged:
  assumes "inbox_wf db" and "\<not> owns db i w a"
  shows "update_where (holds_claim i w a) f db = db"
  using holders[OF assms(1), of i w a] assms(2) by (intro update_where_none) (auto simp: filter_empty_conv)

lemma fenced_update_cases:
  assumes "inbox_wf db"
  shows "fenced_update i w a f db =
    (if owns db i w a then (Inr (), update_where (holds_claim i w a) f db) else (Inl (LostClaim i), db))"
  using holders[OF assms, of i w a] not_owned_unchanged[OF assms, of i w a f] by (simp add: fenced_update_def)

text \<open>The three outcomes a worker writes are fenced updates that end the claim.\<close>

definition ends_claim :: "(InboxRow \<Rightarrow> InboxRow) \<Rightarrow> int \<Rightarrow> bool" where
  "ends_claim f a \<longleftrightarrow> keeps_identity f \<and> (\<forall>r. ir_status (f r) \<noteq> 1)
     \<and> (\<forall>r. ir_attempts r = a \<longrightarrow> ir_attempts (f r) = a)"

definition is_outcome :: "int \<Rightarrow> string \<Rightarrow> int \<Rightarrow> (inbox_db \<Rightarrow> (inbox_error + unit) \<times> inbox_db) \<Rightarrow> bool" where
  "is_outcome i w a g \<longleftrightarrow> (\<exists>f. g = fenced_update i w a f \<and> ends_claim f a)"

lemma outcomes:
  "is_outcome i w a (complete now i eventId w a)"
  "is_outcome i w a (reschedule i a availableAt err w)"
  "is_outcome i w a (deadLetter now i a err w)"
proof -
  show "is_outcome i w a (complete now i eventId w a)"
    unfolding is_outcome_def complete_def
    by (rule exI, rule conjI, rule refl) (simp add: ends_claim_def keeps_identity_def)
  show "is_outcome i w a (reschedule i a availableAt err w)"
    unfolding is_outcome_def reschedule_def
    by (rule exI, rule conjI, rule refl) (simp add: ends_claim_def keeps_identity_def)
  show "is_outcome i w a (deadLetter now i a err w)"
    unfolding is_outcome_def deadLetter_def
    by (rule exI, rule conjI, rule refl) (simp add: ends_claim_def keeps_identity_def)
qed

section \<open>Steps\<close>

text \<open>Every call on the repository, at any time and by any worker.\<close>

inductive inbox_step :: "inbox_db \<Rightarrow> inbox_db \<Rightarrow> bool" where
  persist_step: "persistBatch now events db = (r, db') \<Longrightarrow> inbox_step db db'"
| seed_step: "seedCheckpoint now d g n db = (c, db') \<Longrightarrow> inbox_step db db'"
| claim_step: "claimBatch hashtext locked now opts db = (rs, db') \<Longrightarrow> inbox_step db db'"
| outcome_step: "is_outcome i w a g \<Longrightarrow> g db = (u, db') \<Longrightarrow> inbox_step db db'"
| renew_step: "renewClaims now claims w db = (ids, db') \<Longrightarrow> inbox_step db db'"
| reset_step: "resetStaleClaims locked now leaseMs limit db = (n, db') \<Longrightarrow> inbox_step db db'"

definition attempts_ok :: "inbox_db \<Rightarrow> bool" where
  "attempts_ok db \<longleftrightarrow> (\<forall>r \<in> set (db_inbox db). 0 \<le> ir_attempts r \<and> (ir_status r = 1 \<longrightarrow> 0 < ir_attempts r))"

definition inbox_inv :: "inbox_db \<Rightarrow> bool" where
  "inbox_inv db \<longleftrightarrow> inbox_wf db \<and> attempts_ok db"

text \<open>Rows a step may rewrite, and how: the common shape of all steps but the insertion of rows.\<close>

definition row_move :: "InboxRow \<Rightarrow> InboxRow \<Rightarrow> bool" where
  "row_move r r' \<longleftrightarrow> r' = r \<or>
     (ir_inboxId r' = ir_inboxId r \<and>
       (ir_status r = 0 \<and> ir_status r' = 1 \<and> ir_attempts r' = ir_attempts r + 1
        \<or> ir_status r = 1 \<and> ir_attempts r' = ir_attempts r))"

definition rows_move :: "inbox_db \<Rightarrow> inbox_db \<Rightarrow> bool" where
  "rows_move db db' \<longleftrightarrow> (\<exists>rows new. db_inbox db' = rows @ new \<and> list_all2 row_move (db_inbox db) rows
     \<and> (\<forall>r \<in> set new. ir_status r = 0 \<and> ir_attempts r = 0))"

lemma rows_move_refl: "db_inbox db' = db_inbox db \<Longrightarrow> rows_move db db'"
  unfolding rows_move_def
  by (intro exI[of _ "db_inbox db"] exI[of _ "[]"]) (simp add: list.rel_refl_strong row_move_def)

lemma rows_move_update:
  assumes "\<forall>r \<in> set (db_inbox db). P r \<longrightarrow> row_move r (f r)"
  shows "rows_move db (update_where P f db)"
proof -
  have "list_all2 row_move (db_inbox db) (map (\<lambda>r. if P r then f r else r) (db_inbox db))"
    using assms by (auto simp: list_all2_conv_all_nth row_move_def)
  then show ?thesis
    unfolding rows_move_def update_where_def
    by (intro exI[of _ "map (\<lambda>r. if P r then f r else r) (db_inbox db)"] exI[of _ "[]"]) simp
qed

lemma persist_cases:
  assumes "inbox_wf db" and "persistBatch now events db = (r, db')"
  shows "db' = db \<or> (\<exists>cps. persisted events db cps db')"
proof (cases r)
  case (Inl err)
  then show ?thesis using assms(2) by (auto simp: persistBatch_def split: sum.splits)
next
  case (Inr cps)
  then show ?thesis using persist_spec[OF assms(1)] assms(2) by blast
qed

lemma claimBatch_cases:
  assumes "claimBatch hashtext locked now opts db = (rs, db')"
  obtains "db' = db" "rs = Inr []" | "db' = db" "rs = Inl InvalidShard"
  | P where "P = (\<lambda>r. ir_inboxId r \<in> set (map ir_inboxId (claim_candidates hashtext locked now opts db)) \<and> ir_status r = 0)"
      "db' = update_where P (mark_claimed now (cb_workerId opts)) db"
      "rs = Inr (sort_key claim_order (map (mark_claimed now (cb_workerId opts)) (filter P (db_inbox db))))"
  using assms by (auto simp: claimBatch_def Let_def split: if_splits)

lemma keeps_identity_claim: "keeps_identity (mark_claimed now w)"
  by (simp add: keeps_identity_def mark_claimed_def)

lemma inbox_step_effect:
  assumes wf: "inbox_wf db" and "inbox_step db db'"
  shows "inbox_wf db' \<and> rows_move db db'"
  using assms(2)
proof (cases rule: inbox_step.cases)
  case (persist_step now events r)
  from persist_cases[OF wf persist_step] consider "db' = db" | cps where "persisted events db cps db'" by blast
  then show ?thesis
  proof cases
    case (2 cps)
    obtain new where "db_inbox db' = db_inbox db @ new" "\<forall>r \<in> set new. ir_status r = 0 \<and> ir_attempts r = 0"
      using persistedD(3)[OF 2] by blast
    then have "rows_move db db'"
      unfolding rows_move_def by (intro exI[of _ "db_inbox db"] exI[of _ new]) (simp add: list.rel_refl_strong row_move_def)
    then show ?thesis using persistedD(1)[OF 2] by simp
  qed (use wf in \<open>auto intro: rows_move_refl\<close>)
next
  case (seed_step now d g n c)
  then show ?thesis using wf by (auto simp: seedCheckpoint_def Let_def inbox_wf_def intro: rows_move_refl)
next
  case (claim_step hashtext locked now opts rs)
  then show ?thesis
  proof (cases rule: claimBatch_cases[case_names none shard claimed])
    case 3: (claimed P)
    have "rows_move db db'" unfolding 3(2) by (rule rows_move_update) (simp add: 3(1) row_move_def mark_claimed_def)
    then show ?thesis using update_where_wf[OF keeps_identity_claim wf] 3(2) by simp
  qed (use wf in \<open>auto intro: rows_move_refl\<close>)
next
  case (outcome_step i w a g u)
  then obtain f where f: "g = fenced_update i w a f" "ends_claim f a" by (auto simp: is_outcome_def)
  have "rows_move db (update_where (holds_claim i w a) f db)"
    using f(2) by (intro rows_move_update) (auto simp: holds_claim_def row_move_def ends_claim_def keeps_identity_def)
  moreover have "inbox_wf (update_where (holds_claim i w a) f db)"
    using f(2) wf by (intro update_where_wf) (simp_all add: ends_claim_def)
  ultimately show ?thesis
    using outcome_step(2) fenced_update_cases[OF wf, of i w a f] wf f(1) by (auto intro: rows_move_refl split: if_splits)
next
  case (renew_step now claims w ids)
  have k: "keeps_identity (\<lambda>r. r\<lparr>ir_claimedAt := Some now\<rparr>)" by (simp add: keeps_identity_def)
  show ?thesis
    using renew_step update_where_wf[OF k wf] wf
    by (auto simp: renewClaims_def Let_def row_move_def holds_claim_def split: if_splits
        intro: rows_move_refl intro!: rows_move_update)
next
  case (reset_step locked now leaseMs limit n)
  let ?f = "\<lambda>r. r\<lparr>ir_status := 0, ir_availableAt := now, ir_claimedAt := None, ir_claimedBy := None, ir_completedAt := None\<rparr>"
  let ?S = "take (nat (max 1 limit)) (sort_key (\<lambda>r. (case ir_claimedAt r of None \<Rightarrow> 0 | Some t \<Rightarrow> t, ir_inboxId r))
      (filter (\<lambda>r. is_stale now leaseMs r \<and> \<not> locked (ir_inboxId r)) (db_inbox db)))"
  let ?P = "\<lambda>r. ir_inboxId r \<in> set (map ir_inboxId ?S)"
  have db': "db' = update_where ?P ?f db" using reset_step by (simp add: resetStaleClaims_def Let_def)
  have stale: "ir_status r = 1" if r: "r \<in> set (db_inbox db)" "?P r" for r
  proof -
    obtain x where x: "x \<in> set ?S" "ir_inboxId x = ir_inboxId r" using r(2) by auto
    then have "x \<in> set (db_inbox db)" "is_stale now leaseMs x" using set_take_subset[of _ "sort_key _ _"] by fastforce+
    moreover from this have "x = r"
      using wf x(2) r(1) unfolding inbox_wf_def rows_wf_def distinct_map inj_on_def by blast
    ultimately show ?thesis by (simp add: is_stale_def)
  qed
  have "rows_move db db'" unfolding db' by (rule rows_move_update) (use stale in \<open>simp add: row_move_def\<close>)
  moreover have "inbox_wf db'" unfolding db' by (rule update_where_wf[OF _ wf]) (simp add: keeps_identity_def)
  ultimately show ?thesis by simp
qed

lemma row_move_id: "row_move r r' \<Longrightarrow> ir_inboxId r' = ir_inboxId r"
  by (auto simp: row_move_def)

lemma rows_move_by_id:
  assumes "rows_move db db'" and "inbox_wf db'" and "row_by_id i (db_inbox db) = Some r"
  shows "\<exists>r'. row_by_id i (db_inbox db') = Some r' \<and> row_move r r'"
proof -
  obtain rows new where m: "db_inbox db' = rows @ new" "list_all2 row_move (db_inbox db) rows"
    using assms(1) by (auto simp: rows_move_def)
  have r: "r \<in> set (db_inbox db)" "ir_inboxId r = i" using assms(3) by (auto simp: row_by_id_def find_Some_iff)
  obtain r' where r': "r' \<in> set rows" "row_move r r'" using list_all2_left[OF m(2) r(1)] by blast
  have "row_by_id i (db_inbox db') = Some r'"
    using assms(2) r' m(1) row_move_id[OF r'(2)] r(2) by (simp add: inbox_wf_def rows_wf_def row_by_id_Some)
  then show ?thesis using r'(2) by blast
qed

interpretation inbox: transition_system "\<lambda>db. db = empty_inbox_db" inbox_step inbox_inv
proof
  show "inbox_inv db" if "db = empty_inbox_db" for db
    using that inbox_wf_empty by (simp add: inbox_inv_def attempts_ok_def) (simp add: empty_inbox_db_def)
  fix db db' assume inv: "inbox_inv db" and step: "inbox_step db db'"
  have e: "inbox_wf db'" "rows_move db db'" using inbox_step_effect[OF _ step] inv by (simp_all add: inbox_inv_def)
  obtain rows new where m: "db_inbox db' = rows @ new" "list_all2 row_move (db_inbox db) rows"
      "\<forall>r \<in> set new. ir_status r = 0 \<and> ir_attempts r = 0"
    using e(2) by (auto simp: rows_move_def)
  have "0 \<le> ir_attempts r' \<and> (ir_status r' = 1 \<longrightarrow> 0 < ir_attempts r')" if r': "r' \<in> set rows" for r'
  proof -
    obtain r where r: "r \<in> set (db_inbox db)" "row_move r r'" using list_all2_right[OF m(2) r'] by blast
    have "0 \<le> ir_attempts r" "ir_status r = 1 \<longrightarrow> 0 < ir_attempts r"
      using inv r(1) by (simp_all add: inbox_inv_def attempts_ok_def)
    then show ?thesis using r(2) by (auto simp: row_move_def)
  qed
  then show "inbox_inv db'" using e(1) m(1,3) by (auto simp: inbox_inv_def attempts_ok_def)
qed

section \<open>The clock of a row\<close>

definition row_clock :: "InboxRow \<Rightarrow> int" where
  "row_clock r = 2 * ir_attempts r + (if ir_status r = 1 then 0 else 1)"

definition clock :: "int \<Rightarrow> inbox_db \<Rightarrow> int" where
  "clock i db = (case row_by_id i (db_inbox db) of None \<Rightarrow> 0 | Some r \<Rightarrow> row_clock r)"

lemma row_move_clock: "row_move r r' \<Longrightarrow> row_clock r \<le> row_clock r'"
  by (auto simp: row_move_def row_clock_def)

lemma clock_nonneg: "inbox_inv db \<Longrightarrow> 0 \<le> clock i db"
  by (auto simp: clock_def row_clock_def row_by_id_def find_Some_iff inbox_inv_def attempts_ok_def
      split: option.splits if_splits)

lemma clock_step: "inbox_inv db \<Longrightarrow> inbox_step db db' \<Longrightarrow> clock i db \<le> clock i db'"
proof (cases "row_by_id i (db_inbox db)")
  case None
  assume "inbox_inv db" "inbox_step db db'"
  then show ?thesis using None clock_nonneg[OF inbox.inv_step] by (simp add: clock_def[of i db])
next
  case (Some r)
  assume "inbox_inv db" "inbox_step db db'"
  then have "inbox_wf db'" "rows_move db db'" using inbox_step_effect[of db db'] by (simp_all add: inbox_inv_def)
  from rows_move_by_id[OF this(2,1) Some] show ?thesis using Some row_move_clock by (auto simp: clock_def)
qed

lemma clock_steps: "inbox_step\<^sup>*\<^sup>* db db' \<Longrightarrow> inbox_inv db \<Longrightarrow> clock i db \<le> clock i db'"
  by (rule inbox.monotone_steps[where m = "clock i"]) (rule clock_step)

lemma owns_clock: "owns db i w a \<Longrightarrow> clock i db = 2 * a"
  by (auto simp: owns_def clock_def row_clock_def holds_claim_def)

lemma outcome_effect:
  assumes inv: "inbox_inv db" and g: "is_outcome i w a g"
  shows "owns db i w a \<Longrightarrow> \<exists>db'. g db = (Inr (), db') \<and> inbox_inv db' \<and> clock i db' = 2 * a + 1"
    and "\<not> owns db i w a \<Longrightarrow> g db = (Inl (LostClaim i), db)"
proof -
  obtain f where f: "g = fenced_update i w a f" "ends_claim f a" using g by (auto simp: is_outcome_def)
  have wf: "inbox_wf db" using inv by (simp add: inbox_inv_def)
  note c = fenced_update_cases[OF wf, of i w a f]
  show "\<not> owns db i w a \<Longrightarrow> g db = (Inl (LostClaim i), db)" using c f(1) by simp
  assume o: "owns db i w a"
  then obtain r where r: "row_by_id i (db_inbox db) = Some r" "holds_claim i w a r" by (auto simp: owns_def)
  let ?db = "update_where (holds_claim i w a) f db"
  have s: "inbox_step db ?db" by (rule outcome_step[OF g]) (use c f(1) o in simp)
  have "row_by_id i (db_inbox ?db) = Some (f r)"
    using row_by_id_update[of f] f(2) r by (simp add: ends_claim_def)
  then have "clock i ?db = 2 * a + 1"
    using r(2) f(2) by (auto simp: clock_def row_clock_def ends_claim_def holds_claim_def)
  then show "\<exists>db'. g db = (Inr (), db') \<and> inbox_inv db' \<and> clock i db' = 2 * a + 1"
    using c o f(1) inbox.inv_step[OF inv s] by simp
qed

section \<open>Properties\<close>

text \<open>
  C7. The claim fence is single use. A worker that holds a claim can write its outcome, once:
  from then on, in every state the repository can reach, whatever workers claim, renew, recover
  or finish, any worker that presents the same attempt of the same row is told that the claim is
  lost, and its call changes nothing.
\<close>

theorem claim_fence_is_single_use:
  assumes "inbox_inv db" and "owns db i w a" and "is_outcome i w a g"
  shows "\<exists>db1. g db = (Inr (), db1)
    \<and> (\<forall>db2 w' g'. inbox_step\<^sup>*\<^sup>* db1 db2 \<and> is_outcome i w' a g' \<longrightarrow> g' db2 = (Inl (LostClaim i), db2))"
proof -
  obtain db1 where db1: "g db = (Inr (), db1)" "inbox_inv db1" "clock i db1 = 2 * a + 1"
    using outcome_effect(1)[OF assms(1,3,2)] by blast
  have "g' db2 = (Inl (LostClaim i), db2)" if s: "inbox_step\<^sup>*\<^sup>* db1 db2" and g': "is_outcome i w' a g'" for db2 w' g'
  proof (rule outcome_effect(2)[OF inbox.inv_steps[OF s db1(2)] g'])
    show "\<not> owns db2 i w' a" using clock_steps[OF s db1(2), of i] db1(3) owns_clock by fastforce
  qed
  then show ?thesis using db1(1) by blast
qed

definition claim_opts :: ClaimBatchOptions where
  "claim_opts = \<lparr>cb_workerId = ''w1'', cb_limit = 10, cb_shardCount = 1, cb_shardIndex = 0\<rparr>"

definition inbox_claimed :: inbox_db where
  "inbox_claimed = snd (claimBatch (\<lambda>_. 0) (\<lambda>_. False) 20 claim_opts inbox_after)"

lemma inbox_after_inv: "inbox_inv inbox_after"
proof -
  obtain cps where "persistBatch 10 inbox_batch empty_inbox_db = (Inr cps, inbox_after)"
    using inbox_batch_persists ..
  then have "inbox_step empty_inbox_db inbox_after" by (rule persist_step)
  then show ?thesis using inbox.inv_reachable by blast
qed

lemma inbox_claimed_inv: "inbox_inv inbox_claimed"
proof (rule inbox.inv_step[OF inbox_after_inv])
  show "inbox_step inbox_after inbox_claimed"
    unfolding inbox_claimed_def by (rule claim_step) (rule surjective_pairing)
qed

lemma inbox_claimed_owned: "owns inbox_claimed 1 ''w1'' 1"
proof -
  have "row_by_id 1 (db_inbox inbox_claimed) \<noteq> None \<and> holds_claim 1 ''w1'' 1 (the (row_by_id 1 (db_inbox inbox_claimed)))"
    by code_simp
  then show ?thesis by (auto simp: owns_def)
qed

theorem claim_fence_is_single_use_witness:
  "\<exists>db1. complete 30 1 (Some 5) ''w1'' 1 inbox_claimed = (Inr (), db1)
    \<and> deadLetter 31 1 1 ''materialization_failed'' ''w2'' db1 = (Inl (LostClaim 1), db1)"
  using claim_fence_is_single_use[OF inbox_claimed_inv inbox_claimed_owned outcomes(1), of 30 "Some 5"]
    outcomes(3)[of 1 "''w2''" 1 31 "''materialization_failed''"]
  by (meson rtranclp.rtrancl_refl)

text \<open>
  C9. A resolved event is final: once a row is completed or dead-lettered, every state the
  repository can reach has the row with every field as it was; no worker gets it again.
\<close>

theorem resolved_rows_are_final:
  assumes "inbox_inv db" and "row_by_id i (db_inbox db) = Some r" and "ir_status r \<in> {2, 3}" and "inbox_step\<^sup>*\<^sup>* db db'"
  shows "row_by_id i (db_inbox db') = Some r"
  using assms(4,1,2)
proof (induction rule: rtranclp_induct)
  case (step db1 db2)
  have "inbox_inv db1" using inbox.inv_steps[OF step(1) assms(1)] .
  then have "inbox_wf db2" "rows_move db1 db2" using inbox_step_effect[OF _ step(2)] by (simp_all add: inbox_inv_def)
  from rows_move_by_id[OF this(2,1) step(3)[OF assms(1,2)]] show ?case using assms(3) by (auto simp: row_move_def)
qed simp

theorem resolved_rows_are_final_witness:
  "\<exists>db1 r. complete 30 1 (Some 5) ''w1'' 1 inbox_claimed = (Inr (), db1) \<and> row_by_id 1 (db_inbox db1) = Some r
    \<and> row_by_id 1 (db_inbox (snd (resetStaleClaims (\<lambda>_. False) 1000000 1 10 db1))) = Some r"
proof -
  let ?db1 = "snd (complete 30 1 (Some 5) ''w1'' 1 inbox_claimed)"
  obtain db1 where c: "complete 30 1 (Some 5) ''w1'' 1 inbox_claimed = (Inr (), db1)" "inbox_inv db1"
    using outcome_effect(1)[OF inbox_claimed_inv outcomes(1) inbox_claimed_owned] by blast
  have "map_option ir_status (row_by_id 1 (db_inbox ?db1)) = Some 2" by code_simp
  then obtain r where r: "row_by_id 1 (db_inbox db1) = Some r" "ir_status r = 2" using c(1) by auto
  have "inbox_step db1 (snd (resetStaleClaims (\<lambda>_. False) 1000000 1 10 db1))"
    by (rule reset_step) (rule surjective_pairing)
  then show ?thesis using resolved_rows_are_final[OF c(2) r(1)] r c(1) by blast
qed

lemma candidates_mem:
  assumes "x \<in> set (claim_candidates hashtext locked now opts db)"
  shows "x \<in> set (db_inbox db)" "is_stream_head db x" "ir_status x = 0" "ir_availableAt x \<le> now"
    "in_shard hashtext (cb_shardCount opts) (cb_shardIndex opts) x" "\<not> locked (ir_inboxId x)"
  using assms set_take_subset[of "nat (max 0 (cb_limit opts))"] unfolding claim_candidates_def by fastforce+

lemma heads_unique:
  assumes "inbox_wf db" and "x \<in> set (db_inbox db)" "y \<in> set (db_inbox db)"
    and "is_stream_head db x" "is_stream_head db y" and "row_stream x = row_stream y"
  shows "x = y"
proof -
  have "stream_order x = stream_order y"
    using assms unfolding is_stream_head_def by (metis order_antisym)
  then have "ir_inboxId x = ir_inboxId y" by (simp add: stream_order_def)
  then show ?thesis using assms(1-3) unfolding inbox_wf_def rows_wf_def distinct_map inj_on_def by blast
qed

text \<open>
  C8. Workers get each stream in order. The rows of a claim are at most as many as asked for,
  in claim order, each of another stream; each was waiting, due, free and of the worker's shard,
  and no event of its stream that is still unresolved comes before it. The claim is recorded
  under the worker with a new attempt, and every row that was not claimed is as it was.
\<close>

theorem claims_follow_stream_order:
  assumes "inbox_wf db" and "claimBatch hashtext locked now opts db = (Inr rows, db')"
  shows "int (length rows) \<le> max 0 (cb_limit opts) \<and> sorted (map claim_order rows) \<and> distinct (map row_stream rows)
    \<and> (\<forall>r \<in> set rows. r \<in> set (db_inbox db') \<and> (\<exists>x \<in> set (db_inbox db). r = mark_claimed now (cb_workerId opts) x
         \<and> ir_status x = 0 \<and> ir_availableAt x \<le> now \<and> \<not> locked (ir_inboxId x)
         \<and> in_shard hashtext (cb_shardCount opts) (cb_shardIndex opts) x
         \<and> (\<forall>y \<in> set (db_inbox db). unresolved y \<and> row_stream y = row_stream x \<longrightarrow> stream_order x \<le> stream_order y)))
    \<and> (\<forall>y \<in> set (db_inbox db). ir_inboxId y \<notin> ir_inboxId ` set rows \<longrightarrow> y \<in> set (db_inbox db'))"
  using assms(2)
proof (cases rule: claimBatch_cases[case_names none shard claimed])
  case (claimed P)
  let ?m = "mark_claimed now (cb_workerId opts)" and ?C = "claim_candidates hashtext locked now opts db"
  have ids: "ir_inboxId (?m r) = ir_inboxId r" "row_stream (?m r) = row_stream r" for r
    by (simp_all add: mark_claimed_def row_stream_def)
  have dist: "distinct (map ir_inboxId (db_inbox db))" using assms(1) by (simp add: inbox_wf_def rows_wf_def)
  have inj: "x = y" if "x \<in> set (db_inbox db)" "y \<in> set (db_inbox db)" "ir_inboxId x = ir_inboxId y" for x y
    using dist that unfolding distinct_map inj_on_def by blast
  have cand: "r \<in> set ?C" if r: "r \<in> set (filter P (db_inbox db))" for r
  proof -
    obtain x where "x \<in> set ?C" "ir_inboxId x = ir_inboxId r" using r claimed(1) by auto
    then show ?thesis using inj[of x r] candidates_mem(1) r by auto
  qed
  have rows: "rows = sort_key claim_order (map ?m (filter P (db_inbox db)))" using claimed(3) by simp
  have len: "int (length rows) \<le> max 0 (cb_limit opts)"
  proof -
    have "distinct (filter P (db_inbox db))" using dist by (simp add: distinct_map)
    then have "length (filter P (db_inbox db)) \<le> length ?C"
      using cand by (metis card_length card_mono distinct_card finite_set order_trans subsetI)
    then have "length (filter P (db_inbox db)) \<le> nat (max 0 (cb_limit opts))" by (simp add: claim_candidates_def)
    then show ?thesis unfolding rows by simp
  qed
  have "inj_on row_stream (set (filter P (db_inbox db)))"
  proof (rule inj_onI)
    fix x y assume "x \<in> set (filter P (db_inbox db))" "y \<in> set (filter P (db_inbox db))" "row_stream x = row_stream y"
    then show "x = y"
      using heads_unique[OF assms(1) candidates_mem(1)[OF cand] candidates_mem(1)[OF cand]
          candidates_mem(2)[OF cand] candidates_mem(2)[OF cand]] by blast
  qed
  then have str: "distinct (map row_stream rows)"
    unfolding rows using dist by (intro distinct_map_sort) (simp add: comp_def ids distinct_map inj_on_def)
  have mem: "r \<in> set (db_inbox db') \<and> (\<exists>x \<in> set (db_inbox db). r = ?m x
         \<and> ir_status x = 0 \<and> ir_availableAt x \<le> now \<and> \<not> locked (ir_inboxId x)
         \<and> in_shard hashtext (cb_shardCount opts) (cb_shardIndex opts) x
         \<and> (\<forall>y \<in> set (db_inbox db). unresolved y \<and> row_stream y = row_stream x \<longrightarrow> stream_order x \<le> stream_order y))"
    if r: "r \<in> set rows" for r
  proof -
    obtain x where x: "r = ?m x" "x \<in> set (filter P (db_inbox db))" using r unfolding rows by auto
    note c = candidates_mem[OF cand[OF x(2)]]
    have "r \<in> set (db_inbox db')" unfolding claimed(2) update_where_def using x by force
    then show ?thesis using c x by (auto simp: is_stream_head_def)
  qed
  have rest: "y \<in> set (db_inbox db')" if "y \<in> set (db_inbox db)" "ir_inboxId y \<notin> ir_inboxId ` set rows" for y
  proof -
    have "\<not> P y" using that by (auto simp: rows ids(1) image_iff)
    then show ?thesis unfolding claimed(2) update_where_def using that(1) by force
  qed
  show ?thesis using len str mem rest by (simp add: rows)
qed (use assms in auto)

theorem claims_follow_stream_order_witness:
  "\<exists>rows db'. claimBatch (\<lambda>_. 0) (\<lambda>_. False) 20 claim_opts inbox_after = (Inr rows, db')
     \<and> length rows = 1 \<and> distinct (map row_stream rows) \<and> int (length rows) \<le> max 0 (cb_limit claim_opts)"
proof -
  have "\<not> isl (fst (claimBatch (\<lambda>_. 0) (\<lambda>_. False) 20 claim_opts inbox_after))
      \<and> length (projr (fst (claimBatch (\<lambda>_. 0) (\<lambda>_. False) 20 claim_opts inbox_after))) = 1" by code_simp
  then obtain rows db' where c: "claimBatch (\<lambda>_. 0) (\<lambda>_. False) 20 claim_opts inbox_after = (Inr rows, db')" "length rows = 1"
    by (metis prod.collapse sum.collapse(2))
  have "inbox_wf inbox_after" using inbox_after_inv by (simp add: inbox_inv_def)
  from claims_follow_stream_order[OF this c(1)] show ?thesis using c by blast
qed

lemma take_replay_prefix_spec:
  "\<exists>rest. rs = take_replay_prefix now head bytes rs @ rest
    \<and> (\<forall>r \<in> set (take_replay_prefix now head bytes rs). ir_status r = 0 \<and> ir_availableAt r \<le> now \<and> ir_priorityClass r = 2
        \<and> ir_userId r = ir_userId head \<and> ir_sessionId r = ir_sessionId head \<and> isSideEffectFreeReplay r)
    \<and> (bytes \<le> REPLAY_BATCH_MAX_BYTES \<longrightarrow>
        bytes + (\<Sum>r\<leftarrow>take_replay_prefix now head bytes rs. payload_bytes r) \<le> REPLAY_BATCH_MAX_BYTES)"
proof (induction rs arbitrary: bytes)
  case (Cons r rs)
  then show ?case by (force simp: not_less)
qed simp

text \<open>
  A replay batch is an uninterrupted prefix. Every row read behind the claimed head belongs
  to its stream, user and session, is waiting and due and has no side effect; between the head
  and any row of the batch there is no unresolved event of the stream that is not in the batch;
  at most thirty-one rows follow the head and the payloads stay within the byte limit.
\<close>

lemma replay_prefix_skips_nothing:
  assumes "prefix = readReplayPrefix now head limit db"
  shows "length prefix \<le> 31 \<and> sorted (map stream_order prefix)
    \<and> (prefix \<noteq> [] \<longrightarrow> payload_bytes head + (\<Sum>r\<leftarrow>prefix. payload_bytes r) \<le> REPLAY_BATCH_MAX_BYTES)
    \<and> (\<forall>r \<in> set prefix. r \<in> set (db_inbox db) \<and> row_stream r = row_stream head \<and> stream_order head < stream_order r
         \<and> ir_status r = 0 \<and> ir_availableAt r \<le> now \<and> ir_userId r = ir_userId head \<and> ir_sessionId r = ir_sessionId head
         \<and> isSideEffectFreeReplay r
         \<and> (\<forall>y \<in> set (db_inbox db). unresolved y \<and> row_stream y = row_stream head
              \<and> stream_order head < stream_order y \<and> stream_order y < stream_order r \<longrightarrow> y \<in> set prefix))"
proof (cases "prefix = []")
  case False
  let ?F = "filter (\<lambda>r. row_stream r = row_stream head \<and> unresolved r \<and> stream_order r > stream_order head) (db_inbox db)"
  let ?S = "sort_key stream_order ?F" and ?n = "nat (min 31 (max 0 (limit - 1)))"
  have eq: "prefix = take_replay_prefix now head (payload_bytes head) (take ?n ?S)"
      and b: "payload_bytes head \<le> REPLAY_BATCH_MAX_BYTES"
    using False unfolding assms readReplayPrefix_def Let_def by (auto split: if_splits)
  obtain rest where rest: "take ?n ?S = prefix @ rest"
    and each: "\<forall>r \<in> set prefix. ir_status r = 0 \<and> ir_availableAt r \<le> now \<and> ir_priorityClass r = 2
        \<and> ir_userId r = ir_userId head \<and> ir_sessionId r = ir_sessionId head \<and> isSideEffectFreeReplay r"
    and bytes: "payload_bytes head + (\<Sum>r\<leftarrow>prefix. payload_bytes r) \<le> REPLAY_BATCH_MAX_BYTES"
    using take_replay_prefix_spec[of "take ?n ?S" now head "payload_bytes head"] b unfolding eq[symmetric] by blast
  have S: "prefix @ rest @ drop ?n ?S = ?S" unfolding append.assoc[symmetric] rest[symmetric] by (rule append_take_drop_id)
  have sorted: "sorted (map stream_order (prefix @ rest @ drop ?n ?S))" unfolding S by (rule sorted_sort_key)
  have "length prefix \<le> length (take ?n ?S)" using rest by simp
  then have "length prefix \<le> ?n" by simp
  then have len: "length prefix \<le> 31" by linarith
  have set: "set ?F = set prefix \<union> set rest \<union> set (drop ?n ?S)"
    using arg_cong[OF S, of set] unfolding set_append set_sort by blast
  have no_gap: "y \<in> set prefix" if r: "r \<in> set prefix" and y: "y \<in> set ?F" "stream_order y < stream_order r" for r y
  proof (rule ccontr)
    assume "y \<notin> set prefix"
    then have "y \<in> set (rest @ drop ?n ?S)" using y(1) set by auto
    then have "stream_order r \<le> stream_order y" using sorted r unfolding map_append sorted_append by auto
    then show False using y(2) by simp
  qed
  have "sorted (map stream_order prefix)" using sorted unfolding map_append sorted_append by blast
  moreover have "r \<in> set (db_inbox db) \<and> row_stream r = row_stream head \<and> stream_order head < stream_order r
         \<and> ir_status r = 0 \<and> ir_availableAt r \<le> now \<and> ir_userId r = ir_userId head \<and> ir_sessionId r = ir_sessionId head
         \<and> isSideEffectFreeReplay r
         \<and> (\<forall>y \<in> set (db_inbox db). unresolved y \<and> row_stream y = row_stream head
              \<and> stream_order head < stream_order y \<and> stream_order y < stream_order r \<longrightarrow> y \<in> set prefix)"
    if r: "r \<in> set prefix" for r
  proof -
    have "r \<in> set ?F" using set r by blast
    moreover have "y \<in> set prefix" if "y \<in> set (db_inbox db)" "unresolved y \<and> row_stream y = row_stream head
        \<and> stream_order head < stream_order y \<and> stream_order y < stream_order r" for y
      using no_gap[OF r, of y] that by simp
    ultimately show ?thesis using each r by simp
  qed
  ultimately show ?thesis using len bytes by blast
qed simp

definition replay_event :: "int \<Rightarrow> string \<Rightarrow> IngressEnvelope" where
  "replay_event seq key = (inbox_event seq key)\<lparr>ie_sessionId := Some ''s1'', ie_priority := Replay,
     ie_payload := [(''type'', JStr ''agent_text''), (''session_id'', JStr ''s1''), (''resync'', JBool True),
       (''event_id'', JStr key)]\<rparr>"

definition replay_db :: inbox_db where
  "replay_db = snd (persistBatch 10 [replay_event 1 ''a'', replay_event 2 ''b'', replay_event 3 ''c''] empty_inbox_db)"

lemma replay_prefix_skips_nothing_example:
  "map ir_seq (readReplayPrefix 20 (hd (db_inbox replay_db)) 32 replay_db) = [2, 3]
   \<and> length (readReplayPrefix 20 (hd (db_inbox replay_db)) 32 replay_db) \<le> 31"
proof -
  have "map ir_seq (readReplayPrefix 20 (hd (db_inbox replay_db)) 32 replay_db) = [2, 3]" by code_simp
  then show ?thesis using replay_prefix_skips_nothing[OF refl, of 20 "hd (db_inbox replay_db)" 32 replay_db] by blast
qed

end
