(* ===== verification/Ingress_Controller.thy ===== *)
theory Ingress_Controller
  imports Fair_Queue_Service Inbox_Claims
begin

text \<open>
  The ingress controller of \<open>relay/src/ingress/controller.ts\<close>, which queues durable envelopes,
  persists them in batches and advertises the watermark.

  The code between two suspension points runs to its end, so it is one step: a call of
  \<open>accept\<close> or \<open>stop\<close>, a timer that fires, the completion of \<open>persistBatch\<close>. A batch that is being
  persisted is part of the state. Metrics and console output are left out; what the controller
  sends is returned as a list of effects. The clock and the identity of the new envelope object
  are arguments.
\<close>

section \<open>State\<close>

record IngressConnection =
  cn_daemonId :: string
  cn_registrationId :: string
  cn_userId :: "int option"
  cn_daemonGeneration :: int

type_synonym IngressTarget = IngressConnection

datatype AcceptResult = AcceptEphemeral | AcceptQueued EnqueueResult

record controller_config =
  cc_flushDelayMs :: "int option"
  cc_retryDelayMs :: "int option"

record IngressController =
  ct_queue :: FairIngressQueue
  ct_flushDelayMs :: int
  ct_retryDelayMs :: int
  ct_timer :: "int option"
  ct_flushing :: bool
  ct_accepting :: bool
  ct_ackEnabled :: bool
  ct_stopDeadlineExceeded :: bool
  ct_retryAfterDrain :: bool
  ct_in_flight :: "IngressEnvelope list option"

datatype effect = SendAck string AckCheckpoint int | SendFlowControl IngressTarget FlowControlState

definition new_controller :: "controller_config \<Rightarrow> FairIngressQueueConfig \<Rightarrow> IngressController" where
  "new_controller cfg qcfg =
     \<lparr>ct_queue = new_fair_queue qcfg,
      ct_flushDelayMs = max 5 (min 10 (case cc_flushDelayMs cfg of None \<Rightarrow> 5 | Some d \<Rightarrow> d)),
      ct_retryDelayMs = max 1 (case cc_retryDelayMs cfg of None \<Rightarrow> 25 | Some d \<Rightarrow> d),
      ct_timer = None, ct_flushing = False, ct_accepting = True, ct_ackEnabled = True,
      ct_stopDeadlineExceeded = False, ct_retryAfterDrain = False, ct_in_flight = None\<rparr>"

section \<open>Scheduling\<close>

definition scheduleFlush :: "int \<Rightarrow> IngressController \<Rightarrow> IngressController" where
  "scheduleFlush delayMs ct =
     (if \<not> ct_accepting ct \<or> ct_timer ct \<noteq> None \<or> ct_flushing ct \<or> fq_size (ct_queue ct) = 0 then ct
      else ct\<lparr>ct_timer := Some delayMs\<rparr>)"

definition clearScheduledFlush :: "IngressController \<Rightarrow> IngressController" where
  "clearScheduledFlush ct = ct\<lparr>ct_timer := None\<rparr>"

definition ctl_start :: "IngressController \<Rightarrow> IngressController" where
  "ctl_start ct = scheduleFlush (ct_flushDelayMs ct) ct"

definition stopState :: FlowControlState where
  "stopState = \<lparr>fc_window = 1, fc_retryAfterMs = 250, fc_reason = FlowRelayOverloaded, fc_blockedSeq = None\<rparr>"

section \<open>Accepting\<close>

definition build_envelope ::
    "nat \<Rightarrow> int \<Rightarrow> IngressConnection \<Rightarrow> payload \<Rightarrow> payload \<Rightarrow> bool option \<Rightarrow> int \<Rightarrow> IngressEnvelope" where
  "build_envelope ref now conn frame context receiptOnly seq =
     (let policy = classifyDaemonEvent frame in
      \<lparr>ie_ref = ref, ie_userId = cn_userId conn, ie_daemonId = cn_daemonId conn,
       ie_registrationId = cn_registrationId conn, ie_daemonGeneration = cn_daemonGeneration conn,
       ie_seq = seq,
       ie_dedupKey = buildDedupKey (cn_daemonId conn) (cn_daemonGeneration conn) seq frame,
       ie_sessionId = normalizeSessionId (jm_get frame ''session_id''),
       ie_eventType = js_String_or_empty (jm_get frame ''type''),
       ie_priority = ep_priority policy,
       ie_receiptOnly = (case receiptOnly of Some b \<Rightarrow> b | None \<Rightarrow> \<not> ep_durable policy),
       ie_payload = frame, ie_materializationContext = context, ie_receivedAt = now\<rparr>)"

definition accept ::
    "nat \<Rightarrow> int \<Rightarrow> IngressConnection \<Rightarrow> payload \<Rightarrow> payload \<Rightarrow> bool option \<Rightarrow> IngressController
      \<Rightarrow> AcceptResult \<times> IngressController" where
  "accept ref now conn frame context receiptOnly ct =
     (case js_Number (jm_get frame ''seq'') of
        None \<Rightarrow> (AcceptEphemeral, ct)
      | Some seq \<Rightarrow>
          if \<not> is_safe_integer seq \<or> seq \<le> 0 then (AcceptEphemeral, ct)
          else if \<not> ct_accepting ct then (AcceptQueued (Backpressured stopState), ct)
          else
            let (result, q) = enqueue (build_envelope ref now conn frame context receiptOnly seq) (ct_queue ct);
                ct1 = ct\<lparr>ct_queue := q\<rparr>
            in (AcceptQueued result,
                if result = EnqueueAccepted then scheduleFlush (ct_flushDelayMs ct1) ct1 else ct1))"

section \<open>Draining\<close>

text \<open>What runs when a drain has ended.\<close>

definition flush_end :: "IngressController \<Rightarrow> IngressController" where
  "flush_end ct =
     (let ct1 = ct\<lparr>ct_flushing := False\<rparr> in
      if \<not> ct_accepting ct1 \<or> fq_size (ct_queue ct1) = 0 then ct1
      else let delay = (if ct_retryAfterDrain ct1 then ct_retryDelayMs ct1 else 0)
           in scheduleFlush delay (ct1\<lparr>ct_retryAfterDrain := False\<rparr>))"

text \<open>The drain loop up to its next \<open>await\<close> or its end.\<close>

definition drain_next :: "IngressController \<Rightarrow> IngressController" where
  "drain_next ct =
     (if fq_size (ct_queue ct) > 0 \<and> \<not> ct_stopDeadlineExceeded ct
      then (case takeBatch controller_limits (ct_queue ct) of
              (Inl err, q) \<Rightarrow> flush_end (ct\<lparr>ct_queue := q\<rparr>)
            | (Inr batch, q) \<Rightarrow>
                if batch = [] then flush_end (ct\<lparr>ct_queue := q\<rparr>)
                else ct\<lparr>ct_queue := q, ct_in_flight := Some batch\<rparr>)
      else flush_end ct)"

definition flushNow :: "IngressController \<Rightarrow> IngressController" where
  "flushNow ct = (if ct_flushing ct then ct else drain_next ((clearScheduledFlush ct)\<lparr>ct_flushing := True\<rparr>))"

definition target_key :: "IngressEnvelope \<Rightarrow> string" where
  "target_key e = ie_daemonId e @ CHR 0x00 # ie_registrationId e @ CHR 0x00 # int_str (ie_daemonGeneration e)"

definition target_of :: "IngressEnvelope \<Rightarrow> IngressTarget" where
  "target_of e = \<lparr>cn_daemonId = ie_daemonId e, cn_registrationId = ie_registrationId e,
     cn_userId = ie_userId e, cn_daemonGeneration = ie_daemonGeneration e\<rparr>"

definition batchTargets :: "IngressEnvelope list \<Rightarrow> (string, IngressTarget) jsmap" where
  "batchTargets batch = foldl (\<lambda>m e. jm_set (target_key e) (target_of e) m) [] batch"

definition persist_failed :: "IngressController \<Rightarrow> IngressController \<times> effect list" where
  "persist_failed ct =
     (case ct_in_flight ct of
        None \<Rightarrow> (ct, [])
      | Some batch \<Rightarrow>
          let (q, err) = requeueFront batch (ct_queue ct);
              ct1 = ct\<lparr>ct_queue := q, ct_in_flight := None\<rparr>;
              state = \<lparr>fc_window = 1, fc_retryAfterMs = ct_retryDelayMs ct, fc_reason = FlowIngestBackpressure,
                       fc_blockedSeq = None\<rparr>
          in (case err of
                Some _ \<Rightarrow> (flush_end ct1, [])
              | None \<Rightarrow>
                  (flush_end (ct1\<lparr>ct_retryAfterDrain := True\<rparr>),
                   map (\<lambda>t. SendFlowControl t state) (jm_values (batchTargets batch)))))"

definition persist_succeeded ::
    "(string, AckCheckpoint) jsmap \<Rightarrow> IngressController \<Rightarrow> IngressController \<times> effect list" where
  "persist_succeeded checkpoints ct =
     (case ct_in_flight ct of
        None \<Rightarrow> (ct, [])
      | Some batch \<Rightarrow>
          let (q, err) = commitBatch batch (ct_queue ct);
              ct1 = ct\<lparr>ct_queue := q, ct_in_flight := None\<rparr>
          in (case err of
                Some _ \<Rightarrow> (flush_end ct1, [])
              | None \<Rightarrow>
                  (drain_next ct1,
                   if ct_ackEnabled ct
                   then map (\<lambda>c. SendAck (ac_daemonId c) c 128) (jm_values checkpoints) else [])))"

definition timer_fires :: "IngressController \<Rightarrow> IngressController" where
  "timer_fires ct = flushNow (ct\<lparr>ct_timer := None\<rparr>)"

definition ctl_stop :: "IngressController \<Rightarrow> IngressController" where
  "ctl_stop ct = flushNow (clearScheduledFlush (ct\<lparr>ct_accepting := False\<rparr>))"

definition deadline_fires :: "IngressController \<Rightarrow> IngressController" where
  "deadline_fires ct = ct\<lparr>ct_ackEnabled := False, ct_stopDeadlineExceeded := True\<rparr>"

end
