(* ===== verification/Ingress_Pipeline.thy ===== *)
theory Ingress_Pipeline
  imports Ingress_Controller
begin

text \<open>
  The ingress as a whole: connections, the controller with its queue and timers, the inbox
  tables, and everything else that writes to them. A run interleaves their steps freely; the
  persistence of a batch may succeed, fail, or succeed with its answer lost.
\<close>

section \<open>Controller steps\<close>

definition load :: "IngressController \<Rightarrow> IngressEnvelope multiset" where
  "load ct = fq_waiting (ct_queue ct) + fq_held (ct_queue ct)"

definition woken :: "IngressController \<Rightarrow> bool" where
  "woken ct \<longleftrightarrow> (ct_accepting ct \<and> 0 < fq_size (ct_queue ct) \<longrightarrow> ct_timer ct \<noteq> None \<or> ct_flushing ct)"

definition ctl_ok :: "IngressController \<Rightarrow> bool" where
  "ctl_ok ct \<longleftrightarrow> fq_inv (ct_queue ct)
     \<and> fq_held (ct_queue ct) = (case ct_in_flight ct of None \<Rightarrow> {#} | Some b \<Rightarrow> mset b)
     \<and> (ct_flushing ct \<longleftrightarrow> ct_in_flight ct \<noteq> None) \<and> woken ct"

lemma fq_size_nonneg: "fq_inv q \<Longrightarrow> 0 \<le> fq_size q"
  using fq_structD(3)[OF fq_invD(1)] by (simp add: fq_size_def)

lemma scheduleFlush_fields [simp]:
  "ct_queue (scheduleFlush d ct) = ct_queue ct" "ct_in_flight (scheduleFlush d ct) = ct_in_flight ct"
  "ct_flushing (scheduleFlush d ct) = ct_flushing ct" "ct_accepting (scheduleFlush d ct) = ct_accepting ct"
  by (simp_all add: scheduleFlush_def)

lemma scheduleFlush_woken: "woken (scheduleFlush d ct)"
  by (auto simp: woken_def scheduleFlush_def)

lemma scheduleFlush_ok: "ctl_ok ct \<Longrightarrow> ctl_ok (scheduleFlush d ct)"
  using scheduleFlush_woken by (simp add: ctl_ok_def)

lemma flush_end_fields [simp]:
  "ct_queue (flush_end ct) = ct_queue ct" "ct_in_flight (flush_end ct) = ct_in_flight ct"
  "ct_flushing (flush_end ct) = False"
  by (simp_all add: flush_end_def Let_def)

lemma flush_end_woken: "woken (flush_end ct)"
  using scheduleFlush_woken by (auto simp: flush_end_def Let_def) (auto simp: woken_def)

lemma flush_end_ok:
  assumes "fq_inv (ct_queue ct)" "fq_held (ct_queue ct) = {#}" "ct_in_flight ct = None"
  shows "ctl_ok (flush_end ct)"
  using assms flush_end_woken by (simp add: ctl_ok_def)

lemma drain_next_ok:
  assumes q: "fq_inv (ct_queue ct)" "fq_held (ct_queue ct) = {#}" and fl: "ct_in_flight ct = None" "ct_flushing ct"
  shows "ctl_ok (drain_next ct)" and "load (drain_next ct) = load ct"
proof -
  obtain r q' where t: "takeBatch controller_limits (ct_queue ct) = (r, q')" by fastforce
  obtain b where b: "r = Inr b" "fq_inv q'" "fq_held q' = mset b" "fq_waiting (ct_queue ct) = mset b + fq_waiting q'"
    using fqr.take_held[OF q t] by blast
  have "ctl_ok (drain_next ct) \<and> load (drain_next ct) = load ct"
  proof (cases "0 < fq_size (ct_queue ct) \<and> \<not> ct_stopDeadlineExceeded ct \<and> b \<noteq> []")
    case True
    then have "drain_next ct = ct\<lparr>ct_queue := q', ct_in_flight := Some b\<rparr>" using t b(1) by (simp add: drain_next_def)
    then show ?thesis using b q(2) fl by (simp add: ctl_ok_def load_def woken_def)
  next
    case False
    then have "drain_next ct = flush_end ct \<or> drain_next ct = flush_end (ct\<lparr>ct_queue := q'\<rparr>) \<and> b = []"
      unfolding drain_next_def t b(1) by auto
    then consider "drain_next ct = flush_end ct" | "drain_next ct = flush_end (ct\<lparr>ct_queue := q'\<rparr>)" "b = []" by blast
    then show ?thesis
    proof cases
      case 1
      then show ?thesis using flush_end_ok[OF q fl(1)] by (simp add: load_def)
    next
      case 2
      then have "fq_held q' = {#}" "fq_waiting q' = fq_waiting (ct_queue ct)" using b by simp_all
      then show ?thesis using flush_end_ok[of "ct\<lparr>ct_queue := q'\<rparr>"] 2(1) b(2) fl(1) q(2) by (simp add: load_def)
    qed
  qed
  then show "ctl_ok (drain_next ct)" "load (drain_next ct) = load ct" by simp_all
qed

lemma flushNow_ok:
  assumes "ctl_ok ct \<or> (\<not> ct_flushing ct \<and> fq_inv (ct_queue ct) \<and> fq_held (ct_queue ct) = {#} \<and> ct_in_flight ct = None)"
  shows "ctl_ok (flushNow ct)" "load (flushNow ct) = load ct"
  using assms drain_next_ok[of "(clearScheduledFlush ct)\<lparr>ct_flushing := True\<rparr>"]
  by (auto simp: flushNow_def clearScheduledFlush_def ctl_ok_def load_def)

lemma timer_fires_ok:
  assumes "ctl_ok ct" shows "ctl_ok (timer_fires ct)" "load (timer_fires ct) = load ct"
proof -
  have "ctl_ok (ct\<lparr>ct_timer := None\<rparr>) \<or> (\<not> ct_flushing ct \<and> fq_inv (ct_queue ct) \<and> fq_held (ct_queue ct) = {#} \<and> ct_in_flight ct = None)"
    using assms by (cases "ct_flushing ct") (auto simp: ctl_ok_def woken_def split: option.splits)
  then show "ctl_ok (timer_fires ct)" "load (timer_fires ct) = load ct"
    using flushNow_ok[of "ct\<lparr>ct_timer := None\<rparr>"] unfolding timer_fires_def by (simp_all add: load_def)
qed

lemma ctl_stop_ok:
  assumes "ctl_ok ct" shows "ctl_ok (ctl_stop ct)" "load (ctl_stop ct) = load ct"
proof -
  let ?c = "clearScheduledFlush (ct\<lparr>ct_accepting := False\<rparr>)"
  have "ctl_ok ?c" using assms by (simp add: ctl_ok_def woken_def clearScheduledFlush_def)
  then show "ctl_ok (ctl_stop ct)" "load (ctl_stop ct) = load ct"
    using flushNow_ok[of ?c] unfolding ctl_stop_def by (simp_all add: load_def clearScheduledFlush_def)
qed

lemma deadline_fires_ok:
  assumes "ctl_ok ct" shows "ctl_ok (deadline_fires ct)" "load (deadline_fires ct) = load ct"
  using assms by (auto simp: deadline_fires_def ctl_ok_def load_def woken_def)

lemma persist_failed_ok:
  assumes ok: "ctl_ok ct" and b: "ct_in_flight ct = Some b" and p: "persist_failed ct = (ct', effects)"
  shows "ctl_ok ct'" "load ct' = load ct" "\<forall>d c n. SendAck d c n \<notin> set effects"
proof -
  obtain q r where rq: "requeueFront b (ct_queue ct) = (q, r)" by fastforce
  have h: "r = None" "fq_inv q" "fq_held q = {#}" "fq_waiting q = mset b + fq_waiting (ct_queue ct)"
    using fqr.requeue_held[OF _ _ rq] ok b by (simp_all add: ctl_ok_def)
  let ?c = "ct\<lparr>ct_queue := q, ct_in_flight := None, ct_retryAfterDrain := True\<rparr>"
  have p': "ct' = flush_end ?c" "\<forall>x \<in> set effects. \<exists>t s. x = SendFlowControl t s"
    using p rq h(1) b by (auto simp: persist_failed_def Let_def)
  show "ctl_ok ct'" using flush_end_ok[of ?c] h p'(1) by simp
  show "load ct' = load ct" using h ok b p'(1) by (simp add: load_def ctl_ok_def)
  show "\<forall>d c n. SendAck d c n \<notin> set effects" using p'(2) by blast
qed

lemma persist_succeeded_ok:
  assumes ok: "ctl_ok ct" and b: "ct_in_flight ct = Some b" and p: "persist_succeeded cps ct = (ct', effects)"
  shows "ctl_ok ct'" "load ct = mset b + load ct'"
    "SendAck d c n \<in> set effects \<Longrightarrow> c \<in> set (jm_values cps) \<and> ct_ackEnabled ct"
proof -
  obtain q r where rq: "commitBatch b (ct_queue ct) = (q, r)" by fastforce
  have h: "r = None" "fq_inv q" "fq_held q = {#}" "fq_waiting q = fq_waiting (ct_queue ct)"
    using fqr.commit_held[OF _ _ rq] ok b by (simp_all add: ctl_ok_def)
  let ?c = "ct\<lparr>ct_queue := q, ct_in_flight := None\<rparr>"
  have p': "ct' = drain_next ?c" "effects = (if ct_ackEnabled ct then map (\<lambda>c. SendAck (ac_daemonId c) c 128) (jm_values cps) else [])"
    using p rq h(1) b by (auto simp: persist_succeeded_def Let_def)
  have "ct_flushing ?c" using ok b by (simp add: ctl_ok_def)
  then show "ctl_ok ct'" "load ct = mset b + load ct'"
    using drain_next_ok[of ?c] h p'(1) ok b by (simp_all add: load_def ctl_ok_def)
  show "SendAck d c n \<in> set effects \<Longrightarrow> c \<in> set (jm_values cps) \<and> ct_ackEnabled ct"
    using p'(2) by (auto split: if_splits)
qed

text \<open>An accepted frame adds exactly its envelope.\<close>

lemma accept_ok:
  assumes ok: "ctl_ok ct" and a: "accept ref now conn frame context ro ct = (r, ct')"
    and d: "cn_daemonId conn \<noteq> []" and fresh: "\<forall>e \<in># load ct. ie_ref e \<noteq> ref"
  shows "ctl_ok ct'"
    and "load ct' = (if r = AcceptQueued EnqueueAccepted
      then add_mset (build_envelope ref now conn frame context ro (the (js_Number (jm_get frame ''seq'')))) (load ct) else load ct)"
    and "r = AcceptQueued EnqueueAccepted \<Longrightarrow> 0 < the (js_Number (jm_get frame ''seq''))"
proof -
  let ?seq = "the (js_Number (jm_get frame ''seq''))"
  let ?e = "build_envelope ref now conn frame context ro ?seq"
  let ?q = "ct_queue ct"
  have inv: "fq_inv ?q" using ok by (simp add: ctl_ok_def)
  have e: "ie_daemonId ?e \<noteq> []" "ie_ref ?e = ref" using d by (simp_all add: build_envelope_def Let_def)
  have new: "toQueued ?e \<notin># resident ?q"
  proof
    assume "toQueued ?e \<in># resident ?q"
    then have "qe_event (toQueued ?e) \<in># image_mset qe_event (resident ?q)"
      unfolding set_image_mset by (rule imageI)
    then show False using fresh e(2) by (auto simp: resident_events load_def)
  qed
  obtain res q' where en: "enqueue ?e ?q = (res, q')" by fastforce
  have acc: "res = EnqueueAccepted \<and> q' = insertBack (toQueued ?e) ?q \<and> fq_inv q'
      \<and> resident q' = add_mset (toQueued ?e) (resident ?q) \<and> fq_held q' = fq_held ?q
    \<or> res \<noteq> EnqueueAccepted \<and> q' = ?q"
    using enqueue_cases[OF inv, of ?e] en insertBack_inv[OF inv e(1) new] insert_with_frame[of ?q]
    by (auto simp: fq_held_def insertBack_def charge_struct)
  have "ctl_ok ct' \<and> load ct' = (if r = AcceptQueued EnqueueAccepted then add_mset ?e (load ct) else load ct)
      \<and> (r = AcceptQueued EnqueueAccepted \<longrightarrow> 0 < ?seq)"
  proof (cases "(\<exists>n. js_Number (jm_get frame ''seq'') = Some n \<and> is_safe_integer n \<and> 0 < n) \<and> ct_accepting ct")
    case False
    then have "ct' = ct" "r \<noteq> AcceptQueued EnqueueAccepted"
      using a by (auto simp: accept_def split: option.splits if_splits)
    then show ?thesis using ok by simp
  next
    case True
    then have ct': "r = AcceptQueued res" "0 < ?seq" "ct' = (if res = EnqueueAccepted
        then scheduleFlush (ct_flushDelayMs ct) (ct\<lparr>ct_queue := q'\<rparr>) else ct\<lparr>ct_queue := q'\<rparr>)"
      using a en by (auto simp: accept_def Let_def split: if_splits)
    show ?thesis
    proof (cases "res = EnqueueAccepted")
      case True
      then have q': "fq_inv q'" "fq_held q' = fq_held ?q" "fq_waiting q' + fq_held q' = add_mset ?e (fq_waiting ?q + fq_held ?q)"
        using acc resident_events[of q'] resident_events[of ?q] by auto
      have "woken ct'" using ct'(3) True scheduleFlush_woken by simp
      then show ?thesis using q' ct' True ok by (simp add: ctl_ok_def load_def)
    next
      case False
      then show ?thesis using acc ct' ok by (auto simp: load_def)
    qed
  qed
  then show "ctl_ok ct'"
    and "load ct' = (if r = AcceptQueued EnqueueAccepted then add_mset ?e (load ct) else load ct)"
    and "r = AcceptQueued EnqueueAccepted \<Longrightarrow> 0 < ?seq" by simp_all
qed

section \<open>The stored log\<close>

text \<open>An event is stored when the watermark has passed it or it has a receipt.\<close>

definition stored :: "inbox_db \<Rightarrow> stream \<Rightarrow> int \<Rightarrow> bool" where
  "stored db s n \<longleftrightarrow> n \<le> ack_of db s \<or> has_receipt s db n"

lemma persisted_keeps:
  assumes "persisted events db cps db'"
  shows "ack_of db s \<le> ack_of db' s" "has_receipt s db n \<Longrightarrow> has_receipt s db' n"
  using persistedD(4,5)[OF assms] advanced_spec(1)[of "ack_of db s" db' s] by (auto simp: has_receipt_def)

lemma step_keeps_log:
  assumes wf: "inbox_wf db" and step: "inbox_step db db'" and n: "0 < n"
  shows "n \<le> ack_of db s \<Longrightarrow> n \<le> ack_of db' s" "stored db s n \<Longrightarrow> stored db' s n"
proof -
  have "(n \<le> ack_of db s \<longrightarrow> n \<le> ack_of db' s) \<and> (has_receipt s db n \<longrightarrow> has_receipt s db' n)"
    using step
  proof (cases rule: inbox_step.cases)
    case (persist_step now events r)
    then show ?thesis using persist_cases[OF wf persist_step] persisted_keeps by (meson order_trans)
  next
    case (seed_step now d g m c)
    then have "db_receipts db' = db_receipts db" "s \<noteq> (d, g) \<Longrightarrow> ack_of db' s = ack_of db s"
      "ack_of db' (d, g) = (if jm_get (db_checkpoints db) (d, g) = None then m else max (ack_of db (d, g)) m)"
      by (auto simp: seedCheckpoint_def ack_of_def Let_def split: option.splits)
    moreover have "jm_get (db_checkpoints db) (d, g) = None \<Longrightarrow> ack_of db (d, g) = 0" by (simp add: ack_of_def)
    ultimately show ?thesis using n by (cases "s = (d, g)") (auto simp: has_receipt_def)
  next
    case (claim_step hashtext locked now opts rs)
    then show ?thesis by (auto simp: claimBatch_def ack_of_def has_receipt_def Let_def split: if_splits)
  next
    case (outcome_step i w a g u)
    then obtain f where "g = fenced_update i w a f" by (auto simp: is_outcome_def)
    then show ?thesis using outcome_step by (auto simp: fenced_update_def ack_of_def has_receipt_def split: if_splits)
  next
    case (renew_step now claims w ids)
    then show ?thesis by (auto simp: renewClaims_def ack_of_def has_receipt_def Let_def split: if_splits)
  next
    case (reset_step locked now leaseMs limit m)
    then show ?thesis by (auto simp: resetStaleClaims_def ack_of_def has_receipt_def Let_def)
  qed
  then show "n \<le> ack_of db s \<Longrightarrow> n \<le> ack_of db' s" "stored db s n \<Longrightarrow> stored db' s n"
    by (auto simp: stored_def)
qed

lemma persist_stores:
  assumes "inbox_wf db" and "persistBatch now b db = (Inr cps, db')" and "e \<in> set b"
  shows "stored db' (stream_of e) (ie_seq e)"
proof -
  note p = persist_spec[OF assms(1,2)]
  show ?thesis
    using persisted_representative(1)[OF p assms(3)] persisted_keeps(1)[OF p, of "stream_of e"]
    unfolding stored_def by linarith
qed

lemma returned_checkpoint:
  assumes "inbox_wf db" and "persistBatch now b db = (Inr cps, db')" and "c \<in> set (jm_values cps)"
  shows "ac_ackSeq c = ack_of db' (ac_daemonId c, ac_daemonGeneration c)"
  using persistedD(2)[OF persist_spec[OF assms(1,2)]] assms(3)
  by (auto simp: jm_values_def checkpoints_at_def cp_at_def)

section \<open>Runs\<close>

record ingress_sys =
  sy_ctl :: IngressController
  sy_db :: inbox_db
  sy_next :: nat
  sy_accepted :: "IngressEnvelope list"
  sy_acks :: "AckCheckpoint list"

definition acks_in :: "effect list \<Rightarrow> AckCheckpoint list" where
  "acks_in xs = concat (map (\<lambda>x. case x of SendAck _ c _ \<Rightarrow> [c] | SendFlowControl _ _ \<Rightarrow> []) xs)"

inductive ingress_step :: "ingress_sys \<Rightarrow> ingress_sys \<Rightarrow> bool" where
  sys_accept: "cn_daemonId conn \<noteq> [] \<Longrightarrow> accept (sy_next s) now conn frame context ro (sy_ctl s) = (r, ct) \<Longrightarrow>
    ingress_step s (s\<lparr>sy_ctl := ct, sy_next := Suc (sy_next s), sy_accepted := sy_accepted s @
      (if r = AcceptQueued EnqueueAccepted
       then [build_envelope (sy_next s) now conn frame context ro (the (js_Number (jm_get frame ''seq'')))] else [])\<rparr>)"
| sys_start: "ingress_step s (s\<lparr>sy_ctl := ctl_start (sy_ctl s)\<rparr>)"
| sys_timer: "ct_timer (sy_ctl s) \<noteq> None \<Longrightarrow> ingress_step s (s\<lparr>sy_ctl := timer_fires (sy_ctl s)\<rparr>)"
| sys_stop: "ingress_step s (s\<lparr>sy_ctl := ctl_stop (sy_ctl s)\<rparr>)"
| sys_deadline: "ingress_step s (s\<lparr>sy_ctl := deadline_fires (sy_ctl s)\<rparr>)"
| sys_persisted: "ct_in_flight (sy_ctl s) = Some b \<Longrightarrow> persistBatch now b (sy_db s) = (Inr cps, db) \<Longrightarrow>
    persist_succeeded cps (sy_ctl s) = (ct, effects) \<Longrightarrow>
    ingress_step s (s\<lparr>sy_ctl := ct, sy_db := db, sy_acks := sy_acks s @ acks_in effects\<rparr>)"
| sys_failed: "ct_in_flight (sy_ctl s) = Some b \<Longrightarrow> db = sy_db s \<or> persistBatch now b (sy_db s) = (Inr cps, db) \<Longrightarrow>
    persist_failed (sy_ctl s) = (ct, effects) \<Longrightarrow>
    ingress_step s (s\<lparr>sy_ctl := ct, sy_db := db, sy_acks := sy_acks s @ acks_in effects\<rparr>)"
| sys_inbox: "inbox_step (sy_db s) db \<Longrightarrow> ingress_step s (s\<lparr>sy_db := db\<rparr>)"

definition ingress_start :: "ingress_sys \<Rightarrow> bool" where
  "ingress_start s \<longleftrightarrow> (\<exists>cfg qcfg. s = \<lparr>sy_ctl = new_controller cfg qcfg, sy_db = empty_inbox_db, sy_next = 0,
     sy_accepted = [], sy_acks = []\<rparr>)"

definition ack_backed :: "inbox_db \<Rightarrow> AckCheckpoint \<Rightarrow> bool" where
  "ack_backed db c \<longleftrightarrow> (0 < ac_ackSeq c \<longrightarrow> ac_ackSeq c \<le> ack_of db (ac_daemonId c, ac_daemonGeneration c))"

definition not_lost :: "ingress_sys \<Rightarrow> IngressEnvelope \<Rightarrow> bool" where
  "not_lost s e \<longleftrightarrow> 0 < ie_seq e \<and> (e \<in># load (sy_ctl s) \<or> stored (sy_db s) (stream_of e) (ie_seq e))"

definition ingress_inv :: "ingress_sys \<Rightarrow> bool" where
  "ingress_inv s \<longleftrightarrow> ctl_ok (sy_ctl s) \<and> inbox_inv (sy_db s)
     \<and> (\<forall>e \<in># load (sy_ctl s). ie_ref e < sy_next s)
     \<and> (\<forall>e \<in> set (sy_accepted s). not_lost s e) \<and> (\<forall>c \<in> set (sy_acks s). ack_backed (sy_db s) c)"

lemma ack_backed_step: "inbox_wf db \<Longrightarrow> inbox_step db db' \<Longrightarrow> ack_backed db c \<Longrightarrow> ack_backed db' c"
  using step_keeps_log(1) by (auto simp: ack_backed_def)

text \<open>A step that leaves the load alone and moves the tables by a repository step, or not at all.\<close>

lemma ingress_inv_keep:
  assumes inv: "ingress_inv s" and ct: "ctl_ok ct" "load ct = load (sy_ctl s)"
    and db: "db = sy_db s \<or> inbox_step (sy_db s) db"
  shows "ingress_inv (s\<lparr>sy_ctl := ct, sy_db := db\<rparr>)"
proof -
  have wf: "inbox_wf (sy_db s)" using inv by (simp add: ingress_inv_def inbox_inv_def)
  have "inbox_inv db" using inv db inbox.inv_step by (auto simp: ingress_inv_def)
  moreover have "not_lost (s\<lparr>sy_ctl := ct, sy_db := db\<rparr>) e" if "e \<in> set (sy_accepted s)" for e
  proof -
    have "not_lost s e" using inv that by (simp add: ingress_inv_def)
    then show ?thesis using db ct(2) step_keeps_log(2)[OF wf, of db "ie_seq e" "stream_of e"] by (auto simp: not_lost_def)
  qed
  moreover have "ack_backed db c" if "c \<in> set (sy_acks s)" for c
    using inv that db ack_backed_step[OF wf] by (auto simp: ingress_inv_def)
  ultimately show ?thesis using inv ct by (simp add: ingress_inv_def)
qed

lemma ingress_inv_step:
  assumes inv: "ingress_inv s" and step: "ingress_step s s'"
  shows "ingress_inv s'"
  using step
proof (cases rule: ingress_step.cases)
  case (sys_accept conn now frame ctx ro r ct)
  let ?e = "build_envelope (sy_next s) now conn frame ctx ro (the (js_Number (jm_get frame ''seq'')))"
  have ok: "ctl_ok (sy_ctl s)" "\<forall>e \<in># load (sy_ctl s). ie_ref e < sy_next s" using inv by (simp_all add: ingress_inv_def)
  then have fresh: "\<forall>e \<in># load (sy_ctl s). ie_ref e \<noteq> sy_next s" by auto
  note a = accept_ok[OF ok(1) sys_accept(3,2) fresh]
  have e: "ie_ref ?e = sy_next s" "ie_seq ?e = the (js_Number (jm_get frame ''seq''))"
    by (simp_all add: build_envelope_def Let_def)
  show ?thesis
  proof (cases "r = AcceptQueued EnqueueAccepted")
    case True
    then have l: "load ct = add_mset ?e (load (sy_ctl s))" using a(2) by simp
    have "not_lost s' x" if "x \<in> set (sy_accepted s) \<or> x = ?e" for x
      using that inv True a(3) e(2) unfolding sys_accept(1) by (auto simp: not_lost_def ingress_inv_def l)
    then show ?thesis using inv a(1) l e(1) True unfolding sys_accept(1) by (auto simp: ingress_inv_def)
  next
    case False
    then have l: "load ct = load (sy_ctl s)" using a(2) by simp
    from ingress_inv_keep[OF inv a(1) l disjI1[OF refl]] show ?thesis
      using False unfolding sys_accept(1) by (auto simp: ingress_inv_def not_lost_def less_Suc_eq)
  qed
next
  case sys_start
  then show ?thesis
    using ingress_inv_keep[OF inv, of "ctl_start (sy_ctl s)" "sy_db s"] scheduleFlush_ok inv
    by (simp add: ctl_start_def load_def ingress_inv_def)
next
  case sys_timer
  then show ?thesis
    using ingress_inv_keep[OF inv timer_fires_ok, of "sy_db s"] inv by (simp add: ingress_inv_def)
next
  case sys_stop
  then show ?thesis
    using ingress_inv_keep[OF inv ctl_stop_ok, of "sy_db s"] inv by (simp add: ingress_inv_def)
next
  case sys_deadline
  then show ?thesis
    using ingress_inv_keep[OF inv deadline_fires_ok, of "sy_db s"] inv by (simp add: ingress_inv_def)
next
  case (sys_inbox db)
  then show ?thesis
    using ingress_inv_keep[OF inv, of "sy_ctl s" db] inv by (simp add: ingress_inv_def)
next
  case (sys_failed b db now cps ct effects)
  have ok: "ctl_ok (sy_ctl s)" using inv by (simp add: ingress_inv_def)
  note f = persist_failed_ok[OF ok sys_failed(2,4)]
  have "acks_in effects = []" using f(3) by (auto simp: acks_in_def split: effect.splits)
  moreover have "db = sy_db s \<or> inbox_step (sy_db s) db" using sys_failed(3) persist_step by blast
  ultimately show ?thesis using ingress_inv_keep[OF inv f(1,2)] unfolding sys_failed(1) by simp
next
  case (sys_persisted b now cps db ct effects)
  have ok: "ctl_ok (sy_ctl s)" and wf: "inbox_wf (sy_db s)" using inv by (simp_all add: ingress_inv_def inbox_inv_def)
  note f = persist_succeeded_ok[OF ok sys_persisted(2,4)]
  have st: "inbox_step (sy_db s) db" using sys_persisted(3) by (rule persist_step)
  have "inbox_inv db" using inv inbox.inv_step[OF _ st] by (simp add: ingress_inv_def)
  moreover have "not_lost s' e" if "e \<in> set (sy_accepted s)" for e
  proof -
    have "not_lost s e" using inv that by (simp add: ingress_inv_def)
    then consider "0 < ie_seq e" "e \<in> set b" | "0 < ie_seq e" "e \<in># load ct"
      | "0 < ie_seq e" "stored (sy_db s) (stream_of e) (ie_seq e)" using f(2) by (auto simp: not_lost_def)
    then show ?thesis
      using persist_stores[OF wf sys_persisted(3)] step_keeps_log(2)[OF wf st, of "ie_seq e" "stream_of e"] unfolding sys_persisted(1)
      by cases (auto simp: not_lost_def)
  qed
  moreover have "ack_backed db c" if "c \<in> set (sy_acks s) \<union> set (acks_in effects)" for c
    using that
  proof
    assume "c \<in> set (sy_acks s)"
    then show ?thesis using inv ack_backed_step[OF wf st] by (simp add: ingress_inv_def)
  next
    assume "c \<in> set (acks_in effects)"
    then obtain d n where "SendAck d c n \<in> set effects" by (auto simp: acks_in_def split: effect.splits)
    then show ?thesis using returned_checkpoint[OF wf sys_persisted(3)] f(3) by (auto simp: ack_backed_def)
  qed
  moreover have "\<forall>e \<in># load ct. ie_ref e < sy_next s" using inv f(2) by (simp add: ingress_inv_def)
  ultimately show ?thesis using f(1) unfolding sys_persisted(1) by (auto simp: ingress_inv_def)
qed

lemma ingress_inv_start:
  assumes "ingress_start s" shows "ingress_inv s"
proof -
  obtain cfg qcfg where s: "s = \<lparr>sy_ctl = new_controller cfg qcfg, sy_db = empty_inbox_db, sy_next = 0,
      sy_accepted = [], sy_acks = []\<rparr>" using assms by (auto simp: ingress_start_def)
  have "fq_mset (new_fair_queue qcfg) = {#}" by (simp add: new_fair_queue_def fq_mset_def dm_mset_def)
  then have "ctl_ok (new_controller cfg qcfg)" "load (new_controller cfg qcfg) = {#}"
    using fq_inv_new[of qcfg]
    by (simp_all add: ctl_ok_def woken_def load_def new_controller_def fq_waiting_def fq_held_def)
      (simp_all add: new_fair_queue_def fq_size_def)
  then show ?thesis using inbox.inv_start by (simp add: ingress_inv_def s)
qed

interpretation ingress: transition_system ingress_start ingress_step ingress_inv
  by unfold_locales (auto intro: ingress_inv_start ingress_inv_step)

section \<open>Properties\<close>

text \<open>
  C1. No accepted event is lost and no acknowledgement is a promise. In every state of every run
  of the ingress, with batches that fail, batches whose success is not reported back, shutdown,
  and any other activity on the inbox, each event the controller accepted is still in its queue
  or in the batch being persisted, or it is stored; and each watermark sent to a daemon is at
  most the one stored for its stream.
\<close>

theorem accepted_events_are_never_lost:
  assumes "ingress_start s0" and "ingress_step\<^sup>*\<^sup>* s0 s"
  shows "(\<forall>e \<in> set (sy_accepted s). e \<in># load (sy_ctl s) \<or> stored (sy_db s) (stream_of e) (ie_seq e))
    \<and> (\<forall>c \<in> set (sy_acks s). 0 < ac_ackSeq c \<longrightarrow> ac_ackSeq c \<le> ack_of (sy_db s) (ac_daemonId c, ac_daemonGeneration c))"
  using ingress.inv_reachable[OF assms] by (auto simp: ingress_inv_def not_lost_def ack_backed_def)

definition sample_conn :: IngressConnection where
  "sample_conn = \<lparr>cn_daemonId = ''d1'', cn_registrationId = ''r1'', cn_userId = Some 7, cn_daemonGeneration = 1\<rparr>"

definition sample_frame :: payload where
  "sample_frame = [(''type'', JStr ''agent_text''), (''seq'', JNum 1)]"

definition sample_start :: ingress_sys where
  "sample_start = \<lparr>sy_ctl = new_controller \<lparr>cc_flushDelayMs = None, cc_retryDelayMs = None\<rparr> empty_config,
     sy_db = empty_inbox_db, sy_next = 0, sy_accepted = [], sy_acks = []\<rparr>"

definition sample_accepted :: ingress_sys where
  "sample_accepted = (case accept 0 5 sample_conn sample_frame [] None (sy_ctl sample_start) of (r, ct) \<Rightarrow>
     sample_start\<lparr>sy_ctl := ct, sy_next := 1, sy_accepted := (if r = AcceptQueued EnqueueAccepted
       then [build_envelope 0 5 sample_conn sample_frame [] None 1] else [])\<rparr>)"

lemma sample_start_ok: "ingress_start sample_start"
  by (auto simp: ingress_start_def sample_start_def)

lemma sample_run: "ingress_step\<^sup>*\<^sup>* sample_start sample_accepted"
proof -
  obtain r ct where a: "accept 0 5 sample_conn sample_frame [] None (sy_ctl sample_start) = (r, ct)" by fastforce
  have "sy_next sample_start = 0" "sy_accepted sample_start = []" by (simp_all add: sample_start_def)
  moreover have "the (js_Number (jm_get sample_frame ''seq'')) = 1" by (simp add: sample_frame_def)
  moreover have "cn_daemonId sample_conn \<noteq> []" by (simp add: sample_conn_def)
  ultimately have "ingress_step sample_start sample_accepted"
    using sys_accept[of sample_conn sample_start 5 sample_frame "[]" None r ct] a
    by (cases "r = AcceptQueued EnqueueAccepted") (simp_all add: sample_accepted_def)
  then show ?thesis by simp
qed

theorem accepted_events_are_never_lost_witness:
  "sy_accepted sample_accepted = [build_envelope 0 5 sample_conn sample_frame [] None 1]
   \<and> (build_envelope 0 5 sample_conn sample_frame [] None 1 \<in># load (sy_ctl sample_accepted)
      \<or> stored (sy_db sample_accepted) (''d1'', 1) 1)"
proof -
  have "fst (accept 0 5 sample_conn sample_frame [] None (sy_ctl sample_start)) = AcceptQueued EnqueueAccepted"
    by code_simp
  then have a: "sy_accepted sample_accepted = [build_envelope 0 5 sample_conn sample_frame [] None 1]"
    by (cases "accept 0 5 sample_conn sample_frame [] None (sy_ctl sample_start)") (simp add: sample_accepted_def)
  have "stream_of (build_envelope 0 5 sample_conn sample_frame [] None 1) = (''d1'', 1)
      \<and> ie_seq (build_envelope 0 5 sample_conn sample_frame [] None 1) = 1"
    by (simp add: build_envelope_def stream_of_def sample_conn_def Let_def)
  then show ?thesis using accepted_events_are_never_lost[OF sample_start_ok sample_run] a by simp
qed

text \<open>
  C11. No wake-up is lost. In every reachable state in which the controller accepts frames and
  its queue is not empty, a flush is running or a timer for one is set; a running flush waits for
  exactly one batch, and exactly that batch is reserved in the queue.
\<close>

theorem queued_events_have_a_wakeup:
  assumes "ingress_start s0" and "ingress_step\<^sup>*\<^sup>* s0 s" and "ct_accepting (sy_ctl s)" and "0 < fq_size (ct_queue (sy_ctl s))"
  shows "(ct_timer (sy_ctl s) \<noteq> None \<or> ct_flushing (sy_ctl s))
    \<and> (ct_flushing (sy_ctl s) \<longrightarrow> (\<exists>b. ct_in_flight (sy_ctl s) = Some b \<and> mset (fq_reserved (ct_queue (sy_ctl s))) = mset b))"
  using ingress.inv_reachable[OF assms(1,2)] assms(3,4)
  by (auto simp: ingress_inv_def ctl_ok_def woken_def fq_held_def)

theorem queued_events_have_a_wakeup_witness:
  "\<not> (ct_timer (sy_ctl sample_accepted) = None \<and> \<not> ct_flushing (sy_ctl sample_accepted))"
proof -
  have "ct_accepting (sy_ctl sample_accepted) \<and> 0 < fq_size (ct_queue (sy_ctl sample_accepted))" by code_simp
  then show ?thesis using queued_events_have_a_wakeup[OF sample_start_ok sample_run] by blast
qed

end
