(* ===== verification/Message_Queue.thy ===== *)
theory Message_Queue
  imports Prelude
begin

text \<open>
  The per-session message queue of the relay: the pure state machine of
  \<open>session-message-queue/state.ts\<close> and the transactions of
  \<open>session-message-queue/service.ts\<close> over the tables they read.

  A command and an event payload are JSON objects. The hash of a message body is the parameter
  \<open>sha\<close> (\<open>createHash('sha256')\<close> of the crypto package), a fresh \<open>randomUUID()\<close> and the clock
  are arguments. Array elements are objects, so \<open>filter(i => i !== item)\<close> drops one position:
  the operations work on the index \<open>find\<close> stopped at. Event identifiers, kept by the code as
  decimal text of a \<open>bigint\<close> column, are integers. The fields \<open>turn_id\<close>, \<open>turn_status\<close> and
  \<open>reason\<close> of an event are strings, as the daemon's protocol has them; a value of another type
  there is read as an absent field.
\<close>

section \<open>The queue state\<close>

datatype item_state = Pending | Dispatching | Running | Unknown | Failed

record QueueItem =
  qi_id :: string
  qi_content :: string
  qi_request_id :: "string option"
  qi_state :: item_state
  qi_started_at :: "int option"
  qi_turn_id :: "string option"
  qi_terminal :: "string option"

record QueueState =
  qs_version :: int
  qs_items :: "QueueItem list"
  qs_blocked :: string
  qs_busy :: bool
  qs_busy_turn_id :: "string option"
  qs_cursor :: int
  qs_seen :: "(string, string) jsmap"

datatype QueueError =
    Invalid_Request
  | Request_Id_Conflict
  | Queue_Limit
  | Queue_Changed
  | Already_Started
  | Execution_Unresolved
  | Queue_Unavailable
  | Daemon_Offline
  | Dispatch_Threw string

definition emptyQueue :: "bool \<Rightarrow> int \<Rightarrow> QueueState" where
  "emptyQueue b c = \<lparr>qs_version = 0, qs_items = [], qs_blocked = [], qs_busy = b,
     qs_busy_turn_id = None, qs_cursor = c, qs_seen = []\<rparr>"

definition new_item :: "string \<Rightarrow> string \<Rightarrow> QueueItem" where
  "new_item i c = \<lparr>qi_id = i, qi_content = c, qi_request_id = None, qi_state = Pending,
     qi_started_at = None, qi_turn_id = None, qi_terminal = None\<rparr>"

text \<open>
  \<open>xs.findIndex(p)\<close>, and \<open>xs.filter(x => x !== xs[i])\<close> for an array of distinct objects.
\<close>

fun find_index :: "('a \<Rightarrow> bool) \<Rightarrow> 'a list \<Rightarrow> nat option" where
  "find_index P [] = None"
| "find_index P (x # xs) = (if P x then Some 0 else map_option Suc (find_index P xs))"

definition remove_at :: "nat \<Rightarrow> 'a list \<Rightarrow> 'a list" where
  "remove_at i xs = take i xs @ drop (Suc i) xs"

section \<open>Commands\<close>

text \<open>A string field of a JSON object, and the truthiness of a field.\<close>

definition str_field :: "payload \<Rightarrow> string \<Rightarrow> string option" where
  "str_field p k = (case jm_get p k of Some (JStr s) \<Rightarrow> Some s | _ \<Rightarrow> None)"

fun js_truthy :: "json option \<Rightarrow> bool" where
  "js_truthy None = False"
| "js_truthy (Some JNull) = False"
| "js_truthy (Some (JBool b)) = b"
| "js_truthy (Some (JNum n)) = (n \<noteq> 0)"
| "js_truthy (Some (JStr s)) = (s \<noteq> [])"
| "js_truthy (Some _) = True"

definition valid_enqueue :: "payload \<Rightarrow> (string \<times> string) option" where
  "valid_enqueue c =
     (case (str_field c ''item_id'', str_field c ''content'') of
        (Some i, Some b) \<Rightarrow>
          if i = [] \<or> 128 < length i \<or> js_trim b = [] \<or> 32768 < length b
             \<or> starts_with (js_trim_start b) ''/''
          then None else Some (i, b)
      | _ \<Rightarrow> None)"

definition enqueue_message :: "(string \<Rightarrow> string) \<Rightarrow> payload \<Rightarrow> QueueState \<Rightarrow> QueueError + QueueState" where
  "enqueue_message sha c s =
     (case valid_enqueue c of
        None \<Rightarrow> Inl Invalid_Request
      | Some (i, b) \<Rightarrow>
          (case jm_get (qs_seen s) i of
             Some h \<Rightarrow> if h \<noteq> sha b then Inl Request_Id_Conflict else Inr s
           | None \<Rightarrow>
               if 50 \<le> length (qs_items s) \<or> 10000 \<le> length (qs_seen s) then Inl Queue_Limit
               else Inr (s\<lparr>qs_items := qs_items s @ [new_item i b],
                           qs_seen := jm_set i (sha b) (qs_seen s),
                           qs_version := qs_version s + 1\<rparr>)))"

definition cancel_message :: "payload \<Rightarrow> QueueState \<Rightarrow> QueueError + QueueState" where
  "cancel_message c s =
     (case find_index (\<lambda>i. Some (JStr (qi_id i)) = jm_get c ''item_id'') (qs_items s) of
        None \<Rightarrow> Inl Already_Started
      | Some n \<Rightarrow>
          if qi_state (qs_items s ! n) \<in> {Pending, Failed}
          then Inr (s\<lparr>qs_items := remove_at n (qs_items s), qs_version := qs_version s + 1\<rparr>)
          else Inl Already_Started)"

definition movable :: "QueueItem list \<Rightarrow> QueueItem list" where
  "movable = filter (\<lambda>i. qi_state i = Pending)"

text \<open>\<open>items.map(i => i.state === 'pending' ? sorted[n++] : i)\<close>.\<close>

fun place :: "QueueItem list \<Rightarrow> QueueItem list \<Rightarrow> QueueItem list" where
  "place ordered [] = []"
| "place (y # ordered) (i # is) = (if qi_state i = Pending then y # place ordered is else i # place (y # ordered) is)"
| "place [] (i # is) = i # place [] is"

definition find_item :: "json \<Rightarrow> QueueItem list \<Rightarrow> QueueItem option" where
  "find_item v is = List.find (\<lambda>i. JStr (qi_id i) = v) is"

definition reorder_messages :: "payload \<Rightarrow> QueueState \<Rightarrow> QueueError + QueueState" where
  "reorder_messages c s =
     (case jm_get c ''item_ids'' of
        Some (JArr ids) \<Rightarrow>
          (let mv = movable (qs_items s) in
           if length ids \<noteq> length mv \<or> \<not> distinct ids \<or> list_ex (\<lambda>v. find_item v mv = None) ids
           then Inl Queue_Changed
           else Inr (s\<lparr>qs_items := place (map (\<lambda>v. the (find_item v mv)) ids) (qs_items s),
                       qs_version := qs_version s + 1\<rparr>))
      | _ \<Rightarrow> Inl Queue_Changed)"

definition reset_item :: "QueueItem \<Rightarrow> QueueItem" where
  "reset_item i = i\<lparr>qi_state := Pending, qi_request_id := None, qi_turn_id := None,
     qi_terminal := None, qi_started_at := None\<rparr>"

definition resume_queue :: "QueueState \<Rightarrow> QueueError + QueueState" where
  "resume_queue s =
     (if list_ex (\<lambda>i. qi_state i \<in> {Unknown, Dispatching, Running}) (qs_items s) then Inl Execution_Unresolved
      else Inr (s\<lparr>qs_blocked := [], qs_items := map reset_item (qs_items s), qs_version := qs_version s + 1\<rparr>))"

definition mutateQueue :: "(string \<Rightarrow> string) \<Rightarrow> payload \<Rightarrow> QueueState \<Rightarrow> QueueError + QueueState" where
  "mutateQueue sha c s =
     (let action = jm_get c ''action'' in
      if action = Some (JStr ''enqueue'') then enqueue_message sha c s
      else if jm_get c ''version'' \<noteq> Some (JNum (qs_version s)) then Inl Queue_Changed
      else if action = Some (JStr ''cancel'') then cancel_message c s
      else if action = Some (JStr ''reorder'') then reorder_messages c s
      else if action = Some (JStr ''resume'') then resume_queue s
      else Inl Invalid_Request)"

section \<open>Events\<close>

record queue_event =
  ev_id :: int
  ev_session :: string
  ev_type :: string
  ev_payload :: "payload option"

definition is_active :: "QueueItem \<Rightarrow> bool" where
  "is_active i = (qi_request_id i \<noteq> None \<and> qi_request_id i \<noteq> Some [] \<and> qi_state i \<in> {Dispatching, Running, Unknown})"

definition foreign_payload :: "payload \<Rightarrow> bool" where
  "foreign_payload p =
     (js_truthy (jm_get p ''agent_id'') \<or> js_truthy (jm_get p ''is_subagent'')
      \<or> jm_get p ''actor_scope'' = Some (JStr ''subagent'') \<or> js_truthy (jm_get p ''resync''))"

definition falsy :: "string option \<Rightarrow> bool" where
  "falsy v = (v = None \<or> v = Some [])"

definition upd_item :: "nat option \<Rightarrow> (QueueItem \<Rightarrow> QueueItem) \<Rightarrow> QueueState \<Rightarrow> QueueState" where
  "upd_item a f s = (case a of None \<Rightarrow> s | Some n \<Rightarrow> s\<lparr>qs_items := (qs_items s)[n := f (qs_items s ! n)]\<rparr>)"

definition RUNNING_STATUSES :: "string list" where
  "RUNNING_STATUSES = [''running'', ''waiting_approval'', ''waiting_question'', ''interrupt_requested'']"

definition TERMINAL_STATUSES :: "string list" where
  "TERMINAL_STATUSES = [''completed'', ''failed'', ''interrupted'', ''abandoned'']"

definition reduce_turn :: "nat option \<Rightarrow> string \<Rightarrow> string \<Rightarrow> QueueState \<Rightarrow> QueueState" where
  "reduce_turn active turn status s =
     (if status \<in> set RUNNING_STATUSES then
        upd_item active (\<lambda>i. if falsy (qi_turn_id i) then i\<lparr>qi_turn_id := Some turn\<rparr> else i)
          (s\<lparr>qs_busy := True, qs_busy_turn_id := Some turn\<rparr>)
      else if status \<in> set TERMINAL_STATUSES then
        upd_item active (\<lambda>i. if qi_turn_id i = Some turn then i\<lparr>qi_terminal := Some status\<rparr> else i)
          (if falsy (qs_busy_turn_id s) \<or> qs_busy_turn_id s = Some turn
           then s\<lparr>qs_busy := False, qs_busy_turn_id := None,
                  qs_blocked := (if status \<noteq> ''completed'' then status else qs_blocked s)\<rparr>
           else s)
      else s)"

definition reduce_correlated :: "nat \<Rightarrow> string \<Rightarrow> payload \<Rightarrow> QueueState \<Rightarrow> QueueState" where
  "reduce_correlated n ty p s =
     (if ty = ''queue_dispatch_started'' then
        upd_item (Some n) (\<lambda>i. i\<lparr>qi_state := Running\<rparr>)
          (if qs_blocked s = ''execution_unresolved'' then s\<lparr>qs_blocked := []\<rparr> else s)
      else if ty = ''user_message_receipt'' \<and> jm_get p ''status'' = Some (JStr ''rejected'') then
        upd_item (Some n) (\<lambda>i. i\<lparr>qi_state := Failed\<rparr>)
          (s\<lparr>qs_blocked := (case str_field p ''reason'' of None \<Rightarrow> ''rejected'' | Some r \<Rightarrow> if r = [] then ''rejected'' else r)\<rparr>)
      else if ty = ''error'' then
        upd_item (Some n) (\<lambda>i. i\<lparr>qi_state := Unknown\<rparr>) (s\<lparr>qs_blocked := ''execution_unresolved''\<rparr>)
      else s)"

definition finish_active :: "nat \<Rightarrow> QueueState \<Rightarrow> QueueState" where
  "finish_active n s =
     (let i = qs_items s ! n in
      if qi_state i = Running \<and> \<not> falsy (qi_terminal i)
      then s\<lparr>qs_items := remove_at n (qs_items s),
             qs_blocked := (if qi_terminal i \<noteq> Some ''completed'' then the (qi_terminal i) else qs_blocked s)\<rparr>
      else s)"

definition turn_part :: "nat option \<Rightarrow> queue_event \<Rightarrow> payload \<Rightarrow> QueueState \<Rightarrow> QueueState" where
  "turn_part active e p s =
     (case str_field p ''turn_id'' of
        None \<Rightarrow> s
      | Some turn \<Rightarrow>
          if ev_type e = ''turn_status'' \<and> turn \<noteq> [] then
            (case str_field p ''turn_status'' of None \<Rightarrow> s | Some status \<Rightarrow> reduce_turn active turn status s)
          else s)"

definition reduceQueueEvent :: "QueueState \<Rightarrow> queue_event \<Rightarrow> QueueState" where
  "reduceQueueEvent s e =
     (case ev_payload e of
        None \<Rightarrow> s
      | Some p \<Rightarrow>
          if foreign_payload p then s
          else
            (let active = find_index is_active (qs_items s);
                 s1 = turn_part active e p s
             in case active of
                  None \<Rightarrow> s1
                | Some n \<Rightarrow>
                    finish_active n
                      (if jm_get p ''request_id'' = map_option JStr (qi_request_id (qs_items s1 ! n))
                       then reduce_correlated n (ev_type e) p s1 else s1)))"

section \<open>Claims\<close>

definition expired_dispatch :: "int \<Rightarrow> QueueItem \<Rightarrow> bool" where
  "expired_dispatch t i =
     (qi_state i = Dispatching \<and> 30000 < t - (case qi_started_at i of None \<Rightarrow> t | Some u \<Rightarrow> u))"

definition expire_item :: "int \<Rightarrow> QueueItem \<Rightarrow> QueueItem" where
  "expire_item t i = (if expired_dispatch t i then i\<lparr>qi_state := Unknown\<rparr> else i)"

definition expire_dispatches :: "int \<Rightarrow> QueueState \<Rightarrow> QueueState" where
  "expire_dispatches t s =
     (let k = length (filter (expired_dispatch t) (qs_items s)) in
      s\<lparr>qs_items := map (expire_item t) (qs_items s),
        qs_blocked := (if 0 < k then ''execution_unresolved'' else qs_blocked s),
        qs_version := qs_version s + int k\<rparr>)"

definition claimQueue :: "QueueState \<Rightarrow> bool \<Rightarrow> int \<Rightarrow> string \<Rightarrow> QueueItem option \<times> QueueState" where
  "claimQueue s online t uuid =
     (let s1 = expire_dispatches t s in
      if \<not> online \<or> qs_busy s1 \<or> qs_blocked s1 \<noteq> [] \<or> list_ex (\<lambda>i. qi_state i \<noteq> Pending) (qs_items s1)
      then (None, s1)
      else (case qs_items s1 of
              [] \<Rightarrow> (None, s1)
            | i # is \<Rightarrow>
                let i' = i\<lparr>qi_state := Dispatching, qi_request_id := Some uuid, qi_started_at := Some t\<rparr>
                in (Some i', s1\<lparr>qs_items := i' # is, qs_version := qs_version s1 + 1\<rparr>)))"

section \<open>The tables the service reads\<close>

record session_row =
  sr_session_id :: string
  sr_user_id :: int
  sr_daemon_id :: "string option"
  sr_agent_type :: "string option"
  sr_source :: "string option"
  sr_control_mode :: "string option"
  sr_capabilities :: "string list"
  sr_status :: "string option"

record SessionRuntimePolicy =
  daemonId :: "string option"
  agentType :: string
  source :: "string option"
  controlMode :: "string option"
  capabilities :: "string list"
  pol_status :: "string option"

record binding_row =
  bd_native_session :: string
  bd_owner :: int
  bd_state :: string
  bd_team_session :: string

record queue_row =
  qr_session_id :: string
  qr_user :: int
  qr_state :: QueueState
  qr_updated_at :: int

record queue_db =
  db_sessions :: "session_row list"
  db_deleted :: "string list"
  db_subagents :: "string list"
  db_bindings :: "binding_row list"
  db_team_sessions :: "(string \<times> string) list"
  db_events :: "queue_event list"
  db_queues :: "queue_row list"

definition getSessionRuntimePolicy :: "queue_db \<Rightarrow> string \<Rightarrow> int \<Rightarrow> SessionRuntimePolicy option" where
  "getSessionRuntimePolicy db sid uid =
     map_option (\<lambda>r. \<lparr>daemonId = sr_daemon_id r,
         agentType = (case sr_agent_type r of None \<Rightarrow> [] | Some a \<Rightarrow> a),
         source = sr_source r, controlMode = sr_control_mode r,
         capabilities = sr_capabilities r, pol_status = sr_status r\<rparr>)
       (List.find (\<lambda>r. sr_session_id r = sid \<and> sr_user_id r = uid \<and> \<not> starts_with (sr_session_id r) ''pending-'')
          (db_sessions db))"

definition isSessionDeleted :: "queue_db \<Rightarrow> string \<Rightarrow> bool" where
  "isSessionDeleted db sid = (sid \<in> set (db_deleted db))"

definition isCollaborationManagedSession :: "queue_db \<Rightarrow> int \<Rightarrow> string \<Rightarrow> bool" where
  "isCollaborationManagedSession db uid sid =
     list_ex (\<lambda>b. bd_native_session b = sid \<and> bd_owner b = uid \<and> bd_state b = ''active''
        \<and> list_ex (\<lambda>(t, st). t = bd_team_session b \<and> (st = ''active'' \<or> st = ''paused'')) (db_team_sessions db))
       (db_bindings db)"

definition authorize :: "queue_db \<Rightarrow> int \<Rightarrow> string \<Rightarrow> bool \<Rightarrow> QueueError + SessionRuntimePolicy" where
  "authorize db uid sid requireCapability =
     (case getSessionRuntimePolicy db sid uid of
        None \<Rightarrow> Inl Queue_Unavailable
      | Some p \<Rightarrow>
          if falsy (daemonId p) then Inl Queue_Unavailable
          else if \<not> requireCapability then Inr p
          else if agentType p \<notin> {''claude-code'', ''codex'', ''opencode'', ''dsh''}
             \<or> ''message_queue_v1'' \<notin> set (capabilities p) \<or> controlMode p = Some ''legacy_read_only''
             \<or> isSessionDeleted db sid \<or> isCollaborationManagedSession db uid sid
          then Inl Queue_Unavailable
          else if sid \<in> set (db_subagents db) then Inl Queue_Unavailable
          else Inr p)"

section \<open>Transactions\<close>

definition PAGE :: nat where
  "PAGE = 500"

definition relevant :: "string \<Rightarrow> int \<Rightarrow> queue_event \<Rightarrow> bool" where
  "relevant sid c e = (ev_session e = sid \<and> c < ev_id e
     \<and> ev_type e \<in> {''turn_status'', ''queue_dispatch_started'', ''user_message_receipt'', ''error''})"

text \<open>\<open>WHERE ... ORDER BY id LIMIT 500\<close>.\<close>

definition pending_events :: "queue_event list \<Rightarrow> string \<Rightarrow> int \<Rightarrow> queue_event list" where
  "pending_events es sid c = sort_key ev_id (filter (relevant sid c) es)"

definition event_page :: "queue_event list \<Rightarrow> string \<Rightarrow> int \<Rightarrow> queue_event list" where
  "event_page es sid c = take PAGE (pending_events es sid c)"

definition apply_event :: "QueueState \<Rightarrow> queue_event \<Rightarrow> QueueState" where
  "apply_event s e = (let s1 = reduceQueueEvent s e in s1\<lparr>qs_cursor := ev_id e, qs_version := qs_version s1 + 1\<rparr>)"

lemma cursor_foldl: "es \<noteq> [] \<Longrightarrow> qs_cursor (foldl apply_event s es) = ev_id (last es)"
  by (induction es rule: rev_induct) (simp_all add: apply_event_def Let_def)

lemma page_last_relevant:
  assumes "length (event_page es sid c) = PAGE"
  shows "last (event_page es sid c) \<in> set es \<and> relevant sid c (last (event_page es sid c))"
proof -
  have "event_page es sid c \<noteq> []" using assms by (auto simp: PAGE_def)
  then have "last (event_page es sid c) \<in> set (event_page es sid c)" by simp
  then show ?thesis by (auto simp: event_page_def pending_events_def dest!: in_set_takeD)
qed

lemma fewer_relevant:
  assumes "e \<in> set es" and "relevant sid c e"
  shows "length (filter (relevant sid (ev_id e)) es) < length (filter (relevant sid c) es)"
proof -
  have "filter (relevant sid (ev_id e)) es = filter (relevant sid (ev_id e)) (filter (relevant sid c) es)"
    using assms(2) by (auto simp: relevant_def intro!: filter_cong)
  moreover have "\<not> relevant sid (ev_id e) e" by (simp add: relevant_def)
  moreover have "e \<in> set (filter (relevant sid c) es)" using assms by simp
  ultimately show ?thesis by (metis length_filter_less)
qed

text \<open>The page loop of \<open>lock\<close>: it ends because every full page moves the cursor.\<close>

function drain_events :: "queue_event list \<Rightarrow> string \<Rightarrow> QueueState \<Rightarrow> QueueState" where
  "drain_events es sid s =
     (let page = event_page es sid (qs_cursor s);
          s' = foldl apply_event s page
      in if length page = PAGE then drain_events es sid s' else s')"
  by pat_completeness auto
termination
proof (relation "measure (\<lambda>(es, sid, s). length (filter (relevant sid (qs_cursor s)) es))", goal_cases)
  case 1
  show ?case by simp
next
  case (2 es sid s page s')
  then have ne: "page \<noteq> []" by (auto simp: PAGE_def)
  have "qs_cursor s' = ev_id (last page)" using 2 ne by (simp add: cursor_foldl)
  moreover have "last page \<in> set es" "relevant sid (qs_cursor s) (last page)"
    using page_last_relevant[of es sid "qs_cursor s"] 2 by auto
  ultimately show ?case by (simp add: fewer_relevant)
qed

declare drain_events.simps [simp del]

definition max_event_id :: "queue_db \<Rightarrow> string \<Rightarrow> int" where
  "max_event_id db sid = fold max (map ev_id (filter (\<lambda>e. ev_session e = sid) (db_events db))) 0"

definition initial_queue :: "queue_db \<Rightarrow> string \<Rightarrow> SessionRuntimePolicy \<Rightarrow> QueueState" where
  "initial_queue db sid p =
     (let st = (case pol_status p of None \<Rightarrow> [] | Some x \<Rightarrow> x);
          q = emptyQueue (st \<notin> {''idle'', ''completed'', ''exited'', ''error'', ''killed''}) (max_event_id db sid)
      in if st \<in> {''error'', ''killed''} then q\<lparr>qs_blocked := st\<rparr> else q)"

definition stored_queue :: "queue_db \<Rightarrow> int \<Rightarrow> string \<Rightarrow> QueueState option" where
  "stored_queue db uid sid =
     map_option qr_state (List.find (\<lambda>r. qr_session_id r = sid \<and> qr_user r = uid) (db_queues db))"

text \<open>\<open>INSERT ... ON CONFLICT (session_id) DO UPDATE SET state, updated_at\<close>: the owner stays.\<close>

definition upsert_queue :: "int \<Rightarrow> string \<Rightarrow> int \<Rightarrow> QueueState \<Rightarrow> queue_db \<Rightarrow> queue_db" where
  "upsert_queue uid sid t s db =
     (if list_ex (\<lambda>r. qr_session_id r = sid) (db_queues db)
      then db\<lparr>db_queues := map (\<lambda>r. if qr_session_id r = sid then r\<lparr>qr_state := s, qr_updated_at := t\<rparr> else r) (db_queues db)\<rparr>
      else db\<lparr>db_queues := db_queues db @ [\<lparr>qr_session_id = sid, qr_user = uid, qr_state = s, qr_updated_at = t\<rparr>]\<rparr>)"

text \<open>
  The locked transaction: \<open>fn\<close> works on the caught-up state and returns, besides its result, the
  values it makes visible outside the transaction, which a rollback does not take back.
  \<open>pg_advisory_xact_lock\<close> and \<open>FOR UPDATE\<close> make two transactions of a session follow each
  other, so one is one step.
\<close>

type_synonym 'o locked_operation =
  "SessionRuntimePolicy \<Rightarrow> QueueState \<Rightarrow> (QueueError + QueueState) \<times> 'o list"

definition locked_state :: "queue_db \<Rightarrow> int \<Rightarrow> string \<Rightarrow> SessionRuntimePolicy \<Rightarrow> QueueState" where
  "locked_state db uid sid p =
     drain_events (db_events db) sid
       (case stored_queue db uid sid of Some s \<Rightarrow> s | None \<Rightarrow> initial_queue db sid p)"

definition lock :: "int \<Rightarrow> string \<Rightarrow> 'o locked_operation \<Rightarrow> bool \<Rightarrow> int \<Rightarrow> queue_db
    \<Rightarrow> (QueueError + QueueState) \<times> 'o list \<times> queue_db" where
  "lock uid sid fn requireCapability t db =
     (case authorize db uid sid requireCapability of
        Inl e \<Rightarrow> (Inl e, [], db)
      | Inr p \<Rightarrow>
          (case fn p (locked_state db uid sid p) of
             (Inl e, out) \<Rightarrow> (Inl e, out, db)
           | (Inr s, out) \<Rightarrow> (Inr s, out, upsert_queue uid sid t s db)))"

definition command_op :: "(string \<Rightarrow> string) \<Rightarrow> (string \<Rightarrow> int \<Rightarrow> bool) \<Rightarrow> int \<Rightarrow> payload \<Rightarrow> unit locked_operation" where
  "command_op sha online uid c p s =
     (if jm_get c ''action'' = Some (JStr ''read'') then (Inr s, [])
      else if \<not> online (the (daemonId p)) uid then (Inl Daemon_Offline, [])
      else (mutateQueue sha c s, []))"

definition command :: "(string \<Rightarrow> string) \<Rightarrow> (string \<Rightarrow> int \<Rightarrow> bool) \<Rightarrow> int \<Rightarrow> string \<Rightarrow> payload \<Rightarrow> int \<Rightarrow> queue_db
    \<Rightarrow> (QueueError + QueueState) \<times> unit list \<times> queue_db" where
  "command sha online uid sid c t db = lock uid sid (command_op sha online uid c) True t db"

definition hold_op :: "unit locked_operation" where
  "hold_op p s = (Inr (s\<lparr>qs_blocked := ''stopped'', qs_version := qs_version s + 1\<rparr>), [])"

definition hold :: "int \<Rightarrow> string \<Rightarrow> int \<Rightarrow> queue_db \<Rightarrow> (QueueError + unit) \<times> queue_db" where
  "hold uid sid t db =
     (if stored_queue db uid sid = None then (Inr (), db)
      else (case lock uid sid hold_op False t db of
              (Inl e, _, db') \<Rightarrow> (Inl e, db')
            | (Inr _, _, db') \<Rightarrow> (Inr (), db')))"

definition claim_op :: "(string \<Rightarrow> int \<Rightarrow> bool) \<Rightarrow> int \<Rightarrow> int \<Rightarrow> string \<Rightarrow> QueueItem locked_operation" where
  "claim_op online uid t uuid p s =
     (case claimQueue s (online (the (daemonId p)) uid) t uuid of
        (None, s') \<Rightarrow> (Inr s', [])
      | (Some i, s') \<Rightarrow> (Inr s', [i]))"

definition release_item :: "QueueItem \<Rightarrow> QueueItem" where
  "release_item i = i\<lparr>qi_state := Pending, qi_request_id := None, qi_started_at := None\<rparr>"

text \<open>
  The second transaction of \<open>tick\<close>. The outcome of \<open>dispatch\<close> is \<open>Inl\<close> when it throws and
  otherwise the error text it resolves to, if any; an item it is called with is sent.
\<close>

definition dispatch_op :: "(string \<Rightarrow> int \<Rightarrow> bool) \<Rightarrow> (QueueItem \<Rightarrow> string + string option) \<Rightarrow> int \<Rightarrow> QueueItem
    \<Rightarrow> QueueItem locked_operation" where
  "dispatch_op online dispatch uid claimed p s =
     (case find_index (\<lambda>i. qi_request_id i = qi_request_id claimed) (qs_items s) of
        None \<Rightarrow> (Inr s, [])
      | Some n \<Rightarrow>
          if qi_state (qs_items s ! n) \<noteq> Dispatching then (Inr s, [])
          else if qs_blocked s \<noteq> [] \<or> \<not> online (the (daemonId p)) uid
          then (Inr ((upd_item (Some n) release_item s)\<lparr>qs_version := qs_version s + 1\<rparr>), [])
          else (case dispatch claimed of
                  Inl e \<Rightarrow> (Inl (Dispatch_Threw e), [claimed])
                | Inr None \<Rightarrow> (Inr s, [claimed])
                | Inr (Some e) \<Rightarrow>
                    if e = [] then (Inr s, [claimed])
                    else (Inr ((upd_item (Some n) (\<lambda>i. i\<lparr>qi_state := Failed\<rparr>) s)
                              \<lparr>qs_blocked := e, qs_version := qs_version s + 1\<rparr>), [claimed])))"

text \<open>The environment of one tick: the clock, the fresh identifier, the links and the router.\<close>

record tick_env =
  te_now :: int
  te_uuid :: "string \<Rightarrow> string"
  te_online1 :: "string \<Rightarrow> int \<Rightarrow> bool"
  te_online2 :: "string \<Rightarrow> int \<Rightarrow> bool"
  te_dispatch :: "int \<Rightarrow> string \<Rightarrow> QueueItem \<Rightarrow> string + string option"

definition tick_row :: "tick_env \<Rightarrow> int \<times> string \<Rightarrow> queue_db \<Rightarrow> QueueItem list \<times> queue_db" where
  "tick_row env row db =
     (case row of (uid, sid) \<Rightarrow>
       (case lock uid sid (claim_op (te_online1 env) uid (te_now env) (te_uuid env sid)) True (te_now env) db of
          (Inr _, [claimed], db1) \<Rightarrow>
            (case lock uid sid (dispatch_op (te_online2 env) (te_dispatch env uid sid) uid claimed) True (te_now env) db1 of
               (_, sent, db2) \<Rightarrow> (sent, db2))
        | (_, _, db1) \<Rightarrow> ([], db1)))"

definition tick_rows :: "queue_db \<Rightarrow> (int \<times> string) list" where
  "tick_rows db = map (\<lambda>r. (qr_user r, qr_session_id r))
     (take 100 (sort_key qr_updated_at (filter (\<lambda>r. qs_items (qr_state r) \<noteq> []) (db_queues db))))"

fun tick_all :: "tick_env \<Rightarrow> (int \<times> string) list \<Rightarrow> queue_db \<Rightarrow> QueueItem list \<times> queue_db" where
  "tick_all env [] db = ([], db)"
| "tick_all env (row # rows) db =
     (case tick_row env row db of (sent, db1) \<Rightarrow>
      case tick_all env rows db1 of (sent', db2) \<Rightarrow> (sent @ sent', db2))"

text \<open>The \<open>ticking\<close> flag turns an overlapping call into a no-op.\<close>

definition tick :: "bool \<Rightarrow> tick_env \<Rightarrow> queue_db \<Rightarrow> QueueItem list \<times> queue_db" where
  "tick ticking env db = (if ticking then ([], db) else tick_all env (tick_rows db) db)"

text \<open>The interval timer of \<open>start\<close> and \<open>stop\<close>; both may be called any number of times.\<close>

record MessageQueueService =
  mqs_timer :: bool
  mqs_ticking :: bool

definition mqs_start :: "MessageQueueService \<Rightarrow> MessageQueueService" where
  "mqs_start m = (if mqs_timer m then m else m\<lparr>mqs_timer := True\<rparr>)"

definition mqs_stop :: "MessageQueueService \<Rightarrow> MessageQueueService" where
  "mqs_stop m = m\<lparr>mqs_timer := False\<rparr>"

end
