(* ===== verification/Message_Queue_Correct.thy ===== *)
theory Message_Queue_Correct
  imports Message_Queue
begin

text \<open>
  Correctness of the message queue. The invariant \<open>mq_inv\<close> says that the items have distinct
  identifiers that are all remembered in \<open>seen\<close>, that the two limits hold, and that at most one
  item is in flight: everything that is not pending is one item with a request identifier. The step
  relation \<open>mq_step\<close> has one rule for each way the service changes a queue.
\<close>

section \<open>Positions in a list\<close>

lemma find_index_Some: "find_index P xs = Some n \<Longrightarrow> n < length xs \<and> P (xs ! n)"
  by (induction xs arbitrary: n) (auto split: if_splits simp: less_Suc_eq_0_disj)

lemma find_index_None: "find_index P xs = None \<longleftrightarrow> (\<forall>x \<in> set xs. \<not> P x)"
  by (induction xs) auto

lemma find_index_unique:
  "n < length xs \<Longrightarrow> P (xs ! n) \<Longrightarrow> (\<And>i. i < length xs \<Longrightarrow> P (xs ! i) \<Longrightarrow> i = n) \<Longrightarrow> find_index P xs = Some n"
  by (metis find_index_None find_index_Some nth_mem option.exhaust)

lemma set_remove_at: "set (remove_at n xs) \<subseteq> set xs"
  by (auto simp: remove_at_def dest: in_set_takeD in_set_dropD)

lemma length_remove_at: "length (remove_at n xs) \<le> length xs"
  by (auto simp: remove_at_def)

lemma mset_remove_at: "n < length xs \<Longrightarrow> mset xs = add_mset (xs ! n) (mset (remove_at n xs))"
  by (metis id_take_nth_drop mset.simps(2) mset_append remove_at_def union_mset_add_mset_right)

lemma map_remove_at: "map f (remove_at n xs) = remove_at n (map f xs)"
  by (simp add: remove_at_def take_map drop_map)

lemma distinct_remove_at: "distinct xs \<Longrightarrow> distinct (remove_at n xs)"
  unfolding remove_at_def using set_take_disj_set_drop_if_distinct[of xs n "Suc n"] by simp

lemma filter_split:
  assumes "n < length xs"
  shows "length (filter P xs) = length (filter P (take n xs)) + (if P (xs ! n) then 1 else 0) + length (filter P (drop (Suc n) xs))"
proof -
  have "length (filter P xs) = length (filter P (take n xs @ xs ! n # drop (Suc n) xs))"
    using id_take_nth_drop[OF assms] by simp
  then show ?thesis by simp
qed

lemma filter_remove_at:
  "n < length xs \<Longrightarrow> length (filter P (remove_at n xs)) = length (filter P xs) - (if P (xs ! n) then 1 else 0)"
  by (simp add: filter_split remove_at_def)

lemma filter_update_le:
  assumes "n < length xs" and "P x \<longrightarrow> P (xs ! n)"
  shows "length (filter P (xs[n := x])) \<le> length (filter P xs)"
  using assms by (simp add: filter_split upd_conv_take_nth_drop)

section \<open>The invariant\<close>

definition item_ok :: "QueueItem \<Rightarrow> bool" where
  "item_ok i \<longleftrightarrow> (if qi_state i = Pending then qi_request_id i = None \<and> qi_started_at i = None
     else \<not> falsy (qi_request_id i) \<and> qi_started_at i \<noteq> None)"

definition mq_inv :: "QueueState \<Rightarrow> bool" where
  "mq_inv s \<longleftrightarrow>
     distinct (map qi_id (qs_items s))
     \<and> (\<forall>i \<in> set (qs_items s). qi_id i \<in> set (jm_keys (qs_seen s)))
     \<and> length (qs_items s) \<le> 50 \<and> length (qs_seen s) \<le> 10000 \<and> jm_wf (qs_seen s)
     \<and> length (filter (\<lambda>i. qi_state i \<noteq> Pending) (qs_items s)) \<le> 1
     \<and> list_all item_ok (qs_items s)"

lemma mq_invI:
  assumes "distinct (map qi_id (qs_items s))"
    and "\<And>i. i \<in> set (qs_items s) \<Longrightarrow> qi_id i \<in> set (jm_keys (qs_seen s))"
    and "length (qs_items s) \<le> 50" and "length (qs_seen s) \<le> 10000" and "jm_wf (qs_seen s)"
    and "length (filter (\<lambda>i. qi_state i \<noteq> Pending) (qs_items s)) \<le> 1"
    and "\<And>i. i \<in> set (qs_items s) \<Longrightarrow> item_ok i"
  shows "mq_inv s"
  using assms unfolding mq_inv_def list_all_iff by blast

lemma mq_invD:
  assumes "mq_inv s"
  shows "distinct (map qi_id (qs_items s))"
    and "i \<in> set (qs_items s) \<Longrightarrow> qi_id i \<in> set (jm_keys (qs_seen s))"
    and "length (qs_items s) \<le> 50" and "length (qs_seen s) \<le> 10000" and "jm_wf (qs_seen s)"
    and "length (filter (\<lambda>i. qi_state i \<noteq> Pending) (qs_items s)) \<le> 1"
    and "i \<in> set (qs_items s) \<Longrightarrow> item_ok i"
  using assms unfolding mq_inv_def list_all_iff by blast+

text \<open>The invariant does not read the flags, the cursor or the version.\<close>

lemma mq_inv_cong: "qs_items s = qs_items t \<Longrightarrow> qs_seen s = qs_seen t \<Longrightarrow> mq_inv s = mq_inv t"
  by (simp add: mq_inv_def)

lemma mq_inv_remove:
  assumes "mq_inv s" and "n < length (qs_items s)"
  shows "mq_inv (s\<lparr>qs_items := remove_at n (qs_items s)\<rparr>)"
proof (rule mq_invI, goal_cases)
  case 6
  then show ?case using mq_invD(6)[OF assms(1)] filter_remove_at[OF assms(2), of "\<lambda>i. qi_state i \<noteq> Pending"] by simp
qed (use assms set_remove_at[of n "qs_items s"] length_remove_at[of n "qs_items s"] in
      \<open>auto dest: mq_invD simp: map_remove_at distinct_remove_at intro: le_trans\<close>)

text \<open>An update of one item that keeps its identifier and does not take a pending item into flight.\<close>

lemma mq_inv_update:
  assumes inv: "mq_inv s" and n: "n < length (qs_items s)"
    and f: "qi_id (f (qs_items s ! n)) = qi_id (qs_items s ! n)" "item_ok (f (qs_items s ! n))"
    and st: "qi_state (f (qs_items s ! n)) \<noteq> Pending \<longrightarrow> qi_state (qs_items s ! n) \<noteq> Pending"
  shows "mq_inv (upd_item (Some n) f s)"
proof -
  let ?is = "qs_items s" and ?x = "f (qs_items s ! n)"
  have ids: "map qi_id (?is[n := ?x]) = map qi_id ?is"
    by (simp add: map_update f(1) n list_update_same_conv)
  show ?thesis
  proof (rule mq_invI, goal_cases)
    case 1 then show ?case using inv ids by (simp add: upd_item_def mq_invD)
  next
    case (2 i) then show ?case using set_update_subset_insert[of ?is n ?x] mq_invD(2)[OF inv] f(1) n
      by (auto simp: upd_item_def)
  next
    case 6 then show ?case
      using filter_update_le[OF n, of "\<lambda>i. qi_state i \<noteq> Pending", OF st] mq_invD(6)[OF inv]
      by (simp add: upd_item_def)
  next
    case (7 i) then show ?case using set_update_subset_insert[of ?is n ?x] mq_invD(7)[OF inv] f(2)
      by (auto simp: upd_item_def)
  qed (use inv in \<open>auto simp: upd_item_def dest: mq_invD\<close>)
qed

section \<open>Reordering\<close>

lemma place_parts:
  assumes "length ys = length (movable is)" and "\<forall>y \<in> set ys. qi_state y = Pending"
  shows "movable (place ys is) = ys"
    and "filter (\<lambda>i. qi_state i \<noteq> Pending) (place ys is) = filter (\<lambda>i. qi_state i \<noteq> Pending) is"
    and "length (place ys is) = length is"
  using assms by (induction ys "is" rule: place.induct) (auto simp: movable_def split: if_splits)

lemma place_keeps_flight:
  "length ys = length (movable is) \<Longrightarrow> n < length is \<Longrightarrow> qi_state (is ! n) \<noteq> Pending \<Longrightarrow> place ys is ! n = is ! n"
  by (induction ys "is" arbitrary: n rule: place.induct)
    (auto simp: movable_def nth_Cons split: if_splits nat.splits)

lemma find_item_Some: "find_item v is = Some i \<Longrightarrow> i \<in> set is \<and> JStr (qi_id i) = v"
  by (auto simp: find_item_def find_Some_iff)

text \<open>The identifiers of an accepted reorder name every movable item once.\<close>

lemma reorder_selection:
  assumes "length ids = length mv" and "distinct ids" and "\<not> list_ex (\<lambda>v. find_item v mv = None) ids"
    and "distinct (map qi_id mv)"
  defines "ys \<equiv> map (\<lambda>v. the (find_item v mv)) ids"
  shows "map (\<lambda>i. JStr (qi_id i)) ys = ids" and "mset ys = mset mv"
proof -
  have found: "the (find_item v mv) \<in> set mv \<and> JStr (qi_id (the (find_item v mv))) = v" if "v \<in> set ids" for v
    using assms(3) that find_item_Some by (fastforce simp: list_ex_iff)
  show names: "map (\<lambda>i. JStr (qi_id i)) ys = ids"
    unfolding ys_def map_map using found by (auto intro!: map_idI)
  have sub: "set ys \<subseteq> set mv" unfolding ys_def using found by auto
  have dist: "distinct ys" using assms(2) names by (metis distinct_map)
  have dmv: "distinct mv" using assms(4) distinct_map by blast
  have "card (set ys) = card (set mv)" using dist dmv assms(1) by (metis distinct_card length_map ys_def)
  then have "set ys = set mv" using sub by (simp add: card_subset_eq)
  then show "mset ys = mset mv" using dist dmv set_eq_iff_mset_eq_distinct by blast
qed

lemma mset_movable: "mset is = mset (movable is) + mset (filter (\<lambda>i. qi_state i \<noteq> Pending) is)"
  by (simp add: movable_def)

lemma reorder_spec:
  assumes inv: "mq_inv s" and ok: "reorder_messages c s = Inr t"
  obtains ids where "jm_get c ''item_ids'' = Some (JArr ids)"
    and "map (\<lambda>i. JStr (qi_id i)) (movable (qs_items t)) = ids"
    and "mset (qs_items t) = mset (qs_items s)"
    and "\<And>n. n < length (qs_items s) \<Longrightarrow> qi_state (qs_items s ! n) \<noteq> Pending \<Longrightarrow> qs_items t ! n = qs_items s ! n"
    and "qs_seen t = qs_seen s"
proof -
  let ?mv = "movable (qs_items s)"
  obtain ids where ids: "jm_get c ''item_ids'' = Some (JArr ids)"
    and g: "length ids = length ?mv" "distinct ids" "\<not> list_ex (\<lambda>v. find_item v ?mv = None) ids"
    and t: "t = s\<lparr>qs_items := place (map (\<lambda>v. the (find_item v ?mv)) ids) (qs_items s), qs_version := qs_version s + 1\<rparr>"
    using ok by (auto simp: reorder_messages_def Let_def split: option.splits json.splits if_splits)
  define ys where "ys = map (\<lambda>v. the (find_item v ?mv)) ids"
  have dmv: "distinct (map qi_id ?mv)"
    using mq_invD(1)[OF inv] by (simp add: movable_def distinct_map_filter)
  note sel = reorder_selection[OF g dmv, folded ys_def]
  have pend: "\<forall>y \<in> set ys. qi_state y = Pending"
    using sel(2) mset_eq_setD by (fastforce simp: movable_def)
  have len: "length ys = length ?mv" using g by (simp add: ys_def)
  note parts = place_parts[OF len pend]
  have "mset (qs_items t) = mset (place ys (qs_items s))" by (simp add: t flip: ys_def)
  also have "\<dots> = mset ys + mset (filter (\<lambda>i. qi_state i \<noteq> Pending) (qs_items s))"
    by (subst mset_movable) (simp only: parts)
  also have "\<dots> = mset (qs_items s)"
    unfolding sel(2) by (rule mset_movable[symmetric])
  finally have "mset (qs_items t) = mset (qs_items s)" .
  moreover have "map (\<lambda>i. JStr (qi_id i)) (movable (qs_items t)) = ids"
    using parts(1) sel(1) by (simp add: t flip: ys_def)
  moreover have "qs_items t ! n = qs_items s ! n" if "n < length (qs_items s)" "qi_state (qs_items s ! n) \<noteq> Pending" for n
    using place_keeps_flight[OF len that] by (simp add: t flip: ys_def)
  ultimately show thesis using that[OF ids] t by simp
qed

section \<open>Every operation keeps the invariant\<close>

lemma mq_inv_mset:
  assumes "mq_inv s" and m: "mset (qs_items t) = mset (qs_items s)" and "qs_seen t = qs_seen s"
  shows "mq_inv t"
proof -
  have "set (qs_items t) = set (qs_items s)" "length (qs_items t) = length (qs_items s)"
    using m mset_eq_setD mset_eq_length by blast+
  moreover have "length (filter P (qs_items t)) = length (filter P (qs_items s))" for P
    using m by (metis mset_filter size_mset)
  moreover have "distinct (map qi_id (qs_items t)) = distinct (map qi_id (qs_items s))"
    using m by (metis mset_map mset_eq_imp_distinct_iff)
  ultimately show ?thesis using assms by (simp add: mq_inv_def list_all_iff)
qed

lemma set_keys_update: "fst ` set (jm_set k v m) = insert k (fst ` set m)"
  by (induction m) auto

lemma qi_id_new_item [simp]: "qi_id (new_item i b) = i"
  by (simp add: new_item_def)

lemma item_ok_new_item [simp]: "item_ok (new_item i b)"
  by (simp add: new_item_def item_ok_def)

lemma enqueue_message_inv:
  assumes inv: "mq_inv s" and ok: "enqueue_message sha c s = Inr t"
  shows "mq_inv t"
proof -
  obtain i b where v: "valid_enqueue c = Some (i, b)"
    using ok by (auto simp: enqueue_message_def split: option.splits)
  show ?thesis
  proof (cases "jm_get (qs_seen s) i")
    case (Some h)
    then show ?thesis using ok v inv by (auto simp: enqueue_message_def split: if_splits)
  next
    case None
    then have t: "t = s\<lparr>qs_items := qs_items s @ [new_item i b], qs_seen := jm_set i (sha b) (qs_seen s),
        qs_version := qs_version s + 1\<rparr>" and lim: "length (qs_items s) < 50" "length (qs_seen s) < 10000"
      using ok v by (auto simp: enqueue_message_def split: if_splits)
    have fresh: "i \<notin> qi_id ` set (qs_items s)"
      using mq_invD(2)[OF inv] None by (auto simp: map_of_eq_None_iff)
    show ?thesis
    proof (rule mq_invI, goal_cases)
      case (2 j)
      then show ?case using t mq_invD(2)[OF inv, of j] by (cases "j = new_item i b") (simp_all add: set_keys_update)
    next
      case 4
      then show ?case using t lim length_jm_set_le[of i "sha b" "qs_seen s"] by simp
    next
      case (7 j)
      then show ?case using t mq_invD(7)[OF inv, of j] by (cases "j = new_item i b") simp_all
    qed (use t lim fresh mq_invD(1,3,5,6)[OF inv] in \<open>simp_all add: new_item_def\<close>)
  qed
qed

lemma cancel_inv: "mq_inv s \<Longrightarrow> cancel_message c s = Inr t \<Longrightarrow> mq_inv t"
proof -
  assume inv: "mq_inv s" and ok: "cancel_message c s = Inr t"
  obtain n where n: "find_index (\<lambda>i. Some (JStr (qi_id i)) = jm_get c ''item_id'') (qs_items s) = Some n"
    and t: "t = s\<lparr>qs_items := remove_at n (qs_items s), qs_version := qs_version s + 1\<rparr>"
    using ok by (auto simp: cancel_message_def split: option.splits if_splits)
  have "mq_inv (s\<lparr>qs_items := remove_at n (qs_items s)\<rparr>)"
    using mq_inv_remove inv find_index_Some n by blast
  then show ?thesis using mq_inv_cong[of t "s\<lparr>qs_items := remove_at n (qs_items s)\<rparr>"] t by simp
qed

lemma resume_inv: "mq_inv s \<Longrightarrow> resume_queue s = Inr t \<Longrightarrow> mq_inv t"
  by (auto simp: resume_queue_def mq_inv_def reset_item_def item_ok_def comp_def list_all_iff filter_map
      split: if_splits)

lemma mutate_cases:
  assumes "mutateQueue sha c s = Inr t"
  obtains "enqueue_message sha c s = Inr t" | "cancel_message c s = Inr t"
    | "reorder_messages c s = Inr t" | "resume_queue s = Inr t"
proof -
  let ?a = "jm_get c ''action''"
  consider "?a = Some (JStr ''enqueue'')" | "?a \<noteq> Some (JStr ''enqueue'')" "?a = Some (JStr ''cancel'')"
    | "?a \<noteq> Some (JStr ''enqueue'')" "?a \<noteq> Some (JStr ''cancel'')" "?a = Some (JStr ''reorder'')"
    | "?a \<noteq> Some (JStr ''enqueue'')" "?a \<noteq> Some (JStr ''cancel'')" "?a \<noteq> Some (JStr ''reorder'')"
    by blast
  then show thesis
    by cases (use assms that in \<open>simp_all add: mutateQueue_def Let_def split: if_split_asm\<close>)
qed

lemma mutate_inv:
  assumes "mq_inv s" and "mutateQueue sha c s = Inr t"
  shows "mq_inv t"
proof -
  have reorder: "mq_inv t" if "reorder_messages c s = Inr t"
    by (rule reorder_spec[OF assms(1) that]) (rule mq_inv_mset[OF assms(1)])
  consider "enqueue_message sha c s = Inr t" | "cancel_message c s = Inr t"
    | "reorder_messages c s = Inr t" | "resume_queue s = Inr t"
    by (rule mutate_cases[OF assms(2)])
  then show ?thesis
    by cases (rule enqueue_message_inv[OF assms(1)] cancel_inv[OF assms(1)] reorder resume_inv[OF assms(1)], assumption)+
qed

text \<open>
  Events only touch the item in flight: \<open>in_flight s n\<close> says that position \<open>n\<close> holds it, and an
  update is \<open>harmless\<close> when it keeps the identity of the item and leaves it in flight.
\<close>

definition in_flight :: "QueueState \<Rightarrow> nat \<Rightarrow> bool" where
  "in_flight s n \<longleftrightarrow> mq_inv s \<and> n < length (qs_items s) \<and> qi_state (qs_items s ! n) \<noteq> Pending"

definition harmless :: "(QueueItem \<Rightarrow> QueueItem) \<Rightarrow> bool" where
  "harmless f \<longleftrightarrow> (\<forall>i. qi_id (f i) = qi_id i \<and> qi_request_id (f i) = qi_request_id i
     \<and> qi_started_at (f i) = qi_started_at i \<and> (qi_state i \<noteq> Pending \<longrightarrow> qi_state (f i) \<noteq> Pending))"

lemma harmlessD:
  assumes "harmless f"
  shows "qi_id (f i) = qi_id i" "qi_request_id (f i) = qi_request_id i"
    "qi_started_at (f i) = qi_started_at i" "qi_state i \<noteq> Pending \<Longrightarrow> qi_state (f i) \<noteq> Pending"
  using assms by (auto simp: harmless_def)

lemma in_flight_cong:
  "qs_items s = qs_items t \<Longrightarrow> qs_seen s = qs_seen t \<Longrightarrow> in_flight s n = in_flight t n"
  using mq_inv_cong[of s t] by (simp add: in_flight_def)

lemma in_flight_update:
  assumes fl: "in_flight s n" and f: "harmless f"
  shows "in_flight (upd_item (Some n) f s) n"
proof -
  let ?i = "qs_items s ! n"
  have inv: "mq_inv s" and n: "n < length (qs_items s)" and st: "qi_state ?i \<noteq> Pending"
    using fl by (auto simp: in_flight_def)
  have "item_ok ?i" using mq_invD(7)[OF inv] n by simp
  then have "item_ok (f ?i)"
    using st harmlessD(4)[OF f st] unfolding item_ok_def harmlessD(2,3)[OF f] by simp
  then have "mq_inv (upd_item (Some n) f s)"
    using mq_inv_update[OF inv n] harmlessD(1)[OF f] st by blast
  moreover have "qi_state (f ?i) \<noteq> Pending" using harmlessD(4)[OF f st] .
  ultimately show ?thesis using n by (simp add: in_flight_def upd_item_def)
qed

lemma harmless_intros:
  "harmless (\<lambda>i. if falsy (qi_turn_id i) then i\<lparr>qi_turn_id := Some turn\<rparr> else i)"
  "harmless (\<lambda>i. if qi_turn_id i = Some turn then i\<lparr>qi_terminal := Some status\<rparr> else i)"
  "st \<noteq> Pending \<Longrightarrow> harmless (\<lambda>i. i\<lparr>qi_state := st\<rparr>)"
  by (auto simp: harmless_def)

lemma upd_item_None [simp]: "upd_item None f s = s"
  by (simp add: upd_item_def)

lemma seen_upd_item [simp]: "qs_seen (upd_item a f s) = qs_seen s"
  by (simp add: upd_item_def split: option.splits)

text \<open>The two reductions change at most the item at the given position, harmlessly.\<close>

definition touches :: "nat option \<Rightarrow> QueueState \<Rightarrow> QueueState \<Rightarrow> bool" where
  "touches a s t \<longleftrightarrow> qs_seen t = qs_seen s
     \<and> (qs_items t = qs_items s \<or> (\<exists>n f. a = Some n \<and> harmless f \<and> qs_items t = (qs_items s)[n := f (qs_items s ! n)]))"

lemma touches_refl [simp]: "touches a s s"
  by (simp add: touches_def)

lemma touches_update:
  "harmless f \<Longrightarrow> qs_items u = qs_items s \<Longrightarrow> qs_seen u = qs_seen s \<Longrightarrow> touches a s (upd_item a f u)"
  by (cases a) (auto simp: touches_def upd_item_def)

lemma touches_turn_part: "touches a s (turn_part a e p s)"
proof -
  have "touches a s (reduce_turn a turn status s)" for turn status
    unfolding reduce_turn_def by (simp add: touches_update harmless_intros(1,2))
  then show ?thesis by (simp add: turn_part_def split: option.splits)
qed

lemma touches_correlated: "touches (Some n) s (reduce_correlated n ty p s)"
  unfolding reduce_correlated_def by (simp add: touches_update harmless_intros(3))

lemma touches_None: "touches None s t \<Longrightarrow> qs_items t = qs_items s \<and> qs_seen t = qs_seen s"
  by (simp add: touches_def)

lemma touches_seen: "touches a s t \<Longrightarrow> qs_seen t = qs_seen s"
  by (simp add: touches_def)

lemma touches_in_flight:
  assumes "in_flight s n" and "touches (Some n) s t" shows "in_flight t n"
proof -
  from assms(2) consider "qs_items t = qs_items s" "qs_seen t = qs_seen s"
    | f where "harmless f" "qs_items t = qs_items (upd_item (Some n) f s)" "qs_seen t = qs_seen (upd_item (Some n) f s)"
    by (auto simp: touches_def upd_item_def)
  then show ?thesis by cases (use assms(1) in_flight_update in_flight_cong in metis)+
qed

lemma finish_inv: "in_flight s n \<Longrightarrow> mq_inv (finish_active n s)"
proof -
  assume fl: "in_flight s n"
  have "mq_inv (s\<lparr>qs_items := remove_at n (qs_items s)\<rparr>)" using fl mq_inv_remove by (simp add: in_flight_def)
  then have removed: "mq_inv (s\<lparr>qs_items := remove_at n (qs_items s), qs_blocked := x\<rparr>)" for x
    using mq_inv_cong[of "s\<lparr>qs_items := remove_at n (qs_items s), qs_blocked := x\<rparr>"
        "s\<lparr>qs_items := remove_at n (qs_items s)\<rparr>"] by simp
  have "mq_inv s" using fl by (simp add: in_flight_def)
  with removed show ?thesis by (simp add: finish_active_def Let_def)
qed

lemma seen_reduce [simp]: "qs_seen (reduceQueueEvent s e) = qs_seen s"
proof -
  note tp = touches_seen[OF touches_turn_part] and co = touches_seen[OF touches_correlated]
  have fi: "qs_seen (finish_active n u) = qs_seen u" for n u by (simp add: finish_active_def Let_def)
  show ?thesis by (simp add: reduceQueueEvent_def Let_def tp co fi split: option.splits)
qed

lemma active_in_flight: "mq_inv s \<Longrightarrow> find_index is_active (qs_items s) = Some n \<Longrightarrow> in_flight s n"
  by (auto simp: in_flight_def is_active_def dest: find_index_Some)

lemma reduce_inv:
  assumes inv: "mq_inv s" shows "mq_inv (reduceQueueEvent s e)"
proof (cases "ev_payload e")
  case None
  then show ?thesis using inv by (simp add: reduceQueueEvent_def)
next
  case (Some p)
  show ?thesis
  proof (cases "find_index is_active (qs_items s)")
    case None
    then show ?thesis using inv Some touches_None[OF touches_turn_part, of e p s] mq_inv_cong[of "turn_part None e p s" s]
      by (simp add: reduceQueueEvent_def Let_def)
  next
    case (Some n)
    note fl = touches_in_flight[OF active_in_flight[OF inv Some] touches_turn_part, of e p]
    show ?thesis using inv \<open>ev_payload e = Some p\<close> Some finish_inv[OF fl] finish_inv[OF touches_in_flight[OF fl touches_correlated]]
      by (simp add: reduceQueueEvent_def Let_def)
  qed
qed

lemma expire_item_simps [simp]:
  "qi_id (expire_item t i) = qi_id i"
  "qi_request_id (expire_item t i) = qi_request_id i"
  "qi_started_at (expire_item t i) = qi_started_at i"
  "qi_state (expire_item t i) = Pending \<longleftrightarrow> qi_state i = Pending"
  by (auto simp: expire_item_def expired_dispatch_def)

lemma item_ok_expire [simp]: "item_ok (expire_item t i) = item_ok i"
  by (simp add: item_ok_def)

lemma expire_inv: "mq_inv s \<Longrightarrow> mq_inv (expire_dispatches t s)"
  by (auto simp: mq_inv_def expire_dispatches_def Let_def comp_def filter_map list_all_iff)

lemma expire_fields [simp]:
  "qs_items (expire_dispatches t s) = map (expire_item t) (qs_items s)"
  "qs_seen (expire_dispatches t s) = qs_seen s" "qs_busy (expire_dispatches t s) = qs_busy s"
  by (simp_all add: expire_dispatches_def Let_def)

lemma no_flight_unchanged:
  "\<forall>i \<in> set is. qi_state i = Pending \<Longrightarrow> map (expire_item t) is = is"
  by (auto simp: expire_item_def expired_dispatch_def intro!: map_idI)

text \<open>A successful claim takes the first item of an idle, unblocked queue with nothing in flight.\<close>

lemma claim_Some:
  assumes "claimQueue s online t uuid = (Some i', s')"
  obtains i "is" where "online" "\<not> qs_busy s" "qs_blocked (expire_dispatches t s) = []"
    "qs_items s = i # is" "\<forall>j \<in> set (i # is). qi_state j = Pending"
    "i' = i\<lparr>qi_state := Dispatching, qi_request_id := Some uuid, qi_started_at := Some t\<rparr>"
    "s' = (expire_dispatches t s)\<lparr>qs_items := i' # is, qs_version := qs_version (expire_dispatches t s) + 1\<rparr>"
proof -
  let ?s1 = "expire_dispatches t s"
  have g: "online" "\<not> qs_busy s" "qs_blocked ?s1 = []" "\<forall>j \<in> set (qs_items ?s1). qi_state j = Pending"
    using assms by (auto simp: claimQueue_def Let_def list_ex_iff split: if_splits)
  then have pend: "\<forall>j \<in> set (qs_items s). qi_state j = Pending" by simp
  then have same: "qs_items ?s1 = qs_items s" by (simp add: no_flight_unchanged)
  obtain i "is" where items: "qs_items s = i # is"
    using assms g same by (auto simp: claimQueue_def Let_def split: list.splits if_splits)
  have eq: "(Some i', s') = (let i' = i\<lparr>qi_state := Dispatching, qi_request_id := Some uuid, qi_started_at := Some t\<rparr>
      in (Some i', ?s1\<lparr>qs_items := i' # is, qs_version := qs_version ?s1 + 1\<rparr>))"
    using assms g items same by (auto simp: claimQueue_def Let_def list_ex_iff split: if_splits)
  have pend': "\<forall>j \<in> set (i # is). qi_state j = Pending" using pend items by simp
  show thesis by (rule that[OF g(1-3) items pend']) (use eq in \<open>simp_all add: Let_def\<close>)
qed

lemma claim_None: "claimQueue s online t uuid = (None, s') \<Longrightarrow> s' = expire_dispatches t s"
  by (auto simp: claimQueue_def Let_def split: if_splits list.splits)

lemma claim_inv:
  assumes inv: "mq_inv s" and c: "claimQueue s online t uuid = (r, s')" and u: "uuid \<noteq> []"
  shows "mq_inv s'"
proof (cases r)
  case None
  then have "s' = expire_dispatches t s" using c claim_None by blast
  then show ?thesis using expire_inv[OF inv] by simp
next
  case (Some i')
  obtain i "is" where x: "qs_items s = i # is" "\<forall>j \<in> set (i # is). qi_state j = Pending"
    "i' = i\<lparr>qi_state := Dispatching, qi_request_id := Some uuid, qi_started_at := Some t\<rparr>"
    "s' = (expire_dispatches t s)\<lparr>qs_items := i' # is, qs_version := qs_version (expire_dispatches t s) + 1\<rparr>"
    using claim_Some c Some by metis
  have "filter (\<lambda>i. qi_state i \<noteq> Pending) is = []" using x(2) by simp
  then show ?thesis
    using inv x u by (auto simp: mq_inv_def item_ok_def falsy_def)
qed

lemma dispatch_op_cases:
  assumes "dispatch_op online dispatch uid claimed p s = (Inr t, out)"
  obtains "t = s"
    | n where "n < length (qs_items s)" "qi_state (qs_items s ! n) = Dispatching"
        "t = (upd_item (Some n) release_item s)\<lparr>qs_version := qs_version s + 1\<rparr>" "out = []"
    | n e where "n < length (qs_items s)" "qi_state (qs_items s ! n) = Dispatching"
        "t = (upd_item (Some n) (\<lambda>i. i\<lparr>qi_state := Failed\<rparr>) s)\<lparr>qs_blocked := e, qs_version := qs_version s + 1\<rparr>"
proof (cases "find_index (\<lambda>i. qi_request_id i = qi_request_id claimed) (qs_items s)")
  case None
  then show thesis using assms that(1) by (simp add: dispatch_op_def)
next
  case (Some n)
  have n: "n < length (qs_items s)" using find_index_Some[OF Some] by simp
  note eq = assms[unfolded dispatch_op_def Some option.case]
  show thesis
  proof (cases "qi_state (qs_items s ! n) = Dispatching \<and> (qs_blocked s \<noteq> [] \<or> \<not> online (the (daemonId p)) uid)")
    case True
    then show thesis using that(2)[OF n] eq by auto
  next
    case False
    show thesis
    proof (cases "qi_state (qs_items s ! n) = Dispatching \<and> (\<exists>e. dispatch claimed = Inr (Some e) \<and> e \<noteq> [])")
      case True
      then obtain e where "dispatch claimed = Inr (Some e)" "e \<noteq> []" by blast
      then show thesis using that(3)[OF n, of e] True False eq by auto
    next
      case F: False
      then have "t = s" using False eq by (auto split: if_splits sum.splits option.splits)
      then show thesis by (rule that(1))
    qed
  qed
qed

lemma dispatch_inv:
  assumes inv: "mq_inv s" and d: "dispatch_op online dispatch uid claimed p s = (Inr t, out)"
  shows "mq_inv t"
  using d
proof (cases rule: dispatch_op_cases)
  case 1
  then show ?thesis using inv by simp
next
  case (2 n)
  have "mq_inv (upd_item (Some n) release_item s)"
    by (rule mq_inv_update[OF inv 2(1)]) (simp_all add: release_item_def item_ok_def)
  then show ?thesis using mq_inv_cong[of t "upd_item (Some n) release_item s"] 2 by simp
next
  case (3 n e)
  have "in_flight s n" using inv 3 by (simp add: in_flight_def)
  then have "mq_inv (upd_item (Some n) (\<lambda>i. i\<lparr>qi_state := Failed\<rparr>) s)"
    using in_flight_update[OF _ harmless_intros(3)[of Failed]] by (simp add: in_flight_def)
  then show ?thesis using mq_inv_cong[of t "upd_item (Some n) (\<lambda>i. i\<lparr>qi_state := Failed\<rparr>) s"] 3 by simp
qed

section \<open>The queue as a transition system\<close>

inductive mq_step :: "(string \<Rightarrow> string) \<Rightarrow> QueueState \<Rightarrow> QueueState \<Rightarrow> bool" for sha where
  step_command: "mutateQueue sha c s = Inr t \<Longrightarrow> mq_step sha s t"
| step_event: "mq_step sha s (apply_event s e)"
| step_claim: "uuid \<noteq> [] \<Longrightarrow> claimQueue s online now uuid = (r, t) \<Longrightarrow> mq_step sha s t"
| step_dispatch: "dispatch_op link dispatch uid claimed p s = (Inr t, out) \<Longrightarrow> mq_step sha s t"
| step_hold: "hold_op p s = (Inr t, out) \<Longrightarrow> mq_step sha s t"

definition mq_start :: "QueueState \<Rightarrow> bool" where
  "mq_start s \<longleftrightarrow> qs_items s = [] \<and> qs_seen s = []"

lemma apply_event_inv: "mq_inv s \<Longrightarrow> mq_inv (apply_event s e)"
  using reduce_inv[of s e] mq_inv_cong[of "apply_event s e" "reduceQueueEvent s e"]
  by (simp add: apply_event_def Let_def)

interpretation mq: transition_system mq_start "mq_step sha" mq_inv
proof
  show "mq_start s \<Longrightarrow> mq_inv s" for s by (simp add: mq_start_def mq_inv_def)
  fix s t assume inv: "mq_inv s" and st: "mq_step sha s t"
  from st show "mq_inv t"
  proof cases
    case (step_hold p out)
    then show ?thesis using inv mq_inv_cong[of t s] by (auto simp: hold_op_def)
  qed (use inv mutate_inv apply_event_inv claim_inv dispatch_inv in \<open>blast+\<close>)
qed

text \<open>
  A remembered identifier is never forgotten, so a retransmitted \<open>enqueue\<close> stays a no-op.
\<close>

lemma seen_kept:
  assumes "mq_step sha s t" and "jm_get (qs_seen s) k = Some h"
  shows "jm_get (qs_seen t) k = Some h"
  using assms(1)
proof cases
  case (step_command c)
  then show ?thesis
  proof (cases rule: mutate_cases)
    case 1
    then show ?thesis using assms(2) by (auto simp: enqueue_message_def split: option.splits if_splits)
  qed (use assms(2) in \<open>auto simp: cancel_message_def reorder_messages_def resume_queue_def Let_def
        split: option.splits if_splits json.splits\<close>)
next
  case (step_event e)
  then show ?thesis using assms(2) by (simp add: apply_event_def Let_def)
next
  case (step_claim uuid online now r)
  then show ?thesis using assms(2) by (cases r) (auto dest!: claim_None elim!: claim_Some)
next
  case (step_dispatch link dispatch uid claimed p out)
  then show ?thesis using assms(2) by (cases rule: dispatch_op_cases) auto
next
  case (step_hold p out)
  then show ?thesis using assms(2) by (auto simp: hold_op_def)
qed

lemma seen_kept_steps:
  "(mq_step sha)\<^sup>*\<^sup>* s t \<Longrightarrow> jm_get (qs_seen s) k = Some h \<Longrightarrow> jm_get (qs_seen t) k = Some h"
  by (induction rule: rtranclp_induct) (auto intro: seen_kept)

lemma enqueue_remembered:
  "enqueue_message sha c s = Inr t \<Longrightarrow> \<exists>i b. valid_enqueue c = Some (i, b) \<and> jm_get (qs_seen t) i = Some (sha b)"
  by (auto simp: enqueue_message_def split: option.splits if_splits)

lemma mutate_enqueue:
  "jm_get c ''action'' = Some (JStr ''enqueue'') \<Longrightarrow> mutateQueue sha c s = enqueue_message sha c s"
  by (simp add: mutateQueue_def)

section \<open>Paging\<close>

text \<open>
  Catching up page by page is catching up in one pass over all pending events in the order of
  their identifiers.
\<close>

lemma pending_after:
  assumes "distinct (map ev_id es)" and "length (event_page es sid c) = PAGE"
  shows "pending_events es sid c
    = event_page es sid c @ pending_events es sid (ev_id (last (event_page es sid c)))"
proof -
  let ?all = "pending_events es sid c" and ?page = "event_page es sid c"
  let ?l = "ev_id (last ?page)"
  have dist: "distinct (map ev_id ?all)"
    using assms(1) by (simp add: pending_events_def distinct_map_filter distinct_map distinct_filter inj_on_def)
  have srt: "sorted (map ev_id ?all)" by (simp add: pending_events_def)
  have split: "?all = ?page @ drop PAGE ?all" by (simp add: event_page_def)
  have ne: "?page \<noteq> []" using assms(2) by (auto simp: PAGE_def)
  have last: "last ?page \<in> set ?page" using ne by simp
  have le: "ev_id x \<le> ?l" if "x \<in> set ?page" for x
  proof -
    have "sorted (map ev_id ?page)" using srt by (metis event_page_def sorted_wrt_take take_map)
    then have "sorted (map ev_id (butlast ?page @ [last ?page]))" using ne by simp
    then have "x \<in> set (butlast ?page) \<Longrightarrow> ev_id x \<le> ?l" by (auto simp: sorted_append)
    moreover have "x \<in> set (butlast ?page) \<or> x = last ?page"
      using that ne by (metis append_butlast_last_id in_set_conv_decomp rotate1.simps(2) set_ConsD set_rotate1)
    ultimately show ?thesis by auto
  qed
  have gt: "?l < ev_id x" if "x \<in> set (drop PAGE ?all)" for x
  proof -
    have "?l \<le> ev_id x" using srt last that by (subst (asm) split) (auto simp: sorted_append)
    moreover have "?l \<noteq> ev_id x" using dist last that by (subst (asm) split) auto
    ultimately show ?thesis by simp
  qed
  have lc: "c \<le> ?l" using page_last_relevant[OF assms(2)] by (simp add: relevant_def)
  have rel: "relevant sid ?l = (\<lambda>e. relevant sid c e \<and> ?l < ev_id e)" using lc by (auto simp: relevant_def fun_eq_iff)
  have "pending_events es sid ?l = filter (\<lambda>e. ?l < ev_id e) ?all"
    unfolding pending_events_def by (simp add: filter_sort rel conj_commute)
  also have "\<dots> = filter (\<lambda>e. ?l < ev_id e) ?page @ filter (\<lambda>e. ?l < ev_id e) (drop PAGE ?all)"
    by (subst split) simp
  also have "\<dots> = drop PAGE ?all"
    using le gt by (simp add: filter_empty_conv filter_id_conv not_less)
  finally show ?thesis using split by simp
qed

lemma drain_is_one_pass:
  assumes "distinct (map ev_id es)"
  shows "drain_events es sid s = foldl apply_event s (pending_events es sid (qs_cursor s))"
  using assms
proof (induction es sid s rule: drain_events.induct)
  case (1 es sid s)
  let ?page = "event_page es sid (qs_cursor s)"
  show ?case
  proof (cases "length ?page = PAGE")
    case True
    then have "?page \<noteq> []" by (auto simp: PAGE_def)
    then have cur: "qs_cursor (foldl apply_event s ?page) = ev_id (last ?page)" by (rule cursor_foldl)
    have "pending_events es sid (qs_cursor s) = ?page @ pending_events es sid (ev_id (last ?page))"
      by (rule pending_after[OF 1(2) True])
    then show ?thesis
      using 1 True cur by (subst drain_events.simps) (simp add: Let_def)
  next
    case False
    then show ?thesis
      by (subst drain_events.simps) (simp add: Let_def event_page_def min_def split: if_splits)
  qed
qed

section \<open>Completion\<close>

text \<open>What an event says about one item: that its dispatch started, that its turn ended.\<close>

definition reports_start :: "queue_event \<Rightarrow> QueueItem \<Rightarrow> bool" where
  "reports_start e i \<longleftrightarrow> (\<exists>p. ev_payload e = Some p \<and> ev_type e = ''queue_dispatch_started''
     \<and> jm_get p ''request_id'' = map_option JStr (qi_request_id i))"

definition reports_end :: "queue_event \<Rightarrow> QueueItem \<Rightarrow> bool" where
  "reports_end e i \<longleftrightarrow> (\<exists>p status. ev_payload e = Some p \<and> ev_type e = ''turn_status''
     \<and> str_field p ''turn_id'' = qi_turn_id i \<and> str_field p ''turn_status'' = Some status
     \<and> status \<in> set TERMINAL_STATUSES)"

lemma upd_item_nth: "n < length (qs_items s) \<Longrightarrow> qs_items (upd_item (Some n) f s) ! n = f (qs_items s ! n)"
  by (simp add: upd_item_def)

lemma turn_part_item:
  assumes n: "n < length (qs_items s)" and p: "ev_payload e = Some p"
  defines "i \<equiv> qs_items s ! n" and "j \<equiv> qs_items (turn_part (Some n) e p s) ! n"
  shows "qi_state j = qi_state i" and "qi_terminal j = qi_terminal i \<or> reports_end e i"
proof -
  have "qi_state j = qi_state i \<and> (qi_terminal j = qi_terminal i \<or> reports_end e i)"
  proof (cases "turn_part (Some n) e p s = s")
    case False
    then obtain turn status where t: "str_field p ''turn_id'' = Some turn" "ev_type e = ''turn_status''"
      "str_field p ''turn_status'' = Some status" "turn_part (Some n) e p s = reduce_turn (Some n) turn status s"
      by (auto simp: turn_part_def split: option.splits if_splits)
    show ?thesis
      using n t p by (auto simp: j_def i_def reduce_turn_def upd_item_nth reports_end_def)
  qed (simp add: i_def j_def)
  then show "qi_state j = qi_state i" "qi_terminal j = qi_terminal i \<or> reports_end e i" by blast+
qed

lemma correlated_item:
  assumes "n < length (qs_items s)"
  shows "qi_terminal (qs_items (reduce_correlated n ty p s) ! n) = qi_terminal (qs_items s ! n)"
    and "qi_state (qs_items (reduce_correlated n ty p s) ! n) = Running
      \<Longrightarrow> qi_state (qs_items s ! n) = Running \<or> ty = ''queue_dispatch_started''"
  using assms by (auto simp: reduce_correlated_def upd_item_nth split: if_splits)

lemma touches_length: "touches a s t \<Longrightarrow> length (qs_items t) = length (qs_items s)"
  by (auto simp: touches_def)

lemma touches_ids: "touches a s t \<Longrightarrow> map qi_id (qs_items t) = map qi_id (qs_items s)"
proof -
  assume "touches a s t"
  then consider "qs_items t = qs_items s"
    | n f where "harmless f" "qs_items t = (qs_items s)[n := f (qs_items s ! n)]" by (auto simp: touches_def)
  then show ?thesis
  proof cases
    case (2 n f)
    then show ?thesis
      by (cases "n < length (qs_items s)") (simp_all add: map_update harmlessD(1) list_update_same_conv list_update_beyond)
  qed simp
qed

lemma touches_request_id:
  "touches (Some n) s t \<Longrightarrow> n < length (qs_items s) \<Longrightarrow> qi_request_id (qs_items t ! n) = qi_request_id (qs_items s ! n)"
  by (auto simp: touches_def harmlessD(2))

lemma remove_at_ids:
  assumes "i \<in> set is" "qi_id i \<notin> qi_id ` set (remove_at n is)" "n < length is"
  shows "i = is ! n"
proof -
  have "i \<in># add_mset (is ! n) (mset (remove_at n is))"
    using assms(1) mset_remove_at[OF assms(3)] by (metis set_mset_mset)
  then show ?thesis using assms(2) by auto
qed

lemma reduce_active:
  assumes "ev_payload e = Some p" and "\<not> foreign_payload p" and "find_index is_active (qs_items s) = Some n"
  shows "\<exists>u. touches (Some n) (turn_part (Some n) e p s) u \<and> reduceQueueEvent s e = finish_active n u
    \<and> (u = turn_part (Some n) e p s
       \<or> jm_get p ''request_id'' = map_option JStr (qi_request_id (qs_items (turn_part (Some n) e p s) ! n))
         \<and> u = reduce_correlated n (ev_type e) p (turn_part (Some n) e p s))"
proof (cases "jm_get p ''request_id'' = map_option JStr (qi_request_id (qs_items (turn_part (Some n) e p s) ! n))")
  case True
  then show ?thesis
    using assms by (intro exI[of _ "reduce_correlated n (ev_type e) p (turn_part (Some n) e p s)"])
      (simp add: reduceQueueEvent_def Let_def touches_correlated)
next
  case False
  then show ?thesis
    using assms by (intro exI[of _ "turn_part (Some n) e p s"]) (simp add: reduceQueueEvent_def Let_def)
qed

lemma leaves_only_finished:
  assumes inv: "mq_inv s" and i: "i \<in> set (qs_items s)"
    and gone: "qi_id i \<notin> qi_id ` set (qs_items (reduceQueueEvent s e))"
  shows "is_active i \<and> (qi_state i = Running \<or> reports_start e i) \<and> (\<not> falsy (qi_terminal i) \<or> reports_end e i)"
proof -
  have changed: "qi_id ` set (qs_items (reduceQueueEvent s e)) \<noteq> qi_id ` set (qs_items s)" using i gone by blast
  obtain p where p: "ev_payload e = Some p" "\<not> foreign_payload p"
    using changed by (auto simp: reduceQueueEvent_def split: option.splits if_splits)
  obtain n where n: "find_index is_active (qs_items s) = Some n"
    using changed p touches_None[OF touches_turn_part, of e p s]
    by (cases "find_index is_active (qs_items s)") (auto simp: reduceQueueEvent_def Let_def)
  let ?t = "turn_part (Some n) e p s"
  obtain u where tu: "touches (Some n) ?t u" and red: "reduceQueueEvent s e = finish_active n u"
    and u: "u = ?t \<or> jm_get p ''request_id'' = map_option JStr (qi_request_id (qs_items ?t ! n))
         \<and> u = reduce_correlated n (ev_type e) p ?t"
    using reduce_active[OF p n] by blast
  have st: "touches (Some n) s ?t" by (rule touches_turn_part)
  have ns: "n < length (qs_items s)" "is_active (qs_items s ! n)" using find_index_Some[OF n] by auto
  have nt: "n < length (qs_items ?t)" "n < length (qs_items u)"
    using ns(1) touches_length[OF st] touches_length[OF tu] by auto
  have ids: "map qi_id (qs_items u) = map qi_id (qs_items s)" using touches_ids[OF st] touches_ids[OF tu] by simp
  have fin: "qi_state (qs_items u ! n) = Running" "\<not> falsy (qi_terminal (qs_items u ! n))"
    and items: "qs_items (reduceQueueEvent s e) = remove_at n (qs_items u)"
  proof -
    have "qi_state (qs_items u ! n) = Running \<and> \<not> falsy (qi_terminal (qs_items u ! n))"
    proof (rule ccontr)
      assume "\<not> ?thesis"
      then have "reduceQueueEvent s e = u" using red by (auto simp: finish_active_def Let_def)
      then show False using changed ids by (metis list.set_map)
    qed
    then show "qi_state (qs_items u ! n) = Running" "\<not> falsy (qi_terminal (qs_items u ! n))"
      "qs_items (reduceQueueEvent s e) = remove_at n (qs_items u)"
      using red by (auto simp: finish_active_def Let_def)
  qed
  have "qi_id i \<notin> qi_id ` set (remove_at n (qs_items s))"
    using gone items ids by (metis list.set_map map_remove_at)
  then have i_n: "i = qs_items s ! n" using remove_at_ids[OF i _ ns(1)] by blast
  note turn = turn_part_item[OF ns(1) p(1)] and corr = correlated_item[OF nt(1), of "ev_type e" p]
  have "qi_terminal (qs_items u ! n) = qi_terminal (qs_items ?t ! n)" using u corr(1) by auto
  then have "\<not> falsy (qi_terminal i) \<or> reports_end e i" using fin(2) turn(2) i_n by metis
  moreover have "qi_state i = Running \<or> reports_start e i"
  proof (cases "u = ?t")
    case True
    then show ?thesis using fin(1) turn(1) i_n by simp
  next
    case False
    then have "jm_get p ''request_id'' = map_option JStr (qi_request_id i)"
      using u touches_request_id[OF st ns(1)] i_n by simp
    then show ?thesis using False u fin(1) corr(2) turn(1) i_n p(1) by (auto simp: reports_start_def)
  qed
  ultimately show ?thesis using ns(2) i_n by simp
qed

section \<open>Dispatch\<close>

definition owned :: "queue_db \<Rightarrow> int \<Rightarrow> string \<Rightarrow> bool" where
  "owned db uid sid \<longleftrightarrow> (\<forall>r \<in> set (db_queues db). qr_session_id r = sid \<longrightarrow> qr_user r = uid)"

lemma stored_upsert:
  assumes "owned db uid sid"
  shows "stored_queue (upsert_queue uid sid t s db) uid sid = Some s"
proof -
  let ?P = "\<lambda>r. qr_session_id r = sid \<and> qr_user r = uid"
  have upd: "List.find ?P (map (\<lambda>r. if qr_session_id r = sid then r\<lparr>qr_state := s, qr_updated_at := t\<rparr> else r) rs) =
      map_option (\<lambda>r. r\<lparr>qr_state := s, qr_updated_at := t\<rparr>) (List.find ?P rs)"
    if "\<forall>r \<in> set rs. qr_session_id r = sid \<longrightarrow> qr_user r = uid" for rs
    using that by (induction rs) auto
  have app: "List.find ?P (rs @ [r]) = Some r" if "?P r" "\<not> list_ex (\<lambda>r. qr_session_id r = sid) rs" for rs r
    using that by (induction rs) auto
  have found: "List.find ?P rs \<noteq> None"
    if "\<forall>r \<in> set rs. qr_session_id r = sid \<longrightarrow> qr_user r = uid" "list_ex (\<lambda>r. qr_session_id r = sid) rs" for rs
    using that by (auto simp: find_None_iff list_ex_iff)
  let ?new = "\<lparr>qr_session_id = sid, qr_user = uid, qr_state = s, qr_updated_at = t\<rparr>"
  show ?thesis
  proof (cases "list_ex (\<lambda>r. qr_session_id r = sid) (db_queues db)")
    case True
    then obtain r where "List.find ?P (db_queues db) = Some r"
      using found[of "db_queues db"] assms by (auto simp: owned_def)
    then show ?thesis
      using True upd[of "db_queues db"] assms by (simp add: stored_queue_def upsert_queue_def owned_def)
  next
    case False
    then show ?thesis using app[of ?new "db_queues db"] by (simp add: stored_queue_def upsert_queue_def)
  qed
qed

lemma owned_upsert: "owned db uid sid \<Longrightarrow> owned (upsert_queue uid sid t s db) uid sid"
  by (cases "list_ex (\<lambda>r. qr_session_id r = sid) (db_queues db)")
    (simp_all add: owned_def upsert_queue_def ball_Un)

lemma dispatch_sent:
  assumes "dispatch_op online dispatch uid claimed p s = (r, out)" and "out \<noteq> []"
  shows "out = [claimed] \<and> qs_blocked s = [] \<and> online (the (daemonId p)) uid
    \<and> (\<forall>t. r = Inr t \<longrightarrow> (\<exists>j \<in> set (qs_items t). qi_request_id j = qi_request_id claimed \<and> qi_state j \<in> {Dispatching, Failed}))"
proof -
  obtain n where n: "find_index (\<lambda>i. qi_request_id i = qi_request_id claimed) (qs_items s) = Some n"
    and g: "qi_state (qs_items s ! n) = Dispatching" "qs_blocked s = []" "online (the (daemonId p)) uid"
    using assms by (auto simp: dispatch_op_def split: option.splits if_splits)
  have nn: "n < length (qs_items s)" "qi_request_id (qs_items s ! n) = qi_request_id claimed"
    using find_index_Some[OF n] by auto
  have in_s: "\<exists>j \<in> set (qs_items s). qi_request_id j = qi_request_id claimed \<and> qi_state j \<in> {Dispatching, Failed}"
    using nn g by (intro bexI[of _ "qs_items s ! n"]) auto
  have in_t: "\<exists>j \<in> set ((qs_items s)[n := (qs_items s ! n)\<lparr>qi_state := Failed\<rparr>]). qi_request_id j = qi_request_id claimed \<and> qi_state j \<in> {Dispatching, Failed}"
    using nn by (intro bexI[of _ "(qs_items s ! n)\<lparr>qi_state := Failed\<rparr>"]) (auto simp: set_update_memI)
  show ?thesis
  proof (cases "\<exists>x. dispatch claimed = Inr (Some x) \<and> x \<noteq> []")
    case True
    then show ?thesis using assms n g in_t by (auto simp: dispatch_op_def upd_item_def)
  next
    case False
    then show ?thesis using assms n g in_s
      by (auto simp: dispatch_op_def split: sum.splits option.splits if_splits)
  qed
qed

lemma lock_claim:
  assumes "lock uid sid (claim_op online uid t uuid) True t db = (Inr s1, [i], db1)"
  shows "\<exists>p. claimQueue (locked_state db uid sid p) (online (the (daemonId p)) uid) t uuid = (Some i, s1)
    \<and> db1 = upsert_queue uid sid t s1 db"
  using assms by (auto simp: lock_def claim_op_def split: sum.splits prod.splits option.splits)

lemma claimed_stored:
  assumes "owned db uid sid" and "lock uid sid (claim_op online uid t uuid) True t db = (Inr s1, [i], db1)"
  shows "owned db1 uid sid \<and> (\<exists>s. stored_queue db1 uid sid = Some s \<and> i \<in> set (qs_items s) \<and> qi_state i = Dispatching)"
proof -
  obtain p where c: "claimQueue (locked_state db uid sid p) (online (the (daemonId p)) uid) t uuid = (Some i, s1)"
    and db1: "db1 = upsert_queue uid sid t s1 db" using lock_claim[OF assms(2)] by blast
  from c have "i \<in> set (qs_items s1) \<and> qi_state i = Dispatching" by (elim claim_Some) simp
  then show ?thesis using stored_upsert[OF assms(1)] owned_upsert[OF assms(1)] db1 by simp
qed

section \<open>Properties\<close>

text \<open>
  C14. In every run of a session's queue, from its creation through any sequence of commands,
  daemon events, claims, dispatches and holds, the item identifiers stay distinct, the queue stays
  within 50 items and 10000 remembered identifiers, and at most one item is anything but pending:
  two messages are never in flight at once.
\<close>

theorem message_queue_stays_consistent:
  assumes "mq_start s" and "(mq_step sha)\<^sup>*\<^sup>* s t"
  shows "distinct (map qi_id (qs_items t)) \<and> length (qs_items t) \<le> 50 \<and> length (qs_seen t) \<le> 10000
    \<and> length (filter (\<lambda>i. qi_state i \<noteq> Pending) (qs_items t)) \<le> 1"
  using mq.inv_reachable[OF assms] mq_invD(1,3,4,6) by blast

definition sample_enqueue :: "string \<Rightarrow> string \<Rightarrow> payload" where
  "sample_enqueue i b = [(''action'', JStr ''enqueue''), (''item_id'', JStr i), (''content'', JStr b)]"

definition sample_queue :: QueueState where
  "sample_queue = \<lparr>qs_version = 1, qs_items = [new_item ''m1'' ''hello''], qs_blocked = [], qs_busy = False,
     qs_busy_turn_id = None, qs_cursor = 0, qs_seen = [(''m1'', ''hello'')]\<rparr>"

definition sample_queue2 :: QueueState where
  "sample_queue2 = sample_queue\<lparr>qs_version := 2, qs_items := [new_item ''m1'' ''hello'', new_item ''m2'' ''world''],
     qs_seen := [(''m1'', ''hello''), (''m2'', ''world'')]\<rparr>"

lemma sample_valid:
  "valid_enqueue (sample_enqueue ''m1'' ''hello'') = Some (''m1'', ''hello'')"
  "valid_enqueue (sample_enqueue ''m1'' ''other'') = Some (''m1'', ''other'')"
  "valid_enqueue (sample_enqueue ''m2'' ''world'') = Some (''m2'', ''world'')"
  by (simp_all add: valid_enqueue_def sample_enqueue_def str_field_def js_trim_def js_trim_start_def js_space_def starts_with_def)

lemma sample_action: "jm_get (sample_enqueue i b) ''action'' = Some (JStr ''enqueue'')"
  by (simp add: sample_enqueue_def)

lemma sample_enqueued:
  "mutateQueue id (sample_enqueue ''m1'' ''hello'') (emptyQueue False 0) = Inr sample_queue"
  "mutateQueue id (sample_enqueue ''m2'' ''world'') sample_queue = Inr sample_queue2"
  by (simp_all add: mutate_enqueue sample_action enqueue_message_def sample_valid emptyQueue_def
      sample_queue_def sample_queue2_def)

lemma sample_queue_reachable: "(mq_step id)\<^sup>*\<^sup>* (emptyQueue False 0) sample_queue2"
  by (rule rtranclp.rtrancl_into_rtrancl[OF r_into_rtranclp])
    (rule mq_step.step_command[OF sample_enqueued(1)] mq_step.step_command[OF sample_enqueued(2)])+

lemma sample_inv: "mq_inv sample_queue2"
  using mq.inv_reachable[OF _ sample_queue_reachable] by (simp add: mq_start_def emptyQueue_def)

theorem message_queue_stays_consistent_witness:
  "distinct (map qi_id (qs_items sample_queue2)) \<and> length (qs_items sample_queue2) \<le> 50"
  using message_queue_stays_consistent[OF _ sample_queue_reachable] by (simp add: mq_start_def emptyQueue_def)

text \<open>
  Enqueueing is idempotent for as long as the queue lives: once an \<open>enqueue\<close> command was
  accepted, sending it again at any later time, even after the message ran or was cancelled, changes
  nothing, and a command that reuses the identifier for another body is refused as a conflict.
\<close>

lemma retransmitted_enqueue_is_a_noop:
  assumes "jm_get c ''action'' = Some (JStr ''enqueue'')" and "mutateQueue sha c s = Inr t"
    and "(mq_step sha)\<^sup>*\<^sup>* t u"
  shows "mutateQueue sha c u = Inr u
    \<and> (\<forall>c' i b b'. jm_get c' ''action'' = Some (JStr ''enqueue'') \<and> valid_enqueue c = Some (i, b)
         \<and> valid_enqueue c' = Some (i, b') \<and> sha b' \<noteq> sha b \<longrightarrow> mutateQueue sha c' u = Inl Request_Id_Conflict)"
proof -
  obtain i b where v: "valid_enqueue c = Some (i, b)" and "jm_get (qs_seen t) i = Some (sha b)"
    using enqueue_remembered assms(1,2) mutate_enqueue by metis
  then have seen: "jm_get (qs_seen u) i = Some (sha b)" using seen_kept_steps[OF assms(3)] by blast
  then show ?thesis using v assms(1) by (auto simp: mutate_enqueue enqueue_message_def)
qed

lemma retransmitted_enqueue_is_a_noop_example:
  "mutateQueue id (sample_enqueue ''m1'' ''hello'') sample_queue2 = Inr sample_queue2
   \<and> mutateQueue id (sample_enqueue ''m1'' ''other'') sample_queue2 = Inl Request_Id_Conflict"
proof -
  have "(mq_step id)\<^sup>*\<^sup>* sample_queue sample_queue2" using mq_step.step_command[OF sample_enqueued(2)] by blast
  moreover have "id ''other'' \<noteq> id ''hello''" by simp
  ultimately show ?thesis
    using retransmitted_enqueue_is_a_noop[OF _ sample_enqueued(1), of sample_queue2]
      sample_action sample_valid(1,2) by blast
qed

text \<open>
  An accepted \<open>reorder\<close> only permutes: afterwards the pending items are exactly those of
  before in the order the client listed them, and an item in flight keeps its position.
\<close>

lemma reorder_permutes_pending:
  assumes "mq_inv s" and "jm_get c ''action'' = Some (JStr ''reorder'')" and "mutateQueue sha c s = Inr t"
  shows "jm_get c ''item_ids'' = Some (JArr (map (\<lambda>i. JStr (qi_id i)) (movable (qs_items t))))
    \<and> mset (qs_items t) = mset (qs_items s)
    \<and> (\<forall>n < length (qs_items s). qi_state (qs_items s ! n) \<noteq> Pending \<longrightarrow> qs_items t ! n = qs_items s ! n)"
proof -
  have "reorder_messages c s = Inr t" using assms(2,3) by (simp add: mutateQueue_def Let_def split: if_splits)
  from reorder_spec[OF assms(1) this] show ?thesis by metis
qed

definition sample_reorder :: payload where
  "sample_reorder = [(''action'', JStr ''reorder''), (''version'', JNum 2), (''item_ids'', JArr [JStr ''m2'', JStr ''m1''])]"

lemma reorder_permutes_pending_example:
  "\<exists>t. mutateQueue id sample_reorder sample_queue2 = Inr t \<and> mset (qs_items t) = mset (qs_items sample_queue2)"
proof -
  obtain t where t: "mutateQueue id sample_reorder sample_queue2 = Inr t"
    by (simp add: mutateQueue_def Let_def sample_reorder_def sample_queue2_def reorder_messages_def
        movable_def find_item_def new_item_def)
  moreover have "jm_get sample_reorder ''action'' = Some (JStr ''reorder'')" by (simp add: sample_reorder_def)
  ultimately show ?thesis using reorder_permutes_pending[OF sample_inv _ t] by blast
qed


definition sample_running :: QueueState where
  "sample_running = sample_queue\<lparr>qs_items := [(new_item ''m1'' ''hello'')\<lparr>qi_state := Running,
     qi_request_id := Some ''r1'', qi_started_at := Some 0, qi_turn_id := Some ''t1''\<rparr>]\<rparr>"

definition sample_completed :: queue_event where
  "sample_completed = \<lparr>ev_id = 9, ev_session = ''s'', ev_type = ''turn_status'',
     ev_payload = Some [(''turn_id'', JStr ''t1''), (''turn_status'', JStr ''completed'')]\<rparr>"


text \<open>
  The relay sends a queued message only after its claim is committed, and keeps the claim: if a
  tick sends anything for a session it is the one item it claimed, and after the tick, whether the
  router accepted, refused or threw, the stored queue still holds that request unresolved, so
  another tick cannot send it again.
\<close>

lemma sent_message_stays_claimed:
  assumes "owned db uid sid" and "tick_row env (uid, sid) db = (sent, db2)" and "sent \<noteq> []"
  shows "\<exists>i s. sent = [i] \<and> qi_request_id i = Some (te_uuid env sid) \<and> stored_queue db2 uid sid = Some s
    \<and> (\<exists>j \<in> set (qs_items s). qi_request_id j = qi_request_id i \<and> qi_state j \<in> {Dispatching, Failed})"
proof -
  let ?t = "te_now env"
  obtain r out db1 where l1: "lock uid sid (claim_op (te_online1 env) uid ?t (te_uuid env sid)) True ?t db = (r, out, db1)"
    by (metis prod_cases3)
  then obtain s1 i where r: "r = Inr s1" "out = [i]"
    using assms(2,3) by (auto simp: tick_row_def split: sum.splits list.splits)
  obtain r2 db' where l2: "lock uid sid (dispatch_op (te_online2 env) (te_dispatch env uid sid) uid i) True ?t db1 = (r2, sent, db2)"
    using assms(2) l1 r by (auto simp: tick_row_def split: prod.splits)
  obtain p where p: "claimQueue (locked_state db uid sid p) (te_online1 env (the (daemonId p)) uid) ?t (te_uuid env sid) = (Some i, s1)"
    using lock_claim l1 r by blast
  then have req: "qi_request_id i = Some (te_uuid env sid)" by (elim claim_Some) simp
  have st: "owned db1 uid sid" "\<exists>s. stored_queue db1 uid sid = Some s \<and> i \<in> set (qs_items s) \<and> qi_state i = Dispatching"
    using claimed_stored[OF assms(1)] l1 r by blast+
  obtain p2 where d: "dispatch_op (te_online2 env) (te_dispatch env uid sid) uid i p2 (locked_state db1 uid sid p2) = (r2, sent)"
    "db2 = (case r2 of Inl _ \<Rightarrow> db1 | Inr s \<Rightarrow> upsert_queue uid sid ?t s db1)"
    using l2 assms(3) by (auto simp: lock_def split: sum.splits prod.splits)
  note ds = dispatch_sent[OF d(1) assms(3)]
  show ?thesis
  proof (cases r2)
    case (Inl e)
    then show ?thesis using ds d(2) st(2) req by auto
  next
    case (Inr s)
    then show ?thesis using ds d(2) stored_upsert[OF st(1)] req by auto
  qed
qed

definition sample_session :: session_row where
  "sample_session = \<lparr>sr_session_id = ''s'', sr_user_id = 1, sr_daemon_id = Some ''d'', sr_agent_type = Some ''codex'',
     sr_source = None, sr_control_mode = None, sr_capabilities = [''message_queue_v1''], sr_status = Some ''idle''\<rparr>"

definition sample_db :: queue_db where
  "sample_db = \<lparr>db_sessions = [sample_session], db_deleted = [], db_subagents = [], db_bindings = [],
     db_team_sessions = [], db_events = [],
     db_queues = [\<lparr>qr_session_id = ''s'', qr_user = 1, qr_state = sample_queue, qr_updated_at = 0\<rparr>]\<rparr>"

definition sample_env :: tick_env where
  "sample_env = \<lparr>te_now = 1000, te_uuid = (\<lambda>_. ''r1''), te_online1 = (\<lambda>_ _. True), te_online2 = (\<lambda>_ _. True),
     te_dispatch = (\<lambda>_ _ _. Inr None)\<rparr>"

lemma sent_message_stays_claimed_example:
  "\<exists>s. stored_queue (snd (tick_row sample_env (1, ''s'') sample_db)) 1 ''s'' = Some s
     \<and> (\<exists>j \<in> set (qs_items s). qi_request_id j = Some ''r1'' \<and> qi_state j \<in> {Dispatching, Failed})"
proof -
  obtain sent db2 where t: "tick_row sample_env (1, ''s'') sample_db = (sent, db2)" by force
  have "fst (tick_row sample_env (1, ''s'') sample_db) \<noteq> []" by code_simp
  moreover have "owned sample_db 1 ''s''" by (simp add: owned_def sample_db_def)
  moreover have "te_uuid sample_env ''s'' = ''r1''" by (simp add: sample_env_def)
  ultimately show ?thesis using sent_message_stays_claimed[of sample_db 1 "''s''" sample_env sent db2] t by auto
qed

text \<open>
  C16. Before an operation runs, the queue is brought up to date with the whole event log, whatever
  the number of pages: the paged loop ends and leaves exactly the state of one pass over all
  relevant events after the cursor in the order of their identifiers, so no decision is taken at a
  page boundary.
\<close>

theorem catch_up_is_one_ordered_pass:
  assumes "distinct (map ev_id (db_events db))" and "stored_queue db uid sid = Some s"
  shows "locked_state db uid sid p
    = foldl apply_event s (sort_key ev_id (filter (relevant sid (qs_cursor s)) (db_events db)))"
  using drain_is_one_pass[OF assms(1)] assms(2) by (simp add: locked_state_def pending_events_def)

definition sample_started :: queue_event where
  "sample_started = \<lparr>ev_id = 4, ev_session = ''s'', ev_type = ''queue_dispatch_started'',
     ev_payload = Some [(''request_id'', JStr ''r2'')]\<rparr>"

theorem catch_up_is_one_ordered_pass_witness:
  "\<forall>p. locked_state (sample_db\<lparr>db_events := [sample_completed, sample_started]\<rparr>) 1 ''s'' p
     = apply_event (apply_event sample_queue sample_started) sample_completed"
proof
  fix p
  let ?db = "sample_db\<lparr>db_events := [sample_completed, sample_started]\<rparr>"
  have "distinct (map ev_id (db_events ?db))" by (simp add: sample_completed_def sample_started_def)
  moreover have "stored_queue ?db 1 ''s'' = Some sample_queue" by (simp add: stored_queue_def sample_db_def)
  ultimately show "locked_state ?db 1 ''s'' p = apply_event (apply_event sample_queue sample_started) sample_completed"
    using catch_up_is_one_ordered_pass[of ?db 1 "''s''" sample_queue p]
    by (simp add: relevant_def sample_queue_def sample_completed_def sample_started_def)
qed

section \<open>A stale terminal status\<close>

text \<open>
  When the second transaction of \<open>tick\<close> returns a claimed item to \<open>pending\<close> because the daemon
  went offline, it deletes \<open>request_id\<close> and \<open>started_at\<close> but, unlike \<open>resume\<close>, neither \<open>turn_id\<close> nor
  \<open>terminal\<close>. If a turn the user started elsewhere ran and completed in between, its terminal
  status stays with the item: after the next claim the bare acknowledgement \<open>queue_dispatch_started\<close>
  removes the item before any turn of its own has run.
\<close>

definition foreign_turn :: "string \<Rightarrow> queue_event" where
  "foreign_turn st = \<lparr>ev_id = 3, ev_session = ''s'', ev_type = ''turn_status'',
     ev_payload = Some [(''turn_id'', JStr ''t0''), (''turn_status'', JStr st)]\<rparr>"

definition stale_run :: QueueState where
  "stale_run =
     (let s1 = snd (claimQueue sample_queue True 1000 ''r1'');
          s2 = apply_event (apply_event s1 (foreign_turn ''running'')) (foreign_turn ''completed'');
          s3 = (case dispatch_op (\<lambda>_ _. False) (\<lambda>_. Inr None) 1 (the (fst (claimQueue sample_queue True 1000 ''r1'')))
                  (the (getSessionRuntimePolicy sample_db ''s'' 1)) s2 of (Inr t, _) \<Rightarrow> t | _ \<Rightarrow> s2);
          s4 = snd (claimQueue s3 True 2000 ''r2'')
      in s4)"

lemma stale_terminal_completes_item:
  "map qi_state (qs_items stale_run) = [Dispatching] \<and> qs_items (apply_event stale_run sample_started) = []"
  by code_simp

end
