(* ===== verification/Replay_Page.thy ===== *)
theory Replay_Page
  imports Prelude
begin

text \<open>
  Page boundaries of the history replay, \<open>relay/src/replay-page.ts\<close>. A chunked stream counts as
  one logical item, and a page may only end where every stream it shows is whole: scanned newest
  first a stream is whole once its zero chunk is in, scanned oldest first once its final chunk is.
  A row is the JSON value of its \<open>payload\<close>, if it has one; a \<open>Set\<close> is a set.
\<close>

section \<open>Streams\<close>

record ReplayBoundary =
  endIndex :: nat
  logicalCount :: nat

record ReplayStream =
  rs_id :: string
  startsAtZero :: bool
  endsAtFinal :: bool

definition STREAM_EVENT_TYPES :: "string list" where
  "STREAM_EVENT_TYPES = [''agent_text'', ''agent_reasoning'', ''tool_result'', ''agent_file_change'']"

text \<open>\<open>v?.k\<close> of a JSON value.\<close>

fun json_field :: "json option \<Rightarrow> string \<Rightarrow> json option" where
  "json_field (Some (JObj fs)) k = jm_get fs k"
| "json_field _ k = None"

definition replayStream :: "json option \<Rightarrow> ReplayStream option" where
  "replayStream payload =
     (case json_field payload ''type'' of
        Some (JStr ty) \<Rightarrow>
          if ty \<notin> set STREAM_EVENT_TYPES then None
          else (case (json_field payload ''stream_id'', json_field payload ''chunk_seq'', json_field payload ''byte_offset'') of
                  (Some (JStr sid), Some (JNum c), Some (JNum b)) \<Rightarrow>
                    if sid = [] then None
                    else Some \<lparr>rs_id = sid, startsAtZero = (c = 0 \<and> b = 0),
                               endsAtFinal = (json_field payload ''final'' = Some (JBool True))\<rparr>
                | _ \<Rightarrow> None)
      | _ \<Rightarrow> None)"

section \<open>Scans\<close>

fun count_items :: "string set \<Rightarrow> json option list \<Rightarrow> nat" where
  "count_items seen [] = 0"
| "count_items seen (row # rows) =
     (case replayStream row of
        Some st \<Rightarrow> if rs_id st \<in> seen then count_items seen rows
                   else Suc (count_items (insert (rs_id st) seen) rows)
      | None \<Rightarrow> Suc (count_items seen rows))"

definition countReplayLogicalItems :: "json option list \<Rightarrow> nat" where
  "countReplayLogicalItems rows = count_items {} rows"

text \<open>The loop of the two \<open>hasOpen\<close> functions, which differ in the chunk that closes a stream.\<close>

fun open_streams :: "(ReplayStream \<Rightarrow> bool) \<Rightarrow> string set \<Rightarrow> json option list \<Rightarrow> string set" where
  "open_streams closes opened [] = opened"
| "open_streams closes opened (row # rows) =
     (case replayStream row of
        None \<Rightarrow> open_streams closes opened rows
      | Some st \<Rightarrow>
          open_streams closes
            (if closes st then insert (rs_id st) opened - {rs_id st} else insert (rs_id st) opened) rows)"

definition hasOpenReplayStreams :: "json option list \<Rightarrow> bool" where
  "hasOpenReplayStreams rowsDesc = (open_streams startsAtZero {} rowsDesc \<noteq> {})"

definition hasOpenForwardReplayStreams :: "json option list \<Rightarrow> bool" where
  "hasOpenForwardReplayStreams rowsAsc = (open_streams endsAtFinal {} rowsAsc \<noteq> {})"

text \<open>The loop of the two boundary functions.\<close>

fun scan_boundary :: "(ReplayStream \<Rightarrow> bool) \<Rightarrow> int \<Rightarrow> string set \<Rightarrow> string set \<Rightarrow> nat \<Rightarrow> nat \<Rightarrow> json option list
    \<Rightarrow> ReplayBoundary option" where
  "scan_boundary closes limit seen opened n index [] = None"
| "scan_boundary closes limit seen opened n index (row # rows) =
     (let (seen1, opened1, n1) =
            (case replayStream row of
               Some st \<Rightarrow>
                 (let (s, p, m) = (if rs_id st \<notin> seen then (insert (rs_id st) seen, insert (rs_id st) opened, Suc n)
                                   else (seen, opened, n))
                  in (s, if closes st then p - {rs_id st} else p, m))
             | None \<Rightarrow> (seen, opened, Suc n))
      in if limit \<le> int n1 \<and> opened1 = {} then Some \<lparr>endIndex = index, logicalCount = n1\<rparr>
         else scan_boundary closes limit seen1 opened1 n1 (Suc index) rows)"

definition findCompleteReplayBoundary :: "json option list \<Rightarrow> int \<Rightarrow> ReplayBoundary option" where
  "findCompleteReplayBoundary rowsDesc logicalLimit = scan_boundary startsAtZero logicalLimit {} {} 0 0 rowsDesc"

definition findCompleteForwardReplayBoundary :: "json option list \<Rightarrow> int \<Rightarrow> ReplayBoundary option" where
  "findCompleteForwardReplayBoundary rowsAsc logicalLimit = scan_boundary endsAtFinal logicalLimit {} {} 0 0 rowsAsc"

section \<open>What a boundary means\<close>

text \<open>The streams of a page, those with their closing chunk in it, and pages that are whole.\<close>

definition page_streams :: "json option list \<Rightarrow> string set" where
  "page_streams rows = {rs_id st |st. Some st \<in> replayStream ` set rows}"

definition closed_streams :: "(ReplayStream \<Rightarrow> bool) \<Rightarrow> json option list \<Rightarrow> string set" where
  "closed_streams closes rows = {rs_id st |st. Some st \<in> replayStream ` set rows \<and> closes st}"

definition page_ends :: "(ReplayStream \<Rightarrow> bool) \<Rightarrow> int \<Rightarrow> json option list \<Rightarrow> nat \<Rightarrow> bool" where
  "page_ends closes limit rows j \<longleftrightarrow>
     limit \<le> int (countReplayLogicalItems (take (Suc j) rows))
     \<and> page_streams (take (Suc j) rows) = closed_streams closes (take (Suc j) rows)"

lemma page_streams_snoc:
  "page_streams (rows @ [row]) = page_streams rows \<union> (case replayStream row of None \<Rightarrow> {} | Some st \<Rightarrow> {rs_id st})"
  by (auto simp: page_streams_def split: option.splits)

lemma closed_streams_snoc:
  "closed_streams closes (rows @ [row]) = closed_streams closes rows
     \<union> (case replayStream row of None \<Rightarrow> {} | Some st \<Rightarrow> if closes st then {rs_id st} else {})"
  by (auto simp: closed_streams_def split: option.splits)

lemma closed_subset: "closed_streams closes rows \<subseteq> page_streams rows"
  by (auto simp: closed_streams_def page_streams_def)

lemma count_items_snoc:
  "count_items seen (rows @ [row]) = count_items seen rows
     + (case replayStream row of None \<Rightarrow> 1 | Some st \<Rightarrow> if rs_id st \<in> seen \<union> page_streams rows then 0 else 1)"
proof (induction rows arbitrary: seen)
  case (Cons r rows)
  have "page_streams (r # rows) = (case replayStream r of None \<Rightarrow> {} | Some st \<Rightarrow> {rs_id st}) \<union> page_streams rows"
    by (auto simp: page_streams_def split: option.splits)
  then show ?case using Cons by (auto split: option.splits)
qed (auto simp: page_streams_def split: option.splits)

text \<open>One iteration maintains the three loop variables as functions of the rows read so far.\<close>

lemma scan_boundary_unfold:
  fixes row :: "json option"
  assumes "seen = page_streams done_rows" and "opened = page_streams done_rows - closed_streams closes done_rows"
    and "n = countReplayLogicalItems done_rows"
  defines "page \<equiv> done_rows @ [row]"
  shows "scan_boundary closes limit seen opened n index (row # rows) =
    (if limit \<le> int (countReplayLogicalItems page) \<and> page_streams page = closed_streams closes page
     then Some \<lparr>endIndex = index, logicalCount = countReplayLogicalItems page\<rparr>
     else scan_boundary closes limit (page_streams page) (page_streams page - closed_streams closes page)
            (countReplayLogicalItems page) (Suc index) rows)"
proof -
  have cnt: "countReplayLogicalItems page = n + (case replayStream row of None \<Rightarrow> 1 | Some st \<Rightarrow> if rs_id st \<in> seen then 0 else 1)"
    by (simp add: page_def countReplayLogicalItems_def count_items_snoc assms split: option.splits)
  have whole: "page_streams page - closed_streams closes page = {} \<longleftrightarrow> page_streams page = closed_streams closes page"
    using closed_subset[of closes page] by blast
  show ?thesis
  proof (cases "replayStream row")
    case None
    then show ?thesis using cnt whole assms(1-3)
      by (simp add: page_def page_streams_snoc closed_streams_snoc)
  next
    case (Some st)
    have "insert (rs_id st) seen = page_streams page" "rs_id st \<in> seen \<Longrightarrow> seen = page_streams page"
      using Some assms(1) by (auto simp: page_def page_streams_snoc)
    moreover have "(if closes st then insert (rs_id st) opened - {rs_id st} else insert (rs_id st) opened)
        = page_streams page - closed_streams closes page" if "rs_id st \<notin> seen"
      using Some assms(1,2) that closed_subset[of closes done_rows]
      by (auto simp: page_def page_streams_snoc closed_streams_snoc)
    moreover have "(if closes st then opened - {rs_id st} else opened) = page_streams page - closed_streams closes page"
      if "rs_id st \<in> seen"
      using Some assms(1,2) that by (auto simp: page_def page_streams_snoc closed_streams_snoc)
    ultimately show ?thesis using Some cnt whole
      by (cases "rs_id st \<in> seen") (simp_all add: Let_def)
  qed
qed

lemma scan_boundary_spec:
  assumes "\<And>j. j < length front \<Longrightarrow> \<not> page_ends closes limit (front @ rows) j"
  shows "scan_boundary closes limit (page_streams front) (page_streams front - closed_streams closes front)
      (countReplayLogicalItems front) (length front) rows = Some b
    \<longleftrightarrow> endIndex b < length (front @ rows) \<and> page_ends closes limit (front @ rows) (endIndex b)
        \<and> logicalCount b = countReplayLogicalItems (take (Suc (endIndex b)) (front @ rows))
        \<and> (\<forall>j < endIndex b. \<not> page_ends closes limit (front @ rows) j)"
  using assms
proof (induction rows arbitrary: front)
  case Nil
  then show ?case by auto
next
  case (Cons row rows)
  have pref: "take (Suc (length front)) (front @ row # rows) = front @ [row]" by simp
  show ?case
  proof (cases "page_ends closes limit (front @ row # rows) (length front)")
    case True
    have least: "endIndex b = length front"
      if "page_ends closes limit (front @ row # rows) (endIndex b)" "\<forall>j < endIndex b. \<not> page_ends closes limit (front @ row # rows) j"
      using that True Cons.prems by (meson linorder_neqE_nat)
    have "scan_boundary closes limit (page_streams front) (page_streams front - closed_streams closes front)
        (countReplayLogicalItems front) (length front) (row # rows)
      = Some \<lparr>endIndex = length front, logicalCount = countReplayLogicalItems (front @ [row])\<rparr>"
      using True by (simp only: scan_boundary_unfold[OF refl refl refl] page_ends_def pref) simp
    then show ?thesis using True least Cons.prems pref by (cases b) auto
  next
    case False
    have "scan_boundary closes limit (page_streams front) (page_streams front - closed_streams closes front)
        (countReplayLogicalItems front) (length front) (row # rows)
      = scan_boundary closes limit (page_streams (front @ [row])) (page_streams (front @ [row]) - closed_streams closes (front @ [row]))
        (countReplayLogicalItems (front @ [row])) (length (front @ [row])) rows"
      using False by (simp only: scan_boundary_unfold[OF refl refl refl] page_ends_def pref) simp
    moreover have "\<not> page_ends closes limit ((front @ [row]) @ rows) j" if "j < length (front @ [row])" for j
      using that Cons.prems[of j] False by (cases "j = length front") auto
    ultimately show ?thesis using Cons.IH[of "front @ [row]"] by simp
  qed
qed

text \<open>
  A replay page ends at the first row where it holds the requested number of logical items and
  every stream it shows is whole, scanning in either direction: the boundary is found exactly
  there, its count is the number of logical items up to it, and there is none if no such row
  exists.
\<close>

lemma replay_page_ends_at_first_whole_row:
  "findCompleteReplayBoundary rows limit = Some b \<longleftrightarrow>
     endIndex b < length rows \<and> page_ends startsAtZero limit rows (endIndex b)
     \<and> logicalCount b = countReplayLogicalItems (take (Suc (endIndex b)) rows)
     \<and> list_all (\<lambda>j. \<not> page_ends startsAtZero limit rows j) [0..<endIndex b]"
  using scan_boundary_spec[of "[]" startsAtZero limit rows b]
  by (auto simp: findCompleteReplayBoundary_def page_streams_def countReplayLogicalItems_def list_all_iff)

lemma forward_page_ends_at_first_whole_row:
  "findCompleteForwardReplayBoundary rows limit = Some b \<longleftrightarrow>
     endIndex b < length rows \<and> page_ends endsAtFinal limit rows (endIndex b)
     \<and> logicalCount b = countReplayLogicalItems (take (Suc (endIndex b)) rows)
     \<and> list_all (\<lambda>j. \<not> page_ends endsAtFinal limit rows j) [0..<endIndex b]"
  using scan_boundary_spec[of "[]" endsAtFinal limit rows b]
  by (auto simp: findCompleteForwardReplayBoundary_def page_streams_def countReplayLogicalItems_def list_all_iff)

text \<open>A page without open streams is whole: the two tests of the module agree in this direction.\<close>

lemma open_streams_superset:
  "page_streams rows - closed_streams closes rows \<subseteq> open_streams closes opened rows
   \<and> opened - page_streams rows \<subseteq> open_streams closes opened rows"
proof (induction rows arbitrary: opened)
  case (Cons r rows)
  have ps: "page_streams (r # rows) = (case replayStream r of None \<Rightarrow> {} | Some st \<Rightarrow> {rs_id st}) \<union> page_streams rows"
    by (auto simp: page_streams_def split: option.splits)
  have cs: "closed_streams closes (r # rows) = (case replayStream r of None \<Rightarrow> {} | Some st \<Rightarrow> if closes st then {rs_id st} else {}) \<union> closed_streams closes rows"
    by (auto simp: closed_streams_def split: option.splits)
  show ?case
  proof (cases "replayStream r")
    case None
    then show ?thesis using Cons by (simp add: ps cs)
  next
    case (Some st)
    then show ?thesis
      using Cons[of "if closes st then insert (rs_id st) opened - {rs_id st} else insert (rs_id st) opened"]
        closed_subset[of closes rows]
      by (auto simp: ps cs split: if_splits)
  qed
qed (simp add: page_streams_def)

lemma no_open_streams_whole:
  "\<not> hasOpenReplayStreams rows \<Longrightarrow> page_streams rows = closed_streams startsAtZero rows"
  "\<not> hasOpenForwardReplayStreams rows \<Longrightarrow> page_streams rows = closed_streams endsAtFinal rows"
  using open_streams_superset closed_subset
  by (fastforce simp: hasOpenReplayStreams_def hasOpenForwardReplayStreams_def)+

end
