(* ===== verification/Realtime_Outbox.thy ===== *)
theory Realtime_Outbox
  imports Inbox_Claims
begin

text \<open>
  The realtime outbox of \<open>relay/src/materialization/realtime-outbox.ts\<close>: the writer that completes
  an inbox row together with its deliveries, the claim of undelivered rows and the consumer that
  hands them to the connected clients. The tables are those of the inbox and \<open>realtime_outbox\<close>;
  \<open>NOW()\<close>, the rows other transactions hold locked and the outcome of \<open>deliver\<close> are arguments. A
  transaction is one step; a claim keeps its rows locked until it closes, so nothing else changes
  them in between.
\<close>

section \<open>Rows\<close>

datatype MaterializedAudience = SessionAudience | UserAudience | InteractionOrigin

record MaterializedDelivery =
  md_eventId :: "int option"
  md_userId :: "int option"
  md_audience :: MaterializedAudience
  md_sessionId :: "string option"
  md_requestId :: "string option"
  md_ordinal :: int
  md_deliveryKey :: string
  md_type :: string
  md_payload :: payload

record outbox_row =
  ob_outboxId :: int
  ob_inboxId :: int
  ob_deliveryKey :: string
  ob_eventId :: "int option"
  ob_userId :: "int option"
  ob_sessionId :: "string option"
  ob_eventType :: string
  ob_audience :: MaterializedAudience
  ob_requestId :: "string option"
  ob_payload :: payload
  ob_createdAt :: int
  ob_deliveredAt :: "int option"

record outbox_db =
  ox_inbox :: inbox_db
  ox_rows :: "outbox_row list"
  ox_next :: int
  ox_notified :: "string list"

record RealtimeOutboxRow =
  ro_outboxId :: int
  ro_inboxId :: int
  ro_daemonId :: string
  ro_eventId :: "int option"
  ro_userId :: "int option"
  ro_audience :: MaterializedAudience
  ro_sessionId :: "string option"
  ro_requestId :: "string option"
  ro_ordinal :: int
  ro_deliveryKey :: string
  ro_type :: string
  ro_payload :: payload

text \<open>\<open>Number.parseInt(s, 10)\<close>: leading white space, a sign and the digits that follow.\<close>

definition parse_int10 :: "string \<Rightarrow> int option" where
  "parse_int10 s =
     (let t = js_trim_start s;
          negative = (t \<noteq> [] \<and> hd t = CHR ''-'');
          digits = takeWhile is_digit (if t \<noteq> [] \<and> (hd t = CHR ''-'' \<or> hd t = CHR ''+'') then tl t else t)
      in if digits = [] then None
         else Some (if negative then - int (decimal_value digits) else int (decimal_value digits)))"

text \<open>\<open>s.slice(s.lastIndexOf(':') + 1)\<close>.\<close>

definition after_last_colon :: "string \<Rightarrow> string" where
  "after_last_colon s = rev (takeWhile (\<lambda>c. c \<noteq> CHR '':'') (rev s))"

definition deliveryOrdinal :: "string \<Rightarrow> int" where
  "deliveryOrdinal deliveryKey =
     (case parse_int10 (after_last_colon deliveryKey) of
        None \<Rightarrow> 0
      | Some value \<Rightarrow> if is_safe_integer value \<and> 0 \<le> value then value else 0)"

definition toOutboxRow :: "InboxRow \<Rightarrow> outbox_row \<Rightarrow> RealtimeOutboxRow" where
  "toOutboxRow i o' =
     \<lparr>ro_outboxId = ob_outboxId o', ro_inboxId = ob_inboxId o', ro_daemonId = ir_daemonId i,
      ro_eventId = ob_eventId o', ro_userId = ob_userId o', ro_audience = ob_audience o',
      ro_sessionId = ob_sessionId o', ro_requestId = ob_requestId o',
      ro_ordinal = deliveryOrdinal (ob_deliveryKey o'), ro_deliveryKey = ob_deliveryKey o',
      ro_type = ob_eventType o', ro_payload = ob_payload o'\<rparr>"

section \<open>The writer\<close>

text \<open>
  \<open>INSERT ... ON CONFLICT (inbox_id, delivery_key) DO NOTHING\<close>; the serial column takes its next
  value either way.
\<close>

definition insert_delivery :: "int \<Rightarrow> int \<times> MaterializedDelivery \<Rightarrow> outbox_db \<Rightarrow> outbox_db" where
  "insert_delivery now x db =
     (case x of (inboxId, d) \<Rightarrow>
       let db1 = db\<lparr>ox_next := ox_next db + 1\<rparr> in
       if list_ex (\<lambda>r. ob_inboxId r = inboxId \<and> ob_deliveryKey r = md_deliveryKey d) (ox_rows db) then db1
       else db1\<lparr>ox_rows := ox_rows db @
         [\<lparr>ob_outboxId = ox_next db, ob_inboxId = inboxId, ob_deliveryKey = md_deliveryKey d,
           ob_eventId = md_eventId d, ob_userId = md_userId d, ob_sessionId = md_sessionId d,
           ob_eventType = md_type d, ob_audience = md_audience d, ob_requestId = md_requestId d,
           ob_payload = md_payload d, ob_createdAt = now, ob_deliveredAt = None\<rparr>]\<rparr>)"

definition outbox_enqueue :: "int \<Rightarrow> (int \<times> MaterializedDelivery) list \<Rightarrow> outbox_db \<Rightarrow> outbox_db" where
  "outbox_enqueue now deliveries db = fold (insert_delivery now) deliveries db"

definition pg_notify :: "int \<Rightarrow> outbox_db \<Rightarrow> outbox_db" where
  "pg_notify inboxId db = db\<lparr>ox_notified := ox_notified db @ [int_str inboxId]\<rparr>"

definition outbox_complete ::
    "int \<Rightarrow> int \<Rightarrow> int option \<Rightarrow> MaterializedDelivery list \<Rightarrow> string \<Rightarrow> int \<Rightarrow> outbox_db
      \<Rightarrow> (inbox_error + unit) \<times> outbox_db" where
  "outbox_complete now inboxId eventId deliveries workerId attempts db =
     (case complete now inboxId eventId workerId attempts (ox_inbox db) of
        (Inl e, _) \<Rightarrow> (Inl e, db)
      | (Inr _, inbox1) \<Rightarrow>
          (Inr (), pg_notify inboxId
             (outbox_enqueue now (map (Pair inboxId) deliveries) (db\<lparr>ox_inbox := inbox1\<rparr>))))"

record replay_completion =
  rp_inboxId :: int
  rp_attempts :: int
  rp_eventId :: "int option"
  rp_deliveries :: "MaterializedDelivery list"

definition replay_match :: "int \<Rightarrow> string \<Rightarrow> InboxRow \<Rightarrow> nat \<times> replay_completion \<Rightarrow> bool" where
  "replay_match now workerId i x =
     (case x of (ordinal, c) \<Rightarrow>
       ir_inboxId i = rp_inboxId c \<and> ir_attempts i = rp_attempts c
       \<and> (if ordinal = 0 then ir_status i = 1 \<and> ir_claimedBy i = Some workerId
          else ir_status i = 0 \<and> ir_availableAt i \<le> now))"

definition complete_row :: "int \<Rightarrow> int option \<Rightarrow> InboxRow \<Rightarrow> InboxRow" where
  "complete_row now eventId r =
     r\<lparr>ir_status := 2, ir_completedAt := Some now, ir_materializedEventId := eventId,
       ir_claimedAt := None, ir_claimedBy := None, ir_lastError := None\<rparr>"

text \<open>
  \<open>UPDATE event_inbox i ... FROM jsonb_to_recordset(...) c\<close>: a row is updated once, from the first
  record that matches it. The error leaves the caller's transaction to roll back.
\<close>

definition completeReplayBatch ::
    "int \<Rightarrow> replay_completion list \<Rightarrow> string \<Rightarrow> outbox_db \<Rightarrow> (inbox_error + unit) \<times> outbox_db" where
  "completeReplayBatch now rows workerId db =
     (case rows of
        [] \<Rightarrow> (Inr (), db)
      | first # _ \<Rightarrow>
          (let cs = enumerate 0 rows;
               hit = (\<lambda>i. List.find (replay_match now workerId i) cs);
               inbox1 = (ox_inbox db)\<lparr>db_inbox := map (\<lambda>i. case hit i of None \<Rightarrow> i | Some (_, c) \<Rightarrow> complete_row now (rp_eventId c) i)
                          (db_inbox (ox_inbox db))\<rparr>
           in if length (filter (\<lambda>i. hit i \<noteq> None) (db_inbox (ox_inbox db))) \<noteq> length rows
              then (Inl (LostClaim (rp_inboxId first)), db)
              else (Inr (), pg_notify (rp_inboxId (last rows))
                     (outbox_enqueue now (concat (map (\<lambda>c. map (Pair (rp_inboxId c)) (rp_deliveries c)) rows))
                       (db\<lparr>ox_inbox := inbox1\<rparr>)))))"

section \<open>Claiming and marking\<close>

definition outbox_order :: "outbox_row \<Rightarrow> int \<times> int" where
  "outbox_order r = (ob_createdAt r, ob_outboxId r)"

definition undelivered :: "outbox_row \<Rightarrow> bool" where
  "undelivered r = (ob_deliveredAt r = None)"

definition claim_rows :: "(int \<Rightarrow> bool) \<Rightarrow> int \<Rightarrow> outbox_db \<Rightarrow> outbox_row list" where
  "claim_rows locked limit db =
     take (nat (max 1 limit))
       (sort_key outbox_order
         (filter (\<lambda>r. undelivered r \<and> row_by_id (ob_inboxId r) (db_inbox (ox_inbox db)) \<noteq> None
            \<and> \<not> locked (ob_outboxId r)) (ox_rows db)))"

definition claimUndelivered :: "(int \<Rightarrow> bool) \<Rightarrow> int \<Rightarrow> outbox_db \<Rightarrow> RealtimeOutboxRow list" where
  "claimUndelivered locked limit db =
     map (\<lambda>r. toOutboxRow (the (row_by_id (ob_inboxId r) (db_inbox (ox_inbox db)))) r) (claim_rows locked limit db)"

datatype outbox_error = ClaimLost | DeliverThrew string

definition markDelivered :: "int \<Rightarrow> int \<Rightarrow> outbox_db \<Rightarrow> outbox_error + outbox_db" where
  "markDelivered now outboxId db =
     (let P = (\<lambda>r. ob_outboxId r = outboxId \<and> undelivered r) in
      if length (filter P (ox_rows db)) \<noteq> 1 then Inl ClaimLost
      else Inr (db\<lparr>ox_rows := map (\<lambda>r. if P r then r\<lparr>ob_deliveredAt := Some now\<rparr> else r) (ox_rows db)\<rparr>))"

section \<open>The consumer\<close>

text \<open>What \<open>deliver\<close> comes to: it returned anything but \<open>false\<close>, it returned \<open>false\<close>, it threw.\<close>

datatype deliver_result = Handed | NoRecipient | Threw string

text \<open>
  The loop of \<open>runOnce\<close> inside the claim's transaction; the second component is what \<open>deliver\<close> was
  called with, in order.
\<close>

fun deliver_rows :: "(RealtimeOutboxRow \<Rightarrow> deliver_result) \<Rightarrow> int \<Rightarrow> RealtimeOutboxRow list \<Rightarrow> outbox_db
    \<Rightarrow> (outbox_error + outbox_db) \<times> RealtimeOutboxRow list" where
  "deliver_rows deliver now [] db = (Inr db, [])"
| "deliver_rows deliver now (r # rs) db =
     (case deliver r of
        Threw e \<Rightarrow> (Inl (DeliverThrew e), [r])
      | NoRecipient \<Rightarrow> (case deliver_rows deliver now rs db of (res, called) \<Rightarrow> (res, r # called))
      | Handed \<Rightarrow>
          (case markDelivered now (ro_outboxId r) db of
             Inl e \<Rightarrow> (Inl e, [r])
           | Inr db1 \<Rightarrow> (case deliver_rows deliver now rs db1 of (res, called) \<Rightarrow> (res, r # called))))"

definition outbox_runOnce :: "(RealtimeOutboxRow \<Rightarrow> deliver_result) \<Rightarrow> (int \<Rightarrow> bool) \<Rightarrow> int \<Rightarrow> int \<Rightarrow> outbox_db
    \<Rightarrow> (outbox_error + unit) \<times> RealtimeOutboxRow list \<times> outbox_db" where
  "outbox_runOnce deliver locked batchSize now db =
     (case deliver_rows deliver now (claimUndelivered locked batchSize db) db of
        (Inl e, called) \<Rightarrow> (Inl e, called, db)
      | (Inr db1, called) \<Rightarrow> (Inr (), called, db1))"

text \<open>
  Timers and subscriptions. \<open>oc_timer\<close> is the delay the pending timer was set with; \<open>oc_live\<close>
  counts the listener connections that were opened and not yet unsubscribed, by generation.
\<close>

record outbox_consumer =
  oc_pollIntervalMs :: int
  oc_activeRun :: bool
  oc_timer :: "int option"
  oc_activeSubscription :: "int option"
  oc_pendingStarts :: "int list"
  oc_generation :: int
  oc_stopped :: bool
  oc_live :: "int list"

definition new_outbox_consumer :: "int option \<Rightarrow> outbox_consumer" where
  "new_outbox_consumer poll =
     \<lparr>oc_pollIntervalMs = max 1 (case poll of None \<Rightarrow> 1000 | Some p \<Rightarrow> p), oc_activeRun = False, oc_timer = None,
      oc_activeSubscription = None, oc_pendingStarts = [], oc_generation = 0, oc_stopped = True, oc_live = []\<rparr>"

definition oc_schedule :: "int \<Rightarrow> outbox_consumer \<Rightarrow> outbox_consumer" where
  "oc_schedule delayMs c = (if oc_stopped c \<or> oc_timer c \<noteq> None then c else c\<lparr>oc_timer := Some delayMs\<rparr>)"

definition oc_wake :: "int \<Rightarrow> outbox_consumer \<Rightarrow> outbox_consumer" where
  "oc_wake generation c =
     (if oc_stopped c \<or> oc_activeSubscription c \<noteq> Some generation then c
      else oc_schedule 0 (c\<lparr>oc_timer := None\<rparr>))"

text \<open>The timer fires: a run starts unless one is active, and its end schedules the next poll.\<close>

definition oc_fire :: "outbox_consumer \<Rightarrow> outbox_consumer" where
  "oc_fire c = (if oc_timer c = None then c else c\<lparr>oc_timer := None, oc_activeRun := True\<rparr>)"

definition oc_run_settled :: "outbox_consumer \<Rightarrow> outbox_consumer" where
  "oc_run_settled c = oc_schedule (oc_pollIntervalMs c) (c\<lparr>oc_activeRun := False\<rparr>)"

definition oc_start :: "outbox_consumer \<Rightarrow> outbox_consumer" where
  "oc_start c =
     (if \<not> oc_stopped c then c
      else c\<lparr>oc_stopped := False, oc_generation := oc_generation c + 1,
             oc_pendingStarts := oc_pendingStarts c @ [oc_generation c + 1]\<rparr>)"

definition oc_unsubscribe :: "int option \<Rightarrow> outbox_consumer \<Rightarrow> outbox_consumer" where
  "oc_unsubscribe g c = (case g of None \<Rightarrow> c | Some x \<Rightarrow> c\<lparr>oc_live := removeAll x (oc_live c)\<rparr>)"

text \<open>
  \<open>start\<close> after its \<open>await subscribe\<close>: the new listener is dropped when \<open>stop\<close> ran meanwhile,
  otherwise it replaces the active one; a failed subscription stops the consumer again.
\<close>

definition oc_subscribed :: "int \<Rightarrow> bool \<Rightarrow> outbox_consumer \<Rightarrow> outbox_consumer" where
  "oc_subscribed generation ok c =
     (let c0 = c\<lparr>oc_pendingStarts := removeAll generation (oc_pendingStarts c)\<rparr> in
      if ok then
        (let c1 = c0\<lparr>oc_live := oc_live c0 @ [generation]\<rparr> in
         if oc_stopped c1 \<or> generation \<noteq> oc_generation c1 then oc_unsubscribe (Some generation) c1
         else oc_schedule 0
                (oc_unsubscribe (oc_activeSubscription c1) (c1\<lparr>oc_activeSubscription := Some generation\<rparr>)))
      else if generation = oc_generation c0 then c0\<lparr>oc_stopped := True\<rparr> else c0)"

definition oc_stop :: "outbox_consumer \<Rightarrow> outbox_consumer" where
  "oc_stop c =
     oc_unsubscribe (oc_activeSubscription c)
       (c\<lparr>oc_generation := oc_generation c + 1, oc_stopped := True, oc_timer := None, oc_activeSubscription := None\<rparr>)"

inductive oc_step :: "outbox_consumer \<Rightarrow> outbox_consumer \<Rightarrow> bool" where
  "oc_step c (oc_start c)"
| "g \<in> set (oc_pendingStarts c) \<Longrightarrow> oc_step c (oc_subscribed g ok c)"
| "oc_step c (oc_wake g c)"
| "oc_step c (oc_fire c)"
| "oc_activeRun c \<Longrightarrow> oc_step c (oc_run_settled c)"
| "oc_step c (oc_stop c)"

section \<open>The outbox invariant\<close>

definition row_identity :: "outbox_row \<Rightarrow> int \<times> string" where
  "row_identity r = (ob_inboxId r, ob_deliveryKey r)"

definition outbox_inv :: "outbox_db \<Rightarrow> bool" where
  "outbox_inv db \<longleftrightarrow> inbox_wf (ox_inbox db) \<and> distinct (map row_identity (ox_rows db))
     \<and> distinct (map ob_outboxId (ox_rows db)) \<and> (\<forall>r \<in> set (ox_rows db). ob_outboxId r < ox_next db)"

definition outbox_keys :: "outbox_db \<Rightarrow> (int \<times> string) set" where
  "outbox_keys db = row_identity ` set (ox_rows db)"

lemma insert_delivery_inv:
  assumes "outbox_inv db" shows "outbox_inv (insert_delivery now x db)"
proof -
  obtain i d where x: "x = (i, d)" by force
  show ?thesis
  proof (cases "list_ex (\<lambda>r. ob_inboxId r = i \<and> ob_deliveryKey r = md_deliveryKey d) (ox_rows db)")
    case True
    then show ?thesis using assms by (auto simp: insert_delivery_def x outbox_inv_def Let_def)
  next
    case False
    then have "(i, md_deliveryKey d) \<notin> row_identity ` set (ox_rows db)" by (auto simp: list_ex_iff row_identity_def)
    moreover have "ox_next db \<notin> ob_outboxId ` set (ox_rows db)" using assms by (auto simp: outbox_inv_def)
    ultimately show ?thesis using assms False
      by (auto simp: insert_delivery_def x outbox_inv_def Let_def row_identity_def)
  qed
qed

lemma insert_delivery_keys: "outbox_keys (insert_delivery now (i, d) db) = insert (i, md_deliveryKey d) (outbox_keys db)"
  by (auto simp: insert_delivery_def Let_def outbox_keys_def row_identity_def list_ex_iff image_iff)

lemma insert_delivery_inbox [simp]: "ox_inbox (insert_delivery now x db) = ox_inbox db"
  by (cases x) (simp add: insert_delivery_def Let_def)

lemma outbox_enqueue_effect:
  assumes "outbox_inv db"
  shows "outbox_inv (outbox_enqueue now xs db)"
    and "outbox_keys (outbox_enqueue now xs db) = outbox_keys db \<union> (\<lambda>(i, d). (i, md_deliveryKey d)) ` set xs"
    and "ox_inbox (outbox_enqueue now xs db) = ox_inbox db"
    and "mset (ox_rows db) \<subseteq># mset (ox_rows (outbox_enqueue now xs db))"
  using assms unfolding outbox_enqueue_def
proof (induction xs arbitrary: db)
  case (Cons x xs)
  { case 1 then show ?case using Cons insert_delivery_inv by simp }
  { case 2 then show ?case using Cons.IH(2)[OF insert_delivery_inv[OF 2], of now x] insert_delivery_keys by (cases x) auto }
  { case 3 then show ?case using Cons.IH(3)[OF insert_delivery_inv[OF 3], of now x] by simp }
  { case 4
    have "mset (ox_rows db) \<subseteq># mset (ox_rows (insert_delivery now x db))"
      by (cases x) (simp add: insert_delivery_def Let_def)
    then show ?case using Cons.IH(4)[OF insert_delivery_inv[OF 4], of now x] by (simp add: subset_mset.order_trans) }
qed auto

lemma pg_notify_fields [simp]:
  "ox_inbox (pg_notify i db) = ox_inbox db" "ox_rows (pg_notify i db) = ox_rows db"
  "outbox_inv (pg_notify i db) = outbox_inv db" "outbox_keys (pg_notify i db) = outbox_keys db"
  by (simp_all add: pg_notify_def outbox_inv_def outbox_keys_def)

end
