(* ===== verification/Outbox_Delivery.thy ===== *)
theory Outbox_Delivery
  imports Realtime_Outbox
begin

text \<open>
  What the outbox guarantees: an inbox row is completed together with its deliveries or not at all,
  a run of the consumer marks exactly the rows it handed over, and the consumer never leaks a
  listener.
\<close>

section \<open>Completion\<close>

lemma distinct_filter_one:
  assumes "distinct (map f xs)" and "y \<in> f ` set xs"
  shows "length (filter (\<lambda>x. f x = y) xs) = 1"
  using assms
proof (induction xs)
  case (Cons a xs)
  have none: "f a \<notin> f ` set xs" using Cons.prems(1) by simp
  show ?case
  proof (cases "f a = y")
    case True
    then have "filter (\<lambda>x. f x = y) xs = []" using none by (metis (mono_tags) filter_False imageI)
    then show ?thesis using True by simp
  next
    case False
    then show ?thesis using Cons by auto
  qed
qed simp

lemma complete_owned:
  assumes "inbox_wf db" and "owns db i w a"
  shows "\<exists>db'. complete now i ev w a db = (Inr (), db') \<and> inbox_wf db' \<and> \<not> owns db' i w a
    \<and> (\<exists>r. row_by_id i (db_inbox db') = Some r \<and> ir_status r = 2)"
proof -
  let ?f = "complete_row now ev"
  let ?db = "update_where (holds_claim i w a) ?f db"
  have eq: "complete now i ev w a db = (Inr (), ?db)"
    using fenced_update_cases[OF assms(1), of i w a ?f] assms(2) by (simp add: complete_def complete_row_def[abs_def])
  have id: "keeps_identity ?f" by (simp add: keeps_identity_def complete_row_def)
  obtain r where "row_by_id i (db_inbox db) = Some r" "holds_claim i w a r" using assms(2) by (auto simp: owns_def)
  then have "row_by_id i (db_inbox ?db) = Some (?f r)" using row_by_id_update[OF id] by simp
  moreover have "ir_status (?f r) = 2" by (simp add: complete_row_def)
  ultimately show ?thesis using eq update_where_wf[OF id assms(1)] by (auto simp: owns_def holds_claim_def)
qed

lemma outbox_complete_cases:
  assumes "outbox_inv db"
  shows "owns (ox_inbox db) i w a \<Longrightarrow> \<exists>db'. outbox_complete now i ev ds w a db = (Inr (), db') \<and> outbox_inv db'
      \<and> \<not> owns (ox_inbox db') i w a \<and> (\<exists>r. row_by_id i (db_inbox (ox_inbox db')) = Some r \<and> ir_status r = 2)
      \<and> outbox_keys db' = outbox_keys db \<union> (\<lambda>d. (i, md_deliveryKey d)) ` set ds
      \<and> mset (ox_rows db) \<subseteq># mset (ox_rows db')"
    and "\<not> owns (ox_inbox db) i w a \<Longrightarrow> outbox_complete now i ev ds w a db = (Inl (LostClaim i), db)"
proof -
  have wf: "inbox_wf (ox_inbox db)" using assms by (simp add: outbox_inv_def)
  show "outbox_complete now i ev ds w a db = (Inl (LostClaim i), db)" if "\<not> owns (ox_inbox db) i w a"
    using fenced_update_cases[OF wf] that by (simp add: outbox_complete_def complete_def)
  assume "owns (ox_inbox db) i w a"
  then obtain ib where ib: "complete now i ev w a (ox_inbox db) = (Inr (), ib)" "inbox_wf ib" "\<not> owns ib i w a"
    "\<exists>r. row_by_id i (db_inbox ib) = Some r \<and> ir_status r = 2" using complete_owned[OF wf] by blast
  have inv: "outbox_inv (db\<lparr>ox_inbox := ib\<rparr>)" using assms ib(2) by (simp add: outbox_inv_def)
  note e = outbox_enqueue_effect[OF inv, of now "map (Pair i) ds"]
  show "\<exists>db'. outbox_complete now i ev ds w a db = (Inr (), db') \<and> outbox_inv db'
      \<and> \<not> owns (ox_inbox db') i w a \<and> (\<exists>r. row_by_id i (db_inbox (ox_inbox db')) = Some r \<and> ir_status r = 2)
      \<and> outbox_keys db' = outbox_keys db \<union> (\<lambda>d. (i, md_deliveryKey d)) ` set ds
      \<and> mset (ox_rows db) \<subseteq># mset (ox_rows db')"
    using ib e by (auto simp: outbox_complete_def outbox_keys_def image_iff)
qed

section \<open>Delivery\<close>

definition mark_row :: "int \<Rightarrow> outbox_row \<Rightarrow> outbox_row" where
  "mark_row now r = r\<lparr>ob_deliveredAt := Some now\<rparr>"

lemma markDelivered_claimed:
  assumes "distinct (map ob_outboxId (ox_rows db))" and "r \<in> set (ox_rows db)" and "undelivered r"
  shows "markDelivered now (ob_outboxId r) db
    = Inr (db\<lparr>ox_rows := map (\<lambda>x. if x = r then mark_row now x else x) (ox_rows db)\<rparr>)"
proof -
  have same: "ob_outboxId x = ob_outboxId r \<and> undelivered x \<longleftrightarrow> x = r" if "x \<in> set (ox_rows db)" for x
    using assms that by (auto simp: distinct_map inj_on_def)
  have "filter (\<lambda>x. ob_outboxId x = ob_outboxId r \<and> undelivered x) (ox_rows db) = filter (\<lambda>x. x = r) (ox_rows db)"
    using same by (intro filter_cong) auto
  moreover have "length (filter (\<lambda>x. x = r) (ox_rows db)) = 1"
    using distinct_filter_one[of id "ox_rows db" r] assms(1,2) by (simp add: distinct_map)
  moreover have "map (\<lambda>x. if ob_outboxId x = ob_outboxId r \<and> undelivered x then x\<lparr>ob_deliveredAt := Some now\<rparr> else x) (ox_rows db)
      = map (\<lambda>x. if x = r then mark_row now x else x) (ox_rows db)"
    using same by (intro map_cong) (auto simp: mark_row_def)
  ultimately show ?thesis by (simp add: markDelivered_def)
qed

lemma map_mark_once:
  assumes "distinct (map ob_outboxId rows)" and "r \<in> set rows"
  shows "distinct (map ob_outboxId (map (\<lambda>x. if x = r then mark_row now x else x) rows))"
    and "map ob_outboxId (map (\<lambda>x. if x = r then mark_row now x else x) rows) = map ob_outboxId rows"
proof -
  show "map ob_outboxId (map (\<lambda>x. if x = r then mark_row now x else x) rows) = map ob_outboxId rows"
    by (simp add: mark_row_def)
  then show "distinct (map ob_outboxId (map (\<lambda>x. if x = r then mark_row now x else x) rows))" using assms(1) by metis
qed

text \<open>
  The delivery loop over claimed rows: it fails only if \<open>deliver\<close> throws, and otherwise marks
  exactly the rows it handed over.
\<close>

lemma deliver_rows_spec:
  assumes "distinct (map ob_outboxId (ox_rows db))" and "set rs \<subseteq> set (ox_rows db)"
    and "\<And>r. r \<in> set rs \<Longrightarrow> undelivered r" and "distinct (map ob_outboxId rs)"
    and "\<And>r. ro_outboxId (v r) = ob_outboxId r"
    and "deliver_rows deliver now (map v rs) db = (res, called)"
  shows "(\<exists>r e. r \<in> set rs \<and> res = Inl (DeliverThrew e) \<and> deliver (v r) = Threw e)
    \<or> called = map v rs \<and> res = Inr (db\<lparr>ox_rows := map (\<lambda>r. if r \<in> set rs \<and> deliver (v r) = Handed then mark_row now r else r) (ox_rows db)\<rparr>)"
  using assms
proof (induction rs arbitrary: db res called)
  case Nil
  then show ?case by simp
next
  case (Cons r rs)
  have r: "r \<in> set (ox_rows db)" "undelivered r" using Cons.prems by auto
  have new: "r \<notin> set rs" using Cons.prems(4) by auto
  show ?case
  proof (cases "deliver (v r)")
    case (Threw e)
    then have "res = Inl (DeliverThrew e)" using Cons.prems(6) by simp
    then show ?thesis using Threw by (intro disjI1 exI[of _ r] exI[of _ e]) simp
  next
    case NoRecipient
    obtain res' called' where rec: "deliver_rows deliver now (map v rs) db = (res', called')" by force
    then have eq: "res = res'" "called = v r # called'" using NoRecipient Cons.prems(6) by auto
    have cong: "map (\<lambda>x. if x \<in> set rs \<and> deliver (v x) = Handed then mark_row now x else x) (ox_rows db)
      = map (\<lambda>x. if x \<in> set (r # rs) \<and> deliver (v x) = Handed then mark_row now x else x) (ox_rows db)"
      using NoRecipient by (intro map_cong) auto
    show ?thesis using Cons.IH[OF Cons.prems(1) _ _ _ Cons.prems(5) rec] Cons.prems(2-4) eq cong by auto
  next
    case Handed
    let ?rows = "map (\<lambda>x. if x = r then mark_row now x else x) (ox_rows db)"
    let ?db = "db\<lparr>ox_rows := ?rows\<rparr>"
    obtain res' called' where rec: "deliver_rows deliver now (map v rs) ?db = (res', called')" by force
    have eq: "res = res'" "called = v r # called'"
      using Handed Cons.prems(6) rec markDelivered_claimed[OF Cons.prems(1) r] Cons.prems(5)[of r] by auto
    have d: "distinct (map ob_outboxId (ox_rows ?db))" using map_mark_once(1)[OF Cons.prems(1) r(1)] by simp
    have sub: "set rs \<subseteq> set (ox_rows ?db)"
    proof
      fix x assume x: "x \<in> set rs"
      then have "x \<in> set (ox_rows db)" "x \<noteq> r" using Cons.prems(2) new by auto
      then show "x \<in> set (ox_rows ?db)" by (auto intro!: rev_image_eqI[of x])
    qed
    have marked: "mark_row now r \<notin> set rs" using Cons.prems(3)[of "mark_row now r"] by (auto simp: undelivered_def mark_row_def)
    have comp: "map (\<lambda>x. if x \<in> set rs \<and> deliver (v x) = Handed then mark_row now x else x) ?rows
      = map (\<lambda>x. if x \<in> set (r # rs) \<and> deliver (v x) = Handed then mark_row now x else x) (ox_rows db)"
      using Handed new marked unfolding map_map by (intro map_cong) auto
    have "(\<exists>r e. r \<in> set rs \<and> res' = Inl (DeliverThrew e) \<and> deliver (v r) = Threw e)
      \<or> called' = map v rs \<and> res' = Inr (?db\<lparr>ox_rows := map (\<lambda>x. if x \<in> set rs \<and> deliver (v x) = Handed then mark_row now x else x) (ox_rows ?db)\<rparr>)"
      using Cons.IH[OF d sub _ _ Cons.prems(5) rec] Cons.prems(3,4) by simp
    then show ?thesis using eq comp by auto
  qed
qed

definition claim_view :: "outbox_db \<Rightarrow> outbox_row \<Rightarrow> RealtimeOutboxRow" where
  "claim_view db r = toOutboxRow (the (row_by_id (ob_inboxId r) (db_inbox (ox_inbox db)))) r"

lemma claim_rows_facts:
  assumes "outbox_inv db"
  shows "set (claim_rows locked n db) \<subseteq> set (ox_rows db)" and "r \<in> set (claim_rows locked n db) \<Longrightarrow> undelivered r"
    and "distinct (map ob_outboxId (claim_rows locked n db))"
proof -
  let ?f = "filter (\<lambda>r. undelivered r \<and> row_by_id (ob_inboxId r) (db_inbox (ox_inbox db)) \<noteq> None \<and> \<not> locked (ob_outboxId r)) (ox_rows db)"
  have sub: "set (claim_rows locked n db) \<subseteq> set ?f"
    unfolding claim_rows_def using set_take_subset[of "nat (max 1 n)" "sort_key outbox_order ?f"] by simp
  then show "set (claim_rows locked n db) \<subseteq> set (ox_rows db)" "r \<in> set (claim_rows locked n db) \<Longrightarrow> undelivered r" by auto
  have "distinct (map ob_outboxId ?f)" using assms by (simp add: outbox_inv_def distinct_map_filter)
  then have "distinct (map ob_outboxId (sort_key outbox_order ?f))"
    using mset_eq_imp_distinct_iff[of "map ob_outboxId (sort_key outbox_order ?f)" "map ob_outboxId ?f"] by simp
  then show "distinct (map ob_outboxId (claim_rows locked n db))"
    unfolding claim_rows_def take_map[symmetric] by (rule distinct_take)
qed

section \<open>The consumer\<close>

definition oc_inv :: "outbox_consumer \<Rightarrow> bool" where
  "oc_inv c \<longleftrightarrow> oc_live c = (case oc_activeSubscription c of None \<Rightarrow> [] | Some g \<Rightarrow> [g])
     \<and> (\<forall>g \<in> set (oc_pendingStarts c). g \<le> oc_generation c \<and> oc_activeSubscription c \<noteq> Some g)
     \<and> distinct (oc_pendingStarts c)
     \<and> (case oc_activeSubscription c of None \<Rightarrow> True | Some g \<Rightarrow> g \<le> oc_generation c)"

lemma schedule_fields [simp]:
  "oc_live (oc_schedule d c) = oc_live c" "oc_activeSubscription (oc_schedule d c) = oc_activeSubscription c"
  "oc_pendingStarts (oc_schedule d c) = oc_pendingStarts c" "oc_generation (oc_schedule d c) = oc_generation c"
  by (simp_all add: oc_schedule_def)

lemma oc_step_inv: "oc_step c d \<Longrightarrow> oc_inv c \<Longrightarrow> oc_inv d"
proof (induction rule: oc_step.induct)
  case (1 c)
  then show ?case by (fastforce simp: oc_inv_def oc_start_def split: option.splits)
next
  case (2 g c ok)
  then show ?case
    by (auto simp: oc_inv_def oc_subscribed_def oc_unsubscribe_def Let_def distinct_removeAll split: option.splits)
next
  case (6 c)
  then show ?case
    by (fastforce simp: oc_inv_def oc_stop_def oc_unsubscribe_def split: option.splits)
qed (auto simp: oc_inv_def oc_wake_def oc_fire_def oc_run_settled_def split: option.splits)

interpretation outbox_consumers: transition_system "\<lambda>c. c = new_outbox_consumer poll" oc_step oc_inv
proof
  show "s = new_outbox_consumer poll \<Longrightarrow> oc_inv s" for s by (simp add: oc_inv_def new_outbox_consumer_def)
  show "oc_inv s \<Longrightarrow> oc_step s t \<Longrightarrow> oc_inv t" for s t by (rule oc_step_inv)
qed

text \<open>
  In every run of the consumer at most one listener connection is open, and it is the one the
  consumer would unsubscribe: starting and stopping in any order never leaks a listener.
\<close>

lemma at_most_one_listener:
  assumes "oc_step\<^sup>*\<^sup>* (new_outbox_consumer poll) c"
  shows "oc_live c = (case oc_activeSubscription c of None \<Rightarrow> [] | Some g \<Rightarrow> [g])"
  using outbox_consumers.inv_reachable[OF refl assms] by (simp add: oc_inv_def)

section \<open>Properties\<close>

text \<open>
  C13. Completing an inbox row is atomic with enqueueing its deliveries. A worker that holds the
  claim resolves the row, gives the claim up, and for each delivery there is afterwards exactly one
  outbox row with its key, however often the materialization was repeated before; rows already
  in the outbox stay. A worker without the claim changes nothing.
\<close>

theorem outbox_completion_is_atomic:
  assumes "outbox_inv db"
  shows "if owns (ox_inbox db) i w a
    then \<exists>db'. outbox_complete now i ev ds w a db = (Inr (), db') \<and> outbox_inv db' \<and> \<not> owns (ox_inbox db') i w a
      \<and> map_option ir_status (row_by_id i (db_inbox (ox_inbox db'))) = Some 2
      \<and> list_all (\<lambda>d. length (filter (\<lambda>r. row_identity r = (i, md_deliveryKey d)) (ox_rows db')) = 1) ds
      \<and> mset (ox_rows db) \<subseteq># mset (ox_rows db')
    else outbox_complete now i ev ds w a db = (Inl (LostClaim i), db)"
proof (cases "owns (ox_inbox db) i w a")
  case True
  obtain db' where db': "outbox_complete now i ev ds w a db = (Inr (), db')" "outbox_inv db'" "\<not> owns (ox_inbox db') i w a"
    "\<exists>r. row_by_id i (db_inbox (ox_inbox db')) = Some r \<and> ir_status r = 2"
    "outbox_keys db' = outbox_keys db \<union> (\<lambda>d. (i, md_deliveryKey d)) ` set ds"
    "mset (ox_rows db) \<subseteq># mset (ox_rows db')"
    using outbox_complete_cases(1)[OF assms True] by blast
  have "length (filter (\<lambda>r. row_identity r = (i, md_deliveryKey d)) (ox_rows db')) = 1" if "d \<in> set ds" for d
    by (rule distinct_filter_one) (use db' that in \<open>auto simp: outbox_inv_def outbox_keys_def\<close>)
  then show ?thesis using True db' by (auto simp: list_all_iff)
qed (use outbox_complete_cases(2)[OF assms] in simp)

definition sample_delivery :: MaterializedDelivery where
  "sample_delivery = \<lparr>md_eventId = Some 7, md_userId = Some 1, md_audience = SessionAudience, md_sessionId = Some ''s'',
     md_requestId = None, md_ordinal = 0, md_deliveryKey = ''1:0'', md_type = ''agent_text'', md_payload = []\<rparr>"

definition sample_outbox :: outbox_db where
  "sample_outbox = \<lparr>ox_inbox = inbox_claimed, ox_rows = [], ox_next = 1, ox_notified = []\<rparr>"

lemma sample_outbox_inv: "outbox_inv sample_outbox"
  using inbox_claimed_inv by (simp add: outbox_inv_def sample_outbox_def inbox_inv_def)

theorem outbox_completion_is_atomic_witness:
  "\<exists>db'. outbox_complete 9 1 (Some 7) [sample_delivery] ''w1'' 1 sample_outbox = (Inr (), db')
     \<and> length (filter (\<lambda>r. row_identity r = (1, ''1:0'')) (ox_rows db')) = 1"
proof -
  have "owns (ox_inbox sample_outbox) 1 ''w1'' 1" using inbox_claimed_owned by (simp add: sample_outbox_def)
  then show ?thesis
    using outbox_completion_is_atomic[OF sample_outbox_inv, of 1 "''w1''" 1 9 "Some 7" "[sample_delivery]"]
    by (auto simp: sample_delivery_def)
qed

text \<open>
  A run of the outbox consumer marks a row delivered exactly when it handed it over: all claimed
  rows are offered in the order of their creation, those that have no recipient yet stay pending, and
  if a delivery throws, the whole run is rolled back and every row of the batch stays pending for
  the next run, so no undelivered row is ever lost.
\<close>

lemma outbox_run_marks_exactly_the_delivered:
  assumes "outbox_inv db"
  shows "case outbox_runOnce deliver locked n now db of
      (Inr _, called, db') \<Rightarrow>
        called = map (claim_view db) (claim_rows locked n db)
        \<and> sorted (map outbox_order (claim_rows locked n db))
        \<and> db' = db\<lparr>ox_rows := map (\<lambda>r. if r \<in> set (claim_rows locked n db) \<and> deliver (claim_view db r) = Handed
                                     then mark_row now r else r) (ox_rows db)\<rparr>
    | (Inl e, called, db') \<Rightarrow>
        db' = db \<and> (\<exists>r \<in> set (claim_rows locked n db). \<exists>msg. deliver (claim_view db r) = Threw msg \<and> e = DeliverThrew msg)"
proof -
  let ?rs = "claim_rows locked n db"
  obtain res called where run: "deliver_rows deliver now (map (claim_view db) ?rs) db = (res, called)" by force
  have rows: "claimUndelivered locked n db = map (claim_view db) ?rs" by (simp add: claimUndelivered_def claim_view_def)
  note f = claim_rows_facts[OF assms, where locked = locked and n = n]
  have d: "distinct (map ob_outboxId (ox_rows db))" using assms by (simp add: outbox_inv_def)
  have v: "ro_outboxId (claim_view db r) = ob_outboxId r" for r by (simp add: claim_view_def toOutboxRow_def)
  have srt: "sorted (map outbox_order ?rs)" unfolding claim_rows_def take_map[symmetric]
    by (rule sorted_wrt_take) simp
  consider (thrown) r e where "r \<in> set ?rs" "res = Inl (DeliverThrew e)" "deliver (claim_view db r) = Threw e"
    | (ok) "called = map (claim_view db) ?rs" "res = Inr (db\<lparr>ox_rows := map (\<lambda>r. if r \<in> set ?rs
        \<and> deliver (claim_view db r) = Handed then mark_row now r else r) (ox_rows db)\<rparr>)"
    using deliver_rows_spec[OF d f(1) f(2) f(3) v run] by blast
  then show ?thesis
  proof cases
    case thrown
    then show ?thesis by (simp add: outbox_runOnce_def rows run) (rule bexI[of _ r])
  next
    case ok
    then show ?thesis using srt by (simp add: outbox_runOnce_def rows run)
  qed
qed

definition sample_outbox2 :: outbox_db where
  "sample_outbox2 = insert_delivery 9 (1, sample_delivery) sample_outbox"

lemma outbox_run_marks_exactly_the_delivered_example:
  "ox_rows (snd (snd (outbox_runOnce (\<lambda>_. Handed) (\<lambda>_. False) 100 10 sample_outbox2)))
   = map (mark_row 10) (ox_rows sample_outbox2)"
proof -
  have inv: "outbox_inv sample_outbox2" unfolding sample_outbox2_def by (rule insert_delivery_inv[OF sample_outbox_inv])
  have all: "claim_rows (\<lambda>_. False) 100 sample_outbox2 = ox_rows sample_outbox2" by code_simp
  show ?thesis
    using outbox_run_marks_exactly_the_delivered[OF inv, where deliver = "\<lambda>_. Handed" and locked = "\<lambda>_. False" and n = 100 and now = 10]
    by (auto simp: all split: prod.splits sum.splits)
qed

end
