(* ===== verification/Inbox_Worker.thy ===== *)
theory Inbox_Worker
  imports Complex_Main Outbox_Delivery
begin

text \<open>
  The worker that drains the inbox, \<open>relay/src/inbox-worker.ts\<close>. The worker is written against
  interfaces that its caller injects (\<open>InboxWorkerDeps\<close>): the repository and the outbox writer are
  the definitions of \<open>Inbox_Repository\<close> and \<open>Realtime_Outbox\<close>, what a materializer comes to for a
  row is an argument, and so are the clock and \<open>random()\<close>, a rational number. The only write of
  \<open>processRow\<close> is its last one, so the database argument is the state at that moment.
\<close>

section \<open>Errors\<close>

text \<open>
  A thrown value: the strings its \<open>name\<close> and \<open>code\<close> fields convert to (empty when absent) and
  whether it is a \<open>LostClaimError\<close>.
\<close>

record js_error =
  er_name :: string
  er_code :: string
  er_lost_claim :: bool

definition lost_claim_error :: js_error where
  "lost_claim_error = \<lparr>er_name = ''LostClaimError'', er_code = [], er_lost_claim = True\<rparr>"

definition REJECTED_CODES :: "string list" where
  "REJECTED_CODES = [''session_ownership_violation'', ''unknown_daemon_session'', ''quota_reservation_binding_mismatch'']"

definition safeMaterializationError :: "js_error \<Rightarrow> string" where
  "safeMaterializationError e =
     (let name = er_name e; code = er_code e in
      if name = ''SchemaValidationError'' then ''schema_validation''
      else if name = ''OwnershipError'' then ''ownership_mismatch''
      else if name = ''MaterializationContextError'' then ''materialization_context_missing''
      else if name = ''EphemeralMaterializationError'' then ''ephemeral_event_rejected''
      else if name = ''ExtensionJournalOwnerMissingError'' then ''extension_journal_owner_missing''
      else if name = ''ClientEventOwnershipError'' then ''client_event_ownership_mismatch''
      else if name = ''SessionDocumentProtocolError'' \<or> name = ''SessionDocumentIntegrityError'' then ''document_integrity''
      else if name = ''SessionDocumentNotFoundError'' then ''document_session_not_found''
      else if name = ''SessionDocumentExpiredError'' then ''document_upload_expired''
      else if name = ''SessionDocumentMaterializerUnavailableError'' then ''document_materializer_unavailable''
      else if code \<in> set REJECTED_CODES then code
      else if starts_with code ''08'' \<or> starts_with code ''53'' \<or> code = ''57P01'' \<or> code = ''57P03'' then ''database_unavailable''
      else ''materialization_failed'')"

definition isPermanentMaterializationError :: "js_error \<Rightarrow> bool" where
  "isPermanentMaterializationError e =
     (er_code e \<in> set REJECTED_CODES
      \<or> er_name e \<in> {''ExtensionJournalOwnerMissingError'', ''ClientEventOwnershipError'',
           ''SessionDocumentProtocolError'', ''SessionDocumentIntegrityError'', ''SessionDocumentNotFoundError'',
           ''SessionDocumentExpiredError'', ''SessionDocumentMaterializerUnavailableError''})"

definition retryDelayMs :: "int \<Rightarrow> rat \<Rightarrow> int" where
  "retryDelayMs attempts random =
     (let base = min 60000 (250 * 2 ^ nat (min (max 0 attempts) 8))
      in base + \<lfloor>max 0 (min (999999 / 1000000) random) * 250\<rfloor>)"

section \<open>One row\<close>

definition MAX_ATTEMPTS :: int where
  "MAX_ATTEMPTS = 12"

record MaterializationResult =
  mr_eventId :: "int option"
  mr_deliveries :: "MaterializedDelivery list"

text \<open>What the worker is given: its identity, the materializers and whether there is an outbox writer.\<close>

record worker_deps =
  wd_workerId :: string
  wd_shardCount :: int
  wd_shardIndex :: int
  wd_batchSize :: int
  wd_materialize :: "InboxRow \<Rightarrow> js_error + MaterializationResult"
  wd_artifact :: "(InboxRow \<Rightarrow> js_error + MaterializationResult) option"
  wd_outboxWriter :: bool

definition SESSION_DOCUMENT_EVENT_TYPES :: "string list" where
  "SESSION_DOCUMENT_EVENT_TYPES = [''session_document_begin'', ''session_document_chunk'', ''session_document_commit'']"

definition isSessionDocumentArtifactEvent :: "string \<Rightarrow> bool" where
  "isSessionDocumentArtifactEvent ty = (ty \<in> set SESSION_DOCUMENT_EVENT_TYPES)"

definition materialize_row :: "worker_deps \<Rightarrow> bool \<Rightarrow> InboxRow \<Rightarrow> js_error + MaterializationResult" where
  "materialize_row deps owned row =
     (if \<not> owned then Inl lost_claim_error
      else (case (if isSessionDocumentArtifactEvent (ir_eventType row) then wd_artifact deps else Some (wd_materialize deps)) of
              None \<Rightarrow> Inl \<lparr>er_name = ''SessionDocumentMaterializerUnavailableError'', er_code = [], er_lost_claim = False\<rparr>
            | Some m \<Rightarrow> m row))"

text \<open>A repository call inside the shared tables.\<close>

definition on_inbox :: "(inbox_db \<Rightarrow> 'r \<times> inbox_db) \<Rightarrow> outbox_db \<Rightarrow> 'r \<times> outbox_db" where
  "on_inbox g db = (case g (ox_inbox db) of (r, ib) \<Rightarrow> (r, db\<lparr>ox_inbox := ib\<rparr>))"

definition finish_row :: "worker_deps \<Rightarrow> int \<Rightarrow> InboxRow \<Rightarrow> MaterializationResult \<Rightarrow> outbox_db \<Rightarrow> (inbox_error + unit) \<times> outbox_db" where
  "finish_row deps now row result =
     (if wd_outboxWriter deps
      then outbox_complete now (ir_inboxId row) (mr_eventId result) (mr_deliveries result) (wd_workerId deps) (ir_attempts row)
      else on_inbox (complete now (ir_inboxId row) (mr_eventId result) (wd_workerId deps) (ir_attempts row)))"

datatype worker_event = DeadLettered int string bool | Rescheduled int

definition must_bury :: "js_error \<Rightarrow> InboxRow \<Rightarrow> bool" where
  "must_bury e row = (isPermanentMaterializationError e \<or> MAX_ATTEMPTS \<le> ir_attempts row)"

definition fail_row :: "worker_deps \<Rightarrow> int \<Rightarrow> rat \<Rightarrow> InboxRow \<Rightarrow> js_error \<Rightarrow> outbox_db \<Rightarrow> worker_event list \<times> outbox_db" where
  "fail_row deps now random row e db =
     (let errorCode = safeMaterializationError e in
      if must_bury e row then
        (case on_inbox (deadLetter now (ir_inboxId row) (ir_attempts row) errorCode (wd_workerId deps)) db of
           (Inl _, db1) \<Rightarrow> ([], db1)
         | (Inr _, db1) \<Rightarrow> ([DeadLettered (ir_inboxId row) errorCode (ir_priorityClass row = 0)], db1))
      else
        (case on_inbox (reschedule (ir_inboxId row) (ir_attempts row) (now + retryDelayMs (ir_attempts row) random)
                          errorCode (wd_workerId deps)) db of
           (Inl _, db1) \<Rightarrow> ([], db1)
         | (Inr _, db1) \<Rightarrow> ([Rescheduled (ir_inboxId row)], db1)))"

text \<open>The only error of the completing write is the lost claim, on which the worker returns.\<close>

definition processRow :: "worker_deps \<Rightarrow> int \<Rightarrow> rat \<Rightarrow> bool \<Rightarrow> InboxRow \<Rightarrow> outbox_db \<Rightarrow> worker_event list \<times> outbox_db" where
  "processRow deps now random owned row db =
     (case materialize_row deps owned row of
        Inr result \<Rightarrow>
          (case finish_row deps now row result db of (_, db1) \<Rightarrow> ([], db1))
      | Inl e \<Rightarrow> if er_lost_claim e then ([], db) else fail_row deps now random row e db)"

section \<open>A batch\<close>

text \<open>
  \<open>activeClaims\<close>: the fences of the batch with the flag the heartbeat clears. A heartbeat renews the
  fences it still owns and drops the flag of those that were not renewed; a failed renewal drops
  every flag.
\<close>

type_synonym active_claims = "(int, ClaimFence \<times> bool) jsmap"

definition activeClaims_of :: "InboxRow list \<Rightarrow> active_claims" where
  "activeClaims_of rows = map (\<lambda>r. (ir_inboxId r, (\<lparr>cf_inboxId = ir_inboxId r, cf_attempts = ir_attempts r\<rparr>, True))) rows"

definition heartbeat :: "int \<Rightarrow> string \<Rightarrow> active_claims \<Rightarrow> outbox_db \<Rightarrow> active_claims \<times> outbox_db" where
  "heartbeat now workerId claims db =
     (let fences = map fst (filter snd (jm_values claims)) in
      if fences = [] then (claims, db)
      else (case on_inbox (renewClaims now fences workerId) db of
              (renewed, db1) \<Rightarrow>
                (map (\<lambda>(k, c, owned). (k, c, owned \<and> cf_inboxId c \<in> renewed)) claims, db1)))"

definition heartbeat_failed :: "active_claims \<Rightarrow> active_claims" where
  "heartbeat_failed claims = map (\<lambda>(k, c, _). (k, c, False)) claims"

definition claim_owned :: "active_claims \<Rightarrow> int \<Rightarrow> bool" where
  "claim_owned claims i = (case jm_get claims i of None \<Rightarrow> False | Some (_, owned) \<Rightarrow> owned)"

text \<open>
  The replay shortcut: the rows that follow a side-effect-free replay row are materialized and
  completed with it in one transaction, \<open>batch\<close> being what \<open>materializeReplayBatch\<close> comes to. If it
  throws or the fence of any row is gone, the transaction is rolled back.
\<close>

definition replay_shortcut :: "worker_deps \<Rightarrow> (InboxRow list \<Rightarrow> js_error + MaterializationResult list) \<Rightarrow> int \<Rightarrow> InboxRow
    \<Rightarrow> outbox_db \<Rightarrow> outbox_db option" where
  "replay_shortcut deps batch now row db =
     (if \<not> wd_outboxWriter deps \<or> \<not> isSideEffectFreeReplay row then None
      else
        (let tail = readReplayPrefix now row (min 32 (wd_batchSize deps)) (ox_inbox db); prefix = row # tail in
         if tail = [] then None
         else (case batch prefix of
                 Inl _ \<Rightarrow> None
               | Inr results \<Rightarrow>
                   (case completeReplayBatch now
                           (map (\<lambda>(r, m). \<lparr>rp_inboxId = ir_inboxId r, rp_attempts = ir_attempts r,
                              rp_eventId = mr_eventId m, rp_deliveries = mr_deliveries m\<rparr>) (zip prefix results))
                           (wd_workerId deps) db of
                      (Inl _, _) \<Rightarrow> None
                    | (Inr _, db1) \<Rightarrow> Some db1))))"

record worker_env =
  we_hashtext :: "string \<Rightarrow> int"
  we_locked :: "int \<Rightarrow> bool"
  we_now :: int
  we_random :: rat
  we_owned :: "InboxRow \<Rightarrow> bool"
  we_batch :: "(InboxRow list \<Rightarrow> js_error + MaterializationResult list) option"

definition process_one :: "worker_deps \<Rightarrow> worker_env \<Rightarrow> InboxRow \<Rightarrow> outbox_db \<Rightarrow> worker_event list \<times> outbox_db" where
  "process_one deps env row db =
     (case (case we_batch env of None \<Rightarrow> None | Some b \<Rightarrow> replay_shortcut deps b (we_now env) row db) of
        Some db1 \<Rightarrow> ([], db1)
      | None \<Rightarrow> processRow deps (we_now env) (we_random env) (we_owned env row) row db)"

fun process_rows :: "worker_deps \<Rightarrow> worker_env \<Rightarrow> InboxRow list \<Rightarrow> outbox_db \<Rightarrow> worker_event list \<times> outbox_db" where
  "process_rows deps env [] db = ([], db)"
| "process_rows deps env (r # rs) db =
     (case process_one deps env r db of (ev, db1) \<Rightarrow>
      case process_rows deps env rs db1 of (ev', db2) \<Rightarrow> (ev @ ev', db2))"

definition worker_claim_options :: "worker_deps \<Rightarrow> ClaimBatchOptions" where
  "worker_claim_options deps =
     \<lparr>cb_workerId = wd_workerId deps, cb_limit = max 1 (wd_batchSize deps),
      cb_shardCount = wd_shardCount deps, cb_shardIndex = wd_shardIndex deps\<rparr>"

definition processClaimedBatch :: "worker_deps \<Rightarrow> worker_env \<Rightarrow> outbox_db
    \<Rightarrow> (inbox_error + nat \<times> worker_event list) \<times> outbox_db" where
  "processClaimedBatch deps env db =
     (case on_inbox (claimBatch (we_hashtext env) (we_locked env) (we_now env) (worker_claim_options deps)) db of
        (Inl e, db1) \<Rightarrow> (Inl e, db1)
      | (Inr rows, db1) \<Rightarrow>
          (case process_rows deps env rows db1 of (ev, db2) \<Rightarrow> (Inr (length rows, ev), db2)))"

text \<open>\<open>drainClaimedBatches\<close>: at most \<open>maxDrainPasses\<close> passes, one environment each.\<close>

fun drain_passes :: "worker_deps \<Rightarrow> worker_env list \<Rightarrow> nat \<Rightarrow> outbox_db \<Rightarrow> (inbox_error + nat) \<times> outbox_db" where
  "drain_passes deps [] productive db = (Inr productive, db)"
| "drain_passes deps (env # envs) productive db =
     (case processClaimedBatch deps env db of
        (Inl e, db1) \<Rightarrow> (Inl e, db1)
      | (Inr (claimed, _), db1) \<Rightarrow>
          if claimed = 0 then (Inr productive, db1) else drain_passes deps envs (Suc productive) db1)"

definition drainClaimedBatches :: "worker_deps \<Rightarrow> nat \<Rightarrow> (nat \<Rightarrow> worker_env) \<Rightarrow> outbox_db \<Rightarrow> (inbox_error + bool) \<times> outbox_db" where
  "drainClaimedBatches deps maxDrainPasses envs db =
     (case drain_passes deps (map envs [0..<max 1 maxDrainPasses]) 0 db of
        (Inl e, db1) \<Rightarrow> (Inl e, db1)
      | (Inr productive, db1) \<Rightarrow> (Inr (productive = max 1 maxDrainPasses), db1))"

section \<open>Runs\<close>

definition STALE_CLAIM_LEASE_MS :: int where "STALE_CLAIM_LEASE_MS = 300000"
definition STALE_CLAIM_SWEEP_LIMIT :: int where "STALE_CLAIM_SWEEP_LIMIT = 1000"
definition STALE_CLAIM_SWEEP_INTERVAL_MS :: int where "STALE_CLAIM_SWEEP_INTERVAL_MS = 60000"

record worker_state =
  wk_stopped :: bool
  wk_timer :: "int option"
  wk_activeRun :: bool
  wk_lastRecoveryAt :: "int option"
  wk_continue :: bool

definition new_worker :: worker_state where
  "new_worker = \<lparr>wk_stopped = True, wk_timer = None, wk_activeRun = False, wk_lastRecoveryAt = None, wk_continue = False\<rparr>"

definition maybeResetStaleClaims :: "(int \<Rightarrow> bool) \<Rightarrow> int \<Rightarrow> worker_state \<Rightarrow> outbox_db \<Rightarrow> worker_state \<times> outbox_db" where
  "maybeResetStaleClaims locked currentTime w db =
     (if (case wk_lastRecoveryAt w of None \<Rightarrow> False | Some t \<Rightarrow> currentTime - t < STALE_CLAIM_SWEEP_INTERVAL_MS) then (w, db)
      else (w\<lparr>wk_lastRecoveryAt := Some currentTime\<rparr>,
            snd (on_inbox (resetStaleClaims locked currentTime STALE_CLAIM_LEASE_MS STALE_CLAIM_SWEEP_LIMIT) db)))"

definition worker_runOnce :: "worker_deps \<Rightarrow> nat \<Rightarrow> (nat \<Rightarrow> worker_env) \<Rightarrow> worker_state \<Rightarrow> outbox_db
    \<Rightarrow> (inbox_error + unit) \<times> worker_state \<times> outbox_db" where
  "worker_runOnce deps maxDrainPasses envs w db =
     (if wk_activeRun w then (Inr (), w, db)
      else
        (case maybeResetStaleClaims (we_locked (envs 0)) (we_now (envs 0)) (w\<lparr>wk_continue := False\<rparr>) db of
           (w1, db1) \<Rightarrow>
             (case drainClaimedBatches deps maxDrainPasses envs db1 of
                (Inl e, db2) \<Rightarrow> (Inl e, w1, db2)
              | (Inr backlog, db2) \<Rightarrow> (Inr (), w1\<lparr>wk_continue := backlog\<rparr>, db2))))"

definition wk_schedule :: "int \<Rightarrow> worker_state \<Rightarrow> worker_state" where
  "wk_schedule delay w = (if wk_stopped w then w else w\<lparr>wk_timer := Some delay\<rparr>)"

text \<open>The end of a timed run: at once when work is left, at the poll interval otherwise.\<close>

definition wk_run_settled :: "int \<Rightarrow> rat \<Rightarrow> inbox_error + unit \<Rightarrow> worker_state \<Rightarrow> worker_state" where
  "wk_run_settled pollIntervalMs random r w =
     (case r of
        Inr _ \<Rightarrow> wk_schedule (if wk_continue w then 0 else max 1 pollIntervalMs) w
      | Inl _ \<Rightarrow> wk_schedule \<lfloor>random * of_int (max 1 pollIntervalMs)\<rfloor> w)"

definition worker_start :: "worker_state \<Rightarrow> worker_state" where
  "worker_start w = (if \<not> wk_stopped w then w else wk_schedule 0 (w\<lparr>wk_stopped := False\<rparr>))"

definition worker_stop :: "worker_state \<Rightarrow> worker_state" where
  "worker_stop w = w\<lparr>wk_stopped := True, wk_timer := None\<rparr>"

end
