(* ===== verification/Inbox_Worker_Correct.thy ===== *)
theory Inbox_Worker_Correct
  imports Inbox_Worker
begin

text \<open>
  The worker settles every claim it owns: each path through a row ends in one fenced write. The
  interface between the worker and its store is the locale of a claim's outcome, interpreted for
  the three writes the worker chooses from.
\<close>

section \<open>Outcomes of a claim\<close>

locale claim_outcome =
  fixes good :: "'s \<Rightarrow> bool"
    and held :: "'s \<Rightarrow> bool"
    and put :: "'s \<Rightarrow> (inbox_error + unit) \<times> 's"
    and lost :: inbox_error
  assumes settle: "good s \<Longrightarrow> held s \<Longrightarrow> \<exists>t. put s = (Inr (), t) \<and> good t \<and> \<not> held t"
    and refuse: "good s \<Longrightarrow> \<not> held s \<Longrightarrow> put s = (Inl lost, s)"
begin

lemma good_write: "good s \<Longrightarrow> good (snd (put s))"
  using settle refuse by (cases "held s") fastforce+

lemma released: "good s \<Longrightarrow> \<not> held (snd (put s))"
  using settle refuse by (cases "held s") fastforce+

lemma second_write_refused: "good s \<Longrightarrow> put (snd (put s)) = (Inl lost, snd (put s))"
  using good_write released refuse by blast

end

definition held_by :: "int \<Rightarrow> string \<Rightarrow> int \<Rightarrow> outbox_db \<Rightarrow> bool" where
  "held_by i w a db \<longleftrightarrow> owns (ox_inbox db) i w a"

text \<open>A fenced write of the repository inside the shared tables.\<close>

lemma fenced_settles:
  assumes g: "is_outcome i w a g" and inv: "outbox_inv db"
  shows "held_by i w a db \<Longrightarrow> \<exists>db'. on_inbox g db = (Inr (), db') \<and> outbox_inv db' \<and> \<not> held_by i w a db'"
    and "\<not> held_by i w a db \<Longrightarrow> on_inbox g db = (Inl (LostClaim i), db)"
proof -
  obtain f where f: "g = fenced_update i w a f" "ends_claim f a" using g by (auto simp: is_outcome_def)
  have wf: "inbox_wf (ox_inbox db)" using inv by (simp add: outbox_inv_def)
  note c = fenced_update_cases[OF wf, of i w a f]
  have id: "keeps_identity f" using f(2) by (simp add: ends_claim_def)
  show "on_inbox g db = (Inl (LostClaim i), db)" if "\<not> held_by i w a db"
    using that c f(1) by (simp add: on_inbox_def held_by_def)
  assume h: "held_by i w a db"
  let ?ib = "update_where (holds_claim i w a) f (ox_inbox db)"
  obtain r where r: "row_by_id i (db_inbox (ox_inbox db)) = Some r" "holds_claim i w a r"
    using h by (auto simp: held_by_def owns_def)
  have "row_by_id i (db_inbox ?ib) = Some (f r)" using row_by_id_update[OF id] r by simp
  then have "\<not> owns ?ib i w a" using f(2) by (auto simp: owns_def holds_claim_def ends_claim_def)
  moreover have "outbox_inv (db\<lparr>ox_inbox := ?ib\<rparr>)" using inv update_where_wf[OF id wf] by (simp add: outbox_inv_def)
  ultimately show "\<exists>db'. on_inbox g db = (Inr (), db') \<and> outbox_inv db' \<and> \<not> held_by i w a db'"
    using h c f(1) by (simp add: on_inbox_def held_by_def)
qed

interpretation finished: claim_outcome outbox_inv "held_by i w a" "outbox_complete now i ev ds w a" "LostClaim i"
  for now i ev ds w a
proof
  fix s assume inv: "outbox_inv s"
  show "held_by i w a s \<Longrightarrow> \<exists>t. outbox_complete now i ev ds w a s = (Inr (), t) \<and> outbox_inv t \<and> \<not> held_by i w a t"
    using outbox_complete_cases(1)[OF inv] unfolding held_by_def by blast
  show "\<not> held_by i w a s \<Longrightarrow> outbox_complete now i ev ds w a s = (Inl (LostClaim i), s)"
    using outbox_complete_cases(2)[OF inv] unfolding held_by_def by blast
qed

interpretation completed: claim_outcome outbox_inv "held_by i w a" "on_inbox (complete now i ev w a)" "LostClaim i"
  for now i ev w a
  by unfold_locales (use fenced_settles[OF outcomes(1)] in blast)+

interpretation rescheduled: claim_outcome outbox_inv "held_by i w a" "on_inbox (reschedule i a t err w)" "LostClaim i"
  for i a t err w
  by unfold_locales (use fenced_settles[OF outcomes(2)] in blast)+

interpretation buried: claim_outcome outbox_inv "held_by i w a" "on_inbox (deadLetter now i a err w)" "LostClaim i"
  for now i a err w
  by unfold_locales (use fenced_settles[OF outcomes(3)] in blast)+

section \<open>Retries\<close>

definition ERROR_CATEGORIES :: "string list" where
  "ERROR_CATEGORIES = [''schema_validation'', ''ownership_mismatch'', ''materialization_context_missing'',
     ''ephemeral_event_rejected'', ''extension_journal_owner_missing'', ''client_event_ownership_mismatch'',
     ''document_integrity'', ''document_session_not_found'', ''document_upload_expired'',
     ''document_materializer_unavailable'', ''session_ownership_violation'', ''unknown_daemon_session'',
     ''quota_reservation_binding_mismatch'', ''database_unavailable'', ''materialization_failed'']"

lemma error_is_a_category: "safeMaterializationError e \<in> set ERROR_CATEGORIES"
  by (auto simp: safeMaterializationError_def Let_def REJECTED_CODES_def ERROR_CATEGORIES_def)

lemma jitter_bounds:
  fixes r :: rat
  shows "0 \<le> \<lfloor>max 0 (min (999999 / 1000000) r) * 250\<rfloor>" and "\<lfloor>max 0 (min (999999 / 1000000) r) * 250\<rfloor> \<le> 249"
proof -
  let ?x = "max 0 (min (999999 / 1000000) r)"
  have "0 \<le> ?x" "?x \<le> 999999 / 1000000" by auto
  then have "0 \<le> ?x * 250" "?x * 250 < 250" by auto
  then show "0 \<le> \<lfloor>?x * 250\<rfloor>" "\<lfloor>?x * 250\<rfloor> \<le> 249" by (simp_all add: floor_le_iff)
qed

lemma retry_delay_bounds: "250 \<le> retryDelayMs a r" "retryDelayMs a r \<le> 60249"
proof -
  have "(1 :: int) \<le> 2 ^ nat (min (max 0 a) 8)" by simp
  then have "250 \<le> min 60000 (250 * 2 ^ nat (min (max 0 a) 8) :: int)" by simp
  then show "250 \<le> retryDelayMs a r" unfolding retryDelayMs_def Let_def using jitter_bounds(1)[of r] by linarith
  have "min 60000 (250 * 2 ^ nat (min (max 0 a) 8) :: int) \<le> 60000" by simp
  then show "retryDelayMs a r \<le> 60249" unfolding retryDelayMs_def Let_def using jitter_bounds(2)[of r] by linarith
qed

section \<open>Settled rows\<close>

text \<open>The row a fenced write leaves behind.\<close>

lemma fenced_row:
  assumes inv: "outbox_inv db" and h: "held_by i w a db" and id: "keeps_identity f"
  shows "\<exists>r. row_by_id i (db_inbox (ox_inbox db)) = Some r \<and> holds_claim i w a r
    \<and> row_by_id i (db_inbox (ox_inbox (snd (on_inbox (fenced_update i w a f) db)))) = Some (f r)"
proof -
  have wf: "inbox_wf (ox_inbox db)" using inv by (simp add: outbox_inv_def)
  obtain r where r: "row_by_id i (db_inbox (ox_inbox db)) = Some r" "holds_claim i w a r"
    using h by (auto simp: held_by_def owns_def)
  moreover have "row_by_id i (db_inbox (update_where (holds_claim i w a) f (ox_inbox db))) = Some (f r)"
    using row_by_id_update[OF id] r by simp
  ultimately show ?thesis using fenced_update_cases[OF wf, of i w a f] h by (auto simp: on_inbox_def held_by_def)
qed

definition inbox_row :: "outbox_db \<Rightarrow> int \<Rightarrow> InboxRow option" where
  "inbox_row db i = row_by_id i (db_inbox (ox_inbox db))"

lemma finish_row_settled:
  assumes inv: "outbox_inv db" and h: "held_by (ir_inboxId row) (wd_workerId deps) (ir_attempts row) db"
  shows "\<exists>r. inbox_row (snd (finish_row deps now row res db)) (ir_inboxId row) = Some r \<and> ir_status r = 2"
proof (cases "wd_outboxWriter deps")
  case True
  obtain db' where "outbox_complete now (ir_inboxId row) (mr_eventId res) (mr_deliveries res) (wd_workerId deps) (ir_attempts row) db
      = (Inr (), db')" "\<exists>r. row_by_id (ir_inboxId row) (db_inbox (ox_inbox db')) = Some r \<and> ir_status r = 2"
    using outbox_complete_cases(1)[OF inv h[unfolded held_by_def]] by blast
  then show ?thesis using True by (simp add: finish_row_def inbox_row_def)
next
  case False
  let ?f = "\<lambda>r. r\<lparr>ir_status := 2, ir_completedAt := Some now, ir_materializedEventId := mr_eventId res,
              ir_claimedAt := None, ir_claimedBy := None, ir_lastError := None\<rparr>"
  have "keeps_identity ?f" by (simp add: keeps_identity_def)
  from fenced_row[OF inv h this] False show ?thesis
    by (auto simp: finish_row_def inbox_row_def complete_def)
qed

lemma fail_row_write:
  "snd (fail_row deps now random row e db) =
     snd (on_inbox (if must_bury e row
       then deadLetter now (ir_inboxId row) (ir_attempts row) (safeMaterializationError e) (wd_workerId deps)
       else reschedule (ir_inboxId row) (ir_attempts row) (now + retryDelayMs (ir_attempts row) random)
              (safeMaterializationError e) (wd_workerId deps)) db)"
proof -
  have "snd (case x of (Inl _, d) \<Rightarrow> ([], d) | (Inr _, d) \<Rightarrow> (ys, d)) = snd x"
    for x :: "(inbox_error + unit) \<times> outbox_db" and ys :: "worker_event list"
    by (auto split: prod.splits sum.splits)
  then show ?thesis by (simp add: fail_row_def Let_def)
qed

lemma fail_row_settled:
  assumes inv: "outbox_inv db" and h: "held_by (ir_inboxId row) (wd_workerId deps) (ir_attempts row) db"
  shows "\<exists>r. inbox_row (snd (fail_row deps now random row e db)) (ir_inboxId row) = Some r
    \<and> ir_lastError r = Some (safeMaterializationError e) \<and> ir_claimedBy r = None
    \<and> (if must_bury e row then ir_status r = 3
       else ir_status r = 0 \<and> ir_availableAt r = now + retryDelayMs (ir_attempts row) random)"
proof -
  let ?i = "ir_inboxId row" and ?w = "wd_workerId deps" and ?a = "ir_attempts row"
  let ?dead = "\<lambda>r. r\<lparr>ir_status := 3, ir_attempts := ?a, ir_claimedAt := None, ir_claimedBy := None,
              ir_completedAt := Some now, ir_lastError := Some (safeMaterializationError e)\<rparr>"
  let ?again = "\<lambda>r. r\<lparr>ir_status := 0, ir_attempts := ?a, ir_availableAt := now + retryDelayMs ?a random, ir_claimedAt := None,
              ir_claimedBy := None, ir_completedAt := None, ir_lastError := Some (safeMaterializationError e)\<rparr>"
  have k: "keeps_identity ?dead" "keeps_identity ?again" by (simp_all add: keeps_identity_def)
  show ?thesis
    using fenced_row[OF inv h k(1)] fenced_row[OF inv h k(2)]
    by (cases "must_bury e row") (auto simp: fail_row_write inbox_row_def deadLetter_def reschedule_def)
qed

section \<open>The writes of a row\<close>

text \<open>
  Whatever the materializer comes to, a row is settled by one of the writes: \<open>writes_outcome\<close>
  collects what the proofs need of it.
\<close>

definition writes_outcome :: "int \<Rightarrow> string \<Rightarrow> int \<Rightarrow> outbox_db \<Rightarrow> outbox_db \<Rightarrow> bool" where
  "writes_outcome i w a db db' \<longleftrightarrow> outbox_inv db' \<and> \<not> held_by i w a db'
     \<and> (\<not> held_by i w a db \<longrightarrow> db' = db)
     \<and> (\<forall>j v b. held_by j v b db' \<longrightarrow> held_by j v b db)"

lemma fenced_no_gain:
  assumes "keeps_identity f" "\<And>r. ir_status (f r) \<noteq> 1" "held_by j v b (snd (on_inbox (fenced_update i w a f) db))"
  shows "held_by j v b db"
proof -
  have "row_by_id j (db_inbox (ox_inbox (snd (on_inbox (fenced_update i w a f) db))))
      = map_option (\<lambda>r. if holds_claim i w a r then f r else r) (row_by_id j (db_inbox (ox_inbox db)))"
    using row_by_id_update[OF assms(1)] by (auto simp: on_inbox_def fenced_update_def)
  then show ?thesis using assms(2,3) by (auto simp: held_by_def owns_def holds_claim_def split: if_splits)
qed

lemma outcome_no_gain:
  assumes "is_outcome i w a g" "held_by j v b (snd (on_inbox g db))" shows "held_by j v b db"
proof -
  obtain f where "g = fenced_update i w a f" "ends_claim f a" using assms(1) by (auto simp: is_outcome_def)
  then show ?thesis using fenced_no_gain assms(2) unfolding ends_claim_def by blast
qed

lemma outcome_writes:
  assumes g: "is_outcome i w a g" and inv: "outbox_inv db"
  shows "writes_outcome i w a db (snd (on_inbox g db))"
proof (cases "held_by i w a db")
  case True
  then obtain db' where "on_inbox g db = (Inr (), db')" "outbox_inv db'" "\<not> held_by i w a db'"
    using fenced_settles(1)[OF g inv] by blast
  then show ?thesis using True outcome_no_gain[OF g, of _ _ _ db] by (simp add: writes_outcome_def)
next
  case False
  then show ?thesis using fenced_settles(2)[OF g inv] inv by (simp add: writes_outcome_def)
qed

lemma outbox_complete_inbox:
  "held_by j v b (snd (outbox_complete now i ev ds w a db)) \<Longrightarrow> outbox_inv db \<Longrightarrow> held_by j v b db"
proof (cases "owns (ox_inbox db) i w a")
  case False
  assume "held_by j v b (snd (outbox_complete now i ev ds w a db))" "outbox_inv db"
  then show ?thesis using outbox_complete_cases(2)[OF _ False] by simp
next
  case True
  assume h: "held_by j v b (snd (outbox_complete now i ev ds w a db))" and inv: "outbox_inv db"
  have wf: "inbox_wf (ox_inbox db)" using inv by (simp add: outbox_inv_def)
  obtain ib where ib: "complete now i ev w a (ox_inbox db) = (Inr (), ib)" "inbox_wf ib" using complete_owned[OF wf True] by blast
  have "outbox_inv (db\<lparr>ox_inbox := ib\<rparr>)" using inv ib(2) by (simp add: outbox_inv_def)
  then have "ox_inbox (snd (outbox_complete now i ev ds w a db)) = ib"
    using outbox_enqueue_effect(3) ib(1) by (simp add: outbox_complete_def)
  then have "held_by j v b (snd (on_inbox (complete now i ev w a) db))"
    using h ib(1) by (simp add: held_by_def on_inbox_def)
  then show ?thesis by (rule outcome_no_gain[OF outcomes(1)])
qed

lemma finish_writes:
  assumes inv: "outbox_inv db"
  shows "writes_outcome (ir_inboxId row) (wd_workerId deps) (ir_attempts row) db (snd (finish_row deps now row res db))"
proof (cases "wd_outboxWriter deps")
  case True
  let ?put = "outbox_complete now (ir_inboxId row) (mr_eventId res) (mr_deliveries res) (wd_workerId deps) (ir_attempts row)"
  have "snd (?put db) = db" if "\<not> held_by (ir_inboxId row) (wd_workerId deps) (ir_attempts row) db"
    using finished.refuse[OF inv that] by simp
  moreover have "held_by j v b (snd (?put db)) \<longrightarrow> held_by j v b db" for j v b using outbox_complete_inbox inv by blast
  ultimately have "writes_outcome (ir_inboxId row) (wd_workerId deps) (ir_attempts row) db (snd (?put db))"
    unfolding writes_outcome_def using finished.good_write[OF inv] finished.released[OF inv] by blast
  then show ?thesis using True by (simp add: finish_row_def)
next
  case False
  then show ?thesis using outcome_writes[OF outcomes(1) inv] by (simp add: finish_row_def)
qed

lemma fail_writes:
  assumes inv: "outbox_inv db"
  shows "writes_outcome (ir_inboxId row) (wd_workerId deps) (ir_attempts row) db (snd (fail_row deps now random row e db))"
  unfolding fail_row_write using outcome_writes[OF outcomes(2) inv] outcome_writes[OF outcomes(3) inv] by simp

definition keeps_claim :: "js_error + MaterializationResult \<Rightarrow> bool" where
  "keeps_claim m \<longleftrightarrow> (case m of Inl e \<Rightarrow> \<not> er_lost_claim e | Inr _ \<Rightarrow> True)"

lemma process_writes:
  assumes "outbox_inv db" and "keeps_claim (materialize_row deps owned row)"
  shows "writes_outcome (ir_inboxId row) (wd_workerId deps) (ir_attempts row) db
    (snd (processRow deps now random owned row db))"
  using assms finish_writes[OF assms(1)] fail_writes[OF assms(1)]
  by (auto simp: processRow_def keeps_claim_def split: sum.splits prod.splits) (metis snd_conv)

lemma process_unowned:
  assumes "outbox_inv db" and "\<not> held_by (ir_inboxId row) (wd_workerId deps) (ir_attempts row) db"
  shows "processRow deps now random owned row db = ([], db)"
proof (cases "materialize_row deps owned row")
  case (Inr res)
  then show ?thesis
    using finish_writes[OF assms(1), of row deps now res] assms(2)
    by (auto simp: processRow_def writes_outcome_def split: prod.splits)
next
  case (Inl e)
  then show ?thesis
    using buried.refuse[OF assms(1,2)] rescheduled.refuse[OF assms(1,2)]
    by (auto simp: processRow_def fail_row_def Let_def)
qed

section \<open>A pass\<close>

lemma process_rows_release:
  assumes "outbox_inv db" and "we_batch env = None"
    and "\<And>r. r \<in> set rows \<Longrightarrow> keeps_claim (materialize_row deps (we_owned env r) r)"
  shows "outbox_inv (snd (process_rows deps env rows db))
    \<and> (\<forall>j v b. held_by j v b (snd (process_rows deps env rows db)) \<longrightarrow> held_by j v b db
         \<and> (\<forall>r \<in> set rows. (j, v, b) \<noteq> (ir_inboxId r, wd_workerId deps, ir_attempts r)))"
  using assms(1,3)
proof (induction rows arbitrary: db)
  case (Cons r rows)
  let ?db1 = "snd (process_one deps env r db)"
  have one: "writes_outcome (ir_inboxId r) (wd_workerId deps) (ir_attempts r) db ?db1"
    using process_writes[OF Cons.prems(1)] Cons.prems(2)[of r] assms(2) by (simp add: process_one_def)
  have rest: "snd (process_rows deps env (r # rows) db) = snd (process_rows deps env rows ?db1)"
    by (simp split: prod.splits)
  have "outbox_inv ?db1" using one by (simp add: writes_outcome_def)
  from Cons.IH[OF this] Cons.prems(2) one show ?case unfolding rest writes_outcome_def by auto
qed simp

lemma claim_gains:
  assumes inv: "outbox_inv db"
    and c: "on_inbox (claimBatch h locked now opts) db = (Inr rows, db1)"
  shows "outbox_inv db1 \<and> (\<forall>j v b. held_by j v b db1 \<longrightarrow> held_by j v b db
    \<or> (\<exists>r \<in> set rows. (j, v, b) = (ir_inboxId r, cb_workerId opts, ir_attempts r)))"
proof -
  have wf: "inbox_wf (ox_inbox db)" using inv by (simp add: outbox_inv_def)
  obtain ib where ib: "claimBatch h locked now opts (ox_inbox db) = (Inr rows, ib)" "db1 = db\<lparr>ox_inbox := ib\<rparr>"
    using c by (auto simp: on_inbox_def split: prod.splits)
  show ?thesis
  proof (cases "ib = ox_inbox db")
    case True
    then show ?thesis using inv ib by simp
  next
    case False
    then obtain P where P: "ib = update_where P (mark_claimed now (cb_workerId opts)) (ox_inbox db)"
      "rows = sort_key claim_order (map (mark_claimed now (cb_workerId opts)) (filter P (db_inbox (ox_inbox db))))"
      using ib(1) by (auto simp: claimBatch_def Let_def split: if_splits)
    have "inbox_wf ib" unfolding P(1) by (rule update_where_wf[OF keeps_identity_claim wf])
    then have inv1: "outbox_inv db1" using inv ib(2) by (simp add: outbox_inv_def)
    have "held_by j v b db \<or> (\<exists>r \<in> set rows. (j, v, b) = (ir_inboxId r, cb_workerId opts, ir_attempts r))"
      if held: "held_by j v b db1" for j v b
    proof -
      obtain r1 where r1: "row_by_id j (db_inbox ib) = Some r1" "holds_claim j v b r1"
        using held ib(2) by (auto simp: held_by_def owns_def)
      then obtain r where r: "row_by_id j (db_inbox (ox_inbox db)) = Some r"
        "r1 = (if P r then mark_claimed now (cb_workerId opts) r else r)"
        using row_by_id_update[OF keeps_identity_claim] P(1) by auto
      show ?thesis
      proof (cases "P r")
        case True
        have "r \<in> set (db_inbox (ox_inbox db))" using r(1) by (auto simp: row_by_id_def find_Some_iff)
        then have "r1 \<in> set rows" using True r(2) P(2) by simp
        moreover have "(j, v, b) = (ir_inboxId r1, cb_workerId opts, ir_attempts r1)"
          using r1(2) r(2) True by (simp add: holds_claim_def mark_claimed_def)
        ultimately show ?thesis by blast
      next
        case False
        then show ?thesis using r r1(2) by (simp add: held_by_def owns_def)
      qed
    qed
    then show ?thesis using inv1 by blast
  qed
qed

section \<open>Properties\<close>


definition sample_deps :: worker_deps where
  "sample_deps = \<lparr>wd_workerId = ''w1'', wd_shardCount = 1, wd_shardIndex = 0, wd_batchSize = 10,
     wd_materialize = (\<lambda>_. Inl \<lparr>er_name = ''OwnershipError'', er_code = [], er_lost_claim = False\<rparr>),
     wd_artifact = None, wd_outboxWriter = True\<rparr>"

definition sample_row :: InboxRow where
  "sample_row = the (row_by_id 1 (db_inbox inbox_claimed))"

lemma sample_row_facts: "row_by_id 1 (db_inbox inbox_claimed) = Some sample_row" "ir_claimedBy sample_row = Some ''w1''"
  "ir_inboxId sample_row = 1" "ir_attempts sample_row = 1" "\<not> isSessionDocumentArtifactEvent (ir_eventType sample_row)"
  by code_simp+

lemma sample_held: "held_by (ir_inboxId sample_row) (wd_workerId sample_deps) (ir_attempts sample_row) sample_outbox"
  using inbox_claimed_owned by (simp add: held_by_def sample_outbox_def sample_row_facts sample_deps_def)


text \<open>
  A worker whose claim is gone, because the lease ran out and another worker took the row or
  finished it, writes nothing, whatever its materializer returned: neither an outcome nor a delivery
  nor a dead-letter report.
\<close>

lemma worker_without_claim_writes_nothing:
  assumes "outbox_inv db" and "\<not> held_by (ir_inboxId row) (wd_workerId deps) (ir_attempts row) db"
  shows "processRow deps now random owned row db = ([], db)"
  using process_unowned[OF assms] .

lemma worker_without_claim_writes_nothing_example:
  "processRow (sample_deps\<lparr>wd_workerId := ''w2''\<rparr>) 1000 0 True sample_row sample_outbox = ([], sample_outbox)"
proof (rule worker_without_claim_writes_nothing[OF sample_outbox_inv])
  have "\<not> held_by 1 ''w2'' 1 sample_outbox"
    by (simp add: held_by_def owns_def sample_outbox_def sample_row_facts holds_claim_def)
  then show "\<not> held_by (ir_inboxId sample_row) (wd_workerId (sample_deps\<lparr>wd_workerId := ''w2''\<rparr>)) (ir_attempts sample_row) sample_outbox"
    by (simp add: sample_row_facts)
qed

text \<open>
  A pass of the worker leaves no claim behind: after it has claimed a batch and gone through its
  rows, whatever their materialization came to, every claim that is held was already held before
  the pass. No row stays locked waiting for the stale-claim sweep.
\<close>

lemma worker_pass_leaves_no_claim:
  assumes "outbox_inv db" and "processClaimedBatch deps env db = (Inr (n, ev), db')" and "we_batch env = None"
    and "\<And>r. keeps_claim (materialize_row deps (we_owned env r) r)" and "\<not> held_by i w a db"
  shows "\<not> held_by i w a db'"
proof
  assume held: "held_by i w a db'"
  obtain rows db1 where c: "on_inbox (claimBatch (we_hashtext env) (we_locked env) (we_now env) (worker_claim_options deps)) db = (Inr rows, db1)"
    and p: "db' = snd (process_rows deps env rows db1)"
    using assms(2) by (auto simp: processClaimedBatch_def split: prod.splits sum.splits)
  note g = claim_gains[OF assms(1) c]
  have inv: "outbox_inv db1" using g by blast
  have w: "cb_workerId (worker_claim_options deps) = wd_workerId deps" by (simp add: worker_claim_options_def)
  have "held_by i w a db1" "\<forall>r \<in> set rows. (i, w, a) \<noteq> (ir_inboxId r, wd_workerId deps, ir_attempts r)"
    using process_rows_release[OF inv assms(3), of rows deps] assms(4) held unfolding p by blast+
  then show False using g assms(5) w by metis
qed

definition sample_env2 :: worker_env where
  "sample_env2 = \<lparr>we_hashtext = (\<lambda>_. 0), we_locked = (\<lambda>_. False), we_now = 2000, we_random = 0,
     we_owned = (\<lambda>_. True), we_batch = None\<rparr>"

definition sample_waiting :: outbox_db where
  "sample_waiting = sample_outbox\<lparr>ox_inbox := inbox_after\<rparr>"

lemma worker_pass_leaves_no_claim_example:
  "\<not> held_by 1 ''w1'' 1 (snd (processClaimedBatch sample_deps sample_env2 sample_waiting))"
proof -
  obtain r db' where p: "processClaimedBatch sample_deps sample_env2 sample_waiting = (r, db')" by force
  obtain n ev where r: "r = Inr (n, ev)"
    using p by (auto simp: processClaimedBatch_def on_inbox_def claimBatch_def worker_claim_options_def sample_deps_def Let_def
        split: prod.splits sum.splits if_splits)
  have k: "keeps_claim (materialize_row sample_deps (we_owned sample_env2 x) x)" for x
    by (simp add: materialize_row_def keeps_claim_def sample_deps_def sample_env2_def)
  have b: "we_batch sample_env2 = None" by (simp add: sample_env2_def)
  have inv: "outbox_inv sample_waiting"
    using sample_outbox_inv inbox_after_inv by (simp add: outbox_inv_def sample_waiting_def inbox_inv_def)
  have "map_option ir_status (row_by_id 1 (db_inbox inbox_after)) = Some 0" by code_simp
  then have free: "\<not> held_by 1 ''w1'' 1 sample_waiting"
    by (auto simp: held_by_def owns_def sample_waiting_def holds_claim_def)
  show ?thesis using worker_pass_leaves_no_claim[OF inv p[unfolded r] b k free] p by simp
qed

end
