(* ===== verification/Inbox_Retention.thy ===== *)
theory Inbox_Retention
  imports Outbox_Delivery
begin

text \<open>
  The retention job of \<open>relay/src/inbox-retention.ts\<close>: one transaction that counts the completed rows
  whose deliveries are still outstanding and deletes, in bounded batches, completed rows past
  their retention, acknowledged receipts without a row, and expired document uploads. Deleting an
  inbox row cascades to its receipts and outbox rows (\<open>ON DELETE CASCADE\<close> in the schema). Times are
  milliseconds; a UTC day is a day number.
\<close>

section \<open>Tables\<close>

record upload_row =
  up_versionId :: string
  up_expiresAt :: int

record retention_db =
  rt_outbox :: outbox_db
  rt_baseline :: "(string \<times> int) list"
  rt_closures :: "(int \<times> string) list"
  rt_uploads :: "upload_row list"

record RetentionStats =
  deletedCompleted :: nat
  blockedUndelivered :: nat

definition COMPLETED_RETENTION_HOURS :: int where "COMPLETED_RETENTION_HOURS = 6"
definition DELETE_BATCH_LIMIT :: nat where "DELETE_BATCH_LIMIT = 1000"

definition retention_cutoff :: "int \<Rightarrow> int" where
  "retention_cutoff now = now - COMPLETED_RETENTION_HOURS * 3600000"

definition utc_day :: "int \<Rightarrow> int" where
  "utc_day t = t div 86400000"

section \<open>What may go\<close>

definition past_retention :: "int \<Rightarrow> InboxRow \<Rightarrow> bool" where
  "past_retention now i = (ir_status i = 2 \<and> (case ir_completedAt i of None \<Rightarrow> False | Some t \<Rightarrow> t < retention_cutoff now))"

definition has_undelivered :: "outbox_row list \<Rightarrow> InboxRow \<Rightarrow> bool" where
  "has_undelivered rows i = list_ex (\<lambda>r. ob_inboxId r = ir_inboxId i \<and> undelivered r) rows"

text \<open>A usage record of an open accounting day still has to be read from the inbox.\<close>

definition usage_settled :: "retention_db \<Rightarrow> InboxRow \<Rightarrow> bool" where
  "usage_settled db i =
     (ir_eventType i \<noteq> ''agent_text'' \<or> jm_get (ir_payload i) ''usage'' = None
      \<or> \<not> list_ex (\<lambda>(k, t). k = ''baseline-v1'' \<and> t \<le> ir_receivedAt i) (rt_baseline db)
      \<or> list_ex (\<lambda>(d, st). d = utc_day (ir_receivedAt i) \<and> st = ''sealed'') (rt_closures db))"

definition may_delete :: "(int \<Rightarrow> bool) \<Rightarrow> int \<Rightarrow> retention_db \<Rightarrow> InboxRow \<Rightarrow> bool" where
  "may_delete locked now db i =
     (past_retention now i \<and> usage_settled db i \<and> \<not> has_undelivered (ox_rows (rt_outbox db)) i \<and> \<not> locked (ir_inboxId i))"

definition completed_order :: "InboxRow \<Rightarrow> int \<times> int" where
  "completed_order i = (case ir_completedAt i of None \<Rightarrow> 0 | Some t \<Rightarrow> t, ir_inboxId i)"

definition expired_rows :: "(int \<Rightarrow> bool) \<Rightarrow> int \<Rightarrow> retention_db \<Rightarrow> InboxRow list" where
  "expired_rows locked now db =
     take DELETE_BATCH_LIMIT (sort_key completed_order
       (filter (may_delete locked now db) (db_inbox (ox_inbox (rt_outbox db)))))"

text \<open>\<open>DELETE FROM event_inbox\<close> with its cascades.\<close>

definition delete_inbox_rows :: "int list \<Rightarrow> outbox_db \<Rightarrow> outbox_db" where
  "delete_inbox_rows ids db =
     db\<lparr>ox_inbox := (ox_inbox db)\<lparr>db_inbox := filter (\<lambda>i. ir_inboxId i \<notin> set ids) (db_inbox (ox_inbox db)),
          db_receipts := filter (\<lambda>r. case rr_inboxId r of None \<Rightarrow> True | Some i \<Rightarrow> i \<notin> set ids) (db_receipts (ox_inbox db))\<rparr>,
        ox_rows := filter (\<lambda>r. ob_inboxId r \<notin> set ids) (ox_rows db)\<rparr>"

definition receipt_expired :: "(int \<Rightarrow> bool) \<Rightarrow> int \<Rightarrow> inbox_db \<Rightarrow> ReceiptRow \<Rightarrow> bool" where
  "receipt_expired locked now db r =
     (rr_inboxId r = None \<and> rr_receivedAt r < retention_cutoff now \<and> \<not> locked (rr_receiptId r)
      \<and> (case jm_get (db_checkpoints db) (rr_daemonId r, rr_daemonGeneration r) of
           None \<Rightarrow> False | Some c \<Rightarrow> rr_seq r \<le> ck_ack_seq c))"

definition delete_receipts :: "(int \<Rightarrow> bool) \<Rightarrow> int \<Rightarrow> outbox_db \<Rightarrow> outbox_db" where
  "delete_receipts locked now db =
     (let ib = ox_inbox db;
          ids = map rr_receiptId (take DELETE_BATCH_LIMIT
                  (sort_key (\<lambda>r. (rr_receivedAt r, rr_receiptId r)) (filter (receipt_expired locked now ib) (db_receipts ib))))
      in db\<lparr>ox_inbox := ib\<lparr>db_receipts := filter (\<lambda>r. rr_receiptId r \<notin> set ids) (db_receipts ib)\<rparr>\<rparr>)"

definition delete_uploads :: "(string \<Rightarrow> bool) \<Rightarrow> int \<Rightarrow> upload_row list \<Rightarrow> upload_row list" where
  "delete_uploads locked now ups =
     (let ids = map up_versionId (take DELETE_BATCH_LIMIT
            (sort_key (\<lambda>u. (up_expiresAt u, up_versionId u)) (filter (\<lambda>u. up_expiresAt u \<le> now \<and> \<not> locked (up_versionId u)) ups)))
      in filter (\<lambda>u. up_versionId u \<notin> set ids) ups)"

definition retention_runOnce :: "(int \<Rightarrow> bool) \<Rightarrow> (int \<Rightarrow> bool) \<Rightarrow> (string \<Rightarrow> bool) \<Rightarrow> int \<Rightarrow> retention_db
    \<Rightarrow> RetentionStats \<times> retention_db" where
  "retention_runOnce lockedRows lockedReceipts lockedUploads now db =
     (let rows = db_inbox (ox_inbox (rt_outbox db));
          blocked = length (filter (\<lambda>i. past_retention now i \<and> has_undelivered (ox_rows (rt_outbox db)) i) rows);
          ids = map ir_inboxId (expired_rows lockedRows now db);
          deleted = length (filter (\<lambda>i. ir_inboxId i \<in> set ids) rows);
          ox = delete_receipts lockedReceipts now (delete_inbox_rows ids (rt_outbox db))
      in (\<lparr>deletedCompleted = deleted, blockedUndelivered = blocked\<rparr>,
          db\<lparr>rt_outbox := ox, rt_uploads := delete_uploads lockedUploads now (rt_uploads db)\<rparr>))"

section \<open>What stays\<close>

definition rt_rows :: "retention_db \<Rightarrow> InboxRow list" where
  "rt_rows db = db_inbox (ox_inbox (rt_outbox db))"

lemma expired_rows_may_delete:
  "i \<in> set (expired_rows locked now db) \<Longrightarrow> i \<in> set (rt_rows db) \<and> may_delete locked now db i"
proof -
  let ?f = "filter (may_delete locked now db) (db_inbox (ox_inbox (rt_outbox db)))"
  assume "i \<in> set (expired_rows locked now db)"
  then have "i \<in> set (sort_key completed_order ?f)" unfolding expired_rows_def by (rule in_set_takeD)
  then show ?thesis by (simp add: rt_rows_def)
qed

lemma retention_fields:
  assumes "retention_runOnce lr lc lu now db = (stats, db')"
  defines "ids \<equiv> map ir_inboxId (expired_rows lr now db)"
  shows "rt_rows db' = filter (\<lambda>i. ir_inboxId i \<notin> set ids) (rt_rows db)"
    and "ox_rows (rt_outbox db') = filter (\<lambda>r. ob_inboxId r \<notin> set ids) (ox_rows (rt_outbox db))"
    and "db_checkpoints (ox_inbox (rt_outbox db')) = db_checkpoints (ox_inbox (rt_outbox db))"
    and "deletedCompleted stats = length (rt_rows db) - length (rt_rows db')"
proof -
  show rows: "rt_rows db' = filter (\<lambda>i. ir_inboxId i \<notin> set ids) (rt_rows db)"
    using assms by (auto simp: retention_runOnce_def Let_def rt_rows_def delete_receipts_def delete_inbox_rows_def)
  show "ox_rows (rt_outbox db') = filter (\<lambda>r. ob_inboxId r \<notin> set ids) (ox_rows (rt_outbox db))"
    "db_checkpoints (ox_inbox (rt_outbox db')) = db_checkpoints (ox_inbox (rt_outbox db))"
    using assms by (auto simp: retention_runOnce_def Let_def delete_receipts_def delete_inbox_rows_def)
  have "length (rt_rows db) = length (filter (\<lambda>i. ir_inboxId i \<in> set ids) (rt_rows db)) + length (rt_rows db')"
    unfolding rows by (simp add: sum_length_filter_compl)
  moreover have "deletedCompleted stats = length (filter (\<lambda>i. ir_inboxId i \<in> set ids) (rt_rows db))"
    using assms by (auto simp: retention_runOnce_def Let_def rt_rows_def)
  ultimately show "deletedCompleted stats = length (rt_rows db) - length (rt_rows db')" by simp
qed

text \<open>
  C18. Retention deletes only what nobody needs any more. An inbox row disappears only if it was
  completed more than six hours ago, its usage is accounted for, and none of its deliveries is
  outstanding; so no pending, claimed or dead-lettered row, no undelivered outbox row and no
  watermark is ever lost, and the reported count is the number of rows removed.
\<close>

theorem retention_deletes_only_settled_rows:
  assumes "inbox_wf (ox_inbox (rt_outbox db))" and "retention_runOnce lr lc lu now db = (stats, db')"
  shows "(\<forall>i \<in> set (rt_rows db). i \<notin> set (rt_rows db') \<longrightarrow>
        past_retention now i \<and> usage_settled db i \<and> \<not> has_undelivered (ox_rows (rt_outbox db)) i)
    \<and> (\<forall>r \<in> set (ox_rows (rt_outbox db)). undelivered r \<longrightarrow> r \<in> set (ox_rows (rt_outbox db')))
    \<and> db_checkpoints (ox_inbox (rt_outbox db')) = db_checkpoints (ox_inbox (rt_outbox db))
    \<and> deletedCompleted stats = length (rt_rows db) - length (rt_rows db')"
proof (intro conjI ballI impI)
  note f = retention_fields[OF assms(2)]
  have d: "distinct (map ir_inboxId (rt_rows db))" using assms(1) by (simp add: inbox_wf_def rows_wf_def rt_rows_def)
  have gone: "may_delete lr now db i" if here: "i \<in> set (rt_rows db)" and gone: "i \<notin> set (rt_rows db')" for i
  proof -
    obtain j where j: "j \<in> set (expired_rows lr now db)" "ir_inboxId j = ir_inboxId i" using here gone f(1) by auto
    then have "j \<in> set (rt_rows db)" "may_delete lr now db j" using expired_rows_may_delete by blast+
    moreover from this have "j = i" using d j(2) here by (auto simp: distinct_map inj_on_def)
    ultimately show ?thesis by simp
  qed
  fix i assume "i \<in> set (rt_rows db)" "i \<notin> set (rt_rows db')"
  from gone[OF this] show "past_retention now i" "usage_settled db i" "\<not> has_undelivered (ox_rows (rt_outbox db)) i"
    by (auto simp: may_delete_def)
next
  note f = retention_fields[OF assms(2)]
  fix r assume r: "r \<in> set (ox_rows (rt_outbox db))" "undelivered r"
  have "ob_inboxId r \<notin> set (map ir_inboxId (expired_rows lr now db))"
  proof
    assume "ob_inboxId r \<in> set (map ir_inboxId (expired_rows lr now db))"
    then obtain j where "j \<in> set (expired_rows lr now db)" "ir_inboxId j = ob_inboxId r" by auto
    moreover from this have "\<not> has_undelivered (ox_rows (rt_outbox db)) j"
      using expired_rows_may_delete by (auto simp: may_delete_def)
    ultimately show False using r by (auto simp: has_undelivered_def list_ex_iff)
  qed
  then show "r \<in> set (ox_rows (rt_outbox db'))" using f(2) r(1) by simp
qed (use retention_fields[OF assms(2)] in simp_all)

definition sample_retention :: retention_db where
  "sample_retention = \<lparr>rt_outbox = sample_outbox2, rt_baseline = [], rt_closures = [], rt_uploads = []\<rparr>"

theorem retention_deletes_only_settled_rows_witness:
  "list_all (\<lambda>r. r \<in> set (ox_rows (rt_outbox (snd
      (retention_runOnce (\<lambda>_. False) (\<lambda>_. False) (\<lambda>_. False) 99000000 sample_retention))))) (ox_rows sample_outbox2)"
proof -
  let ?run = "retention_runOnce (\<lambda>_. False) (\<lambda>_. False) (\<lambda>_. False) 99000000 sample_retention"
  have "inbox_wf (ox_inbox (rt_outbox sample_retention))"
    using insert_delivery_inv[OF sample_outbox_inv] by (simp add: sample_retention_def sample_outbox2_def outbox_inv_def)
  moreover have "?run = (fst ?run, snd ?run)" by simp
  moreover have "\<forall>r \<in> set (ox_rows sample_outbox2). undelivered r" by code_simp
  ultimately show ?thesis
    using retention_deletes_only_settled_rows[of sample_retention _ _ _ 99000000 "fst ?run" "snd ?run"]
    by (simp add: sample_retention_def list_all_iff)
qed

end
