(* ===== verification/Login_Stores.thy ===== *)
theory Login_Stores
  imports Prelude
begin

text \<open>
  The short-lived stores behind the login flows: QR sessions (\<open>relay/src/config/qr-sessions.ts\<close>),
  one-shot WebSocket tickets (\<open>relay/src/config/ws-tickets.ts\<close>) and the shared HTTP rate limit
  (\<open>relay/src/auth-rate-limit.ts\<close> over \<open>hitAuthRateLimit\<close> of \<open>relay/src/db.ts\<close>). Clocks, random
  tokens, SHA-256 and HMAC are arguments.
\<close>

section \<open>QR sessions\<close>

datatype QrSessionStatus = QrPending | QrScanned | QrConfirmed | QrExpired

record QrSession =
  qr_token :: string
  qr_status :: QrSessionStatus
  qr_user_id :: "int option"
  qr_created_at :: int
  qr_expires_at :: int

record QrSessionStoreConfig =
  qc_maxSessions :: int
  qc_ttlMs :: int

definition DEFAULT_QR_SESSION_STORE_CONFIG :: QrSessionStoreConfig where
  "DEFAULT_QR_SESSION_STORE_CONFIG = \<lparr>qc_maxSessions = 5000, qc_ttlMs = 120000\<rparr>"

type_synonym qr_store = "(string, QrSession) jsmap"

datatype qr_error = QrSessionStoreCapacityError

definition qr_alive :: "int \<Rightarrow> QrSession \<Rightarrow> bool" where
  "qr_alive t s = (\<not> qr_expires_at s < t)"

definition qr_gc :: "int \<Rightarrow> qr_store \<Rightarrow> qr_store" where
  "qr_gc t m = sweep qr_alive t m"

text \<open>The candidates are the six random tokens \<open>create\<close> may draw; a taken one is skipped.\<close>

definition qr_create :: "QrSessionStoreConfig \<Rightarrow> string list \<Rightarrow> int \<Rightarrow> qr_store \<Rightarrow> (qr_error + string \<times> int) \<times> qr_store" where
  "qr_create cfg candidates t m =
     (let m1 = qr_gc t m in
      if qc_maxSessions cfg \<le> int (length m1) then (Inl QrSessionStoreCapacityError, m1)
      else (case List.find (\<lambda>c. jm_get m1 c = None) (take 6 candidates) of
              None \<Rightarrow> (Inl QrSessionStoreCapacityError, m1)
            | Some tok \<Rightarrow>
                if tok = [] then (Inl QrSessionStoreCapacityError, m1)
                else (Inr (tok, qc_ttlMs cfg div 1000),
                      jm_set tok \<lparr>qr_token = tok, qr_status = QrPending, qr_user_id = None,
                                  qr_created_at = t, qr_expires_at = t + qc_ttlMs cfg\<rparr> m1)))"

definition qr_get :: "string \<Rightarrow> int \<Rightarrow> qr_store \<Rightarrow> QrSession option \<times> qr_store" where
  "qr_get tok t m =
     (case jm_get m tok of
        None \<Rightarrow> (None, m)
      | Some s \<Rightarrow> if qr_expires_at s < t then (None, jm_delete tok m) else (Some s, m))"

definition qr_markScanned :: "string \<Rightarrow> int \<Rightarrow> qr_store \<Rightarrow> bool \<times> qr_store" where
  "qr_markScanned tok t m =
     (case jm_get m tok of
        None \<Rightarrow> (False, m)
      | Some s \<Rightarrow>
          if qr_expires_at s < t then (False, jm_delete tok m)
          else (True, if qr_status s = QrPending then jm_set tok (s\<lparr>qr_status := QrScanned\<rparr>) m else m))"

definition qr_confirm :: "string \<Rightarrow> int \<Rightarrow> int \<Rightarrow> qr_store \<Rightarrow> bool \<times> qr_store" where
  "qr_confirm tok userId t m =
     (case jm_get m tok of
        None \<Rightarrow> (False, m)
      | Some s \<Rightarrow>
          if qr_expires_at s < t then (False, jm_delete tok m)
          else (True, jm_set tok (s\<lparr>qr_status := QrConfirmed, qr_user_id := Some userId\<rparr>) m))"

definition qr_remove :: "string \<Rightarrow> qr_store \<Rightarrow> qr_store" where
  "qr_remove tok m = jm_delete tok m"

interpretation qr: expiring qr_alive
  by unfold_locales (simp add: qr_alive_def)

text \<open>
  The store with the confirmations that were accepted, each with the token and the user who
  confirmed it.
\<close>

type_synonym qr_run = "qr_store \<times> (string \<times> int) list"

inductive qr_step :: "QrSessionStoreConfig \<Rightarrow> qr_run \<Rightarrow> qr_run \<Rightarrow> bool" for cfg where
  step_create: "qr_create cfg cs t m = (r, m') \<Longrightarrow> qr_step cfg (m, l) (m', l)"
| step_get: "qr_get tok t m = (r, m') \<Longrightarrow> qr_step cfg (m, l) (m', l)"
| step_scan: "qr_markScanned tok t m = (r, m') \<Longrightarrow> qr_step cfg (m, l) (m', l)"
| step_confirm: "qr_confirm tok u t m = (ok, m') \<Longrightarrow> qr_step cfg (m, l) (m', if ok then (tok, u) # l else l)"
| step_remove: "qr_step cfg (m, l) (qr_remove tok m, l)"
| step_gc: "qr_step cfg (m, l) (qr_gc t m, l)"

definition qr_session_ok :: "QrSessionStoreConfig \<Rightarrow> (string \<times> int) list \<Rightarrow> string \<Rightarrow> QrSession \<Rightarrow> bool" where
  "qr_session_ok cfg l tok s \<longleftrightarrow> qr_token s = tok \<and> qr_expires_at s = qr_created_at s + qc_ttlMs cfg
     \<and> (qr_status s = QrConfirmed \<longleftrightarrow> qr_user_id s \<noteq> None)
     \<and> (\<forall>u. qr_user_id s = Some u \<longrightarrow> (tok, u) \<in> set l)"

definition qr_inv :: "QrSessionStoreConfig \<Rightarrow> qr_run \<Rightarrow> bool" where
  "qr_inv cfg x \<longleftrightarrow> jm_wf (fst x) \<and> int (length (fst x)) \<le> max 0 (qc_maxSessions cfg)
     \<and> (\<forall>tok s. jm_get (fst x) tok = Some s \<longrightarrow> qr_session_ok cfg (snd x) tok s)"

lemma qr_inv_shrink:
  assumes "qr_inv cfg (m, l)" "jm_wf m'" "length m' \<le> length m" "\<And>k v. jm_get m' k = Some v \<Longrightarrow> jm_get m k = Some v"
  shows "qr_inv cfg (m', l)"
proof -
  have "int (length m') \<le> max 0 (qc_maxSessions cfg)" using assms(1,3) unfolding qr_inv_def fst_conv by linarith
  then show ?thesis using assms(1,2,4) by (simp only: qr_inv_def fst_conv snd_conv) blast
qed

lemma jm_delete_sub: "jm_get (jm_delete t m) k = Some v \<Longrightarrow> jm_get m k = Some v"
  by (simp split: if_splits)

lemma qr_inv_delete: "qr_inv cfg (m, l) \<Longrightarrow> qr_inv cfg (jm_delete tok m, l)"
proof (rule qr_inv_shrink)
  assume "qr_inv cfg (m, l)"
  then show "jm_wf (jm_delete tok m)" by (simp add: qr_inv_def distinct_delete)
qed (use jm_delete_sub in \<open>auto intro: length_delete_le\<close>)

lemma qr_inv_gc: "qr_inv cfg (m, l) \<Longrightarrow> qr_inv cfg (qr_gc t m, l)"
proof (rule qr_inv_shrink)
  assume inv: "qr_inv cfg (m, l)"
  then have wf: "jm_wf m" by (simp add: qr_inv_def)
  then show "jm_wf (qr_gc t m)" unfolding qr_gc_def by (rule jm_wf_sweep)
  show "jm_get (qr_gc t m) k = Some v \<Longrightarrow> jm_get m k = Some v" for k v
    unfolding qr_gc_def jm_get_sweep[OF wf] using live_get_SomeD by metis
qed (auto simp: qr_gc_def length_sweep)

lemma qr_inv_update:
  assumes inv: "qr_inv cfg (m, l)" and old: "jm_get m tok = Some s"
    and ok: "qr_session_ok cfg l' tok s'" and l: "set l \<subseteq> set l'"
  shows "qr_inv cfg (jm_set tok s' m, l')"
proof -
  have "length (jm_set tok s' m) = length m" using old length_jm_set_old[of m tok] by simp
  moreover have "qr_session_ok cfg l' k v" if "jm_get (jm_set tok s' m) k = Some v" for k v
  proof (cases "k = tok")
    case True
    then show ?thesis using that ok by simp
  next
    case False
    then have "jm_get m k = Some v" using that by simp
    then have "qr_session_ok cfg l k v" using inv by (simp only: qr_inv_def fst_conv snd_conv)
    then show ?thesis using l by (auto simp: qr_session_ok_def)
  qed
  moreover have "jm_wf (jm_set tok s' m)" using inv by (simp add: qr_inv_def distinct_update)
  ultimately show ?thesis using inv by (simp only: qr_inv_def fst_conv snd_conv) metis
qed

lemma qr_session_okD: "qr_inv cfg (m, l) \<Longrightarrow> jm_get m tok = Some s \<Longrightarrow> qr_session_ok cfg l tok s"
  by (simp only: qr_inv_def fst_conv snd_conv)

lemma qr_create_inv:
  assumes inv: "qr_inv cfg (m, l)" and c: "qr_create cfg cs t m = (r, m')"
  shows "qr_inv cfg (m', l)"
proof -
  have g: "qr_inv cfg (qr_gc t m, l)" by (rule qr_inv_gc[OF inv])
  show ?thesis
  proof (cases "m' = qr_gc t m")
    case True
    then show ?thesis using g by simp
  next
    case False
    then obtain tok where tok: "jm_get (qr_gc t m) tok = None" "int (length (qr_gc t m)) < qc_maxSessions cfg"
      "m' = jm_set tok \<lparr>qr_token = tok, qr_status = QrPending, qr_user_id = None,
                        qr_created_at = t, qr_expires_at = t + qc_ttlMs cfg\<rparr> (qr_gc t m)"
      using c by (auto simp: qr_create_def Let_def find_Some_iff split: if_splits option.splits)
    have "int (length m') \<le> max 0 (qc_maxSessions cfg)"
      using tok(2) length_jm_set_new[OF tok(1)] by (simp add: tok(3))
    moreover have "jm_wf m'" using g unfolding tok(3) by (simp add: qr_inv_def distinct_update)
    moreover have "qr_session_ok cfg l k v" if "jm_get m' k = Some v" for k v
      using that qr_session_okD[OF g, of k v] unfolding tok(3) by (auto simp: qr_session_ok_def split: if_splits)
    ultimately show ?thesis by (simp only: qr_inv_def fst_conv snd_conv) blast
  qed
qed

lemma qr_step_inv: "qr_step cfg x y \<Longrightarrow> qr_inv cfg x \<Longrightarrow> qr_inv cfg y"
proof (induction rule: qr_step.induct)
  case (step_create cs t m r m' l)
  then show ?case using qr_create_inv by blast
next
  case (step_get tok t m r m' l)
  then show ?case using qr_inv_delete by (auto simp: qr_get_def split: option.splits if_splits)
next
  case (step_scan tok t m r m' l)
  have "qr_inv cfg (jm_set tok (s\<lparr>qr_status := QrScanned\<rparr>) m, l)" if "jm_get m tok = Some s" "qr_status s = QrPending" for s
    by (rule qr_inv_update[OF step_scan(2) that(1)])
      (use qr_session_okD[OF step_scan(2) that(1)] that(2) in \<open>auto simp: qr_session_ok_def\<close>)
  then show ?case using step_scan qr_inv_delete by (auto simp: qr_markScanned_def split: option.splits if_splits)
next
  case (step_confirm tok u t m ok m' l)
  have "qr_inv cfg (jm_set tok (s\<lparr>qr_status := QrConfirmed, qr_user_id := Some u\<rparr>) m, (tok, u) # l)" if "jm_get m tok = Some s" for s
    by (rule qr_inv_update[OF step_confirm(2) that])
      (use qr_session_okD[OF step_confirm(2) that] in \<open>auto simp: qr_session_ok_def\<close>)
  then show ?case using step_confirm qr_inv_delete by (auto simp: qr_confirm_def split: option.splits if_splits)
next
  case (step_remove m l tok)
  then show ?case using qr_inv_delete by (simp add: qr_remove_def)
qed (rule qr_inv_gc)

interpretation qr_runs: transition_system "\<lambda>x. x = ([], [])" "qr_step cfg" "qr_inv cfg"
proof
  show "s = ([], []) \<Longrightarrow> qr_inv cfg s" for s :: qr_run by (simp add: qr_inv_def)
  show "qr_inv cfg s \<Longrightarrow> qr_step cfg s t \<Longrightarrow> qr_inv cfg t" for s t by (rule qr_step_inv)
qed

text \<open>
  A QR login session hands out a user only after that user confirmed that very token, and only
  while the session is within its lifetime; and the store never holds more sessions than its cap,
  however creations, polls, scans, confirmations and collections interleave.
\<close>

lemma qr_login_needs_confirmation:
  assumes "(qr_step cfg)\<^sup>*\<^sup>* ([], []) (m, confirmed)"
  shows "int (length m) \<le> max 0 (qc_maxSessions cfg)
    \<and> (\<forall>tok t s u. fst (qr_get tok t m) = Some s \<and> qr_user_id s = Some u \<longrightarrow>
          (tok, u) \<in> set confirmed \<and> qr_status s = QrConfirmed \<and> t \<le> qr_created_at s + qc_ttlMs cfg)"
proof -
  have inv: "qr_inv cfg (m, confirmed)" by (rule qr_runs.inv_reachable[OF refl assms])
  have "(tok, u) \<in> set confirmed \<and> qr_status s = QrConfirmed \<and> t \<le> qr_created_at s + qc_ttlMs cfg"
    if "fst (qr_get tok t m) = Some s" "qr_user_id s = Some u" for tok t s u
  proof -
    have "jm_get m tok = Some s" "t \<le> qr_expires_at s"
      using that(1) by (auto simp: qr_get_def split: option.splits if_splits)
    then show ?thesis using qr_session_okD[OF inv, of tok s] that(2) by (simp add: qr_session_ok_def)
  qed
  moreover have "int (length m) \<le> max 0 (qc_maxSessions cfg)" using inv by (simp only: qr_inv_def fst_conv)
  ultimately show ?thesis by blast
qed

definition sample_qr :: "qr_store" where
  "sample_qr = snd (qr_confirm ''tok'' 7 500 (snd (qr_create DEFAULT_QR_SESSION_STORE_CONFIG [''tok''] 0 [])))"

lemma qr_login_needs_confirmation_example:
  "\<exists>s. fst (qr_get ''tok'' 600 sample_qr) = Some s \<and> qr_user_id s = Some 7 \<and> 600 \<le> qr_created_at s + qc_ttlMs DEFAULT_QR_SESSION_STORE_CONFIG"
proof -
  let ?cfg = DEFAULT_QR_SESSION_STORE_CONFIG
  let ?m1 = "snd (qr_create ?cfg [''tok''] 0 [])"
  have "qr_step ?cfg ([], []) (?m1, [])" by (rule qr_step.step_create[of ?cfg "[''tok'']" 0 "[]" "fst (qr_create ?cfg [''tok''] 0 [])"]) simp
  moreover have "fst (qr_confirm ''tok'' 7 500 ?m1)" by code_simp
  then have "qr_step ?cfg (?m1, []) (sample_qr, [(''tok'', 7)])"
    using qr_step.step_confirm[of "''tok''" 7 500 ?m1 True sample_qr ?cfg "[]"] by (cases "qr_confirm ''tok'' 7 500 ?m1") (simp add: sample_qr_def)
  ultimately have run: "(qr_step ?cfg)\<^sup>*\<^sup>* ([], []) (sample_qr, [(''tok'', 7)])"
    by (blast intro: rtranclp.rtrancl_into_rtrancl r_into_rtranclp)
  have "map_option qr_user_id (fst (qr_get ''tok'' 600 sample_qr)) = Some (Some 7)" by code_simp
  then obtain s where s: "fst (qr_get ''tok'' 600 sample_qr) = Some s" "qr_user_id s = Some 7" by auto
  then show ?thesis using qr_login_needs_confirmation[OF run] by blast
qed

section \<open>WebSocket tickets\<close>

record WsTicketPayload =
  tp_userId :: int
  tp_email :: string
  tp_jti :: string
  tp_machine_id :: string

record ticket_row =
  tr_payload :: WsTicketPayload
  tr_expires_at :: int

type_synonym ticket_table = "(string, ticket_row) jsmap"

definition ticket_live :: "int \<Rightarrow> ticket_row \<Rightarrow> bool" where
  "ticket_live now r = (now < tr_expires_at r)"

interpretation tickets: expiring ticket_live
  by unfold_locales (simp add: ticket_live_def)

text \<open>
  \<open>persistence.insert\<close>: one transaction under an advisory lock. At capacity, and when the hash is
  taken, it rolls back, so the purge of expired tickets is undone as well.
\<close>

definition ticket_insert :: "string \<Rightarrow> WsTicketPayload \<Rightarrow> int \<Rightarrow> int \<Rightarrow> int \<Rightarrow> ticket_table \<Rightarrow> bool \<times> ticket_table" where
  "ticket_insert ticketHash payload ttlMs maxTickets now db =
     (let live = sweep ticket_live now db in
      if maxTickets \<le> int (length live) then (False, db)
      else if jm_get live ticketHash \<noteq> None then (False, db)
      else (True, jm_set ticketHash \<lparr>tr_payload = payload, tr_expires_at = now + ttlMs\<rparr> live))"

text \<open>\<open>persistence.consume\<close>: the row is deleted whether or not it is still live.\<close>

definition ticket_consume :: "string \<Rightarrow> int \<Rightarrow> ticket_table \<Rightarrow> WsTicketPayload option \<times> ticket_table" where
  "ticket_consume ticketHash now db =
     (map_option tr_payload (live_get ticket_live now db ticketHash), jm_delete ticketHash db)"

datatype ticket_error = WsTicketStoreCapacityError

record WsTicketStoreConfig =
  maxTickets :: int

definition DEFAULT_WS_TICKET_STORE_CONFIG :: WsTicketStoreConfig where
  "DEFAULT_WS_TICKET_STORE_CONFIG = \<lparr>maxTickets = 20000\<rparr>"

definition ticket_create :: "(string \<Rightarrow> string) \<Rightarrow> WsTicketStoreConfig \<Rightarrow> int \<Rightarrow> string \<Rightarrow> WsTicketPayload \<Rightarrow> int \<Rightarrow> ticket_table
    \<Rightarrow> (ticket_error + string \<times> int) \<times> ticket_table" where
  "ticket_create hashTicket cfg ttlMs ticket payload now db =
     (case ticket_insert (hashTicket ticket) payload ttlMs (maxTickets cfg) now db of
        (False, db1) \<Rightarrow> (Inl WsTicketStoreCapacityError, db1)
      | (True, db1) \<Rightarrow> (Inr (ticket, ttlMs div 1000), db1))"

definition ticket_redeem :: "(string \<Rightarrow> string) \<Rightarrow> string \<Rightarrow> int \<Rightarrow> ticket_table \<Rightarrow> WsTicketPayload option \<times> ticket_table" where
  "ticket_redeem hashTicket ticket now db = ticket_consume (hashTicket ticket) now db"

text \<open>Other traffic on the table: tickets issued and redeemed by any instance.\<close>

datatype ticket_op = Issue string WsTicketPayload int int int | Redeem string int

fun op_hash :: "ticket_op \<Rightarrow> string" where
  "op_hash (Issue h p ttl mx t) = h"
| "op_hash (Redeem h t) = h"

fun op_time :: "ticket_op \<Rightarrow> int" where
  "op_time (Issue h p ttl mx t) = t"
| "op_time (Redeem h t) = t"

fun ticket_apply :: "ticket_op \<Rightarrow> ticket_table \<Rightarrow> ticket_table" where
  "ticket_apply (Issue h p ttl mx t) db = snd (ticket_insert h p ttl mx t db)"
| "ticket_apply (Redeem h t) db = snd (ticket_consume h t db)"

lemma ticket_apply_wf: "jm_wf db \<Longrightarrow> jm_wf (ticket_apply opn db)"
  by (cases opn) (auto simp: ticket_insert_def ticket_consume_def Let_def distinct_update distinct_delete)

text \<open>Traffic on other tickets leaves a ticket's live lookup alone.\<close>

lemma ticket_apply_other:
  assumes "jm_wf db" and "op_hash opn \<noteq> h" and "op_time opn \<le> t"
  shows "live_get ticket_live t (ticket_apply opn db) h = live_get ticket_live t db h"
  using assms
proof (cases opn)
  case (Issue h' p ttl mx t')
  then show ?thesis
    using assms tickets.live_get_sweep[OF assms(1), of t' t h]
    by (auto simp: ticket_insert_def Let_def live_get_set)
next
  case (Redeem h' t')
  then show ?thesis using assms by (simp add: ticket_consume_def live_get_delete)
qed

lemma ticket_run_other:
  assumes "jm_wf db" and "\<forall>opn \<in> set ops. op_hash opn \<noteq> h \<and> op_time opn \<le> t"
  shows "live_get ticket_live t (fold ticket_apply ops db) h = live_get ticket_live t db h"
  using assms by (induction ops arbitrary: db) (simp_all add: ticket_apply_wf ticket_apply_other)

text \<open>
  A WebSocket ticket works exactly once and only in time. Whatever other tickets are issued and
  redeemed meanwhile, redeeming a ticket before its expiry returns the identity it was issued for,
  from its expiry on nothing, and redeeming it a second time nothing.
\<close>

lemma ticket_redeems_once_in_time:
  assumes "jm_wf db" and "ticket_create sha cfg ttl ticket payload t0 db = (Inr r, db1)"
    and "list_all (\<lambda>opn. op_hash opn \<noteq> sha ticket \<and> op_time opn \<le> t) ops"
  shows "fst (ticket_redeem sha ticket t (fold ticket_apply ops db1)) = (if t < t0 + ttl then Some payload else None)
    \<and> fst (ticket_redeem sha ticket t' (snd (ticket_redeem sha ticket t (fold ticket_apply ops db1)))) = None"
proof -
  have db1: "db1 = jm_set (sha ticket) \<lparr>tr_payload = payload, tr_expires_at = t0 + ttl\<rparr> (sweep ticket_live t0 db)"
    using assms(2) by (auto simp: ticket_create_def ticket_insert_def Let_def split: if_splits bool.splits prod.splits)
  have wf: "jm_wf db1" unfolding db1 using jm_wf_sweep[OF assms(1)] by (rule jm_wf_set)
  have ops: "\<forall>opn \<in> set ops. op_hash opn \<noteq> sha ticket \<and> op_time opn \<le> t" using assms(3) by (simp add: list_all_iff)
  have "live_get ticket_live t (fold ticket_apply ops db1) (sha ticket) = live_get ticket_live t db1 (sha ticket)"
    by (rule ticket_run_other[OF wf ops])
  then have "live_get ticket_live t (fold ticket_apply ops db1) (sha ticket)
      = (if t < t0 + ttl then Some \<lparr>tr_payload = payload, tr_expires_at = t0 + ttl\<rparr> else None)"
    by (simp add: db1 live_get_set ticket_live_def)
  then show ?thesis by (simp add: ticket_redeem_def ticket_consume_def live_get_delete)
qed

lemma ticket_redeems_once_in_time_example:
  "fst (ticket_redeem id ''a'' 500 (fold ticket_apply [Redeem ''b'' 10]
      (snd (ticket_create id DEFAULT_WS_TICKET_STORE_CONFIG 60000 ''a'' \<lparr>tp_userId = 1, tp_email = ''e'', tp_jti = ''j'', tp_machine_id = ''m''\<rparr> 0 []))))
   = Some \<lparr>tp_userId = 1, tp_email = ''e'', tp_jti = ''j'', tp_machine_id = ''m''\<rparr>"
proof -
  let ?p = "\<lparr>tp_userId = 1, tp_email = ''e'', tp_jti = ''j'', tp_machine_id = ''m''\<rparr>"
  have c: "ticket_create id DEFAULT_WS_TICKET_STORE_CONFIG 60000 ''a'' ?p 0 []
      = (Inr (''a'', 60), snd (ticket_create id DEFAULT_WS_TICKET_STORE_CONFIG 60000 ''a'' ?p 0 []))"
    by (simp add: ticket_create_def ticket_insert_def DEFAULT_WS_TICKET_STORE_CONFIG_def sweep_def)
  show ?thesis using ticket_redeems_once_in_time[OF _ c, of 500 "[Redeem ''b'' 10]"] by simp
qed

section \<open>The shared HTTP rate limit\<close>

record AuthRateLimitDecision =
  ad_allowed :: bool
  ad_retryAfterMs :: int
  ad_count :: int

record limit_row =
  lr_window_started_at :: int
  lr_count :: int

type_synonym limit_table = "(string, limit_row) jsmap"

definition hit_row :: "int \<Rightarrow> int \<Rightarrow> limit_row option \<Rightarrow> limit_row" where
  "hit_row windowMs now old =
     (case old of
        None \<Rightarrow> \<lparr>lr_window_started_at = now, lr_count = 1\<rparr>
      | Some r \<Rightarrow>
          if lr_window_started_at r \<le> now - windowMs then \<lparr>lr_window_started_at = now, lr_count = 1\<rparr>
          else r\<lparr>lr_count := lr_count r + 1\<rparr>)"

definition hitAuthRateLimit :: "string \<Rightarrow> int \<Rightarrow> int \<Rightarrow> int \<Rightarrow> limit_table \<Rightarrow> AuthRateLimitDecision \<times> limit_table" where
  "hitAuthRateLimit limitKey lim windowMs now db =
     (let row = hit_row windowMs now (jm_get db limitKey); allowed = (lr_count row \<le> lim) in
      (\<lparr>ad_allowed = allowed,
        ad_retryAfterMs = (if allowed then 0 else max 1000 (lr_window_started_at row + windowMs - now)),
        ad_count = lr_count row\<rparr>,
       jm_set limitKey row db))"

definition cleanStaleAuthRateLimits :: "int \<Rightarrow> limit_table \<Rightarrow> limit_table" where
  "cleanStaleAuthRateLimits now db = filter (\<lambda>(k, r). \<not> lr_window_started_at r < now - 48 * 3600000) db"

datatype bucket_kind = IpBucket | IdentityBucket

record AuthRateLimitBucketSpec =
  sp_scope :: string
  sp_windowMs :: int
  sp_ip :: "(string \<times> int) option"
  sp_identity :: "(string \<times> int) option"

datatype AuthRateLimitEnforceDecision = EnforceOk | TooMany int | Unavailable

definition authRateLimitKey :: "(string \<Rightarrow> string \<Rightarrow> string) \<Rightarrow> string \<Rightarrow> string \<Rightarrow> bucket_kind \<Rightarrow> string \<Rightarrow> string" where
  "authRateLimitKey hmac pepper scope kind subject =
     hmac pepper (''auth-rate-limit:v1:'' @ scope @ '':'' @ (case kind of IpBucket \<Rightarrow> ''ip'' | IdentityBucket \<Rightarrow> ''identity'') @ '':'' @ subject)"

definition limit_buckets :: "AuthRateLimitBucketSpec \<Rightarrow> (bucket_kind \<times> string \<times> int) list" where
  "limit_buckets spec =
     (case sp_ip spec of None \<Rightarrow> [] | Some (v, l) \<Rightarrow> [(IpBucket, v, l)])
     @ (case sp_identity spec of None \<Rightarrow> [] | Some (v, l) \<Rightarrow> [(IdentityBucket, v, l)])"

text \<open>
  The counter backend answers or throws (\<open>None\<close>); \<open>hit\<close> is \<open>hitAuthRateLimit\<close> with the availability
  of the database in front.
\<close>

fun enforce_buckets :: "(string \<Rightarrow> int \<Rightarrow> limit_table \<Rightarrow> (AuthRateLimitDecision \<times> limit_table) option)
    \<Rightarrow> (bucket_kind \<Rightarrow> string \<Rightarrow> string) \<Rightarrow> (bucket_kind \<times> string \<times> int) list \<Rightarrow> limit_table
    \<Rightarrow> AuthRateLimitEnforceDecision \<times> limit_table" where
  "enforce_buckets hit key [] db = (EnforceOk, db)"
| "enforce_buckets hit key ((kind, subject, lim) # bs) db =
     (case hit (key kind subject) lim db of
        None \<Rightarrow> (Unavailable, db)
      | Some (d, db1) \<Rightarrow> if \<not> ad_allowed d then (TooMany (ad_retryAfterMs d), db1) else enforce_buckets hit key bs db1)"

datatype enforce_error = NeedsBucket

definition enforce :: "(string \<Rightarrow> string \<Rightarrow> string) \<Rightarrow> string \<Rightarrow> (string \<Rightarrow> bool) \<Rightarrow> AuthRateLimitBucketSpec \<Rightarrow> int \<Rightarrow> limit_table
    \<Rightarrow> (enforce_error + AuthRateLimitEnforceDecision) \<times> limit_table" where
  "enforce hmac pepper backend_up spec now db =
     (if sp_ip spec = None \<and> sp_identity spec = None then (Inl NeedsBucket, db)
      else (case enforce_buckets
                   (\<lambda>k l d. if backend_up k then Some (hitAuthRateLimit k l (sp_windowMs spec) now d) else None)
                   (authRateLimitKey hmac pepper (sp_scope spec)) (limit_buckets spec) db of
              (r, db1) \<Rightarrow> (Inr r, db1)))"

text \<open>The rejected request's status code and \<open>Retry-After\<close> header, in whole seconds rounded up.\<close>

definition applyAuthRateLimitDecision :: "AuthRateLimitEnforceDecision \<Rightarrow> bool \<times> (int \<times> int option) option" where
  "applyAuthRateLimitDecision d =
     (case d of
        EnforceOk \<Rightarrow> (False, None)
      | TooMany ms \<Rightarrow> (True, Some (429, Some (max 1 (- ((- ms) div 1000)))))
      | Unavailable \<Rightarrow> (True, Some (503, None)))"

text \<open>A sequence of hits on any keys; \<open>allowed_hits\<close> counts those of one key that were allowed.\<close>

fun allowed_hits :: "int \<Rightarrow> int \<Rightarrow> string \<Rightarrow> (string \<times> int) list \<Rightarrow> limit_table \<Rightarrow> nat" where
  "allowed_hits lim windowMs k [] db = 0"
| "allowed_hits lim windowMs k ((k', t) # hs) db =
     (case hitAuthRateLimit k' lim windowMs t db of
        (d, db1) \<Rightarrow> (if k' = k \<and> ad_allowed d then 1 else 0) + allowed_hits lim windowMs k hs db1)"

lemma allowed_hits_in_window:
  assumes "jm_get db k = Some r" and "\<forall>(k', t) \<in> set hs. t < lr_window_started_at r + windowMs"
  shows "int (allowed_hits lim windowMs k hs db) \<le> max 0 (lim - lr_count r)"
  using assms
proof (induction hs arbitrary: db r)
  case (Cons h hs)
  obtain k' t where h: "h = (k', t)" by force
  show ?case
  proof (cases "k' = k")
    case True
    let ?r = "r\<lparr>lr_count := lr_count r + 1\<rparr>"
    have row: "hit_row windowMs t (jm_get db k) = ?r" using Cons.prems h by (auto simp: hit_row_def)
    have "int (allowed_hits lim windowMs k hs (jm_set k ?r db)) \<le> max 0 (lim - lr_count ?r)"
      by (rule Cons.IH) (use Cons.prems in auto)
    then show ?thesis using True h row by (auto simp: hitAuthRateLimit_def Let_def)
  next
    case False
    have "int (allowed_hits lim windowMs k hs (snd (hitAuthRateLimit k' lim windowMs t db))) \<le> max 0 (lim - lr_count r)"
      by (rule Cons.IH) (use Cons.prems False in \<open>auto simp: hitAuthRateLimit_def Let_def\<close>)
    then show ?thesis using False h by (simp add: hitAuthRateLimit_def Let_def)
  qed
qed simp

text \<open>
  The shared limit bounds the attempts of one subject across all relay instances: from the
  attempt that opens a window until the window has passed, at most the limit of attempts is allowed
  for its key, however hits on other keys interleave.
\<close>

lemma auth_limit_bounds_attempts:
  assumes "case jm_get db k of None \<Rightarrow> True | Some r \<Rightarrow> lr_window_started_at r \<le> t0 - windowMs"
    and "list_all (\<lambda>(k', t). t < t0 + windowMs) hs" and "0 \<le> lim"
  shows "int (allowed_hits lim windowMs k ((k, t0) # hs) db) \<le> lim"
proof -
  let ?r = "\<lparr>lr_window_started_at = t0, lr_count = 1\<rparr>"
  have row: "hit_row windowMs t0 (jm_get db k) = ?r" using assms(1) by (auto simp: hit_row_def split: option.splits)
  have "int (allowed_hits lim windowMs k hs (jm_set k ?r db)) \<le> max 0 (lim - lr_count ?r)"
    by (rule allowed_hits_in_window) (use assms(2) in \<open>auto simp: list_all_iff\<close>)
  then show ?thesis using row assms(3) by (auto simp: hitAuthRateLimit_def Let_def)
qed

lemma auth_limit_bounds_attempts_example:
  "int (allowed_hits 2 1000 ''k'' [(''k'', 0), (''k'', 10), (''x'', 20), (''k'', 30), (''k'', 999)] []) \<le> 2"
  using auth_limit_bounds_attempts[where db = "[]" and k = "''k''" and ?t0.0 = 0 and windowMs = 1000
      and hs = "[(''k'', 10), (''x'', 20), (''k'', 30), (''k'', 999)]" and lim = 2] by simp

text \<open>The limiter fails closed: it answers ok only if every bucket was counted and allowed.\<close>

lemma enforce_fails_closed:
  "fst (enforce_buckets hit key bs db) = EnforceOk \<Longrightarrow> (kind, subject, lim) \<in> set bs \<Longrightarrow>
     \<exists>db1 d db2. hit (key kind subject) lim db1 = Some (d, db2) \<and> ad_allowed d"
proof (induction bs arbitrary: db)
  case (Cons b bs)
  obtain k' s' l' where b: "b = (k', s', l')" by (cases b) auto
  then show ?case using Cons by (auto split: option.splits if_splits prod.splits)
qed simp

end
