(* ===== verification/Quota.thy ===== *)
theory Quota
  imports Prelude
begin

text \<open>
  Quota of concurrent sessions and bound hosts, \<open>relay/src/quota.ts\<close>. The tables are lists of rows.
  Every operation takes the account's advisory lock or is one statement, so it is one step. Fresh
  identifiers and the clock are arguments; the reservation and admission columns are those of the
  schema in \<open>relay/src/db.ts\<close>.
\<close>

section \<open>Tables\<close>

datatype QuotaOperation = CreateOp | ResumeOp

datatype reservation_state = RPending | RUncertain | RSettled

record reservation_row =
  qv_id :: string
  qv_user :: int
  qv_resource :: string
  qv_operation :: QuotaOperation
  qv_daemon :: string
  qv_session :: "string option"
  qv_request :: string
  qv_expires_at :: int
  qv_created_at :: int
  qv_state :: reservation_state
  qv_settled_at :: "int option"
  qv_reason :: "string option"
  qv_agent_type :: "string option"
  qv_cwd :: "string option"
  qv_command_hash :: "string option"
  qv_project :: "string option"

datatype admission_state = Issued | Completed | AUncertain

record admission_row =
  am_id :: string
  am_user :: int
  am_daemon :: string
  am_session :: string
  am_request :: string
  am_msg_id :: "string option"
  am_command_hash :: string
  am_state :: admission_state
  am_expires_at :: int
  am_completed_at :: "int option"
  am_outcome :: "string option"
  am_claimed :: "string option"
  am_canonical :: "string option"
  am_aliases :: "string list"

record root_session_row =
  sn_id :: string
  sn_user :: "int option"
  sn_daemon :: "string option"
  sn_status :: "string option"
  sn_is_subagent :: "bool option"
  sn_agent_type :: "string option"
  sn_control_mode :: "string option"
  sn_created_at :: int
  sn_activity_epoch :: int

record daemon_row =
  dm_id :: string
  dm_user :: "int option"
  dm_machine :: "string option"
  dm_status :: string
  dm_hostname :: "string option"

record quota_db =
  qd_reservations :: "reservation_row list"
  qd_admissions :: "admission_row list"
  qd_sessions :: "root_session_row list"
  qd_daemons :: "daemon_row list"
  qd_deleted_sessions :: "string list"

section \<open>Counting\<close>

definition ACTIVE_STATUSES :: "string list" where
  "ACTIVE_STATUSES = [''running'', ''busy'', ''retry'', ''idle'', ''waiting'', ''waiting_approval'', ''waiting_question'']"

definition status_active :: "root_session_row \<Rightarrow> bool" where
  "status_active s = (case sn_status s of None \<Rightarrow> False | Some st \<Rightarrow> st \<in> set ACTIVE_STATUSES)"

definition active_root :: "int \<Rightarrow> root_session_row \<Rightarrow> bool" where
  "active_root uid s =
     (sn_user s = Some uid \<and> status_active s \<and> sn_is_subagent s \<noteq> Some True
      \<and> sn_agent_type s \<notin> {Some ''zcode'', Some ''codex-desktop''} \<and> \<not> starts_with (sn_id s) ''pending-'')"

definition active_count :: "int \<Rightarrow> quota_db \<Rightarrow> nat" where
  "active_count uid db = length (filter (active_root uid) (qd_sessions db))"

definition unsettled :: "reservation_row \<Rightarrow> bool" where
  "unsettled r = (qv_state r \<noteq> RSettled)"

definition counts_reservation :: "int \<Rightarrow> reservation_row \<Rightarrow> bool" where
  "counts_reservation uid r = (qv_user r = uid \<and> qv_resource r = ''concurrent_session'' \<and> unsettled r)"

definition reservation_slot :: "reservation_row \<Rightarrow> string \<times> string option" where
  "reservation_slot r = (case qv_session r of Some s \<Rightarrow> (''session:'' @ s, Some s) | None \<Rightarrow> (''create:'' @ qv_id r, None))"

definition canonical_session :: "admission_row \<Rightarrow> string" where
  "canonical_session a = (case am_canonical a of Some s \<Rightarrow> s | None \<Rightarrow> am_session a)"

definition counts_admission :: "int \<Rightarrow> admission_row \<Rightarrow> bool" where
  "counts_admission uid a = (am_user a = uid \<and> am_state a \<noteq> Completed)"

text \<open>\<open>UNION\<close> keeps one copy of each pair of slot name and session.\<close>

definition slots :: "int \<Rightarrow> quota_db \<Rightarrow> (string \<times> string option) list" where
  "slots uid db =
     remdups (map reservation_slot (filter (counts_reservation uid) (qd_reservations db))
       @ map (\<lambda>a. (''session:'' @ canonical_session a, Some (canonical_session a))) (filter (counts_admission uid) (qd_admissions db)))"

definition slot_is_active :: "int \<Rightarrow> quota_db \<Rightarrow> string \<times> string option \<Rightarrow> bool" where
  "slot_is_active uid db x = list_ex (\<lambda>s. active_root uid s \<and> Some (sn_id s) = snd x) (qd_sessions db)"

definition reservation_count :: "int \<Rightarrow> quota_db \<Rightarrow> nat" where
  "reservation_count uid db = length (filter (\<lambda>x. \<not> slot_is_active uid db x) (slots uid db))"

section \<open>Bindings and their checks\<close>

datatype QuotaSettlementReason = Session_Created | Session_Create_Failed | Session_Active | Reconciled | User_Deleted

fun reason_str :: "QuotaSettlementReason \<Rightarrow> string" where
  "reason_str Session_Created = ''session_created''"
| "reason_str Session_Create_Failed = ''session_create_failed''"
| "reason_str Session_Active = ''session_active''"
| "reason_str Reconciled = ''reconciled''"
| "reason_str User_Deleted = ''user_deleted''"

record QuotaReservationBinding =
  bi_reservationId :: string
  bi_userId :: int
  bi_daemonId :: string
  bi_requestId :: string
  bi_operation :: QuotaOperation
  bi_sessionId :: "string option"

record QuotaTransitionResult =
  matched :: bool
  changed :: bool

datatype quota_error =
    IncompleteBinding
  | ResumeNeedsSession
  | CreatedNeedsSession
  | FailedNeedsUnbound
  | ActiveNeedsResume
  | ClaimNeedsSession
  | BindingMismatch

definition no_str :: "string option \<Rightarrow> bool" where
  "no_str s = (s = None \<or> s = Some [])"

definition assertReservationBinding :: "QuotaReservationBinding \<Rightarrow> QuotaSettlementReason option \<Rightarrow> quota_error option" where
  "assertReservationBinding b reason =
     (if bi_reservationId b = [] \<or> \<not> is_safe_integer (bi_userId b) \<or> bi_userId b \<le> 0 \<or> bi_daemonId b = [] \<or> bi_requestId b = []
      then Some IncompleteBinding
      else if bi_operation b = ResumeOp \<and> no_str (bi_sessionId b) then Some ResumeNeedsSession
      else if reason = Some Session_Created \<and> (bi_operation b \<noteq> CreateOp \<or> no_str (bi_sessionId b)) then Some CreatedNeedsSession
      else if reason = Some Session_Create_Failed \<and> (bi_operation b \<noteq> CreateOp \<or> bi_sessionId b \<noteq> None) then Some FailedNeedsUnbound
      else if reason = Some Session_Active \<and> (bi_operation b \<noteq> ResumeOp \<or> no_str (bi_sessionId b)) then Some ActiveNeedsResume
      else None)"

definition is_unlimited :: "QuotaReservationBinding \<Rightarrow> bool" where
  "is_unlimited b = starts_with (bi_reservationId b) ''unlimited-''"

definition binds :: "QuotaReservationBinding \<Rightarrow> reservation_row \<Rightarrow> bool" where
  "binds b r = (qv_id r = bi_reservationId b \<and> qv_user r = bi_userId b \<and> qv_daemon r = bi_daemonId b
     \<and> qv_request r = bi_requestId b \<and> qv_operation r = bi_operation b)"

definition owned_session :: "quota_db \<Rightarrow> QuotaReservationBinding \<Rightarrow> string \<Rightarrow> int option \<Rightarrow> bool" where
  "owned_session db b sid since =
     list_ex (\<lambda>s. sn_id s = sid \<and> sn_user s = Some (bi_userId b) \<and> sn_daemon s = Some (bi_daemonId b)
        \<and> (case since of None \<Rightarrow> True | Some t \<Rightarrow> t \<le> sn_created_at s)) (qd_sessions db)"

section \<open>Transitions\<close>

text \<open>A common table expression \<open>target\<close> and the update restricted to it.\<close>

definition transition :: "(reservation_row \<Rightarrow> bool) \<Rightarrow> (reservation_row \<Rightarrow> bool) \<Rightarrow> (reservation_row \<Rightarrow> reservation_row)
    \<Rightarrow> quota_db \<Rightarrow> QuotaTransitionResult \<times> quota_db" where
  "transition target due f db =
     (\<lparr>matched = list_ex target (qd_reservations db),
       changed = list_ex (\<lambda>r. target r \<and> due r) (qd_reservations db)\<rparr>,
      db\<lparr>qd_reservations := map (\<lambda>r. if target r \<and> due r then f r else r) (qd_reservations db)\<rparr>)"

definition settle_target :: "quota_db \<Rightarrow> QuotaReservationBinding \<Rightarrow> QuotaSettlementReason \<Rightarrow> reservation_row \<Rightarrow> bool" where
  "settle_target db b reason r =
     (binds b r
      \<and> (case bi_operation b of
           CreateOp \<Rightarrow>
             (case bi_sessionId b of
                None \<Rightarrow> qv_session r = None
              | Some sid \<Rightarrow> (qv_session r = None \<or> qv_session r = Some sid) \<and> owned_session db b sid (Some (qv_created_at r)))
         | ResumeOp \<Rightarrow>
             (case bi_sessionId b of
                None \<Rightarrow> False
              | Some sid \<Rightarrow> qv_session r = Some sid \<and> owned_session db b sid None))
      \<and> (unsettled r \<or> (qv_reason r = Some (reason_str reason) \<and> qv_session r = bi_sessionId b)))"

definition settle_row :: "QuotaReservationBinding \<Rightarrow> QuotaSettlementReason \<Rightarrow> int \<Rightarrow> reservation_row \<Rightarrow> reservation_row" where
  "settle_row b reason now r =
     r\<lparr>qv_state := RSettled, qv_session := (case qv_session r of None \<Rightarrow> bi_sessionId b | Some s \<Rightarrow> Some s),
       qv_settled_at := Some now, qv_reason := Some (reason_str reason)\<rparr>"

definition settleQuotaReservation :: "QuotaReservationBinding \<Rightarrow> QuotaSettlementReason \<Rightarrow> int \<Rightarrow> quota_db
    \<Rightarrow> (quota_error + QuotaTransitionResult) \<times> quota_db" where
  "settleQuotaReservation b reason now db =
     (case assertReservationBinding b (Some reason) of
        Some e \<Rightarrow> (Inl e, db)
      | None \<Rightarrow>
          if is_unlimited b then (Inr \<lparr>matched = True, changed = False\<rparr>, db)
          else (case transition (settle_target db b reason) unsettled (settle_row b reason now) db of
                  (r, db1) \<Rightarrow> (Inr r, db1)))"

definition claim_target :: "QuotaReservationBinding \<Rightarrow> string \<Rightarrow> reservation_row \<Rightarrow> bool" where
  "claim_target b sid r =
     (qv_id r = bi_reservationId b \<and> qv_user r = bi_userId b \<and> qv_daemon r = bi_daemonId b
      \<and> qv_request r = bi_requestId b \<and> qv_operation r = CreateOp
      \<and> ((unsettled r \<and> (qv_session r = None \<or> qv_session r = Some sid))
         \<or> (qv_state r = RSettled \<and> qv_session r = Some sid \<and> qv_reason r = Some ''session_created'')))"

definition claimQuotaReservationSession :: "QuotaReservationBinding \<Rightarrow> quota_db \<Rightarrow> (quota_error + QuotaTransitionResult) \<times> quota_db" where
  "claimQuotaReservationSession b db =
     (case assertReservationBinding b None of
        Some e \<Rightarrow> (Inl e, db)
      | None \<Rightarrow>
          if bi_operation b \<noteq> CreateOp \<or> no_str (bi_sessionId b) then (Inl ClaimNeedsSession, db)
          else if is_unlimited b then (Inr \<lparr>matched = True, changed = False\<rparr>, db)
          else (case transition (claim_target b (the (bi_sessionId b))) (\<lambda>r. qv_session r = None)
                       (\<lambda>r. r\<lparr>qv_session := bi_sessionId b\<rparr>) db of
                  (r, db1) \<Rightarrow> (Inr r, db1)))"

definition uncertain_target :: "QuotaReservationBinding \<Rightarrow> reservation_row \<Rightarrow> bool" where
  "uncertain_target b r =
     (binds b r
      \<and> (case bi_operation b of
           CreateOp \<Rightarrow> qv_session r = None
         | ResumeOp \<Rightarrow> qv_session r \<noteq> None \<and> qv_session r = bi_sessionId b)
      \<and> unsettled r)"

definition markQuotaReservationUncertain :: "QuotaReservationBinding \<Rightarrow> string \<Rightarrow> quota_db
    \<Rightarrow> (quota_error + QuotaTransitionResult) \<times> quota_db" where
  "markQuotaReservationUncertain b why db =
     (case assertReservationBinding b None of
        Some e \<Rightarrow> (Inl e, db)
      | None \<Rightarrow>
          if is_unlimited b then (Inr \<lparr>matched = True, changed = False\<rparr>, db)
          else (case transition (uncertain_target b) (\<lambda>r. qv_state r = RPending)
                       (\<lambda>r. r\<lparr>qv_state := RUncertain, qv_reason := Some why\<rparr>) db of
                  (r, db1) \<Rightarrow> (Inr r, db1)))"

record RecoveredQuotaReservation =
  rq_binding :: QuotaReservationBinding
  rq_agentType :: "string option"
  rq_cwd :: "string option"
  rq_hostname :: string

text \<open>\<open>expected\<close> is a binding whose reservation id is not read.\<close>

definition recoverQuotaReservation :: "QuotaReservationBinding \<Rightarrow> QuotaSettlementReason \<Rightarrow> quota_db
    \<Rightarrow> quota_error + RecoveredQuotaReservation option" where
  "recoverQuotaReservation expected reason db =
     (if \<not> is_safe_integer (bi_userId expected) \<or> bi_userId expected \<le> 0 \<or> bi_daemonId expected = [] \<or> bi_requestId expected = []
      then Inr None
      else if bi_operation expected = ResumeOp \<and> no_str (bi_sessionId expected) then Inr None
      else (case List.find (\<lambda>r. qv_user r = bi_userId expected \<and> qv_request r = bi_requestId expected) (qd_reservations db) of
              None \<Rightarrow> Inr None
            | Some row \<Rightarrow>
                (let sessionMatches =
                       (if bi_operation expected = ResumeOp then qv_session row = bi_sessionId expected
                        else if bi_sessionId expected = None then qv_session row = None
                        else qv_session row = None \<or> qv_session row = bi_sessionId expected);
                     idempotentSettlement = (qv_state row = RSettled \<and> qv_reason row = Some (reason_str reason)
                        \<and> qv_session row = bi_sessionId expected);
                     host = List.find (\<lambda>d. dm_id d = qv_daemon row \<and> dm_user d = Some (qv_user row)) (qd_daemons db)
                 in if qv_resource row \<noteq> ''concurrent_session'' \<or> qv_operation row \<noteq> bi_operation expected
                      \<or> qv_daemon row \<noteq> bi_daemonId expected \<or> \<not> sessionMatches \<or> (\<not> unsettled row \<and> \<not> idempotentSettlement)
                    then Inl BindingMismatch
                    else Inr (Some \<lparr>rq_binding = expected\<lparr>bi_reservationId := qv_id row\<rparr>, rq_agentType = qv_agent_type row,
                                    rq_cwd = qv_cwd row,
                                    rq_hostname = (case host of None \<Rightarrow> ''unknown''
                                      | Some d \<Rightarrow> if no_str (dm_hostname d) then ''unknown'' else the (dm_hostname d))\<rparr>))))"

section \<open>Bound hosts\<close>

definition is_hex :: "char \<Rightarrow> bool" where
  "is_hex c = (is_digit c \<or> c \<in> {CHR ''a'', CHR ''b'', CHR ''c'', CHR ''d'', CHR ''e'', CHR ''f''})"

definition isStableMachineID :: "string option \<Rightarrow> bool" where
  "isStableMachineID m =
     (case m of
        None \<Rightarrow> False
      | Some s \<Rightarrow>
          (starts_with s ''machine-'' \<and> length s = 40 \<and> list_all is_hex (drop 8 s))
          \<or> (starts_with s ''daemon-'' \<and> length s = 15 \<and> list_all is_hex (drop 7 s)))"

definition countBoundDaemonsLocked :: "int \<Rightarrow> quota_db \<Rightarrow> nat" where
  "countBoundDaemonsLocked uid db = length (filter (\<lambda>d. dm_user d = Some uid) (qd_daemons db))"

datatype BoundDaemonDecision =
    HostAllowed bool nat
  | HostQuotaExceeded nat
  | DaemonOwnedByOther
  | MachineAlreadyOnline

definition same_machine :: "int \<Rightarrow> string \<Rightarrow> string \<Rightarrow> daemon_row \<Rightarrow> bool" where
  "same_machine uid daemonId machineId d =
     (dm_user d = Some uid \<and> dm_id d \<noteq> daemonId
      \<and> (dm_machine d = Some machineId
         \<or> (dm_machine d \<in> {None, Some [], Some ''unknown''} \<and> dm_id d = machineId)))"

definition claimBoundDaemonSlot :: "int \<Rightarrow> string \<Rightarrow> string option \<Rightarrow> int option \<Rightarrow> quota_db \<Rightarrow> BoundDaemonDecision \<times> quota_db" where
  "claimBoundDaemonSlot uid daemonId machineId lim db =
     (let existing = List.find (\<lambda>d. dm_id d = daemonId) (qd_daemons db);
          owner = (case existing of None \<Rightarrow> None | Some d \<Rightarrow> dm_user d)
      in if owner \<noteq> None \<and> owner \<noteq> Some uid then (DaemonOwnedByOther, db)
         else
           (let reconnect = (owner = Some uid);
                rows = (if \<not> reconnect \<and> isStableMachineID machineId
                        then filter (same_machine uid daemonId (the machineId)) (qd_daemons db) else []);
                replacesOffline = list_ex (\<lambda>d. dm_status d = ''offline'') rows;
                used = countBoundDaemonsLocked uid db
            in if list_ex (\<lambda>d. dm_status d = ''online'') rows then (MachineAlreadyOnline, db)
               else if \<not> reconnect \<and> \<not> replacesOffline \<and> lim \<noteq> None \<and> the lim \<le> int used then (HostQuotaExceeded used, db)
               else (HostAllowed reconnect (if reconnect \<or> replacesOffline then used else used + 1),
                     if reconnect \<or> existing \<noteq> None then db
                     else db\<lparr>qd_daemons := qd_daemons db @
                       [\<lparr>dm_id = daemonId, dm_user = Some uid, dm_machine = (if isStableMachineID machineId then machineId else None),
                         dm_status = ''offline'', dm_hostname = None\<rparr>]\<rparr>)))"

section \<open>Reservations\<close>

record ReserveInput =
  ri_userId :: int
  ri_requestId :: string
  ri_operation :: QuotaOperation
  ri_daemonId :: string
  ri_sessionId :: "string option"
  ri_limit :: "int option"
  ri_now :: int
  ri_ttlMs :: int
  ri_agentType :: "string option"
  ri_cwd :: "string option"
  ri_commandHash :: "string option"
  ri_projectId :: "string option"

datatype QuotaDecision =
    Allowed "string" int bool
  | QuotaExceeded nat nat int
  | BindingConflict
  | AlreadyFinalized

definition purge_settled :: "int \<Rightarrow> int \<Rightarrow> quota_db \<Rightarrow> quota_db" where
  "purge_settled uid now db =
     db\<lparr>qd_reservations := filter (\<lambda>r. \<not> (qv_user r = uid \<and> qv_state r = RSettled
          \<and> (case qv_settled_at r of None \<Rightarrow> False | Some t \<Rightarrow> t \<le> now - 24 * 3600000))) (qd_reservations db)\<rparr>"

definition same_binding :: "ReserveInput \<Rightarrow> reservation_row \<Rightarrow> bool" where
  "same_binding inp row =
     (qv_operation row = ri_operation inp \<and> qv_daemon row = ri_daemonId inp
      \<and> ((ri_operation inp = CreateOp \<and> no_str (ri_sessionId inp)) \<or> qv_session row = ri_sessionId inp)
      \<and> qv_command_hash row = ri_commandHash inp \<and> qv_project row = ri_projectId inp)"

text \<open>\<open>input.agentType?.slice(0, 64) || null\<close>.\<close>

definition short_agent_type :: "string option \<Rightarrow> string option" where
  "short_agent_type a = (case a of None \<Rightarrow> None | Some s \<Rightarrow> if s = [] then None else Some (take 64 s))"

definition coalesce :: "'a option \<Rightarrow> 'a option \<Rightarrow> 'a option" where
  "coalesce a b = (case a of None \<Rightarrow> b | Some x \<Rightarrow> Some x)"

definition backfill :: "ReserveInput \<Rightarrow> quota_db \<Rightarrow> quota_db" where
  "backfill inp db =
     db\<lparr>qd_reservations := map (\<lambda>r. if qv_user r = ri_userId inp \<and> qv_request r = ri_requestId inp
          then r\<lparr>qv_agent_type := coalesce (qv_agent_type r) (short_agent_type (ri_agentType inp)),
                 qv_cwd := coalesce (qv_cwd r) (ri_cwd inp)\<rparr> else r) (qd_reservations db)\<rparr>"

text \<open>Whether the resumed session holds a slot already.\<close>

definition slot_held :: "ReserveInput \<Rightarrow> quota_db \<Rightarrow> bool" where
  "slot_held inp db =
     (ri_operation inp = ResumeOp \<and> \<not> no_str (ri_sessionId inp)
      \<and> (list_ex (\<lambda>r. counts_reservation (ri_userId inp) r \<and> qv_session r = ri_sessionId inp) (qd_reservations db)
         \<or> list_ex (\<lambda>a. counts_admission (ri_userId inp) a \<and> Some (canonical_session a) = ri_sessionId inp) (qd_admissions db)
         \<or> list_ex (\<lambda>s. sn_user s = Some (ri_userId inp) \<and> status_active s \<and> Some (sn_id s) = ri_sessionId inp) (qd_sessions db)))"

definition new_reservation :: "string \<Rightarrow> ReserveInput \<Rightarrow> reservation_row" where
  "new_reservation uuid inp =
     \<lparr>qv_id = uuid, qv_user = ri_userId inp, qv_resource = ''concurrent_session'', qv_operation = ri_operation inp,
      qv_daemon = ri_daemonId inp, qv_session = (if no_str (ri_sessionId inp) then None else ri_sessionId inp),
      qv_request = ri_requestId inp, qv_expires_at = ri_now inp + ri_ttlMs inp, qv_created_at = ri_now inp,
      qv_state = RPending, qv_settled_at = None, qv_reason = None,
      qv_agent_type = short_agent_type (ri_agentType inp), qv_cwd = ri_cwd inp,
      qv_command_hash = ri_commandHash inp, qv_project = ri_projectId inp\<rparr>"

definition over_limit :: "ReserveInput \<Rightarrow> quota_db \<Rightarrow> bool" where
  "over_limit inp db =
     (case ri_limit inp of
        None \<Rightarrow> False
      | Some l \<Rightarrow> \<not> slot_held inp db \<and> l \<le> int (active_count (ri_userId inp) db) + int (reservation_count (ri_userId inp) db))"

definition reserveConcurrentSession :: "string \<Rightarrow> ReserveInput \<Rightarrow> quota_db \<Rightarrow> (quota_error + QuotaDecision) \<times> quota_db" where
  "reserveConcurrentSession uuid inp db0 =
     (if \<not> is_safe_integer (ri_userId inp) \<or> ri_userId inp \<le> 0 \<or> ri_requestId inp = [] \<or> ri_daemonId inp = []
      then (Inl IncompleteBinding, db0)
      else if ri_operation inp = ResumeOp \<and> no_str (ri_sessionId inp) then (Inl ResumeNeedsSession, db0)
      else
        (let db = purge_settled (ri_userId inp) (ri_now inp) db0 in
         if list_ex (\<lambda>a. am_user a = ri_userId inp \<and> am_request a = ri_requestId inp) (qd_admissions db) then (Inr BindingConflict, db)
         else (case List.find (\<lambda>r. qv_user r = ri_userId inp \<and> qv_request r = ri_requestId inp) (qd_reservations db) of
                 Some row \<Rightarrow>
                   (let db1 = (if same_binding inp row \<and> unsettled row \<and> ri_operation inp = CreateOp then backfill inp db else db)
                    in if \<not> same_binding inp row then (Inr BindingConflict, db1)
                       else if \<not> unsettled row then (Inr AlreadyFinalized, db1)
                       else (Inr (Allowed (qv_id row) (qv_expires_at row) True), db1))
               | None \<Rightarrow>
                   if over_limit inp db
                   then (Inr (QuotaExceeded (active_count (ri_userId inp) db) (reservation_count (ri_userId inp) db) (the (ri_limit inp))), db)
                   else (Inr (Allowed uuid (ri_now inp + ri_ttlMs inp) False),
                         db\<lparr>qd_reservations := qd_reservations db @ [new_reservation uuid inp]\<rparr>))))"

section \<open>Snapshots\<close>

record QuotaResource =
  qr_used :: nat
  qr_reserved :: nat
  qr_limit :: "int option"
  qr_over_limit :: bool

definition getQuotaSnapshot :: "int \<Rightarrow> int option \<Rightarrow> int option \<Rightarrow> quota_db \<Rightarrow> QuotaResource \<times> QuotaResource" where
  "getQuotaSnapshot uid hostLimit sessionLimit db =
     (let hostUsed = countBoundDaemonsLocked uid db;
          sessionUsed = active_count uid db;
          reserved = reservation_count uid db
      in (\<lparr>qr_used = hostUsed, qr_reserved = 0, qr_limit = hostLimit,
           qr_over_limit = (case hostLimit of None \<Rightarrow> False | Some l \<Rightarrow> l < int hostUsed)\<rparr>,
          \<lparr>qr_used = sessionUsed, qr_reserved = reserved, qr_limit = sessionLimit,
           qr_over_limit = (case sessionLimit of None \<Rightarrow> False | Some l \<Rightarrow> l < int sessionUsed + int reserved)\<rparr>))"

end
