(* ===== verification/Quota_Correct.thy ===== *)
theory Quota_Correct
  imports Quota
begin

text \<open>
  The quota keeps its budget: a grant never takes an account beyond its limit, and what was granted
  leaves the budget only through an explicit settlement of its own binding.
\<close>

section \<open>Slots\<close>

definition slot_set :: "int \<Rightarrow> quota_db \<Rightarrow> (string \<times> string option) set" where
  "slot_set uid db = reservation_slot ` {r \<in> set (qd_reservations db). counts_reservation uid r}
     \<union> (\<lambda>a. (''session:'' @ canonical_session a, Some (canonical_session a))) ` {a \<in> set (qd_admissions db). counts_admission uid a}"

lemma reservation_count_card:
  "reservation_count uid db = card {x \<in> slot_set uid db. \<not> slot_is_active uid db x}"
proof -
  have "set (slots uid db) = slot_set uid db" by (auto simp: slots_def slot_set_def)
  moreover have "distinct (filter (\<lambda>x. \<not> slot_is_active uid db x) (slots uid db))" by (simp add: slots_def)
  ultimately show ?thesis
    unfolding reservation_count_def by (metis (no_types, lifting) Collect_cong distinct_card set_filter)
qed

lemma finite_slots [simp]: "finite (slot_set uid db)"
  by (simp add: slot_set_def)

lemma slot_set_purge [simp]: "slot_set uid (purge_settled u now db) = slot_set uid db"
  by (auto simp: slot_set_def purge_settled_def counts_reservation_def unsettled_def)

lemma purge_fields [simp]:
  "qd_sessions (purge_settled u now db) = qd_sessions db" "qd_admissions (purge_settled u now db) = qd_admissions db"
  by (simp_all add: purge_settled_def)

lemma counts_purge [simp]:
  "active_count uid (purge_settled u now db) = active_count uid db"
  "slot_is_active uid (purge_settled u now db) x = slot_is_active uid db x"
  "reservation_count uid (purge_settled u now db) = reservation_count uid db"
  by (simp_all add: active_count_def slot_is_active_def reservation_count_card)

text \<open>The budget an account uses: its active root sessions and its open slots.\<close>

definition occupied :: "int \<Rightarrow> quota_db \<Rightarrow> int" where
  "occupied uid db = int (active_count uid db) + int (reservation_count uid db)"

lemma occupied_grant:
  fixes db :: quota_db
  assumes "counts_reservation uid r"
  defines "db' \<equiv> db\<lparr>qd_reservations := qd_reservations db @ [r]\<rparr>"
  shows "occupied uid db' \<le> occupied uid db + 1"
    and "reservation_slot r \<in> slot_set uid db \<or> slot_is_active uid db (reservation_slot r) \<Longrightarrow> occupied uid db' = occupied uid db"
proof -
  have s: "slot_set uid db' = insert (reservation_slot r) (slot_set uid db)"
    using assms(1) by (auto simp: slot_set_def db'_def)
  have a: "slot_is_active uid db' = slot_is_active uid db" "active_count uid db' = active_count uid db"
    by (auto simp: slot_is_active_def active_count_def db'_def fun_eq_iff)
  let ?A = "{x \<in> slot_set uid db. \<not> slot_is_active uid db x}"
  have "{x \<in> slot_set uid db'. \<not> slot_is_active uid db' x} \<subseteq> insert (reservation_slot r) ?A" by (auto simp: s a)
  then have "card {x \<in> slot_set uid db'. \<not> slot_is_active uid db' x} \<le> card (insert (reservation_slot r) ?A)"
    by (intro card_mono) auto
  also have "\<dots> \<le> card ?A + 1" by (simp add: card_insert_if)
  finally show "occupied uid db' \<le> occupied uid db + 1" by (simp add: occupied_def reservation_count_card a)
  assume "reservation_slot r \<in> slot_set uid db \<or> slot_is_active uid db (reservation_slot r)"
  then have "{x \<in> slot_set uid db'. \<not> slot_is_active uid db' x} = ?A" by (auto simp: s a)
  then show "occupied uid db' = occupied uid db" by (simp add: occupied_def reservation_count_card a)
qed

lemma new_reservation_counts: "counts_reservation (ri_userId inp) (new_reservation uuid inp)"
  by (simp add: counts_reservation_def new_reservation_def unsettled_def)

text \<open>
  A resumed session counts as a slot already held when it has an open reservation or admission, or
  when it runs. A running session is in the budget only if it is a root session.
\<close>

definition root_resume :: "ReserveInput \<Rightarrow> quota_db \<Rightarrow> bool" where
  "root_resume inp db \<longleftrightarrow> (\<forall>s \<in> set (qd_sessions db).
     sn_user s = Some (ri_userId inp) \<and> status_active s \<and> Some (sn_id s) = ri_sessionId inp \<longrightarrow> active_root (ri_userId inp) s)"

lemma held_slot_counted:
  assumes "slot_held inp db" and "root_resume inp db"
  shows "reservation_slot (new_reservation uuid inp) \<in> slot_set (ri_userId inp) db
    \<or> slot_is_active (ri_userId inp) db (reservation_slot (new_reservation uuid inp))"
proof -
  obtain sid where sid: "ri_sessionId inp = Some sid" "sid \<noteq> []"
    using assms(1) by (auto simp: slot_held_def no_str_def)
  have slot: "reservation_slot (new_reservation uuid inp) = (''session:'' @ sid, Some sid)"
    using sid by (simp add: reservation_slot_def new_reservation_def no_str_def)
  from assms(1) consider
      r where "r \<in> set (qd_reservations db)" "counts_reservation (ri_userId inp) r" "qv_session r = Some sid"
    | a where "a \<in> set (qd_admissions db)" "counts_admission (ri_userId inp) a" "canonical_session a = sid"
    | s where "s \<in> set (qd_sessions db)" "sn_user s = Some (ri_userId inp)" "status_active s" "sn_id s = sid"
    using sid by (auto simp: slot_held_def list_ex_iff)
  then show ?thesis
  proof cases
    case (1 r)
    then have "reservation_slot r = (''session:'' @ sid, Some sid)" by (simp add: reservation_slot_def)
    then show ?thesis using 1 slot by (auto simp: slot_set_def intro!: rev_image_eqI[of r])
  next
    case (2 a)
    then show ?thesis using slot by (auto simp: slot_set_def intro!: rev_image_eqI[of a])
  next
    case (3 s)
    then have "active_root (ri_userId inp) s" using assms(2) sid by (auto simp: root_resume_def)
    then show ?thesis using 3 slot by (auto simp: slot_is_active_def list_ex_iff)
  qed
qed

lemma root_resume_purge [simp]: "root_resume inp (purge_settled u now db) = root_resume inp db"
  by (simp add: root_resume_def)

lemma occupied_purge [simp]: "occupied uid (purge_settled u now db) = occupied uid db"
  by (simp add: occupied_def)

lemma unsettled_map_same:
  assumes "\<And>r. qv_user (f r) = qv_user r \<and> qv_resource (f r) = qv_resource r \<and> qv_state (f r) = qv_state r
      \<and> qv_session (f r) = qv_session r \<and> qv_id (f r) = qv_id r"
  shows "occupied uid (db\<lparr>qd_reservations := map f (qd_reservations db)\<rparr>) = occupied uid db"
proof -
  have c: "counts_reservation uid (f r) = counts_reservation uid r" "reservation_slot (f r) = reservation_slot r" for r
    using assms[of r] by (auto simp: counts_reservation_def unsettled_def reservation_slot_def split: option.splits)
  have "{r \<in> f ` set (qd_reservations db). counts_reservation uid r} = f ` {r \<in> set (qd_reservations db). counts_reservation uid r}"
    using c by auto
  then have "slot_set uid (db\<lparr>qd_reservations := map f (qd_reservations db)\<rparr>) = slot_set uid db"
    by (simp add: slot_set_def image_image c)
  then show ?thesis by (simp add: occupied_def reservation_count_card active_count_def slot_is_active_def)
qed

lemma occupied_backfill: "occupied uid (backfill inp db) = occupied uid db"
  unfolding backfill_def by (rule unsettled_map_same) simp

lemma reserve_budget:
  assumes "reserveConcurrentSession uuid inp db = (r, db')" and "ri_limit inp = Some l" and "root_resume inp db"
  shows "occupied (ri_userId inp) db' \<le> max l (occupied (ri_userId inp) db)"
proof -
  let ?u = "ri_userId inp" and ?db = "purge_settled (ri_userId inp) (ri_now inp) db"
  consider (same) "occupied ?u db' = occupied ?u db"
    | (grant) "db' = ?db\<lparr>qd_reservations := qd_reservations ?db @ [new_reservation uuid inp]\<rparr>" "\<not> over_limit inp ?db"
    using assms(1)
    by (auto simp: reserveConcurrentSession_def Let_def occupied_backfill split: if_splits option.splits)
  then show ?thesis
  proof cases
    case same
    then show ?thesis by simp
  next
    case grant
    note g = occupied_grant[OF new_reservation_counts, where db = ?db and inp1 = inp and uuid1 = uuid]
    show ?thesis
    proof (cases "slot_held inp ?db")
      case True
      then have "occupied ?u db' = occupied ?u ?db"
        using g(2) held_slot_counted[OF True] assms(3) grant(1) by simp
      then show ?thesis by simp
    next
      case False
      then have "occupied ?u ?db < l" using grant(2) assms(2) by (simp add: over_limit_def occupied_def)
      then show ?thesis using g(1) grant(1) by simp
    qed
  qed
qed

section \<open>Settlement\<close>

inductive quota_step :: "quota_db \<Rightarrow> quota_db \<Rightarrow> bool" where
  reserve_step: "reserveConcurrentSession uuid inp db = (r, db') \<Longrightarrow> quota_step db db'"
| claim_session_step: "claimQuotaReservationSession b db = (r, db') \<Longrightarrow> quota_step db db'"
| uncertain_step: "markQuotaReservationUncertain b why db = (r, db') \<Longrightarrow> quota_step db db'"
| host_step: "claimBoundDaemonSlot uid d m lim db = (r, db') \<Longrightarrow> quota_step db db'"

text \<open>The accounting identity of a reservation, which only a settlement may change.\<close>

definition open_grant :: "quota_db \<Rightarrow> string \<times> int \<times> string \<times> string \<times> QuotaOperation \<Rightarrow> bool" where
  "open_grant db k \<longleftrightarrow> (\<exists>r \<in> set (qd_reservations db). unsettled r
     \<and> (qv_id r, qv_user r, qv_daemon r, qv_request r, qv_operation r) = k)"

definition binding_key :: "QuotaReservationBinding \<Rightarrow> string \<times> int \<times> string \<times> string \<times> QuotaOperation" where
  "binding_key b = (bi_reservationId b, bi_userId b, bi_daemonId b, bi_requestId b, bi_operation b)"

lemma open_grant_map:
  assumes "\<And>r. r \<in> set (qd_reservations db) \<Longrightarrow> unsettled r \<Longrightarrow> unsettled (f r) \<and> qv_id (f r) = qv_id r \<and> qv_user (f r) = qv_user r
      \<and> qv_daemon (f r) = qv_daemon r \<and> qv_request (f r) = qv_request r \<and> qv_operation (f r) = qv_operation r"
    and "open_grant db k"
  shows "open_grant (db\<lparr>qd_reservations := map f (qd_reservations db)\<rparr>) k"
  using assms by (fastforce simp: open_grant_def)

lemma open_grant_cong: "qd_reservations db' = qd_reservations db \<Longrightarrow> open_grant db' k = open_grant db k"
  by (simp add: open_grant_def)

lemma open_grant_purge: "open_grant db k \<Longrightarrow> open_grant (purge_settled u now db) k"
  by (auto simp: open_grant_def purge_settled_def unsettled_def)

lemma open_grant_backfill: "open_grant db k \<Longrightarrow> open_grant (backfill inp db) k"
  unfolding backfill_def by (rule open_grant_map) (auto simp: unsettled_def)

lemma open_grant_append: "open_grant db k \<Longrightarrow> open_grant (db\<lparr>qd_reservations := qd_reservations db @ xs\<rparr>) k"
  by (auto simp: open_grant_def)

lemma open_grant_transition:
  assumes "\<And>r. unsettled r \<Longrightarrow> unsettled (f r) \<and> qv_id (f r) = qv_id r \<and> qv_user (f r) = qv_user r
      \<and> qv_daemon (f r) = qv_daemon r \<and> qv_request (f r) = qv_request r \<and> qv_operation (f r) = qv_operation r"
    and "open_grant db k"
  shows "open_grant (snd (transition target due f db)) k"
  unfolding transition_def snd_conv by (rule open_grant_map) (use assms in auto)

text \<open>The states each transition can leave behind.\<close>

lemma claim_session_cases:
  "claimQuotaReservationSession b db = (r, db') \<Longrightarrow> db' = db \<or> db' = snd (transition (claim_target b (the (bi_sessionId b))) (\<lambda>r. qv_session r = None) (\<lambda>r. r\<lparr>qv_session := bi_sessionId b\<rparr>) db)"
  by (auto simp: claimQuotaReservationSession_def split: option.splits if_splits prod.splits)

lemma uncertain_cases:
  "markQuotaReservationUncertain b why db = (r, db') \<Longrightarrow> db' = db \<or> db' = snd (transition (uncertain_target b) (\<lambda>r. qv_state r = RPending) (\<lambda>r. r\<lparr>qv_state := RUncertain, qv_reason := Some why\<rparr>) db)"
  by (auto simp: markQuotaReservationUncertain_def split: option.splits if_splits prod.splits)

lemma settle_cases:
  "settleQuotaReservation b reason now db = (r, db') \<Longrightarrow> db' = db \<or> db' = snd (transition (settle_target db b reason) unsettled (settle_row b reason now) db)"
  by (auto simp: settleQuotaReservation_def split: option.splits if_splits prod.splits)

lemma quota_step_keeps_grant:
  assumes "quota_step db db'" and "open_grant db k" shows "open_grant db' k"
  using assms
proof (induction rule: quota_step.induct)
  case (reserve_step uuid inp db r db')
  let ?db = "purge_settled (ri_userId inp) (ri_now inp) db"
  have "db' \<in> {db, ?db, backfill inp ?db, ?db\<lparr>qd_reservations := qd_reservations ?db @ [new_reservation uuid inp]\<rparr>}"
    using reserve_step(1) by (auto simp: reserveConcurrentSession_def Let_def split: if_splits option.splits)
  moreover have p: "open_grant ?db k" by (rule open_grant_purge[OF reserve_step(2)])
  moreover have "open_grant (backfill inp ?db) k" by (rule open_grant_backfill[OF p])
  moreover have "open_grant (?db\<lparr>qd_reservations := qd_reservations ?db @ [new_reservation uuid inp]\<rparr>) k"
    by (rule open_grant_append[OF p])
  ultimately show ?case using reserve_step(2) by blast
next
  case (claim_session_step b db r db')
  then show ?case using claim_session_cases[OF claim_session_step(1)] open_grant_transition[of "\<lambda>r. r\<lparr>qv_session := bi_sessionId b\<rparr>" db k]
    by (auto simp: unsettled_def)
next
  case (uncertain_step b why db r db')
  then show ?case using uncertain_cases[OF uncertain_step(1)]
      open_grant_transition[of "\<lambda>r. r\<lparr>qv_state := RUncertain, qv_reason := Some why\<rparr>" db k]
    by (auto simp: unsettled_def)
next
  case (host_step uid d m lim db r db')
  have "qd_reservations db' = qd_reservations db"
    using host_step(1) by (auto simp: claimBoundDaemonSlot_def Let_def split: if_splits)
  then show ?case using host_step(2) open_grant_cong by blast
qed

lemma settle_only_own:
  assumes "settleQuotaReservation b reason now db = (r, db')" and "open_grant db k" and "k \<noteq> binding_key b"
  shows "open_grant db' k"
proof -
  note settle_cases[OF assms(1)]
  moreover have "open_grant (snd (transition (settle_target db b reason) unsettled (settle_row b reason now) db)) k"
  proof -
    obtain r where r: "r \<in> set (qd_reservations db)" "unsettled r"
      "(qv_id r, qv_user r, qv_daemon r, qv_request r, qv_operation r) = k" using assms(2) by (auto simp: open_grant_def)
    have "\<not> settle_target db b reason r" using r(3) assms(3) by (auto simp: settle_target_def binds_def binding_key_def)
    then have "r \<in> set (qd_reservations (snd (transition (settle_target db b reason) unsettled (settle_row b reason now) db)))"
      using r(1) by (auto simp: transition_def intro!: rev_image_eqI[of r])
    then show ?thesis using r by (auto simp: open_grant_def)
  qed
  ultimately show ?thesis using assms(2) by blast
qed

lemma settle_idempotent:
  assumes ids: "distinct (map qv_id (qd_reservations db))"
    and first: "settleQuotaReservation b reason now db = (Inr r, db1)" "matched r"
  shows "settleQuotaReservation b reason now' db1 = (Inr \<lparr>matched = True, changed = False\<rparr>, db1)"
proof (cases "is_unlimited b")
  case True
  then show ?thesis using first by (auto simp: settleQuotaReservation_def split: option.splits)
next
  case False
  have ok: "assertReservationBinding b (Some reason) = None"
    using first(1) by (auto simp: settleQuotaReservation_def split: option.splits)
  let ?T = "settle_target db b reason" and ?f = "settle_row b reason now"
  have tr: "transition ?T unsettled ?f db = (r, db1)"
    using first(1) False ok by (auto simp: settleQuotaReservation_def split: prod.splits)
  have rows: "qd_reservations db1 = map (\<lambda>x. if ?T x \<and> unsettled x then ?f x else x) (qd_reservations db)"
    and sess: "qd_sessions db1 = qd_sessions db" using tr by (auto simp: transition_def)
  have own: "owned_session db1 b = owned_session db b" by (auto simp: owned_session_def sess fun_eq_iff)
  obtain x where x: "x \<in> set (qd_reservations db)" "?T x" using tr first(2) by (auto simp: transition_def list_ex_iff)
  have id: "qv_id y = bi_reservationId b" if "settle_target d b reason y" for d y
    using that by (simp add: settle_target_def binds_def)
  have settled: "\<not> unsettled y" if mem: "y \<in> set (qd_reservations db1)" and tgt: "settle_target db1 b reason y" for y
  proof -
    obtain z where z: "z \<in> set (qd_reservations db)" "y = (if ?T z \<and> unsettled z then ?f z else z)" using mem rows by auto
    have "qv_id z = qv_id x" using id[OF tgt] id[OF x(2)] z(2) by (auto simp: settle_row_def split: if_splits)
    then have "z = x" using ids z(1) x(1) by (auto simp: distinct_map inj_on_def)
    then show ?thesis using z(2) x(2) by (auto simp: unsettled_def settle_row_def split: if_splits)
  qed
  let ?y = "if unsettled x then ?f x else x"
  have y: "?y \<in> set (qd_reservations db1)" using x rows by (auto intro!: rev_image_eqI[of x])
  have "settle_target db1 b reason ?y"
    using x(2) by (auto simp: settle_target_def settle_row_def binds_def own unsettled_def split: option.splits QuotaOperation.splits if_splits)
  then have hit: "list_ex (settle_target db1 b reason) (qd_reservations db1)" using y by (auto simp: list_ex_iff)
  have none: "\<not> list_ex (\<lambda>y. settle_target db1 b reason y \<and> unsettled y) (qd_reservations db1)"
    using settled by (auto simp: list_ex_iff)
  have "map (\<lambda>y. if settle_target db1 b reason y \<and> unsettled y then settle_row b reason now' y else y) (qd_reservations db1) = qd_reservations db1"
    using settled by (intro map_idI) auto
  then have "transition (settle_target db1 b reason) unsettled (settle_row b reason now') db1 = (\<lparr>matched = True, changed = False\<rparr>, db1)"
    using hit none by (simp add: transition_def)
  then show ?thesis using ok False by (simp add: settleQuotaReservation_def)
qed

section \<open>Properties\<close>

text \<open>
  C19. Granting never breaks the concurrent-session budget. Whatever a reservation request asks for,
  afterwards the account's active root sessions and open slots together are at most its limit, or
  no more than they already were; resuming a session that already holds a slot costs nothing. The
  hypothesis excludes one case: a running session that is not a root session.
\<close>

theorem reservation_respects_session_limit:
  assumes "reserveConcurrentSession uuid inp db = (r, db')" and "ri_limit inp = Some l" and "root_resume inp db"
  shows "int (active_count (ri_userId inp) db') + int (reservation_count (ri_userId inp) db')
    \<le> max l (int (active_count (ri_userId inp) db) + int (reservation_count (ri_userId inp) db))"
  using reserve_budget[OF assms] by (simp add: occupied_def)

definition sample_reserve :: ReserveInput where
  "sample_reserve = \<lparr>ri_userId = 1, ri_requestId = ''q1'', ri_operation = CreateOp, ri_daemonId = ''d'', ri_sessionId = None,
     ri_limit = Some 1, ri_now = 0, ri_ttlMs = 20000, ri_agentType = None, ri_cwd = None, ri_commandHash = None, ri_projectId = None\<rparr>"

definition empty_quota_db :: quota_db where
  "empty_quota_db = \<lparr>qd_reservations = [], qd_admissions = [], qd_sessions = [], qd_daemons = [], qd_deleted_sessions = []\<rparr>"

theorem reservation_respects_session_limit_witness:
  "int (active_count 1 (snd (reserveConcurrentSession ''r'' sample_reserve empty_quota_db)))
   + int (reservation_count 1 (snd (reserveConcurrentSession ''r'' sample_reserve empty_quota_db))) \<le> 1"
proof -
  have "root_resume sample_reserve empty_quota_db" by (simp add: root_resume_def empty_quota_db_def)
  moreover have "ri_limit sample_reserve = Some 1" "ri_userId sample_reserve = 1" by (simp_all add: sample_reserve_def)
  moreover have "active_count 1 empty_quota_db = 0" "reservation_count 1 empty_quota_db = 0"
    by (simp_all add: active_count_def reservation_count_def slots_def empty_quota_db_def)
  ultimately show ?thesis
    using reservation_respects_session_limit[OF prod.collapse[symmetric], of sample_reserve 1 empty_quota_db "''r''"] by simp
qed

text \<open>
  A grant leaves the budget only through a settlement of its own binding: no reservation,
  session claim, timeout mark or host registration, of any account, closes it, and no settlement of
  another binding does; settling the same binding twice is a success that changes nothing.
\<close>

lemma grants_leave_only_by_settlement:
  assumes "open_grant db k" and "distinct (map qv_id (qd_reservations db))"
  shows "(\<forall>db'. quota_step\<^sup>*\<^sup>* db db' \<longrightarrow> open_grant db' k)
    \<and> (\<forall>b reason now r db'. settleQuotaReservation b reason now db = (r, db') \<and> k \<noteq> binding_key b \<longrightarrow> open_grant db' k)
    \<and> (\<forall>b reason now now' r db'. settleQuotaReservation b reason now db = (Inr r, db') \<and> matched r \<longrightarrow>
          settleQuotaReservation b reason now' db' = (Inr \<lparr>matched = True, changed = False\<rparr>, db'))"
proof -
  have "open_grant db' k" if "quota_step\<^sup>*\<^sup>* db db'" for db'
    using that assms(1) by (induction rule: rtranclp_induct) (auto intro: quota_step_keeps_grant)
  then show ?thesis using settle_only_own[OF _ assms(1)] settle_idempotent[OF assms(2)] by blast
qed

definition sample_quota_db :: quota_db where
  "sample_quota_db = snd (reserveConcurrentSession ''r'' sample_reserve empty_quota_db)"

lemma grants_leave_only_by_settlement_example:
  "open_grant (snd (reserveConcurrentSession ''r2'' (sample_reserve\<lparr>ri_requestId := ''q2''\<rparr>) sample_quota_db)) (''r'', 1, ''d'', ''q1'', CreateOp)"
proof -
  have rows: "map (\<lambda>r. (qv_id r, qv_user r, qv_daemon r, qv_request r, qv_operation r, qv_state r)) (qd_reservations sample_quota_db)
      = [(''r'', 1, ''d'', ''q1'', CreateOp, RPending)]" by code_simp
  then obtain row where row: "qd_reservations sample_quota_db = [row]" "qv_id row = ''r''" "qv_user row = 1" "qv_daemon row = ''d''"
    "qv_request row = ''q1''" "qv_operation row = CreateOp" "qv_state row = RPending" by auto
  have "open_grant sample_quota_db (''r'', 1, ''d'', ''q1'', CreateOp)" by (simp add: open_grant_def row unsettled_def)
  moreover have "distinct (map qv_id (qd_reservations sample_quota_db))" by (simp add: row)
  moreover have "quota_step sample_quota_db (snd (reserveConcurrentSession ''r2'' (sample_reserve\<lparr>ri_requestId := ''q2''\<rparr>) sample_quota_db))"
    by (rule quota_step.reserve_step[OF prod.collapse[symmetric]])
  ultimately show ?thesis using grants_leave_only_by_settlement by blast
qed

section \<open>A slot outside the budget\<close>

text \<open>
  The test for a slot that is already held accepts any running session of the user, while the
  budget counts only root sessions. Resuming a running subagent session is granted although the
  limit is used up, and the new reservation then exceeds it.
\<close>

definition subagent_session :: root_session_row where
  "subagent_session = \<lparr>sn_id = ''sub'', sn_user = Some 1, sn_daemon = Some ''d'', sn_status = Some ''running'', sn_is_subagent = Some True,
     sn_agent_type = Some ''codex'', sn_control_mode = None, sn_created_at = 0, sn_activity_epoch = 0\<rparr>"

definition resume_subagent :: ReserveInput where
  "resume_subagent = sample_reserve\<lparr>ri_requestId := ''q3'', ri_operation := ResumeOp, ri_sessionId := Some ''sub''\<rparr>"

lemma subagent_resume_exceeds_limit:
  "let db = sample_quota_db\<lparr>qd_sessions := [subagent_session]\<rparr>;
       db' = snd (reserveConcurrentSession ''r3'' resume_subagent db)
   in active_count 1 db + reservation_count 1 db = 1 \<and> active_count 1 db' + reservation_count 1 db' = 2"
  by code_simp

end
