(* ===== verification/Session_Admissions.thy ===== *)
theory Session_Admissions
  imports Quota_Correct
begin

text \<open>
  Admission of user messages, \<open>relay/src/session-message-admissions.ts\<close>, over the tables of the
  quota theory: a message for an active session gets a ledger row of its own, a message for an
  inactive one a resume reservation. With it the observer policy of
  \<open>relay/src/session-observer-policy.ts\<close> and the two operations of \<open>relay/src/db.ts\<close> that move ledger
  rows: the rename of a session and the removal of a daemon. \<open>digest\<close> stands for SHA-256 of
  \<open>JSON.stringify\<close>; identifiers and the clock are arguments.
\<close>

section \<open>Observer sessions\<close>

definition OBSERVER_AGENT_TYPES :: "string list" where
  "OBSERVER_AGENT_TYPES = [''codex-desktop'', ''zcode'']"

definition CREATE_CAPABLE_AGENT_TYPES :: "string list" where
  "CREATE_CAPABLE_AGENT_TYPES = [''claude-code'', ''codex'', ''opencode'', ''zcode-managed'', ''dsh'']"

definition OBSERVER_NATIVE_DRIVE_MESSAGE_TYPES :: "string list" where
  "OBSERVER_NATIVE_DRIVE_MESSAGE_TYPES =
     [''user_message'', ''abort_create'', ''session_kill'', ''session_interrupt'', ''set_permission_config'',
      ''set_effort'', ''set_session_agent'', ''set_session_model'', ''approval_response'', ''question_response'',
      ''question_reject'', ''mcp_elicitation_response'', ''interactive_response'']"

definition OBSERVER_READ_ONLY_SESSION_MESSAGE_TYPES :: "string list" where
  "OBSERVER_READ_ONLY_SESSION_MESSAGE_TYPES =
     [''replay'', ''replay_subagent'', ''list_commands'', ''list_session_agents'', ''get_session_meta'',
      ''session_pin'', ''session_document_resolve'', ''session_delete'']"

fun json_in :: "json option \<Rightarrow> string list \<Rightarrow> bool" where
  "json_in (Some (JStr s)) xs = (s \<in> set xs)"
| "json_in _ xs = False"

definition isObserverAgentType :: "json option \<Rightarrow> bool" where
  "isObserverAgentType agentType = json_in agentType OBSERVER_AGENT_TYPES"

definition isCreateCapableAgentType :: "json option \<Rightarrow> bool" where
  "isCreateCapableAgentType agentType = json_in agentType CREATE_CAPABLE_AGENT_TYPES"

definition isObserverSessionMessageAllowed :: "json option \<Rightarrow> bool" where
  "isObserverSessionMessageAllowed messageType = json_in messageType OBSERVER_READ_ONLY_SESSION_MESSAGE_TYPES"

lemma json_in_disjoint: "set xs \<inter> set ys = {} \<Longrightarrow> json_in v xs \<Longrightarrow> \<not> json_in v ys"
  by (cases "(v, xs)" rule: json_in.cases) auto

lemma observers_cannot_drive: "json_in m OBSERVER_NATIVE_DRIVE_MESSAGE_TYPES \<Longrightarrow> \<not> isObserverSessionMessageAllowed m"
  unfolding isObserverSessionMessageAllowed_def
  by (rule json_in_disjoint) (simp_all add: OBSERVER_NATIVE_DRIVE_MESSAGE_TYPES_def OBSERVER_READ_ONLY_SESSION_MESSAGE_TYPES_def)

lemma observers_are_not_created: "isObserverAgentType a \<Longrightarrow> \<not> isCreateCapableAgentType a"
  unfolding isObserverAgentType_def isCreateCapableAgentType_def
  by (rule json_in_disjoint) (simp_all add: OBSERVER_AGENT_TYPES_def CREATE_CAPABLE_AGENT_TYPES_def)

section \<open>The fingerprint of a command\<close>

fun canonical :: "json \<Rightarrow> json" where
  "canonical (JArr xs) = JArr (map canonical xs)"
| "canonical (JObj kvs) = JObj (sort_key fst (map (\<lambda>(k, v). (k, canonical v)) kvs))"
| "canonical v = v"

definition semantic :: "payload \<Rightarrow> payload" where
  "semantic command = jm_delete ''quota_grant'' (jm_delete ''request_id'' command)"

definition messageCommandHash :: "(json \<Rightarrow> string) \<Rightarrow> payload \<Rightarrow> string" where
  "messageCommandHash digest command = digest (canonical (JObj (semantic command)))"

text \<open>
  The fingerprint ignores the order of the fields, the request identifier and a grant the client
  may have put in.
\<close>

lemma hash_ignores_transport:
  "messageCommandHash digest (jm_set ''request_id'' v c) = messageCommandHash digest c"
  "messageCommandHash digest (jm_set ''quota_grant'' v c) = messageCommandHash digest c"
  by (simp_all add: messageCommandHash_def semantic_def delete_update delete_update_same)

lemma canonical_ignores_order:
  assumes "mset xs = mset ys" and "jm_wf xs"
  shows "canonical (JObj xs) = canonical (JObj ys)"
proof -
  let ?c = "\<lambda>(k, v). (k, canonical v)"
  have "map fst (map ?c xs) = map fst xs" by auto
  then have "inj_on fst (set (map ?c xs))" using assms(2) by (metis distinct_map)
  moreover have "mset (map ?c xs) = mset (map ?c ys)" using assms(1) by simp
  ultimately have "sort_key fst (map ?c xs) = sort_key fst (map ?c ys)"
    by (intro sort_key_inj_key_eq) simp_all
  then show ?thesis by simp
qed

section \<open>Admission\<close>

record ContinueAdmission =
  ca_id :: string
  ca_userId :: int
  ca_daemonId :: string
  ca_sessionId :: string
  ca_requestId :: string
  ca_canonical :: "string option"
  ca_state :: admission_state
  ca_expiresAt :: int

datatype MessageAdmissionDecision =
    ContinueDecision ContinueAdmission bool
  | ResumeDecision QuotaDecision
  | Conflict
  | Forbidden string

datatype admission_error =
    AdmissionBinding
  | AdmissionSessionMovedError
  | UnknownDaemonSessionError
  | SessionOwnershipViolationError
  | ReserveFailed quota_error

record admission_input =
  ai_userId :: int
  ai_daemonId :: string
  ai_sessionId :: string
  ai_requestId :: string
  ai_command :: payload
  ai_limit :: "int option"

definition expire_issued :: "int \<Rightarrow> int \<Rightarrow> quota_db \<Rightarrow> quota_db" where
  "expire_issued uid now db =
     db\<lparr>qd_admissions := map (\<lambda>a. if am_user a = uid \<and> am_state a = Issued \<and> am_expires_at a \<le> now
          then a\<lparr>am_state := AUncertain\<rparr> else a) (qd_admissions db)\<rparr>"

definition session_policy :: "quota_db \<Rightarrow> string \<Rightarrow> int \<Rightarrow> root_session_row option" where
  "session_policy db sid uid =
     List.find (\<lambda>s. sn_id s = sid \<and> sn_user s = Some uid \<and> \<not> starts_with (sn_id s) ''pending-'') (qd_sessions db)"

definition observer_session :: "root_session_row \<Rightarrow> bool" where
  "observer_session s = isObserverAgentType (Some (JStr (case sn_agent_type s of None \<Rightarrow> [] | Some a \<Rightarrow> a)))"

definition may_message :: "admission_input \<Rightarrow> quota_db \<Rightarrow> root_session_row \<Rightarrow> bool" where
  "may_message inp db s =
     (sn_daemon s = Some (ai_daemonId inp)
      \<and> list_ex (\<lambda>d. dm_id d = ai_daemonId inp \<and> dm_user d = Some (ai_userId inp)) (qd_daemons db)
      \<and> \<not> observer_session s \<and> ai_sessionId inp \<notin> set (qd_deleted_sessions db)
      \<and> sn_control_mode s \<noteq> Some ''legacy_read_only'')"

definition command_msg_id :: "payload \<Rightarrow> string option" where
  "command_msg_id command = (case map_of command ''msg_id'' of Some (JStr m) \<Rightarrow> Some m | _ \<Rightarrow> None)"

definition find_admission :: "int \<Rightarrow> string \<Rightarrow> quota_db \<Rightarrow> admission_row option" where
  "find_admission uid req db = List.find (\<lambda>a. am_user a = uid \<and> am_request a = req) (qd_admissions db)"

definition repeats :: "(json \<Rightarrow> string) \<Rightarrow> admission_input \<Rightarrow> admission_row \<Rightarrow> bool" where
  "repeats digest inp a =
     (am_daemon a = ai_daemonId inp \<and> canonical_session a = ai_sessionId inp
      \<and> am_command_hash a = messageCommandHash digest (jm_set ''session_id'' (JStr (am_session a)) (ai_command inp))
      \<and> am_msg_id a = command_msg_id (ai_command inp))"

definition admission_of :: "admission_row \<Rightarrow> ContinueAdmission" where
  "admission_of a =
     \<lparr>ca_id = am_id a, ca_userId = am_user a, ca_daemonId = am_daemon a, ca_sessionId = am_session a,
      ca_requestId = am_request a, ca_canonical = Some (canonical_session a), ca_state = am_state a,
      ca_expiresAt = am_expires_at a\<rparr>"

definition new_admission :: "(json \<Rightarrow> string) \<Rightarrow> string \<Rightarrow> int \<Rightarrow> admission_input \<Rightarrow> admission_row" where
  "new_admission digest uuid now inp =
     \<lparr>am_id = uuid, am_user = ai_userId inp, am_daemon = ai_daemonId inp, am_session = ai_sessionId inp,
      am_request = ai_requestId inp, am_msg_id = command_msg_id (ai_command inp),
      am_command_hash = messageCommandHash digest (ai_command inp), am_state = Issued, am_expires_at = now + 20000,
      am_completed_at = None, am_outcome = None, am_claimed = None, am_canonical = Some (ai_sessionId inp), am_aliases = []\<rparr>"

definition bump_epoch :: "string \<Rightarrow> quota_db \<Rightarrow> quota_db" where
  "bump_epoch sid db =
     db\<lparr>qd_sessions := map (\<lambda>s. if sn_id s = sid then s\<lparr>sn_activity_epoch := sn_activity_epoch s + 1\<rparr> else s) (qd_sessions db)\<rparr>"

definition resume_input :: "(json \<Rightarrow> string) \<Rightarrow> int \<Rightarrow> admission_input \<Rightarrow> ReserveInput" where
  "resume_input digest now inp =
     \<lparr>ri_userId = ai_userId inp, ri_requestId = ai_requestId inp, ri_operation = ResumeOp, ri_daemonId = ai_daemonId inp,
      ri_sessionId = Some (ai_sessionId inp), ri_limit = ai_limit inp, ri_now = now, ri_ttlMs = 20000, ri_agentType = None,
      ri_cwd = None, ri_commandHash = Some (messageCommandHash digest (ai_command inp)), ri_projectId = None\<rparr>"

definition admit_resume :: "(json \<Rightarrow> string) \<Rightarrow> string \<Rightarrow> int \<Rightarrow> admission_input \<Rightarrow> quota_db
    \<Rightarrow> (admission_error + MessageAdmissionDecision) \<times> quota_db" where
  "admit_resume digest uuid now inp db =
     (case reserveConcurrentSession uuid (resume_input digest now inp) db of
        (Inl e, _) \<Rightarrow> (Inl (ReserveFailed e), db)
      | (Inr d, db1) \<Rightarrow>
          (Inr (ResumeDecision d),
           case d of Allowed _ _ reused \<Rightarrow> if reused then db1 else bump_epoch (ai_sessionId inp) db1 | _ \<Rightarrow> db1))"

definition admitSessionMessage :: "(json \<Rightarrow> string) \<Rightarrow> string \<Rightarrow> int \<Rightarrow> admission_input \<Rightarrow> quota_db
    \<Rightarrow> (admission_error + MessageAdmissionDecision) \<times> quota_db" where
  "admitSessionMessage digest uuid now inp db0 =
     (let db = expire_issued (ai_userId inp) now db0 in
      case session_policy db (ai_sessionId inp) (ai_userId inp) of
        None \<Rightarrow> (Inr (Forbidden ''session_not_found''), db)
      | Some s \<Rightarrow>
          if \<not> may_message inp db s
          then (Inr (Forbidden (if observer_session s then ''observer_read_only'' else ''session_not_found'')), db)
          else
            (case find_admission (ai_userId inp) (ai_requestId inp) db of
               Some a \<Rightarrow> (Inr (if repeats digest inp a then ContinueDecision (admission_of a) True else Conflict), db)
             | None \<Rightarrow>
                 if \<not> status_active s \<or> list_ex (\<lambda>r. qv_user r = ai_userId inp \<and> qv_request r = ai_requestId inp) (qd_reservations db)
                 then admit_resume digest uuid now inp db
                 else
                   (let a = new_admission digest uuid now inp
                    in (Inr (ContinueDecision ((admission_of a)\<lparr>ca_canonical := None\<rparr>) False),
                        bump_epoch (ai_sessionId inp) (db\<lparr>qd_admissions := qd_admissions db @ [a]\<rparr>)))))"

section \<open>Outcomes\<close>

datatype admission_outcome = SessionActive | AcceptedOutcome | RejectedOutcome

fun outcome_str :: "admission_outcome \<Rightarrow> string" where
  "outcome_str SessionActive = ''session_active''"
| "outcome_str AcceptedOutcome = ''accepted''"
| "outcome_str RejectedOutcome = ''rejected''"

definition positive :: "string \<Rightarrow> bool" where
  "positive s = (s = ''session_active'' \<or> s = ''accepted'')"

text \<open>\<open>x = $6 OR (x IN ('session_active','accepted') AND $6 IN ('session_active','accepted'))\<close>.\<close>

definition compatible :: "string \<Rightarrow> admission_outcome \<Rightarrow> bool" where
  "compatible x v = (x = outcome_str v \<or> (positive x \<and> positive (outcome_str v)))"

definition compatible_or_null :: "string option \<Rightarrow> admission_outcome \<Rightarrow> bool" where
  "compatible_or_null x v = (case x of None \<Rightarrow> True | Some y \<Rightarrow> compatible y v)"

definition names_session :: "string \<Rightarrow> admission_row \<Rightarrow> bool" where
  "names_session sid a = (sid = am_session a \<or> Some sid = am_canonical a \<or> sid \<in> set (am_aliases a))"

text \<open>\<open>msgId\<close> is \<open>None\<close> when the caller passes none, otherwise the string or null to compare with.\<close>

definition recoverContinueAdmission :: "int \<Rightarrow> string \<Rightarrow> string \<Rightarrow> string \<Rightarrow> string option option \<Rightarrow> admission_outcome \<Rightarrow> quota_db
    \<Rightarrow> admission_error + ContinueAdmission option" where
  "recoverContinueAdmission uid daemonId sid req msgId outcome db =
     (case find_admission uid req db of
        None \<Rightarrow> Inr None
      | Some a \<Rightarrow>
          if am_daemon a \<noteq> daemonId \<or> \<not> names_session sid a
            \<or> am_outcome a \<in> {Some ''user_deleted'', Some ''daemon_deleted''}
            \<or> (am_outcome a = Some ''rejected'' \<and> outcome \<noteq> RejectedOutcome)
            \<or> (am_outcome a \<in> {Some ''accepted'', Some ''session_active''} \<and> outcome = RejectedOutcome)
            \<or> (case msgId of None \<Rightarrow> False | Some m \<Rightarrow> am_msg_id a \<noteq> m)
          then Inl AdmissionBinding
          else Inr (Some (admission_of a)))"

definition admission_matches :: "ContinueAdmission \<Rightarrow> admission_row \<Rightarrow> bool" where
  "admission_matches adm a =
     (am_id a = ca_id adm \<and> am_user a = ca_userId adm \<and> am_daemon a = ca_daemonId adm
      \<and> am_session a = ca_sessionId adm \<and> am_request a = ca_requestId adm)"

definition session_running :: "quota_db \<Rightarrow> string \<Rightarrow> bool" where
  "session_running db sid = list_ex (\<lambda>s. sn_id s = sid \<and> status_active s) (qd_sessions db)"

definition complete_target :: "ContinueAdmission \<Rightarrow> admission_outcome \<Rightarrow> quota_db \<Rightarrow> admission_row \<Rightarrow> bool" where
  "complete_target adm v db a =
     (admission_matches adm a
      \<and> (case am_claimed a of None \<Rightarrow> False | Some c \<Rightarrow> compatible c v)
      \<and> compatible_or_null (am_outcome a) v
      \<and> list_ex (\<lambda>s. sn_id s = canonical_session a \<and> sn_user s = Some (am_user a) \<and> sn_daemon s = Some (am_daemon a)
           \<and> list_ex (\<lambda>d. dm_id d = am_daemon a \<and> dm_user d = Some (am_user a)) (qd_daemons db)) (qd_sessions db)
      \<and> canonical_session a \<notin> set (qd_deleted_sessions db))"

definition completed_admission :: "admission_outcome \<Rightarrow> int \<Rightarrow> quota_db \<Rightarrow> admission_row \<Rightarrow> admission_row" where
  "completed_admission v now db a =
     (let hold = (v = AcceptedOutcome \<and> \<not> session_running db (canonical_session a) \<and> am_state a \<noteq> Completed)
      in a\<lparr>am_state := (if hold then AUncertain else Completed),
           am_completed_at := (if hold then None else coalesce (am_completed_at a) (Some now)),
           am_outcome := (if am_outcome a = Some ''session_active'' then am_outcome a else Some (outcome_str v))\<rparr>)"

definition update_admissions :: "(admission_row \<Rightarrow> bool) \<Rightarrow> (admission_row \<Rightarrow> admission_row) \<Rightarrow> quota_db \<Rightarrow> quota_db" where
  "update_admissions p f db = db\<lparr>qd_admissions := map (\<lambda>a. if p a then f a else a) (qd_admissions db)\<rparr>"

definition completeContinueAdmission :: "ContinueAdmission \<Rightarrow> admission_outcome \<Rightarrow> int \<Rightarrow> quota_db
    \<Rightarrow> (admission_error + unit) \<times> quota_db" where
  "completeContinueAdmission adm v now db =
     (if list_ex (complete_target adm v db) (qd_admissions db)
      then (Inr (), update_admissions (complete_target adm v db) (completed_admission v now db) db)
      else (Inl AdmissionBinding, db))"

definition claim_outcome_target :: "ContinueAdmission \<Rightarrow> admission_outcome \<Rightarrow> admission_row \<Rightarrow> bool" where
  "claim_outcome_target adm v a =
     (admission_matches adm a \<and> compatible_or_null (am_claimed a) v \<and> compatible_or_null (am_outcome a) v)"

definition ca_current :: "ContinueAdmission \<Rightarrow> string" where
  "ca_current adm = (case ca_canonical adm of None \<Rightarrow> ca_sessionId adm | Some s \<Rightarrow> s)"

definition claimContinueAdmissionOutcome :: "ContinueAdmission \<Rightarrow> admission_outcome \<Rightarrow> quota_db
    \<Rightarrow> (admission_error + unit) \<times> quota_db" where
  "claimContinueAdmissionOutcome adm v db =
     (case List.find (\<lambda>a. am_id a = ca_id adm) (qd_admissions db) of
        Some a \<Rightarrow>
          if canonical_session a \<noteq> ca_current adm then (Inl AdmissionSessionMovedError, db)
          else if list_ex (claim_outcome_target adm v) (qd_admissions db)
          then (Inr (), update_admissions (claim_outcome_target adm v)
                  (\<lambda>a. a\<lparr>am_claimed := (if am_claimed a = Some ''session_active'' then am_claimed a else Some (outcome_str v))\<rparr>) db)
          else (Inl AdmissionBinding, db)
      | None \<Rightarrow> (Inl AdmissionBinding, db))"

text \<open>\<open>a || b\<close> of two JSON values.\<close>

fun json_truthy :: "json option \<Rightarrow> bool" where
  "json_truthy None = False"
| "json_truthy (Some JNull) = False"
| "json_truthy (Some (JBool b)) = b"
| "json_truthy (Some (JNum n)) = (n \<noteq> 0)"
| "json_truthy (Some (JStr s)) = (s \<noteq> [])"
| "json_truthy (Some v) = True"

definition same_msg_id :: "admission_row \<Rightarrow> json option \<Rightarrow> bool" where
  "same_msg_id a m =
     (case m of None \<Rightarrow> am_msg_id a = None | Some JNull \<Rightarrow> am_msg_id a = None | Some (JStr s) \<Rightarrow> am_msg_id a = Some s | _ \<Rightarrow> False)"

definition resolveMessageSessionId :: "(json \<Rightarrow> string) \<Rightarrow> int \<Rightarrow> payload \<Rightarrow> quota_db \<Rightarrow> string option" where
  "resolveMessageSessionId digest uid command db =
     (let requestId = (if json_truthy (map_of command ''request_id'') then map_of command ''request_id'' else map_of command ''msg_id'')
      in case (requestId, map_of command ''session_id'') of
           (Some (JStr req), Some (JStr sid)) \<Rightarrow>
             (case find_admission uid req db of
                None \<Rightarrow> None
              | Some a \<Rightarrow>
                  if \<not> names_session sid a \<or> \<not> same_msg_id a (map_of command ''msg_id'')
                    \<or> am_command_hash a \<noteq> messageCommandHash digest (jm_set ''session_id'' (JStr (am_session a)) command)
                  then None else Some (canonical_session a))
         | _ \<Rightarrow> None)"

section \<open>Mutations under a stable identity\<close>

text \<open>
  \<open>mutate_run\<close> is the body of one transaction: the mapping is read in \<open>db\<close>, the locks are obtained
  when the tables are \<open>locked\<close>, since a rename may commit while it waits for them.
\<close>

definition mutate_run :: "(quota_db \<Rightarrow> string \<Rightarrow> (admission_error + 'v) \<times> quota_db) \<Rightarrow> ContinueAdmission \<Rightarrow> quota_db \<Rightarrow> quota_db
    \<Rightarrow> (admission_error + string \<times> 'v) \<times> quota_db" where
  "mutate_run mutate adm db locked =
     (case List.find (admission_matches adm) (qd_admissions db) of
        None \<Rightarrow> (Inl AdmissionBinding, locked)
      | Some initial \<Rightarrow>
          (case List.find (admission_matches adm) (qd_admissions locked) of
             None \<Rightarrow> (Inl AdmissionBinding, locked)
           | Some a \<Rightarrow>
               if canonical_session a \<noteq> canonical_session initial then (Inl AdmissionSessionMovedError, locked)
               else if canonical_session initial \<in> set (qd_deleted_sessions locked) then (Inl UnknownDaemonSessionError, locked)
               else (case mutate locked (canonical_session initial) of
                       (Inl e, db1) \<Rightarrow> (Inl e, db1)
                     | (Inr v, db1) \<Rightarrow> (Inr (canonical_session initial, v), db1))))"

text \<open>
  The retries: one function per attempt says what other transactions did before its locks were
  obtained. A failed attempt is rolled back, and only a moved session is tried again.
\<close>

fun mutateContinueAdmissionSession :: "(quota_db \<Rightarrow> string \<Rightarrow> (admission_error + 'v) \<times> quota_db) \<Rightarrow> ContinueAdmission
    \<Rightarrow> (quota_db \<Rightarrow> quota_db) list \<Rightarrow> quota_db \<Rightarrow> (admission_error + string \<times> 'v) \<times> quota_db" where
  "mutateContinueAdmissionSession mutate adm [] db = (Inl AdmissionSessionMovedError, db)"
| "mutateContinueAdmissionSession mutate adm (others # rest) db =
     (case mutate_run mutate adm db (others db) of
        (Inr r, db1) \<Rightarrow> (Inr r, db1)
      | (Inl e, _) \<Rightarrow>
          if e = AdmissionSessionMovedError \<and> rest \<noteq> [] then mutateContinueAdmissionSession mutate adm rest (others db)
          else (Inl e, others db))"

section \<open>Renames and removed daemons\<close>

definition daemonSessionAccessAllowed :: "root_session_row \<Rightarrow> int option \<Rightarrow> string \<Rightarrow> bool" where
  "daemonSessionAccessAllowed existing userId daemonId =
     (case userId of
        Some u \<Rightarrow> sn_user existing = Some u \<or> (sn_user existing = None \<and> sn_daemon existing = Some daemonId)
      | None \<Rightarrow> sn_user existing = None \<and> sn_daemon existing = Some daemonId)"

definition rename_admission :: "string \<Rightarrow> string \<Rightarrow> admission_row \<Rightarrow> admission_row" where
  "rename_admission old new a =
     a\<lparr>am_canonical := Some new, am_aliases := (if old \<in> set (am_aliases a) then am_aliases a else am_aliases a @ [old])\<rparr>"

text \<open>The rows of \<open>events\<close>, which move too, are not part of these tables.\<close>

definition renameOwnedDaemonSession :: "string \<Rightarrow> string \<Rightarrow> string \<Rightarrow> int option \<Rightarrow> quota_db \<Rightarrow> (admission_error + bool) \<times> quota_db" where
  "renameOwnedDaemonSession old new daemonId userId db =
     (let row = (\<lambda>sid. List.find (\<lambda>s. sn_id s = sid) (qd_sessions db)) in
      case row old of
        None \<Rightarrow>
          (case row new of
             Some n \<Rightarrow> (if daemonSessionAccessAllowed n userId daemonId then Inr True else Inl UnknownDaemonSessionError, db)
           | None \<Rightarrow> (Inl UnknownDaemonSessionError, db))
      | Some os \<Rightarrow>
          if \<not> daemonSessionAccessAllowed os userId daemonId \<or> row new \<noteq> None then (Inl SessionOwnershipViolationError, db)
          else
            (Inr True,
             update_admissions (\<lambda>a. canonical_session a = old \<and> userId = Some (am_user a) \<and> am_daemon a = daemonId) (rename_admission old new)
               (db\<lparr>qd_sessions := map (\<lambda>s. if sn_id s = old
                     then s\<lparr>sn_id := new, sn_daemon := Some daemonId, sn_user := coalesce userId (sn_user s)\<rparr> else s) (qd_sessions db)\<rparr>)))"

definition deleteDaemon :: "int \<Rightarrow> string \<Rightarrow> int \<Rightarrow> quota_db \<Rightarrow> bool \<times> quota_db" where
  "deleteDaemon uid daemonId now db =
     (if \<not> list_ex (\<lambda>d. dm_id d = daemonId \<and> dm_user d = Some uid) (qd_daemons db) then (False, db)
      else
        (True,
         (update_admissions (\<lambda>a. am_user a = uid \<and> am_daemon a = daemonId)
            (\<lambda>a. a\<lparr>am_state := Completed, am_completed_at := coalesce (am_completed_at a) (Some now), am_outcome := Some ''daemon_deleted''\<rparr>) db)
         \<lparr>qd_sessions := map (\<lambda>s. if sn_daemon s = Some daemonId then s\<lparr>sn_daemon := None\<rparr> else s) (qd_sessions db),
          qd_daemons := filter (\<lambda>d. dm_id d \<noteq> daemonId) (qd_daemons db)\<rparr>))"

text \<open>The statements of a session deletion on these tables.\<close>

definition delete_session_rows :: "string \<Rightarrow> int \<Rightarrow> quota_db \<Rightarrow> quota_db" where
  "delete_session_rows sid now db =
     (update_admissions (\<lambda>a. canonical_session a = sid \<and> am_state a \<noteq> Completed)
        (\<lambda>a. a\<lparr>am_state := Completed, am_completed_at := Some now, am_outcome := Some ''user_deleted''\<rparr>) db)
     \<lparr>qd_sessions := filter (\<lambda>s. sn_id s \<noteq> sid) (qd_sessions db),
      qd_deleted_sessions := (if sid \<in> set (qd_deleted_sessions db) then qd_deleted_sessions db else qd_deleted_sessions db @ [sid])\<rparr>"

end
