(* ===== verification/Session_Admissions_Correct.thy ===== *)
theory Session_Admissions_Correct
  imports Session_Admissions
begin

text \<open>
  The two ledgers of the account, admissions and reservations, over every run of the operations
  that touch them: a request is recorded once, an admission is never lost and its verdict never
  flips, and a retried message finds its admission even after the session was renamed.
\<close>

section \<open>Runs of the ledgers\<close>

text \<open>
  Besides the operations modelled, the rest of the relay may change sessions, hosts and
  tombstones at any time.
\<close>

inductive ledger_step :: "quota_db \<Rightarrow> quota_db \<Rightarrow> bool" where
  admit: "admitSessionMessage digest uuid now inp db = (r, db') \<Longrightarrow> ledger_step db db'"
| quota: "quota_step db db' \<Longrightarrow> ledger_step db db'"
| settle: "settleQuotaReservation b reason now db = (r, db') \<Longrightarrow> ledger_step db db'"
| claim: "claimContinueAdmissionOutcome adm v db = (r, db') \<Longrightarrow> ledger_step db db'"
| complete: "completeContinueAdmission adm v now db = (r, db') \<Longrightarrow> ledger_step db db'"
| rename: "renameOwnedDaemonSession old new d uid db = (r, db') \<Longrightarrow> ledger_step db db'"
| remove_daemon: "deleteDaemon u d now db = (r, db') \<Longrightarrow> ledger_step db db'"
| remove_session: "ledger_step db (delete_session_rows sid now db)"
| elsewhere: "ledger_step db (db\<lparr>qd_sessions := ss, qd_daemons := ds, qd_deleted_sessions := ts\<rparr>)"

definition akeys :: "quota_db \<Rightarrow> (int \<times> string) list" where
  "akeys db = map (\<lambda>a. (am_user a, am_request a)) (qd_admissions db)"

definition rkeys :: "quota_db \<Rightarrow> (int \<times> string) list" where
  "rkeys db = map (\<lambda>r. (qv_user r, qv_request r)) (qd_reservations db)"

definition ledger_inv :: "quota_db \<Rightarrow> bool" where
  "ledger_inv db \<longleftrightarrow> distinct (akeys db) \<and> distinct (rkeys db) \<and> set (akeys db) \<inter> set (rkeys db) = {}"

text \<open>What one operation does to the reservations: nothing new, or one row under an unused key.\<close>

definition reservations_grow :: "quota_db \<Rightarrow> quota_db \<Rightarrow> bool" where
  "reservations_grow db db' \<longleftrightarrow> qd_admissions db' = qd_admissions db
     \<and> (distinct (rkeys db) \<longrightarrow> distinct (rkeys db'))
     \<and> (\<forall>k \<in> set (rkeys db'). k \<in> set (rkeys db) \<or> k \<notin> set (akeys db))"

lemma reservations_grow_inv: "reservations_grow db db' \<Longrightarrow> ledger_inv db \<Longrightarrow> ledger_inv db'"
  by (auto simp: reservations_grow_def ledger_inv_def akeys_def)

lemma rkeys_transition [simp]:
  assumes "\<And>r. qv_user (f r) = qv_user r \<and> qv_request (f r) = qv_request r"
  shows "rkeys (snd (transition target due f db)) = rkeys db"
  using assms by (auto simp: transition_def rkeys_def)

lemma admissions_transition [simp]: "qd_admissions (snd (transition target due f db)) = qd_admissions db"
  by (simp add: transition_def)

lemma same_reservations_grow: "qd_admissions db' = qd_admissions db \<Longrightarrow> rkeys db' = rkeys db \<Longrightarrow> reservations_grow db db'"
  by (simp add: reservations_grow_def)

lemma purge_grow: "reservations_grow db (purge_settled u now db)"
  by (auto simp: reservations_grow_def purge_settled_def rkeys_def distinct_map_filter)

lemma rkeys_backfill: "rkeys (backfill inp db) = rkeys db"
  by (auto simp: rkeys_def backfill_def)

lemma reserve_grow:
  assumes "reserveConcurrentSession uuid inp db = (r, db')"
  shows "reservations_grow db db'"
proof -
  let ?p = "purge_settled (ri_userId inp) (ri_now inp) db" and ?k = "(ri_userId inp, ri_requestId inp)"
  have "db' \<in> {db, ?p, backfill inp ?p}
      \<or> (db' = ?p\<lparr>qd_reservations := qd_reservations ?p @ [new_reservation uuid inp]\<rparr> \<and> ?k \<notin> set (akeys db) \<and> ?k \<notin> set (rkeys ?p))"
    using assms by (auto simp: reserveConcurrentSession_def Let_def list_ex_iff find_None_iff akeys_def rkeys_def
        split: if_splits option.splits)
  moreover have "reservations_grow db db" by (rule same_reservations_grow) simp_all
  moreover have p: "reservations_grow db ?p" by (rule purge_grow)
  moreover have "reservations_grow db (backfill inp ?p)"
    using p by (simp add: reservations_grow_def rkeys_backfill) (simp add: backfill_def)
  moreover have "reservations_grow db (?p\<lparr>qd_reservations := qd_reservations ?p @ [new_reservation uuid inp]\<rparr>)"
    if "?k \<notin> set (akeys db)" "?k \<notin> set (rkeys ?p)"
    using p that by (auto simp: reservations_grow_def rkeys_def new_reservation_def)
  ultimately show ?thesis by blast
qed

lemma quota_step_grow: "quota_step db db' \<Longrightarrow> reservations_grow db db'"
proof (induction rule: quota_step.induct)
  case (reserve_step uuid inp db r db')
  then show ?case by (rule reserve_grow)
next
  case (claim_session_step b db r db')
  from claim_session_cases[OF this] show ?case by (auto intro!: same_reservations_grow)
next
  case (uncertain_step b why db r db')
  from uncertain_cases[OF this] show ?case by (auto intro!: same_reservations_grow)
next
  case (host_step uid d m lim db r db')
  then have "qd_reservations db' = qd_reservations db \<and> qd_admissions db' = qd_admissions db"
    by (auto simp: claimBoundDaemonSlot_def Let_def split: if_splits)
  then show ?case by (auto intro!: same_reservations_grow simp: rkeys_def)
qed

lemma settle_grow:
  assumes "settleQuotaReservation b reason now db = (r, db')" shows "reservations_grow db db'"
  using settle_cases[OF assms] by (auto intro!: same_reservations_grow simp: settle_row_def)

section \<open>The history of an admission\<close>

datatype verdict = Favourable | Unfavourable | Withdrawn

definition verdict_of :: "string \<Rightarrow> verdict" where
  "verdict_of x = (if positive x then Favourable else if x = ''rejected'' then Unfavourable else Withdrawn)"

definition row_kept :: "admission_row \<Rightarrow> admission_row \<Rightarrow> bool" where
  "row_kept a a' \<longleftrightarrow>
     am_id a' = am_id a \<and> am_user a' = am_user a \<and> am_request a' = am_request a \<and> am_session a' = am_session a
     \<and> am_msg_id a' = am_msg_id a \<and> am_command_hash a' = am_command_hash a
     \<and> (am_state a = Completed \<longrightarrow> am_state a' = Completed)
     \<and> (\<forall>c. am_claimed a = Some c \<longrightarrow> (\<exists>c'. am_claimed a' = Some c' \<and> verdict_of c' = verdict_of c))
     \<and> (\<forall>x. am_outcome a = Some x \<longrightarrow>
          (\<exists>x'. am_outcome a' = Some x' \<and> (verdict_of x' = verdict_of x \<or> verdict_of x' = Withdrawn)))"

definition ledger_kept :: "quota_db \<Rightarrow> quota_db \<Rightarrow> bool" where
  "ledger_kept db db' \<longleftrightarrow> (\<forall>a \<in> set (qd_admissions db). \<exists>a' \<in> set (qd_admissions db'). row_kept a a')"

text \<open>An outcome other than a withdrawal was claimed before it was recorded.\<close>

definition claimed_first :: "admission_row \<Rightarrow> bool" where
  "claimed_first a \<longleftrightarrow>
     (\<forall>x. am_outcome a = Some x \<longrightarrow> verdict_of x = Withdrawn \<or> (\<exists>c. am_claimed a = Some c \<and> verdict_of c = verdict_of x))"

lemma row_kept_refl [simp]: "row_kept a a"
  by (auto simp: row_kept_def)

lemma row_kept_trans: "row_kept a b \<Longrightarrow> row_kept b c \<Longrightarrow> row_kept a c"
  unfolding row_kept_def by (elim conjE, intro conjI) (simp_all, metis, metis)

lemma ledger_kept_same: "qd_admissions db' = qd_admissions db \<Longrightarrow> ledger_kept db db'"
  by (auto simp: ledger_kept_def intro: row_kept_refl)

lemma ledger_kept_trans: "ledger_kept a b \<Longrightarrow> ledger_kept b c \<Longrightarrow> ledger_kept a c"
  unfolding ledger_kept_def by (meson row_kept_trans)

lemma verdict_compatible: "compatible x v \<Longrightarrow> verdict_of x = verdict_of (outcome_str v)"
  by (cases v) (auto simp: compatible_def verdict_of_def positive_def)

lemma verdict_outcome [simp]: "verdict_of (outcome_str v) \<noteq> Withdrawn"
  by (cases v) (simp_all add: verdict_of_def positive_def)

lemma verdict_withdrawn [simp]: "verdict_of ''daemon_deleted'' = Withdrawn" "verdict_of ''user_deleted'' = Withdrawn"
  by (simp_all add: verdict_of_def positive_def)

definition ledger_ok :: "quota_db \<Rightarrow> bool" where
  "ledger_ok db \<longleftrightarrow> ledger_inv db \<and> (\<forall>a \<in> set (qd_admissions db). claimed_first a)"

definition ledger_effect :: "quota_db \<Rightarrow> quota_db \<Rightarrow> bool" where
  "ledger_effect db db' \<longleftrightarrow> ledger_kept db db' \<and> (ledger_ok db \<longrightarrow> ledger_ok db')"

lemma effect_trans: "ledger_effect a b \<Longrightarrow> ledger_effect b c \<Longrightarrow> ledger_effect a c"
  unfolding ledger_effect_def using ledger_kept_trans by blast

lemma effect_same: "qd_admissions db' = qd_admissions db \<Longrightarrow> qd_reservations db' = qd_reservations db \<Longrightarrow> ledger_effect db db'"
  by (auto simp: ledger_effect_def ledger_ok_def ledger_inv_def akeys_def rkeys_def intro: ledger_kept_same)

lemma effect_grow: "reservations_grow db db' \<Longrightarrow> ledger_effect db db'"
  using reservations_grow_inv[of db db'] by (auto simp: ledger_effect_def ledger_ok_def reservations_grow_def intro: ledger_kept_same)

lemma effect_append:
  assumes "qd_admissions db' = qd_admissions db @ [a]" "qd_reservations db' = qd_reservations db"
    and "(am_user a, am_request a) \<notin> set (akeys db) \<union> set (rkeys db)" and "am_outcome a = None"
  shows "ledger_effect db db'"
  using assms by (auto simp: ledger_effect_def ledger_kept_def ledger_ok_def ledger_inv_def akeys_def rkeys_def claimed_first_def
      intro: row_kept_refl)

text \<open>
  The laws of one row update: it keeps the row and does not record an outcome nobody claimed.
  Updating the rows that satisfy a condition then keeps the whole ledger.
\<close>

locale ledger_update =
  fixes p :: "admission_row \<Rightarrow> bool" and f :: "admission_row \<Rightarrow> admission_row"
  assumes keeps: "p a \<Longrightarrow> row_kept a (f a)"
    and claimed: "p a \<Longrightarrow> claimed_first a \<Longrightarrow> claimed_first (f a)"
begin

lemma update_kept: "ledger_kept db (update_admissions p f db)"
proof -
  have "row_kept a (if p a then f a else a)" for a using keeps[of a] by simp
  then show ?thesis unfolding ledger_kept_def update_admissions_def by (fastforce simp del: if_image_distrib)
qed

lemma update_effect:
  assumes "qd_admissions db' = qd_admissions (update_admissions p f db)" "qd_reservations db' = qd_reservations db"
  shows "ledger_effect db db'"
proof -
  have "akeys db' = akeys db" using keeps by (auto simp: akeys_def assms(1) update_admissions_def row_kept_def)
  moreover have "rkeys db' = rkeys db" by (simp add: rkeys_def assms(2))
  moreover have "claimed_first b" if "\<forall>a \<in> set (qd_admissions db). claimed_first a" "b \<in> set (qd_admissions db')" for b
    using that claimed by (auto simp: assms(1) update_admissions_def)
  moreover have "ledger_kept db db'" using update_kept[of db] by (simp add: ledger_kept_def assms(1))
  ultimately show ?thesis by (auto simp: ledger_effect_def ledger_ok_def ledger_inv_def)
qed

end

interpretation expiring_rows: ledger_update "\<lambda>a. am_user a = uid \<and> am_state a = Issued \<and> am_expires_at a \<le> now" "\<lambda>a. a\<lparr>am_state := AUncertain\<rparr>"
  for uid now
  by unfold_locales (auto simp: row_kept_def claimed_first_def)

interpretation claimed_rows: ledger_update "claim_outcome_target adm v"
    "\<lambda>a. a\<lparr>am_claimed := (if am_claimed a = Some ''session_active'' then am_claimed a else Some (outcome_str v))\<rparr>" for adm v
proof
  fix a assume t: "claim_outcome_target adm v a"
  have same: "verdict_of (outcome_str v) = verdict_of c" if "am_claimed a = Some c" for c
    using t that verdict_compatible[of c v] by (simp add: claim_outcome_target_def compatible_or_null_def)
  have "verdict_of (outcome_str v) = verdict_of x" if "am_outcome a = Some x" for x
    using t that verdict_compatible[of x v] by (simp add: claim_outcome_target_def compatible_or_null_def)
  with same show "row_kept a (a\<lparr>am_claimed := (if am_claimed a = Some ''session_active'' then am_claimed a else Some (outcome_str v))\<rparr>)"
    and "claimed_first a \<Longrightarrow> claimed_first (a\<lparr>am_claimed := (if am_claimed a = Some ''session_active'' then am_claimed a else Some (outcome_str v))\<rparr>)"
    by (auto simp: row_kept_def claimed_first_def)
qed

interpretation completed_rows: ledger_update "complete_target adm v db" "completed_admission v now db" for adm v db now
proof
  fix a assume t: "complete_target adm v db a"
  then obtain c where c: "am_claimed a = Some c" "verdict_of c = verdict_of (outcome_str v)"
    using verdict_compatible by (auto simp: complete_target_def split: option.splits)
  have "verdict_of (outcome_str v) = verdict_of x" if "am_outcome a = Some x" for x
    using t that verdict_compatible[of x v] by (simp add: complete_target_def compatible_or_null_def)
  with c show "row_kept a (completed_admission v now db a)"
    and "claimed_first a \<Longrightarrow> claimed_first (completed_admission v now db a)"
    by (auto simp: row_kept_def claimed_first_def completed_admission_def Let_def)
qed

interpretation renamed_rows: ledger_update "\<lambda>a. canonical_session a = old \<and> uid = Some (am_user a) \<and> am_daemon a = d" "rename_admission old new"
  for old uid d new
  by unfold_locales (auto simp: row_kept_def claimed_first_def rename_admission_def)

interpretation unhosted_rows: ledger_update "\<lambda>a. am_user a = u \<and> am_daemon a = d"
    "\<lambda>a. a\<lparr>am_state := Completed, am_completed_at := coalesce (am_completed_at a) (Some now), am_outcome := Some ''daemon_deleted''\<rparr>" for u d now
  by unfold_locales (auto simp: row_kept_def claimed_first_def)

interpretation deleted_rows: ledger_update "\<lambda>a. canonical_session a = sid \<and> am_state a \<noteq> Completed"
    "\<lambda>a. a\<lparr>am_state := Completed, am_completed_at := Some now, am_outcome := Some ''user_deleted''\<rparr>" for sid now
  by unfold_locales (auto simp: row_kept_def claimed_first_def)

section \<open>Every step keeps the ledgers\<close>

lemma expire_issued_update:
  "expire_issued uid now db = update_admissions (\<lambda>a. am_user a = uid \<and> am_state a = Issued \<and> am_expires_at a \<le> now) (\<lambda>a. a\<lparr>am_state := AUncertain\<rparr>) db"
  by (simp add: expire_issued_def update_admissions_def)

lemma update_reservations [simp]:
  "qd_reservations (update_admissions p f db) = qd_reservations db" "qd_sessions (update_admissions p f db) = qd_sessions db"
  "qd_daemons (update_admissions p f db) = qd_daemons db" "qd_deleted_sessions (update_admissions p f db) = qd_deleted_sessions db"
  by (simp_all add: update_admissions_def)

lemma bump_epoch_ledgers [simp]:
  "qd_admissions (bump_epoch sid db) = qd_admissions db" "qd_reservations (bump_epoch sid db) = qd_reservations db"
  by (simp_all add: bump_epoch_def)

lemma admit_resume_effect:
  assumes "admit_resume digest uuid now inp db = (r, db')" shows "ledger_effect db db'"
proof -
  obtain x db1 where x: "reserveConcurrentSession uuid (resume_input digest now inp) db = (x, db1)" by fastforce
  have "ledger_effect db db1" by (rule effect_grow[OF reserve_grow[OF x]])
  moreover have "ledger_effect db1 (bump_epoch (ai_sessionId inp) db1)" by (rule effect_same) simp_all
  moreover have "db' \<in> {db, db1, bump_epoch (ai_sessionId inp) db1}"
    using assms x by (auto simp: admit_resume_def split: sum.splits QuotaDecision.splits if_splits)
  moreover have "ledger_effect db db" by (rule effect_same) simp_all
  ultimately show ?thesis using effect_trans by blast
qed

lemma admit_cases:
  assumes "admitSessionMessage digest uuid now inp db = (r, db')"
  defines "e \<equiv> expire_issued (ai_userId inp) now db" and "a \<equiv> new_admission digest uuid now inp"
  shows "db' = e \<or> admit_resume digest uuid now inp e = (r, db')
    \<or> (db' = bump_epoch (ai_sessionId inp) (e\<lparr>qd_admissions := qd_admissions e @ [a]\<rparr>)
       \<and> (ai_userId inp, ai_requestId inp) \<notin> set (akeys e) \<union> set (rkeys e))"
  using assms by (auto simp: admitSessionMessage_def Let_def find_admission_def find_None_iff list_ex_iff akeys_def rkeys_def
      split: option.splits if_splits)

lemma admit_effect:
  assumes "admitSessionMessage digest uuid now inp db = (r, db')" shows "ledger_effect db db'"
proof -
  let ?e = "expire_issued (ai_userId inp) now db"
  have e: "ledger_effect db ?e" unfolding expire_issued_update by (rule expiring_rows.update_effect) simp_all
  from admit_cases[OF assms] consider "db' = ?e" | "admit_resume digest uuid now inp ?e = (r, db')"
    | "db' = bump_epoch (ai_sessionId inp) (?e\<lparr>qd_admissions := qd_admissions ?e @ [new_admission digest uuid now inp]\<rparr>)"
      "(ai_userId inp, ai_requestId inp) \<notin> set (akeys ?e) \<union> set (rkeys ?e)" by blast
  then show ?thesis
  proof cases
    case 3
    have "ledger_effect ?e db'" by (rule effect_append[where a = "new_admission digest uuid now inp"]) (use 3 in \<open>simp_all add: new_admission_def\<close>)
    then show ?thesis using e effect_trans by blast
  qed (use e admit_resume_effect effect_trans in blast)+
qed

lemma ledger_step_effect: "ledger_step db db' \<Longrightarrow> ledger_effect db db'"
proof (induction rule: ledger_step.induct)
  case (admit digest uuid now inp db r db')
  then show ?case by (rule admit_effect)
next
  case (quota db db')
  then show ?case by (intro effect_grow quota_step_grow)
next
  case (settle b reason now db r db')
  then show ?case by (intro effect_grow settle_grow)
next
  case (claim adm v db r db')
  then show ?case
    using effect_same claimed_rows.update_effect[of db']
    by (auto simp: claimContinueAdmissionOutcome_def split: option.splits if_splits)
next
  case (complete adm v now db r db')
  then show ?case
    using effect_same completed_rows.update_effect[of db'] by (auto simp: completeContinueAdmission_def split: if_splits)
next
  case (rename old new d uid db r db')
  then show ?case
    using effect_same renamed_rows.update_effect[of db' old uid d new db]
    by (auto simp: renameOwnedDaemonSession_def Let_def update_admissions_def split: option.splits if_splits)
next
  case (remove_daemon u d now db r db')
  then show ?case
    using effect_same unhosted_rows.update_effect[of db'] by (auto simp: deleteDaemon_def update_admissions_def split: if_splits)
next
  case (remove_session db sid now)
  show ?case by (rule deleted_rows.update_effect[of _ sid now]) (simp_all add: delete_session_rows_def)
next
  case (elsewhere db ss ds ts)
  show ?case by (rule effect_same) simp_all
qed

interpretation ledgers: transition_system "\<lambda>db. qd_admissions db = [] \<and> qd_reservations db = []" ledger_step ledger_ok
  using ledger_step_effect by unfold_locales (auto simp: ledger_effect_def ledger_ok_def ledger_inv_def akeys_def rkeys_def)

lemma ledger_run_kept: "ledger_step\<^sup>*\<^sup>* db db' \<Longrightarrow> ledger_kept db db'"
proof (induction rule: rtranclp_induct)
  case base
  show ?case by (rule ledger_kept_same) simp
next
  case (step x y)
  then show ?case using ledger_step_effect ledger_kept_trans by (auto simp: ledger_effect_def)
qed

section \<open>Retries after a rename\<close>

lemma admitted_fresh:
  assumes "admitSessionMessage digest uuid now inp db = (Inr (ContinueDecision adm False), db1)"
  defines "e \<equiv> expire_issued (ai_userId inp) now db" and "a \<equiv> new_admission digest uuid now inp"
  shows "adm = (admission_of a)\<lparr>ca_canonical := None\<rparr>" "qd_admissions db1 = qd_admissions e @ [a]"
    "find_admission (ai_userId inp) (ai_requestId inp) e = None"
    "qd_sessions db1 = qd_sessions (bump_epoch (ai_sessionId inp) db)" "qd_daemons db1 = qd_daemons db \<and> qd_deleted_sessions db1 = qd_deleted_sessions db"
    "\<exists>s. session_policy db (ai_sessionId inp) (ai_userId inp) = Some s \<and> may_message inp db s"
proof -
  have f: "qd_sessions e = qd_sessions db" "qd_daemons e = qd_daemons db" "qd_deleted_sessions e = qd_deleted_sessions db"
    by (simp_all add: e_def expire_issued_def)
  then have g: "session_policy e = session_policy db" "may_message inp e = may_message inp db"
    by (simp_all add: session_policy_def may_message_def fun_eq_iff)
  have "adm = (admission_of a)\<lparr>ca_canonical := None\<rparr> \<and> qd_admissions db1 = qd_admissions e @ [a]
      \<and> find_admission (ai_userId inp) (ai_requestId inp) e = None
      \<and> qd_sessions db1 = qd_sessions (bump_epoch (ai_sessionId inp) e) \<and> qd_daemons db1 = qd_daemons e \<and> qd_deleted_sessions db1 = qd_deleted_sessions e
      \<and> (\<exists>s. session_policy e (ai_sessionId inp) (ai_userId inp) = Some s \<and> may_message inp e s)"
    using assms(1) unfolding a_def e_def
    by (auto simp: admitSessionMessage_def Let_def bump_epoch_def admit_resume_def split: option.splits if_splits sum.splits prod.splits)
  then show "adm = (admission_of a)\<lparr>ca_canonical := None\<rparr>" "qd_admissions db1 = qd_admissions e @ [a]"
    "find_admission (ai_userId inp) (ai_requestId inp) e = None"
    "qd_sessions db1 = qd_sessions (bump_epoch (ai_sessionId inp) db)" "qd_daemons db1 = qd_daemons db \<and> qd_deleted_sessions db1 = qd_deleted_sessions db"
    "\<exists>s. session_policy db (ai_sessionId inp) (ai_userId inp) = Some s \<and> may_message inp db s"
    unfolding f g by (simp_all add: bump_epoch_def f)
qed

lemma find_SomeD: "List.find P xs = Some x \<Longrightarrow> x \<in> set xs \<and> P x"
  by (induction xs) (auto split: if_splits)

lemma find_append: "List.find P (xs @ ys) = (case List.find P xs of None \<Rightarrow> List.find P ys | Some x \<Rightarrow> Some x)"
  by (induction xs) auto

lemma find_map: "List.find P (map f xs) = map_option f (List.find (\<lambda>x. P (f x)) xs)"
  by (induction xs) auto

lemma find_updated:
  assumes "\<And>x. P (g x) \<longleftrightarrow> P x"
  shows "List.find P (map (\<lambda>x. if Q x then g x else x) xs) = map_option (\<lambda>x. if Q x then g x else x) (List.find P xs)"
proof -
  have "(\<lambda>x. P (if Q x then g x else x)) = P" using assms by auto
  then show ?thesis by (simp add: find_map)
qed

lemma find_session: "List.find (\<lambda>s. sn_id s = x) ss \<noteq> None \<longleftrightarrow> x \<in> sn_id ` set ss"
  by (auto simp: find_None_iff)

lemma bump_epoch_ids: "sn_id ` set (qd_sessions (bump_epoch sid db)) = sn_id ` set (qd_sessions db)"
proof -
  have "map sn_id (qd_sessions (bump_epoch sid db)) = map sn_id (qd_sessions db)" by (simp add: bump_epoch_def)
  then show ?thesis by (metis set_map)
qed

text \<open>After the rename the ledger row of the request answers for the new name.\<close>

lemma renamed_admission:
  assumes adm: "admitSessionMessage digest uuid now inp db = (Inr (ContinueDecision adm False), db1)"
    and ren: "renameOwnedDaemonSession (ai_sessionId inp) new (ai_daemonId inp) (Some (ai_userId inp)) db1 = (Inr True, db2)"
  shows "find_admission (ai_userId inp) (ai_requestId inp) db2
      = Some (rename_admission (ai_sessionId inp) new (new_admission digest uuid now inp))"
    "qd_sessions db2 = map (\<lambda>s. if sn_id s = ai_sessionId inp
        then s\<lparr>sn_id := new, sn_daemon := Some (ai_daemonId inp), sn_user := Some (ai_userId inp)\<rparr> else s) (qd_sessions db1)"
    "qd_daemons db2 = qd_daemons db1" "qd_deleted_sessions db2 = qd_deleted_sessions db1"
    "new \<notin> sn_id ` set (qd_sessions db1)"
proof -
  let ?a = "new_admission digest uuid now inp" and ?e = "expire_issued (ai_userId inp) now db"
  note f = admitted_fresh[OF adm]
  obtain s where "session_policy db (ai_sessionId inp) (ai_userId inp) = Some s" using f(6) by blast
  then have "s \<in> set (qd_sessions db)" "sn_id s = ai_sessionId inp" unfolding session_policy_def by (blast dest: find_SomeD)+
  then have "ai_sessionId inp \<in> sn_id ` set (qd_sessions db)" by force
  then have "List.find (\<lambda>s. sn_id s = ai_sessionId inp) (qd_sessions db1) \<noteq> None"
    unfolding f(4) find_session bump_epoch_ids .
  then have d: "db2 = update_admissions (\<lambda>a. canonical_session a = ai_sessionId inp \<and> Some (ai_userId inp) = Some (am_user a) \<and> am_daemon a = ai_daemonId inp)
        (rename_admission (ai_sessionId inp) new)
        (db1\<lparr>qd_sessions := map (\<lambda>s. if sn_id s = ai_sessionId inp
           then s\<lparr>sn_id := new, sn_daemon := Some (ai_daemonId inp), sn_user := Some (ai_userId inp)\<rparr> else s) (qd_sessions db1)\<rparr>)"
    and n: "List.find (\<lambda>s. sn_id s = new) (qd_sessions db1) = None"
    using ren by (auto simp: renameOwnedDaemonSession_def Let_def coalesce_def split: option.splits if_splits cong: if_cong)
  show "new \<notin> sn_id ` set (qd_sessions db1)" using n by (auto simp: find_None_iff)
  show "qd_sessions db2 = map (\<lambda>s. if sn_id s = ai_sessionId inp
        then s\<lparr>sn_id := new, sn_daemon := Some (ai_daemonId inp), sn_user := Some (ai_userId inp)\<rparr> else s) (qd_sessions db1)"
    "qd_daemons db2 = qd_daemons db1" "qd_deleted_sessions db2 = qd_deleted_sessions db1" by (simp_all add: d update_admissions_def)
  have "find_admission (ai_userId inp) (ai_requestId inp) db1 = Some ?a"
    using f(3) by (simp add: find_admission_def f(2) find_append new_admission_def split: option.splits)
  moreover have "canonical_session ?a = ai_sessionId inp" "am_user ?a = ai_userId inp" "am_daemon ?a = ai_daemonId inp"
    by (simp_all add: new_admission_def canonical_session_def)
  ultimately show "find_admission (ai_userId inp) (ai_requestId inp) db2 = Some (rename_admission (ai_sessionId inp) new ?a)"
    unfolding find_admission_def d update_admissions_def
    by (simp add: find_updated rename_admission_def)
qed

lemma renamed_policy:
  assumes adm: "admitSessionMessage digest uuid now inp db = (Inr (ContinueDecision adm False), db1)"
    and ren: "renameOwnedDaemonSession (ai_sessionId inp) new (ai_daemonId inp) (Some (ai_userId inp)) db1 = (Inr True, db2)"
    and ids: "distinct (map sn_id (qd_sessions db))" and new: "\<not> starts_with new ''pending-''" "new \<notin> set (qd_deleted_sessions db)"
  shows "\<exists>s. session_policy db2 new (ai_userId inp) = Some s \<and> may_message (inp\<lparr>ai_sessionId := new, ai_command := c\<rparr>) db2 s"
proof -
  note f = admitted_fresh[OF adm] and r = renamed_admission[OF adm ren]
  let ?b = "\<lambda>s. if sn_id s = ai_sessionId inp then s\<lparr>sn_activity_epoch := sn_activity_epoch s + 1\<rparr> else s"
  let ?r = "\<lambda>s. if sn_id s = ai_sessionId inp
        then s\<lparr>sn_id := new, sn_daemon := Some (ai_daemonId inp), sn_user := Some (ai_userId inp)\<rparr> else s"
  obtain s0 where p: "session_policy db (ai_sessionId inp) (ai_userId inp) = Some s0" and may: "may_message inp db s0" using f(6) by blast
  then have s0: "s0 \<in> set (qd_sessions db)" "sn_id s0 = ai_sessionId inp" unfolding session_policy_def by (blast dest: find_SomeD)+
  have ss: "qd_sessions db2 = map (\<lambda>s. ?r (?b s)) (qd_sessions db)" by (simp add: r(2) f(4) bump_epoch_def)
  have fresh: "sn_id s \<noteq> new" if "s \<in> set (qd_sessions db)" for s
    using that r(5) by (auto simp: f(4) bump_epoch_ids)
  have same: "s = s0" if "s \<in> set (qd_sessions db)" "sn_id (?r (?b s)) = new" for s
    using that fresh[of s] s0 ids by (auto simp: distinct_map inj_on_def split: if_splits)
  have mem: "?r (?b s0) \<in> set (qd_sessions db2)" unfolding ss using s0(1) by (simp only: set_map) blast
  have "List.find (\<lambda>s. sn_id s = new \<and> sn_user s = Some (ai_userId inp) \<and> \<not> starts_with (sn_id s) ''pending-'') (qd_sessions db2) \<noteq> None"
    using mem s0(2) new(1) unfolding find_None_iff by force
  then obtain s where s: "session_policy db2 new (ai_userId inp) = Some s" unfolding session_policy_def by blast
  then have "s \<in> set (qd_sessions db2)" "sn_id s = new" unfolding session_policy_def by (blast dest: find_SomeD)+
  then have "s = ?r (?b s0)" unfolding ss using same by auto
  moreover have "may_message (inp\<lparr>ai_sessionId := new, ai_command := c\<rparr>) db2 (?r (?b s0))"
    using may s0(2) new(2) r(3,4) f(5) by (simp add: may_message_def observer_session_def)
  ultimately show ?thesis using s by blast
qed

lemma canonical_session_state [simp]: "canonical_session (a\<lparr>am_state := x\<rparr>) = canonical_session a"
  by (simp add: canonical_session_def split: option.split)

lemma expire_issued_policy [simp]:
  "session_policy (expire_issued u now db) = session_policy db" "may_message inp (expire_issued u now db) = may_message inp db"
  by (simp_all add: expire_issued_def session_policy_def may_message_def fun_eq_iff)

section \<open>Properties\<close>

text \<open>
  A request is recorded once. Starting from empty ledgers, whatever messages are admitted,
  sessions reserved, settled, renamed or deleted and hosts removed, no two admissions and no two
  reservations of an account share a request identifier, and no request is in both ledgers.
\<close>

lemma requests_are_recorded_once:
  assumes "qd_admissions db0 = [] \<and> qd_reservations db0 = []" and "ledger_step\<^sup>*\<^sup>* db0 db"
  shows "distinct (map (\<lambda>a. (am_user a, am_request a)) (qd_admissions db))
    \<and> distinct (map (\<lambda>r. (qv_user r, qv_request r)) (qd_reservations db))
    \<and> (\<lambda>a. (am_user a, am_request a)) ` set (qd_admissions db) \<inter> (\<lambda>r. (qv_user r, qv_request r)) ` set (qd_reservations db) = {}"
  using ledgers.inv_reachable[OF assms] by (simp add: ledger_ok_def ledger_inv_def akeys_def rkeys_def)


text \<open>
  A retried message finds its admission after a rename. When a message was admitted and the
  daemon then renames the session, the original command resolves to the new identifier, and the
  command readdressed to it is answered with the same admission instead of being admitted again.
\<close>

lemma retry_follows_rename:
  assumes "admitSessionMessage digest uuid now inp db = (Inr (ContinueDecision adm False), db1)"
    and "renameOwnedDaemonSession (ai_sessionId inp) new (ai_daemonId inp) (Some (ai_userId inp)) db1 = (Inr True, db2)"
    and "distinct (map sn_id (qd_sessions db))" and "\<not> starts_with new ''pending-''" and "new \<notin> set (qd_deleted_sessions db)"
    and "map_of (ai_command inp) ''session_id'' = Some (JStr (ai_sessionId inp))"
    and "map_of (ai_command inp) ''request_id'' = Some (JStr (ai_requestId inp))" and "ai_requestId inp \<noteq> []"
    and "map_of (ai_command inp) ''msg_id'' = map_option JStr (command_msg_id (ai_command inp))"
  shows "resolveMessageSessionId digest (ai_userId inp) (ai_command inp) db2 = Some new
    \<and> (\<exists>adm' db3. admitSessionMessage digest uuid' now' (inp\<lparr>ai_sessionId := new, ai_command := jm_set ''session_id'' (JStr new) (ai_command inp)\<rparr>) db2
          = (Inr (ContinueDecision adm' True), db3) \<and> ca_id adm' = ca_id adm \<and> ca_canonical adm' = Some new)"
proof
  let ?a = "rename_admission (ai_sessionId inp) new (new_admission digest uuid now inp)"
  let ?inp = "inp\<lparr>ai_sessionId := new, ai_command := jm_set ''session_id'' (JStr new) (ai_command inp)\<rparr>"
  note found = renamed_admission(1)[OF assms(1,2)]
  have same: "jm_set ''session_id'' (JStr (ai_sessionId inp)) (ai_command inp) = ai_command inp" using assms(6) by (rule jm_set_same)
  have a: "am_session ?a = ai_sessionId inp" "canonical_session ?a = new" "am_msg_id ?a = command_msg_id (ai_command inp)"
    "am_command_hash ?a = messageCommandHash digest (ai_command inp)" "am_daemon ?a = ai_daemonId inp" "am_id ?a = uuid"
    by (simp_all add: rename_admission_def new_admission_def canonical_session_def)
  have "same_msg_id ?a (map_of (ai_command inp) ''msg_id'')"
    using assms(9) a(3) by (simp add: same_msg_id_def split: option.splits)
  then show "resolveMessageSessionId digest (ai_userId inp) (ai_command inp) db2 = Some new"
    using found assms(6-8) a same by (simp add: resolveMessageSessionId_def names_session_def)
  obtain a2 where a2: "find_admission (ai_userId inp) (ai_requestId inp) (expire_issued (ai_userId inp) now' db2) = Some a2"
    "a2 = ?a \<or> a2 = ?a\<lparr>am_state := AUncertain\<rparr>"
    using found by (auto simp: find_admission_def expire_issued_def find_updated split: if_splits)
  have id: "ca_id adm = uuid" using admitted_fresh(1)[OF assms(1)] by (simp add: admission_of_def new_admission_def)
  have "command_msg_id (jm_set ''session_id'' (JStr new) (ai_command inp)) = command_msg_id (ai_command inp)"
    by (simp add: command_msg_id_def)
  then have "repeats digest ?inp a2" "ca_id (admission_of a2) = ca_id adm" "ca_canonical (admission_of a2) = Some new"
    using a2(2) a same id by (auto simp: repeats_def admission_of_def)
  moreover obtain s where "session_policy db2 new (ai_userId inp) = Some s" "may_message ?inp db2 s"
    using renamed_policy[OF assms(1-5)] by blast
  ultimately show "\<exists>adm' db3. admitSessionMessage digest uuid' now' ?inp db2 = (Inr (ContinueDecision adm' True), db3)
      \<and> ca_id adm' = ca_id adm \<and> ca_canonical adm' = Some new"
    using a2(1) by (simp add: admitSessionMessage_def Let_def)
qed

section \<open>Witnesses\<close>

definition sample_session :: root_session_row where
  "sample_session = \<lparr>sn_id = ''s'', sn_user = Some 1, sn_daemon = Some ''d'', sn_status = Some ''idle'', sn_is_subagent = None,
     sn_agent_type = Some ''codex'', sn_control_mode = None, sn_created_at = 0, sn_activity_epoch = 0\<rparr>"

definition sample_ledgers :: quota_db where
  "sample_ledgers = \<lparr>qd_reservations = [], qd_admissions = [], qd_sessions = [sample_session],
     qd_daemons = [\<lparr>dm_id = ''d'', dm_user = Some 1, dm_machine = None, dm_status = ''online'', dm_hostname = None\<rparr>],
     qd_deleted_sessions = []\<rparr>"

definition sample_message :: admission_input where
  "sample_message = \<lparr>ai_userId = 1, ai_daemonId = ''d'', ai_sessionId = ''s'', ai_requestId = ''q'',
     ai_command = [(''type'', JStr ''user_message''), (''session_id'', JStr ''s''), (''request_id'', JStr ''q'')], ai_limit = Some 1\<rparr>"

definition sample_admission :: ContinueAdmission where
  "sample_admission = \<lparr>ca_id = ''a'', ca_userId = 1, ca_daemonId = ''d'', ca_sessionId = ''s'', ca_requestId = ''q'',
     ca_canonical = None, ca_state = Issued, ca_expiresAt = 20000\<rparr>"

definition sample_admit :: "quota_db \<Rightarrow> (admission_error + MessageAdmissionDecision) \<times> quota_db" where
  "sample_admit = admitSessionMessage (\<lambda>_. ''h'') ''a'' 0 sample_message"

definition sample_claim :: "quota_db \<Rightarrow> (admission_error + unit) \<times> quota_db" where
  "sample_claim = claimContinueAdmissionOutcome sample_admission RejectedOutcome"

lemma sample_admitted: "sample_admit sample_ledgers = (Inr (ContinueDecision sample_admission False), snd (sample_admit sample_ledgers))"
  by code_simp

lemma sample_admit_step: "ledger_step sample_ledgers (snd (sample_admit sample_ledgers))"
  using admit[OF prod.collapse[symmetric]] unfolding sample_admit_def .

lemma sample_claim_step: "ledger_step db (snd (sample_claim db))"
  using claim[OF prod.collapse[symmetric]] unfolding sample_claim_def .

lemma requests_are_recorded_once_example:
  "distinct (map (\<lambda>a. (am_user a, am_request a)) (qd_admissions (snd (sample_admit sample_ledgers))))
   \<and> length (qd_admissions (snd (sample_admit sample_ledgers))) = 1"
proof
  show "distinct (map (\<lambda>a. (am_user a, am_request a)) (qd_admissions (snd (sample_admit sample_ledgers))))"
    using requests_are_recorded_once[of sample_ledgers, OF _ r_into_rtranclp[of ledger_step, OF sample_admit_step]] by (simp add: sample_ledgers_def)
  show "length (qd_admissions (snd (sample_admit sample_ledgers))) = 1" by code_simp
qed


lemma retry_follows_rename_example:
  "resolveMessageSessionId (\<lambda>_. ''h'') 1 (ai_command sample_message)
     (snd (renameOwnedDaemonSession ''s'' ''t'' ''d'' (Some 1) (snd (sample_admit sample_ledgers)))) = Some ''t''"
proof -
  let ?db1 = "snd (sample_admit sample_ledgers)"
  have "renameOwnedDaemonSession ''s'' ''t'' ''d'' (Some 1) ?db1 = (Inr True, snd (renameOwnedDaemonSession ''s'' ''t'' ''d'' (Some 1) ?db1))"
    by code_simp
  then show ?thesis
    using retry_follows_rename[OF sample_admitted[unfolded sample_admit_def],
        where new = "''t''" and ?db2.0 = "snd (renameOwnedDaemonSession ''s'' ''t'' ''d'' (Some 1) ?db1)"]
    by (simp add: sample_message_def sample_ledgers_def sample_session_def command_msg_id_def starts_with_def sample_admit_def)
qed

end
