(* ===== verification/Lifecycle_Time.thy ===== *)
theory Lifecycle_Time
  imports Prelude
begin

text \<open>
  Timestamps with microsecond precision, \<open>relay/src/session-lifecycle/time.ts\<close>, over the proleptic
  Gregorian calendar of JavaScript's \<open>Date\<close>. A string the parser throws on is \<open>None\<close>.
\<close>

section \<open>Calendar\<close>

definition leap :: "int \<Rightarrow> bool" where
  "leap y = (4 dvd y \<and> (\<not> 100 dvd y \<or> 400 dvd y))"

definition days_in_month :: "int \<Rightarrow> nat \<Rightarrow> nat" where
  "days_in_month y m =
     (if m = 2 then (if leap y then 29 else 28) else if m \<in> {4, 6, 9, 11} then 30 else 31)"

text \<open>Days from the first of January of year 0 to that of year \<open>y\<close>.\<close>

definition days_before_year :: "int \<Rightarrow> int" where
  "days_before_year y = 365 * y + (y + 3) div 4 - (y + 99) div 100 + (y + 399) div 400"

definition days_before_month :: "int \<Rightarrow> nat \<Rightarrow> nat" where
  "days_before_month y m = sum_list (map (days_in_month y) [1..<m])"

definition EPOCH_DAYS :: int where
  "EPOCH_DAYS = 719528"

definition day_number :: "int \<Rightarrow> nat \<Rightarrow> nat \<Rightarrow> int" where
  "day_number y m d = days_before_year y + int (days_before_month y m) + int d - 1 - EPOCH_DAYS"

definition year_of :: "int \<Rightarrow> int" where
  "year_of n =
     (let e = 400 * n div 146097
      in if days_before_year (e + 1) \<le> n then e + 1 else if days_before_year e \<le> n then e else e - 1)"

fun month_from :: "int \<Rightarrow> nat \<Rightarrow> nat \<Rightarrow> nat \<Rightarrow> nat \<times> nat" where
  "month_from y m 0 r = (m, r + 1)"
| "month_from y m (Suc k) r = (if r < days_in_month y m then (m, r + 1) else month_from y (m + 1) k (r - days_in_month y m))"

text \<open>Year, month and day of a number of days since the epoch.\<close>

definition civil :: "int \<Rightarrow> int \<times> nat \<times> nat" where
  "civil days =
     (let n = days + EPOCH_DAYS; y = year_of n; (m, d) = month_from y 1 11 (nat (n - days_before_year y)) in (y, m, d))"

lemma ceiling_bounds:
  fixes y k c :: int
  assumes "0 < k" "c + 1 = k"
  shows "y \<le> k * ((y + c) div k)" "k * ((y + c) div k) \<le> y + c"
proof -
  have "k * ((y + c) div k) = y + c - (y + c) mod k" by (simp add: minus_mod_eq_mult_div)
  moreover have "0 \<le> (y + c) mod k" "(y + c) mod k < k" using assms by simp_all
  ultimately show "y \<le> k * ((y + c) div k)" "k * ((y + c) div k) \<le> y + c" using assms by linarith+
qed

lemma ceiling_step:
  fixes y k c :: int
  assumes "0 < k" "c + 1 = k"
  shows "(y + 1 + c) div k = (y + c) div k + (if k dvd y then 1 else 0)"
proof (cases "k dvd y")
  case True
  then obtain q where q: "y = k * q" by (elim dvdE)
  have "c div k = 0" using assms by (intro div_pos_pos_trivial) simp_all
  moreover have "y + 1 + c = k * (q + 1)" "y + c = c + k * q" using q assms by (simp_all add: algebra_simps)
  ultimately show ?thesis using assms(1) True by simp
next
  case False
  define r where "r = y mod k"
  have r: "0 \<le> r" "r < k" "r \<noteq> 0" using False assms by (auto simp: r_def dvd_eq_mod_eq_0)
  have y: "y = k * (y div k) + r" by (simp add: r_def)
  have "(r - 1 + k * (y div k + 1)) div k = y div k + 1" "(r + k * (y div k + 1)) div k = y div k + 1"
    using r by (simp_all add: div_pos_pos_trivial)
  moreover have "r - 1 + k * (y div k + 1) = y + c" "r + k * (y div k + 1) = y + 1 + c"
    using y assms(2) by (simp_all add: algebra_simps)
  ultimately show ?thesis using False by simp
qed

lemma year_step: "days_before_year (y + 1) = days_before_year y + (if leap y then 366 else 365)"
proof -
  have "days_before_year (y + 1) = days_before_year y + 365 + (if 4 dvd y then 1 else 0) - (if 100 dvd y then 1 else 0) + (if 400 dvd y then 1 else 0)"
    unfolding days_before_year_def
    by (subst ceiling_step[of 4 3], simp, simp, subst ceiling_step[of 100 99], simp, simp, subst ceiling_step[of 400 399], simp, simp)
      (simp only: algebra_simps)
  moreover have "100 dvd y \<Longrightarrow> 4 dvd y" "400 dvd y \<Longrightarrow> 100 dvd y"
    using dvd_trans[of 4 100 y] dvd_trans[of 100 400 y] by simp_all
  ultimately show ?thesis by (cases "4 dvd y"; cases "100 dvd y"; cases "400 dvd y") (simp_all add: leap_def)
qed

lemma leap_average:
  fixes y a b c :: int
  assumes "y \<le> 4 * a" "4 * a \<le> y + 3" "y \<le> 100 * b" "100 * b \<le> y + 99" "y \<le> 400 * c" "400 * c \<le> y + 399"
  shows "146097 * y - 396 \<le> 400 * (365 * y + a - b + c)" "400 * (365 * y + a - b + c) \<le> 146097 * y + 699"
  using assms by (simp_all add: algebra_simps)

lemma days_before_year_bounds: "146097 * y - 396 \<le> 400 * days_before_year y" "400 * days_before_year y \<le> 146097 * y + 699"
  unfolding days_before_year_def by (rule leap_average; rule ceiling_bounds; simp)+

lemma year_estimate:
  assumes "146097 * e \<le> 400 * n" "400 * n < 146097 * e + 146097"
  shows "days_before_year (e - 1) \<le> n" "n < days_before_year (e + 1 + 1)"
  using assms days_before_year_bounds[of "e - 1"] days_before_year_bounds[of "e + 1 + 1"] by (simp_all add: algebra_simps)

lemma year_of_bounds: "days_before_year (year_of n) \<le> n \<and> n < days_before_year (year_of n + 1)"
proof -
  define e where "e = 400 * n div 146097"
  have "146097 * e = 400 * n - 400 * n mod 146097" unfolding e_def by (simp add: minus_mod_eq_mult_div)
  moreover have "0 \<le> 400 * n mod 146097" "400 * n mod 146097 < 146097" by simp_all
  ultimately have "146097 * e \<le> 400 * n" "400 * n < 146097 * e + 146097" by linarith+
  from year_estimate[OF this] show ?thesis unfolding year_of_def e_def[symmetric] Let_def by (simp split: if_splits)
qed

lemma month_from_spec:
  assumes "month_from y m k r = (m', d)" and "r < sum_list (map (days_in_month y) [m..<m + k + 1])"
  shows "m \<le> m' \<and> m' \<le> m + k \<and> 1 \<le> d \<and> d \<le> days_in_month y m' \<and> r + 1 = sum_list (map (days_in_month y) [m..<m']) + d"
  using assms
proof (induction k arbitrary: m r)
  case 0
  then show ?case by auto
next
  case (Suc k)
  show ?case
  proof (cases "r < days_in_month y m")
    case True
    then show ?thesis using Suc.prems by auto
  next
    case False
    let ?r = "r - days_in_month y m"
    have "month_from y (m + 1) k ?r = (m', d)" using False Suc.prems(1) by simp
    moreover have "?r < sum_list (map (days_in_month y) [m + 1..<m + 1 + k + 1])"
    proof -
      have "[m..<m + Suc k + 1] = m # [m + 1..<m + 1 + k + 1]" by (simp add: upt_conv_Cons del: upt_Suc)
      then show ?thesis using False Suc.prems(2) by (simp del: upt_Suc)
    qed
    ultimately have h: "m + 1 \<le> m' \<and> m' \<le> m + 1 + k \<and> 1 \<le> d \<and> d \<le> days_in_month y m' \<and> ?r + 1 = sum_list (map (days_in_month y) [m + 1..<m']) + d"
      by (rule Suc.IH)
    then have "sum_list (map (days_in_month y) [m..<m']) = days_in_month y m + sum_list (map (days_in_month y) [m + 1..<m'])"
      by (simp add: upt_conv_Cons)
    then show ?thesis using h False by auto
  qed
qed

lemma year_length: "sum_list (map (days_in_month y) [1..<13]) = (if leap y then 366 else 365)"
proof -
  have "[1..<13] = [1, 2, 3, 4, 5, 6, 7, 8, 9, 10, 11, 12::nat]" by (simp add: upt_rec)
  then show ?thesis by (simp add: days_in_month_def)
qed

lemma civil_day_number:
  assumes "civil days = (y, m, d)"
  shows "day_number y m d = days" "1 \<le> m \<and> m \<le> 12 \<and> 1 \<le> d \<and> d \<le> days_in_month y m" "y = year_of (days + EPOCH_DAYS)"
proof -
  let ?n = "days + EPOCH_DAYS" and ?r = "nat (days + EPOCH_DAYS - days_before_year (year_of (days + EPOCH_DAYS)))"
  show y: "y = year_of ?n" using assms by (auto simp: civil_def Let_def split: prod.splits)
  then have md: "month_from y 1 11 ?r = (m, d)" using assms by (auto simp: civil_def Let_def split: prod.splits)
  have b: "days_before_year y \<le> ?n" "?n < days_before_year (y + 1)" using year_of_bounds[of ?n] y by simp_all
  then have "?r < sum_list (map (days_in_month y) [1..<1 + 11 + 1])"
    using year_step[of y] year_length[of y] y by (auto simp: nat_less_iff split: if_splits)
  from month_from_spec[OF md this]
  have s: "1 \<le> m \<and> m \<le> 12 \<and> 1 \<le> d \<and> d \<le> days_in_month y m \<and> ?r + 1 = days_before_month y m + d"
    by (simp add: days_before_month_def)
  then show "1 \<le> m \<and> m \<le> 12 \<and> 1 \<le> d \<and> d \<le> days_in_month y m" by blast
  have "int ?r + 1 = int (days_before_month y m) + int d" using s by linarith
  then show "day_number y m d = days" using b y by (simp add: day_number_def)
qed

lemma days_before_year_mono: "a \<le> b \<Longrightarrow> days_before_year a \<le> days_before_year b"
proof (induction b rule: int_ge_induct)
  case (step b)
  then show ?case using year_step[of b] by (simp split: if_splits)
qed simp

section \<open>Reading and printing\<close>

definition DAY_US :: int where
  "DAY_US = 86400000000"

definition field :: "nat \<Rightarrow> nat \<Rightarrow> string \<Rightarrow> string" where
  "field a n s = take n (drop a s)"

definition digits :: "nat \<Rightarrow> string \<Rightarrow> bool" where
  "digits n x = (length x = n \<and> list_all is_digit x)"

text \<open>The offset of a zone in minutes.\<close>

definition zone_minutes :: "string \<Rightarrow> int option" where
  "zone_minutes z =
     (if z = ''Z'' then Some 0
      else if length z = 6 \<and> (field 0 1 z = ''+'' \<or> field 0 1 z = ''-'') \<and> digits 2 (field 1 2 z) \<and> field 3 1 z = '':''
          \<and> digits 2 (field 4 2 z) \<and> decimal_value (field 1 2 z) \<le> 23 \<and> decimal_value (field 4 2 z) \<le> 59
      then Some ((if field 0 1 z = ''-'' then - 1 else 1) * int (60 * decimal_value (field 1 2 z) + decimal_value (field 4 2 z)))
      else None)"

definition split_fraction :: "string \<Rightarrow> string option \<times> string" where
  "split_fraction tail =
     (case tail of
        [] \<Rightarrow> (None, [])
      | c # r \<Rightarrow> if c = CHR ''.'' then (Some (takeWhile is_digit r), dropWhile is_digit r) else (None, tail))"

definition fraction_micros :: "string option \<Rightarrow> nat option" where
  "fraction_micros f =
     (case f of
        None \<Rightarrow> Some 0
      | Some x \<Rightarrow> if 1 \<le> length x \<and> length x \<le> 6 then Some (decimal_value (x @ replicate (6 - length x) (CHR ''0''))) else None)"

definition timestamp_shape :: "string \<Rightarrow> bool" where
  "timestamp_shape s =
     (digits 4 (field 0 4 s) \<and> field 4 1 s = ''-'' \<and> digits 2 (field 5 2 s) \<and> field 7 1 s = ''-'' \<and> digits 2 (field 8 2 s)
      \<and> field 10 1 s = ''T'' \<and> digits 2 (field 11 2 s) \<and> field 13 1 s = '':'' \<and> digits 2 (field 14 2 s) \<and> field 16 1 s = '':''
      \<and> digits 2 (field 17 2 s))"

definition valid_date :: "int \<Rightarrow> nat \<Rightarrow> nat \<Rightarrow> bool" where
  "valid_date y m d = (1 \<le> m \<and> m \<le> 12 \<and> 1 \<le> d \<and> d \<le> days_in_month y m)"

definition timestampMicros :: "string \<Rightarrow> int option" where
  "timestampMicros s =
     (let (fraction, zone) = split_fraction (drop 19 s);
          y = int (decimal_value (field 0 4 s)); m = decimal_value (field 5 2 s); d = decimal_value (field 8 2 s);
          hour = decimal_value (field 11 2 s); minute = decimal_value (field 14 2 s); second = decimal_value (field 17 2 s)
      in if timestamp_shape s \<and> valid_date y m d \<and> hour \<le> 23 \<and> minute \<le> 59 \<and> second \<le> 59
         then (case (fraction_micros fraction, zone_minutes zone) of
                 (Some f, Some off) \<Rightarrow>
                   Some ((day_number y m d * 86400 + int (hour * 3600 + minute * 60 + second) - off * 60) * 1000000 + int f)
               | _ \<Rightarrow> None)
         else None)"

definition pad :: "nat \<Rightarrow> nat \<Rightarrow> string" where
  "pad n x = replicate (n - length (nat_str x)) (CHR ''0'') @ nat_str x"

definition iso_year :: "int \<Rightarrow> string" where
  "iso_year y =
     (if 0 \<le> y \<and> y \<le> 9999 then pad 4 (nat y) else (if y < 0 then CHR ''-'' else CHR ''+'') # pad 6 (nat \<bar>y\<bar>))"

text \<open>\<open>toISOString\<close> with six digits of fraction in place of three; a time outside the range of \<open>Date\<close> throws.\<close>

definition iso_string :: "int \<Rightarrow> nat \<Rightarrow> string" where
  "iso_string seconds fraction =
     (let (y, m, d) = civil (seconds div 86400); r = nat (seconds mod 86400)
      in iso_year y @ ''-'' @ pad 2 m @ ''-'' @ pad 2 d @ ''T'' @ pad 2 (r div 3600) @ '':'' @ pad 2 (r div 60 mod 60)
         @ '':'' @ pad 2 (r mod 60) @ ''.'' @ pad 6 fraction @ ''Z'')"

definition microsTimestamp :: "int \<Rightarrow> string option" where
  "microsTimestamp value =
     (let seconds = (if 0 \<le> value then value div 1000000 else - ((999999 - value) div 1000000));
          fraction = value - seconds * 1000000
      in if \<bar>seconds * 1000\<bar> \<le> 8640000000000000 then Some (iso_string seconds (nat fraction)) else None)"

lemmas timestamp_defs = timestampMicros_def timestamp_shape_def field_def digits_def is_digit_def split_fraction_def
  fraction_micros_def zone_minutes_def decimal_value_def valid_date_def days_in_month_def day_number_def days_before_year_def
  days_before_month_def leap_def EPOCH_DAYS_def upt_rec

section \<open>Round trip\<close>

lemma seconds_floor: "- ((999999 - v) div 1000000) = v div (1000000 :: int)"
proof -
  define q r where "q = v div 1000000" and "r = v mod 1000000"
  have "v = 1000000 * q + r" "0 \<le> r" "r < 1000000" by (simp_all add: q_def r_def)
  then have "(999999 - v) div 1000000 = - q" by (intro int_div_pos_eq[of _ _ _ "999999 - r"]) simp_all
  then have "(999999 - v) div 1000000 = - (v div 1000000)" by (simp only: q_def)
  then show ?thesis by simp
qed

lemma nat_str_length: "x < 10 ^ n \<Longrightarrow> 0 < n \<Longrightarrow> length (nat_str x) \<le> n"
proof (induction n arbitrary: x)
  case (Suc n)
  show ?case
  proof (cases "x < 10")
    case True
    then show ?thesis by (subst nat_str.simps) simp
  next
    case False
    then have "x div 10 < 10 ^ n" "0 < n" using Suc.prems(1) by (auto simp: less_mult_imp_div_less mult.commute) (metis gr0I less_one mult.right_neutral not_less power_0)
    then have "length (nat_str (x div 10)) \<le> n" using Suc.IH by blast
    then show ?thesis using False by (subst nat_str.simps) simp
  qed
qed simp

lemma decimal_value_zeros: "decimal_value (replicate k (CHR ''0'') @ s) = decimal_value s"
  by (induction k) (simp_all add: decimal_value_def)

lemma pad_digits: "x < 10 ^ n \<Longrightarrow> 0 < n \<Longrightarrow> digits n (pad n x)"
  using nat_str_length[of x n] nat_str_digits[of x] by (auto simp: digits_def pad_def list_all_iff is_digit_def)

lemma decimal_value_pad [simp]: "decimal_value (pad n x) = x"
  by (simp add: pad_def decimal_value_zeros)

lemma stamp_fields:
  fixes tail :: string
  assumes "digits 4 Y" "digits 2 M" "digits 2 D" "digits 2 H" "digits 2 I" "digits 2 S"
  defines "s \<equiv> Y @ ''-'' @ M @ ''-'' @ D @ ''T'' @ H @ '':'' @ I @ '':'' @ S @ tail"
  shows "field 0 4 s = Y" "field 5 2 s = M" "field 8 2 s = D" "field 11 2 s = H" "field 14 2 s = I" "field 17 2 s = S" "drop 19 s = tail"
    "timestamp_shape s"
proof -
  have len: "length Y = 4" "length M = 2" "length D = 2" "length H = 2" "length I = 2" "length S = 2"
    using assms by (simp_all add: digits_def)
  show "field 0 4 s = Y" "field 5 2 s = M" "field 8 2 s = D" "field 11 2 s = H" "field 14 2 s = I" "field 17 2 s = S" "drop 19 s = tail"
    by (simp_all add: s_def field_def len)
  then show "timestamp_shape s"
    using assms(1-6) by (simp add: timestamp_shape_def) (simp add: s_def field_def len)
qed

lemma split_micros:
  assumes "digits 6 F"
  shows "split_fraction (''.'' @ F @ ''Z'') = (Some F, ''Z'')" "fraction_micros (Some F) = Some (decimal_value F)"
proof -
  have "\<not> is_digit (CHR ''Z'')" by (simp add: is_digit_def)
  moreover have "list_all is_digit F" "length F = 6" using assms by (simp_all add: digits_def)
  ultimately show "split_fraction (''.'' @ F @ ''Z'') = (Some F, ''Z'')" "fraction_micros (Some F) = Some (decimal_value F)"
    by (simp_all add: split_fraction_def fraction_micros_def takeWhile_append dropWhile_append list_all_iff)
qed

lemma clock_parts:
  fixes r :: nat
  assumes "r < 86400"
  shows "r div 3600 \<le> 23" "r div 60 mod 60 \<le> 59" "r mod 60 \<le> 59" "r div 3600 * 3600 + r div 60 mod 60 * 60 + r mod 60 = r"
proof -
  have "r div 3600 = r div 60 div 60" by (simp add: div_mult2_eq[symmetric])
  then show "r div 3600 * 3600 + r div 60 mod 60 * 60 + r mod 60 = r"
    using div_mult_mod_eq[of r 60] div_mult_mod_eq[of "r div 60" 60] by linarith
  show "r div 3600 \<le> 23" "r div 60 mod 60 \<le> 59" "r mod 60 \<le> 59" using assms by (simp_all add: less_Suc_eq_le[symmetric] less_mult_imp_div_less)
qed

lemma civil_range:
  assumes "civil days = (y, m, d)" and "0 \<le> days + EPOCH_DAYS" "days + EPOCH_DAYS < days_before_year 10000"
  shows "0 \<le> y \<and> y \<le> 9999"
proof -
  let ?n = "days + EPOCH_DAYS"
  have "days_before_year y \<le> ?n" "?n < days_before_year (y + 1)" using civil_day_number(3)[OF assms(1)] year_of_bounds[of ?n] by simp_all
  moreover have "days_before_year 0 = 0" by (simp add: days_before_year_def)
  ultimately show ?thesis
    using assms(2,3) days_before_year_mono[of "y + 1" 0] days_before_year_mono[of 10000 y] by linarith
qed

lemma iso_string_parses:
  assumes "0 \<le> seconds div 86400 + EPOCH_DAYS" "seconds div 86400 + EPOCH_DAYS < days_before_year 10000" "f < 1000000"
  shows "timestampMicros (iso_string seconds f) = Some (seconds * 1000000 + int f)"
proof -
  obtain y m d where c: "civil (seconds div 86400) = (y, m, d)" by (cases "civil (seconds div 86400)") auto
  define r where "r = nat (seconds mod 86400)"
  have r: "r < 86400" "seconds = seconds div 86400 * 86400 + int r" by (simp_all add: r_def nat_less_iff)
  note y = civil_range[OF c assms(1,2)] and day = civil_day_number(1,2)[OF c]
  have dim: "days_in_month y m \<le> 31" by (simp add: days_in_month_def)
  have dg: "digits 4 (pad 4 (nat y))" "digits 2 (pad 2 m)" "digits 2 (pad 2 d)" "digits 2 (pad 2 (r div 3600))"
    "digits 2 (pad 2 (r div 60 mod 60))" "digits 2 (pad 2 (r mod 60))" "digits 6 (pad 6 f)"
    using y day(2) dim clock_parts[OF r(1)] assms(3) by (auto intro!: pad_digits simp: nat_less_iff)
  have s: "iso_string seconds f = pad 4 (nat y) @ ''-'' @ pad 2 m @ ''-'' @ pad 2 d @ ''T'' @ pad 2 (r div 3600) @ '':''
      @ pad 2 (r div 60 mod 60) @ '':'' @ pad 2 (r mod 60) @ (''.'' @ pad 6 f @ ''Z'')"
    using y by (simp add: iso_string_def c r_def[symmetric] iso_year_def)
  have hm: "int (r div 3600 * 3600 + r div 60 mod 60 * 60 + r mod 60) = int r" using clock_parts(4)[OF r(1)] by simp
  have "timestampMicros (iso_string seconds f) = Some ((day_number y m d * 86400 + int (r div 3600 * 3600 + r div 60 mod 60 * 60 + r mod 60) - 0 * 60) * 1000000 + int f)"
    unfolding s timestampMicros_def Let_def stamp_fields[OF dg(1-6)] split_micros(1)[OF dg(7)]
    using y day(2) clock_parts[OF r(1)] split_micros(2)[OF dg(7)] stamp_fields(8)[OF dg(1-6)]
    by (simp add: valid_date_def zone_minutes_def)
  then show ?thesis using r(2) unfolding hm day(1) by simp
qed

text \<open>
  A timestamp that was printed is read back exactly, to the microsecond, for every moment of the
  years 0 to 9999, before and after the epoch.
\<close>

lemma timestamps_round_trip:
  assumes "- 62167219200000000 \<le> value" and "value < 253402300800000000"
  shows "\<exists>s. microsTimestamp value = Some s \<and> timestampMicros s = Some value"
proof -
  define seconds where "seconds = value div 1000000"
  have v: "value = seconds * 1000000 + value mod 1000000" "0 \<le> value mod 1000000" "value mod 1000000 < 1000000"
    by (simp_all add: seconds_def)
  then have b: "- 62167219200 \<le> seconds" "seconds < 253402300800" using assms by linarith+
  have "seconds div 86400 * 86400 \<le> seconds" "seconds < seconds div 86400 * 86400 + 86400"
    using div_mult_mod_eq[of seconds 86400] pos_mod_bound[of 86400 seconds] pos_mod_sign[of 86400 seconds] by linarith+
  then have "0 \<le> seconds div 86400 + EPOCH_DAYS" "seconds div 86400 + EPOCH_DAYS < days_before_year 10000"
    using b by (simp_all add: EPOCH_DAYS_def days_before_year_def)
  then have "timestampMicros (iso_string seconds (nat (value mod 1000000))) = Some value"
    using iso_string_parses[of seconds "nat (value mod 1000000)"] v by simp
  moreover have "microsTimestamp value = Some (iso_string seconds (nat (value mod 1000000)))"
  proof -
    have "value - seconds * 1000000 = value mod 1000000" using v(1) by linarith
    moreover have "\<bar>seconds * 1000\<bar> \<le> 8640000000000000" using b by linarith
    moreover have "(if 0 \<le> value then value div 1000000 else - ((999999 - value) div 1000000)) = seconds"
      by (simp only: seconds_floor seconds_def if_cancel)
    ultimately show ?thesis unfolding microsTimestamp_def Let_def by (simp only: if_True)
  qed
  ultimately show ?thesis by blast
qed

lemma timestamps_round_trip_example:
  "\<exists>s. microsTimestamp (- 1) = Some s \<and> timestampMicros s = Some (- 1)"
  using timestamps_round_trip[of "- 1"] by simp

end
