(* ===== verification/Lifecycle_Policy.thy ===== *)
theory Lifecycle_Policy
  imports Lifecycle_Time
begin

text \<open>
  The retention decision for a session, \<open>relay/src/session-lifecycle/policy.ts\<close> with the types of
  \<open>types.ts\<close> and the release and readiness checks of \<open>release.ts\<close> and \<open>readiness.ts\<close>. A call that
  throws on an unreadable configuration date is \<open>None\<close>; a set of reasons is a list in insertion order.
\<close>

section \<open>Types\<close>

datatype LifecycleMode = ModeOff | ModeObserve | ModeEnforce

datatype LifecycleAction = Archive | Cool | Resume | Purge

datatype ContentState = Hot | Cooling | Cold | Mixed | Deleting | Deleted

datatype LifecycleBlocker =
    Policy_Disabled | Policy_Not_Effective | Owner_Unknown | Scope_Excluded | Demo_Excluded | Activity_Unknown
  | Activity_Invalid | Activity_Future | Activity_Unverified | Status_Unknown | Session_Active_Now | Session_Deleting
  | Session_Deleted | Admission_Pending | Inbox_Pending | Outbox_Pending | Attention_Pending | Effect_Pending
  | Document_Upload_Pending | Collaboration_Pending | Dependency_Unknown | Extension_Pending | Usage_Unverified | Cooling_Pending

record SessionLifecycleRelease =
  rel_policyVersion :: "string option"
  rel_publishedAt :: "string option"
  rel_effectiveAt :: "string option"
  rel_transitionDeadline :: "string option"
  rel_storageNamespace :: "string option"
  rel_evidence :: "(string \<times> string) list"

record SessionLifecycleConfig =
  lc_mode :: LifecycleMode
  lc_policyVersion :: string
  lc_archiveDays :: int
  lc_purgeDays :: int
  lc_effectiveAt :: "string option"
  lc_transitionDeadline :: "string option"
  lc_notificationRetentionDays :: int
  lc_scanIntervalMs :: int
  lc_continuationDelayMs :: int
  lc_batchSessions :: int
  lc_batchBytes :: int
  lc_runBudgetMs :: int
  lc_transferConcurrency :: int
  lc_maxChunkBytes :: int
  lc_maxCompressedBytes :: int
  lc_objectBucket :: "string option"
  lc_objectRegion :: "string option"
  lc_storageFilesystem :: bool
  lc_archiveDirectory :: "string option"
  lc_filesystemMinFreeBytes :: int
  lc_release :: "SessionLifecycleRelease option"

datatype lifecycle_scope = Personal | Team | Demo | UnknownScope

record LifecycleInput =
  li_ownerUserId :: "int option"
  li_scope :: lifecycle_scope
  li_activityAt :: "string option"
  li_activityVerified :: bool
  li_dependencyActivityAt :: "string option list"
  li_status :: "string option"
  li_turnActive :: bool
  li_staleSnapshot :: bool
  li_archiveReason :: "string option"
  li_contentState :: ContentState
  li_historical :: bool
  li_blockers :: "LifecycleBlocker list"

record LifecycleEvaluation =
  ev_action :: "LifecycleAction option"
  ev_activityAt :: "string option"
  ev_archiveAt :: "string option"
  ev_purgeAt :: "string option"
  ev_dueAt :: "string option"
  ev_blockedReasons :: "LifecycleBlocker list"
  ev_policyVersion :: string

datatype instant = StampText string | DateMs int | InvalidDate

fun instantMicros :: "instant \<Rightarrow> int option" where
  "instantMicros (StampText s) = timestampMicros s"
| "instantMicros (DateMs ms) = Some (ms * 1000)"
| "instantMicros InvalidDate = None"

section \<open>Evaluation\<close>

definition activeStatuses :: "string list" where
  "activeStatuses = [''running'', ''busy'', ''retry'', ''waiting'', ''waiting_approval'', ''waiting_question'']"

definition inactiveStatuses :: "string list" where
  "inactiveStatuses =
     [''idle'', ''exited'', ''completed'', ''failed'', ''stopped'', ''terminated'', ''abandoned'', ''error'', ''killed'']"

definition add_reason :: "bool \<Rightarrow> LifecycleBlocker \<Rightarrow> LifecycleBlocker list \<Rightarrow> LifecycleBlocker list" where
  "add_reason c b rs = (if c \<and> b \<notin> set rs then rs @ [b] else rs)"

definition status_text :: "LifecycleInput \<Rightarrow> string" where
  "status_text inp = (case li_status inp of None \<Rightarrow> [] | Some s \<Rightarrow> s)"

definition state_reasons :: "LifecycleInput \<Rightarrow> LifecycleBlocker list \<Rightarrow> LifecycleBlocker list" where
  "state_reasons inp rs =
     (let running = (\<not> li_staleSnapshot inp \<and> (li_turnActive inp \<or> status_text inp \<in> set activeStatuses));
          owner = li_ownerUserId inp;
          r1 = add_reason (case owner of None \<Rightarrow> True | Some u \<Rightarrow> \<not> is_safe_integer u \<or> u \<le> 0) Owner_Unknown rs;
          r2 = add_reason (li_scope inp \<noteq> Personal) Scope_Excluded r1;
          r3 = add_reason (\<not> li_activityVerified inp) Activity_Unverified r2;
          r4 = add_reason running Session_Active_Now r3;
          r5 = add_reason (\<not> running \<and> \<not> li_staleSnapshot inp \<and> status_text inp \<notin> set inactiveStatuses) Status_Unknown r4;
          r6 = add_reason (li_contentState inp = Deleting) Session_Deleting r5;
          r7 = add_reason (li_contentState inp = Deleted) Session_Deleted r6
      in add_reason (li_contentState inp = Cooling) Cooling_Pending r7)"

text \<open>The loop over the activity sources: the reasons and the latest readable time.\<close>

fun scan_activity :: "int \<Rightarrow> string option list \<Rightarrow> LifecycleBlocker list \<Rightarrow> int option \<Rightarrow> LifecycleBlocker list \<times> int option" where
  "scan_activity now [] rs act = (rs, act)"
| "scan_activity now (src # srcs) rs act =
     (case src of
        None \<Rightarrow> scan_activity now srcs (add_reason True Activity_Unknown rs) act
      | Some t \<Rightarrow>
          (case timestampMicros t of
             None \<Rightarrow> scan_activity now srcs (add_reason True Activity_Invalid rs) act
           | Some v \<Rightarrow>
               scan_activity now srcs (add_reason (now < v) Activity_Future rs)
                 (case act of None \<Rightarrow> Some v | Some a \<Rightarrow> Some (if a < v then v else a))))"

definition purge_time :: "LifecycleInput \<Rightarrow> SessionLifecycleConfig \<Rightarrow> int \<Rightarrow> int option" where
  "purge_time inp cfg act =
     (let purge = act + lc_purgeDays cfg * DAY_US in
      if li_historical inp \<and> \<not> (lc_transitionDeadline cfg = None \<or> lc_transitionDeadline cfg = Some [])
      then map_option (\<lambda>t. if purge < t then t else purge) (timestampMicros (the (lc_transitionDeadline cfg)))
      else Some purge)"

definition due_action :: "LifecycleInput \<Rightarrow> int \<Rightarrow> int \<Rightarrow> int \<Rightarrow> LifecycleAction option" where
  "due_action inp now archive purge =
     (if purge < now then Some Purge
      else if archive < now then
        (if li_archiveReason inp = None \<or> li_archiveReason inp = Some [] then Some Archive
         else if li_contentState inp = Hot \<or> li_contentState inp = Mixed then Some Cool else None)
      else None)"

definition blank_evaluation :: "SessionLifecycleConfig \<Rightarrow> LifecycleBlocker list \<Rightarrow> LifecycleEvaluation" where
  "blank_evaluation cfg rs =
     \<lparr>ev_action = None, ev_activityAt = None, ev_archiveAt = None, ev_purgeAt = None, ev_dueAt = None,
      ev_blockedReasons = rs, ev_policyVersion = lc_policyVersion cfg\<rparr>"

definition dated_evaluation :: "LifecycleInput \<Rightarrow> int \<Rightarrow> SessionLifecycleConfig \<Rightarrow> LifecycleBlocker list \<Rightarrow> int \<Rightarrow> LifecycleEvaluation option" where
  "dated_evaluation inp now cfg rs act =
     (let archive = act + lc_archiveDays cfg * DAY_US in
      case purge_time inp cfg act of
        None \<Rightarrow> None
      | Some purge \<Rightarrow>
          (case (microsTimestamp act, microsTimestamp archive, microsTimestamp purge) of
             (Some a, Some ar, Some pu) \<Rightarrow>
               (let action = (if rs = [] then due_action inp now archive purge else None)
                in Some \<lparr>ev_action = action, ev_activityAt = Some a, ev_archiveAt = Some ar, ev_purgeAt = Some pu,
                     ev_dueAt = (case action of None \<Rightarrow> None | Some Purge \<Rightarrow> Some pu | Some _ \<Rightarrow> Some ar),
                     ev_blockedReasons = rs, ev_policyVersion = lc_policyVersion cfg\<rparr>)
           | _ \<Rightarrow> None))"

definition not_effective :: "int \<Rightarrow> string option \<Rightarrow> bool option" where
  "not_effective now eff =
     (case eff of None \<Rightarrow> Some False | Some e \<Rightarrow> if e = [] then Some False else map_option (\<lambda>t. now < t) (timestampMicros e))"

definition distinct_reasons :: "LifecycleBlocker list \<Rightarrow> LifecycleBlocker list" where
  "distinct_reasons rs = fold (add_reason True) rs []"

definition evaluateLifecycle :: "LifecycleInput \<Rightarrow> instant \<Rightarrow> SessionLifecycleConfig \<Rightarrow> LifecycleEvaluation option" where
  "evaluateLifecycle inp now cfg =
     (if lc_mode cfg = ModeOff then Some (blank_evaluation cfg [Policy_Disabled])
      else if li_scope inp = Demo then Some (blank_evaluation cfg [Demo_Excluded])
      else
        (case instantMicros now of
           None \<Rightarrow> None
         | Some current \<Rightarrow>
             (case not_effective current (lc_effectiveAt cfg) of
                None \<Rightarrow> None
              | Some early \<Rightarrow>
                  (let rs0 = state_reasons inp (add_reason early Policy_Not_Effective (distinct_reasons (li_blockers inp)));
                       (rs, act) = scan_activity current (li_activityAt inp # li_dependencyActivityAt inp) rs0 None
                   in case act of
                        None \<Rightarrow> Some (blank_evaluation cfg rs)
                      | Some a \<Rightarrow> dated_evaluation inp current cfg rs a))))"

section \<open>Release and readiness\<close>

definition lifecycleReleaseGates :: "string list" where
  "lifecycleReleaseGates =
     [''production_provider_and_backup_policy'', ''legal_publication'', ''production_client_release'', ''capacity_and_fault_acceptance'']"

definition absent :: "string option \<Rightarrow> bool" where
  "absent x = (x = None \<or> x = Some [])"

text \<open>A comparison of two dates, which throws when one of them cannot be read.\<close>

definition compare_dates :: "(int \<Rightarrow> int \<Rightarrow> bool) \<Rightarrow> string option \<Rightarrow> string option \<Rightarrow> bool option" where
  "compare_dates P a b =
     (case (timestampMicros (the a), timestampMicros (the b)) of (Some x, Some y) \<Rightarrow> Some (P x y) | _ \<Rightarrow> None)"

definition push_if :: "bool option \<Rightarrow> string \<Rightarrow> string list option \<Rightarrow> string list option" where
  "push_if c b rs = Option.bind rs (\<lambda>r. map_option (\<lambda>x. if x then r @ [b] else r) c)"

definition dates_mismatch :: "SessionLifecycleRelease \<Rightarrow> SessionLifecycleConfig \<Rightarrow> bool option" where
  "dates_mismatch rel cfg =
     (if absent (rel_effectiveAt rel) \<or> absent (rel_transitionDeadline rel) \<or> absent (lc_effectiveAt cfg) \<or> absent (lc_transitionDeadline cfg)
      then Some True
      else Option.bind (compare_dates (\<noteq>) (rel_effectiveAt rel) (lc_effectiveAt cfg))
             (\<lambda>x. if x then Some True else compare_dates (\<noteq>) (rel_transitionDeadline rel) (lc_transitionDeadline cfg)))"

definition not_published :: "SessionLifecycleRelease \<Rightarrow> instant \<Rightarrow> bool option" where
  "not_published rel now =
     (if absent (rel_publishedAt rel) then Some True
      else (case (timestampMicros (the (rel_publishedAt rel)), instantMicros now) of (Some x, Some y) \<Rightarrow> Some (y < x) | _ \<Rightarrow> None))"

definition lifecycleReleaseBlockers :: "SessionLifecycleConfig \<Rightarrow> string option \<Rightarrow> instant \<Rightarrow> string list option" where
  "lifecycleReleaseBlockers cfg storageNamespace now =
     (case lc_release cfg of
        None \<Rightarrow> Some [''release_record_missing'']
      | Some rel \<Rightarrow>
          (let b1 = push_if (Some (rel_policyVersion rel \<noteq> Some (lc_policyVersion cfg))) ''release_policy_mismatch'' (Some []);
               b2 = push_if (not_published rel now) ''release_not_published'' b1;
               b3 = push_if (if absent (rel_publishedAt rel) \<or> absent (rel_effectiveAt rel) then Some False
                             else compare_dates (<) (rel_effectiveAt rel) (rel_publishedAt rel)) ''policy_before_publication'' b2;
               b4 = push_if (if absent (rel_effectiveAt rel) \<or> absent (rel_transitionDeadline rel) then Some False
                             else compare_dates (<) (rel_transitionDeadline rel) (rel_effectiveAt rel))
                      ''historical_transition_before_effective'' b3;
               b5 = push_if (dates_mismatch rel cfg) ''release_dates_mismatch'' b4;
               b6 = push_if (Some (absent storageNamespace \<or> rel_storageNamespace rel \<noteq> storageNamespace)) ''release_storage_mismatch'' b5
           in fold (\<lambda>gate. push_if (Some (absent (map_of (rel_evidence rel) gate))) gate) lifecycleReleaseGates b6))"

text \<open>The archive reader: absent, present, or present with its namespace.\<close>

datatype archive_reader = NoReader | Reader "string option"

record LifecycleReadiness =
  lr_enabled :: bool
  lr_execution_ready :: bool
  lr_blockers :: "string list"
  lr_production_release_ready :: bool
  lr_release_blockers :: "string list"

definition sessionLifecycleReadiness :: "bool \<Rightarrow> SessionLifecycleConfig \<Rightarrow> archive_reader \<Rightarrow> instant \<Rightarrow> LifecycleReadiness option" where
  "sessionLifecycleReadiness production cfg reader now =
     (let early = (if absent (lc_effectiveAt cfg) then Some True
                   else (case (timestampMicros (the (lc_effectiveAt cfg)), instantMicros now) of (Some x, Some y) \<Rightarrow> Some (y < x) | _ \<Rightarrow> None));
          b1 = push_if (Some (lc_mode cfg \<noteq> ModeEnforce)) ''enforcement_disabled'' (Some []);
          b2 = push_if (Some (reader = NoReader)) ''object_reader_not_configured'' b1;
          b3 = push_if early ''policy_not_effective'' b2;
          b4 = push_if (Some (absent (lc_transitionDeadline cfg))) ''historical_transition_not_configured'' b3;
          released = lifecycleReleaseBlockers cfg (case reader of NoReader \<Rightarrow> None | Reader ns \<Rightarrow> ns) now
      in case (b4, released) of
           (Some bs, Some rs) \<Rightarrow>
             (let blockers = (if production \<and> rs \<noteq> [] then bs @ [''production_release_not_ready''] else bs)
              in Some \<lparr>lr_enabled = (lc_mode cfg \<noteq> ModeOff), lr_execution_ready = (blockers = []), lr_blockers = blockers,
                       lr_production_release_ready = (rs = [] \<and> reader \<noteq> NoReader \<and> ''policy_not_effective'' \<notin> set blockers
                          \<and> ''historical_transition_not_configured'' \<notin> set blockers),
                       lr_release_blockers = rs\<rparr>)
         | _ \<Rightarrow> None)"

section \<open>Facts about the evaluation\<close>

lemma add_reason_Nil [simp]: "add_reason c b rs = [] \<longleftrightarrow> \<not> c \<and> rs = []"
  by (auto simp: add_reason_def)

lemma distinct_reasons_Nil: "distinct_reasons rs = [] \<longleftrightarrow> rs = []"
proof -
  have "fold (add_reason True) rs acc = [] \<longleftrightarrow> rs = [] \<and> acc = []" for acc
    by (induction rs arbitrary: acc) auto
  then show ?thesis by (simp add: distinct_reasons_def)
qed

lemma scan_activity_clean:
  assumes "scan_activity now srcs rs act = ([], act')"
  shows "rs = [] \<and> (\<forall>src \<in> set srcs. \<exists>t v a. src = Some t \<and> timestampMicros t = Some v \<and> act' = Some a \<and> v \<le> now \<and> v \<le> a)
    \<and> (\<forall>a0. act = Some a0 \<longrightarrow> (\<exists>a. act' = Some a \<and> a0 \<le> a))"
  using assms
proof (induction now srcs rs act arbitrary: act' rule: scan_activity.induct)
  case (2 now src srcs rs act)
  obtain t where t: "src = Some t" using 2(1,4) by (cases src) auto
  obtain v where v: "timestampMicros t = Some v" using 2(2,4) t by (cases "timestampMicros t") auto
  let ?act = "case act of None \<Rightarrow> Some v | Some a \<Rightarrow> Some (if a < v then v else a)"
  have "scan_activity now srcs (add_reason (now < v) Activity_Future rs) ?act = ([], act')" using 2(4) t v by simp
  from 2(3)[OF t v this] obtain a where "act' = Some a" "rs = []" "v \<le> now" "v \<le> a" "\<forall>a0. act = Some a0 \<longrightarrow> a0 \<le> a"
    and "\<forall>src \<in> set srcs. \<exists>t v a. src = Some t \<and> timestampMicros t = Some v \<and> act' = Some a \<and> v \<le> now \<and> v \<le> a"
    by (cases act) (fastforce split: if_splits)+
  then show ?case using t v by auto
qed auto

lemma dated_evaluation_action:
  assumes "dated_evaluation inp now cfg rs a = Some ev" "ev_action ev = Some x"
  shows "rs = [] \<and> ev_blockedReasons ev = [] \<and> x \<noteq> Resume
    \<and> (x \<noteq> Purge \<longrightarrow> a + lc_archiveDays cfg * DAY_US < now)
    \<and> (x = Purge \<longrightarrow> (\<exists>p. purge_time inp cfg a = Some p \<and> p < now))"
  using assms by (auto simp: dated_evaluation_def due_action_def Let_def split: option.splits if_splits)

lemma purge_time_bounds:
  assumes "purge_time inp cfg a = Some p"
  shows "a + lc_purgeDays cfg * DAY_US \<le> p"
    "li_historical inp \<Longrightarrow> lc_transitionDeadline cfg = Some d \<Longrightarrow> d \<noteq> [] \<Longrightarrow> \<exists>t. timestampMicros d = Some t \<and> t \<le> p"
  using assms by (auto simp: purge_time_def Let_def split: if_splits)

lemma evaluation_stages:
  assumes "evaluateLifecycle inp now cfg = Some ev" and "ev_action ev = Some x"
  obtains current early a where "lc_mode cfg \<noteq> ModeOff" "instantMicros now = Some current" "not_effective current (lc_effectiveAt cfg) = Some early"
    "dated_evaluation inp current cfg [] a = Some ev"
    "state_reasons inp (add_reason early Policy_Not_Effective (distinct_reasons (li_blockers inp))) = []"
    "\<forall>src \<in> set (li_activityAt inp # li_dependencyActivityAt inp). \<exists>t v. src = Some t \<and> timestampMicros t = Some v \<and> v \<le> a"
proof -
  obtain current early rs a where c: "instantMicros now = Some current" "not_effective current (lc_effectiveAt cfg) = Some early"
    and scan: "scan_activity current (li_activityAt inp # li_dependencyActivityAt inp)
        (state_reasons inp (add_reason early Policy_Not_Effective (distinct_reasons (li_blockers inp)))) None = (rs, Some a)"
    and ev: "dated_evaluation inp current cfg rs a = Some ev" and mode: "lc_mode cfg \<noteq> ModeOff"
    using assms by (auto simp: evaluateLifecycle_def Let_def blank_evaluation_def split: if_splits option.splits prod.splits)
  have "rs = []" using dated_evaluation_action[OF ev assms(2)] by blast
  with scan_activity_clean[OF scan[unfolded this]] show thesis using that mode c ev by fastforce
qed

lemma clean_state:
  assumes "state_reasons inp (add_reason early Policy_Not_Effective (distinct_reasons (li_blockers inp))) = []"
  shows "li_blockers inp = []" "li_scope inp = Personal" "\<exists>u > 0. li_ownerUserId inp = Some u" "li_activityVerified inp"
    "li_staleSnapshot inp \<or> \<not> li_turnActive inp \<and> status_text inp \<in> set inactiveStatuses"
    "li_contentState inp \<notin> {Cooling, Deleting, Deleted}"
  using assms by (auto simp: state_reasons_def Let_def distinct_reasons_Nil not_le split: option.splits)

text \<open>
  Data is removed only from sessions that are really at rest. An action is proposed only when the
  policy is on, nobody named a blocker, the session belongs to a known user, is personal, verified and
  not running or in the middle of another lifecycle change, and every known activity is readable and
  older than the limit of the action; a purge of a historical session waits for the transition date.
\<close>

lemma lifecycle_acts_only_at_rest:
  assumes "evaluateLifecycle inp now cfg = Some ev" and "ev_action ev = Some x"
  shows "lc_mode cfg \<noteq> ModeOff \<and> x \<noteq> Resume \<and> li_blockers inp = [] \<and> ev_blockedReasons ev = []
    \<and> li_scope inp = Personal \<and> (\<exists>u > 0. li_ownerUserId inp = Some u) \<and> li_activityVerified inp
    \<and> (li_staleSnapshot inp \<or> \<not> li_turnActive inp \<and> status_text inp \<in> set inactiveStatuses)
    \<and> li_contentState inp \<notin> {Cooling, Deleting, Deleted}
    \<and> (\<exists>current. instantMicros now = Some current
        \<and> (\<forall>src \<in> set (li_activityAt inp # li_dependencyActivityAt inp). \<exists>t v. src = Some t \<and> timestampMicros t = Some v
              \<and> v + (if x = Purge then lc_purgeDays cfg else lc_archiveDays cfg) * DAY_US < current)
        \<and> (x = Purge \<and> li_historical inp \<longrightarrow>
              (\<forall>d. lc_transitionDeadline cfg = Some d \<and> d \<noteq> [] \<longrightarrow> (\<exists>t. timestampMicros d = Some t \<and> t < current))))"
proof -
  obtain current early a where mode: "lc_mode cfg \<noteq> ModeOff" and c: "instantMicros now = Some current"
    and ev: "dated_evaluation inp current cfg [] a = Some ev"
    and clean: "state_reasons inp (add_reason early Policy_Not_Effective (distinct_reasons (li_blockers inp))) = []"
    and old: "\<forall>src \<in> set (li_activityAt inp # li_dependencyActivityAt inp). \<exists>t v. src = Some t \<and> timestampMicros t = Some v \<and> v \<le> a"
    by (rule evaluation_stages[OF assms])
  note act = dated_evaluation_action[OF ev assms(2)]
  have "\<exists>p. purge_time inp cfg a = Some p \<and> p < current \<and> a + lc_purgeDays cfg * DAY_US \<le> p" if "x = Purge"
    using act that purge_time_bounds(1) by blast
  moreover from this have "\<exists>t. timestampMicros d = Some t \<and> t < current"
    if "x = Purge" "li_historical inp" "lc_transitionDeadline cfg = Some d" "d \<noteq> []" for d
    using purge_time_bounds(2)[OF _ that(2-4)] that(1) by fastforce
  moreover have "a + (if x = Purge then lc_purgeDays cfg else lc_archiveDays cfg) * DAY_US < current"
    using act calculation(1) by (auto split: if_splits)
  ultimately have dates: "\<exists>current. instantMicros now = Some current
        \<and> (\<forall>src \<in> set (li_activityAt inp # li_dependencyActivityAt inp). \<exists>t v. src = Some t \<and> timestampMicros t = Some v
              \<and> v + (if x = Purge then lc_purgeDays cfg else lc_archiveDays cfg) * DAY_US < current)
        \<and> (x = Purge \<and> li_historical inp \<longrightarrow>
              (\<forall>d. lc_transitionDeadline cfg = Some d \<and> d \<noteq> [] \<longrightarrow> (\<exists>t. timestampMicros d = Some t \<and> t < current)))"
    using old c by (intro exI[of _ current]) fastforce
  from clean_state[OF clean] dates mode act show ?thesis by blast
qed

definition sample_lifecycle_config :: SessionLifecycleConfig where
  "sample_lifecycle_config = \<lparr>lc_mode = ModeEnforce, lc_policyVersion = ''v1'', lc_archiveDays = 30, lc_purgeDays = 60,
     lc_effectiveAt = Some ''2026-01-01T00:00:00Z'', lc_transitionDeadline = Some ''2026-03-01T00:00:00Z'',
     lc_notificationRetentionDays = 90, lc_scanIntervalMs = 3600000, lc_continuationDelayMs = 5000, lc_batchSessions = 20,
     lc_batchBytes = 67108864, lc_runBudgetMs = 60000, lc_transferConcurrency = 1, lc_maxChunkBytes = 4194304,
     lc_maxCompressedBytes = 8388608, lc_objectBucket = None, lc_objectRegion = None, lc_storageFilesystem = False,
     lc_archiveDirectory = None, lc_filesystemMinFreeBytes = 268435456, lc_release = None\<rparr>"

definition sample_lifecycle_input :: LifecycleInput where
  "sample_lifecycle_input = \<lparr>li_ownerUserId = Some 1, li_scope = Personal, li_activityAt = Some ''2026-01-01T00:00:00.5+08:00'',
     li_activityVerified = True, li_dependencyActivityAt = [], li_status = Some ''idle'', li_turnActive = False, li_staleSnapshot = False,
     li_archiveReason = None, li_contentState = Hot, li_historical = True, li_blockers = []\<rparr>"

lemma replicate_five: "replicate 5 c = [c, c, c, c, c]"
  by (simp add: eval_nat_numeral)

lemma sample_stamps:
  "timestampMicros ''2026-06-01T00:00:00Z'' = Some 1780272000000000"
  "timestampMicros ''2026-01-01T00:00:00Z'' = Some 1767225600000000"
  "timestampMicros ''2026-03-01T00:00:00Z'' = Some 1772323200000000"
  "timestampMicros ''2026-01-01T00:00:00.5+08:00'' = Some 1767196800500000"
  by (simp_all add: timestamp_defs replicate_five)

lemma sample_purged:
  "map_option ev_action (evaluateLifecycle sample_lifecycle_input (StampText ''2026-06-01T00:00:00Z'') sample_lifecycle_config) = Some (Some Purge)"
  by (simp add: evaluateLifecycle_def sample_lifecycle_input_def sample_lifecycle_config_def sample_stamps not_effective_def
      state_reasons_def Let_def add_reason_def distinct_reasons_def is_safe_integer_def MAX_SAFE_INTEGER_def status_text_def activeStatuses_def
      inactiveStatuses_def dated_evaluation_def purge_time_def due_action_def microsTimestamp_def DAY_US_def)

lemma lifecycle_acts_only_at_rest_example:
  "\<exists>ev. evaluateLifecycle sample_lifecycle_input (StampText ''2026-06-01T00:00:00Z'') sample_lifecycle_config = Some ev
     \<and> ev_action ev = Some Purge \<and> ev_blockedReasons ev = []"
proof -
  let ?e = "evaluateLifecycle sample_lifecycle_input (StampText ''2026-06-01T00:00:00Z'') sample_lifecycle_config"
  obtain ev where "?e = Some ev" "ev_action ev = Some Purge" using sample_purged by (cases ?e) auto
  then show ?thesis using lifecycle_acts_only_at_rest[of sample_lifecycle_input "StampText ''2026-06-01T00:00:00Z''" sample_lifecycle_config ev Purge]
    by blast
qed

lemma ready_to_execute:
  assumes "sessionLifecycleReadiness production cfg reader now = Some r" and "lr_execution_ready r"
  shows "lc_mode cfg = ModeEnforce \<and> reader \<noteq> NoReader \<and> \<not> absent (lc_effectiveAt cfg) \<and> \<not> absent (lc_transitionDeadline cfg)
    \<and> (\<exists>t current. timestampMicros (the (lc_effectiveAt cfg)) = Some t \<and> instantMicros now = Some current \<and> t \<le> current)
    \<and> (production \<longrightarrow> lr_release_blockers r = [])"
  using assms by (auto simp: sessionLifecycleReadiness_def push_if_def Let_def not_less split: option.splits if_splits)

end
