(* ===== verification/Lifecycle_Jobs.thy ===== *)
theory Lifecycle_Jobs
  imports Lifecycle_Policy "HOL-Library.Product_Lexorder"
begin

text \<open>
  The durable work ledger of the session lifecycle: the tables and triggers of
  \<open>relay/src/session-lifecycle/schema.ts\<close> and \<open>resume-schema.ts\<close> and the lease operations of
  \<open>repository.ts\<close>. A statement runs at a transaction time \<open>now\<close> in microseconds; a statement that the
  database refuses (a key or \<open>NOT NULL\<close> violation) is \<open>None\<close>, and the transaction leaves the tables as
  they were. Random identifiers are arguments.
\<close>

section \<open>Tables\<close>

datatype LifecycleJobState = Queued | Running | Succeeded | Partial | Failed | Cancelled

datatype AttemptState = Attempt_Running | Attempt_Expired | Attempt_Succeeded | Attempt_Partial | Attempt_Failed | Attempt_Cancelled

record lifecycle_job_row =
  jr_operation_id :: string
  jr_user_id :: int
  jr_session_id :: string
  jr_action :: LifecycleAction
  jr_policy_version :: string
  jr_activity_epoch :: int
  jr_state :: LifecycleJobState
  jr_lease_owner :: "string option"
  jr_lease_token :: "string option"
  jr_lease_until :: "int option"
  jr_attempt :: int
  jr_next_attempt_at :: int
  jr_result :: "json option"
  jr_created_at :: int
  jr_updated_at :: int
  jr_maintenance_scheduled_at :: "int option"

record lifecycle_attempt_row =
  la_operation_id :: string
  la_attempt :: int
  la_lease_token :: string
  la_worker :: string
  la_started_at :: int
  la_finished_at :: "int option"
  la_state :: AttemptState
  la_result :: "json option"

record lifecycle_result_row =
  rs_operation_id :: string
  rs_user_id :: int
  rs_session_id :: string
  rs_daemon_id :: string
  rs_title_snapshot :: string
  rs_daemon_name_snapshot :: string
  rs_action :: LifecycleAction
  rs_state :: LifecycleJobState
  rs_activity_at :: int
  rs_executed_at :: "int option"
  rs_effective_purge_at :: "int option"
  rs_reason_code :: string
  rs_revision :: int
  rs_stages :: "(string, string) jsmap"
  rs_created_at :: int
  rs_updated_at :: int
  rs_notification_id :: "string option"
  rs_notification_revision :: "int option"

record notification_row =
  nt_notification_id :: string
  nt_user_id :: int
  nt_revision :: int
  nt_created_at :: int
  nt_updated_at :: int
  nt_completed_at :: "int option"
  nt_read_at :: "int option"
  nt_expires_at :: int
  nt_maintenance_day :: "int option"
  nt_published_at :: "int option"

record notification_subject_row =
  sb_subject_id :: string
  sb_notification_id :: string
  sb_user_id :: int
  sb_operation_id :: string
  sb_session_id :: string
  sb_daemon_id :: string
  sb_title_snapshot :: string
  sb_daemon_name_snapshot :: string
  sb_action :: LifecycleAction
  sb_state :: LifecycleJobState
  sb_activity_at :: int
  sb_executed_at :: "int option"
  sb_effective_purge_at :: "int option"
  sb_reason_code :: string

datatype notice_operation = Notice_Changed | Notice_Removed

record delivery_row =
  dv_delivery_id :: int
  dv_user_id :: int
  dv_notification_id :: string
  dv_revision :: int
  dv_operation :: notice_operation
  dv_created_at :: int
  dv_delivered_at :: "int option"

record lifecycle_deletion_row =
  dl_session_id :: string
  dl_user_id :: "int option"
  dl_daemon_id :: "string option"
  dl_operation_id :: "string option"
  dl_database_deleted_at :: int
  dl_objects_completed_at :: "int option"
  dl_extensions_completed_at :: "int option"

text \<open>A message on the channel \<open>pocketctl_attention\<close>.\<close>

record attention_signal =
  sg_entity :: string
  sg_user_id :: int
  sg_item_id :: string
  sg_revision :: int
  sg_operation :: notice_operation

record lifecycle_db =
  ld_jobs :: "lifecycle_job_row list"
  ld_attempts :: "lifecycle_attempt_row list"
  ld_results :: "lifecycle_result_row list"
  ld_notices :: "notification_row list"
  ld_subjects :: "notification_subject_row list"
  ld_deliveries :: "delivery_row list"
  ld_next_delivery :: int
  ld_deletions :: "lifecycle_deletion_row list"
  ld_signals :: "attention_signal list"

definition ms :: "int \<Rightarrow> int" where
  "ms n = n * 1000"

section \<open>The attempt journal trigger\<close>

fun attempt_outcome :: "LifecycleJobState \<Rightarrow> AttemptState option" where
  "attempt_outcome Queued = None"
| "attempt_outcome Running = Some Attempt_Expired"
| "attempt_outcome Succeeded = Some Attempt_Succeeded"
| "attempt_outcome Partial = Some Attempt_Partial"
| "attempt_outcome Failed = Some Attempt_Failed"
| "attempt_outcome Cancelled = Some Attempt_Cancelled"

definition closes_attempt :: "lifecycle_job_row \<Rightarrow> lifecycle_attempt_row \<Rightarrow> bool" where
  "closes_attempt old a \<longleftrightarrow>
     la_operation_id a = jr_operation_id old \<and> la_attempt a = jr_attempt old \<and>
     Some (la_lease_token a) = jr_lease_token old \<and> la_state a = Attempt_Running"

definition closed_attempt :: "int \<Rightarrow> lifecycle_job_row \<Rightarrow> AttemptState \<Rightarrow> lifecycle_attempt_row \<Rightarrow> lifecycle_attempt_row" where
  "closed_attempt now new out a =
     a\<lparr>la_finished_at := Some now, la_state := out, la_result := (if jr_state new = Running then None else jr_result new)\<rparr>"

definition journal_close :: "int \<Rightarrow> lifecycle_job_row \<Rightarrow> lifecycle_job_row \<Rightarrow> lifecycle_attempt_row list \<Rightarrow> lifecycle_attempt_row list option" where
  "journal_close now old new as =
     (if jr_state old = Running \<and> (jr_state new \<noteq> Running \<or> jr_lease_token new \<noteq> jr_lease_token old)
      then if \<exists>a \<in> set as. closes_attempt old a
           then map_option (\<lambda>out. map (\<lambda>a. if closes_attempt old a then closed_attempt now new out a else a) as)
                  (attempt_outcome (jr_state new))
           else Some as
      else Some as)"

definition opened_attempt :: "int \<Rightarrow> lifecycle_job_row \<Rightarrow> string \<Rightarrow> string \<Rightarrow> lifecycle_attempt_row" where
  "opened_attempt now new token worker =
     \<lparr>la_operation_id = jr_operation_id new, la_attempt = jr_attempt new, la_lease_token = token, la_worker = worker,
      la_started_at = now, la_finished_at = None, la_state = Attempt_Running, la_result = None\<rparr>"

definition attempt_taken :: "lifecycle_job_row \<Rightarrow> lifecycle_attempt_row list \<Rightarrow> bool" where
  "attempt_taken j as \<longleftrightarrow> (\<exists>a \<in> set as. la_operation_id a = jr_operation_id j \<and> la_attempt a = jr_attempt j)"

definition journal_open :: "int \<Rightarrow> lifecycle_job_row \<Rightarrow> lifecycle_job_row \<Rightarrow> lifecycle_attempt_row list \<Rightarrow> lifecycle_attempt_row list option" where
  "journal_open now old new as =
     (if jr_state new = Running \<and> jr_lease_token new \<noteq> jr_lease_token old
      then (case (jr_lease_token new, jr_lease_owner new) of
              (Some token, Some worker) \<Rightarrow>
                if attempt_taken new as \<or> jr_attempt new \<le> 0 \<or> 128 < length worker then None
                else Some (as @ [opened_attempt now new token worker])
            | _ \<Rightarrow> None)
      else Some as)"

text \<open>The cancellation branch: the published result, its notice and the delivery of the new revision.\<close>

definition superseded_result :: "lifecycle_job_row \<Rightarrow> lifecycle_result_row \<Rightarrow> bool" where
  "superseded_result new r \<longleftrightarrow> rs_operation_id r = jr_operation_id new \<and> rs_state r \<in> {Running, Partial, Failed}"

definition cancel_result :: "int \<Rightarrow> lifecycle_result_row \<Rightarrow> lifecycle_result_row" where
  "cancel_result now r =
     r\<lparr>rs_state := Cancelled, rs_reason_code := ''superseded'', rs_executed_at := Some now, rs_updated_at := now,
       rs_revision := rs_revision r + 1,
       rs_stages := (if jm_get (rs_stages r) ''cool'' = Some ''pending''
                     then jm_set ''cool'' ''not_applicable'' (rs_stages r) else rs_stages r)\<rparr>"

definition published :: "string \<Rightarrow> notification_row \<Rightarrow> bool" where
  "published nid n \<longleftrightarrow> nt_notification_id n = nid \<and> nt_published_at n \<noteq> None"

definition delivery_exists :: "string \<Rightarrow> int \<Rightarrow> notice_operation \<Rightarrow> lifecycle_db \<Rightarrow> bool" where
  "delivery_exists nid rv oper db \<longleftrightarrow>
     (\<exists>d \<in> set (ld_deliveries db). dv_notification_id d = nid \<and> dv_revision d = rv \<and> dv_operation d = oper)"

definition add_delivery :: "int \<Rightarrow> int \<Rightarrow> string \<Rightarrow> int \<Rightarrow> notice_operation \<Rightarrow> lifecycle_db \<Rightarrow> lifecycle_db" where
  "add_delivery now uid nid rv oper db =
     (let n = ld_next_delivery db in
      db\<lparr>ld_next_delivery := n + 1,
         ld_deliveries := ld_deliveries db @
           [\<lparr>dv_delivery_id = n, dv_user_id = uid, dv_notification_id = nid, dv_revision = rv, dv_operation = oper,
             dv_created_at = now, dv_delivered_at = None\<rparr>]\<rparr>)"

text \<open>\<open>ON CONFLICT DO NOTHING\<close> keeps the rows but has drawn a number of the sequence.\<close>

definition insert_notice_delivery :: "int \<Rightarrow> int \<Rightarrow> string \<Rightarrow> int \<Rightarrow> notice_operation \<Rightarrow> lifecycle_db \<Rightarrow> lifecycle_db" where
  "insert_notice_delivery now uid nid rv oper db =
     (if delivery_exists nid rv oper db then db\<lparr>ld_next_delivery := ld_next_delivery db + 1\<rparr>
      else add_delivery now uid nid rv oper db)"

definition signal :: "string \<Rightarrow> int \<Rightarrow> string \<Rightarrow> int \<Rightarrow> notice_operation \<Rightarrow> lifecycle_db \<Rightarrow> lifecycle_db" where
  "signal entity uid item rv oper db =
     db\<lparr>ld_signals := ld_signals db @
          [\<lparr>sg_entity = entity, sg_user_id = uid, sg_item_id = item, sg_revision = rv, sg_operation = oper\<rparr>]\<rparr>"

definition announce_cancel :: "int \<Rightarrow> lifecycle_job_row \<Rightarrow> string \<Rightarrow> lifecycle_db \<Rightarrow> lifecycle_db" where
  "announce_cancel now new nid db =
     (let db1 = db\<lparr>ld_subjects := map (\<lambda>s. if sb_operation_id s = jr_operation_id new
                    then s\<lparr>sb_state := Cancelled, sb_reason_code := ''superseded'', sb_executed_at := Some now\<rparr> else s) (ld_subjects db),
                   ld_notices := map (\<lambda>n. if nt_notification_id n = nid
                    then n\<lparr>nt_revision := nt_revision n + 1, nt_completed_at := Some now, nt_updated_at := now\<rparr> else n) (ld_notices db)\<rparr>
      in case find (published nid) (ld_notices db1) of
           None \<Rightarrow> db1
         | Some n \<Rightarrow> signal ''notification'' (jr_user_id new) nid (nt_revision n) Notice_Changed
                      (insert_notice_delivery now (nt_user_id n) nid (nt_revision n) Notice_Changed db1))"

definition journal_cancel :: "int \<Rightarrow> lifecycle_job_row \<Rightarrow> lifecycle_job_row \<Rightarrow> lifecycle_db \<Rightarrow> lifecycle_db" where
  "journal_cancel now old new db =
     (if jr_state new = Cancelled \<and> jr_state old \<noteq> Cancelled
      then (let db1 = db\<lparr>ld_results := map (\<lambda>r. if superseded_result new r then cancel_result now r else r) (ld_results db)\<rparr>
            in case Option.bind (find (superseded_result new) (ld_results db)) rs_notification_id of
                 None \<Rightarrow> db1
               | Some nid \<Rightarrow> announce_cancel now new nid db1)
      else db)"

definition journal_session_lifecycle_attempt :: "int \<Rightarrow> lifecycle_job_row \<times> lifecycle_job_row \<Rightarrow> lifecycle_db \<Rightarrow> lifecycle_db option" where
  "journal_session_lifecycle_attempt now = (\<lambda>(old, new) db.
     Option.bind (journal_close now old new (ld_attempts db))
       (\<lambda>as. map_option (\<lambda>as'. journal_cancel now old new (db\<lparr>ld_attempts := as'\<rparr>)) (journal_open now old new as)))"

text \<open>An \<open>UPDATE\<close> of the jobs with the row trigger after it.\<close>

fun journal_rows :: "int \<Rightarrow> (lifecycle_job_row \<times> lifecycle_job_row) list \<Rightarrow> lifecycle_db \<Rightarrow> lifecycle_db option" where
  "journal_rows now [] db = Some db"
| "journal_rows now (p # ps) db = Option.bind (journal_session_lifecycle_attempt now p db) (journal_rows now ps)"

definition update_jobs :: "int \<Rightarrow> (lifecycle_job_row \<Rightarrow> bool) \<Rightarrow> (lifecycle_job_row \<Rightarrow> lifecycle_job_row) \<Rightarrow> lifecycle_db \<Rightarrow> lifecycle_db option" where
  "update_jobs now p f db =
     journal_rows now (map (\<lambda>j. (j, f j)) (filter p (ld_jobs db)))
       (db\<lparr>ld_jobs := map (\<lambda>j. if p j then f j else j) (ld_jobs db)\<rparr>)"

section \<open>LifecycleJobRepository\<close>

datatype lifecycle_error =
    Invalid_Lifecycle_Epoch | Invalid_Lifecycle_Duration | Invalid_Lifecycle_Lease | Lifecycle_Result_Too_Large | Statement_Refused

record LifecycleJob =
  lj_operationId :: string
  lj_maintenanceScheduledAt :: "int option"
  lj_userId :: int
  lj_sessionId :: string
  lj_action :: LifecycleAction
  lj_policyVersion :: string
  lj_activityEpoch :: string
  lj_state :: LifecycleJobState
  lj_attempt :: int
  lj_leaseOwner :: "string option"
  lj_leaseToken :: "string option"

definition lifecycle_job :: "lifecycle_job_row \<Rightarrow> LifecycleJob" where
  "lifecycle_job r =
     \<lparr>lj_operationId = jr_operation_id r, lj_maintenanceScheduledAt = jr_maintenance_scheduled_at r, lj_userId = jr_user_id r,
      lj_sessionId = jr_session_id r, lj_action = jr_action r, lj_policyVersion = jr_policy_version r,
      lj_activityEpoch = int_str (jr_activity_epoch r), lj_state = jr_state r, lj_attempt = jr_attempt r,
      lj_leaseOwner = jr_lease_owner r, lj_leaseToken = jr_lease_token r\<rparr>"

definition milliseconds :: "int \<Rightarrow> int \<Rightarrow> lifecycle_error + int" where
  "milliseconds v maximum =
     (if \<not> is_safe_integer v \<or> v < 0 \<or> maximum < v then Inl Invalid_Lifecycle_Duration else Inr v)"

definition valid_lease :: "int \<Rightarrow> lifecycle_error + int" where
  "valid_lease leaseMs = (case milliseconds leaseMs 600000 of
       Inl e \<Rightarrow> Inl e | Inr v \<Rightarrow> if v = 0 then Inl Invalid_Lifecycle_Lease else Inr v)"

record enqueue_input =
  en_userId :: int
  en_sessionId :: string
  en_action :: LifecycleAction
  en_policyVersion :: string
  en_activityEpoch :: string
  en_scheduledAt :: "int option"

definition MAX_BIGINT :: int where
  "MAX_BIGINT = 9223372036854775807"

definition same_work :: "enqueue_input \<Rightarrow> int \<Rightarrow> lifecycle_job_row \<Rightarrow> bool" where
  "same_work i epoch r \<longleftrightarrow>
     jr_user_id r = en_userId i \<and> jr_session_id r = en_sessionId i \<and> jr_action r = en_action i \<and>
     jr_activity_epoch r = epoch \<and> jr_policy_version r = en_policyVersion i"

definition new_job :: "int \<Rightarrow> string \<Rightarrow> enqueue_input \<Rightarrow> int \<Rightarrow> lifecycle_job_row" where
  "new_job now uuid i epoch =
     \<lparr>jr_operation_id = uuid, jr_user_id = en_userId i, jr_session_id = en_sessionId i, jr_action = en_action i,
      jr_policy_version = en_policyVersion i, jr_activity_epoch = epoch, jr_state = Queued, jr_lease_owner = None,
      jr_lease_token = None, jr_lease_until = None, jr_attempt = 0, jr_next_attempt_at = now, jr_result = None,
      jr_created_at = now, jr_updated_at = now, jr_maintenance_scheduled_at = en_scheduledAt i\<rparr>"

text \<open>
  The insertion or, on the key of the work, the update that keeps the stored row and returns it. The
  insertion is refused when the identifier is taken or the epoch does not fit the column.
\<close>

definition enqueue_job :: "int \<Rightarrow> string \<Rightarrow> enqueue_input \<Rightarrow> lifecycle_db \<Rightarrow> (lifecycle_error + LifecycleJob) \<times> lifecycle_db" where
  "enqueue_job now uuid i db =
     (if en_activityEpoch i = [] \<or> \<not> list_all is_digit (en_activityEpoch i) then (Inl Invalid_Lifecycle_Epoch, db)
      else (let epoch = int (decimal_value (en_activityEpoch i)) in
        if MAX_BIGINT < epoch \<or> 128 < length (en_sessionId i) then (Inl Statement_Refused, db)
        else (case find (same_work i epoch) (ld_jobs db) of
                Some r \<Rightarrow>
                  (case update_jobs now (same_work i epoch) (\<lambda>j. j\<lparr>jr_operation_id := jr_operation_id j\<rparr>) db of
                     None \<Rightarrow> (Inl Statement_Refused, db)
                   | Some db' \<Rightarrow> (Inr (lifecycle_job r), db'))
              | None \<Rightarrow>
                  if uuid \<in> jr_operation_id ` set (ld_jobs db) then (Inl Statement_Refused, db)
                  else (Inr (lifecycle_job (new_job now uuid i epoch)),
                        db\<lparr>ld_jobs := ld_jobs db @ [new_job now uuid i epoch]\<rparr>))))"

datatype run_action = Run_Archive | Run_Purge

fun run_actions :: "run_action \<Rightarrow> LifecycleAction list" where
  "run_actions Run_Archive = [Archive, Cool]"
| "run_actions Run_Purge = [Purge]"

definition journaled_deletion :: "lifecycle_db \<Rightarrow> lifecycle_job_row \<Rightarrow> bool" where
  "journaled_deletion db j \<longleftrightarrow> (\<exists>d \<in> set (ld_deletions db). dl_operation_id d = Some (jr_operation_id j))"

definition claimable :: "int \<Rightarrow> (string \<times> run_action) option \<Rightarrow> lifecycle_db \<Rightarrow> lifecycle_job_row \<Rightarrow> bool" where
  "claimable now flt db j \<longleftrightarrow>
     (case flt of None \<Rightarrow> True | Some (pv, act) \<Rightarrow> jr_policy_version j = pv \<and> jr_action j \<in> set (run_actions act)) \<and>
     (jr_state j \<in> {Queued, Failed, Partial} \<and> jr_next_attempt_at j \<le> now \<and> \<not> journaled_deletion db j \<or>
      jr_state j = Running \<and> (case jr_lease_until j of None \<Rightarrow> False | Some t \<Rightarrow> t \<le> now))"

definition job_order :: "lifecycle_job_row \<Rightarrow> int \<times> int \<times> string" where
  "job_order j = (jr_next_attempt_at j, jr_created_at j, jr_operation_id j)"

text \<open>The row lock the statement takes skips the rows another transaction holds (\<open>locked\<close>).\<close>

definition claim_candidate :: "(string \<Rightarrow> bool) \<Rightarrow> int \<Rightarrow> (string \<times> run_action) option \<Rightarrow> lifecycle_db \<Rightarrow> lifecycle_job_row option" where
  "claim_candidate locked now flt db =
     (case sort_key job_order (filter (\<lambda>j. claimable now flt db j \<and> \<not> locked (jr_operation_id j)) (ld_jobs db)) of
        [] \<Rightarrow> None | j # _ \<Rightarrow> Some j)"

definition leased_job :: "int \<Rightarrow> string \<Rightarrow> string \<Rightarrow> int \<Rightarrow> lifecycle_job_row \<Rightarrow> lifecycle_job_row" where
  "leased_job now owner token leaseMs j =
     j\<lparr>jr_state := Running, jr_lease_owner := Some owner, jr_lease_token := Some token,
       jr_lease_until := Some (now + ms leaseMs), jr_attempt := jr_attempt j + 1, jr_updated_at := now\<rparr>"

definition claim_job :: "(string \<Rightarrow> bool) \<Rightarrow> int \<Rightarrow> string \<Rightarrow> string \<Rightarrow> int \<Rightarrow> (string \<times> run_action) option \<Rightarrow> lifecycle_db
    \<Rightarrow> (lifecycle_error + LifecycleJob option) \<times> lifecycle_db" where
  "claim_job locked now token owner leaseMs flt db =
     (if owner = [] \<or> 128 < length owner then (Inl Invalid_Lifecycle_Lease, db)
      else (case valid_lease leaseMs of
              Inl e \<Rightarrow> (Inl e, db)
            | Inr v \<Rightarrow>
                (case claim_candidate locked now flt db of
                   None \<Rightarrow> (Inr None, db)
                 | Some j \<Rightarrow>
                     if 2147483647 \<le> jr_attempt j then (Inl Statement_Refused, db)
                     else (case update_jobs now (\<lambda>r. jr_operation_id r = jr_operation_id j) (leased_job now owner token v) db of
                             None \<Rightarrow> (Inl Statement_Refused, db)
                           | Some db' \<Rightarrow> (Inr (Some (lifecycle_job (leased_job now owner token v j))), db')))))"

text \<open>The fence of a lease: the comparison with a \<open>NULL\<close> parameter or column is not true.\<close>

definition lease_holds :: "int \<Rightarrow> LifecycleJob \<Rightarrow> lifecycle_job_row \<Rightarrow> bool" where
  "lease_holds now lease j \<longleftrightarrow>
     jr_operation_id j = lj_operationId lease \<and> jr_state j = Running \<and>
     lj_leaseOwner lease \<noteq> None \<and> jr_lease_owner j = lj_leaseOwner lease \<and>
     lj_leaseToken lease \<noteq> None \<and> jr_lease_token j = lj_leaseToken lease \<and>
     jr_attempt j = lj_attempt lease \<and> (case jr_lease_until j of None \<Rightarrow> False | Some t \<Rightarrow> now < t)"

definition fenced_job_update :: "int \<Rightarrow> LifecycleJob \<Rightarrow> (lifecycle_job_row \<Rightarrow> lifecycle_job_row) \<Rightarrow> lifecycle_db
    \<Rightarrow> (lifecycle_error + bool) \<times> lifecycle_db" where
  "fenced_job_update now lease f db =
     (case update_jobs now (lease_holds now lease) f db of
        None \<Rightarrow> (Inl Statement_Refused, db)
      | Some db' \<Rightarrow> (Inr (\<exists>j \<in> set (ld_jobs db). lease_holds now lease j), db'))"

definition renew_job :: "int \<Rightarrow> LifecycleJob \<Rightarrow> int \<Rightarrow> lifecycle_db \<Rightarrow> (lifecycle_error + bool) \<times> lifecycle_db" where
  "renew_job now lease leaseMs db =
     (case valid_lease leaseMs of
        Inl e \<Rightarrow> (Inl e, db)
      | Inr v \<Rightarrow> fenced_job_update now lease (\<lambda>j. j\<lparr>jr_lease_until := Some (now + ms v), jr_updated_at := now\<rparr>) db)"

definition finished_job :: "int \<Rightarrow> LifecycleJobState \<Rightarrow> json \<Rightarrow> int \<Rightarrow> lifecycle_job_row \<Rightarrow> lifecycle_job_row" where
  "finished_job now st res retryMs j =
     j\<lparr>jr_state := st, jr_result := Some res, jr_lease_owner := None, jr_lease_token := None, jr_lease_until := None,
       jr_next_attempt_at := now + ms retryMs, jr_updated_at := now\<rparr>"

definition finish_job :: "int \<Rightarrow> LifecycleJob \<Rightarrow> LifecycleJobState \<Rightarrow> json \<Rightarrow> int \<Rightarrow> lifecycle_db \<Rightarrow> (lifecycle_error + bool) \<times> lifecycle_db" where
  "finish_job now lease st res retryMs db =
     (case milliseconds retryMs 86400000 of
        Inl e \<Rightarrow> (Inl e, db)
      | Inr v \<Rightarrow>
          if 16384 < utf8_length (json_stringify res) then (Inl Lifecycle_Result_Too_Large, db)
          else fenced_job_update now lease (finished_job now st res v) db)"

definition job_key :: "lifecycle_job_row \<Rightarrow> int \<times> string \<times> LifecycleAction \<times> int \<times> string" where
  "job_key j = (jr_user_id j, jr_session_id j, jr_action j, jr_activity_epoch j, jr_policy_version j)"

section \<open>Updates outside the repository\<close>

text \<open>
  The executor settles the jobs of the other members of a purged component and rebinds a lease to the
  epoch of a settled session; the worker closes a purge when its external stages are done.
\<close>

definition settle_purged_member :: "int \<Rightarrow> string \<Rightarrow> lifecycle_db \<Rightarrow> lifecycle_db option" where
  "settle_purged_member now oid = update_jobs now (\<lambda>j. jr_operation_id j = oid)
     (\<lambda>j. j\<lparr>jr_state := Partial, jr_result := Some (JObj [(''reason'', JStr ''external_cleanup_pending'')]),
            jr_next_attempt_at := now + 86400000000, jr_lease_owner := None, jr_lease_token := None,
            jr_lease_until := None, jr_updated_at := now\<rparr>)"

definition rebind_epoch :: "int \<Rightarrow> string \<Rightarrow> int \<Rightarrow> lifecycle_db \<Rightarrow> lifecycle_db option" where
  "rebind_epoch now oid epoch db =
     (case find (\<lambda>j. jr_operation_id j = oid) (ld_jobs db) of
        None \<Rightarrow> Some db
      | Some r \<Rightarrow>
          if \<exists>j \<in> set (ld_jobs db). jr_operation_id j \<noteq> oid \<and> job_key j = job_key (r\<lparr>jr_activity_epoch := epoch\<rparr>)
          then None
          else update_jobs now (\<lambda>j. jr_operation_id j = oid) (\<lambda>j. j\<lparr>jr_activity_epoch := epoch\<rparr>) db)"

definition complete_purge :: "int \<Rightarrow> string \<Rightarrow> lifecycle_db \<Rightarrow> lifecycle_db option" where
  "complete_purge now oid = update_jobs now (\<lambda>j. jr_operation_id j = oid \<and> jr_state j = Partial)
     (\<lambda>j. j\<lparr>jr_state := Succeeded, jr_result := Some (JObj [(''reason'', JStr ''cloud_cleanup_completed'')]), jr_updated_at := now\<rparr>)"

text \<open>\<open>ON DELETE CASCADE\<close> from the owner of the jobs.\<close>

definition delete_owner :: "int \<Rightarrow> lifecycle_db \<Rightarrow> lifecycle_db" where
  "delete_owner uid db =
     (let gone = jr_operation_id ` set (filter (\<lambda>j. jr_user_id j = uid) (ld_jobs db));
          kept = (\<lambda>r. rs_operation_id r \<notin> gone \<and> rs_user_id r \<noteq> uid) in
      db\<lparr>ld_jobs := filter (\<lambda>j. jr_user_id j \<noteq> uid) (ld_jobs db),
         ld_attempts := filter (\<lambda>a. la_operation_id a \<notin> gone) (ld_attempts db),
         ld_results := filter kept (ld_results db),
         ld_notices := filter (\<lambda>n. nt_user_id n \<noteq> uid) (ld_notices db),
         ld_subjects := filter (\<lambda>s. sb_user_id s \<noteq> uid \<and> (\<exists>r \<in> set (ld_results db). rs_operation_id r = sb_operation_id s \<and> kept r)) (ld_subjects db),
         ld_deliveries := filter (\<lambda>d. dv_user_id d \<noteq> uid) (ld_deliveries db)\<rparr>)"

end
