(* ===== verification/Lifecycle_Resume.thy ===== *)
theory Lifecycle_Resume
  imports Lifecycle_Jobs
begin

text \<open>
  The trigger \<open>resume_session_lifecycle\<close> of \<open>relay/src/session-lifecycle/resume-schema.ts\<close>, which runs
  before every update of a session, and the fences of \<open>dependency-fence-schema.ts\<close>, which advance the
  activity epoch of a session when a team binding or a subagent of it changes.
\<close>

section \<open>Sessions\<close>

record lifecycle_session =
  ls_id :: int
  ls_session_id :: string
  ls_user_id :: "int option"
  ls_daemon_id :: "string option"
  ls_parent_session_id :: "string option"
  ls_root_session_id :: "string option"
  ls_control_mode :: "string option"
  ls_status :: "string option"
  ls_title :: "string option"
  ls_source :: "string option"
  ls_archive_reason :: "string option"
  ls_archived_at :: "int option"
  ls_content_state :: ContentState
  ls_cooling_operation_id :: "string option"
  ls_organization_revision :: int
  ls_activity_epoch :: int
  ls_activity_verified :: bool
  ls_last_business_activity_at :: "int option"
  ls_last_activity_at :: "int option"
  ls_turn_started_at :: "int option"
  ls_created_at :: "int option"

record host_row =
  hs_daemon_id :: string
  hs_user_id :: "int option"
  hs_alias :: "string option"
  hs_hostname :: "string option"

definition host_name :: "host_row \<Rightarrow> string" where
  "host_name h = (case hs_alias h of Some a \<Rightarrow> a | None \<Rightarrow> (case hs_hostname h of Some n \<Rightarrow> n | None \<Rightarrow> hs_daemon_id h))"

section \<open>The resume trigger\<close>

definition fences_changed :: "lifecycle_session \<Rightarrow> lifecycle_session \<Rightarrow> bool" where
  "fences_changed old new \<longleftrightarrow>
     ls_user_id new \<noteq> ls_user_id old \<or> ls_daemon_id new \<noteq> ls_daemon_id old \<or>
     ls_parent_session_id new \<noteq> ls_parent_session_id old \<or> ls_root_session_id new \<noteq> ls_root_session_id old \<or>
     ls_control_mode new \<noteq> ls_control_mode old \<or> ls_status new \<noteq> ls_status old \<or>
     (ls_archive_reason new = Some ''manual'' \<and> ls_archive_reason old \<noteq> Some ''manual'')"

definition advance_epoch :: "lifecycle_session \<Rightarrow> lifecycle_session \<Rightarrow> lifecycle_session" where
  "advance_epoch old new = new\<lparr>ls_activity_epoch := max (ls_activity_epoch new) (ls_activity_epoch old + 1)\<rparr>"

definition business_activity :: "lifecycle_session \<Rightarrow> lifecycle_session \<Rightarrow> bool" where
  "business_activity old new \<longleftrightarrow>
     (case ls_last_business_activity_at new of
        None \<Rightarrow> False
      | Some t \<Rightarrow> (case ls_last_business_activity_at old of None \<Rightarrow> True | Some u \<Rightarrow> u < t)) \<and>
     ls_content_state old \<notin> {Deleting, Deleted}"

definition restored :: "lifecycle_session \<Rightarrow> bool" where
  "restored old \<longleftrightarrow> ls_archive_reason old = Some ''inactivity'' \<or> ls_content_state old \<in> {Cold, Cooling}"

definition restore_session :: "lifecycle_session \<Rightarrow> lifecycle_session \<Rightarrow> lifecycle_session" where
  "restore_session old new =
     (let n1 = (if ls_archive_reason old = Some ''inactivity''
                then new\<lparr>ls_archived_at := None, ls_archive_reason := None, ls_organization_revision := ls_organization_revision old + 1\<rparr>
                else new)
      in if ls_content_state old \<in> {Cold, Cooling}
         then n1\<lparr>ls_content_state := Mixed, ls_cooling_operation_id := None\<rparr> else n1)"

definition open_job :: "lifecycle_job_row \<Rightarrow> bool" where
  "open_job j \<longleftrightarrow> jr_state j \<in> {Queued, Running, Partial, Failed}"

definition cancel_job :: "int \<Rightarrow> lifecycle_job_row \<Rightarrow> lifecycle_job_row" where
  "cancel_job now j =
     j\<lparr>jr_state := Cancelled, jr_result := Some (JObj [(''reason'', JStr ''business_activity'')]),
       jr_lease_token := None, jr_lease_owner := None, jr_lease_until := None, jr_updated_at := now\<rparr>"

definition overtaken_job :: "string \<Rightarrow> int \<Rightarrow> lifecycle_job_row \<Rightarrow> bool" where
  "overtaken_job sid epoch j \<longleftrightarrow> jr_session_id j = sid \<and> jr_activity_epoch j < epoch \<and> open_job j"

text \<open>The latest live maintenance notice of the session.\<close>

definition maintenance_notice :: "int \<Rightarrow> int \<Rightarrow> string \<Rightarrow> string \<Rightarrow> lifecycle_db \<Rightarrow> notification_row option" where
  "maintenance_notice now uid sid did db =
     (let live = (\<lambda>r. Option.bind (rs_notification_id r) (\<lambda>nid.
                   find (\<lambda>n. nt_notification_id n = nid \<and> nt_user_id n = uid \<and> now < nt_expires_at n) (ld_notices db)));
          rs = sort_key (\<lambda>r. (rs_created_at r, rs_operation_id r))
                 (filter (\<lambda>r. rs_user_id r = uid \<and> rs_session_id r = sid \<and> rs_daemon_id r = did \<and>
                    rs_action r \<in> {Archive, Cool} \<and> live r \<noteq> None) (ld_results db))
      in if rs = [] then None else live (last rs))"

definition resume_job :: "int \<Rightarrow> string \<Rightarrow> int \<Rightarrow> lifecycle_session \<Rightarrow> lifecycle_job_row" where
  "resume_job now operation uid new =
     \<lparr>jr_operation_id = operation, jr_user_id = uid, jr_session_id = ls_session_id new, jr_action = Resume,
      jr_policy_version = ''session-lifecycle-v2'', jr_activity_epoch = ls_activity_epoch new, jr_state = Succeeded,
      jr_lease_owner = None, jr_lease_token = None, jr_lease_until = None, jr_attempt = 0, jr_next_attempt_at = now,
      jr_result = Some (JObj [(''reason'', JStr ''business_activity'')]), jr_created_at = now, jr_updated_at = now,
      jr_maintenance_scheduled_at = None\<rparr>"

definition insert_resume_job :: "lifecycle_job_row \<Rightarrow> lifecycle_db \<Rightarrow> lifecycle_db option" where
  "insert_resume_job j db =
     (if jr_operation_id j \<in> jr_operation_id ` set (ld_jobs db) \<or> job_key j \<in> job_key ` set (ld_jobs db) then None
      else Some (db\<lparr>ld_jobs := ld_jobs db @ [j]\<rparr>))"

definition resume_result :: "int \<Rightarrow> string \<Rightarrow> int \<Rightarrow> string \<Rightarrow> lifecycle_session \<Rightarrow> int \<Rightarrow> string \<Rightarrow> notification_row option \<Rightarrow> lifecycle_result_row" where
  "resume_result now operation uid did new active host notice =
     \<lparr>rs_operation_id = operation, rs_user_id = uid, rs_session_id = ls_session_id new, rs_daemon_id = did,
      rs_title_snapshot = take 512 (case ls_title new of None \<Rightarrow> [] | Some t \<Rightarrow> t), rs_daemon_name_snapshot = take 255 host,
      rs_action = Resume, rs_state = Succeeded, rs_activity_at = active, rs_executed_at = Some now,
      rs_effective_purge_at = Some (active + 60 * DAY_US), rs_reason_code = ''business_activity'', rs_revision = 1,
      rs_stages = [(''resume'', ''succeeded''), (''cold_history'', ''succeeded'')], rs_created_at = now, rs_updated_at = now,
      rs_notification_id = map_option nt_notification_id notice, rs_notification_revision = map_option nt_revision notice\<rparr>"

definition subject_of_result :: "string \<Rightarrow> string \<Rightarrow> lifecycle_result_row \<Rightarrow> notification_subject_row" where
  "subject_of_result subject nid r =
     \<lparr>sb_subject_id = subject, sb_notification_id = nid, sb_user_id = rs_user_id r, sb_operation_id = rs_operation_id r,
      sb_session_id = rs_session_id r, sb_daemon_id = rs_daemon_id r, sb_title_snapshot = rs_title_snapshot r,
      sb_daemon_name_snapshot = rs_daemon_name_snapshot r, sb_action = rs_action r, sb_state = rs_state r,
      sb_activity_at = rs_activity_at r, sb_executed_at = rs_executed_at r, sb_effective_purge_at = rs_effective_purge_at r,
      sb_reason_code = rs_reason_code r\<rparr>"

text \<open>The silent append of a restoration to its maintenance notice.\<close>

definition append_to_notice :: "int \<Rightarrow> string \<Rightarrow> lifecycle_result_row \<Rightarrow> notification_row \<Rightarrow> lifecycle_db \<Rightarrow> lifecycle_db option" where
  "append_to_notice now subject r notice db =
     (let nid = nt_notification_id notice; rv = nt_revision notice + 1;
          db1 = db\<lparr>ld_notices := map (\<lambda>n. if nt_notification_id n = nid then n\<lparr>nt_revision := nt_revision n + 1, nt_updated_at := now\<rparr> else n) (ld_notices db),
                   ld_results := map (\<lambda>x. if rs_operation_id x = rs_operation_id r then x\<lparr>rs_notification_revision := Some rv\<rparr> else x) (ld_results db)\<rparr>
      in if \<exists>s \<in> set (ld_subjects db). sb_subject_id s = subject \<or> sb_operation_id s = rs_operation_id r then None
         else (let db2 = db1\<lparr>ld_subjects := ld_subjects db1 @ [subject_of_result subject nid r]\<rparr>
               in if nt_published_at notice = None then Some db2
                  else if delivery_exists nid rv Notice_Changed db2 then None
                  else Some (signal ''notification'' (rs_user_id r) nid rv Notice_Changed
                               (add_delivery now (rs_user_id r) nid rv Notice_Changed db2))))"

definition record_resume :: "int \<Rightarrow> host_row list \<Rightarrow> string \<Rightarrow> string \<Rightarrow> lifecycle_session \<Rightarrow> lifecycle_db \<Rightarrow> lifecycle_db option" where
  "record_resume now hosts operation subject new db =
     (case (ls_user_id new, ls_daemon_id new) of
        (Some uid, Some did) \<Rightarrow>
          (case find (\<lambda>h. hs_daemon_id h = did \<and> hs_user_id h = Some uid) hosts of
             None \<Rightarrow> Some db
           | Some h \<Rightarrow>
               (let notice = maintenance_notice now uid (ls_session_id new) did db in
                case (insert_resume_job (resume_job now operation uid new) db, ls_last_activity_at new) of
                  (Some db1, Some active) \<Rightarrow>
                    (let r = resume_result now operation uid did new active (host_name h) notice in
                     if operation \<in> rs_operation_id ` set (ld_results db1) then None
                     else (let db2 = db1\<lparr>ld_results := ld_results db1 @ [r]\<rparr>
                           in case notice of None \<Rightarrow> Some db2 | Some n \<Rightarrow> append_to_notice now subject r n db2))
                | _ \<Rightarrow> None))
      | _ \<Rightarrow> Some db)"

definition resume_session_lifecycle :: "int \<Rightarrow> host_row list \<Rightarrow> string \<Rightarrow> string \<Rightarrow> lifecycle_session \<Rightarrow> lifecycle_session \<Rightarrow> lifecycle_db
    \<Rightarrow> (lifecycle_session \<times> lifecycle_db) option" where
  "resume_session_lifecycle now hosts operation subject old new db =
     (let n1 = (if fences_changed old new then advance_epoch old new else new) in
      if \<not> business_activity old n1 then Some (n1, db)
      else (let n2 = restore_session old (advance_epoch old n1) in
        case update_jobs now (overtaken_job (ls_session_id old) (ls_activity_epoch n2)) (cancel_job now) db of
          None \<Rightarrow> None
        | Some db1 \<Rightarrow>
            if \<not> restored old then Some (n2, db1)
            else map_option (\<lambda>db2. (n2, db2)) (record_resume now hosts operation subject n2 db1)))"

section \<open>Dependency fences\<close>

definition fenced_ids :: "string option list \<Rightarrow> string list" where
  "fenced_ids values = sort (remdups (concat (map (\<lambda>v. case v of None \<Rightarrow> [] | Some s \<Rightarrow> [s]) values)))"

text \<open>The sessions a trigger of a binding or subagent touches: the new one and, on an update, the old one.\<close>

definition fence_lifecycle :: "string option \<Rightarrow> string option \<Rightarrow> lifecycle_session list \<Rightarrow> lifecycle_session list" where
  "fence_lifecycle newsid oldsid ss =
     fold (\<lambda>sid. map (\<lambda>s. if ls_session_id s = sid then s\<lparr>ls_activity_epoch := ls_activity_epoch s + 1\<rparr> else s))
       (fenced_ids [newsid, oldsid]) ss"

definition notifies_organization :: "lifecycle_session \<Rightarrow> lifecycle_session \<Rightarrow> bool" where
  "notifies_organization old new \<longleftrightarrow>
     ls_archived_at new \<noteq> ls_archived_at old \<or> ls_archive_reason new \<noteq> ls_archive_reason old \<or> ls_content_state new \<noteq> ls_content_state old"

definition notify_session_lifecycle_state :: "lifecycle_session \<Rightarrow> lifecycle_session \<Rightarrow> lifecycle_db \<Rightarrow> lifecycle_db" where
  "notify_session_lifecycle_state old new db =
     (case ls_user_id new of
        None \<Rightarrow> db
      | Some uid \<Rightarrow> if notifies_organization old new
          then signal ''organization'' uid (ls_session_id new) (ls_organization_revision new) Notice_Changed db else db)"

end
