(* ===== verification/Lifecycle_Jobs_Correct.thy ===== *)
theory Lifecycle_Jobs_Correct
  imports Lifecycle_Resume
begin

text \<open>
  Every run of the work ledger keeps the constraints of its tables and its journal: the attempts of a job
  are numbered without gap, at most the last one is open, and it is open exactly while the job runs under
  the same owner and token. The leases are those of an abstract history of attempts.
\<close>

section \<open>Journal and lease\<close>

definition job_journal :: "string \<Rightarrow> lifecycle_attempt_row list \<Rightarrow> lifecycle_attempt_row list" where
  "job_journal oid as = filter (\<lambda>a. la_operation_id a = oid) as"

definition attempt_closed :: "lifecycle_attempt_row \<Rightarrow> bool" where
  "attempt_closed a \<longleftrightarrow> la_state a \<noteq> Attempt_Running"

definition job_typed :: "lifecycle_job_row \<Rightarrow> bool" where
  "job_typed j \<longleftrightarrow> 0 \<le> jr_activity_epoch j \<and>
     (if jr_state j = Running then jr_lease_owner j \<noteq> None \<and> jr_lease_token j \<noteq> None \<and> jr_lease_until j \<noteq> None
      else jr_lease_owner j = None \<and> jr_lease_token j = None \<and> jr_lease_until j = None)"

definition tracks :: "lifecycle_job_row \<Rightarrow> lifecycle_attempt_row list \<Rightarrow> bool" where
  "tracks j js \<longleftrightarrow>
     0 \<le> jr_attempt j \<and> map la_attempt js = [1..jr_attempt j] \<and>
     (if jr_state j = Running
      then \<exists>bs a. js = bs @ [a] \<and> list_all attempt_closed bs \<and> la_state a = Attempt_Running \<and>
             Some (la_lease_token a) = jr_lease_token j \<and> Some (la_worker a) = jr_lease_owner j
      else list_all attempt_closed js)"

text \<open>The abstract history of a job: the outcomes of its closed attempts and the open lease.\<close>

record attempt_history =
  lh_outcomes :: "AttemptState list"
  lh_open :: "(string \<times> string) option"

definition begin_lease :: "string \<Rightarrow> string \<Rightarrow> attempt_history \<Rightarrow> attempt_history" where
  "begin_lease owner token h =
     \<lparr>lh_outcomes = lh_outcomes h @ (if lh_open h = None then [] else [Attempt_Expired]), lh_open = Some (owner, token)\<rparr>"

definition end_lease :: "AttemptState \<Rightarrow> attempt_history \<Rightarrow> attempt_history" where
  "end_lease out h = (if lh_open h = None then h else \<lparr>lh_outcomes = lh_outcomes h @ [out], lh_open = None\<rparr>)"

definition history_of :: "lifecycle_attempt_row list \<Rightarrow> attempt_history" where
  "history_of js =
     \<lparr>lh_outcomes = map la_state (filter attempt_closed js),
      lh_open = map_option (\<lambda>a. (la_worker a, la_lease_token a)) (find (\<lambda>a. \<not> attempt_closed a) js)\<rparr>"

definition lease_history :: "lifecycle_db \<Rightarrow> string \<Rightarrow> attempt_history" where
  "lease_history db oid = history_of (job_journal oid (ld_attempts db))"

text \<open>The three ways an update may change a job.\<close>

definition keeps_lease :: "lifecycle_job_row \<Rightarrow> lifecycle_job_row \<Rightarrow> bool" where
  "keeps_lease old new \<longleftrightarrow>
     jr_attempt new = jr_attempt old \<and> jr_lease_token new = jr_lease_token old \<and> jr_lease_owner new = jr_lease_owner old \<and>
     (jr_state new = Running \<longleftrightarrow> jr_state old = Running)"

definition begins_lease :: "lifecycle_job_row \<Rightarrow> lifecycle_job_row \<Rightarrow> bool" where
  "begins_lease old new \<longleftrightarrow>
     jr_state new = Running \<and> jr_lease_token new \<noteq> jr_lease_token old \<and> jr_attempt new = jr_attempt old + 1 \<and>
     (\<forall>w. jr_lease_owner new = Some w \<longrightarrow> length w \<le> 128)"

definition ends_lease :: "lifecycle_job_row \<Rightarrow> lifecycle_job_row \<Rightarrow> bool" where
  "ends_lease old new \<longleftrightarrow> jr_state old = Running \<and> jr_state new \<notin> {Running, Queued} \<and> jr_attempt new = jr_attempt old"

definition job_change :: "lifecycle_job_row \<Rightarrow> lifecycle_job_row \<Rightarrow> bool" where
  "job_change old new \<longleftrightarrow>
     jr_operation_id new = jr_operation_id old \<and> job_typed new \<and> (keeps_lease old new \<or> begins_lease old new \<or> ends_lease old new)"

definition history_step :: "lifecycle_job_row \<Rightarrow> lifecycle_job_row \<Rightarrow> attempt_history \<Rightarrow> attempt_history" where
  "history_step old new =
     (if begins_lease old new then begin_lease (the (jr_lease_owner new)) (the (jr_lease_token new))
      else if ends_lease old new then end_lease (the (attempt_outcome (jr_state new))) else id)"

lemma attempts_upto: "0 \<le> n \<Longrightarrow> [1..n + 1] = [1..n] @ [n + (1::int)]"
  by (subst upto_rec2) simp_all

lemma job_journal_append [simp]: "job_journal oid (as @ bs) = job_journal oid as @ job_journal oid bs"
  by (simp add: job_journal_def)

lemma job_journal_close:
  "job_journal oid (map (\<lambda>a. if closes_attempt old a then closed_attempt now new out a else a) as)
     = map (\<lambda>a. if closes_attempt old a then closed_attempt now new out a else a) (job_journal oid as)"
  by (induction as) (simp_all add: job_journal_def closed_attempt_def)

lemma closes_other: "oid \<noteq> jr_operation_id old \<Longrightarrow> a \<in> set (job_journal oid as) \<Longrightarrow> \<not> closes_attempt old a"
  by (auto simp: job_journal_def closes_attempt_def)

lemma not_closes_closed: "attempt_closed a \<Longrightarrow> \<not> closes_attempt old a"
  by (simp add: attempt_closed_def closes_attempt_def)

lemma map_not_closing:
  "list_all attempt_closed bs \<Longrightarrow> map (\<lambda>a. if closes_attempt old a then f a else a) bs = bs"
  by (induction bs) (simp_all add: not_closes_closed)

lemma find_closed_none [simp]: "list_all attempt_closed bs \<Longrightarrow> find (\<lambda>a. \<not> attempt_closed a) (bs @ cs) = find (\<lambda>a. \<not> attempt_closed a) cs"
  by (induction bs) simp_all

lemma filter_closed [simp]: "list_all attempt_closed bs \<Longrightarrow> filter attempt_closed bs = bs"
  by (induction bs) simp_all

lemma history_closed: "list_all attempt_closed bs \<Longrightarrow> history_of bs = \<lparr>lh_outcomes = map la_state bs, lh_open = None\<rparr>"
  using find_closed_none[of bs "[]"] by (simp add: history_of_def)

lemma history_open:
  "list_all attempt_closed bs \<Longrightarrow> la_state a = Attempt_Running \<Longrightarrow>
     history_of (bs @ [a]) = \<lparr>lh_outcomes = map la_state bs, lh_open = Some (la_worker a, la_lease_token a)\<rparr>"
  by (simp add: history_of_def attempt_closed_def[of a])

lemma outcome_closed: "attempt_outcome st = Some out \<Longrightarrow> out \<noteq> Attempt_Running"
  by (cases st) auto

lemma outcome_exists: "st \<noteq> Queued \<Longrightarrow> \<exists>out. attempt_outcome st = Some out"
  by (cases st) auto

text \<open>Closing the open attempt of a running job.\<close>

lemma journal_close_running:
  assumes t: "tracks old (job_journal (jr_operation_id old) as)" and r: "jr_state old = Running"
    and c: "jr_state new \<noteq> Running \<or> jr_lease_token new \<noteq> jr_lease_token old" and q: "jr_state new \<noteq> Queued"
  obtains as' bs a out where "journal_close now old new as = Some as'" "attempt_outcome (jr_state new) = Some out"
    "job_journal (jr_operation_id old) as = bs @ [a]" "list_all attempt_closed bs" "la_state a = Attempt_Running"
    "job_journal (jr_operation_id old) as' = bs @ [closed_attempt now new out a]"
    "\<And>oid. oid \<noteq> jr_operation_id old \<Longrightarrow> job_journal oid as' = job_journal oid as"
    "map la_operation_id as' = map la_operation_id as"
proof -
  obtain bs a where js: "job_journal (jr_operation_id old) as = bs @ [a]" "list_all attempt_closed bs" "la_state a = Attempt_Running"
    and tok: "Some (la_lease_token a) = jr_lease_token old" and att: "map la_attempt (bs @ [a]) = [1..jr_attempt old]"
    using t r by (auto simp: tracks_def)
  obtain out where out: "attempt_outcome (jr_state new) = Some out" using outcome_exists[OF q] by blast
  have "a \<in> set (job_journal (jr_operation_id old) as)" using js(1) by simp
  then have mem: "a \<in> set as" "la_operation_id a = jr_operation_id old" by (auto simp: job_journal_def)
  have ne: "0 < jr_attempt old" using att by (cases "0 < jr_attempt old") auto
  have "[1..jr_attempt old] = [1..jr_attempt old - 1] @ [jr_attempt old]" using attempts_upto[of "jr_attempt old - 1"] ne by simp
  then have "la_attempt a = jr_attempt old" using att by simp
  then have cl: "closes_attempt old a" using mem(2) tok js(3) by (simp add: closes_attempt_def)
  let ?f = "\<lambda>a. if closes_attempt old a then closed_attempt now new out a else a"
  have "journal_close now old new as = Some (map ?f as)"
    using r c cl mem(1) out by (auto simp: journal_close_def)
  moreover have "job_journal (jr_operation_id old) (map ?f as) = bs @ [closed_attempt now new out a]"
    unfolding job_journal_close js(1) using cl map_not_closing[OF js(2)] by simp
  moreover have "job_journal oid (map ?f as) = job_journal oid as" if "oid \<noteq> jr_operation_id old" for oid
    unfolding job_journal_close using closes_other[OF that] by (simp add: map_idI)
  moreover have "map la_operation_id (map ?f as) = map la_operation_id as" by (simp add: closed_attempt_def)
  ultimately show thesis using that out js by blast
qed

lemma journal_open_new:
  assumes "begins_lease old new" "job_typed new" "jr_operation_id new = oid" and t: "0 \<le> jr_attempt old"
    and "map la_attempt (job_journal oid as) = [1..jr_attempt old]"
  obtains a where "journal_open now old new as = Some (as @ [a])" "la_operation_id a = oid" "la_attempt a = jr_attempt old + 1"
    "la_state a = Attempt_Running" "jr_lease_token new = Some (la_lease_token a)" "jr_lease_owner new = Some (la_worker a)"
proof -
  obtain tok w where tw: "jr_lease_token new = Some tok" "jr_lease_owner new = Some w" using assms(1,2) by (auto simp: job_typed_def begins_lease_def)
  have "\<not> attempt_taken new as"
  proof
    assume "attempt_taken new as"
    then obtain a where "a \<in> set as" "la_operation_id a = oid" "la_attempt a = jr_attempt old + 1"
      using assms(1,3) by (auto simp: attempt_taken_def begins_lease_def)
    then have "jr_attempt old + 1 \<in> set (map la_attempt (job_journal oid as))" by (force simp: job_journal_def)
    then show False using assms(5) by simp
  qed
  then have "journal_open now old new as = Some (as @ [opened_attempt now new tok w])"
    using assms(1,3) tw t by (auto simp: journal_open_def begins_lease_def)
  moreover have "jr_attempt new = jr_attempt old + 1" using assms(1) by (simp add: begins_lease_def)
  ultimately show thesis using that[of "opened_attempt now new tok w"] tw assms(3) by (simp add: opened_attempt_def)
qed


section \<open>One row\<close>

lemma journal_cancel_frame [simp]:
  "ld_jobs (journal_cancel now old new db) = ld_jobs db" "ld_attempts (journal_cancel now old new db) = ld_attempts db"
  by (simp_all add: journal_cancel_def announce_cancel_def insert_notice_delivery_def add_delivery_def signal_def Let_def split: option.split)

lemma journal_noop: "keeps_lease old new \<Longrightarrow> journal_close now old new as = Some as \<and> journal_open now old new as = Some as"
  by (auto simp: keeps_lease_def journal_close_def journal_open_def)

lemma tracks_history:
  assumes "tracks j js"
  shows "lh_open (history_of js) = (if jr_state j = Running then Some (the (jr_lease_owner j), the (jr_lease_token j)) else None)"
    and "int (length (lh_outcomes (history_of js))) = (if jr_state j = Running then jr_attempt j - 1 else jr_attempt j)"
proof -
  have m: "map la_attempt js = [1..jr_attempt j]" "0 \<le> jr_attempt j" using assms by (simp_all add: tracks_def)
  have len: "int (length js) = jr_attempt j" using arg_cong[OF m(1), of length] m(2) by simp
  have "lh_open (history_of js) = (if jr_state j = Running then Some (the (jr_lease_owner j), the (jr_lease_token j)) else None)
      \<and> int (length (lh_outcomes (history_of js))) = (if jr_state j = Running then jr_attempt j - 1 else jr_attempt j)"
  proof (cases "jr_state j = Running")
    case True
    then obtain bs a where ba: "js = bs @ [a]" "list_all attempt_closed bs" "la_state a = Attempt_Running"
      "Some (la_lease_token a) = jr_lease_token j" "Some (la_worker a) = jr_lease_owner j"
      using assms by (auto simp: tracks_def)
    then show ?thesis using True history_open[of bs a] len by (simp flip: ba(4,5))
  next
    case False
    then show ?thesis using assms history_closed[of js] len by (simp add: tracks_def)
  qed
  then show "lh_open (history_of js) = (if jr_state j = Running then Some (the (jr_lease_owner j), the (jr_lease_token j)) else None)"
    "int (length (lh_outcomes (history_of js))) = (if jr_state j = Running then jr_attempt j - 1 else jr_attempt j)" by simp_all
qed

lemma closed_attempt_simps [simp]:
  "la_state (closed_attempt now new out a) = out" "la_attempt (closed_attempt now new out a) = la_attempt a"
  "la_operation_id (closed_attempt now new out a) = la_operation_id a"
  by (simp_all add: closed_attempt_def)

text \<open>What the trigger does to the journal of the changed job.\<close>

definition row_follows :: "lifecycle_job_row \<Rightarrow> lifecycle_job_row \<Rightarrow> lifecycle_attempt_row list \<Rightarrow> lifecycle_attempt_row list \<Rightarrow> bool" where
  "row_follows old new as as' \<longleftrightarrow>
     tracks new (job_journal (jr_operation_id old) as') \<and>
     history_of (job_journal (jr_operation_id old) as') = history_step old new (history_of (job_journal (jr_operation_id old) as))"

definition journal_follows :: "lifecycle_job_row \<Rightarrow> lifecycle_job_row \<Rightarrow> lifecycle_attempt_row list \<Rightarrow> lifecycle_attempt_row list \<Rightarrow> bool" where
  "journal_follows old new as as' \<longleftrightarrow>
     row_follows old new as as' \<and>
     (\<forall>oid. oid \<noteq> jr_operation_id old \<longrightarrow> job_journal oid as' = job_journal oid as) \<and>
     la_operation_id ` set as' \<subseteq> insert (jr_operation_id old) (la_operation_id ` set as)"

lemma change_exclusive:
  "keeps_lease old new \<Longrightarrow> \<not> begins_lease old new \<and> \<not> ends_lease old new" "begins_lease old new \<Longrightarrow> \<not> ends_lease old new"
  by (auto simp: keeps_lease_def begins_lease_def ends_lease_def)

lemma trigger_begin_over_running:
  assumes t: "tracks old (job_journal (jr_operation_id old) as)" and c: "job_change old new" "begins_lease old new"
    and r: "jr_state old = Running"
  obtains as1 as2 where "journal_close now old new as = Some as1" "journal_open now old new as1 = Some as2" "journal_follows old new as as2"
proof -
  have n: "jr_state new = Running" "jr_lease_token new \<noteq> jr_lease_token old" and oid: "jr_operation_id new = jr_operation_id old" and ok: "job_typed new"
    and att0: "0 \<le> jr_attempt old" and att: "map la_attempt (job_journal (jr_operation_id old) as) = [1..jr_attempt old]"
    using c t by (auto simp: begins_lease_def job_change_def tracks_def)
  obtain as1 bs a out where 1: "journal_close now old new as = Some as1" "attempt_outcome (jr_state new) = Some out"
    "job_journal (jr_operation_id old) as = bs @ [a]" "list_all attempt_closed bs" "la_state a = Attempt_Running"
    "job_journal (jr_operation_id old) as1 = bs @ [closed_attempt now new out a]"
    "\<And>oid. oid \<noteq> jr_operation_id old \<Longrightarrow> job_journal oid as1 = job_journal oid as" "map la_operation_id as1 = map la_operation_id as"
    using n by (rule_tac journal_close_running[OF t r, of new now]) auto
  have att1: "map la_attempt (job_journal (jr_operation_id old) as1) = [1..jr_attempt old]" using att 1(3,6) by simp
  obtain b where 2: "journal_open now old new as1 = Some (as1 @ [b])" "la_operation_id b = jr_operation_id old" "la_attempt b = jr_attempt old + 1"
    "la_state b = Attempt_Running" "jr_lease_token new = Some (la_lease_token b)" "jr_lease_owner new = Some (la_worker b)"
    using journal_open_new[OF c(2) ok oid att0 att1, of now] by blast
  have out: "out = Attempt_Expired" using 1(2) n by simp
  have cl: "list_all attempt_closed (bs @ [closed_attempt now new out a])" using 1(4) out by (simp add: attempt_closed_def)
  have j: "job_journal (jr_operation_id old) (as1 @ [b]) = (bs @ [closed_attempt now new out a]) @ [b]" using 1(6) 2(2) by (simp add: job_journal_def)
  have "map la_attempt ((bs @ [closed_attempt now new out a]) @ [b]) = [1..jr_attempt new]"
    using att1 1(6) 2(3) c(2) att0 by (simp add: attempts_upto begins_lease_def)
  then have "tracks new ((bs @ [closed_attempt now new out a]) @ [b])"
    unfolding tracks_def using cl 2 n att0 c(2) by (auto simp: begins_lease_def)
  moreover have "job_journal x (as1 @ [b]) = job_journal x as" if "x \<noteq> jr_operation_id old" for x
    using that 1(7)[OF that] 2(2) by (simp add: job_journal_def)
  moreover have "history_of ((bs @ [closed_attempt now new out a]) @ [b]) = history_step old new (history_of (bs @ [a]))"
    using c(2) history_open[OF cl 2(4)] history_open[OF 1(4,5)] 2(5,6) out by (simp add: history_step_def begin_lease_def)
  moreover have "la_operation_id ` set (as1 @ [b]) \<subseteq> insert (jr_operation_id old) (la_operation_id ` set as)"
    using 2(2) arg_cong[OF 1(8), of set] by auto
  ultimately have "journal_follows old new as (as1 @ [b])" unfolding journal_follows_def row_follows_def j 1(3) by blast
  then show thesis using that 1(1) 2(1) by blast
qed

lemma trigger_begin_fresh:
  assumes t: "tracks old (job_journal (jr_operation_id old) as)" and c: "job_change old new" "begins_lease old new"
    and r: "jr_state old \<noteq> Running"
  obtains as2 where "journal_close now old new as = Some as" "journal_open now old new as = Some as2" "journal_follows old new as as2"
proof -
  let ?js = "job_journal (jr_operation_id old) as"
  have n: "jr_state new = Running" and oid: "jr_operation_id new = jr_operation_id old" and ok: "job_typed new"
    and att0: "0 \<le> jr_attempt old" and att: "map la_attempt ?js = [1..jr_attempt old]" and cl: "list_all attempt_closed ?js"
    using c t r by (auto simp: begins_lease_def job_change_def tracks_def)
  obtain b where 2: "journal_open now old new as = Some (as @ [b])" "la_operation_id b = jr_operation_id old" "la_attempt b = jr_attempt old + 1"
    "la_state b = Attempt_Running" "jr_lease_token new = Some (la_lease_token b)" "jr_lease_owner new = Some (la_worker b)"
    using journal_open_new[OF c(2) ok oid att0 att, of now] by blast
  have j: "job_journal (jr_operation_id old) (as @ [b]) = ?js @ [b]" using 2(2) by (simp add: job_journal_def)
  have "map la_attempt (?js @ [b]) = [1..jr_attempt new]" using att 2(3) c(2) att0 by (simp add: attempts_upto begins_lease_def)
  then have "tracks new (?js @ [b])" unfolding tracks_def using cl 2 n att0 c(2) by (auto simp: begins_lease_def)
  moreover have "job_journal x (as @ [b]) = job_journal x as" if "x \<noteq> jr_operation_id old" for x using that 2(2) by (simp add: job_journal_def)
  moreover have "history_of (?js @ [b]) = history_step old new (history_of ?js)"
    using c(2) history_open[OF cl 2(4)] history_closed[OF cl] 2(5,6) by (simp add: history_step_def begin_lease_def)
  ultimately have "journal_follows old new as (as @ [b])" unfolding journal_follows_def row_follows_def j using 2(2) by auto
  moreover have "journal_close now old new as = Some as" using r by (simp add: journal_close_def)
  ultimately show thesis using that 2(1) by blast
qed

lemma trigger_end:
  assumes t: "tracks old (job_journal (jr_operation_id old) as)" and c: "job_change old new" "ends_lease old new"
  obtains as1 where "journal_close now old new as = Some as1" "journal_open now old new as1 = Some as1" "journal_follows old new as as1"
proof -
  have r: "jr_state old = Running" and n: "jr_state new \<noteq> Running" "jr_state new \<noteq> Queued" "jr_attempt new = jr_attempt old"
    using c(2) by (auto simp: ends_lease_def)
  obtain as1 bs a out where 1: "journal_close now old new as = Some as1" "attempt_outcome (jr_state new) = Some out"
    "job_journal (jr_operation_id old) as = bs @ [a]" "list_all attempt_closed bs" "la_state a = Attempt_Running"
    "job_journal (jr_operation_id old) as1 = bs @ [closed_attempt now new out a]"
    "\<And>oid. oid \<noteq> jr_operation_id old \<Longrightarrow> job_journal oid as1 = job_journal oid as" "map la_operation_id as1 = map la_operation_id as"
    using n by (rule_tac journal_close_running[OF t r, of new now]) auto
  have cl: "list_all attempt_closed (bs @ [closed_attempt now new out a])" using 1(4) outcome_closed[OF 1(2)] by (simp add: attempt_closed_def)
  have "tracks new (bs @ [closed_attempt now new out a])" using t n cl 1(3) by (auto simp: tracks_def)
  moreover have "history_of (bs @ [closed_attempt now new out a]) = history_step old new (history_of (bs @ [a]))"
    using c(2) change_exclusive(2)[of old new] history_closed[OF cl] history_open[OF 1(4,5)] 1(2) by (auto simp: history_step_def end_lease_def)
  ultimately have "journal_follows old new as as1" unfolding journal_follows_def row_follows_def 1(3,6) using 1(7) arg_cong[OF 1(8), of set] by auto
  moreover have "journal_open now old new as1 = Some as1" using n by (simp add: journal_open_def)
  ultimately show thesis using that 1(1) by blast
qed

lemma trigger_follows:
  assumes t: "tracks old (job_journal (jr_operation_id old) (ld_attempts db))" and c: "job_change old new"
  obtains db' where "journal_session_lifecycle_attempt now (old, new) db = Some db'" "ld_jobs db' = ld_jobs db"
    "journal_follows old new (ld_attempts db) (ld_attempts db')"
proof -
  let ?as = "ld_attempts db"
  have "\<exists>as1 as2. journal_close now old new ?as = Some as1 \<and> journal_open now old new as1 = Some as2 \<and> journal_follows old new ?as as2"
  proof (cases "keeps_lease old new")
    case True
    have "tracks new (job_journal (jr_operation_id old) ?as)" using t True by (auto simp: tracks_def keeps_lease_def)
    then have "journal_follows old new ?as ?as"
      using change_exclusive(1)[OF True] by (auto simp: journal_follows_def row_follows_def history_step_def)
    then show ?thesis using journal_noop[OF True] by blast
  next
    case False
    then consider "begins_lease old new" | "ends_lease old new" using c by (auto simp: job_change_def)
    then show ?thesis
    proof cases
      case 1
      then show ?thesis using trigger_begin_over_running[OF t c 1] trigger_begin_fresh[OF t c 1] by (metis (no_types))
    next
      case 2
      then show ?thesis using trigger_end[OF t c 2] by (metis (no_types))
    qed
  qed
  then show thesis using that by (auto simp: journal_session_lifecycle_attempt_def)
qed

section \<open>One statement\<close>

lemma journal_rows_follow:
  assumes "distinct (map jr_operation_id rs)"
    and "\<And>r. r \<in> set rs \<Longrightarrow> tracks r (job_journal (jr_operation_id r) (ld_attempts db)) \<and> job_change r (f r)"
  obtains db' where "journal_rows now (map (\<lambda>r. (r, f r)) rs) db = Some db'" "ld_jobs db' = ld_jobs db"
    "\<And>r. r \<in> set rs \<Longrightarrow> row_follows r (f r) (ld_attempts db) (ld_attempts db')"
    "\<And>oid. oid \<notin> jr_operation_id ` set rs \<Longrightarrow> job_journal oid (ld_attempts db') = job_journal oid (ld_attempts db)"
    "la_operation_id ` set (ld_attempts db') \<subseteq> la_operation_id ` set (ld_attempts db) \<union> jr_operation_id ` set rs"
  using assms
proof (induction rs arbitrary: db thesis)
  case Nil
  then show ?case by simp
next
  case (Cons r rs)
  obtain db1 where 1: "journal_session_lifecycle_attempt now (r, f r) db = Some db1" "ld_jobs db1 = ld_jobs db"
    "journal_follows r (f r) (ld_attempts db) (ld_attempts db1)"
    using trigger_follows[of r db "f r" now] Cons.prems(3) by auto
  have other: "job_journal oid (ld_attempts db1) = job_journal oid (ld_attempts db)" if "oid \<noteq> jr_operation_id r" for oid
    using 1(3) that by (simp add: journal_follows_def)
  have fresh: "jr_operation_id x \<noteq> jr_operation_id r" if "x \<in> set rs" for x using Cons.prems(2) imageI[OF that, of jr_operation_id] by auto
  have pre: "tracks x (job_journal (jr_operation_id x) (ld_attempts db1)) \<and> job_change x (f x)" if "x \<in> set rs" for x
    using Cons.prems(3)[of x] that fresh[OF that] other by simp
  obtain db' where 2: "journal_rows now (map (\<lambda>r. (r, f r)) rs) db1 = Some db'" "ld_jobs db' = ld_jobs db1"
    "\<And>x. x \<in> set rs \<Longrightarrow> row_follows x (f x) (ld_attempts db1) (ld_attempts db')"
    "\<And>oid. oid \<notin> jr_operation_id ` set rs \<Longrightarrow> job_journal oid (ld_attempts db') = job_journal oid (ld_attempts db1)"
    "la_operation_id ` set (ld_attempts db') \<subseteq> la_operation_id ` set (ld_attempts db1) \<union> jr_operation_id ` set rs"
    using Cons.IH[of db1] Cons.prems(2) pre by auto
  have sub: "la_operation_id ` set (ld_attempts db') \<subseteq> la_operation_id ` set (ld_attempts db) \<union> jr_operation_id ` set (r # rs)"
  proof -
    have "la_operation_id ` set (ld_attempts db1) \<subseteq> insert (jr_operation_id r) (la_operation_id ` set (ld_attempts db))"
      using 1(3) by (simp add: journal_follows_def)
    with 2(5) show ?thesis unfolding list.set image_insert by blast
  qed
  have rest: "job_journal oid (ld_attempts db') = job_journal oid (ld_attempts db)" if "oid \<notin> jr_operation_id ` set (r # rs)" for oid
    using that 2(4)[of oid] other[of oid] by auto
  have "row_follows x (f x) (ld_attempts db) (ld_attempts db')" if x: "x \<in> set (r # rs)" for x
  proof (cases "x = r")
    case True
    then show ?thesis using 1(3) 2(4)[of "jr_operation_id r"] Cons.prems(2) by (simp add: journal_follows_def row_follows_def)
  next
    case False
    then show ?thesis using x 2(3)[of x] other fresh by (auto simp: row_follows_def)
  qed
  then show ?case using Cons.prems(1)[of db'] 1 2 rest sub by simp
qed

lemma update_jobs_cong:
  assumes "\<And>j. j \<in> set (ld_jobs db) \<Longrightarrow> p j = q j"
  shows "update_jobs now p f db = update_jobs now q f db"
proof -
  have "filter p (ld_jobs db) = filter q (ld_jobs db)" "map (\<lambda>j. if p j then f j else j) (ld_jobs db) = map (\<lambda>j. if q j then f j else j) (ld_jobs db)"
    using assms by (auto intro: filter_cong)
  then show ?thesis unfolding update_jobs_def by (simp only:)
qed

text \<open>The constraints of the two tables and the journal of every job.\<close>

definition jobs_ok :: "lifecycle_db \<Rightarrow> bool" where
  "jobs_ok db \<longleftrightarrow>
     distinct (map jr_operation_id (ld_jobs db)) \<and>
     (\<forall>j \<in> set (ld_jobs db). job_typed j \<and> tracks j (job_journal (jr_operation_id j) (ld_attempts db))) \<and>
     la_operation_id ` set (ld_attempts db) \<subseteq> jr_operation_id ` set (ld_jobs db)"

definition jobs_after :: "(lifecycle_job_row \<Rightarrow> bool) \<Rightarrow> (lifecycle_job_row \<Rightarrow> lifecycle_job_row) \<Rightarrow> lifecycle_db \<Rightarrow> lifecycle_db \<Rightarrow> bool" where
  "jobs_after p f db db' \<longleftrightarrow>
     ld_jobs db' = map (\<lambda>j. if p j then f j else j) (ld_jobs db) \<and> jobs_ok db' \<and>
     map jr_operation_id (ld_jobs db') = map jr_operation_id (ld_jobs db) \<and>
     (\<forall>j \<in> set (ld_jobs db). lease_history db' (jr_operation_id j)
        = (if p j then history_step j (f j) (lease_history db (jr_operation_id j)) else lease_history db (jr_operation_id j)))"

lemma jobs_after_member: "jobs_after p f db db' \<Longrightarrow> j' \<in> set (ld_jobs db') \<Longrightarrow> \<exists>i \<in> set (ld_jobs db). j' = (if p i then f i else i)"
proof -
  assume "jobs_after p f db db'" "j' \<in> set (ld_jobs db')"
  then have "j' \<in> (\<lambda>i. if p i then f i else i) ` set (ld_jobs db)" unfolding jobs_after_def by (metis list.set_map)
  then show ?thesis by (rule imageE) blast
qed

text \<open>
  The contract every statement on the jobs has with the journal trigger: a row it changes stays typed
  and keeps, begins or ends its lease.
\<close>

locale job_update =
  fixes p :: "lifecycle_job_row \<Rightarrow> bool" and f :: "lifecycle_job_row \<Rightarrow> lifecycle_job_row"
  assumes change: "p j \<Longrightarrow> job_typed j \<Longrightarrow> job_change j (f j)"
begin

lemma update_after:
  assumes ok: "jobs_ok db"
  obtains db' where "update_jobs now p f db = Some db'" "jobs_after p f db db'"
proof -
  let ?rs = "filter p (ld_jobs db)" and ?db = "db\<lparr>ld_jobs := map (\<lambda>j. if p j then f j else j) (ld_jobs db)\<rparr>"
  have d: "distinct (map jr_operation_id (ld_jobs db))" and t: "\<And>j. j \<in> set (ld_jobs db) \<Longrightarrow> job_typed j \<and> tracks j (job_journal (jr_operation_id j) (ld_attempts db))"
    and fk: "la_operation_id ` set (ld_attempts db) \<subseteq> jr_operation_id ` set (ld_jobs db)" using ok by (auto simp: jobs_ok_def)
  have keepid: "jr_operation_id (if p j then f j else j) = jr_operation_id j" if "j \<in> set (ld_jobs db)" for j
    using change[of j] t[OF that] by (simp add: job_change_def)
  have ids: "map jr_operation_id (ld_jobs ?db) = map jr_operation_id (ld_jobs db)" using keepid by simp
  obtain db' where 1: "update_jobs now p f db = Some db'" "ld_jobs db' = ld_jobs ?db"
    and 2: "\<And>r. r \<in> set ?rs \<Longrightarrow> row_follows r (f r) (ld_attempts db) (ld_attempts db')"
    and 3: "\<And>oid. oid \<notin> jr_operation_id ` set ?rs \<Longrightarrow> job_journal oid (ld_attempts db') = job_journal oid (ld_attempts db)"
    and 4: "la_operation_id ` set (ld_attempts db') \<subseteq> la_operation_id ` set (ld_attempts db) \<union> jr_operation_id ` set ?rs"
    using journal_rows_follow[of ?rs ?db f now] d t change by (auto simp: update_jobs_def distinct_map_filter)
  have same: "job_journal (jr_operation_id j) (ld_attempts db') = job_journal (jr_operation_id j) (ld_attempts db)" if "j \<in> set (ld_jobs db)" "\<not> p j" for j
    using 3[of "jr_operation_id j"] that d by (auto simp: distinct_map inj_on_def)
  have row: "job_typed j' \<and> tracks j' (job_journal (jr_operation_id j') (ld_attempts db'))" if "j' \<in> set (ld_jobs db')" for j'
  proof -
    obtain j where j: "j \<in> set (ld_jobs db)" "j' = (if p j then f j else j)" using \<open>j' \<in> _\<close> 1(2) by auto
    then show ?thesis using t[OF j(1)] same[OF j(1)] 2[of j] change[of j] keepid[OF j(1)]
      by (cases "p j") (simp_all add: row_follows_def job_change_def)
  qed
  have "jobs_ok db'" unfolding jobs_ok_def
  proof (intro conjI ballI)
    show "distinct (map jr_operation_id (ld_jobs db'))" using d unfolding 1(2) ids .
    show "la_operation_id ` set (ld_attempts db') \<subseteq> jr_operation_id ` set (ld_jobs db')"
    proof -
      have e: "jr_operation_id ` set (ld_jobs db') = jr_operation_id ` set (ld_jobs db)"
        using arg_cong[OF ids, of set] unfolding 1(2) list.set_map .
      have "jr_operation_id ` set ?rs \<subseteq> jr_operation_id ` set (ld_jobs db)" by (rule image_mono) simp
      then show ?thesis unfolding e using 4 fk by (rule_tac subset_trans[OF 4 Un_least])
    qed
  qed (use row in blast)+
  moreover have "lease_history db' (jr_operation_id j)
      = (if p j then history_step j (f j) (lease_history db (jr_operation_id j)) else lease_history db (jr_operation_id j))" if "j \<in> set (ld_jobs db)" for j
    using 2[of j] same[OF that] that by (simp add: lease_history_def row_follows_def)
  moreover have "map jr_operation_id (ld_jobs db') = map jr_operation_id (ld_jobs db)" unfolding 1(2) by (rule ids)
  ultimately show thesis using that 1 unfolding jobs_after_def by simp
qed

lemma update_jobs_ok: "jobs_ok db \<Longrightarrow> update_jobs now p f db = Some db' \<Longrightarrow> jobs_after p f db db'"
  using update_after[of db now] by (metis option.inject)

lemma update_never_refused: "jobs_ok db \<Longrightarrow> update_jobs now p f db \<noteq> None"
  using update_after[of db now] by (metis option.discI)

end

text \<open>A statement that hands out no lease.\<close>

locale lease_neutral = job_update +
  assumes token: "p j \<Longrightarrow> job_typed j \<Longrightarrow> jr_lease_token (f j) \<in> {None, jr_lease_token j}"
begin

lemma no_new_tokens:
  assumes "jobs_ok db" "update_jobs now p f db = Some db'" "j' \<in> set (ld_jobs db')" "jr_lease_token j' = Some t"
  shows "\<exists>j \<in> set (ld_jobs db). jr_operation_id j = jr_operation_id j' \<and> jr_lease_token j = Some t"
proof -
  obtain j where "j \<in> set (ld_jobs db)" "j' = (if p j then f j else j)"
    using update_jobs_ok[OF assms(1,2)] assms(3) by (auto simp: jobs_after_def)
  then show ?thesis using assms(1,4) token[of j] change[of j] by (auto simp: jobs_ok_def job_change_def split: if_splits)
qed

end

lemmas job_change_defs = job_change_def keeps_lease_def begins_lease_def ends_lease_def job_typed_def

interpretation enqueue_update: lease_neutral "same_work i epoch" "\<lambda>j. j\<lparr>jr_operation_id := jr_operation_id j\<rparr>" for i epoch
  by unfold_locales (auto simp: job_change_defs)

interpretation claim_update: job_update "\<lambda>j. jr_operation_id j = oid \<and> jr_lease_token j \<noteq> Some token \<and> length owner \<le> 128" "leased_job now owner token v"
  for oid token owner now v
  by unfold_locales (auto simp: job_change_defs leased_job_def)

interpretation renew_update: lease_neutral "lease_holds now lease" "\<lambda>j. j\<lparr>jr_lease_until := Some t, jr_updated_at := now\<rparr>" for now lease t
  by unfold_locales (auto simp: job_change_defs lease_holds_def)

interpretation finish_update: lease_neutral "\<lambda>j. st \<notin> {Queued, Running} \<and> lease_holds now lease j" "finished_job now st res v" for now lease st res v
  by unfold_locales (auto simp: job_change_defs lease_holds_def finished_job_def)

interpretation settle_update: lease_neutral "\<lambda>j. jr_operation_id j = oid"
  "\<lambda>j. j\<lparr>jr_state := Partial, jr_result := Some (JObj [(''reason'', JStr ''external_cleanup_pending'')]),
        jr_next_attempt_at := now + 86400000000, jr_lease_owner := None, jr_lease_token := None,
        jr_lease_until := None, jr_updated_at := now\<rparr>" for oid now
  by unfold_locales (auto simp: job_change_defs)

interpretation rebind_update: lease_neutral "\<lambda>j. 0 \<le> epoch \<and> jr_operation_id j = oid" "\<lambda>j. j\<lparr>jr_activity_epoch := epoch\<rparr>" for oid epoch
  by unfold_locales (auto simp: job_change_defs)

interpretation purge_update: lease_neutral "\<lambda>j. jr_operation_id j = oid \<and> jr_state j = Partial"
  "\<lambda>j. j\<lparr>jr_state := Succeeded, jr_result := Some (JObj [(''reason'', JStr ''cloud_cleanup_completed'')]), jr_updated_at := now\<rparr>" for oid now
  by unfold_locales (auto simp: job_change_defs)

interpretation cancel_update: lease_neutral "overtaken_job sid epoch" "cancel_job now" for sid epoch now
  by unfold_locales (auto simp: job_change_defs cancel_job_def)

section \<open>Runs\<close>

text \<open>
  The states of the ledger with the random identifiers drawn so far: \<open>randomUUID\<close> returns a new one each
  time. Every other transaction leaves the jobs and the journal alone.
\<close>

record job_ledger =
  jl_issued :: "string set"
  jl_db :: lifecycle_db

inductive job_step :: "job_ledger \<Rightarrow> job_ledger \<Rightarrow> bool" where
  enqueue: "uuid \<notin> I \<Longrightarrow> enqueue_job now uuid i db = (res, db') \<Longrightarrow>
     job_step \<lparr>jl_issued = I, jl_db = db\<rparr> \<lparr>jl_issued = insert uuid I, jl_db = db'\<rparr>"
| claim: "token \<notin> I \<Longrightarrow> claim_job locked now token owner leaseMs flt db = (lease, db') \<Longrightarrow>
     job_step \<lparr>jl_issued = I, jl_db = db\<rparr> \<lparr>jl_issued = insert token I, jl_db = db'\<rparr>"
| renew: "renew_job now lease leaseMs db = (res, db') \<Longrightarrow>
     job_step \<lparr>jl_issued = I, jl_db = db\<rparr> \<lparr>jl_issued = I, jl_db = db'\<rparr>"
| finish: "st \<notin> {Queued, Running} \<Longrightarrow> finish_job now lease st out retryMs db = (res, db') \<Longrightarrow>
     job_step \<lparr>jl_issued = I, jl_db = db\<rparr> \<lparr>jl_issued = I, jl_db = db'\<rparr>"
| settle: "settle_purged_member now oid db = Some db' \<Longrightarrow>
     job_step \<lparr>jl_issued = I, jl_db = db\<rparr> \<lparr>jl_issued = I, jl_db = db'\<rparr>"
| rebind: "0 \<le> epoch \<Longrightarrow> rebind_epoch now oid epoch db = Some db' \<Longrightarrow>
     job_step \<lparr>jl_issued = I, jl_db = db\<rparr> \<lparr>jl_issued = I, jl_db = db'\<rparr>"
| purged: "complete_purge now oid db = Some db' \<Longrightarrow>
     job_step \<lparr>jl_issued = I, jl_db = db\<rparr> \<lparr>jl_issued = I, jl_db = db'\<rparr>"
| resume: "operation \<notin> I \<Longrightarrow> 0 \<le> ls_activity_epoch old \<Longrightarrow>
     resume_session_lifecycle now hosts operation subject old new db = Some (sess, db') \<Longrightarrow>
     job_step \<lparr>jl_issued = I, jl_db = db\<rparr> \<lparr>jl_issued = insert operation I, jl_db = db'\<rparr>"
| owner_deleted: "job_step \<lparr>jl_issued = I, jl_db = db\<rparr> \<lparr>jl_issued = I, jl_db = delete_owner uid db\<rparr>"
| elsewhere: "ld_jobs db' = ld_jobs db \<Longrightarrow> ld_attempts db' = ld_attempts db \<Longrightarrow>
     job_step \<lparr>jl_issued = I, jl_db = db\<rparr> \<lparr>jl_issued = I, jl_db = db'\<rparr>"

definition ledger_empty :: "job_ledger \<Rightarrow> bool" where
  "ledger_empty s \<longleftrightarrow> ld_jobs (jl_db s) = [] \<and> ld_attempts (jl_db s) = []"

definition drawn :: "string set \<Rightarrow> lifecycle_db \<Rightarrow> bool" where
  "drawn I db \<longleftrightarrow> (\<forall>j \<in> set (ld_jobs db). jr_operation_id j \<in> I \<and> (\<forall>t. jr_lease_token j = Some t \<longrightarrow> t \<in> I))"

definition job_ledger_inv :: "job_ledger \<Rightarrow> bool" where
  "job_ledger_inv s \<longleftrightarrow> jobs_ok (jl_db s) \<and> distinct (map job_key (ld_jobs (jl_db s))) \<and> drawn (jl_issued s) (jl_db s)"

text \<open>What a step does to the parts of the invariant.\<close>

definition job_effect :: "string set \<Rightarrow> lifecycle_db \<Rightarrow> lifecycle_db \<Rightarrow> bool" where
  "job_effect ids db db' \<longleftrightarrow>
     jobs_ok db' \<and> (distinct (map job_key (ld_jobs db)) \<longrightarrow> distinct (map job_key (ld_jobs db'))) \<and>
     (\<forall>j' \<in> set (ld_jobs db'). jr_operation_id j' \<in> ids \<union> jr_operation_id ` set (ld_jobs db)) \<and>
     (\<forall>j' \<in> set (ld_jobs db'). \<forall>t. jr_lease_token j' = Some t \<longrightarrow> t \<in> ids \<or> (\<exists>j \<in> set (ld_jobs db). jr_operation_id j = jr_operation_id j' \<and> jr_lease_token j = Some t))"

lemma job_effect_refl: "jobs_ok db \<Longrightarrow> job_effect {} db db"
  by (auto simp: job_effect_def)

lemma job_effect_trans:
  assumes "job_effect A db db1" "job_effect B db1 db2"
  shows "job_effect (A \<union> B) db db2"
proof -
  have "t \<in> A \<union> B \<or> (\<exists>j \<in> set (ld_jobs db). jr_operation_id j = jr_operation_id j' \<and> jr_lease_token j = Some t)"
    if "j' \<in> set (ld_jobs db2)" "jr_lease_token j' = Some t" for j' t
    using assms that unfolding job_effect_def by (metis Un_iff)
  moreover have "jr_operation_id j' \<in> A \<union> B \<union> jr_operation_id ` set (ld_jobs db)" if "j' \<in> set (ld_jobs db2)" for j'
  proof -
    have "jr_operation_id j' \<in> B \<union> jr_operation_id ` set (ld_jobs db1)" using assms(2) that by (simp add: job_effect_def)
    moreover have "jr_operation_id ` set (ld_jobs db1) \<subseteq> A \<union> jr_operation_id ` set (ld_jobs db)" using assms(1) by (auto simp: job_effect_def)
    ultimately show ?thesis by blast
  qed
  moreover have "jobs_ok db2" "distinct (map job_key (ld_jobs db)) \<Longrightarrow> distinct (map job_key (ld_jobs db2))"
    using assms by (simp_all add: job_effect_def)
  ultimately show ?thesis unfolding job_effect_def[of "A \<union> B"] by (intro conjI impI ballI allI) simp_all
qed

lemma job_effect_weaken: "job_effect A db db' \<Longrightarrow> A \<subseteq> B \<Longrightarrow> job_effect B db db'"
  unfolding job_effect_def by blast

lemma inv_effect:
  assumes "job_ledger_inv \<lparr>jl_issued = I, jl_db = db\<rparr>" "job_effect ids db db'"
  shows "job_ledger_inv \<lparr>jl_issued = ids \<union> I, jl_db = db'\<rparr>"
  using assms unfolding job_ledger_inv_def job_effect_def drawn_def by (auto 0 4)

lemma jobs_okD: "jobs_ok db \<Longrightarrow> j \<in> set (ld_jobs db) \<Longrightarrow> job_typed j \<and> tracks j (job_journal (jr_operation_id j) (ld_attempts db))"
  by (simp add: jobs_ok_def)

context lease_neutral
begin

lemma neutral_effect:
  assumes ok: "jobs_ok db" and u: "update_jobs now p f db = Some db'"
    and key: "distinct (map job_key (ld_jobs db)) \<Longrightarrow> distinct (map job_key (ld_jobs db'))"
  shows "job_effect {} db db'"
proof -
  have a: "jobs_after p f db db'" by (rule update_jobs_ok[OF ok u])
  have "jr_operation_id j' \<in> jr_operation_id ` set (ld_jobs db)" if "j' \<in> set (ld_jobs db')" for j'
    using that a change jobs_okD[OF ok] by (force simp: jobs_after_def job_change_def split: if_splits)
  then show ?thesis using a key no_new_tokens[OF ok u] unfolding job_effect_def jobs_after_def by blast
qed

lemma neutral_key_effect:
  assumes ok: "jobs_ok db" and u: "update_jobs now p f db = Some db'" and "\<And>j. job_key (f j) = job_key j"
  shows "job_effect {} db db'"
proof (rule neutral_effect[OF ok u])
  have "ld_jobs db' = map (\<lambda>j. if p j then f j else j) (ld_jobs db)" using update_jobs_ok[OF ok u] by (simp add: jobs_after_def)
  then have "map job_key (ld_jobs db') = map job_key (ld_jobs db)" using assms(3) by simp
  then show "distinct (map job_key (ld_jobs db)) \<Longrightarrow> distinct (map job_key (ld_jobs db'))" by simp
qed

end

lemma jobs_ok_cong: "ld_jobs db' = ld_jobs db \<Longrightarrow> ld_attempts db' = ld_attempts db \<Longrightarrow> jobs_ok db' = jobs_ok db"
  by (simp add: jobs_ok_def)

lemma job_effect_cong: "ld_jobs db2 = ld_jobs db1 \<Longrightarrow> ld_attempts db2 = ld_attempts db1 \<Longrightarrow> job_effect ids db db1 \<Longrightarrow> job_effect ids db db2"
  by (simp add: job_effect_def jobs_ok_def)

lemma insert_job_effect:
  assumes ok: "jobs_ok db" and new: "jr_operation_id j \<notin> jr_operation_id ` set (ld_jobs db)" "job_key j \<notin> job_key ` set (ld_jobs db)"
    and typed: "job_typed j" "jr_state j \<noteq> Running" "jr_attempt j = 0"
  shows "job_effect {jr_operation_id j} db (db\<lparr>ld_jobs := ld_jobs db @ [j]\<rparr>)"
proof -
  have "la_operation_id a \<noteq> jr_operation_id j" if "a \<in> set (ld_attempts db)" for a
    using ok new(1) imageI[OF that, of la_operation_id] unfolding jobs_ok_def by (metis subsetD)
  then have "job_journal (jr_operation_id j) (ld_attempts db) = []" by (simp add: job_journal_def filter_empty_conv)
  then have "tracks j (job_journal (jr_operation_id j) (ld_attempts db))" using typed by (simp add: tracks_def)
  then show ?thesis using ok new typed by (auto simp: job_effect_def jobs_ok_def job_typed_def)
qed

lemma same_work_key: "same_work i epoch r \<longleftrightarrow> job_key r = (en_userId i, en_sessionId i, en_action i, epoch, en_policyVersion i)"
  by (auto simp: same_work_def job_key_def)

lemma find_None_notin: "find P xs = None \<Longrightarrow> x \<in> set xs \<Longrightarrow> \<not> P x"
  by (auto simp: find_None_iff)

lemma enqueue_job_cases:
  assumes "enqueue_job now uuid i db = (res, db')" and "epoch = int (decimal_value (en_activityEpoch i))"
  obtains "db' = db"
    | r where "find (same_work i epoch) (ld_jobs db) = Some r" "res = Inr (lifecycle_job r)"
        "update_jobs now (same_work i epoch) (\<lambda>j. j\<lparr>jr_operation_id := jr_operation_id j\<rparr>) db = Some db'"
    | "find (same_work i epoch) (ld_jobs db) = None" "uuid \<notin> jr_operation_id ` set (ld_jobs db)"
        "res = Inr (lifecycle_job (new_job now uuid i epoch))" "db' = db\<lparr>ld_jobs := ld_jobs db @ [new_job now uuid i epoch]\<rparr>"
proof (cases "en_activityEpoch i = [] \<or> \<not> list_all is_digit (en_activityEpoch i) \<or> MAX_BIGINT < epoch \<or> 128 < length (en_sessionId i)")
  case True
  then show ?thesis using assms that(1) by (auto simp: enqueue_job_def Let_def split: if_splits)
next
  case False
  show ?thesis
  proof (cases "find (same_work i epoch) (ld_jobs db)")
    case None
    then show ?thesis using assms False that(1,3) by (simp add: enqueue_job_def Let_def split: if_splits)
  next
    case (Some r)
    then show ?thesis using assms False that(1) that(2)[OF Some]
      by (cases "update_jobs now (same_work i epoch) (\<lambda>j. j\<lparr>jr_operation_id := jr_operation_id j\<rparr>) db") (simp_all add: enqueue_job_def Let_def split: if_splits)
  qed
qed

lemma enqueue_effect:
  assumes ok: "jobs_ok db" and e: "enqueue_job now uuid i db = (res, db')"
  shows "job_effect {uuid} db db'"
  using e refl
proof (cases rule: enqueue_job_cases)
  case 1
  then show ?thesis using job_effect_weaken[OF job_effect_refl[OF ok]] by simp
next
  case (2 r)
  show ?thesis by (rule job_effect_weaken[OF enqueue_update.neutral_key_effect[OF ok 2(3)]]) (simp_all add: job_key_def)
next
  case 3
  let ?j = "new_job now uuid i (int (decimal_value (en_activityEpoch i)))"
  have k: "job_key ?j = (en_userId i, en_sessionId i, en_action i, int (decimal_value (en_activityEpoch i)), en_policyVersion i)"
    by (simp add: job_key_def new_job_def)
  have "job_key ?j \<notin> job_key ` set (ld_jobs db)"
    using find_None_notin[OF 3(1)] unfolding k same_work_key by (metis imageE)
  then show ?thesis using insert_job_effect[OF ok, of ?j] 3 by (simp add: new_job_def job_typed_def)
qed

lemma claim_cases:
  assumes "claim_job locked now token owner leaseMs flt db = (res, db')"
  obtains "db' = db" "\<And>l. res \<noteq> Inr (Some l)"
    | j v where "length owner \<le> 128" "valid_lease leaseMs = Inr v" "claim_candidate locked now flt db = Some j"
        "update_jobs now (\<lambda>r. jr_operation_id r = jr_operation_id j) (leased_job now owner token v) db = Some db'"
        "res = Inr (Some (lifecycle_job (leased_job now owner token v j)))"
proof (cases "owner = [] \<or> 128 < length owner")
  case True
  then show ?thesis using assms that(1) by (auto simp: claim_job_def)
next
  case False
  show ?thesis
  proof (cases "valid_lease leaseMs")
    case (Inl e)
    then show ?thesis using assms False that(1) by (auto simp: claim_job_def)
  next
    case (Inr v)
    show ?thesis
    proof (cases "claim_candidate locked now flt db")
      case None
      then show ?thesis using assms False Inr that(1) by (auto simp: claim_job_def)
    next
      case (Some j)
      then show ?thesis using assms False Inr that(1) that(2)[OF _ Inr Some]
        by (cases "update_jobs now (\<lambda>r. jr_operation_id r = jr_operation_id j) (leased_job now owner token v) db")
          (auto simp: claim_job_def split: if_splits)
    qed
  qed
qed

lemma claim_rewrite:
  assumes "\<And>j. j \<in> set (ld_jobs db) \<Longrightarrow> jr_lease_token j \<noteq> Some token" "length owner \<le> 128"
  shows "update_jobs now (\<lambda>r. jr_operation_id r = oid) (leased_job now owner token v) db
    = update_jobs now (\<lambda>r. jr_operation_id r = oid \<and> jr_lease_token r \<noteq> Some token \<and> length owner \<le> 128) (leased_job now owner token v) db"
  by (rule update_jobs_cong) (use assms in simp)

lemma claim_after:
  assumes ok: "jobs_ok db" and fresh: "\<And>j. j \<in> set (ld_jobs db) \<Longrightarrow> jr_lease_token j \<noteq> Some token" and len: "length owner \<le> 128"
    and u: "update_jobs now (\<lambda>r. jr_operation_id r = oid) (leased_job now owner token v) db = Some db'"
  shows "jobs_after (\<lambda>r. jr_operation_id r = oid \<and> jr_lease_token r \<noteq> Some token \<and> length owner \<le> 128) (leased_job now owner token v) db db'"
  by (rule claim_update.update_jobs_ok[OF ok]) (use u claim_rewrite[OF fresh len] in simp)

lemma claim_effect:
  assumes ok: "jobs_ok db" and fresh: "\<And>j. j \<in> set (ld_jobs db) \<Longrightarrow> jr_lease_token j \<noteq> Some token"
    and e: "claim_job locked now token owner leaseMs flt db = (res, db')"
  shows "job_effect {token} db db'"
  using e
proof (cases rule: claim_cases)
  case 1
  then show ?thesis using job_effect_weaken[OF job_effect_refl[OF ok]] by simp
next
  case (2 j v)
  note a = claim_after[OF ok fresh 2(1,4)]
  have "map job_key (ld_jobs db') = map job_key (ld_jobs db)" using a by (simp add: jobs_after_def job_key_def leased_job_def)
  then have "distinct (map job_key (ld_jobs db)) \<Longrightarrow> distinct (map job_key (ld_jobs db'))" by simp
  moreover have "jr_operation_id r' \<in> jr_operation_id ` set (ld_jobs db) \<and>
      (\<forall>t. jr_lease_token r' = Some t \<longrightarrow> t = token \<or> (\<exists>r \<in> set (ld_jobs db). jr_operation_id r = jr_operation_id r' \<and> jr_lease_token r = Some t))" if r': "r' \<in> set (ld_jobs db')" for r'
  proof -
    obtain r where "r \<in> set (ld_jobs db)" "r' = r \<or> r' = leased_job now owner token v r" using r' a by (auto simp: jobs_after_def)
    then show ?thesis by (auto simp: leased_job_def)
  qed
  moreover have "jobs_ok db'" using a by (simp add: jobs_after_def)
  ultimately show ?thesis unfolding job_effect_def by blast
qed

lemma renew_effect: "jobs_ok db \<Longrightarrow> renew_job now lease leaseMs db = (res, db') \<Longrightarrow> job_effect {} db db'"
  by (auto simp: renew_job_def fenced_job_update_def job_key_def job_effect_refl split: sum.splits option.splits
      intro: renew_update.neutral_key_effect)

lemma finish_rewrite:
  "st \<notin> {Queued, Running} \<Longrightarrow> update_jobs now (lease_holds now lease) f db = update_jobs now (\<lambda>j. st \<notin> {Queued, Running} \<and> lease_holds now lease j) f db"
  by (rule update_jobs_cong) simp

lemma finish_effect:
  assumes "jobs_ok db" "st \<notin> {Queued, Running}" "finish_job now lease st out retryMs db = (res, db')"
  shows "job_effect {} db db'"
proof -
  have "db' = db \<or> (\<exists>v. update_jobs now (\<lambda>j. st \<notin> {Queued, Running} \<and> lease_holds now lease j) (finished_job now st out v) db = Some db')"
    using assms(3) finish_rewrite[OF assms(2)] by (auto simp: finish_job_def fenced_job_update_def split: sum.splits option.splits if_splits)
  then show ?thesis
    using finish_update.neutral_key_effect[OF assms(1)] job_effect_refl[OF assms(1)] by (auto simp: job_key_def finished_job_def)
qed

lemma settle_effect: "jobs_ok db \<Longrightarrow> settle_purged_member now oid db = Some db' \<Longrightarrow> job_effect {} db db'"
  unfolding settle_purged_member_def by (rule settle_update.neutral_key_effect) (simp_all add: job_key_def)

lemma complete_effect: "jobs_ok db \<Longrightarrow> complete_purge now oid db = Some db' \<Longrightarrow> job_effect {} db db'"
  unfolding complete_purge_def by (rule purge_update.neutral_key_effect) (simp_all add: job_key_def)

lemma rebind_effect:
  assumes ok: "jobs_ok db" and e: "0 \<le> epoch" "rebind_epoch now oid epoch db = Some db'"
  shows "job_effect {} db db'"
proof (cases "find (\<lambda>j. jr_operation_id j = oid) (ld_jobs db)")
  case None
  then show ?thesis using e job_effect_refl[OF ok] by (simp add: rebind_epoch_def)
next
  case (Some r)
  have r: "r \<in> set (ld_jobs db)" "jr_operation_id r = oid" using Some by (auto simp: find_Some_iff)
  have free: "\<And>j. j \<in> set (ld_jobs db) \<Longrightarrow> jr_operation_id j \<noteq> oid \<Longrightarrow> job_key j \<noteq> job_key (r\<lparr>jr_activity_epoch := epoch\<rparr>)"
    and u: "update_jobs now (\<lambda>j. jr_operation_id j = oid) (\<lambda>j. j\<lparr>jr_activity_epoch := epoch\<rparr>) db = Some db'"
    using e Some by (auto simp: rebind_epoch_def split: if_splits)
  have u': "update_jobs now (\<lambda>j. 0 \<le> epoch \<and> jr_operation_id j = oid) (\<lambda>j. j\<lparr>jr_activity_epoch := epoch\<rparr>) db = Some db'" using u e(1) by simp
  have ids: "inj_on jr_operation_id (set (ld_jobs db))" "distinct (ld_jobs db)" using ok by (auto simp: jobs_ok_def distinct_map)
  have only: "\<And>j. j \<in> set (ld_jobs db) \<Longrightarrow> jr_operation_id j = oid \<Longrightarrow> j = r" using ids r by (auto dest: inj_onD)
  show ?thesis
  proof (rule rebind_update.neutral_effect[OF ok u'])
    assume d: "distinct (map job_key (ld_jobs db))"
    let ?g = "\<lambda>j. if 0 \<le> epoch \<and> jr_operation_id j = oid then j\<lparr>jr_activity_epoch := epoch\<rparr> else j"
    have m: "ld_jobs db' = map ?g (ld_jobs db)" using rebind_update.update_jobs_ok[OF ok u'] by (simp add: jobs_after_def)
    have "inj_on (\<lambda>j. job_key (?g j)) (set (ld_jobs db))"
    proof (rule inj_onI)
      fix a b assume ab: "a \<in> set (ld_jobs db)" "b \<in> set (ld_jobs db)" "job_key (?g a) = job_key (?g b)"
      then show "a = b" using only[of a] only[of b] free[of a] free[of b] e(1) d
        by (cases "jr_operation_id a = oid"; cases "jr_operation_id b = oid") (auto simp: distinct_map dest: inj_onD)
    qed
    then show "distinct (map job_key (ld_jobs db'))" unfolding m map_map comp_def using ids(2) by (simp add: distinct_map)
  qed
qed

lemma append_to_notice_frame:
  "append_to_notice now subject r n db = Some db' \<Longrightarrow> ld_jobs db' = ld_jobs db \<and> ld_attempts db' = ld_attempts db"
  by (auto simp: append_to_notice_def Let_def signal_def add_delivery_def split: if_splits)

lemma record_resume_jobs:
  assumes "record_resume now hosts operation subject new db = Some db'"
  shows "ld_jobs db' = ld_jobs db \<and> ld_attempts db' = ld_attempts db \<or>
    (\<exists>uid db1. insert_resume_job (resume_job now operation uid new) db = Some db1 \<and> ld_jobs db' = ld_jobs db1 \<and> ld_attempts db' = ld_attempts db1)"
  using assms by (auto simp: record_resume_def Let_def split: option.splits if_splits dest!: append_to_notice_frame) blast+

lemma record_resume_effect:
  assumes ok: "jobs_ok db" and r: "record_resume now hosts operation subject new db = Some db'" and "0 \<le> ls_activity_epoch new"
  shows "job_effect {operation} db db'"
proof -
  have "job_effect {operation} db db1" if i: "insert_resume_job (resume_job now operation uid new) db = Some db1" for uid db1
  proof -
    let ?j = "resume_job now operation uid new"
    have "jr_operation_id ?j \<notin> jr_operation_id ` set (ld_jobs db)" "job_key ?j \<notin> job_key ` set (ld_jobs db)" "db1 = db\<lparr>ld_jobs := ld_jobs db @ [?j]\<rparr>"
      using i by (simp_all add: insert_resume_job_def split: if_splits)
    moreover have "job_typed ?j" "jr_state ?j \<noteq> Running" "jr_attempt ?j = 0" "jr_operation_id ?j = operation"
      using assms(3) by (simp_all add: resume_job_def job_typed_def)
    ultimately show ?thesis using insert_job_effect[OF ok, of ?j] by simp
  qed
  then show ?thesis
    using record_resume_jobs[OF r] job_effect_cong[OF _ _ job_effect_weaken[OF job_effect_refl[OF ok]]] by (auto intro: job_effect_cong)
qed

lemma restore_epoch [simp]: "ls_activity_epoch (restore_session old new) = ls_activity_epoch new"
  by (simp add: restore_session_def Let_def)

lemma resume_effect:
  assumes ok: "jobs_ok db" and e: "0 \<le> ls_activity_epoch old" and r: "resume_session_lifecycle now hosts operation subject old new db = Some (sess, db')"
  shows "job_effect {operation} db db'"
proof (cases "db' = db")
  case True
  then show ?thesis using job_effect_weaken[OF job_effect_refl[OF ok]] by simp
next
  case False
  define n2 where "n2 = restore_session old (advance_epoch old (if fences_changed old new then advance_epoch old new else new))"
  obtain db1 where u: "update_jobs now (overtaken_job (ls_session_id old) (ls_activity_epoch n2)) (cancel_job now) db = Some db1"
    and c: "db' = db1 \<or> record_resume now hosts operation subject n2 db1 = Some db'"
    using r False by (auto simp: resume_session_lifecycle_def Let_def n2_def[symmetric] split: if_splits option.splits)
  have 1: "job_effect {} db db1" by (rule cancel_update.neutral_key_effect[OF ok u]) (simp add: job_key_def cancel_job_def)
  then have "jobs_ok db1" by (simp add: job_effect_def)
  moreover have "0 \<le> ls_activity_epoch n2" using e by (simp add: n2_def advance_epoch_def)
  ultimately have "db' = db1 \<or> job_effect {operation} db1 db'" using c record_resume_effect by blast
  then show ?thesis using 1 job_effect_trans[OF 1] job_effect_weaken[OF 1] by auto
qed

lemma delete_owner_effect:
  assumes ok: "jobs_ok db"
  shows "job_effect {} db (delete_owner uid db)"
proof -
  let ?db = "delete_owner uid db" and ?gone = "jr_operation_id ` set (filter (\<lambda>j. jr_user_id j = uid) (ld_jobs db))"
  have j: "ld_jobs ?db = filter (\<lambda>j. jr_user_id j \<noteq> uid) (ld_jobs db)" and a: "ld_attempts ?db = filter (\<lambda>a. la_operation_id a \<notin> ?gone) (ld_attempts db)"
    by (simp_all add: delete_owner_def Let_def)
  have inj: "inj_on jr_operation_id (set (ld_jobs db))" using ok by (simp add: jobs_ok_def distinct_map)
  have kept: "jr_operation_id r \<notin> ?gone" if "r \<in> set (ld_jobs ?db)" for r using that inj unfolding j by (auto dest: inj_onD)
  have journal: "job_journal (jr_operation_id r) (ld_attempts ?db) = job_journal (jr_operation_id r) (ld_attempts db)" if "r \<in> set (ld_jobs ?db)" for r
    unfolding a job_journal_def filter_filter by (rule filter_cong[OF refl]) (metis kept[OF that])
  have "la_operation_id x \<in> jr_operation_id ` set (ld_jobs ?db)" if "x \<in> set (ld_attempts ?db)" for x
  proof -
    have "la_operation_id x \<in> jr_operation_id ` set (ld_jobs db)" "la_operation_id x \<notin> ?gone" using ok that by (auto simp: a jobs_ok_def)
    then show ?thesis unfolding j by auto
  qed
  then have "jobs_ok ?db" using ok journal by (auto simp: jobs_ok_def j distinct_map_filter)
  then show ?thesis by (auto simp: job_effect_def j distinct_map_filter)
qed

lemma step_effect:
  assumes "job_step s t" "job_ledger_inv s"
  shows "\<exists>ids. job_effect ids (jl_db s) (jl_db t) \<and> jl_issued t = ids \<union> jl_issued s \<and> ids \<inter> jl_issued s = {}"
  using assms
proof (cases rule: job_step.cases)
  case (claim token I locked now owner leaseMs flt db lease db')
  have "jr_lease_token j \<noteq> Some token" if "j \<in> set (ld_jobs db)" for j
    using that claim assms(2) by (auto simp: job_ledger_inv_def drawn_def)
  then have "job_effect {token} db db'" using claim assms(2) by (intro claim_effect) (auto simp: job_ledger_inv_def)
  then show ?thesis using claim by (intro exI[of _ "{token}"]) simp
next
  case (enqueue uuid I now i db res db')
  then show ?thesis using assms(2) by (intro exI[of _ "{uuid}"]) (auto simp: job_ledger_inv_def intro: enqueue_effect)
next
  case (resume operation I old now hosts subject new db sess db')
  then show ?thesis using assms(2) by (intro exI[of _ "{operation}"]) (auto simp: job_ledger_inv_def intro: resume_effect)
next
  case (elsewhere db' db I)
  then show ?thesis using assms(2) job_effect_cong[OF _ _ job_effect_refl, of db' db] by (intro exI[of _ "{}"]) (auto simp: job_ledger_inv_def)
qed (use assms(2) in \<open>auto simp: job_ledger_inv_def intro!: exI[of _ "{}"] intro: renew_effect finish_effect settle_effect rebind_effect complete_effect delete_owner_effect\<close>)

interpretation job_runs: transition_system ledger_empty job_step job_ledger_inv
proof
  show "job_ledger_inv s" if "ledger_empty s" for s
    using that by (simp add: ledger_empty_def job_ledger_inv_def jobs_ok_def drawn_def)
  show "job_ledger_inv t" if inv: "job_ledger_inv s" and st: "job_step s t" for s t
  proof -
    obtain ids where "job_effect ids (jl_db s) (jl_db t)" "jl_issued t = ids \<union> jl_issued s" using step_effect[OF st inv] by blast
    then show ?thesis using inv_effect[of "jl_issued s" "jl_db s" ids "jl_db t"] inv by (cases s; cases t) simp
  qed
qed

section \<open>Consequences\<close>

lemma update_jobs_none: "(\<And>j. j \<in> set (ld_jobs db) \<Longrightarrow> \<not> p j) \<Longrightarrow> update_jobs now p f db = Some db"
  by (simp add: update_jobs_def map_idI cong: map_cong filter_cong)

lemma fenced_job_update_none:
  "(\<And>j. j \<in> set (ld_jobs db) \<Longrightarrow> \<not> lease_holds now lease j) \<Longrightarrow> fenced_job_update now lease f db = (Inr False, db)"
  by (simp add: fenced_job_update_def update_jobs_none)

text \<open>A token no job carries any more, and that no later claim can hand out again.\<close>

definition retired :: "LifecycleJob \<Rightarrow> job_ledger \<Rightarrow> bool" where
  "retired lease s \<longleftrightarrow> job_ledger_inv s \<and>
     (\<exists>t \<in> jl_issued s. lj_leaseToken lease = Some t \<and> (\<forall>j \<in> set (ld_jobs (jl_db s)). jr_operation_id j = lj_operationId lease \<longrightarrow> jr_lease_token j \<noteq> Some t))"

lemma retired_step:
  assumes "job_step s t" "retired lease s"
  shows "retired lease t"
proof -
  have inv: "job_ledger_inv s" using assms(2) by (simp add: retired_def)
  obtain ids where ids: "job_effect ids (jl_db s) (jl_db t)" "jl_issued t = ids \<union> jl_issued s" "ids \<inter> jl_issued s = {}"
    using step_effect[OF assms(1) inv] by blast
  obtain x where x: "x \<in> jl_issued s" "lj_leaseToken lease = Some x"
    "\<And>j. j \<in> set (ld_jobs (jl_db s)) \<Longrightarrow> jr_operation_id j = lj_operationId lease \<Longrightarrow> jr_lease_token j \<noteq> Some x"
    using assms(2) by (auto simp: retired_def)
  have "jr_lease_token j' \<noteq> Some x" if "j' \<in> set (ld_jobs (jl_db t))" "jr_operation_id j' = lj_operationId lease" for j'
    using that x ids(1,3) unfolding job_effect_def by (metis disjoint_iff)
  then show ?thesis using x(1,2) ids(2) job_runs.inv_step[OF inv assms(1)] by (auto simp: retired_def)
qed

lemma retired_steps: "job_step\<^sup>*\<^sup>* s t \<Longrightarrow> retired lease s \<Longrightarrow> retired lease t"
  by (induction rule: rtranclp_induct) (auto intro: retired_step)

lemma retired_powerless:
  assumes "retired lease s"
  shows "snd (renew_job now lease v (jl_db s)) = jl_db s" "fst (renew_job now lease v (jl_db s)) \<noteq> Inr True"
    "snd (finish_job now lease st out r (jl_db s)) = jl_db s" "fst (finish_job now lease st out r (jl_db s)) \<noteq> Inr True"
proof -
  have "\<And>j. j \<in> set (ld_jobs (jl_db s)) \<Longrightarrow> \<not> lease_holds now lease j" using assms by (auto simp: retired_def lease_holds_def)
  note none = fenced_job_update_none[OF this]
  show "snd (renew_job now lease v (jl_db s)) = jl_db s" "fst (renew_job now lease v (jl_db s)) \<noteq> Inr True"
    using none by (simp_all add: renew_job_def split: sum.split)
  show "snd (finish_job now lease st out r (jl_db s)) = jl_db s" "fst (finish_job now lease st out r (jl_db s)) \<noteq> Inr True"
    using none by (simp_all add: finish_job_def split: sum.split)
qed

lemma finish_accepted:
  assumes "finish_job now lease st out r db = (Inr True, db')" and "st \<notin> {Queued, Running}"
  obtains v j where "update_jobs now (\<lambda>j. st \<notin> {Queued, Running} \<and> lease_holds now lease j) (finished_job now st out v) db = Some db'"
    "j \<in> set (ld_jobs db)" "lease_holds now lease j"
  using assms(1) finish_rewrite[OF assms(2)]
  by (auto simp: finish_job_def fenced_job_update_def split: sum.splits if_splits option.splits)

lemma lease_unique: "jobs_ok db \<Longrightarrow> j \<in> set (ld_jobs db) \<Longrightarrow> j' \<in> set (ld_jobs db) \<Longrightarrow> jr_operation_id j = jr_operation_id j' \<Longrightarrow> j = j'"
  by (auto simp: jobs_ok_def distinct_map dest: inj_onD)

lemma history_absent:
  assumes "jobs_ok db" "oid \<notin> jr_operation_id ` set (ld_jobs db)"
  shows "lease_history db oid = history_of []"
proof -
  have "oid \<notin> la_operation_id ` set (ld_attempts db)" using assms unfolding jobs_ok_def by blast
  then have "job_journal oid (ld_attempts db) = []" by (auto simp: job_journal_def filter_empty_conv)
  then show ?thesis by (simp add: lease_history_def)
qed

lemma history_after:
  assumes "jobs_ok db" "jobs_after p f db db'"
    and "\<And>j. j \<in> set (ld_jobs db) \<Longrightarrow> g (jr_operation_id j) = (if p j then history_step j (f j) (lease_history db (jr_operation_id j)) else lease_history db (jr_operation_id j))"
    and "\<And>oid. oid \<notin> jr_operation_id ` set (ld_jobs db) \<Longrightarrow> g oid = lease_history db oid"
  shows "lease_history db' = g"
proof
  fix oid
  have m: "map jr_operation_id (ld_jobs db') = map jr_operation_id (ld_jobs db)" and ok: "jobs_ok db'"
    using assms(2) by (auto simp only: jobs_after_def)
  have ids: "jr_operation_id ` set (ld_jobs db') = jr_operation_id ` set (ld_jobs db)" using arg_cong[OF m, of set] unfolding list.set_map .
  show "lease_history db' oid = g oid"
  proof (cases "oid \<in> jr_operation_id ` set (ld_jobs db)")
    case True
    then show ?thesis using assms(2,3) by (auto simp: jobs_after_def)
  next
    case False
    then show ?thesis using history_absent[OF assms(1) False] history_absent[OF ok] ids assms(4)[OF False] by simp
  qed
qed

lemma history_single:
  assumes ok: "jobs_ok db" and a: "jobs_after p f db db'" and r: "r \<in> set (ld_jobs db)" "p r" "\<And>j. p j \<Longrightarrow> jr_operation_id j = jr_operation_id r"
  shows "lease_history db' = (lease_history db)(jr_operation_id r := history_step r (f r) (lease_history db (jr_operation_id r)))"
proof (rule history_after[OF ok a])
  fix j assume j: "j \<in> set (ld_jobs db)"
  consider "j = r" | "jr_operation_id j \<noteq> jr_operation_id r" "\<not> p j" using r(3) lease_unique[OF ok j r(1)] by blast
  then show "((lease_history db)(jr_operation_id r := history_step r (f r) (lease_history db (jr_operation_id r)))) (jr_operation_id j)
      = (if p j then history_step j (f j) (lease_history db (jr_operation_id j)) else lease_history db (jr_operation_id j))"
    by cases (simp_all add: r(2))
next
  fix oid assume "oid \<notin> jr_operation_id ` set (ld_jobs db)"
  then have "oid \<noteq> jr_operation_id r" using r(1) by blast
  then show "((lease_history db)(jr_operation_id r := history_step r (f r) (lease_history db (jr_operation_id r)))) oid = lease_history db oid" by simp
qed

lemma reachable_ok: "ledger_empty s \<Longrightarrow> job_step\<^sup>*\<^sup>* s t \<Longrightarrow> job_ledger_inv t \<and> jobs_ok (jl_db t)"
  using job_runs.inv_reachable[of s t] by (simp add: job_ledger_inv_def)

lemma candidate_in_jobs: "claim_candidate locked now flt db = Some j \<Longrightarrow> j \<in> set (ld_jobs db) \<and> claimable now flt db j \<and> \<not> locked (jr_operation_id j)"
proof -
  let ?xs = "sort_key job_order (filter (\<lambda>j. claimable now flt db j \<and> \<not> locked (jr_operation_id j)) (ld_jobs db))"
  assume "claim_candidate locked now flt db = Some j"
  then have "j \<in> set ?xs" unfolding claim_candidate_def by (cases ?xs) (simp_all del: set_sort)
  then show ?thesis by simp
qed

lemma claim_begins:
  assumes ok: "jobs_ok db" and fresh: "\<And>j. j \<in> set (ld_jobs db) \<Longrightarrow> jr_lease_token j \<noteq> Some token"
    and c: "claim_job locked now token owner leaseMs flt db = (Inr (Some l), db')"
  shows "lease_history db' = (lease_history db)(lj_operationId l := begin_lease owner token (lease_history db (lj_operationId l)))"
    and "lj_attempt l = int (length (lh_outcomes (lease_history db' (lj_operationId l)))) + 1"
proof -
  obtain j v where j: "length owner \<le> 128" "claim_candidate locked now flt db = Some j"
    "update_jobs now (\<lambda>r. jr_operation_id r = jr_operation_id j) (leased_job now owner token v) db = Some db'"
    "l = lifecycle_job (leased_job now owner token v j)"
    using c by (cases rule: claim_cases) auto
  note a = claim_after[OF ok fresh j(1,3)]
  have mem: "j \<in> set (ld_jobs db)" using candidate_in_jobs[OF j(2)] by simp
  have l: "lj_operationId l = jr_operation_id j" "lj_attempt l = jr_attempt j + 1" by (simp_all add: j(4) lifecycle_job_def leased_job_def)
  have "begins_lease j (leased_job now owner token v j)" using fresh[OF mem] j(1) by (auto simp: begins_lease_def leased_job_def)
  then have step: "history_step j (leased_job now owner token v j) = begin_lease owner token" by (simp add: history_step_def leased_job_def)
  show h: "lease_history db' = (lease_history db)(lj_operationId l := begin_lease owner token (lease_history db (lj_operationId l)))"
    using history_single[OF ok a mem] fresh[OF mem] j(1) step l(1) by simp
  have "tracks j (job_journal (jr_operation_id j) (ld_attempts db))" using jobs_okD[OF ok mem] by simp
  then show "lj_attempt l = int (length (lh_outcomes (lease_history db' (lj_operationId l)))) + 1"
    using tracks_history[of j] unfolding h l by (auto simp: lease_history_def begin_lease_def)
qed

lemma finish_ends:
  assumes ok: "jobs_ok db" and c: "finish_job now lease st out r db = (Inr True, db')" and st: "st \<notin> {Queued, Running}"
  shows "lh_open (lease_history db (lj_operationId lease)) = Some (the (lj_leaseOwner lease), the (lj_leaseToken lease))"
    and "lease_history db' = (lease_history db)(lj_operationId lease := end_lease (the (attempt_outcome st)) (lease_history db (lj_operationId lease)))"
proof -
  obtain v j where u: "update_jobs now (\<lambda>j. st \<notin> {Queued, Running} \<and> lease_holds now lease j) (finished_job now st out v) db = Some db'"
    and j: "j \<in> set (ld_jobs db)" "lease_holds now lease j"
    by (rule finish_accepted[OF c st])
  have a: "jobs_after (\<lambda>j. st \<notin> {Queued, Running} \<and> lease_holds now lease j) (finished_job now st out v) db db'"
    by (rule finish_update.update_jobs_ok[OF ok u])
  have l: "jr_operation_id j = lj_operationId lease" "jr_state j = Running" "jr_lease_owner j = lj_leaseOwner lease" "jr_lease_token j = lj_leaseToken lease"
    using j(2) by (simp_all add: lease_holds_def)
  show "lh_open (lease_history db (lj_operationId lease)) = Some (the (lj_leaseOwner lease), the (lj_leaseToken lease))"
    using tracks_history(1)[of j "job_journal (jr_operation_id j) (ld_attempts db)"] jobs_okD[OF ok j(1)] l by (simp add: lease_history_def)
  have "ends_lease j (finished_job now st out v j)" "\<not> begins_lease j (finished_job now st out v j)"
    using l st by (auto simp: ends_lease_def begins_lease_def finished_job_def)
  then have "history_step j (finished_job now st out v j) = end_lease (the (attempt_outcome st))"
    by (simp add: history_step_def finished_job_def)
  then show "lease_history db' = (lease_history db)(lj_operationId lease := end_lease (the (attempt_outcome st)) (lease_history db (lj_operationId lease)))"
    using history_single[OF ok a j(1)] j(2) st l(1) by (simp add: lease_holds_def)
qed

lemma renew_keeps_history:
  assumes ok: "jobs_ok db" and c: "renew_job now lease v db = (res, db')"
  shows "lease_history db' = lease_history db"
proof (cases "db' = db")
  case False
  then obtain t where u: "update_jobs now (lease_holds now lease) (\<lambda>j. j\<lparr>jr_lease_until := Some t, jr_updated_at := now\<rparr>) db = Some db'"
    using c by (auto simp: renew_job_def fenced_job_update_def split: sum.splits option.splits)
  show ?thesis
    by (rule history_after[OF ok renew_update.update_jobs_ok[OF ok u]]) (auto simp: history_step_def begins_lease_def ends_lease_def)
qed simp

lemma token_unused: "job_ledger_inv t \<Longrightarrow> token \<notin> jl_issued t \<Longrightarrow> j \<in> set (ld_jobs (jl_db t)) \<Longrightarrow> jr_lease_token j \<noteq> Some token"
  by (auto simp: job_ledger_inv_def drawn_def)

lemma attempts_distinct:
  assumes "jobs_ok db"
  shows "distinct (map (\<lambda>a. (la_operation_id a, la_attempt a)) (ld_attempts db))"
proof -
  have "distinct (map (\<lambda>a. (la_operation_id a, la_attempt a)) as)"
    if "\<And>oid. distinct (map la_attempt (job_journal oid as))" for as
    using that
  proof (induction as)
    case (Cons a as)
    have "distinct (map la_attempt (job_journal oid as))" for oid
      using Cons.prems[of oid] by (simp add: job_journal_def split: if_splits)
    moreover have "(la_operation_id a, la_attempt a) \<notin> (\<lambda>a. (la_operation_id a, la_attempt a)) ` set as"
      using Cons.prems[of "la_operation_id a"] by (force simp: job_journal_def)
    ultimately show ?case using Cons.IH by simp
  qed simp
  moreover have "distinct (map la_attempt (job_journal oid (ld_attempts db)))" for oid
  proof (cases "oid \<in> jr_operation_id ` set (ld_jobs db)")
    case True
    then show ?thesis using assms by (auto simp: jobs_ok_def tracks_def)
  next
    case False
    then have "oid \<notin> la_operation_id ` set (ld_attempts db)" using assms unfolding jobs_ok_def by blast
    then have "job_journal oid (ld_attempts db) = []" by (auto simp: job_journal_def filter_empty_conv)
    then show ?thesis by simp
  qed
  ultimately show ?thesis by blast
qed

lemma never_refused:
  assumes ok: "jobs_ok db"
  shows "fst (renew_job now lease v db) \<noteq> Inl Statement_Refused"
    and "st \<notin> {Queued, Running} \<Longrightarrow> fst (finish_job now lease st out r db) \<noteq> Inl Statement_Refused"
proof -
  have m: "milliseconds x y \<noteq> Inl Statement_Refused" "valid_lease x \<noteq> Inl Statement_Refused" for x y
    by (simp_all add: milliseconds_def valid_lease_def split: sum.split)
  show "fst (renew_job now lease v db) \<noteq> Inl Statement_Refused"
  proof (cases "valid_lease v")
    case (Inr x)
    show ?thesis using renew_update.update_never_refused[OF ok, of now now lease "now + ms x"] Inr
      by (auto simp: renew_job_def fenced_job_update_def split: option.split)
  qed (use m(2)[of v] in \<open>auto simp: renew_job_def\<close>)
  show "fst (finish_job now lease st out r db) \<noteq> Inl Statement_Refused" if st: "st \<notin> {Queued, Running}"
  proof (cases "milliseconds r 86400000")
    case (Inr x)
    have "update_jobs now (lease_holds now lease) (finished_job now st out x) db \<noteq> None"
      unfolding finish_rewrite[OF st] by (rule finish_update.update_never_refused[OF ok])
    then show ?thesis using Inr by (auto simp: finish_job_def fenced_job_update_def split: option.split)
  qed (use m(1)[of r 86400000] in \<open>auto simp: finish_job_def\<close>)
qed

lemma resume_parts:
  assumes "resume_session_lifecycle now hosts operation subject old new db = Some (sess, db')" "business_activity old new"
  obtains db1 where "update_jobs now (overtaken_job (ls_session_id old) (ls_activity_epoch sess)) (cancel_job now) db = Some db1"
    "db' = db1 \<or> record_resume now hosts operation subject sess db1 = Some db'"
    "\<exists>n1. sess = restore_session old (advance_epoch old n1) \<and> ls_activity_epoch new \<le> ls_activity_epoch n1"
proof -
  define n1 where "n1 = (if fences_changed old new then advance_epoch old new else new)"
  define n2 where "n2 = restore_session old (advance_epoch old n1)"
  have "business_activity old n1" using assms(2) by (simp add: n1_def business_activity_def advance_epoch_def)
  then have r: "(case update_jobs now (overtaken_job (ls_session_id old) (ls_activity_epoch n2)) (cancel_job now) db of None \<Rightarrow> None
      | Some db1 \<Rightarrow> if \<not> restored old then Some (n2, db1) else map_option (\<lambda>db2. (n2, db2)) (record_resume now hosts operation subject n2 db1)) = Some (sess, db')"
    using assms(1) unfolding resume_session_lifecycle_def Let_def n1_def[symmetric] n2_def[symmetric] by simp
  have "sess = n2" using r by (auto split: option.splits if_splits)
  moreover have "ls_activity_epoch new \<le> ls_activity_epoch n1" by (simp add: n1_def advance_epoch_def)
  ultimately show thesis using that r n2_def by (auto split: option.splits if_splits)
qed

lemma restore_effect:
  assumes "sess = restore_session old (advance_epoch old n1)" "ls_activity_epoch new \<le> ls_activity_epoch n1"
  shows "ls_activity_epoch old < ls_activity_epoch sess" "ls_activity_epoch new \<le> ls_activity_epoch sess"
    "ls_archive_reason old = Some ''inactivity'' \<Longrightarrow> ls_archived_at sess = None \<and> ls_archive_reason sess = None"
    "ls_content_state old \<in> {Cold, Cooling} \<Longrightarrow> ls_content_state sess = Mixed \<and> ls_cooling_operation_id sess = None"
  using assms by (auto simp: advance_epoch_def restore_session_def Let_def)

lemma record_resume_members:
  assumes "record_resume now hosts operation subject sess db1 = Some db'"
  shows "\<exists>js. ld_jobs db' = ld_jobs db1 @ js \<and> list_all (\<lambda>j. jr_state j = Succeeded) js"
  using record_resume_jobs[OF assms]
  by (auto simp: insert_resume_job_def resume_job_def split: if_splits)

section \<open>A concrete run\<close>

text \<open>A job enqueued, claimed and finished.\<close>

definition demo_empty :: lifecycle_db where
  "demo_empty = \<lparr>ld_jobs = [], ld_attempts = [], ld_results = [], ld_notices = [], ld_subjects = [], ld_deliveries = [],
     ld_next_delivery = 1, ld_deletions = [], ld_signals = []\<rparr>"

definition demo_input :: enqueue_input where
  "demo_input = \<lparr>en_userId = 1, en_sessionId = ''s'', en_action = Archive, en_policyVersion = ''v'', en_activityEpoch = ''0'', en_scheduledAt = None\<rparr>"

definition demo_queued :: lifecycle_db where
  "demo_queued = demo_empty\<lparr>ld_jobs := [new_job 0 ''o'' demo_input 0]\<rparr>"

definition demo_running_job :: lifecycle_job_row where
  "demo_running_job = leased_job 0 ''w'' ''t'' 1000 (new_job 0 ''o'' demo_input 0)"

definition demo_running :: lifecycle_db where
  "demo_running = demo_queued\<lparr>ld_jobs := [demo_running_job], ld_attempts := [opened_attempt 0 demo_running_job ''t'' ''w'']\<rparr>"

lemmas demo_defs = demo_empty_def demo_input_def demo_queued_def demo_running_job_def demo_running_def new_job_def leased_job_def opened_attempt_def

lemma demo_enqueue: "enqueue_job 0 ''o'' demo_input demo_empty = (Inr (lifecycle_job (new_job 0 ''o'' demo_input 0)), demo_queued)"
  by (simp add: enqueue_job_def demo_defs is_digit_def decimal_value_def MAX_BIGINT_def)

lemma demo_claim: "claim_job (\<lambda>_. False) 0 ''t'' ''w'' 1000 None demo_queued = (Inr (Some (lifecycle_job demo_running_job)), demo_running)"
  by (simp add: claim_job_def valid_lease_def milliseconds_def is_safe_integer_def MAX_SAFE_INTEGER_def claim_candidate_def claimable_def
      journaled_deletion_def update_jobs_def journal_session_lifecycle_attempt_def journal_close_def journal_open_def attempt_taken_def
      journal_cancel_def demo_defs)

lemma demo_finish:
  "finish_job 1 (lifecycle_job demo_running_job) Succeeded JNull 0 demo_running =
     (Inr True, demo_running\<lparr>ld_jobs := [finished_job 1 Succeeded JNull 0 demo_running_job],
        ld_attempts := [closed_attempt 1 (finished_job 1 Succeeded JNull 0 demo_running_job) Attempt_Succeeded (opened_attempt 0 demo_running_job ''t'' ''w'')]\<rparr>)"
  by (simp add: finish_job_def milliseconds_def is_safe_integer_def MAX_SAFE_INTEGER_def utf8_length_def fenced_job_update_def lease_holds_def
      lifecycle_job_def ms_def update_jobs_def journal_session_lifecycle_attempt_def journal_close_def closes_attempt_def closed_attempt_def
      journal_open_def journal_cancel_def finished_job_def demo_defs)

abbreviation demo_start :: job_ledger where
  "demo_start \<equiv> \<lparr>jl_issued = {}, jl_db = demo_empty\<rparr>"

abbreviation demo_claimed :: job_ledger where
  "demo_claimed \<equiv> \<lparr>jl_issued = {''t'', ''o''}, jl_db = demo_running\<rparr>"

lemma demo_run: "ledger_empty demo_start" "job_step\<^sup>*\<^sup>* demo_start \<lparr>jl_issued = {''o''}, jl_db = demo_queued\<rparr>" "job_step\<^sup>*\<^sup>* demo_start demo_claimed"
proof -
  show "ledger_empty demo_start" by (simp add: ledger_empty_def demo_empty_def)
  have 1: "job_step demo_start \<lparr>jl_issued = {''o''}, jl_db = demo_queued\<rparr>" using job_step.enqueue[OF _ demo_enqueue, of "{}"] by simp
  have 2: "job_step \<lparr>jl_issued = {''o''}, jl_db = demo_queued\<rparr> demo_claimed" using job_step.claim[OF _ demo_claim, of "{''o''}"] by simp
  show "job_step\<^sup>*\<^sup>* demo_start \<lparr>jl_issued = {''o''}, jl_db = demo_queued\<rparr>" using 1 by blast
  show "job_step\<^sup>*\<^sup>* demo_start demo_claimed" using 1 2 by (meson converse_rtranclp_into_rtranclp r_into_rtranclp)
qed

section \<open>Properties\<close>

text \<open>
  C25. In every run of the work ledger the tables keep their constraints: operations and units of work
  are unique, a job has a lease exactly while it runs, its attempt numbers are unique and belong to a job,
  and the database refuses no renewal and no completion.
\<close>

theorem lifecycle_ledger_stays_typed:
  assumes "ledger_empty s" "job_step\<^sup>*\<^sup>* s t"
  shows "distinct (map jr_operation_id (ld_jobs (jl_db t))) \<and> distinct (map job_key (ld_jobs (jl_db t)))
    \<and> (\<forall>j \<in> set (ld_jobs (jl_db t)). 0 \<le> jr_attempt j \<and> 0 \<le> jr_activity_epoch j \<and>
         (jr_state j = Running \<longleftrightarrow> jr_lease_owner j \<noteq> None) \<and> (jr_state j = Running \<longleftrightarrow> jr_lease_token j \<noteq> None) \<and>
         (jr_state j = Running \<longleftrightarrow> jr_lease_until j \<noteq> None))
    \<and> distinct (map (\<lambda>a. (la_operation_id a, la_attempt a)) (ld_attempts (jl_db t)))
    \<and> la_operation_id ` set (ld_attempts (jl_db t)) \<subseteq> jr_operation_id ` set (ld_jobs (jl_db t))
    \<and> fst (renew_job now lease leaseMs (jl_db t)) \<noteq> Inl Statement_Refused
    \<and> (st \<notin> {Queued, Running} \<longrightarrow> fst (finish_job now lease st out retryMs (jl_db t)) \<noteq> Inl Statement_Refused)"
proof -
  have inv: "job_ledger_inv t" and ok: "jobs_ok (jl_db t)" using reachable_ok[OF assms] by simp_all
  have rows: "\<forall>j \<in> set (ld_jobs (jl_db t)). 0 \<le> jr_attempt j \<and> 0 \<le> jr_activity_epoch j \<and> (jr_state j = Running \<longleftrightarrow> jr_lease_owner j \<noteq> None) \<and>
      (jr_state j = Running \<longleftrightarrow> jr_lease_token j \<noteq> None) \<and> (jr_state j = Running \<longleftrightarrow> jr_lease_until j \<noteq> None)"
  proof
    fix j assume "j \<in> set (ld_jobs (jl_db t))"
    from jobs_okD[OF ok this] show "0 \<le> jr_attempt j \<and> 0 \<le> jr_activity_epoch j \<and> (jr_state j = Running \<longleftrightarrow> jr_lease_owner j \<noteq> None) \<and>
      (jr_state j = Running \<longleftrightarrow> jr_lease_token j \<noteq> None) \<and> (jr_state j = Running \<longleftrightarrow> jr_lease_until j \<noteq> None)"
      by (cases "jr_state j = Running") (auto simp: job_typed_def tracks_def)
  qed
  have keys: "distinct (map jr_operation_id (ld_jobs (jl_db t)))" "distinct (map job_key (ld_jobs (jl_db t)))"
    "la_operation_id ` set (ld_attempts (jl_db t)) \<subseteq> jr_operation_id ` set (ld_jobs (jl_db t))"
    using inv ok by (simp_all add: job_ledger_inv_def jobs_ok_def)
  show ?thesis by (intro conjI impI) (rule rows keys attempts_distinct[OF ok] never_refused[OF ok] | assumption)+
qed

theorem lifecycle_ledger_stays_typed_witness:
  "length (ld_jobs demo_running) = 1 \<and> distinct (map job_key (ld_jobs demo_running))
    \<and> fst (finish_job 1 (lifecycle_job demo_running_job) Succeeded JNull 0 demo_running) \<noteq> Inl Statement_Refused"
  using lifecycle_ledger_stays_typed[OF demo_run(1,3), of 1 "lifecycle_job demo_running_job" 1 Succeeded JNull 0]
  by (simp add: demo_finish) (simp add: demo_running_def)

text \<open>
  C24. The leases of the ledger refine an abstract history per job: a claim closes an overtaken attempt
  as expired and opens the next one under its owner and token, a renewal changes nothing, a completion
  needs the open lease and closes it with its outcome; no other job is touched and the attempt number
  counts the history.
\<close>

theorem lifecycle_leases_refine_history:
  assumes "ledger_empty s" "job_step\<^sup>*\<^sup>* s t" "token \<notin> jl_issued t"
  shows "(claim_job locked now token owner leaseMs flt (jl_db t) = (Inr (Some l), db1) \<longrightarrow>
       lease_history db1 = (lease_history (jl_db t))(lj_operationId l := begin_lease owner token (lease_history (jl_db t) (lj_operationId l))) \<and>
       lj_attempt l = int (length (lh_outcomes (lease_history db1 (lj_operationId l)))) + 1)
    \<and> (renew_job now lease leaseMs (jl_db t) = (res, db2) \<longrightarrow> lease_history db2 = lease_history (jl_db t))
    \<and> (finish_job now lease st out retryMs (jl_db t) = (Inr True, db3) \<and> st \<notin> {Queued, Running} \<longrightarrow>
       lh_open (lease_history (jl_db t) (lj_operationId lease)) = Some (the (lj_leaseOwner lease), the (lj_leaseToken lease)) \<and>
       lease_history db3 = (lease_history (jl_db t))
         (lj_operationId lease := end_lease (the (attempt_outcome st)) (lease_history (jl_db t) (lj_operationId lease))))"
proof -
  have inv: "job_ledger_inv t" and ok: "jobs_ok (jl_db t)" using reachable_ok[OF assms(1,2)] by simp_all
  have fresh: "\<And>j. j \<in> set (ld_jobs (jl_db t)) \<Longrightarrow> jr_lease_token j \<noteq> Some token" by (rule token_unused[OF inv assms(3)])
  show ?thesis
    by (intro conjI impI; (elim conjE)?)
      ((rule claim_begins[OF ok], erule fresh, assumption) | erule renew_keeps_history[OF ok] | erule (1) finish_ends[OF ok])+
qed

theorem lifecycle_leases_refine_history_witness:
  "lease_history demo_running ''o'' = \<lparr>lh_outcomes = [], lh_open = Some (''w'', ''t'')\<rparr>"
proof -
  have "lease_history demo_running = (lease_history demo_queued)(''o'' := begin_lease ''w'' ''t'' (lease_history demo_queued ''o''))"
    using lifecycle_leases_refine_history[OF demo_run(1,2), of "''t''"] demo_claim
    by (auto simp: lifecycle_job_def demo_running_job_def leased_job_def new_job_def)
  then show ?thesis
    by (simp add: begin_lease_def lease_history_def history_of_def job_journal_def demo_queued_def demo_empty_def)
qed

text \<open>
  A lease completes its job at most once: after an accepted completion the same lease neither renews
  nor completes anything, in any later state of the ledger and at any time.
\<close>

lemma lifecycle_lease_is_single_use:
  assumes "ledger_empty s" "job_step\<^sup>*\<^sup>* s t" "st \<notin> {Queued, Running}"
    and fin: "finish_job now lease st out retryMs (jl_db t) = (Inr True, db')"
    and later: "job_step\<^sup>*\<^sup>* (t\<lparr>jl_db := db'\<rparr>) u"
  shows "snd (renew_job now' lease leaseMs (jl_db u)) = jl_db u \<and> fst (renew_job now' lease leaseMs (jl_db u)) \<noteq> Inr True
    \<and> snd (finish_job now' lease st' out' retryMs' (jl_db u)) = jl_db u \<and> fst (finish_job now' lease st' out' retryMs' (jl_db u)) \<noteq> Inr True"
proof -
  have inv: "job_ledger_inv t" and ok: "jobs_ok (jl_db t)" using reachable_ok[OF assms(1,2)] by simp_all
  have "job_step t (t\<lparr>jl_db := db'\<rparr>)" using job_step.finish[OF assms(3) fin, of "jl_issued t"] by (cases t) simp
  then have inv': "job_ledger_inv (t\<lparr>jl_db := db'\<rparr>)" by (rule job_runs.inv_step[OF inv])
  obtain v j where u: "update_jobs now (\<lambda>j. st \<notin> {Queued, Running} \<and> lease_holds now lease j) (finished_job now st out v) (jl_db t) = Some db'"
    and j: "j \<in> set (ld_jobs (jl_db t))" "lease_holds now lease j"
    by (rule finish_accepted[OF fin assms(3)])
  have a: "jobs_after (\<lambda>j. st \<notin> {Queued, Running} \<and> lease_holds now lease j) (finished_job now st out v) (jl_db t) db'"
    by (rule finish_update.update_jobs_ok[OF ok u])
  obtain x where x: "lj_leaseToken lease = Some x" "jr_lease_token j = Some x" using j(2) by (auto simp: lease_holds_def)
  have "x \<in> jl_issued t" using inv j(1) x(2) by (auto simp: job_ledger_inv_def drawn_def)
  moreover have "jr_lease_token j' \<noteq> Some x" if j': "j' \<in> set (ld_jobs db')" "jr_operation_id j' = lj_operationId lease" for j'
  proof -
    obtain i where i: "i \<in> set (ld_jobs (jl_db t))" "j' = (if st \<notin> {Queued, Running} \<and> lease_holds now lease i then finished_job now st out v i else i)"
      using jobs_after_member[OF a j'(1)] by blast
    then have "i = j" using lease_unique[OF ok i(1) j(1)] j'(2) j(2) by (simp add: lease_holds_def finished_job_def split: if_splits)
    then show ?thesis using i(2) j(2) assms(3) by (simp add: finished_job_def)
  qed
  ultimately have "retired lease (t\<lparr>jl_db := db'\<rparr>)" using inv' x(1) by (auto simp: retired_def)
  from retired_powerless[OF retired_steps[OF later this]] show ?thesis by simp
qed

lemma lifecycle_lease_is_single_use_example:
  "fst (finish_job 1 (lifecycle_job demo_running_job) Succeeded JNull 0 demo_running) = Inr True \<and>
   fst (finish_job 2 (lifecycle_job demo_running_job) Failed JNull 0 (snd (finish_job 1 (lifecycle_job demo_running_job) Succeeded JNull 0 demo_running))) \<noteq> Inr True"
proof -
  let ?db = "snd (finish_job 1 (lifecycle_job demo_running_job) Succeeded JNull 0 demo_running)"
  have "finish_job 1 (lifecycle_job demo_running_job) Succeeded JNull 0 (jl_db demo_claimed) = (Inr True, ?db)" by (simp add: demo_finish)
  from lifecycle_lease_is_single_use[OF demo_run(1,3) _ this rtranclp.rtrancl_refl, of 2 0 Failed JNull 0] show ?thesis by (simp add: demo_finish)
qed

text \<open>
  C26. New business activity of a session moves its activity epoch past the stored one, takes the session
  out of the inactivity archive and out of cold storage, and leaves no open job of it bound to an older
  epoch; the jobs of other sessions and of the new epoch stay as they were.
\<close>

theorem business_activity_overtakes_jobs:
  assumes "ledger_empty s" "job_step\<^sup>*\<^sup>* s t" "business_activity old new"
    and r: "resume_session_lifecycle now hosts operation subject old new (jl_db t) = Some (sess, db')"
  shows "ls_activity_epoch old < ls_activity_epoch sess \<and> ls_activity_epoch new \<le> ls_activity_epoch sess
    \<and> (ls_archive_reason old = Some ''inactivity'' \<longrightarrow> ls_archived_at sess = None \<and> ls_archive_reason sess = None)
    \<and> (ls_content_state old \<in> {Cold, Cooling} \<longrightarrow> ls_content_state sess = Mixed \<and> ls_cooling_operation_id sess = None)
    \<and> (\<forall>j \<in> set (ld_jobs db'). jr_session_id j = ls_session_id old \<and> open_job j \<longrightarrow> ls_activity_epoch sess \<le> jr_activity_epoch j)
    \<and> (\<forall>j \<in> set (ld_jobs (jl_db t)). jr_session_id j \<noteq> ls_session_id old \<or> ls_activity_epoch sess \<le> jr_activity_epoch j \<longrightarrow> j \<in> set (ld_jobs db'))"
proof -
  have ok: "jobs_ok (jl_db t)" using reachable_ok[OF assms(1,2)] by simp
  let ?p = "overtaken_job (ls_session_id old) (ls_activity_epoch sess)"
  obtain db1 n1 where u: "update_jobs now ?p (cancel_job now) (jl_db t) = Some db1" and c: "db' = db1 \<or> record_resume now hosts operation subject sess db1 = Some db'"
    and n1: "sess = restore_session old (advance_epoch old n1)" "ls_activity_epoch new \<le> ls_activity_epoch n1"
    using resume_parts[OF r assms(3)] by blast
  have a: "jobs_after ?p (cancel_job now) (jl_db t) db1" by (rule cancel_update.update_jobs_ok[OF ok u])
  obtain js where js: "ld_jobs db' = ld_jobs db1 @ js" "list_all (\<lambda>j. jr_state j = Succeeded) js"
    using c record_resume_members by (metis append_Nil2 list.pred_inject(1))
  have "\<not> ?p j" if j: "j \<in> set (ld_jobs db')" for j
  proof (cases "j \<in> set (ld_jobs db1)")
    case True
    obtain i where "j = (if ?p i then cancel_job now i else i)" using jobs_after_member[OF a True] by blast
    moreover have "\<not> ?p (cancel_job now i)" by (simp add: overtaken_job_def open_job_def cancel_job_def)
    ultimately show ?thesis by simp
  next
    case False
    then show ?thesis using js j by (auto simp: list_all_iff overtaken_job_def open_job_def)
  qed
  then have 1: "ls_activity_epoch sess \<le> jr_activity_epoch j" if "j \<in> set (ld_jobs db')" "jr_session_id j = ls_session_id old" "open_job j" for j
    using that by (force simp: overtaken_job_def)
  have "ld_jobs db1 = map (\<lambda>j. if ?p j then cancel_job now j else j) (ld_jobs (jl_db t))" using a unfolding jobs_after_def by (elim conjE)
  then have 2: "j \<in> set (ld_jobs db')" if "j \<in> set (ld_jobs (jl_db t))" "jr_session_id j \<noteq> ls_session_id old \<or> ls_activity_epoch sess \<le> jr_activity_epoch j" for j
    using that js(1) by (force simp: overtaken_job_def)
  from 1 2 restore_effect[OF n1] show ?thesis by (intro conjI ballI impI) (blast | simp)+
qed

definition demo_session :: lifecycle_session where
  "demo_session = \<lparr>ls_id = 1, ls_session_id = ''s'', ls_user_id = Some 1, ls_daemon_id = Some ''d'', ls_parent_session_id = None,
     ls_root_session_id = None, ls_control_mode = None, ls_status = Some ''idle'', ls_title = None, ls_source = None, ls_archive_reason = None,
     ls_archived_at = None, ls_content_state = Cooling, ls_cooling_operation_id = Some ''o'', ls_organization_revision = 0, ls_activity_epoch = 0,
     ls_activity_verified = True, ls_last_business_activity_at = None, ls_last_activity_at = Some 0, ls_turn_started_at = None, ls_created_at = Some 0\<rparr>"

lemma demo_resume:
  "resume_session_lifecycle 5 [] ''r'' ''n'' demo_session (demo_session\<lparr>ls_last_business_activity_at := Some 4\<rparr>) demo_running =
     Some (demo_session\<lparr>ls_last_business_activity_at := Some 4, ls_activity_epoch := 1, ls_content_state := Mixed, ls_cooling_operation_id := None\<rparr>,
       demo_running\<lparr>ld_jobs := [cancel_job 5 demo_running_job],
         ld_attempts := [closed_attempt 5 (cancel_job 5 demo_running_job) Attempt_Cancelled (opened_attempt 0 demo_running_job ''t'' ''w'')]\<rparr>)"
  by (simp add: resume_session_lifecycle_def fences_changed_def business_activity_def restore_session_def advance_epoch_def restored_def
      update_jobs_def overtaken_job_def open_job_def cancel_job_def journal_session_lifecycle_attempt_def journal_close_def closes_attempt_def
      closed_attempt_def journal_open_def journal_cancel_def superseded_result_def record_resume_def demo_session_def demo_defs)

theorem business_activity_overtakes_jobs_witness:
  "ls_activity_epoch (fst (the (resume_session_lifecycle 5 [] ''r'' ''n'' demo_session (demo_session\<lparr>ls_last_business_activity_at := Some 4\<rparr>) demo_running))) > 0"
proof -
  have b: "business_activity demo_session (demo_session\<lparr>ls_last_business_activity_at := Some 4\<rparr>)" by (simp add: business_activity_def demo_session_def)
  have e: "resume_session_lifecycle 5 [] ''r'' ''n'' demo_session (demo_session\<lparr>ls_last_business_activity_at := Some 4\<rparr>) (jl_db demo_claimed)
      = Some (fst (the (resume_session_lifecycle 5 [] ''r'' ''n'' demo_session (demo_session\<lparr>ls_last_business_activity_at := Some 4\<rparr>) demo_running)),
          snd (the (resume_session_lifecycle 5 [] ''r'' ''n'' demo_session (demo_session\<lparr>ls_last_business_activity_at := Some 4\<rparr>) demo_running)))"
    by (simp add: demo_resume)
  have "ls_activity_epoch demo_session = 0" by (simp add: demo_session_def)
  then show ?thesis using business_activity_overtakes_jobs[OF demo_run(1,3) b e] by linarith
qed

end
