(* ===== verification/Lifecycle_Schedule.thy ===== *)
theory Lifecycle_Schedule
  imports Lifecycle_Resume
begin

text \<open>
  Configuration and scheduling of the session lifecycle: \<open>relay/src/session-lifecycle/config.ts\<close>, the
  release record of \<open>release.ts\<close>, the daily runs of \<open>schedule.ts\<close> and the scan cursor of
  \<open>scan-progress.ts\<close>. A JavaScript date is a number of milliseconds, a database time one of
  microseconds; both clocks are arguments.
\<close>

section \<open>Configuration\<close>

type_synonym environment = "string \<Rightarrow> string option"

definition POLICY_VERSION :: string where "POLICY_VERSION = ''session-lifecycle-v2''"

text \<open>\<open>env[key]?.trim() || fallback\<close> and \<open>env[key] || null\<close>.\<close>

definition trimmed_or :: "environment \<Rightarrow> string \<Rightarrow> string \<Rightarrow> string" where
  "trimmed_or env key d = (case env key of None \<Rightarrow> d | Some s \<Rightarrow> if js_trim s = [] then d else js_trim s)"

definition text_or_null :: "environment \<Rightarrow> string \<Rightarrow> string option" where
  "text_or_null env key = (if env key = Some [] then None else env key)"

definition integer_env :: "environment \<Rightarrow> string \<Rightarrow> int \<Rightarrow> int \<Rightarrow> int option" where
  "integer_env env key fallback maximum =
     (case env key of
        None \<Rightarrow> Some fallback
      | Some raw \<Rightarrow>
          if raw = [] \<or> \<not> list_all is_digit raw \<or> hd raw = CHR ''0'' then None
          else (let v = int (decimal_value raw) in if \<not> is_safe_integer v \<or> maximum < v then None else Some v))"

definition time_env :: "environment \<Rightarrow> string \<Rightarrow> string option option" where
  "time_env env key =
     (case env key of
        None \<Rightarrow> Some None
      | Some raw \<Rightarrow> if raw = [] then Some None else map_option (\<lambda>_. Some raw) (timestampMicros raw))"

definition either_text :: "string option \<Rightarrow> string option \<Rightarrow> string option" where
  "either_text a b = (case a of None \<Rightarrow> b | Some x \<Rightarrow> Some x)"

definition deadline_precedes :: "string option \<Rightarrow> string option \<Rightarrow> bool option" where
  "deadline_precedes eff dead = (if absent eff \<or> absent dead then Some False else compare_dates (<) dead eff)"

definition lifecycle_mode :: "string \<Rightarrow> LifecycleMode option" where
  "lifecycle_mode m =
     (if m = ''off'' then Some ModeOff else if m = ''observe'' then Some ModeObserve else if m = ''enforce'' then Some ModeEnforce else None)"

definition lifecycle_driver :: "string \<Rightarrow> bool option" where
  "lifecycle_driver d = (if d = ''s3'' then Some False else if d = ''filesystem'' then Some True else None)"

text \<open>The release record, from the parsed contents of its file.\<close>

definition release_field :: "json \<Rightarrow> string \<Rightarrow> json option" where
  "release_field d key = (case d of JObj kvs \<Rightarrow> map_of kvs key | _ \<Rightarrow> None)"

definition no_text :: "json option \<Rightarrow> bool" where
  "no_text v \<longleftrightarrow> v = None \<or> v = Some JNull \<or> v = Some (JStr [])"

definition release_text :: "json \<Rightarrow> string \<Rightarrow> string option option" where
  "release_text d key =
     (let v = release_field d key in
      if no_text v then Some None
      else (case v of
              Some (JStr s) \<Rightarrow> if 2048 < length s \<or> js_trim s = [] then None else Some (Some (js_trim s))
            | _ \<Rightarrow> None))"

definition release_date :: "json \<Rightarrow> string \<Rightarrow> string option option" where
  "release_date d key = Option.bind (release_text d key)
     (\<lambda>t. case t of None \<Rightarrow> Some None | Some s \<Rightarrow> map_option (\<lambda>_. Some s) (timestampMicros s))"

fun release_evidence :: "json \<Rightarrow> string list \<Rightarrow> (string \<times> string) list option" where
  "release_evidence e [] = Some []"
| "release_evidence e (g # gs) =
     (let v = release_field e g in
      if no_text v then release_evidence e gs
      else (case v of
              Some (JStr s) \<Rightarrow>
                if 2048 < length s then None
                else map_option (\<lambda>r. if js_trim s = [] then r else (g, js_trim s) # r) (release_evidence e gs)
            | _ \<Rightarrow> None))"

definition release_evidence_of :: "json \<Rightarrow> (string \<times> string) list option" where
  "release_evidence_of d =
     (case release_field d ''evidence'' of
        None \<Rightarrow> release_evidence JNull lifecycleReleaseGates
      | Some (JObj kvs) \<Rightarrow> release_evidence (JObj kvs) lifecycleReleaseGates
      | Some _ \<Rightarrow> None)"

definition parse_release :: "json \<Rightarrow> SessionLifecycleRelease option" where
  "parse_release d =
     (if release_field d ''schemaVersion'' \<noteq> Some (JNum 1) then None
      else Option.bind (release_text d ''policyVersion'') (\<lambda>pv.
           Option.bind (release_text d ''storageNamespace'') (\<lambda>ns.
           Option.bind (release_date d ''publishedAt'') (\<lambda>pub.
           Option.bind (release_date d ''effectiveAt'') (\<lambda>eff.
           Option.bind (release_date d ''transitionDeadline'') (\<lambda>dead.
           map_option (\<lambda>ev. \<lparr>rel_policyVersion = pv, rel_publishedAt = pub, rel_effectiveAt = eff,
             rel_transitionDeadline = dead, rel_storageNamespace = ns, rel_evidence = ev\<rparr>) (release_evidence_of d)))))))"

text \<open>\<open>contents\<close> reads a regular, small, protected file and parses it.\<close>

definition loadSessionLifecycleRelease :: "(string \<Rightarrow> json option) \<Rightarrow> string option \<Rightarrow> SessionLifecycleRelease option option" where
  "loadSessionLifecycleRelease contents file =
     (case file of
        None \<Rightarrow> Some None
      | Some f \<Rightarrow>
          if f = [] then Some None
          else if \<not> starts_with f ''/'' then None
          else map_option Some (Option.bind (contents f) parse_release))"

definition sessionLifecycleConfig :: "(string \<Rightarrow> json option) \<Rightarrow> environment \<Rightarrow> SessionLifecycleConfig option" where
  "sessionLifecycleConfig contents env =
     Option.bind (lifecycle_mode (trimmed_or env ''SESSION_LIFECYCLE_MODE'' ''enforce'')) (\<lambda>mode.
     Option.bind (lifecycle_driver (trimmed_or env ''SESSION_LIFECYCLE_STORAGE_DRIVER'' ''s3'')) (\<lambda>filesystem.
     let version = (case env ''SESSION_LIFECYCLE_POLICY_VERSION'' of None \<Rightarrow> POLICY_VERSION | Some v \<Rightarrow> v) in
     if version \<noteq> POLICY_VERSION then None
     else Option.bind (integer_env env ''SESSION_LIFECYCLE_ARCHIVE_DAYS'' 30 36500) (\<lambda>archiveDays.
     Option.bind (integer_env env ''SESSION_LIFECYCLE_PURGE_DAYS'' 60 36500) (\<lambda>purgeDays.
     if archiveDays \<noteq> 30 \<or> purgeDays \<noteq> 60 then None
     else Option.bind (loadSessionLifecycleRelease contents (env ''SESSION_LIFECYCLE_RELEASE_FILE'')) (\<lambda>release.
     Option.bind (time_env env ''SESSION_LIFECYCLE_EFFECTIVE_AT'') (\<lambda>eff.
     Option.bind (time_env env ''SESSION_LIFECYCLE_TRANSITION_DEADLINE'') (\<lambda>dead.
     let effectiveAt = either_text eff (Option.bind release rel_effectiveAt);
         transitionDeadline = either_text dead (Option.bind release rel_transitionDeadline)
     in Option.bind (deadline_precedes effectiveAt transitionDeadline) (\<lambda>early.
     if early then None
     else Option.bind (integer_env env ''SESSION_LIFECYCLE_SCAN_INTERVAL_MS'' 3600000 86400000) (\<lambda>scanInterval.
     Option.bind (integer_env env ''SESSION_LIFECYCLE_CONTINUATION_DELAY_MS'' 5000 86400000) (\<lambda>continuation.
     Option.bind (integer_env env ''SESSION_LIFECYCLE_BATCH_SESSIONS'' 20 1000) (\<lambda>sessions.
     Option.bind (integer_env env ''SESSION_LIFECYCLE_BATCH_BYTES'' 67108864 1073741824) (\<lambda>bytes.
     Option.bind (integer_env env ''SESSION_LIFECYCLE_RUN_BUDGET_MS'' 60000 600000) (\<lambda>budget.
     Option.bind (integer_env env ''SESSION_LIFECYCLE_TRANSFER_CONCURRENCY'' 1 16) (\<lambda>transfer.
     Option.bind (integer_env env ''SESSION_LIFECYCLE_MAX_CHUNK_BYTES'' 4194304 67108864) (\<lambda>chunk.
     Option.bind (integer_env env ''SESSION_LIFECYCLE_MAX_COMPRESSED_BYTES'' 8388608 134217728) (\<lambda>compressed.
     Option.bind (integer_env env ''SESSION_LIFECYCLE_FILESYSTEM_MIN_FREE_BYTES'' 268435456 MAX_SAFE_INTEGER) (\<lambda>free.
     Some \<lparr>lc_mode = mode, lc_policyVersion = version, lc_archiveDays = archiveDays, lc_purgeDays = purgeDays,
       lc_effectiveAt = effectiveAt, lc_transitionDeadline = transitionDeadline, lc_notificationRetentionDays = 90,
       lc_scanIntervalMs = scanInterval, lc_continuationDelayMs = continuation, lc_batchSessions = sessions,
       lc_batchBytes = bytes, lc_runBudgetMs = budget, lc_transferConcurrency = transfer, lc_maxChunkBytes = chunk,
       lc_maxCompressedBytes = compressed, lc_objectBucket = text_or_null env ''SESSION_LIFECYCLE_OBJECT_BUCKET'',
       lc_objectRegion = text_or_null env ''SESSION_LIFECYCLE_OBJECT_REGION'', lc_storageFilesystem = filesystem,
       lc_archiveDirectory = text_or_null env ''SESSION_LIFECYCLE_OBJECT_DIRECTORY'', lc_filesystemMinFreeBytes = free,
       lc_release = release\<rparr>)))))))))))))))))"

section \<open>Daily runs\<close>

definition DAY_MS :: int where "DAY_MS = 86400000"

definition SHANGHAI_OFFSET :: int where "SHANGHAI_OFFSET = 28800000"

definition maintenanceHour :: "run_action \<Rightarrow> int" where
  "maintenanceHour action = 3"

text \<open>\<open>Date.UTC\<close>, which reads a year of two digits as one of the twentieth century.\<close>

definition date_UTC :: "int \<Rightarrow> nat \<Rightarrow> nat \<Rightarrow> int \<Rightarrow> int" where
  "date_UTC y m d h = day_number (if 0 \<le> y \<and> y \<le> 99 then 1900 + y else y) m d * DAY_MS + h * 3600000"

definition maintenanceSlot :: "run_action \<Rightarrow> int \<Rightarrow> int" where
  "maintenanceSlot action now =
     (let (y, m, d) = civil ((now + SHANGHAI_OFFSET) div DAY_MS);
          slot = date_UTC y m d (maintenanceHour action) - SHANGHAI_OFFSET
      in if now < slot then slot - DAY_MS else slot)"

definition nextMaintenanceAt :: "run_action \<Rightarrow> int \<Rightarrow> int" where
  "nextMaintenanceAt action now = maintenanceSlot action now + DAY_MS"

record daily_run_row =
  dr_policy_version :: string
  dr_action :: run_action
  dr_scheduled_at :: int
  dr_after_row_id :: int
  dr_scan_complete :: bool
  dr_completed_at :: "int option"
  dr_lease_token :: "string option"
  dr_lease_until :: "int option"
  dr_updated_at :: int
  dr_started_at :: "int option"

record MaintenanceRun =
  mr_policyVersion :: string
  mr_action :: run_action
  mr_scheduledAt :: int
  mr_token :: string
  mr_afterRowId :: int
  mr_scanComplete :: bool

definition run_key :: "daily_run_row \<Rightarrow> string \<times> run_action \<times> int" where
  "run_key r = (dr_policy_version r, dr_action r, dr_scheduled_at r)"

text \<open>\<open>config.effectiveAt && slot < new Date(config.effectiveAt)\<close>: an unreadable date compares false.\<close>

definition before_effective :: "SessionLifecycleConfig \<Rightarrow> int \<Rightarrow> bool" where
  "before_effective cfg slot \<longleftrightarrow>
     \<not> absent (lc_effectiveAt cfg) \<and>
     (case timestampMicros (the (lc_effectiveAt cfg)) of None \<Rightarrow> False | Some t \<Rightarrow> slot < t div 1000)"

definition budget_limited :: "string \<Rightarrow> int \<Rightarrow> lifecycle_job_row \<Rightarrow> bool" where
  "budget_limited pv completed j \<longleftrightarrow>
     jr_policy_version j = pv \<and> jr_action j \<in> {Archive, Cool} \<and> jr_state j = Partial \<and>
     Option.bind (jr_result j) (\<lambda>r. release_field r ''reason'') = Some (JStr ''transfer_budget_reached'') \<and> jr_created_at j \<le> completed"

definition reopens :: "string \<Rightarrow> run_action \<Rightarrow> lifecycle_job_row list \<Rightarrow> daily_run_row \<Rightarrow> bool" where
  "reopens pv action jobs r \<longleftrightarrow> action = Run_Archive \<and>
     (case dr_completed_at r of None \<Rightarrow> False | Some c \<Rightarrow> \<exists>j \<in> set jobs. budget_limited pv c j)"

definition new_run :: "int \<Rightarrow> string \<Rightarrow> run_action \<Rightarrow> int \<Rightarrow> daily_run_row" where
  "new_run now pv action slot =
     \<lparr>dr_policy_version = pv, dr_action = action, dr_scheduled_at = slot, dr_after_row_id = 0, dr_scan_complete = False,
      dr_completed_at = None, dr_lease_token = None, dr_lease_until = None, dr_updated_at = now, dr_started_at = None\<rparr>"

definition ensure_run :: "int \<Rightarrow> string \<Rightarrow> run_action \<Rightarrow> int \<Rightarrow> lifecycle_job_row list \<Rightarrow> daily_run_row list \<Rightarrow> daily_run_row list" where
  "ensure_run now pv action slot jobs rs =
     (if (pv, action, slot) \<in> run_key ` set rs
      then map (\<lambda>r. if run_key r = (pv, action, slot) \<and> reopens pv action jobs r
                    then r\<lparr>dr_completed_at := None, dr_updated_at := now\<rparr> else r) rs
      else rs @ [new_run now pv action slot])"

text \<open>\<open>jsnow\<close> is the process clock in milliseconds, \<open>now\<close> the database clock.\<close>

definition ensure_runs :: "int \<Rightarrow> int \<Rightarrow> SessionLifecycleConfig \<Rightarrow> lifecycle_job_row list \<Rightarrow> daily_run_row list \<Rightarrow> daily_run_row list" where
  "ensure_runs jsnow now cfg jobs =
     fold (\<lambda>action rs. let slot = maintenanceSlot action jsnow in
             if before_effective cfg slot then rs else ensure_run now (lc_policyVersion cfg) action (ms slot) jobs rs)
       [Run_Archive, Run_Purge]"

definition run_free :: "int \<Rightarrow> daily_run_row \<Rightarrow> bool" where
  "run_free now r \<longleftrightarrow> (case dr_lease_until r of None \<Rightarrow> True | Some t \<Rightarrow> t \<le> now)"

definition run_candidate :: "(daily_run_row \<Rightarrow> bool) \<Rightarrow> string \<Rightarrow> int \<Rightarrow> int \<Rightarrow> daily_run_row \<Rightarrow> bool" where
  "run_candidate locked pv jsnow now r \<longleftrightarrow>
     dr_policy_version r = pv \<and> dr_completed_at r = None \<and> dr_scheduled_at r \<le> ms jsnow \<and> run_free now r \<and> \<not> locked r"

definition run_order :: "daily_run_row \<Rightarrow> int \<times> int" where
  "run_order r = (dr_scheduled_at r, if dr_action r = Run_Archive then 0 else 1)"

definition start_run_lease :: "int \<Rightarrow> string \<Rightarrow> int \<Rightarrow> daily_run_row \<Rightarrow> daily_run_row" where
  "start_run_lease now token leaseMs r =
     r\<lparr>dr_started_at := (case dr_started_at r of None \<Rightarrow> Some now | Some t \<Rightarrow> Some t), dr_lease_token := Some token,
       dr_lease_until := Some (now + ms leaseMs), dr_updated_at := now\<rparr>"

definition maintenance_run :: "string \<Rightarrow> daily_run_row \<Rightarrow> MaintenanceRun" where
  "maintenance_run token r =
     \<lparr>mr_policyVersion = dr_policy_version r, mr_action = dr_action r, mr_scheduledAt = dr_scheduled_at r, mr_token = token,
      mr_afterRowId = dr_after_row_id r, mr_scanComplete = dr_scan_complete r\<rparr>"

definition claim_run :: "(daily_run_row \<Rightarrow> bool) \<Rightarrow> int \<Rightarrow> int \<Rightarrow> string \<Rightarrow> SessionLifecycleConfig \<Rightarrow> lifecycle_job_row list \<Rightarrow> daily_run_row list
    \<Rightarrow> MaintenanceRun option \<times> daily_run_row list" where
  "claim_run locked jsnow now token cfg jobs rs0 =
     (let rs = ensure_runs jsnow now cfg jobs rs0 in
      case sort_key run_order (filter (run_candidate locked (lc_policyVersion cfg) jsnow now) rs) of
        [] \<Rightarrow> (None, rs)
      | c # _ \<Rightarrow> (Some (maintenance_run token c),
                  map (\<lambda>r. if run_key r = run_key c then start_run_lease now token (lc_runBudgetMs cfg + 120000) r else r) rs))"

definition run_held :: "int \<Rightarrow> MaintenanceRun \<Rightarrow> daily_run_row \<Rightarrow> bool" where
  "run_held now run r \<longleftrightarrow>
     run_key r = (mr_policyVersion run, mr_action run, mr_scheduledAt run) \<and> dr_lease_token r = Some (mr_token run) \<and>
     (case dr_lease_until r of None \<Rightarrow> False | Some t \<Rightarrow> now < t)"

definition finish_run :: "int \<Rightarrow> MaintenanceRun \<Rightarrow> int \<Rightarrow> bool \<Rightarrow> bool \<Rightarrow> daily_run_row list \<Rightarrow> bool \<times> daily_run_row list" where
  "finish_run now run afterRowId scanComplete completed rs =
     (\<exists>r \<in> set rs. run_held now run r,
      map (\<lambda>r. if run_held now run r
               then r\<lparr>dr_after_row_id := afterRowId, dr_scan_complete := scanComplete,
                      dr_completed_at := (if completed then Some now else None), dr_lease_token := None,
                      dr_lease_until := None, dr_updated_at := now\<rparr> else r) rs)"

section \<open>Scan progress\<close>

record scan_state_row =
  sc_policy_version :: string
  sc_after_row_id :: int
  sc_next_scan_at :: int
  sc_lease_token :: "string option"
  sc_lease_until :: "int option"
  sc_updated_at :: int

record ScanLease =
  sl_policyVersion :: string
  sl_token :: string
  sl_afterRowId :: int

definition scan_claimable :: "int \<Rightarrow> bool \<Rightarrow> scan_state_row \<Rightarrow> bool" where
  "scan_claimable now force r \<longleftrightarrow>
     (case sc_lease_until r of None \<Rightarrow> True | Some t \<Rightarrow> t \<le> now) \<and> (force \<or> sc_next_scan_at r \<le> now)"

definition claim_scan :: "int \<Rightarrow> string \<Rightarrow> string \<Rightarrow> int \<Rightarrow> bool \<Rightarrow> scan_state_row list \<Rightarrow> ScanLease option \<times> scan_state_row list" where
  "claim_scan now token pv leaseMs force rs =
     (case find (\<lambda>r. sc_policy_version r = pv) rs of
        None \<Rightarrow>
          (Some \<lparr>sl_policyVersion = pv, sl_token = token, sl_afterRowId = 0\<rparr>,
           rs @ [\<lparr>sc_policy_version = pv, sc_after_row_id = 0, sc_next_scan_at = now, sc_lease_token = Some token,
                  sc_lease_until = Some (now + ms leaseMs), sc_updated_at = now\<rparr>])
      | Some r \<Rightarrow>
          if scan_claimable now force r
          then (Some \<lparr>sl_policyVersion = pv, sl_token = token, sl_afterRowId = sc_after_row_id r\<rparr>,
                map (\<lambda>x. if sc_policy_version x = pv
                         then x\<lparr>sc_lease_token := Some token, sc_lease_until := Some (now + ms leaseMs), sc_updated_at := now\<rparr> else x) rs)
          else (None, rs))"

definition scan_held :: "int \<Rightarrow> ScanLease \<Rightarrow> scan_state_row \<Rightarrow> bool" where
  "scan_held now lease r \<longleftrightarrow>
     sc_policy_version r = sl_policyVersion lease \<and> sc_lease_token r = Some (sl_token lease) \<and>
     (case sc_lease_until r of None \<Rightarrow> False | Some t \<Rightarrow> now < t)"

definition finish_scan :: "int \<Rightarrow> ScanLease \<Rightarrow> int \<Rightarrow> int \<Rightarrow> scan_state_row list \<Rightarrow> bool \<times> scan_state_row list" where
  "finish_scan now lease afterRowId delayMs rs =
     (\<exists>r \<in> set rs. scan_held now lease r,
      map (\<lambda>r. if scan_held now lease r
               then r\<lparr>sc_after_row_id := afterRowId, sc_next_scan_at := now + ms delayMs, sc_lease_token := None,
                      sc_lease_until := None, sc_updated_at := now\<rparr> else r) rs)"

text \<open>\<open>LEAST\<close> and \<open>min\<close> skip nulls; the delay is in microseconds until it is rounded by the caller.\<close>

definition wake_of_job :: "lifecycle_job_row \<Rightarrow> int option" where
  "wake_of_job j = (if jr_state j = Running then jr_lease_until j else Some (jr_next_attempt_at j))"

definition wakes :: "int \<Rightarrow> string \<Rightarrow> lifecycle_db \<Rightarrow> scan_state_row list \<Rightarrow> int list" where
  "wakes now pv db rs =
     map (\<lambda>r. max (sc_next_scan_at r) (case sc_lease_until r of None \<Rightarrow> now | Some t \<Rightarrow> t)) (filter (\<lambda>r. sc_policy_version r = pv) rs)
     @ List.map_filter wake_of_job (filter (\<lambda>j. jr_policy_version j = pv \<and> open_job j \<and> \<not> journaled_deletion db j) (ld_jobs db))"

definition nextDelay_us :: "int \<Rightarrow> string \<Rightarrow> int \<Rightarrow> int \<Rightarrow> lifecycle_db \<Rightarrow> scan_state_row list \<Rightarrow> int" where
  "nextDelay_us now pv minimumMs sweepMs db rs =
     min (ms sweepMs) (max (ms minimumMs) (case wakes now pv db rs of [] \<Rightarrow> ms sweepMs | w # ws \<Rightarrow> Min (set (w # ws)) - now))"

section \<open>The slot\<close>

lemma maintenance_slot_civil:
  assumes "year_of ((now + SHANGHAI_OFFSET) div DAY_MS + EPOCH_DAYS) \<notin> {0..99}"
  shows "maintenanceSlot action now =
    (let slot = (now + SHANGHAI_OFFSET) div DAY_MS * DAY_MS + 10800000 - SHANGHAI_OFFSET in if now < slot then slot - DAY_MS else slot)"
proof -
  obtain y m d where c: "civil ((now + SHANGHAI_OFFSET) div DAY_MS) = (y, m, d)" by (cases "civil ((now + SHANGHAI_OFFSET) div DAY_MS)")
  have "\<not> (0 \<le> y \<and> y \<le> 99)" using civil_day_number(3)[OF c] assms by simp
  then have "date_UTC y m d (maintenanceHour action) = (now + SHANGHAI_OFFSET) div DAY_MS * DAY_MS + 10800000"
    using civil_day_number(1)[OF c] by (simp only: date_UTC_def maintenanceHour_def if_False)
  then show ?thesis by (simp add: maintenanceSlot_def c Let_def)
qed

lemma day_floor:
  fixes now k h slot :: int
  assumes "0 < k" "0 \<le> h" "h < k" "slot = (now + off) div k * k + h - off"
  shows "slot - k \<le> now" "now < slot + k" "(slot + off) mod k = h" "(slot - k + off) mod k = h"
proof -
  have "now + off = (now + off) div k * k + (now + off) mod k" by simp
  moreover have "0 \<le> (now + off) mod k" "(now + off) mod k < k" using assms(1) by simp_all
  ultimately show "slot - k \<le> now" "now < slot + k" using assms(2-4) by linarith+
  have "slot + off = h + (now + off) div k * k" "slot - k + off = h + ((now + off) div k - 1) * k" using assms(4) by (simp_all add: algebra_simps)
  then show "(slot + off) mod k = h" "(slot - k + off) mod k = h" using assms(2,3) by (simp_all only: mod_mult_self1 mod_pos_pos_trivial)
qed

lemma maintenance_slot_is_latest:
  assumes "year_of ((now + SHANGHAI_OFFSET) div DAY_MS + EPOCH_DAYS) \<notin> {0..99}"
  shows "maintenanceSlot action now \<le> now \<and> now < nextMaintenanceAt action now
    \<and> (maintenanceSlot action now + SHANGHAI_OFFSET) mod DAY_MS = 10800000"
proof -
  have k: "0 < DAY_MS" "(0::int) \<le> 10800000" "10800000 < DAY_MS" by (simp_all add: DAY_MS_def)
  define slot where "slot = (now + SHANGHAI_OFFSET) div DAY_MS * DAY_MS + 10800000 - SHANGHAI_OFFSET"
  note f = day_floor[OF k slot_def]
  show ?thesis using f k unfolding nextMaintenanceAt_def maintenance_slot_civil[OF assms] slot_def[symmetric] Let_def by auto
qed

section \<open>Exclusive runs\<close>

lemma run_key_updates [simp]:
  "run_key (r\<lparr>dr_completed_at := a, dr_updated_at := b\<rparr>) = run_key r" "run_key (start_run_lease now token v r) = run_key r"
  "run_key (r\<lparr>dr_after_row_id := c, dr_scan_complete := d, dr_completed_at := a, dr_lease_token := e, dr_lease_until := g, dr_updated_at := b\<rparr>) = run_key r"
  by (simp_all add: run_key_def start_run_lease_def)

definition same_lease :: "daily_run_row \<Rightarrow> daily_run_row \<Rightarrow> bool" where
  "same_lease r r' \<longleftrightarrow> run_key r' = run_key r \<and> dr_lease_token r' = dr_lease_token r \<and> dr_lease_until r' = dr_lease_until r"

lemma ensure_run_rows:
  assumes "distinct (map run_key rs)"
  shows "distinct (map run_key (ensure_run now pv action slot jobs rs))"
    and "r \<in> set rs \<Longrightarrow> \<exists>r' \<in> set (ensure_run now pv action slot jobs rs). same_lease r r'"
proof -
  have m: "map run_key (map (\<lambda>r. if P r then r\<lparr>dr_completed_at := None, dr_updated_at := now\<rparr> else r) rs) = map run_key rs" for P
    by simp
  show "distinct (map run_key (ensure_run now pv action slot jobs rs))"
    using assms m by (auto simp: ensure_run_def new_run_def run_key_def simp del: map_map)
  show "\<exists>r' \<in> set (ensure_run now pv action slot jobs rs). same_lease r r'" if "r \<in> set rs"
  proof (cases "(pv, action, slot) \<in> run_key ` set rs")
    case True
    let ?g = "\<lambda>r. if run_key r = (pv, action, slot) \<and> reopens pv action jobs r then r\<lparr>dr_completed_at := None, dr_updated_at := now\<rparr> else r"
    have "?g r \<in> set (ensure_run now pv action slot jobs rs)" using True that unfolding ensure_run_def by auto
    moreover have "same_lease r (?g r)" by (simp add: same_lease_def)
    ultimately show ?thesis by blast
  next
    case False
    then show ?thesis using that by (auto simp: ensure_run_def same_lease_def)
  qed
qed

lemma ensure_runs_rows:
  assumes "distinct (map run_key rs)"
  shows "distinct (map run_key (ensure_runs jsnow now cfg jobs rs))"
    and "r \<in> set rs \<Longrightarrow> \<exists>r' \<in> set (ensure_runs jsnow now cfg jobs rs). same_lease r r'"
proof -
  let ?f = "\<lambda>action rs. let slot = maintenanceSlot action jsnow in
             if before_effective cfg slot then rs else ensure_run now (lc_policyVersion cfg) action (ms slot) jobs rs"
  have one: "distinct (map run_key xs) \<Longrightarrow> distinct (map run_key (?f a xs)) \<and> (\<forall>r \<in> set xs. \<exists>r' \<in> set (?f a xs). same_lease r r')" for a xs
    using ensure_run_rows[of xs] by (auto simp: Let_def same_lease_def)
  have "ensure_runs jsnow now cfg jobs rs = ?f Run_Purge (?f Run_Archive rs)" by (simp add: ensure_runs_def)
  with one[OF assms, of Run_Archive] one[of "?f Run_Archive rs" Run_Purge]
  show "distinct (map run_key (ensure_runs jsnow now cfg jobs rs))"
    "r \<in> set rs \<Longrightarrow> \<exists>r' \<in> set (ensure_runs jsnow now cfg jobs rs). same_lease r r'"
    by (simp, auto simp: same_lease_def) metis
qed

lemma claim_run_cases:
  assumes "claim_run locked jsnow now token cfg jobs rs0 = (Some run, rs')"
  obtains c where "c \<in> set (ensure_runs jsnow now cfg jobs rs0)" "run_candidate locked (lc_policyVersion cfg) jsnow now c" "run = maintenance_run token c"
    "rs' = map (\<lambda>r. if run_key r = run_key c then start_run_lease now token (lc_runBudgetMs cfg + 120000) r else r) (ensure_runs jsnow now cfg jobs rs0)"
    "\<And>d. d \<in> set (ensure_runs jsnow now cfg jobs rs0) \<Longrightarrow> run_candidate locked (lc_policyVersion cfg) jsnow now d \<Longrightarrow> run_order c \<le> run_order d"
proof -
  let ?rs = "ensure_runs jsnow now cfg jobs rs0" and ?P = "run_candidate locked (lc_policyVersion cfg) jsnow now"
  let ?xs = "sort_key run_order (filter ?P ?rs)"
  obtain c cs where xs: "?xs = c # cs" using assms by (cases ?xs) (auto simp: claim_run_def Let_def)
  have "c \<in> set ?xs" unfolding xs by simp
  then have c: "c \<in> set ?rs" "?P c" by simp_all
  have sorted: "sorted (map run_order ?xs)" by (rule sorted_sort_key)
  have "run_order c \<le> run_order d" if "d \<in> set ?rs" "?P d" for d
  proof -
    have "d \<in> set ?xs" using that by simp
    then show ?thesis using sorted unfolding xs by auto
  qed
  then show thesis using that[OF c] assms unfolding claim_run_def Let_def xs by simp
qed

text \<open>The row a claim has leased: it stays leased to the token until the lease ends or is given back.\<close>

definition leased_until :: "MaintenanceRun \<Rightarrow> int \<Rightarrow> daily_run_row list \<Rightarrow> bool" where
  "leased_until run t rs \<longleftrightarrow>
     distinct (map run_key rs) \<and>
     (\<exists>r \<in> set rs. run_key r = (mr_policyVersion run, mr_action run, mr_scheduledAt run) \<and>
        dr_lease_token r = Some (mr_token run) \<and> dr_lease_until r = Some t)"

lemma run_unique: "distinct (map run_key rs) \<Longrightarrow> r \<in> set rs \<Longrightarrow> r' \<in> set rs \<Longrightarrow> run_key r = run_key r' \<Longrightarrow> r = r'"
  by (auto simp: distinct_map dest: inj_onD)

lemma claim_leases:
  assumes "distinct (map run_key rs0)" "claim_run locked jsnow now token cfg jobs rs0 = (Some run, rs')"
  shows "leased_until run (now + ms (lc_runBudgetMs cfg + 120000)) rs'" "mr_token run = token"
proof -
  obtain c where 1: "c \<in> set (ensure_runs jsnow now cfg jobs rs0)" "run_candidate locked (lc_policyVersion cfg) jsnow now c" "run = maintenance_run token c"
    "rs' = map (\<lambda>r. if run_key r = run_key c then start_run_lease now token (lc_runBudgetMs cfg + 120000) r else r) (ensure_runs jsnow now cfg jobs rs0)"
    by (rule claim_run_cases[OF assms(2)])
  note d = ensure_runs_rows(1)[OF assms(1), of jsnow now cfg jobs]
  have "map run_key rs' = map run_key (ensure_runs jsnow now cfg jobs rs0)" unfolding 1(4) by simp
  moreover have "start_run_lease now token (lc_runBudgetMs cfg + 120000) c \<in> set rs'" unfolding 1(4) using 1(1) by auto
  ultimately show "leased_until run (now + ms (lc_runBudgetMs cfg + 120000)) rs'"
    unfolding leased_until_def using d 1(3)
    by (intro conjI bexI[of _ "start_run_lease now token (lc_runBudgetMs cfg + 120000) c"]) (simp_all add: maintenance_run_def run_key_def start_run_lease_def)
  show "mr_token run = token" by (simp add: 1(3) maintenance_run_def)
qed

lemma leased_not_claimed:
  assumes l: "leased_until run t rs" and c: "claim_run locked jsnow now token cfg jobs rs = (Some run', rs')" and "now < t"
  shows "(mr_policyVersion run', mr_action run', mr_scheduledAt run') \<noteq> (mr_policyVersion run, mr_action run, mr_scheduledAt run)"
    and "leased_until run t rs'"
proof -
  obtain x where 1: "x \<in> set (ensure_runs jsnow now cfg jobs rs)" "run_candidate locked (lc_policyVersion cfg) jsnow now x" "run' = maintenance_run token x"
    "rs' = map (\<lambda>r. if run_key r = run_key x then start_run_lease now token (lc_runBudgetMs cfg + 120000) r else r) (ensure_runs jsnow now cfg jobs rs)"
    by (rule claim_run_cases[OF c])
  have d: "distinct (map run_key rs)" using l by (simp add: leased_until_def)
  note d' = ensure_runs_rows(1)[OF d, of jsnow now cfg jobs]
  obtain r where r: "r \<in> set (ensure_runs jsnow now cfg jobs rs)" "run_key r = (mr_policyVersion run, mr_action run, mr_scheduledAt run)"
    "dr_lease_token r = Some (mr_token run)" "dr_lease_until r = Some t"
    using l ensure_runs_rows(2)[OF d, of _ jsnow now cfg jobs] unfolding leased_until_def same_lease_def by metis
  have "x \<noteq> r" using 1(2) r(4) assms(3) by (auto simp: run_candidate_def run_free_def)
  then have k: "run_key r \<noteq> run_key x" using run_unique[OF d' 1(1) r(1)] by metis
  have "run_key x = (mr_policyVersion run', mr_action run', mr_scheduledAt run')" by (simp add: 1(3) maintenance_run_def run_key_def)
  then show "(mr_policyVersion run', mr_action run', mr_scheduledAt run') \<noteq> (mr_policyVersion run, mr_action run, mr_scheduledAt run)"
    using k r(2) by metis
  have "map run_key rs' = map run_key (ensure_runs jsnow now cfg jobs rs)" unfolding 1(4) by simp
  moreover have "r \<in> set rs'" unfolding 1(4) using r(1) k by auto
  ultimately show "leased_until run t rs'" unfolding leased_until_def using d' r by auto
qed

lemma finish_keys: "map run_key (snd (finish_run now run a b c rs)) = map run_key rs"
  by (simp add: finish_run_def)

text \<open>
  A claim of the daily schedule returns the earliest run that is due, open and free, the archive run
  of a day before its purge run. Until its lease ends, no other claim returns the same run and only the
  holder's token can store its cursor or close it.
\<close>

lemma maintenance_run_is_exclusive:
  assumes d: "distinct (map run_key rs)" and c: "claim_run locked jsnow now token cfg jobs rs = (Some run, rs')"
    and live: "now' < now + ms (lc_runBudgetMs cfg + 120000)"
  shows "distinct (map run_key rs') \<and> mr_token run = token
    \<and> (\<exists>r \<in> set (ensure_runs jsnow now cfg jobs rs). run = maintenance_run token r \<and> run_candidate locked (lc_policyVersion cfg) jsnow now r)
    \<and> (\<forall>r \<in> set (ensure_runs jsnow now cfg jobs rs). run_candidate locked (lc_policyVersion cfg) jsnow now r \<longrightarrow>
          (mr_scheduledAt run, if mr_action run = Run_Archive then 0 else 1) \<le> run_order r)
    \<and> (claim_run locked' jsnow' now' token' cfg' jobs' rs' = (Some run', rs'') \<longrightarrow>
         (mr_policyVersion run', mr_action run', mr_scheduledAt run') \<noteq> (mr_policyVersion run, mr_action run, mr_scheduledAt run)
         \<and> fst (finish_run now' run cursor scanned completed rs''))
    \<and> fst (finish_run now' run cursor scanned completed rs')
    \<and> (other \<noteq> token \<longrightarrow> \<not> fst (finish_run now' (run\<lparr>mr_token := other\<rparr>) cursor scanned completed rs'))"
proof -
  let ?t = "now + ms (lc_runBudgetMs cfg + 120000)"
  have l: "leased_until run ?t rs'" and tok: "mr_token run = token" using claim_leases[OF d c] .
  have held: "fst (finish_run now' run cursor scanned completed xs)" if "leased_until run ?t xs" for xs
    using that live by (auto simp: leased_until_def finish_run_def run_held_def)
  obtain x where x: "x \<in> set (ensure_runs jsnow now cfg jobs rs)" "run_candidate locked (lc_policyVersion cfg) jsnow now x" "run = maintenance_run token x"
    "\<And>r. r \<in> set (ensure_runs jsnow now cfg jobs rs) \<Longrightarrow> run_candidate locked (lc_policyVersion cfg) jsnow now r \<Longrightarrow> run_order x \<le> run_order r"
    using claim_run_cases[OF c] by metis
  have "run_order x = (mr_scheduledAt run, if mr_action run = Run_Archive then 0 else 1)" by (simp add: x(3) run_order_def maintenance_run_def)
  then have first: "(mr_scheduledAt run, if mr_action run = Run_Archive then 0 else 1) \<le> run_order r"
    if "r \<in> set (ensure_runs jsnow now cfg jobs rs)" "run_candidate locked (lc_policyVersion cfg) jsnow now r" for r using x(4)[OF that] by simp
  have "\<not> fst (finish_run now' (run\<lparr>mr_token := other\<rparr>) cursor scanned completed rs')" if "other \<noteq> token"
    using l that tok run_unique[of rs'] by (auto simp: leased_until_def finish_run_def run_held_def) (metis option.inject)
  moreover have "distinct (map run_key rs')" using l by (simp add: leased_until_def)
  ultimately show ?thesis using tok held held[OF l] leased_not_claimed[OF l _ live] x(1,2,3) first by (intro conjI ballI impI) (blast | simp)+
qed

definition sample_schedule_config :: SessionLifecycleConfig where
  "sample_schedule_config = sample_lifecycle_config\<lparr>lc_effectiveAt := None\<rparr>"

lemma sample_slot: "maintenanceSlot action 0 = - 18000000"
  by (subst maintenance_slot_civil)
    (simp_all add: SHANGHAI_OFFSET_def DAY_MS_def EPOCH_DAYS_def year_of_def days_before_year_def)

lemma sample_run_claim:
  "fst (claim_run (\<lambda>_. False) 0 0 ''t'' sample_schedule_config [] []) =
     Some \<lparr>mr_policyVersion = ''v1'', mr_action = Run_Archive, mr_scheduledAt = - 18000000000, mr_token = ''t'', mr_afterRowId = 0, mr_scanComplete = False\<rparr>"
  by (simp add: claim_run_def ensure_runs_def ensure_run_def new_run_def run_key_def sample_slot before_effective_def absent_def
      sample_schedule_config_def sample_lifecycle_config_def run_candidate_def run_free_def run_order_def maintenance_run_def ms_def)

lemma maintenance_run_is_exclusive_example:
  "\<exists>run rs. claim_run (\<lambda>_. False) 0 0 ''t'' sample_schedule_config [] [] = (Some run, rs) \<and> fst (finish_run 1 run 5 True True rs)"
proof -
  obtain run rs where c: "claim_run (\<lambda>_. False) 0 0 ''t'' sample_schedule_config [] [] = (Some run, rs)"
    using sample_run_claim by (cases "claim_run (\<lambda>_. False) 0 0 ''t'' sample_schedule_config [] []") auto
  have "1 < 0 + ms (lc_runBudgetMs sample_schedule_config + 120000)" by (simp add: sample_schedule_config_def sample_lifecycle_config_def ms_def)
  from maintenance_run_is_exclusive[OF _ c this] c show ?thesis by auto
qed

end
