(* ===== verification/Lifecycle_Eligibility.thy ===== *)
theory Lifecycle_Eligibility
  imports Lifecycle_Resume
begin

text \<open>
  The factual eligibility of a session for the lifecycle, \<open>relay/src/session-lifecycle/eligibility.ts\<close>:
  the closure of its dependencies, the search for a cycle among the ancestors, the pending work of every
  member and the evaluation of the policy. A table is a list of rows; the order of a result without
  \<open>ORDER BY\<close> is that of the table. \<open>collation\<close> is the sort key \<open>localeCompare\<close> compares.
\<close>

section \<open>Tables\<close>

record subagent_row =
  sa_parent_session_id :: string
  sa_agent_id :: string
  sa_kind :: string
  sa_status :: "string option"
  sa_created_at :: "int option"

record lifecycle_event =
  le_id :: int
  le_session_id :: string
  le_event_type :: string
  le_created_at :: "int option"
  le_effect_status :: "string option"

record lifecycle_inbox_row =
  lx_session_id :: string
  lx_event_type :: string
  lx_resync :: bool
  lx_status :: int
  lx_received_at :: int
  lx_claimed_at :: "int option"

text \<open>The columns of the tables the inspection reads.\<close>

record lifecycle_tables =
  tb_sessions :: "lifecycle_session list"
  tb_hosts :: "host_row list"
  tb_subagents :: "subagent_row list"
  tb_team_sessions :: "string list"
  tb_admissions :: "(string \<times> string list) list"
  tb_reservations :: "(string option \<times> string) list"
  tb_outbox :: "(string \<times> bool) list"
  tb_attention :: "(string \<times> string) list"
  tb_uploads :: "string list"
  tb_calls :: "(string \<times> string) list"
  tb_deleted :: "string list"
  tb_extension_outbox :: "string list"
  tb_events :: "lifecycle_event list"
  tb_projection_cursor :: "int option"
  tb_inbox :: "lifecycle_inbox_row list"
  tb_documents :: "(string \<times> int) list"

section \<open>The dependency closure\<close>

record closure_state =
  cl_members :: "(string, lifecycle_session) jsmap"
  cl_seen :: "string list"
  cl_buckets :: "(string, subagent_row) jsmap"
  cl_frontier :: "string list"
  cl_overflow :: bool

definition set_add :: "'a \<Rightarrow> 'a list \<Rightarrow> 'a list" where
  "set_add x xs = (if x \<in> set xs then xs else xs @ [x])"

definition set_adds :: "'a list \<Rightarrow> 'a list \<Rightarrow> 'a list" where
  "set_adds ys xs = fold set_add ys xs"

definition truthy :: "string option \<Rightarrow> string list" where
  "truthy v = (case v of None \<Rightarrow> [] | Some s \<Rightarrow> if s = [] then [] else [s])"

definition row_ids :: "lifecycle_session \<Rightarrow> string list" where
  "row_ids r = ls_session_id r # truthy (ls_parent_session_id r) @ truthy (ls_root_session_id r)"

definition row_touches :: "string list \<Rightarrow> lifecycle_session \<Rightarrow> bool" where
  "row_touches ids r \<longleftrightarrow>
     ls_session_id r \<in> set ids \<or> (\<exists>i \<in> set ids. ls_parent_session_id r = Some i) \<or> (\<exists>i \<in> set ids. ls_root_session_id r = Some i)"

definition sub_touches :: "string list \<Rightarrow> subagent_row \<Rightarrow> bool" where
  "sub_touches ids b \<longleftrightarrow> sa_parent_session_id b \<in> set ids \<or> sa_agent_id b \<in> set ids"

definition independent :: "lifecycle_tables \<Rightarrow> subagent_row \<Rightarrow> bool" where
  "independent tb b \<longleftrightarrow> sa_agent_id b \<noteq> [] \<and> sa_agent_id b \<in> ls_session_id ` set (tb_sessions tb)"

definition sub_ids :: "lifecycle_tables \<Rightarrow> subagent_row \<Rightarrow> string list" where
  "sub_ids tb b = sa_parent_session_id b # (if independent tb b then [sa_agent_id b] else [])"

definition bucket_key :: "subagent_row \<Rightarrow> string" where
  "bucket_key b = sa_parent_session_id b @ '':'' @ sa_agent_id b"

definition add_buckets :: "lifecycle_tables \<Rightarrow> subagent_row list \<Rightarrow> (string, subagent_row) jsmap \<Rightarrow> (string, subagent_row) jsmap" where
  "add_buckets tb subs m = fold (\<lambda>b m. if independent tb b then m else jm_set (bucket_key b) b m) subs m"

text \<open>One round of the loop, with its three early exits.\<close>

definition closure_round :: "lifecycle_tables \<Rightarrow> closure_state \<Rightarrow> closure_state" where
  "closure_round tb s =
     (let seen = set_adds (cl_frontier s) (cl_seen s);
          s1 = s\<lparr>cl_seen := seen\<rparr>
      in if 1000 < length seen then s1\<lparr>cl_overflow := True\<rparr>
         else (let rows = take 1001 (filter (row_touches (cl_frontier s)) (tb_sessions tb))
               in if 1000 < length rows then s1\<lparr>cl_overflow := True\<rparr>
                  else (let s2 = s1\<lparr>cl_members := fold (\<lambda>r. jm_set (ls_session_id r) r) rows (cl_members s)\<rparr>;
                            subs = take 1001 (filter (sub_touches (cl_frontier s)) (tb_subagents tb))
                        in if 1000 < length subs then s2\<lparr>cl_overflow := True\<rparr>
                           else (let neighbors = set_adds (concat (map row_ids rows) @ concat (map (sub_ids tb) subs)) [];
                                     frontier = filter (\<lambda>i. i \<notin> set seen) neighbors
                                 in s2\<lparr>cl_buckets := add_buckets tb subs (cl_buckets s), cl_frontier := frontier,
                                       cl_overflow := 1000 < length (cl_members s2) + length frontier\<rparr>))))"

definition closure_measure :: "closure_state \<Rightarrow> nat" where
  "closure_measure s = 2 * (1001 - card (set (cl_seen s))) + (if set (cl_frontier s) \<subseteq> set (cl_seen s) then 1 else 0)"

lemma set_set_adds [simp]: "set (set_adds ys xs) = set ys \<union> set xs"
  by (induction ys arbitrary: xs) (auto simp: set_adds_def set_add_def)

lemma distinct_set_adds: "distinct xs \<Longrightarrow> distinct (set_adds ys xs)"
  by (induction ys arbitrary: xs) (auto simp: set_adds_def set_add_def)

lemma closure_round_cases:
  assumes "\<not> cl_overflow (closure_round tb s)"
  defines "rows \<equiv> filter (row_touches (cl_frontier s)) (tb_sessions tb)" and "subs \<equiv> filter (sub_touches (cl_frontier s)) (tb_subagents tb)"
    and "seen \<equiv> set_adds (cl_frontier s) (cl_seen s)"
  shows "length seen \<le> 1000" "length rows \<le> 1000" "length subs \<le> 1000"
    "closure_round tb s = s\<lparr>cl_seen := seen, cl_members := fold (\<lambda>r. jm_set (ls_session_id r) r) rows (cl_members s),
       cl_buckets := add_buckets tb subs (cl_buckets s),
       cl_frontier := filter (\<lambda>i. i \<notin> set seen) (set_adds (concat (map row_ids rows) @ concat (map (sub_ids tb) subs)) []), cl_overflow := False\<rparr>"
proof -
  have a: "length seen \<le> 1000" "length (take 1001 rows) \<le> 1000" "length (take 1001 subs) \<le> 1000"
    using assms(1) unfolding closure_round_def Let_def rows_def subs_def seen_def by (auto split: if_splits)
  then show "length seen \<le> 1000" "length rows \<le> 1000" "length subs \<le> 1000" by auto
  then have "take 1001 rows = rows" "take 1001 subs = subs" by simp_all
  then show "closure_round tb s = s\<lparr>cl_seen := seen, cl_members := fold (\<lambda>r. jm_set (ls_session_id r) r) rows (cl_members s),
       cl_buckets := add_buckets tb subs (cl_buckets s),
       cl_frontier := filter (\<lambda>i. i \<notin> set seen) (set_adds (concat (map row_ids rows) @ concat (map (sub_ids tb) subs)) []), cl_overflow := False\<rparr>"
    using assms(1) a unfolding closure_round_def Let_def rows_def subs_def seen_def by (auto split: if_splits)
qed

lemma closure_round_decreases:
  assumes "\<not> cl_overflow (closure_round tb s)" "cl_frontier s \<noteq> []"
  shows "cl_frontier (closure_round tb s) = [] \<or> closure_measure (closure_round tb s) < closure_measure s"
proof -
  note r = closure_round_cases[OF assms(1)]
  let ?t = "closure_round tb s"
  have seen: "set (cl_seen ?t) = set (cl_frontier s) \<union> set (cl_seen s)" and new: "set (cl_frontier ?t) \<inter> set (cl_seen ?t) = {}"
    using r(4) by auto
  have "card (set (cl_seen ?t)) \<le> 1000" using r(1,4) card_length[of "cl_seen ?t"] by simp
  show ?thesis
  proof (cases "set (cl_frontier s) \<subseteq> set (cl_seen s)")
    case True
    then have "set (cl_seen ?t) = set (cl_seen s)" using seen by auto
    then show ?thesis using True new by (cases "cl_frontier ?t") (auto simp: closure_measure_def)
  next
    case False
    then have "card (set (cl_seen s)) < card (set (cl_seen ?t))" using seen by (intro psubset_card_mono) auto
    then show ?thesis using \<open>card (set (cl_seen ?t)) \<le> 1000\<close> False by (auto simp: closure_measure_def)
  qed
qed

function close_dependencies :: "lifecycle_tables \<Rightarrow> closure_state \<Rightarrow> closure_state" where
  "close_dependencies tb s = (if cl_frontier s = [] \<or> cl_overflow s then s else close_dependencies tb (closure_round tb s))"
  by pat_completeness auto
termination
proof (relation "measure (\<lambda>(tb, s). if cl_overflow s \<or> cl_frontier s = [] then 0 else Suc (closure_measure s))")
  show "((tb, closure_round tb s), tb, s) \<in> measure (\<lambda>(tb, s). if cl_overflow s \<or> cl_frontier s = [] then 0 else Suc (closure_measure s))"
    if "\<not> (cl_frontier s = [] \<or> cl_overflow s)" for tb s
    using that closure_round_decreases[of tb s] by auto
qed simp

declare close_dependencies.simps [simp del]

definition dependency_closure :: "lifecycle_tables \<Rightarrow> string \<Rightarrow> closure_state" where
  "dependency_closure tb sid =
     close_dependencies tb \<lparr>cl_members = [], cl_seen = [], cl_buckets = [], cl_frontier = [sid], cl_overflow = False\<rparr>"

section \<open>Cycles\<close>

text \<open>\<open>some\<close> over a list with a predicate that changes its state and may not return.\<close>

fun some_state :: "('a \<Rightarrow> 's \<Rightarrow> (bool \<times> 's) option) \<Rightarrow> 'a list \<Rightarrow> 's \<Rightarrow> (bool \<times> 's) option" where
  "some_state f [] st = Some (False, st)"
| "some_state f (x # xs) st =
     (case f x st of
        None \<Rightarrow> None
      | Some (True, st') \<Rightarrow> Some (True, st')
      | Some (False, st') \<Rightarrow> some_state f xs st')"

definition ancestors :: "lifecycle_session \<Rightarrow> string list" where
  "ancestors r = filter (\<lambda>i. i \<noteq> ls_session_id r) (truthy (ls_parent_session_id r) @ truthy (ls_root_session_id r))"

definition ancestry_of :: "lifecycle_session list \<Rightarrow> (string, string list) jsmap" where
  "ancestry_of rows = fold (\<lambda>r. jm_set (ls_session_id r) (ancestors r)) rows []"

type_synonym search_state = "string list \<times> string list"

text \<open>The depth-first search over \<open>(visited, visiting)\<close>; the first argument bounds the depth of the calls.\<close>

fun cyclic :: "nat \<Rightarrow> (string, string list) jsmap \<Rightarrow> string \<Rightarrow> search_state \<Rightarrow> (bool \<times> search_state) option" where
  "cyclic 0 g i st = None"
| "cyclic (Suc n) g i (visited, visiting) =
     (if i \<in> set visiting then Some (True, (visited, visiting))
      else if i \<in> set visited then Some (False, (visited, visiting))
      else (case some_state (cyclic n g) (jm_get_or g i []) (visited, set_add i visiting) of
              None \<Rightarrow> None
            | Some (True, st) \<Rightarrow> Some (True, st)
            | Some (False, (vd, vg)) \<Rightarrow> Some (False, (set_add i vd, filter (\<lambda>x. x \<noteq> i) vg))))"

definition row_cyclic :: "nat \<Rightarrow> (string, string list) jsmap \<Rightarrow> lifecycle_session \<Rightarrow> search_state \<Rightarrow> (bool \<times> search_state) option" where
  "row_cyclic n g r st =
     (if ls_parent_session_id r = Some (ls_session_id r) then Some (True, st) else cyclic n g (ls_session_id r) st)"

definition cyclic_members :: "lifecycle_session list \<Rightarrow> bool option" where
  "cyclic_members rows = map_option fst (some_state (row_cyclic (length rows + 2) (ancestry_of rows)) rows ([], []))"

section \<open>Pending work\<close>

record lifecycle_pending =
  pe_admission :: bool
  pe_outbox :: bool
  pe_attention :: bool
  pe_uploads :: bool
  pe_collaboration :: bool
  pe_tombstone :: bool
  pe_extension :: bool
  pe_projection :: bool
  pe_effects :: int
  pe_inbox :: int
  pe_latest_data_at :: "int option"

definition discovery_types :: "string list" where
  "discovery_types = [''session_discovered'', ''session_status'', ''session_meta'', ''command_list'', ''subagent_discovered'']"

definition greatest :: "int list \<Rightarrow> int option" where
  "greatest xs = (if xs = [] then None else Some (Max (set xs)))"

definition pending_work :: "lifecycle_tables \<Rightarrow> string list \<Rightarrow> lifecycle_pending" where
  "pending_work tb ids =
     \<lparr>pe_admission = ((\<exists>(st, names) \<in> set (tb_admissions tb). st \<in> {''issued'', ''uncertain''} \<and> (\<exists>i \<in> set names. i \<in> set ids))
        \<or> (\<exists>(sid, st) \<in> set (tb_reservations tb). st \<in> {''pending'', ''uncertain''} \<and> (\<exists>i \<in> set ids. sid = Some i))),
      pe_outbox = (\<exists>(sid, delivered) \<in> set (tb_outbox tb). sid \<in> set ids \<and> \<not> delivered),
      pe_attention = (\<exists>(sid, st) \<in> set (tb_attention tb). sid \<in> set ids \<and> st \<in> {''open'', ''snoozed'', ''submitting'', ''result_unknown''}),
      pe_uploads = (\<exists>sid \<in> set (tb_uploads tb). sid \<in> set ids),
      pe_collaboration = (\<exists>(sid, st) \<in> set (tb_calls tb). sid \<in> set ids \<and> st \<in> {''pending'', ''dispatched'', ''accepted'', ''blocked'', ''uncertain''}),
      pe_tombstone = (\<exists>sid \<in> set (tb_deleted tb). sid \<in> set ids),
      pe_extension = (\<exists>sid \<in> set (tb_extension_outbox tb). sid \<in> set ids),
      pe_projection = (\<exists>e \<in> set (tb_events tb). le_session_id e \<in> set ids \<and> (case tb_projection_cursor tb of None \<Rightarrow> 0 | Some c \<Rightarrow> c) < le_id e),
      pe_effects = int (length (filter (\<lambda>e. le_session_id e \<in> set ids \<and> le_effect_status e = Some ''pending'') (tb_events tb))),
      pe_inbox = int (length (filter (\<lambda>x. lx_session_id x \<in> set ids \<and> lx_status x \<in> {0, 1}) (tb_inbox tb))),
      pe_latest_data_at = greatest
        (List.map_filter (\<lambda>e. if le_session_id e \<in> set ids \<and> le_event_type e \<notin> set discovery_types then le_created_at e else None) (tb_events tb)
         @ map lx_received_at (filter (\<lambda>x. lx_session_id x \<in> set ids \<and> lx_event_type x \<notin> set discovery_types \<and> \<not> lx_resync x) (tb_inbox tb))
         @ List.map_filter (\<lambda>x. if lx_session_id x \<in> set ids \<and> lx_status x = 1 then lx_claimed_at x else None) (tb_inbox tb)
         @ map snd (filter (\<lambda>(sid, _). sid \<in> set ids) (tb_documents tb)))\<rparr>"

section \<open>Activity\<close>

text \<open>A column read as text keeps its microseconds, one read as a date only its milliseconds.\<close>

definition stamp_column :: "int option \<Rightarrow> string option" where
  "stamp_column t = Option.bind t microsTimestamp"

definition date_column :: "int option \<Rightarrow> instant list" where
  "date_column t = (case t of None \<Rightarrow> [] | Some v \<Rightarrow> [DateMs (v div 1000)])"

definition text_source :: "string option \<Rightarrow> instant list" where
  "text_source t = map StampText (truthy t)"

definition activity_time :: "lifecycle_session \<Rightarrow> string option" where
  "activity_time r = stamp_column (ls_last_activity_at r)"

definition activity_sources :: "lifecycle_session list \<Rightarrow> subagent_row list \<Rightarrow> lifecycle_pending \<Rightarrow> instant list" where
  "activity_sources rows bs p =
     concat (map (\<lambda>r. text_source (activity_time r) @ date_column (ls_last_business_activity_at r) @ date_column (ls_turn_started_at r)) rows)
     @ concat (map (\<lambda>b. date_column (sa_created_at b)) bs)
     @ text_source (stamp_column (pe_latest_data_at p))
     @ concat (map (\<lambda>r. if truthy (activity_time r) = [] \<or> \<not> ls_activity_verified r then date_column (ls_created_at r) else []) rows)"

definition latest_micros :: "instant list \<Rightarrow> int option option" where
  "latest_micros src =
     (if list_all (\<lambda>i. instantMicros i \<noteq> None) src then Some (greatest (map (the \<circ> instantMicros) src)) else None)"

text \<open>The quotient of two \<open>BigInt\<close>s rounds towards zero.\<close>

definition trunc_div :: "int \<Rightarrow> int \<Rightarrow> int" where
  "trunc_div a b = (if 0 \<le> a then a div b else - ((- a) div b))"

definition known_status :: "string \<Rightarrow> bool" where
  "known_status st \<longleftrightarrow> st \<in> set inactiveStatuses \<or> st \<in> set activeStatuses"

definition bucket_kinds :: "string list" where
  "bucket_kinds = [''claude_subagent'', ''codex_subagent'', ''zcode_subagent'']"

definition status_or_null :: "string option \<Rightarrow> string" where
  "status_or_null st = (case st of None \<Rightarrow> [] | Some s \<Rightarrow> s)"

definition daemon_owner :: "lifecycle_tables \<Rightarrow> lifecycle_session \<Rightarrow> int option" where
  "daemon_owner tb r = Option.bind (ls_daemon_id r) (\<lambda>d. Option.bind (find (\<lambda>h. hs_daemon_id h = d) (tb_hosts tb)) hs_user_id)"

definition stale_snapshot :: "lifecycle_tables \<Rightarrow> SessionLifecycleConfig \<Rightarrow> int \<Rightarrow> int option \<Rightarrow> bool \<Rightarrow> lifecycle_session option \<Rightarrow> lifecycle_session list \<Rightarrow> subagent_row list \<Rightarrow> bool" where
  "stale_snapshot tb cfg clock latest overflow root rows bs \<longleftrightarrow>
     (case (latest, root) of
        (Some m, Some rt) \<Rightarrow>
          lc_archiveDays cfg * 86400000 < clock div 1000 - trunc_div m 1000 \<and> \<not> overflow \<and>
          list_all (\<lambda>r. ls_user_id r = ls_user_id rt \<and> daemon_owner tb r = ls_user_id rt) rows \<and>
          list_all (\<lambda>r. known_status (status_or_null (ls_status r)) \<or> status_or_null (ls_status r) \<in> {''unknown'', ''disconnected'', ''shell''}) rows \<and>
          list_all (\<lambda>b. sa_kind b \<in> set bucket_kinds \<and> known_status (status_or_null (sa_status b))) bs
      | _ \<Rightarrow> False)"

section \<open>Blockers\<close>

text \<open>\<open>own\<close> holds the epochs under which the caller itself is cooling a session.\<close>

definition member_blockers :: "lifecycle_tables \<Rightarrow> bool \<Rightarrow> (string, int) jsmap \<Rightarrow> lifecycle_session option \<Rightarrow> lifecycle_session \<Rightarrow> LifecycleBlocker list \<Rightarrow> LifecycleBlocker list" where
  "member_blockers tb stale own root r bl =
     (let owner = Option.bind root ls_user_id; st = status_or_null (ls_status r);
          active = (ls_turn_started_at r \<noteq> None \<or> st \<in> set activeStatuses);
          b1 = add_reason (owner = None \<or> owner = Some 0 \<or> ls_user_id r \<noteq> owner \<or> daemon_owner tb r \<noteq> owner) Owner_Unknown bl;
          b2 = add_reason (\<not> stale \<and> \<not> ls_activity_verified r) Activity_Unverified b1;
          b3 = add_reason (\<not> stale \<and> active) Session_Active_Now b2;
          b4 = add_reason (\<not> stale \<and> \<not> active \<and> st \<notin> set inactiveStatuses) Status_Unknown b3;
          b5 = add_reason (ls_content_state r = Deleting) Session_Deleting b4;
          b6 = add_reason (ls_content_state r = Deleted) Session_Deleted b5
      in add_reason (ls_content_state r = Cooling \<and> jm_get own (ls_session_id r) \<noteq> Some (ls_activity_epoch r)) Cooling_Pending b6)"

definition bucket_blockers :: "bool \<Rightarrow> subagent_row \<Rightarrow> LifecycleBlocker list \<Rightarrow> LifecycleBlocker list" where
  "bucket_blockers stale b bl =
     (let st = status_or_null (sa_status b); active = (st \<in> set activeStatuses);
          b1 = add_reason (sa_kind b \<notin> set bucket_kinds) Dependency_Unknown bl;
          b2 = add_reason (\<not> stale \<and> active) Session_Active_Now b1
      in add_reason (\<not> stale \<and> \<not> active \<and> st \<notin> set inactiveStatuses) Status_Unknown b2)"

definition work_blockers :: "bool \<Rightarrow> lifecycle_pending \<Rightarrow> LifecycleBlocker list \<Rightarrow> LifecycleBlocker list" where
  "work_blockers stale p bl =
     fold (\<lambda>(c, b). add_reason c b)
       [(pe_admission p, Admission_Pending), (0 < pe_inbox p \<and> \<not> stale, Inbox_Pending), (pe_outbox p, Outbox_Pending),
        (0 < pe_effects p \<and> \<not> stale, Effect_Pending), (pe_attention p, Attention_Pending), (pe_uploads p, Document_Upload_Pending),
        (pe_collaboration p, Collaboration_Pending), (pe_tombstone p, Session_Deleted), (pe_extension p, Extension_Pending),
        (pe_projection p, Attention_Pending)] bl"

definition demo_member :: "lifecycle_session \<Rightarrow> bool" where
  "demo_member r \<longleftrightarrow> ls_source r = Some ''app_review_demo'' \<or> starts_with (ls_session_id r) ''app-review-demo-'' \<or>
     ls_daemon_id r = Some ''app-review-demo-host''"

fun before_policy :: "string \<Rightarrow> lifecycle_session list \<Rightarrow> bool option" where
  "before_policy eff [] = Some False"
| "before_policy eff (r # rs) =
     (if truthy (activity_time r) = [] then before_policy eff rs
      else (case (timestampMicros (the (activity_time r)), timestampMicros eff) of
              (Some a, Some e) \<Rightarrow> if a < e then Some True else before_policy eff rs
            | _ \<Rightarrow> None))"

definition historical_member :: "SessionLifecycleConfig \<Rightarrow> lifecycle_session list \<Rightarrow> bool option" where
  "historical_member cfg rows = (if absent (lc_effectiveAt cfg) then Some False else before_policy (the (lc_effectiveAt cfg)) rows)"

record stale_evidence =
  se_activityAt :: "string option"
  se_pendingEffects :: int
  se_pendingInbox :: int
  se_states :: "(string \<times> string option) list"

record LifecycleEligibility =
  el_root :: "lifecycle_session option"
  el_members :: "lifecycle_session list"
  el_sessionIds :: "string list"
  el_evaluatedAt :: "string option"
  el_prediction :: LifecycleEvaluation
  el_staleEvidence :: "stale_evidence option"

definition closure_blockers :: "closure_state \<Rightarrow> string \<Rightarrow> bool \<Rightarrow> LifecycleBlocker list" where
  "closure_blockers s sid cyc =
     add_reason cyc Dependency_Unknown
       (add_reason (cl_overflow s \<or> jm_get (cl_members s) sid = None \<or> \<not> list_all (\<lambda>i. jm_get (cl_members s) i \<noteq> None) (cl_seen s)) Dependency_Unknown [])"

definition lifecycle_input :: "lifecycle_tables \<Rightarrow> (string, int) jsmap \<Rightarrow> lifecycle_session option \<Rightarrow> lifecycle_session list \<Rightarrow> bool \<Rightarrow> string option \<Rightarrow> bool
    \<Rightarrow> LifecycleBlocker list \<Rightarrow> LifecycleInput" where
  "lifecycle_input tb own root rows stale latestAt hist bl =
     \<lparr>li_ownerUserId = Option.bind root ls_user_id,
      li_scope = (if list_ex demo_member rows then Demo
                  else if list_ex (\<lambda>r. ls_session_id r \<in> set (tb_team_sessions tb)) rows then Team else Personal),
      li_activityAt = (case latestAt of None \<Rightarrow> Option.bind root activity_time | Some t \<Rightarrow> Some t),
      li_activityVerified = (stale \<or> (case root of None \<Rightarrow> False | Some r \<Rightarrow> ls_activity_verified r)),
      li_dependencyActivityAt = (if stale then [] else map activity_time rows),
      li_status = Option.bind root ls_status,
      li_turnActive = (case root of None \<Rightarrow> False | Some r \<Rightarrow> ls_turn_started_at r \<noteq> None),
      li_staleSnapshot = stale,
      li_archiveReason = Option.bind root ls_archive_reason,
      li_contentState = (case root of None \<Rightarrow> Hot
                         | Some r \<Rightarrow> if ls_content_state r = Cooling \<and> jm_get own (ls_session_id r) = Some (ls_activity_epoch r)
                                    then Hot else ls_content_state r),
      li_historical = hist, li_blockers = bl\<rparr>"

definition member_rows :: "(string \<Rightarrow> nat list) \<Rightarrow> closure_state \<Rightarrow> lifecycle_session list" where
  "member_rows collation s = sort_key (\<lambda>r. collation (ls_session_id r)) (map snd (cl_members s))"

definition all_blockers :: "lifecycle_tables \<Rightarrow> closure_state \<Rightarrow> string \<Rightarrow> bool \<Rightarrow> bool \<Rightarrow> (string, int) jsmap \<Rightarrow> lifecycle_session list \<Rightarrow> lifecycle_pending \<Rightarrow> LifecycleBlocker list" where
  "all_blockers tb s sid cyc stale own rows p =
     work_blockers stale p
       (fold (bucket_blockers stale) (map snd (cl_buckets s))
         (fold (member_blockers tb stale own (jm_get (cl_members s) sid)) rows (closure_blockers s sid cyc)))"

text \<open>\<open>clock\<close> is the database time of the inspection. A call that throws is \<open>None\<close>.\<close>

definition inspectLifecycleEligibility :: "(string \<Rightarrow> nat list) \<Rightarrow> lifecycle_tables \<Rightarrow> int \<Rightarrow> string \<Rightarrow> SessionLifecycleConfig \<Rightarrow> (string, int) jsmap
    \<Rightarrow> LifecycleEligibility option" where
  "inspectLifecycleEligibility collation tb clock sid cfg own =
     (let s = dependency_closure tb sid;
          root = jm_get (cl_members s) sid;
          rows = member_rows collation s; ids = map ls_session_id rows;
          bs = map snd (cl_buckets s);
          p = pending_work tb ids
      in Option.bind (cyclic_members rows) (\<lambda>cyc.
         Option.bind (latest_micros (activity_sources rows bs p)) (\<lambda>latest.
         Option.bind (case latest of None \<Rightarrow> Some None | Some m \<Rightarrow> map_option Some (microsTimestamp m)) (\<lambda>latestAt.
         let stale = stale_snapshot tb cfg clock latest (cl_overflow s) root rows bs;
             bl = all_blockers tb s sid cyc stale own rows p
         in Option.bind (historical_member cfg rows) (\<lambda>hist.
            Option.bind (microsTimestamp clock) (\<lambda>clockText.
            map_option (\<lambda>ev. \<lparr>el_root = root, el_members = rows, el_sessionIds = ids, el_evaluatedAt = Some clockText, el_prediction = ev,
                el_staleEvidence = (if stale then Some \<lparr>se_activityAt = latestAt, se_pendingEffects = pe_effects p, se_pendingInbox = pe_inbox p,
                  se_states = map (\<lambda>r. (ls_session_id r, ls_status r)) rows @ map (\<lambda>b. (bucket_key b, sa_status b)) bs\<rparr> else None)\<rparr>)
              (evaluateLifecycle (lifecycle_input tb own root rows stale latestAt hist bl) (StampText clockText) cfg)))))))"

end
