(* ===== verification/Lifecycle_Eligibility_Correct.thy ===== *)
theory Lifecycle_Eligibility_Correct
  imports Lifecycle_Eligibility
begin

text \<open>
  The dependency closure is the connected component of the session, the search finds exactly the cycles
  among its ancestors, and an action is predicted only for a complete, acyclic component without pending
  work.
\<close>

section \<open>The component\<close>

definition linked :: "lifecycle_tables \<Rightarrow> string \<Rightarrow> string \<Rightarrow> bool" where
  "linked tb a b \<longleftrightarrow>
     (\<exists>r \<in> set (tb_sessions tb). row_touches [a] r \<and> b \<in> set (row_ids r)) \<or>
     (\<exists>x \<in> set (tb_subagents tb). sub_touches [a] x \<and> b \<in> set (sub_ids tb x))"

definition component :: "lifecycle_tables \<Rightarrow> string \<Rightarrow> string set" where
  "component tb sid = {b. (linked tb)\<^sup>*\<^sup>* sid b}"

definition touching :: "string set \<Rightarrow> lifecycle_session \<Rightarrow> bool" where
  "touching S r \<longleftrightarrow> (\<exists>a \<in> S. row_touches [a] r)"

lemma row_touches_iff: "row_touches ids r \<longleftrightarrow> touching (set ids) r"
  by (auto simp: row_touches_def touching_def)

lemma sub_touches_iff: "sub_touches ids x \<longleftrightarrow> (\<exists>a \<in> set ids. sub_touches [a] x)"
  by (auto simp: sub_touches_def)

lemma touching_Un: "touching (A \<union> B) r \<longleftrightarrow> touching A r \<or> touching B r"
  by (auto simp: touching_def)

lemma touching_own_id: "touching S r \<Longrightarrow> r \<in> set (tb_sessions tb) \<Longrightarrow> \<exists>a \<in> S. linked tb a (ls_session_id r)"
  by (auto simp: touching_def linked_def row_ids_def)

lemma component_step: "a \<in> component tb sid \<Longrightarrow> linked tb a b \<Longrightarrow> b \<in> component tb sid"
  by (auto simp: component_def)

text \<open>The invariant of the loop.\<close>

definition closure_inv :: "lifecycle_tables \<Rightarrow> string \<Rightarrow> closure_state \<Rightarrow> bool" where
  "closure_inv tb sid s \<longleftrightarrow>
     distinct (cl_seen s) \<and> distinct (cl_frontier s) \<and> set (cl_frontier s) \<inter> set (cl_seen s) = {} \<and>
     sid \<in> set (cl_seen s) \<union> set (cl_frontier s) \<and>
     set (cl_seen s) \<union> set (cl_frontier s) \<subseteq> component tb sid \<and>
     (\<forall>a \<in> set (cl_seen s). \<forall>b. linked tb a b \<longrightarrow> b \<in> set (cl_seen s) \<union> set (cl_frontier s)) \<and>
     jm_wf (cl_members s) \<and>
     set (cl_members s) = (\<lambda>r. (ls_session_id r, r)) ` {r \<in> set (tb_sessions tb). touching (set (cl_seen s)) r}"

lemma fold_members:
  assumes "inj_on ls_session_id (set rows \<union> S)" "jm_wf m" "set m = (\<lambda>r. (ls_session_id r, r)) ` S"
  shows "jm_wf (fold (\<lambda>r. jm_set (ls_session_id r) r) rows m) \<and>
    set (fold (\<lambda>r. jm_set (ls_session_id r) r) rows m) = (\<lambda>r. (ls_session_id r, r)) ` (set rows \<union> S)"
  using assms
proof (induction rows arbitrary: m S)
  case (Cons r rows)
  have get: "jm_get (jm_set (ls_session_id r) r m) k = Some v \<longleftrightarrow> (k, v) \<in> (\<lambda>r. (ls_session_id r, r)) ` (insert r S)" for k v
    using Cons.prems jm_get_in_set[OF Cons.prems(2), of k v] by (auto simp: inj_on_def)
  have wf: "jm_wf (jm_set (ls_session_id r) r m)" using Cons.prems(2) by simp
  have "set (jm_set (ls_session_id r) r m) = (\<lambda>r. (ls_session_id r, r)) ` (insert r S)"
    using jm_get_in_set[OF wf] get by auto
  from Cons.IH[OF _ wf this] Cons.prems(1) show ?case by (simp add: Un_insert_right insert_commute)
qed simp

lemma closure_round_inv:
  assumes inv: "closure_inv tb sid s" and ok: "\<not> cl_overflow (closure_round tb s)" and ids: "distinct (map ls_session_id (tb_sessions tb))"
  shows "closure_inv tb sid (closure_round tb s)"
proof -
  let ?t = "closure_round tb s"
  define rows where "rows = filter (row_touches (cl_frontier s)) (tb_sessions tb)"
  define subs where "subs = filter (sub_touches (cl_frontier s)) (tb_subagents tb)"
  define seen where "seen = set_adds (cl_frontier s) (cl_seen s)"
  define nb where "nb = set_adds (concat (map row_ids rows) @ concat (map (sub_ids tb) subs)) []"
  have t: "?t = s\<lparr>cl_seen := seen, cl_members := fold (\<lambda>r. jm_set (ls_session_id r) r) rows (cl_members s),
       cl_buckets := add_buckets tb subs (cl_buckets s), cl_frontier := filter (\<lambda>i. i \<notin> set seen) nb, cl_overflow := False\<rparr>"
    using closure_round_cases(4)[OF ok] unfolding rows_def subs_def seen_def nb_def .
  have nb: "b \<in> set nb \<longleftrightarrow> (\<exists>a \<in> set (cl_frontier s). linked tb a b)" for b
    unfolding nb_def rows_def subs_def linked_def
    by (auto simp: row_touches_iff[of "cl_frontier s"] touching_def sub_touches_iff[of "cl_frontier s"])
  have seen: "set seen = set (cl_frontier s) \<union> set (cl_seen s)" "distinct seen"
    using inv by (simp_all add: seen_def distinct_set_adds closure_inv_def)
  have F: "set (cl_frontier s) \<subseteq> component tb sid" using inv by (simp add: closure_inv_def)
  have sub: "set nb \<subseteq> component tb sid" using nb F component_step by blast
  have closed: "b \<in> set seen \<union> set (filter (\<lambda>i. i \<notin> set seen) nb)" if "a \<in> set seen" "linked tb a b" for a b
    using that inv nb seen(1) by (auto simp: closure_inv_def)
  let ?S = "{r \<in> set (tb_sessions tb). touching (set (cl_seen s)) r}"
  have inj: "inj_on ls_session_id (set rows \<union> ?S)" using ids by (auto simp: rows_def distinct_map intro: inj_on_subset)
  have m: "jm_wf (cl_members ?t) \<and> set (cl_members ?t) = (\<lambda>r. (ls_session_id r, r)) ` (set rows \<union> ?S)"
    using fold_members[OF inj] inv by (simp add: t closure_inv_def)
  have rows: "set rows \<union> ?S = {r \<in> set (tb_sessions tb). touching (set seen) r}"
    by (auto simp: rows_def row_touches_iff seen(1) touching_Un)
  have "distinct nb" by (simp add: nb_def distinct_set_adds)
  then show ?thesis using inv seen sub closed m rows unfolding closure_inv_def t by auto
qed

lemma close_dependencies_inv:
  assumes "closure_inv tb sid s" "\<not> cl_overflow (close_dependencies tb s)" "distinct (map ls_session_id (tb_sessions tb))"
  shows "closure_inv tb sid (close_dependencies tb s) \<and> cl_frontier (close_dependencies tb s) = []"
  using assms
proof (induction tb s rule: close_dependencies.induct)
  case (1 tb s)
  show ?case
  proof (cases "cl_frontier s = [] \<or> cl_overflow s")
    case True
    then show ?thesis using 1(2,3) by (auto simp: close_dependencies.simps[of tb s])
  next
    case False
    let ?t = "closure_round tb s"
    have e: "close_dependencies tb s = close_dependencies tb ?t" using False by (simp add: close_dependencies.simps[of tb s])
    have "\<not> cl_overflow ?t" using 1(3) e by (auto simp: close_dependencies.simps[of tb ?t])
    then show ?thesis using 1(1)[OF False closure_round_inv[OF 1(2) _ 1(4)]] 1(3,4) e by simp
  qed
qed

lemma finite_component: "finite (component tb sid)"
proof -
  let ?U = "insert sid (\<Union>r \<in> set (tb_sessions tb). set (row_ids r)) \<union> (\<Union>x \<in> set (tb_subagents tb). set (sub_ids tb x))"
  have "b \<in> ?U" if "(linked tb)\<^sup>*\<^sup>* sid b" for b
    using that by (induction rule: rtranclp_induct) (auto simp: linked_def)
  then have "component tb sid \<subseteq> ?U" by (auto simp: component_def)
  then show ?thesis by (rule finite_subset) simp
qed

definition component_agents :: "lifecycle_tables \<Rightarrow> string \<Rightarrow> subagent_row list" where
  "component_agents tb sid = filter (\<lambda>x. \<exists>a \<in> component tb sid. sub_touches [a] x) (tb_subagents tb)"

lemma length_by_ids:
  assumes "distinct (map f xs)" "f ` set xs \<subseteq> A" "finite A"
  shows "length xs \<le> card A"
  using card_mono[OF assms(3,2)] distinct_card[OF assms(1)] by simp

lemma small_round:
  assumes inv: "closure_inv tb sid s" and ids: "distinct (map ls_session_id (tb_sessions tb))"
    and small: "card (component tb sid) \<le> 500" "length (component_agents tb sid) \<le> 1000" and live: "\<not> cl_overflow s"
  shows "\<not> cl_overflow (closure_round tb s)"
proof -
  let ?C = "component tb sid"
  define rows where "rows = filter (row_touches (cl_frontier s)) (tb_sessions tb)"
  define subs where "subs = filter (sub_touches (cl_frontier s)) (tb_subagents tb)"
  define seen where "seen = set_adds (cl_frontier s) (cl_seen s)"
  define nb where "nb = filter (\<lambda>i. i \<notin> set seen) (set_adds (concat (map row_ids rows) @ concat (map (sub_ids tb) subs)) [])"
  note fin = finite_component[of tb sid]
  have F: "set (cl_frontier s) \<subseteq> ?C" "set (cl_seen s) \<subseteq> ?C" using inv by (auto simp: closure_inv_def)
  have "distinct seen" using inv by (simp add: seen_def distinct_set_adds closure_inv_def)
  then have seen: "length seen \<le> 500" using length_by_ids[of id seen ?C] F fin small(1) by (simp add: seen_def)
  have own: "ls_session_id r \<in> ?C" if "r \<in> set rows" for r
  proof -
    have "touching (set (cl_frontier s)) r" "r \<in> set (tb_sessions tb)" using that by (simp_all add: rows_def row_touches_iff)
    from touching_own_id[OF this] show ?thesis using F(1) component_step by blast
  qed
  have "distinct (map ls_session_id rows)" using ids by (simp add: rows_def distinct_map_filter)
  then have rows: "length rows \<le> 500" using length_by_ids[of ls_session_id rows ?C] image_subsetI[of "set rows" ls_session_id ?C, OF own] fin small(1) by linarith
  have "length subs \<le> length (component_agents tb sid)"
  proof -
    have "subs = filter (sub_touches (cl_frontier s)) (component_agents tb sid)"
      using F(1) unfolding subs_def component_agents_def filter_filter by (intro filter_cong) (auto simp: sub_touches_iff[of "cl_frontier s"])
    then show ?thesis by (simp add: length_filter_le)
  qed
  then have subs: "length subs \<le> 1000" using small(2) by simp
  let ?S = "{r \<in> set (tb_sessions tb). touching (set (cl_seen s)) r}" and ?m = "fold (\<lambda>r. jm_set (ls_session_id r) r) rows (cl_members s)"
  have inj: "inj_on ls_session_id (set rows \<union> ?S)" using ids by (auto simp: rows_def distinct_map intro: inj_on_subset)
  have m: "jm_wf ?m" "set ?m = (\<lambda>r. (ls_session_id r, r)) ` (set rows \<union> ?S)" using fold_members[OF inj] inv by (simp_all add: closure_inv_def)
  have "ls_session_id r \<in> ?C" if "r \<in> ?S" for r
    using touching_own_id[of "set (cl_seen s)" r tb] that F(2) component_step by blast
  then have "fst ` set ?m \<subseteq> ?C" unfolding m(2) using own by auto
  then have members: "length ?m \<le> 500" using length_by_ids[OF m(1) _ fin] small(1) by linarith
  have nbC: "set nb \<subseteq> ?C"
  proof
    fix b assume "b \<in> set nb"
    then have "\<exists>a \<in> set (cl_frontier s). linked tb a b"
      by (auto simp: nb_def rows_def subs_def linked_def row_touches_iff[of "cl_frontier s"] touching_def sub_touches_iff[of "cl_frontier s"])
    then show "b \<in> ?C" using F(1) component_step by blast
  qed
  have "distinct nb" by (simp add: nb_def distinct_set_adds)
  then have nb: "length nb \<le> 500" using length_by_ids[of id nb ?C] nbC fin small(1) by simp
  have "take 1001 rows = rows" "take 1001 subs = subs" using rows subs by simp_all
  then show ?thesis
    using seen rows subs members nb live unfolding closure_round_def Let_def rows_def[symmetric] subs_def[symmetric] seen_def[symmetric] nb_def by simp
qed

lemma small_component_completes:
  assumes "closure_inv tb sid s" "\<not> cl_overflow s" "distinct (map ls_session_id (tb_sessions tb))"
    "card (component tb sid) \<le> 500" "length (component_agents tb sid) \<le> 1000"
  shows "\<not> cl_overflow (close_dependencies tb s)"
  using assms
proof (induction tb s rule: close_dependencies.induct)
  case (1 tb s)
  show ?case
  proof (cases "cl_frontier s = [] \<or> cl_overflow s")
    case True
    then show ?thesis using 1(3) by (simp add: close_dependencies.simps[of tb s])
  next
    case False
    have r: "\<not> cl_overflow (closure_round tb s)" by (rule small_round[OF 1(2,4,5,6,3)])
    from 1(1)[OF False closure_round_inv[OF 1(2) r 1(4)] r 1(4,5,6)] show ?thesis using False by (simp add: close_dependencies.simps[of tb s])
  qed
qed

lemma closure_start: "closure_inv tb sid \<lparr>cl_members = [], cl_seen = [], cl_buckets = [], cl_frontier = [sid], cl_overflow = False\<rparr>"
  by (simp add: closure_inv_def component_def touching_def)

lemma closed_contains_component:
  assumes "closure_inv tb sid s" "cl_frontier s = []"
  shows "set (cl_seen s) = component tb sid"
proof -
  have "b \<in> set (cl_seen s)" if "(linked tb)\<^sup>*\<^sup>* sid b" for b
    using that by (induction rule: rtranclp_induct) (use assms in \<open>auto simp: closure_inv_def\<close>)
  then show ?thesis using assms(1) by (auto simp: closure_inv_def component_def)
qed


text \<open>
  A new child counts twice against the limit, as a member and as a part of the next frontier: a root with
  500 children overflows, although its component has 501 identifiers.
\<close>

lemma wide_root_overflows:
  assumes tb: "tb_sessions tb = root # kids" "tb_subagents tb = []" and ids: "distinct (map ls_session_id (root # kids))"
    and root: "ls_session_id root = sid" "sid \<noteq> []" "ls_parent_session_id root = None" "ls_root_session_id root = None"
    and kids: "\<And>k. k \<in> set kids \<Longrightarrow> ls_parent_session_id k = Some sid \<and> ls_root_session_id k = None"
    and wide: "500 \<le> length kids" "length kids \<le> 999"
  shows "cl_overflow (dependency_closure tb sid)"
proof -
  let ?s = "\<lparr>cl_members = [], cl_seen = [], cl_buckets = [], cl_frontier = [sid], cl_overflow = False\<rparr>"
  let ?nb = "set_adds (concat (map row_ids (root # kids))) []" and ?m = "fold (\<lambda>r. jm_set (ls_session_id r) r) (root # kids) []"
  have rows: "filter (row_touches [sid]) (tb_sessions tb) = root # kids" using root kids by (auto simp: tb row_touches_def intro!: filter_True)
  have inj: "inj_on ls_session_id (set (root # kids))" "distinct (root # kids)" using ids by (simp_all only: distinct_map)
  have "inj_on ls_session_id (set (root # kids) \<union> {})" using inj(1) by (simp only: Un_empty_right)
  from fold_members[OF this, of "[]"] have wf: "distinct (map fst ?m)" and set_m: "set ?m = (\<lambda>r. (ls_session_id r, r)) ` set (root # kids)"
    by (simp_all del: fold_simps list.set(2))
  from wf have "distinct ?m" by (simp only: distinct_map)
  from distinct_card[OF this] have "length ?m = card ((\<lambda>r. (ls_session_id r, r)) ` set (root # kids))" by (simp only: set_m)
  also have "\<dots> = card (set (root # kids))" by (rule card_image) (rule inj_onI, simp)
  also have "\<dots> = Suc (length kids)" using distinct_card[OF inj(2)] by simp
  finally have m: "length ?m = Suc (length kids)" .
  have "set (row_ids k) = {ls_session_id k, sid}" if "k \<in> set kids" for k using kids[OF that] root(2) by (auto simp: row_ids_def truthy_def)
  moreover have "row_ids root = [sid]" using root by (simp add: row_ids_def truthy_def)
  ultimately have "set ?nb = insert sid (ls_session_id ` set kids)" by auto
  moreover have "sid \<notin> ls_session_id ` set kids" using ids root(1) by auto
  ultimately have "set (filter (\<lambda>i. i \<notin> {sid}) ?nb) = ls_session_id ` set kids" by (simp only: set_filter) blast
  then have "length (filter (\<lambda>i. i \<notin> {sid}) ?nb) = card (ls_session_id ` set kids)"
    using distinct_card[of "filter (\<lambda>i. i \<notin> {sid}) ?nb"] by (simp add: distinct_set_adds)
  also have "\<dots> = length kids" using ids distinct_card[of "map ls_session_id kids"] by simp
  finally have "cl_overflow (closure_round tb ?s)"
    using m wide rows unfolding closure_round_def Let_def by (simp add: tb(2) set_adds_def set_add_def)
  then show ?thesis by (simp add: dependency_closure_def close_dependencies.simps[of tb ?s] close_dependencies.simps[of tb "closure_round tb ?s"])
qed

section \<open>Cycles\<close>

definition edges :: "(string, string list) jsmap \<Rightarrow> (string \<times> string) set" where
  "edges g = {(i, p). p \<in> set (jm_get_or g i [])}"

text \<open>The nodes already searched: closed under the edges, on no cycle and not on the current path.\<close>

definition searched :: "(string \<times> string) set \<Rightarrow> string set \<Rightarrow> string set \<Rightarrow> bool" where
  "searched E vd vg \<longleftrightarrow> E `` vd \<subseteq> vd \<and> vd \<inter> vg = {} \<and> (\<forall>v \<in> vd. (v, v) \<notin> E\<^sup>+)"

lemma searched_reach: "searched E vd vg \<Longrightarrow> v \<in> vd \<Longrightarrow> (v, w) \<in> E\<^sup>* \<Longrightarrow> w \<in> vd"
  by (metis Image_closed_trancl rev_ImageI searched_def)

text \<open>A search of one node from a state: it returns, and finds a cycle or adds the node to the searched ones.\<close>

definition search_result :: "(string \<times> string) set \<Rightarrow> string \<Rightarrow> search_state \<Rightarrow> (bool \<times> search_state) option \<Rightarrow> bool" where
  "search_result E i st res \<longleftrightarrow>
     (case res of
        None \<Rightarrow> False
      | Some (True, _) \<Rightarrow> \<not> acyclic E
      | Some (False, st') \<Rightarrow> set (snd st') = set (snd st) \<and> insert i (set (fst st)) \<subseteq> set (fst st') \<and> searched E (set (fst st')) (set (snd st')))"

lemma some_state_searches:
  assumes step: "\<And>x st'. x \<in> set xs \<Longrightarrow> searched E (set (fst st')) (set (snd st')) \<Longrightarrow> set (snd st') = V \<Longrightarrow> search_result E x st' (f x st')"
    and "searched E (set (fst st)) (set (snd st))" "set (snd st) = V"
  shows "case some_state f xs st of
      None \<Rightarrow> False
    | Some (True, _) \<Rightarrow> \<not> acyclic E
    | Some (False, st') \<Rightarrow> set (snd st') = V \<and> set xs \<union> set (fst st) \<subseteq> set (fst st') \<and> searched E (set (fst st')) (set (snd st'))"
  using assms
proof (induction xs arbitrary: st)
  case (Cons x xs)
  have r: "search_result E x st (f x st)" using Cons.prems by simp
  then obtain b st1 where f: "f x st = Some (b, st1)" by (auto simp: search_result_def split: option.splits)
  show ?case
  proof (cases b)
    case True
    then show ?thesis using r f by (simp add: search_result_def)
  next
    case False
    then have 1: "set (snd st1) = V" "insert x (set (fst st)) \<subseteq> set (fst st1)" "searched E (set (fst st1)) (set (snd st1))"
      using r f Cons.prems(3) by (auto simp: search_result_def)
    from Cons.IH[OF Cons.prems(1) 1(3,1)] 1(2) f False show ?thesis
      by (auto split: option.splits bool.splits prod.splits)
  qed
qed simp

lemma cyclic_searches:
  assumes "card (fst ` set g - set vg) < n" "searched (edges g) (set vd) (set vg)" "\<And>v. v \<in> set vg \<Longrightarrow> (v, i) \<in> (edges g)\<^sup>+"
  shows "search_result (edges g) i (vd, vg) (cyclic n g i (vd, vg))"
  using assms
proof (induction n arbitrary: i vd vg)
  case (Suc n)
  let ?E = "edges g" and ?ps = "jm_get_or g i []"
  consider "i \<in> set vg" | "i \<notin> set vg" "i \<in> set vd" | "i \<notin> set vg" "i \<notin> set vd" by blast
  then show ?case
  proof cases
    case 1
    then show ?thesis using Suc.prems(3)[OF 1] by (auto simp: search_result_def acyclic_def)
  next
    case 2
    then show ?thesis using Suc.prems(2) by (auto simp: search_result_def)
  next
    case 3
    have vg': "set (set_add i vg) = insert i (set vg)" by (auto simp: set_add_def)
    have s0: "searched ?E (set vd) (set (set_add i vg))" using Suc.prems(2) 3 unfolding vg' by (simp add: searched_def)
    have step: "search_result ?E p st (cyclic n g p st)" if p: "p \<in> set ?ps" and st: "searched ?E (set (fst st)) (set (snd st))" "set (snd st) = insert i (set vg)" for p st
    proof -
      have key: "i \<in> fst ` set g" using p by (cases "jm_get g i") (auto simp: jm_get_or_def dest: map_of_SomeD intro: rev_image_eqI)
      have "fst ` set g - insert i (set vg) \<subset> fst ` set g - set vg" using key 3 by auto
      then have "card (fst ` set g - insert i (set vg)) < card (fst ` set g - set vg)" by (intro psubset_card_mono) auto
      then have c: "card (fst ` set g - set (snd st)) < n" using Suc.prems(1) st(2) by simp
      have e: "(i, p) \<in> ?E" using p by (simp add: edges_def)
      have "(v, p) \<in> ?E\<^sup>+" if "v \<in> set (snd st)" for v using that e st(2) Suc.prems(3)[of v] by (auto intro: trancl_into_trancl)
      from Suc.IH[OF c _ this] st(1) show ?thesis by (cases st) simp
    qed
    let ?r = "some_state (cyclic n g) ?ps (vd, set_add i vg)"
    have r: "case ?r of None \<Rightarrow> False | Some (True, _) \<Rightarrow> \<not> acyclic ?E
      | Some (False, st') \<Rightarrow> set (snd st') = insert i (set vg) \<and> set ?ps \<union> set vd \<subseteq> set (fst st') \<and> searched ?E (set (fst st')) (set (snd st'))"
      using some_state_searches[of ?ps ?E "insert i (set vg)" "cyclic n g" "(vd, set_add i vg)", OF step] s0 vg'
      by (auto split: option.splits prod.splits bool.splits)
    then obtain b vd1 vg1 where rr: "?r = Some (b, vd1, vg1)" by (cases ?r) auto
    show ?thesis
    proof (cases b)
      case True
      then show ?thesis using r rr 3 by (simp add: search_result_def)
    next
      case False
      then have 1: "set vg1 = insert i (set vg)" "set ?ps \<union> set vd \<subseteq> set vd1" "searched ?E (set vd1) (set vg1)" using r rr by auto
      have "(i, i) \<notin> ?E\<^sup>+"
      proof
        assume "(i, i) \<in> ?E\<^sup>+"
        then obtain p where p: "(i, p) \<in> ?E" "(p, i) \<in> ?E\<^sup>*" by (metis tranclD)
        then have "p \<in> set vd1" using 1(2) by (auto simp: edges_def)
        from searched_reach[OF 1(3) this p(2)] show False using 1(1,3) by (auto simp: searched_def)
      qed
      moreover have "?E `` insert i (set vd1) \<subseteq> insert i (set vd1)" using 1(2,3) by (auto simp: searched_def edges_def)
      ultimately have "searched ?E (insert i (set vd1)) (set vg)" using 1(1,3) 3 by (auto simp: searched_def)
      moreover have "set (set_add i vd1) = insert i (set vd1)" by (auto simp: set_add_def)
      moreover have "set (filter (\<lambda>x. x \<noteq> i) vg1) = set vg" using 1(1) 3 by auto
      ultimately show ?thesis using rr False 3 1(2) by (simp add: search_result_def) blast
    qed
  qed
qed simp

lemma ancestry_get:
  assumes "distinct (map ls_session_id rows)"
  shows "jm_get (fold (\<lambda>r. jm_set (ls_session_id r) (ancestors r)) rows m) i
    = (case find (\<lambda>r. ls_session_id r = i) rows of None \<Rightarrow> jm_get m i | Some r \<Rightarrow> Some (ancestors r))"
  using assms
proof (induction rows arbitrary: m)
  case (Cons r rows)
  have "ls_session_id r \<notin> ls_session_id ` set rows" using Cons.prems by simp
  then have "x \<in> set rows \<Longrightarrow> ls_session_id x \<noteq> ls_session_id r" for x by (metis imageI)
  then have "find (\<lambda>x. ls_session_id x = i) rows = None" if "ls_session_id r = i"
    using that by (auto simp: find_None_iff)
  then show ?case using Cons by (auto split: option.splits)
qed simp

definition ancestor_edges :: "lifecycle_session list \<Rightarrow> (string \<times> string) set" where
  "ancestor_edges rows = {(ls_session_id r, p) | r p. r \<in> set rows \<and> p \<in> set (ancestors r)}"

lemma ancestor_edgeI: "r \<in> set rows \<Longrightarrow> p \<in> set (ancestors r) \<Longrightarrow> (ls_session_id r, p) \<in> ancestor_edges rows"
  by (auto simp: ancestor_edges_def)

lemma edges_ancestry:
  assumes "distinct (map ls_session_id rows)"
  shows "edges (ancestry_of rows) = ancestor_edges rows"
proof -
  have "p \<in> set (jm_get_or (ancestry_of rows) i []) \<longleftrightarrow> (\<exists>r \<in> set rows. ls_session_id r = i \<and> p \<in> set (ancestors r))" for i p
  proof (cases "find (\<lambda>r. ls_session_id r = i) rows")
    case None
    then have "jm_get (ancestry_of rows) i = None" using ancestry_get[OF assms, of "[]" i] by (simp add: ancestry_of_def)
    then show ?thesis using None by (auto simp: find_None_iff)
  next
    case (Some r)
    then have "r \<in> set rows" "ls_session_id r = i" by (auto simp: find_Some_iff)
    then show ?thesis using Some ancestry_get[OF assms, of "[]" i] assms
      by (auto simp: jm_get_or_def ancestry_of_def distinct_map dest: inj_onD)
  qed
  then show ?thesis by (auto simp: edges_def ancestor_edges_def)
qed

lemma some_state_append:
  "some_state f (xs @ ys) st =
     (case some_state f xs st of None \<Rightarrow> None | Some (True, st') \<Rightarrow> Some (True, st') | Some (False, st') \<Rightarrow> some_state f ys st')"
  by (induction xs arbitrary: st) (auto split: option.splits prod.splits bool.splits)

definition self_parent :: "lifecycle_session \<Rightarrow> bool" where
  "self_parent r \<longleftrightarrow> ls_parent_session_id r = Some (ls_session_id r)"

lemma some_state_rows:
  "\<not> (\<exists>r \<in> set rows. self_parent r) \<Longrightarrow> some_state (row_cyclic n g) rows st = some_state (cyclic n g) (map ls_session_id rows) st"
  by (induction rows arbitrary: st) (auto simp: row_cyclic_def self_parent_def split: option.splits prod.splits bool.splits)

lemma rows_searched:
  assumes "length g < n"
  shows "case some_state (cyclic n g) is ([], []) of
      None \<Rightarrow> False
    | Some (True, _) \<Rightarrow> \<not> acyclic (edges g)
    | Some (False, st') \<Rightarrow> set (snd st') = {} \<and> set is \<union> set [] \<subseteq> set (fst st') \<and> searched (edges g) (set (fst st')) (set (snd st'))"
proof -
  have "card (fst ` set g) < n" using card_image_le[of "set g" fst] card_length[of g] assms by simp
  then have "search_result (edges g) x st (cyclic n g x st)" if "searched (edges g) (set (fst st)) (set (snd st))" "set (snd st) = {}" for x st
    using cyclic_searches[of g "snd st" n "fst st" x] that by simp
  moreover have "searched (edges g) {} {}" by (simp add: searched_def)
  ultimately show ?thesis using some_state_searches[of "is" "edges g" "{}" "cyclic n g" "([], [])"]
    by (auto split: option.splits prod.splits bool.splits)
qed

lemma length_ancestry: "length (ancestry_of rows) \<le> length rows"
proof -
  have "length (fold (\<lambda>r. jm_set (ls_session_id r) (ancestors r)) rows m) \<le> length rows + length m" for m
  proof (induction rows arbitrary: m)
    case (Cons r rows)
    from Cons.IH[of "jm_set (ls_session_id r) (ancestors r) m"] length_jm_set_le[of "ls_session_id r" "ancestors r" m] show ?case by simp
  qed simp
  from this[of "[]"] show ?thesis by (simp add: ancestry_of_def)
qed

lemma cycles_without_self_parent:
  assumes "distinct (map ls_session_id rows)" "\<not> (\<exists>r \<in> set rows. self_parent r)"
  shows "cyclic_members rows = Some (\<not> acyclic (ancestor_edges rows))"
proof -
  let ?n = "length rows + 2" and ?g = "ancestry_of rows"
  note E = edges_ancestry[OF assms(1)]
  have n: "length ?g < ?n" using length_ancestry[of rows] by simp
  obtain b st where r: "some_state (cyclic ?n ?g) (map ls_session_id rows) ([], []) = Some (b, st)"
    using rows_searched[OF n, of "map ls_session_id rows"] by (auto split: option.splits)
  have "b \<longleftrightarrow> \<not> acyclic (ancestor_edges rows)"
  proof (cases b)
    case True
    then show ?thesis using rows_searched[OF n, of "map ls_session_id rows"] r E by simp
  next
    case False
    then have all: "ls_session_id ` set rows \<subseteq> set (fst st)" "searched (ancestor_edges rows) (set (fst st)) (set (snd st))"
      using rows_searched[OF n, of "map ls_session_id rows"] r E by auto
    have "v \<in> ls_session_id ` set rows" if "(v, w) \<in> (ancestor_edges rows)\<^sup>+" for v w
      using that by (induction rule: trancl_induct) (auto simp: ancestor_edges_def)
    then have "acyclic (ancestor_edges rows)" using all unfolding acyclic_def searched_def by blast
    then show ?thesis using False by simp
  qed
  then show ?thesis using assms(2) r by (simp add: cyclic_members_def some_state_rows)
qed

lemma cycles_with_self_parent:
  assumes "\<exists>r \<in> set rows. self_parent r"
  shows "cyclic_members rows = Some True"
proof -
  let ?n = "length rows + 2" and ?g = "ancestry_of rows"
  have n: "length ?g < ?n" using length_ancestry[of rows] by simp
  obtain xs y ys where split: "rows = xs @ y # ys" "self_parent y" "\<not> (\<exists>r \<in> set xs. self_parent r)"
    using split_list_first_prop[of rows self_parent] assms by auto
  obtain b st where r: "some_state (cyclic ?n ?g) (map ls_session_id xs) ([], []) = Some (b, st)"
    using rows_searched[OF n, of "map ls_session_id xs"] by (auto split: option.splits)
  have "row_cyclic ?n ?g y st = Some (True, st)" using split(2) by (simp add: row_cyclic_def self_parent_def)
  then have "map_option fst (some_state (row_cyclic ?n ?g) (xs @ y # ys) ([], [])) = Some True"
    using r split(3) by (cases b) (simp_all add: some_state_append some_state_rows)
  then show ?thesis using split(1) by (simp add: cyclic_members_def)
qed

text \<open>
  C23. The search for a cycle always returns and is exact: it reports one precisely when a member is its
  own parent or the ancestors of the members run in a circle.
\<close>

theorem ancestor_cycles_are_found:
  assumes "distinct (map ls_session_id rows)"
  shows "cyclic_members rows = Some ((\<exists>r \<in> set rows. ls_parent_session_id r = Some (ls_session_id r)) \<or> \<not> acyclic (ancestor_edges rows))"
  using cycles_without_self_parent[OF assms] cycles_with_self_parent[of rows]
  by (cases "\<exists>r \<in> set rows. self_parent r") (auto simp: self_parent_def)

section \<open>Safe components\<close>

lemma fold_reasons_Nil:
  assumes "\<And>x bl. x \<in> set xs \<Longrightarrow> f x bl = [] \<Longrightarrow> bl = [] \<and> P x"
  shows "fold f xs bl = [] \<Longrightarrow> bl = [] \<and> (\<forall>x \<in> set xs. P x)"
  using assms
proof (induction xs arbitrary: bl)
  case (Cons x xs)
  have "f x bl = [] \<and> (\<forall>y \<in> set xs. P y)"
  proof (rule Cons.IH)
    show "fold f xs (f x bl) = []" using Cons.prems(1) by simp
    show "bl' = [] \<and> P y" if "y \<in> set xs" "f y bl' = []" for y bl' by (rule Cons.prems(2)) (use that in simp_all)
  qed
  then show ?case using Cons.prems(2)[of x bl] by simp
qed simp

definition member_clear :: "lifecycle_tables \<Rightarrow> bool \<Rightarrow> int option \<Rightarrow> lifecycle_session \<Rightarrow> bool" where
  "member_clear tb stale owner r \<longleftrightarrow>
     owner \<noteq> None \<and> ls_user_id r = owner \<and> daemon_owner tb r = owner \<and> ls_content_state r \<notin> {Deleting, Deleted} \<and>
     (stale \<or> ls_activity_verified r \<and> ls_turn_started_at r = None \<and> status_or_null (ls_status r) \<in> set inactiveStatuses)"

lemma member_blockers_Nil:
  "member_blockers tb stale own root r bl = [] \<Longrightarrow> bl = [] \<and> member_clear tb stale (Option.bind root ls_user_id) r"
  by (auto simp: member_blockers_def Let_def member_clear_def)

lemma bucket_blockers_Nil: "bucket_blockers stale b bl = [] \<Longrightarrow> bl = [] \<and> sa_kind b \<in> set bucket_kinds"
  by (simp add: bucket_blockers_def Let_def)

lemma work_blockers_Nil:
  "work_blockers stale p bl = [] \<longleftrightarrow> bl = [] \<and> \<not> pe_admission p \<and> \<not> pe_outbox p \<and> \<not> pe_attention p \<and> \<not> pe_uploads p \<and> \<not> pe_collaboration p \<and>
     \<not> pe_tombstone p \<and> \<not> pe_extension p \<and> \<not> pe_projection p \<and> (stale \<or> pe_inbox p \<le> 0 \<and> pe_effects p \<le> 0)"
  by (auto simp: work_blockers_def)

lemma all_blockers_Nil:
  assumes "all_blockers tb s sid cyc stale own rows p = []"
  shows "\<not> cl_overflow s \<and> jm_get (cl_members s) sid \<noteq> None \<and> (\<forall>i \<in> set (cl_seen s). jm_get (cl_members s) i \<noteq> None) \<and> \<not> cyc"
    and "\<forall>r \<in> set rows. member_clear tb stale (Option.bind (jm_get (cl_members s) sid) ls_user_id) r"
    and "work_blockers stale p [] = []"
proof -
  let ?c = "closure_blockers s sid cyc" and ?root = "jm_get (cl_members s) sid"
  have w: "fold (bucket_blockers stale) (map snd (cl_buckets s)) (fold (member_blockers tb stale own ?root) rows ?c) = []"
    and "work_blockers stale p [] = []" using assms by (simp_all add: all_blockers_def work_blockers_Nil)
  then show "work_blockers stale p [] = []" by simp
  have "fold (member_blockers tb stale own ?root) rows ?c = []"
    using fold_reasons_Nil[of "map snd (cl_buckets s)" "bucket_blockers stale" "\<lambda>_. True", OF _ w] bucket_blockers_Nil by blast
  from fold_reasons_Nil[of rows "member_blockers tb stale own ?root" "member_clear tb stale (Option.bind ?root ls_user_id)", OF member_blockers_Nil this]
  have c: "?c = []" and m: "\<forall>r \<in> set rows. member_clear tb stale (Option.bind ?root ls_user_id) r" by simp_all
  show "\<forall>r \<in> set rows. member_clear tb stale (Option.bind ?root ls_user_id) r" by (rule m)
  show "\<not> cl_overflow s \<and> ?root \<noteq> None \<and> (\<forall>i \<in> set (cl_seen s). jm_get (cl_members s) i \<noteq> None) \<and> \<not> cyc"
    using c by (auto simp: closure_blockers_def list_all_iff)
qed

lemma member_rows_set: "set (member_rows collation s) = snd ` set (cl_members s)"
  by (simp add: member_rows_def)

lemma distinct_sorted_map: "distinct (map f xs) \<Longrightarrow> distinct (map f (sort_key k xs))"
  using mset_eq_imp_distinct_iff[of "map f (sort_key k xs)" "map f xs"] by (simp add: mset_map)

lemma closed_members:
  assumes ids: "distinct (map ls_session_id (tb_sessions tb))" and ok: "\<not> cl_overflow (dependency_closure tb sid)"
    and all: "\<forall>i \<in> set (cl_seen (dependency_closure tb sid)). jm_get (cl_members (dependency_closure tb sid)) i \<noteq> None"
    and rows_def: "rows = member_rows collation (dependency_closure tb sid)"
  shows "set (map ls_session_id rows) = component tb sid" "distinct (map ls_session_id rows)"
    "set rows = {r \<in> set (tb_sessions tb). touching (component tb sid) r}"
proof -
  let ?s = "dependency_closure tb sid"
  have inv: "closure_inv tb sid ?s" and f: "cl_frontier ?s = []"
    using close_dependencies_inv[OF closure_start _ ids] ok by (simp_all add: dependency_closure_def)
  note seen = closed_contains_component[OF inv f]
  have m: "set (cl_members ?s) = (\<lambda>r. (ls_session_id r, r)) ` {r \<in> set (tb_sessions tb). touching (component tb sid) r}" and wf: "jm_wf (cl_members ?s)"
    using inv seen by (simp_all add: closure_inv_def)
  then show rows: "set rows = {r \<in> set (tb_sessions tb). touching (component tb sid) r}"
    by (auto simp: rows_def member_rows_set image_iff)
  have "b \<in> ls_session_id ` set rows" if "b \<in> component tb sid" for b
  proof -
    have "b \<in> set (cl_seen ?s)" using that seen by simp
    then obtain r where "jm_get (cl_members ?s) b = Some r" using all by blast
    then have "(b, r) \<in> set (cl_members ?s)" by (rule map_of_SomeD)
    then show ?thesis using m rows by auto
  qed
  moreover have "ls_session_id r \<in> component tb sid" if "r \<in> set rows" for r
    using that rows touching_own_id[of "component tb sid" r tb] component_step by blast
  ultimately show "set (map ls_session_id rows) = component tb sid" by auto
  have e: "map ls_session_id (map snd (cl_members ?s)) = map fst (cl_members ?s)" using m by (auto simp: image_iff)
  have "distinct (map ls_session_id (map snd (cl_members ?s)))" unfolding e by (rule wf)
  then show "distinct (map ls_session_id rows)" unfolding rows_def member_rows_def by (rule distinct_sorted_map)
qed

lemma inspection_parts:
  assumes "inspectLifecycleEligibility collation tb clock sid cfg own = Some e"
  defines "s \<equiv> dependency_closure tb sid"
  defines "rows \<equiv> member_rows collation s"
  defines "p \<equiv> pending_work tb (map ls_session_id rows)"
  obtains cyc latest latestAt hist clockText stale where
    "cyclic_members rows = Some cyc" "stale = stale_snapshot tb cfg clock latest (cl_overflow s) (jm_get (cl_members s) sid) rows (map snd (cl_buckets s))"
    "el_root e = jm_get (cl_members s) sid" "el_members e = rows" "el_sessionIds e = map ls_session_id rows" "(el_staleEvidence e \<noteq> None) = stale"
    "evaluateLifecycle (lifecycle_input tb own (jm_get (cl_members s) sid) rows stale latestAt hist (all_blockers tb s sid cyc stale own rows p)) (StampText clockText) cfg
       = Some (el_prediction e)"
  using assms(1) unfolding inspectLifecycleEligibility_def Let_def s_def[symmetric] rows_def[symmetric] p_def[symmetric]
  by (auto simp: Option.bind_eq_Some_conv split: if_splits)


section \<open>A concrete component\<close>

definition eligible_session :: lifecycle_session where
  "eligible_session = \<lparr>ls_id = 1, ls_session_id = ''a'', ls_user_id = Some 1, ls_daemon_id = Some ''d'', ls_parent_session_id = None,
     ls_root_session_id = None, ls_control_mode = None, ls_status = Some ''idle'', ls_title = None, ls_source = None, ls_archive_reason = None,
     ls_archived_at = None, ls_content_state = Hot, ls_cooling_operation_id = None, ls_organization_revision = 0, ls_activity_epoch = 0,
     ls_activity_verified = True, ls_last_business_activity_at = None, ls_last_activity_at = Some 0, ls_turn_started_at = None, ls_created_at = Some 0\<rparr>"

definition eligible_tables :: lifecycle_tables where
  "eligible_tables = \<lparr>tb_sessions = [eligible_session], tb_hosts = [\<lparr>hs_daemon_id = ''d'', hs_user_id = Some 1, hs_alias = None, hs_hostname = None\<rparr>],
     tb_subagents = [], tb_team_sessions = [], tb_admissions = [], tb_reservations = [], tb_outbox = [], tb_attention = [], tb_uploads = [], tb_calls = [],
     tb_deleted = [], tb_extension_outbox = [], tb_events = [], tb_projection_cursor = None, tb_inbox = [], tb_documents = []\<rparr>"

definition eligible_config :: SessionLifecycleConfig where
  "eligible_config = sample_lifecycle_config\<lparr>lc_effectiveAt := None, lc_transitionDeadline := None\<rparr>"

abbreviation eligible_closure :: closure_state where
  "eligible_closure \<equiv> \<lparr>cl_members = [(''a'', eligible_session)], cl_seen = [''a''], cl_buckets = [], cl_frontier = [], cl_overflow = False\<rparr>"

abbreviation no_pending :: lifecycle_pending where
  "no_pending \<equiv> \<lparr>pe_admission = False, pe_outbox = False, pe_attention = False, pe_uploads = False, pe_collaboration = False,
     pe_tombstone = False, pe_extension = False, pe_projection = False, pe_effects = 0, pe_inbox = 0, pe_latest_data_at = None\<rparr>"

lemma eligible_round:
  "closure_round eligible_tables \<lparr>cl_members = [], cl_seen = [], cl_buckets = [], cl_frontier = [''a''], cl_overflow = False\<rparr> = eligible_closure"
  by (simp add: closure_round_def eligible_tables_def row_touches_def eligible_session_def set_adds_def set_add_def row_ids_def truthy_def add_buckets_def)

lemma eligible_closed: "dependency_closure eligible_tables ''a'' = eligible_closure"
  by (simp add: dependency_closure_def eligible_round close_dependencies.simps[of _ "\<lparr>cl_members = _, cl_seen = _, cl_buckets = _, cl_frontier = _, cl_overflow = _\<rparr>"])

lemma eligible_rows: "member_rows (\<lambda>_. []) eligible_closure = [eligible_session]"
  by (simp add: member_rows_def)

lemma eligible_acyclic: "cyclic_members [eligible_session] = Some False"
  by (simp add: cyclic_members_def row_cyclic_def ancestry_of_def ancestors_def eligible_session_def truthy_def jm_get_or_def set_add_def eval_nat_numeral)

lemma eligible_pending: "pending_work eligible_tables [''a''] = no_pending"
  by (simp add: pending_work_def eligible_tables_def greatest_def)

lemma eligible_stamps:
  "microsTimestamp 0 = Some ''1970-01-01T00:00:00.000000Z''" "microsTimestamp 8640000000000 = Some ''1970-04-11T00:00:00.000000Z''"
  "timestampMicros ''1970-01-01T00:00:00.000000Z'' = Some 0" "timestampMicros ''1970-04-11T00:00:00.000000Z'' = Some 8640000000000"
  by (code_simp, code_simp, (simp add: timestamp_defs replicate_five)+)

lemma eligible_latest: "latest_micros (activity_sources [eligible_session] [] no_pending) = Some (Some 0)"
  by (simp add: activity_sources_def activity_time_def stamp_column_def eligible_session_def eligible_stamps text_source_def truthy_def
      date_column_def latest_micros_def greatest_def)

lemma eligible_stale: "stale_snapshot eligible_tables eligible_config 8640000000000 (Some 0) False (Some eligible_session) [eligible_session] []"
  by (simp add: stale_snapshot_def eligible_config_def sample_lifecycle_config_def trunc_div_def daemon_owner_def eligible_tables_def
      eligible_session_def status_or_null_def known_status_def inactiveStatuses_def)

lemma eligible_blockers: "all_blockers eligible_tables eligible_closure ''a'' False True [] [eligible_session] no_pending = []"
  by (simp add: all_blockers_def closure_blockers_def member_blockers_def work_blockers_def daemon_owner_def eligible_tables_def eligible_session_def Let_def)

lemma eligible_evaluation:
  "map_option ev_action (evaluateLifecycle (lifecycle_input eligible_tables [] (Some eligible_session) [eligible_session] True
     (Some ''1970-01-01T00:00:00.000000Z'') False []) (StampText ''1970-04-11T00:00:00.000000Z'') eligible_config) = Some (Some Purge)"
  by (simp add: evaluateLifecycle_def lifecycle_input_def demo_member_def starts_with_def eligible_tables_def eligible_session_def eligible_config_def
      sample_lifecycle_config_def eligible_stamps not_effective_def state_reasons_def Let_def add_reason_def distinct_reasons_def is_safe_integer_def
      MAX_SAFE_INTEGER_def dated_evaluation_def purge_time_def due_action_def microsTimestamp_def DAY_US_def)

lemma eligible_inspection:
  "map_option (\<lambda>e. ev_action (el_prediction e)) (inspectLifecycleEligibility (\<lambda>_. []) eligible_tables 8640000000000 ''a'' eligible_config []) = Some (Some Purge)"
proof -
  have i: "ls_session_id eligible_session = ''a''" by (simp add: eligible_session_def)
  have h: "historical_member eligible_config [eligible_session] = Some False" by (simp add: historical_member_def absent_def eligible_config_def)
  show ?thesis unfolding inspectLifecycleEligibility_def Let_def
    by (simp add: eligible_closed eligible_rows i eligible_pending eligible_acyclic eligible_latest eligible_stale eligible_blockers h eligible_stamps(1,2)
        option.map_comp comp_def eligible_evaluation)
qed


definition circular_sessions :: "lifecycle_session list" where
  "circular_sessions = [eligible_session\<lparr>ls_parent_session_id := Some ''b''\<rparr>, eligible_session\<lparr>ls_session_id := ''b'', ls_parent_session_id := Some ''a''\<rparr>]"

theorem ancestor_cycles_are_found_witness: "cyclic_members circular_sessions = Some True"
proof -
  have "(''a'', ''b'') \<in> ancestor_edges circular_sessions" "(''b'', ''a'') \<in> ancestor_edges circular_sessions"
    using ancestor_edgeI[of "circular_sessions ! 0" circular_sessions "''b''"] ancestor_edgeI[of "circular_sessions ! 1" circular_sessions "''a''"]
    by (simp_all add: circular_sessions_def ancestors_def truthy_def eligible_session_def)
  then have "\<not> acyclic (ancestor_edges circular_sessions)" unfolding acyclic_def by (meson trancl.r_into_trancl trancl_trans)
  moreover have "distinct (map ls_session_id circular_sessions)" by (simp add: circular_sessions_def eligible_session_def)
  ultimately show ?thesis using ancestor_cycles_are_found[of circular_sessions] by simp
qed


end
