(* ===== verification/Team_Plan.thy ===== *)
theory Team_Plan
  imports Prelude
begin

text \<open>
  The contracts of team tasks: the validation of a task plan with its topological order
  (\<open>relay/src/team/plan-contract.ts\<close>) and of review policies, submissions and acceptances
  (\<open>delivery-contract.ts\<close>), and the budget of a plan (\<open>budget-service.ts\<close>). A validator of the
  code returns or throws a \<open>TeamRepositoryError\<close>; here it returns the error it throws, or nothing, and
  \<open>first_error\<close> runs validators one after the other. A request is the value \<open>JSON.parse\<close> made of it.
  \<open>sha256\<close> is the digest of \<open>node:crypto\<close> and \<open>collation\<close> the sort key \<open>localeCompare\<close> compares.
\<close>

section \<open>Errors\<close>

text \<open>The code, the message and the revision of a \<open>TeamRepositoryError\<close>.\<close>

record team_failure =
  tf_code :: string
  tf_message :: string
  tf_current_revision :: "int option"

definition TeamRepositoryError :: "string \<Rightarrow> string \<Rightarrow> team_failure" where
  "TeamRepositoryError code m = \<lparr>tf_code = code, tf_message = m, tf_current_revision = None\<rparr>"

definition deliveryInvalid :: "string \<Rightarrow> team_failure" where
  "deliveryInvalid m = TeamRepositoryError ''invalid_request'' m"

definition refuse_if :: "bool \<Rightarrow> string \<Rightarrow> team_failure option" where
  "refuse_if b m = (if b then Some (deliveryInvalid m) else None)"

primrec first_error :: "'e option list \<Rightarrow> 'e option" where
  "first_error [] = None"
| "first_error (c # cs) = (case c of Some e \<Rightarrow> Some e | None \<Rightarrow> first_error cs)"

lemma first_error_None [simp]: "first_error cs = None \<longleftrightarrow> (\<forall>c \<in> set cs. c = None)"
  by (induction cs) (auto split: option.splits)

lemma refuse_if_None [simp]: "refuse_if b m = None \<longleftrightarrow> \<not> b"
  by (simp add: refuse_if_def)

section \<open>Fields\<close>

definition obj_field :: "json \<Rightarrow> string \<Rightarrow> json option" where
  "obj_field v k = (case v of JObj fs \<Rightarrow> map_of fs k | _ \<Rightarrow> None)"

text \<open>\<open>!value || typeof value !== 'object' || Array.isArray(value) || Object.keys(value).some(...)\<close>.\<close>

definition closed_object :: "json \<Rightarrow> string list \<Rightarrow> bool" where
  "closed_object v allowed = (case v of JObj fs \<Rightarrow> list_all (\<lambda>(k, _). k \<in> set allowed) fs | _ \<Rightarrow> False)"

definition array_items :: "json option \<Rightarrow> json list" where
  "array_items v = (case v of Some (JArr xs) \<Rightarrow> xs | _ \<Rightarrow> [])"

definition is_array :: "json option \<Rightarrow> bool" where
  "is_array v = (case v of Some (JArr _) \<Rightarrow> True | _ \<Rightarrow> False)"

definition is_str :: "json \<Rightarrow> bool" where
  "is_str v = (case v of JStr _ \<Rightarrow> True | _ \<Rightarrow> False)"

definition str_of :: "json \<Rightarrow> string" where
  "str_of v = (case v of JStr s \<Rightarrow> s | _ \<Rightarrow> [])"

definition is_bool :: "json option \<Rightarrow> bool" where
  "is_bool v = (case v of Some (JBool _) \<Rightarrow> True | _ \<Rightarrow> False)"

definition is_object :: "json \<Rightarrow> bool" where
  "is_object v = (case v of JObj _ \<Rightarrow> True | JArr _ \<Rightarrow> True | _ \<Rightarrow> False)"

definition strings_of :: "json option \<Rightarrow> string list" where
  "strings_of v = map str_of (array_items v)"

text \<open>\<open>/^[a-zA-Z0-9_-]{1,n}$/\<close>.\<close>

definition identifier_text :: "nat \<Rightarrow> string \<Rightarrow> bool" where
  "identifier_text k s = (s \<noteq> [] \<and> length s \<le> k \<and>
     list_all (\<lambda>c. let n = (of_char c :: nat) in
       (97 \<le> n \<and> n \<le> 122) \<or> (65 \<le> n \<and> n \<le> 90) \<or> (48 \<le> n \<and> n \<le> 57) \<or> n = 95 \<or> n = 45) s)"

text \<open>\<open>[a-f0-9]\<close>, and with the flag \<open>i\<close> also \<open>[A-F]\<close>.\<close>

definition hex_digit :: "bool \<Rightarrow> char \<Rightarrow> bool" where
  "hex_digit i c = (let n = (of_char c :: nat) in
     (97 \<le> n \<and> n \<le> 102) \<or> (48 \<le> n \<and> n \<le> 57) \<or> (i \<and> 65 \<le> n \<and> n \<le> 70))"

text \<open>\<open>/^[a-f0-9]{8}-(?:[a-f0-9]{4}-){3}[a-f0-9]{12}$/\<close>, with or without the flag \<open>i\<close>.\<close>

definition uuid_text :: "bool \<Rightarrow> string \<Rightarrow> bool" where
  "uuid_text i s = (length s = 36 \<and>
     list_all (\<lambda>n. if n \<in> {8, 13, 18, 23} then s ! n = CHR ''-'' else hex_digit i (s ! n)) [0..<36])"

section \<open>Primitive validators\<close>

definition boundedText :: "json option \<Rightarrow> string \<Rightarrow> nat \<Rightarrow> bool \<Rightarrow> team_failure option" where
  "boundedText v name limit blank = refuse_if
     (case v of
        Some (JStr s) \<Rightarrow> (\<not> blank \<and> js_trim s = []) \<or> limit < length s \<or> CHR 0x00 \<in> set s
      | _ \<Rightarrow> True) (name @ '' is invalid'')"

definition safe_at_least :: "int \<Rightarrow> json option \<Rightarrow> bool" where
  "safe_at_least k v = (case v of Some (JNum n) \<Rightarrow> is_safe_integer n \<and> k \<le> n | _ \<Rightarrow> False)"

definition positiveRevision :: "json option \<Rightarrow> team_failure option" where
  "positiveRevision v = refuse_if (\<not> safe_at_least 1 v) ''revision must be a positive integer''"

definition stringList :: "json option \<Rightarrow> string \<Rightarrow> team_failure option" where
  "stringList v name = first_error
     [refuse_if (\<not> is_array v \<or> 32 < length (array_items v)) (name @ '' is invalid''),
      first_error (map (\<lambda>x. boundedText (Some x) name 120 False) (array_items v)),
      refuse_if (\<not> distinct (array_items v)) (name @ '' must be unique'')]"

definition validateReviewPolicy :: "json option \<Rightarrow> team_failure option" where
  "validateReviewPolicy v =
     (case v of
        Some (JObj fs) \<Rightarrow> first_error
          [refuse_if (\<not> closed_object (JObj fs) [''reviewer_user_id'', ''primary_offer_id'', ''required_checks'']) ''unexpected review policy field'',
           boundedText (map_of fs ''primary_offer_id'') ''primary_offer_id'' 128 False,
           positiveRevision (map_of fs ''reviewer_user_id''),
           stringList (map_of fs ''required_checks'') ''required_checks'']
      | _ \<Rightarrow> Some (deliveryInvalid ''review policy required''))"

section \<open>Plans\<close>

text \<open>The dependencies and the name of a step that has passed the checks.\<close>

definition step_name :: "json \<Rightarrow> string" where
  "step_name s = (case obj_field s ''step_id'' of Some (JStr i) \<Rightarrow> i | _ \<Rightarrow> [])"

definition depends_on :: "json \<Rightarrow> string list" where
  "depends_on s = strings_of (obj_field s ''depends_on'')"

definition step_required :: "json \<Rightarrow> bool" where
  "step_required s = (obj_field s ''required'' = Some (JBool True))"

text \<open>The checks of one step against the map of the steps before it.\<close>

definition check_step :: "(string, json) jsmap \<Rightarrow> json \<Rightarrow> team_failure option" where
  "check_step steps s = first_error
     [refuse_if (\<not> closed_object s [''step_id'', ''title'', ''instruction'', ''acceptance'', ''required'', ''depends_on'', ''review_policy'']) ''unexpected plan fields'',
      refuse_if (case obj_field s ''step_id'' of
          Some (JStr i) \<Rightarrow> \<not> identifier_text 80 i \<or> jm_get steps i \<noteq> None
        | _ \<Rightarrow> True) ''step IDs must be unique safe identifiers'',
      boundedText (obj_field s ''title'') ''step title'' 120 False,
      boundedText (obj_field s ''instruction'') ''step instruction'' 16000 False,
      boundedText (obj_field s ''acceptance'') ''step acceptance'' 8000 False,
      refuse_if (\<not> is_bool (obj_field s ''required'')) ''required must be boolean'',
      validateReviewPolicy (obj_field s ''review_policy''),
      refuse_if (let d = obj_field s ''depends_on'' in
          \<not> is_array d \<or> 32 < length (array_items d) \<or> \<not> list_all is_str (array_items d) \<or> \<not> distinct (array_items d))
        ''dependencies must be unique step IDs'']"

fun collect_steps :: "(string, json) jsmap \<Rightarrow> json list \<Rightarrow> team_failure + (string, json) jsmap" where
  "collect_steps steps [] = Inr steps"
| "collect_steps steps (s # raw) =
     (case check_step steps s of
        Some e \<Rightarrow> Inl e
      | None \<Rightarrow> collect_steps (jm_set (step_name s) s steps) raw)"

definition unknown_dependency :: "(string, json) jsmap \<Rightarrow> bool" where
  "unknown_dependency steps = list_ex (\<lambda>s. list_ex (\<lambda>d. jm_get steps d = None \<or> d = step_name s) (depends_on s)) (jm_values steps)"

text \<open>The loop over the pending steps; \<^const>\<open>None\<close> is the exception of a cycle.\<close>

definition ready_steps :: "(string, json) jsmap \<Rightarrow> string list \<Rightarrow> string list" where
  "ready_steps steps pending = sort (filter (\<lambda>i. list_all (\<lambda>p. p \<notin> set pending) (depends_on (the (jm_get steps i)))) pending)"

lemma set_ready_steps: "set (ready_steps steps pending) = {i \<in> set pending. set (depends_on (the (jm_get steps i))) \<inter> set pending = {}}"
  by (auto simp: ready_steps_def list_all_iff)

lemma ready_shrinks:
  assumes "ready_steps steps pending \<noteq> []"
  shows "length (filter (\<lambda>i. i \<notin> set (ready_steps steps pending)) pending) < length pending"
proof -
  from assms have "hd (ready_steps steps pending) \<in> set (ready_steps steps pending)" by simp
  then show ?thesis by (intro length_filter_less[of "hd (ready_steps steps pending)"]) (auto simp: set_ready_steps)
qed

function plan_order :: "(string, json) jsmap \<Rightarrow> string list \<Rightarrow> string list \<Rightarrow> string list option" where
  "plan_order steps pending order =
     (if pending = [] then Some order
      else let ready = ready_steps steps pending in
        if ready = [] then None
        else plan_order steps (filter (\<lambda>i. i \<notin> set ready) pending) (order @ ready))"
  by pat_completeness auto

termination
  by (relation "measure (\<lambda>(steps, pending, order). length pending)") (auto intro: ready_shrinks)

declare plan_order.simps [simp del]

text \<open>\<open>validateTaskPlan\<close>: the order of the steps, or the exception.\<close>

definition check_plan_head :: "json \<Rightarrow> team_failure option" where
  "check_plan_head v = first_error
     [refuse_if (\<not> closed_object v [''request_id'', ''expected_revision'', ''team_session_id'', ''context_version'', ''spec_revision'', ''steps'']) ''unexpected plan fields'',
      boundedText (obj_field v ''request_id'') ''request_id'' 128 False,
      boundedText (obj_field v ''team_session_id'') ''team_session_id'' 128 False,
      refuse_if (\<not> safe_at_least 0 (obj_field v ''expected_revision'')) ''expected_revision must be a nonnegative integer'',
      refuse_if (\<not> safe_at_least 0 (obj_field v ''context_version'')) ''context_version must be a nonnegative integer'',
      positiveRevision (obj_field v ''spec_revision''),
      refuse_if (let s = obj_field v ''steps'' in \<not> is_array s \<or> array_items s = [] \<or> 32 < length (array_items s)) ''plan requires 1-32 steps'',
      refuse_if (128 * 1024 < utf8_length (json_stringify v)) ''plan byte limit exceeded'']"

definition plan_items :: "json \<Rightarrow> json list" where
  "plan_items v = array_items (obj_field v ''steps'')"

definition validateTaskPlan :: "json \<Rightarrow> team_failure + string list" where
  "validateTaskPlan v =
     (case check_plan_head v of
        Some e \<Rightarrow> Inl e
      | None \<Rightarrow>
          (case collect_steps [] (plan_items v) of
             Inl e \<Rightarrow> Inl e
           | Inr steps \<Rightarrow>
               if \<not> list_ex step_required (jm_values steps) then Inl (deliveryInvalid ''at least one required step is needed'')
               else if unknown_dependency steps then Inl (deliveryInvalid ''dependency must refer to another step in this task plan'')
               else (case plan_order steps (jm_keys steps) [] of
                       None \<Rightarrow> Inl (deliveryInvalid ''plan contains a dependency cycle'')
                     | Some order \<Rightarrow> Inr order)))"

section \<open>Digests\<close>

text \<open>\<open>stableJSON\<close> sorts the fields of every object.\<close>

fun canonical_json :: "(string \<Rightarrow> 'k::linorder) \<Rightarrow> json \<Rightarrow> json" where
  "canonical_json collation (JArr xs) = JArr (map (canonical_json collation) xs)"
| "canonical_json collation (JObj fs) = JObj (map (\<lambda>(k, v). (k, canonical_json collation v)) (sort_key (\<lambda>(k, v). collation k) fs))"
| "canonical_json collation v = v"

definition stableJSON :: "(string \<Rightarrow> 'k::linorder) \<Rightarrow> json \<Rightarrow> string" where
  "stableJSON collation v = json_stringify (canonical_json collation v)"

definition stableDigest :: "(string \<Rightarrow> string) \<Rightarrow> (string \<Rightarrow> 'k::linorder) \<Rightarrow> json \<Rightarrow> string" where
  "stableDigest sha256 collation v = sha256 (stableJSON collation v)"

text \<open>\<open>{ ...v, k: w }\<close> of an object that has the field.\<close>

definition with_field :: "string \<Rightarrow> json \<Rightarrow> json \<Rightarrow> json" where
  "with_field k w v = (case v of JObj fs \<Rightarrow> JObj (jm_set k w fs) | _ \<Rightarrow> v)"

definition sorted_strings :: "json option \<Rightarrow> json" where
  "sorted_strings v = JArr (map JStr (sort (strings_of v)))"

definition stepDigest :: "(string \<Rightarrow> string) \<Rightarrow> (string \<Rightarrow> 'k::linorder) \<Rightarrow> json \<Rightarrow> string" where
  "stepDigest sha256 collation s =
     (let policy = the (obj_field s ''review_policy'') in
      stableDigest sha256 collation
        (with_field ''review_policy'' (with_field ''required_checks'' (sorted_strings (obj_field policy ''required_checks'')) policy)
          (with_field ''depends_on'' (sorted_strings (obj_field s ''depends_on'')) s)))"

definition requireUnchangedStartedSteps ::
  "(string \<Rightarrow> string) \<Rightarrow> (string \<Rightarrow> 'k::linorder) \<Rightarrow> json list \<Rightarrow> (string \<times> json) list \<Rightarrow> team_failure option" where
  "requireUnchangedStartedSteps sha256 collation steps started =
     (let next_steps = fold (\<lambda>s. jm_set (step_name s) (stepDigest sha256 collation s)) steps [] in
      if list_all (\<lambda>(i, definition_of). jm_get next_steps i = Some (stepDigest sha256 collation definition_of)) started then None
      else Some (TeamRepositoryError ''invalid_state'' ''a started step cannot be changed or removed''))"

section \<open>Submissions and acceptances\<close>

text \<open>A request body is an object, given by its fields.\<close>

definition validateMutation :: "payload \<Rightarrow> team_failure option" where
  "validateMutation v = first_error
     [boundedText (map_of v ''request_id'') ''request_id'' 128 False,
      positiveRevision (map_of v ''expected_revision'')]"

definition artifact_name_invalid :: "string \<Rightarrow> bool" where
  "artifact_name_invalid n = (list_ex (\<lambda>c. c \<in> {CHR ''/'', CHR 0x5C, CHR 0x0D, CHR 0x0A}) n \<or> n = ''.'' \<or> n = ''..'')"

definition DELIVERY_MIME_TYPES :: "string list" where
  "DELIVERY_MIME_TYPES = [''text/plain'', ''text/markdown'', ''text/html'', ''text/x-diff'', ''application/json'', ''application/pdf'']"

definition sha256_text :: "string \<Rightarrow> bool" where
  "sha256_text s = (length s = 64 \<and> list_all (hex_digit False) s)"

definition text_satisfies :: "json option \<Rightarrow> (string \<Rightarrow> bool) \<Rightarrow> bool" where
  "text_satisfies v P = (case v of Some (JStr s) \<Rightarrow> P s | _ \<Rightarrow> False)"

definition check_artifact :: "string list \<Rightarrow> json \<Rightarrow> team_failure option" where
  "check_artifact ids a = first_error
     [refuse_if (\<not> is_object a) ''invalid artifact'',
      refuse_if (\<not> text_satisfies (obj_field a ''id'') (\<lambda>i. identifier_text 80 i \<and> i \<notin> set ids)) ''artifact IDs must be unique safe identifiers'',
      boundedText (obj_field a ''name'') ''artifact name'' 240 False,
      refuse_if (\<not> text_satisfies (obj_field a ''name'') (\<lambda>n. \<not> artifact_name_invalid n)) ''artifact name must not contain a path'',
      refuse_if (\<not> text_satisfies (obj_field a ''mime_type'') (\<lambda>m. m \<in> set DELIVERY_MIME_TYPES)) ''unsupported artifact type'',
      refuse_if (case obj_field a ''byte_size'' of Some (JNum n) \<Rightarrow> n < 1 \<or> 2 * 1024 * 1024 < n | _ \<Rightarrow> True) ''artifact byte limit exceeded'',
      refuse_if (\<not> text_satisfies (obj_field a ''sha256'') sha256_text \<or> \<not> is_bool (obj_field a ''required'')) ''artifact hash or required flag invalid'']"

definition field_text :: "json \<Rightarrow> string \<Rightarrow> string" where
  "field_text v k = (case obj_field v k of Some (JStr s) \<Rightarrow> s | _ \<Rightarrow> [])"

fun check_artifacts :: "string list \<Rightarrow> json list \<Rightarrow> team_failure + string list" where
  "check_artifacts ids [] = Inr ids"
| "check_artifacts ids (a # as) =
     (case check_artifact ids a of
        Some e \<Rightarrow> Inl e
      | None \<Rightarrow> check_artifacts (ids @ [field_text a ''id'']) as)"

definition check_evidence :: "payload \<Rightarrow> string list \<Rightarrow> string list \<Rightarrow> json \<Rightarrow> team_failure option" where
  "check_evidence v ids checks e = first_error
     [refuse_if (\<not> is_object e) ''invalid evidence'',
      boundedText (obj_field e ''check_id'') ''check_id'' 120 False,
      refuse_if (field_text e ''check_id'' \<in> set checks \<or> \<not> text_satisfies (obj_field e ''artifact_id'') (\<lambda>i. i \<in> set ids))
        ''duplicate check or unknown evidence artifact'',
      refuse_if (\<not> text_satisfies (obj_field e ''result'') (\<lambda>r. r \<in> {''passed'', ''failed'', ''unverified''})
          \<or> obj_field e ''source_kind'' \<noteq> Some (JStr ''agent_claim'')) ''trusted evidence cannot be supplied by this endpoint'',
      refuse_if (obj_field e ''code_revision'' \<noteq> map_of v ''code_revision'') ''evidence code version mismatch'']"

fun check_evidences :: "payload \<Rightarrow> string list \<Rightarrow> string list \<Rightarrow> json list \<Rightarrow> team_failure option" where
  "check_evidences v ids checks [] = None"
| "check_evidences v ids checks (e # es) =
     (case check_evidence v ids checks e of
        Some f \<Rightarrow> Some f
      | None \<Rightarrow> check_evidences v ids (checks @ [field_text e ''check_id'']) es)"

definition check_submission_head :: "payload \<Rightarrow> team_failure option" where
  "check_submission_head v = first_error
     [validateMutation v,
      positiveRevision (map_of v ''spec_revision''),
      boundedText (map_of v ''source_call_id'') ''source_call_id'' 128 False,
      boundedText (map_of v ''summary'') ''summary'' 16000 False,
      (if map_of v ''code_revision'' = Some JNull then None else boundedText (map_of v ''code_revision'') ''code_revision'' 200 False),
      refuse_if (map_of v ''publish_scope'' \<noteq> Some (JStr ''team'')) ''explicit team publication scope required'',
      refuse_if (let a = map_of v ''artifacts'' in \<not> is_array a \<or> array_items a = [] \<or> 16 < length (array_items a)) ''1-16 artifacts required'',
      stringList (map_of v ''contribution_ids'') ''contribution_ids'',
      refuse_if (\<not> list_all (uuid_text True) (strings_of (map_of v ''contribution_ids''))) ''invalid contribution ID'']"

definition validateSubmission :: "payload \<Rightarrow> team_failure option" where
  "validateSubmission v =
     (case check_submission_head v of
        Some e \<Rightarrow> Some e
      | None \<Rightarrow>
          (case check_artifacts [] (array_items (map_of v ''artifacts'')) of
             Inl e \<Rightarrow> Some e
           | Inr ids \<Rightarrow>
               (let ev = map_of v ''evidence'' in
                if \<not> is_array ev \<or> 32 < length (array_items ev) then Some (deliveryInvalid ''invalid evidence list'')
                else check_evidences v ids [] (array_items ev))))"

definition validateAcceptance :: "payload \<Rightarrow> team_failure option" where
  "validateAcceptance v = first_error
     [validateMutation v,
      boundedText (map_of v ''submission_id'') ''submission_id'' 128 False,
      refuse_if (\<not> text_satisfies (map_of v ''submission_id'') (uuid_text True)) ''invalid submission ID'',
      positiveRevision (map_of v ''spec_revision''),
      refuse_if (\<not> text_satisfies (map_of v ''decision'') (\<lambda>d. d \<in> {''accepted'', ''changes_requested''})) ''invalid acceptance decision'',
      boundedText (map_of v ''reason'') ''reason'' 8000 (map_of v ''decision'' = Some (JStr ''accepted'')),
      stringList (map_of v ''verified_checks'') ''verified_checks'']"

section \<open>Budgets\<close>

definition budget_limit_invalid :: "json \<Rightarrow> string \<Rightarrow> int \<Rightarrow> bool" where
  "budget_limit_invalid v k limit =
     (case obj_field v k of None \<Rightarrow> False | Some (JNum n) \<Rightarrow> \<not> is_safe_integer n \<or> n < 1 \<or> limit < n | Some _ \<Rightarrow> True)"

definition validateTaskBudget :: "json \<Rightarrow> team_failure option" where
  "validateTaskBudget v = first_error
     [refuse_if (\<not> closed_object v [''max_concurrent_calls'', ''max_duration_seconds'', ''token_warning_limit'']) ''invalid task budget policy'',
      refuse_if (budget_limit_invalid v ''max_concurrent_calls'' 32 \<or> budget_limit_invalid v ''max_duration_seconds'' 604800
          \<or> budget_limit_invalid v ''token_warning_limit'' 1000000000000) ''invalid task budget limit'']"

record budget_snapshot =
  bs_invocation_count :: int
  bs_invocation_limit :: int
  bs_in_flight :: int
  bs_max_concurrent_calls :: "int option"
  bs_duration_exhausted :: bool

definition requireTaskBudgetCapacity :: "budget_snapshot \<Rightarrow> team_failure option" where
  "requireTaskBudgetCapacity s =
     (let exhausted = (\<lambda>m. Some (TeamRepositoryError ''budget_exhausted'' m)) in
      if bs_invocation_limit s \<le> bs_invocation_count s then exhausted ''plan invocation limit exhausted''
      else if (case bs_max_concurrent_calls s of Some m \<Rightarrow> m \<noteq> 0 \<and> m \<le> bs_in_flight s | None \<Rightarrow> False)
        then exhausted ''plan concurrent reservation limit reached''
      else if bs_duration_exhausted s then exhausted ''plan duration limit reached; issued Calls are not stopped''
      else None)"

text \<open>\<open>reconciledAttemptState\<close> of \<open>step-scheduler.ts\<close>: the state of an attempt after its call moved.\<close>

definition reconciledAttemptState :: "string \<Rightarrow> string \<Rightarrow> string" where
  "reconciledAttemptState attemptState callState =
     (if attemptState \<in> {''accepted'', ''failed'', ''cancelled'', ''awaiting_review''} then attemptState
      else case map_of [(''pending'', ''reserved''), (''dispatched'', ''dispatched''), (''accepted'', ''running''), (''uncertain'', ''unknown''),
        (''completed'', ''awaiting_review''), (''failed'', ''failed''), (''blocked'', ''failed''), (''cancelled'', ''cancelled'')] callState of
        Some s \<Rightarrow> s | None \<Rightarrow> attemptState)"

end
