(* ===== verification/Team_Plan_Correct.thy ===== *)
theory Team_Plan_Correct
  imports Team_Plan
begin

text \<open>
  The order of a task plan. The pending loop of \<open>validateTaskPlan\<close> always ends; it returns a list of all
  steps in which every step follows its dependencies exactly when the dependency relation is acyclic, and
  the order depends on the dependency graph only, not on how the plan lists its steps.
\<close>

section \<open>Topological orders\<close>

text \<open>\<open>(d, i)\<close> when step \<open>i\<close> depends on \<open>d\<close>.\<close>

definition plan_edges :: "(string, json) jsmap \<Rightarrow> (string \<times> string) set" where
  "plan_edges steps = {(d, i). \<exists>s. jm_get steps i = Some s \<and> d \<in> set (depends_on s)}"

definition topological :: "('a \<times> 'a) set \<Rightarrow> 'a list \<Rightarrow> bool" where
  "topological E xs \<longleftrightarrow> (\<forall>ys z zs. xs = ys @ z # zs \<longrightarrow> (\<forall>d. (d, z) \<in> E \<longrightarrow> d \<in> set ys))"

lemma topological_append:
  assumes "topological E xs" and "\<And>d z. z \<in> set ys \<Longrightarrow> (d, z) \<in> E \<Longrightarrow> d \<in> set xs"
  shows "topological E (xs @ ys)"
  unfolding topological_def
proof (intro allI impI)
  fix as z bs d assume eq: "xs @ ys = as @ z # bs" and e: "(d, z) \<in> E"
  from eq consider us where "xs = as @ z # us" | us where "as = xs @ us" "ys = us @ z # bs"
  proof (cases "length xs \<le> length as")
    case True
    with eq have "as = xs @ drop (length xs) as" by (metis append_eq_append_conv_if append_take_drop_id)
    moreover from this eq have "ys = drop (length xs) as @ z # bs" by (metis append.assoc same_append_eq)
    ultimately show thesis using that(2) by blast
  next
    case False
    with eq have "xs ! length as = z" "take (length as) xs = as"
      by (metis leI nth_append nth_append_length, metis append_eq_append_conv_if leI linorder_not_le nless_le)
    then have "xs = as @ z # drop (Suc (length as)) xs" using False by (metis id_take_nth_drop leI)
    then show thesis using that(1) by blast
  qed
  then show "d \<in> set as"
  proof cases
    case 1
    then show ?thesis using assms(1) e by (auto simp: topological_def)
  next
    case 2
    then show ?thesis using assms(2)[of z d] e by simp
  qed
qed

definition position :: "'a list \<Rightarrow> 'a \<Rightarrow> nat" where
  "position xs x = length (takeWhile (\<lambda>y. y \<noteq> x) xs)"

lemma position_append [simp]: "x \<notin> set ys \<Longrightarrow> position (ys @ x # zs) x = length ys"
  by (auto simp: position_def takeWhile_append)

lemma position_in_prefix: "x \<in> set ys \<Longrightarrow> position (ys @ zs) x < length ys"
  unfolding position_def by (induction ys) auto

lemma topological_acyclic:
  assumes top: "topological E xs" and "Range E \<subseteq> set xs"
  shows "acyclic E"
proof -
  have "position xs d < position xs z" if e: "(d, z) \<in> E" for d z
  proof -
    have "z \<in> set xs" using e assms(2) by auto
    then obtain ys zs where s: "xs = ys @ z # zs" "z \<notin> set ys" by (meson split_list_first)
    have "d \<in> set ys" using top e s(1) by (auto simp: topological_def)
    then show ?thesis using s position_in_prefix[of d ys "z # zs"] by simp
  qed
  then have "E \<subseteq> measure (position xs)" by auto
  then show ?thesis by (meson acyclic_subset wf_acyclic wf_measure)
qed

lemma acyclic_has_source:
  assumes "acyclic E" "finite P" "P \<noteq> {}"
  shows "\<exists>i \<in> P. \<forall>d \<in> P. (d, i) \<notin> E"
proof -
  have "acyclic (E \<inter> P \<times> P)" "finite (E \<inter> P \<times> P)" using assms by (auto intro: acyclic_subset)
  then have "wf (E \<inter> P \<times> P)" by (simp add: finite_acyclic_wf)
  moreover obtain p where "p \<in> P" using assms(3) by blast
  ultimately obtain i where "i \<in> P" "\<And>d. (d, i) \<in> E \<inter> P \<times> P \<Longrightarrow> d \<notin> P" by (rule wfE_min) blast
  then show ?thesis by blast
qed

section \<open>The pending loop\<close>

text \<open>The maps the loop runs on: every dependency is a step.\<close>

definition plan_closed :: "(string, json) jsmap \<Rightarrow> bool" where
  "plan_closed steps \<longleftrightarrow> jm_wf steps \<and> Domain (plan_edges steps) \<subseteq> set (jm_keys steps)"

lemma range_plan_edges: "Range (plan_edges steps) \<subseteq> set (jm_keys steps)"
  by (force simp: plan_edges_def dest: map_of_SomeD)

lemma ready_edges:
  "set P \<subseteq> set (jm_keys steps) \<Longrightarrow> i \<in> set (ready_steps steps P) \<longleftrightarrow> i \<in> set P \<and> (\<forall>d \<in> set P. (d, i) \<notin> plan_edges steps)"
  by (auto simp: set_ready_steps plan_edges_def) (metis map_of_eq_None_iff option.collapse set_map subset_iff)+

lemma plan_order_sound:
  assumes "plan_order steps P acc = Some ord" "plan_closed steps" "topological (plan_edges steps) acc"
    and "set acc \<union> set P = set (jm_keys steps)" "distinct (acc @ P)"
  shows "topological (plan_edges steps) ord \<and> distinct ord \<and> set ord = set (jm_keys steps)"
  using assms
proof (induction steps P acc rule: plan_order.induct)
  case (1 steps P acc)
  let ?r = "ready_steps steps P"
  show ?case
  proof (cases "P = []")
    case True
    then show ?thesis using "1.prems" by (simp add: plan_order.simps[of steps "[]" acc])
  next
    case False
    then have r: "?r \<noteq> []" and rec: "plan_order steps (filter (\<lambda>i. i \<notin> set ?r) P) (acc @ ?r) = Some ord"
      using "1.prems"(1) by (auto simp: plan_order.simps[of steps P acc] Let_def split: if_splits)
    have sub: "set P \<subseteq> set (jm_keys steps)" using "1.prems"(4) by blast
    have "topological (plan_edges steps) (acc @ ?r)"
    proof (rule topological_append[OF "1.prems"(3)])
      fix d z assume "z \<in> set ?r" "(d, z) \<in> plan_edges steps"
      then show "d \<in> set acc" using ready_edges[OF sub] "1.prems"(2,4) unfolding plan_closed_def by blast
    qed
    moreover have "set (acc @ ?r) \<union> set (filter (\<lambda>i. i \<notin> set ?r) P) = set (jm_keys steps)"
      using "1.prems"(4) ready_edges[OF sub] by auto
    moreover have "distinct ((acc @ ?r) @ filter (\<lambda>i. i \<notin> set ?r) P)"
      using "1.prems"(5) ready_edges[OF sub] by (auto simp: ready_steps_def)
    ultimately show ?thesis using "1.IH"[OF False refl r rec "1.prems"(2)] by blast
  qed
qed

lemma plan_order_completes:
  assumes "acyclic (plan_edges steps)" "set P \<subseteq> set (jm_keys steps)"
  shows "\<exists>ord. plan_order steps P acc = Some ord"
  using assms
proof (induction steps P acc rule: plan_order.induct)
  case (1 steps P acc)
  show ?case
  proof (cases "P = []")
    case False
    then obtain i where "i \<in> set P" "\<forall>d \<in> set P. (d, i) \<notin> plan_edges steps"
      using acyclic_has_source[OF "1.prems"(1), of "set P"] by auto
    then have r: "ready_steps steps P \<noteq> []" using ready_edges[OF "1.prems"(2)] by force
    have "set (filter (\<lambda>i. i \<notin> set (ready_steps steps P)) P) \<subseteq> set (jm_keys steps)" using "1.prems"(2) by auto
    from "1.IH"[OF False refl r "1.prems"(1) this] show ?thesis using False r by (subst plan_order.simps) (simp add: Let_def)
  qed (simp add: plan_order.simps)
qed

lemma plan_order_acyclic:
  assumes "plan_closed steps"
  shows "(\<exists>ord. plan_order steps (jm_keys steps) [] = Some ord) \<longleftrightarrow> acyclic (plan_edges steps)"
proof
  assume "\<exists>ord. plan_order steps (jm_keys steps) [] = Some ord"
  then obtain ord where "plan_order steps (jm_keys steps) [] = Some ord" ..
  then have "topological (plan_edges steps) ord" "set ord = set (jm_keys steps)"
    using plan_order_sound[of steps "jm_keys steps" "[]" ord] assms by (auto simp: plan_closed_def topological_def)
  then show "acyclic (plan_edges steps)" using range_plan_edges topological_acyclic by metis
qed (auto intro: plan_order_completes)

text \<open>Two maps with the same dependency graph have the same order.\<close>

lemma sort_same_mset: "mset xs = mset ys \<Longrightarrow> sort xs = sort (ys :: 'a::linorder list)"
  by (metis mset_sort properties_for_sort sorted_sort)

lemma plan_order_same_graph:
  assumes "\<And>i. i \<in> set P \<Longrightarrow> set (depends_on (the (jm_get steps i))) = set (depends_on (the (jm_get steps' i)))"
    and "mset P = mset P'"
  shows "plan_order steps P acc = plan_order steps' P' acc"
  using assms
proof (induction steps P acc arbitrary: P' rule: plan_order.induct)
  case (1 steps P acc)
  have sets: "set P = set P'" using "1.prems"(2) by (metis set_mset_mset)
  have "filter (\<lambda>i. list_all (\<lambda>p. p \<notin> set P') (depends_on (the (jm_get steps' i)))) P'
      = filter (\<lambda>i. list_all (\<lambda>p. p \<notin> set P) (depends_on (the (jm_get steps i)))) P'"
    using "1.prems"(1) sets by (intro filter_cong) (auto simp: list_all_iff)
  moreover have same: "mset (filter q P) = mset (filter q P')" for q using "1.prems"(2) by (simp only: mset_filter)
  ultimately have r: "ready_steps steps' P' = ready_steps steps P"
    unfolding ready_steps_def by (metis (no_types) sort_same_mset)
  show ?case
  proof (cases "P = [] \<or> ready_steps steps P = []")
    case True
    then show ?thesis using "1.prems"(2) r by (auto simp: plan_order.simps[of _ "[]"] plan_order.simps[of steps P] plan_order.simps[of steps' P'] Let_def)
  next
    case False
    have "plan_order steps (filter (\<lambda>i. i \<notin> set (ready_steps steps P)) P) (acc @ ready_steps steps P)
        = plan_order steps' (filter (\<lambda>i. i \<notin> set (ready_steps steps P)) P') (acc @ ready_steps steps P)"
      using False "1.prems"(1) by (intro "1.IH" same) auto
    moreover have "P' \<noteq> []" using False "1.prems"(2) by auto
    ultimately show ?thesis using False by (simp only: plan_order.simps[of steps P] plan_order.simps[of steps' P'] Let_def r de_Morgan_disj simp_thms if_False)
  qed
qed

section \<open>Validated plans\<close>

definition plan_steps :: "json \<Rightarrow> (string, json) jsmap" where
  "plan_steps v = map (\<lambda>s. (step_name s, s)) (plan_items v)"

text \<open>Every check before the pending loop passes.\<close>

definition plan_checked :: "json \<Rightarrow> bool" where
  "plan_checked v \<longleftrightarrow> check_plan_head v = None \<and> collect_steps [] (plan_items v) = Inr (plan_steps v)
     \<and> list_ex step_required (plan_items v) \<and> \<not> unknown_dependency (plan_steps v)"

lemma check_step_fresh: "check_step m s = None \<Longrightarrow> jm_get m (step_name s) = None"
  by (auto simp: check_step_def step_name_def split: option.splits json.splits)

lemma collect_steps_all:
  "collect_steps m raw = Inr steps \<Longrightarrow> jm_wf m \<Longrightarrow> steps = m @ map (\<lambda>s. (step_name s, s)) raw \<and> jm_wf steps"
proof (induction raw arbitrary: m)
  case (Cons s raw)
  then have c: "check_step m s = None" and r: "collect_steps (jm_set (step_name s) s m) raw = Inr steps"
    by (auto split: option.splits)
  have "jm_set (step_name s) s m @ map (\<lambda>s. (step_name s, s)) raw = m @ map (\<lambda>s. (step_name s, s)) (s # raw)"
    using check_step_fresh[OF c] by (simp add: jm_set_new)
  with Cons.IH[OF r jm_wf_set[OF Cons.prems(2)]] show ?case by metis
qed simp

lemma validateTaskPlan_cases:
  assumes "validateTaskPlan v = Inr ord"
  shows "plan_checked v \<and> plan_order (plan_steps v) (jm_keys (plan_steps v)) [] = Some ord"
proof -
  obtain steps where s: "check_plan_head v = None" "collect_steps [] (plan_items v) = Inr steps" "list_ex step_required (jm_values steps)"
      "\<not> unknown_dependency steps" "plan_order steps (jm_keys steps) [] = Some ord"
    using assms by (auto simp: validateTaskPlan_def split: option.splits sum.splits if_splits)
  have "steps = plan_steps v" using collect_steps_all[OF s(2)] by (simp add: plan_steps_def)
  moreover from this have "jm_values steps = plan_items v" by (simp add: jm_values_def plan_steps_def comp_def)
  ultimately show ?thesis using s by (simp add: plan_checked_def)
qed

lemma validateTaskPlan_checked:
  assumes "plan_checked v"
  shows "validateTaskPlan v = (case plan_order (plan_steps v) (jm_keys (plan_steps v)) [] of
      None \<Rightarrow> Inl (deliveryInvalid ''plan contains a dependency cycle'') | Some ord \<Rightarrow> Inr ord)"
proof -
  have "jm_values (plan_steps v) = plan_items v" by (simp add: jm_values_def plan_steps_def comp_def)
  then show ?thesis using assms by (simp add: validateTaskPlan_def plan_checked_def)
qed

lemma plan_steps_closed:
  assumes "plan_checked v" shows "plan_closed (plan_steps v)"
proof -
  have wf: "jm_wf (plan_steps v)" using assms collect_steps_all[of "[]"] by (auto simp: plan_checked_def)
  have "d \<in> set (jm_keys (plan_steps v))" if e: "(d, i) \<in> plan_edges (plan_steps v)" for d i
  proof -
    obtain s where s: "(i, s) \<in> set (plan_steps v)" "d \<in> set (depends_on s)" using e by (auto simp: plan_edges_def dest: map_of_SomeD)
    then have "s \<in> set (jm_values (plan_steps v))" by (force simp: jm_values_def)
    then have "jm_get (plan_steps v) d \<noteq> None" using assms s(2) by (auto simp: plan_checked_def unknown_dependency_def list_ex_iff)
    then show ?thesis by (simp add: map_of_eq_None_iff)
  qed
  then show ?thesis using wf by (auto simp: plan_closed_def)
qed

lemma edge_of_step: "plan_checked v \<Longrightarrow> s \<in> set (plan_items v) \<Longrightarrow> d \<in> set (depends_on s) \<Longrightarrow> (d, step_name s) \<in> plan_edges (plan_steps v)"
  using plan_steps_closed[of v] jm_get_in_set[of "plan_steps v" "step_name s" s] by (auto simp: plan_edges_def plan_closed_def plan_steps_def)

lemma keys_plan_steps: "jm_keys (plan_steps v) = map step_name (plan_items v)"
  by (simp add: plan_steps_def comp_def)

lemma validated_order:
  assumes "validateTaskPlan v = Inr ord"
  shows "topological (plan_edges (plan_steps v)) ord \<and> distinct ord \<and> set ord = set (jm_keys (plan_steps v)) \<and> distinct (jm_keys (plan_steps v))"
proof -
  note ok = validateTaskPlan_cases[OF assms]
  have closed: "plan_closed (plan_steps v)" using ok by (simp add: plan_steps_closed)
  then show ?thesis using plan_order_sound[of "plan_steps v" "jm_keys (plan_steps v)" "[]" ord] ok by (auto simp: topological_def plan_closed_def)
qed

text \<open>
  C32. The order \<open>validateTaskPlan\<close> returns lists every step of the plan once, and every step after all the
  steps it depends on.
\<close>

theorem plan_order_is_topological:
  assumes "validateTaskPlan v = Inr ord"
  shows "distinct ord \<and> set ord = set (map step_name (plan_items v)) \<and> length ord = length (plan_items v)
    \<and> (\<forall>s \<in> set (plan_items v). \<forall>d \<in> set (depends_on s). \<exists>xs ys zs. ord = xs @ d # ys @ step_name s # zs)"
proof -
  note ok = validateTaskPlan_cases[OF assms]
  have closed: "plan_closed (plan_steps v)" using ok by (simp add: plan_steps_closed)
  have t: "topological (plan_edges (plan_steps v)) ord" and dist: "distinct ord" and set_ord: "set ord = set (jm_keys (plan_steps v))"
    using validated_order[OF assms] by auto
  have "\<exists>xs ys zs. ord = xs @ d # ys @ step_name s # zs" if s: "s \<in> set (plan_items v)" "d \<in> set (depends_on s)" for s d
  proof -
    have "step_name s \<in> set ord" using s(1) set_ord unfolding keys_plan_steps by simp
    then obtain ys zs where o: "ord = ys @ step_name s # zs" by (meson split_list)
    then have "d \<in> set ys" using t edge_of_step[OF conjunct1[OF ok] s] by (auto simp: topological_def)
    then obtain as bs where "ys = as @ d # bs" by (meson split_list)
    then show ?thesis using o by auto
  qed
  moreover have "length ord = length (jm_keys (plan_steps v))"
    using dist closed set_ord unfolding plan_closed_def by (metis distinct_card)
  ultimately show ?thesis using dist set_ord by (simp add: keys_plan_steps)
qed

text \<open>
  C33. A plan that passes the other checks is refused exactly when its dependency relation has a cycle, and then
  with the cycle error; in particular the loop always ends.
\<close>

theorem plan_is_refused_iff_cyclic:
  assumes "plan_checked v"
  shows "(validateTaskPlan v = Inl (deliveryInvalid ''plan contains a dependency cycle'') \<longleftrightarrow> \<not> acyclic (plan_edges (plan_steps v)))
    \<and> ((\<exists>ord. validateTaskPlan v = Inr ord) \<longleftrightarrow> acyclic (plan_edges (plan_steps v)))"
  using plan_order_acyclic[OF plan_steps_closed[OF assms]] validateTaskPlan_checked[OF assms] by (auto split: option.splits)

text \<open>
  The order depends on the dependency graph only: two accepted plans with the same steps and the same
  dependencies have the same order, however they list steps and dependencies.
\<close>

lemma plan_order_ignores_listing:
  assumes "validateTaskPlan v = Inr ord" "validateTaskPlan w = Inr ord'"
    and graph: "(\<lambda>s. (step_name s, set (depends_on s))) ` set (plan_items v) = (\<lambda>s. (step_name s, set (depends_on s))) ` set (plan_items w)"
  shows "ord = ord'"
proof -
  have ok: "plan_checked v" "plan_checked w" "plan_order (plan_steps v) (jm_keys (plan_steps v)) [] = Some ord"
      "plan_order (plan_steps w) (jm_keys (plan_steps w)) [] = Some ord'"
    using validateTaskPlan_cases assms(1,2) by auto
  have wf: "jm_wf (plan_steps v)" "jm_wf (plan_steps w)" using ok plan_steps_closed by (auto simp: plan_closed_def)
  have get: "jm_get (plan_steps u) i = Some s \<longleftrightarrow> s \<in> set (plan_items u) \<and> step_name s = i" if "jm_wf (plan_steps u)" for u i s
    using jm_get_in_set[OF that, of i s] by (auto simp: plan_steps_def)
  have deps: "set (depends_on (the (jm_get (plan_steps v) i))) = set (depends_on (the (jm_get (plan_steps w) i)))"
    if i: "i \<in> set (jm_keys (plan_steps v))" for i
  proof -
    obtain s where s: "s \<in> set (plan_items v)" "step_name s = i" using i unfolding keys_plan_steps by auto
    then obtain t where t: "t \<in> set (plan_items w)" "step_name t = i" "set (depends_on t) = set (depends_on s)"
      using graph by (smt (verit, best) Pair_inject image_iff)
    then show ?thesis using s get[OF wf(1), of i s] get[OF wf(2), of i t] by simp
  qed
  have "set (jm_keys (plan_steps v)) = set (jm_keys (plan_steps w))"
    using arg_cong[OF graph, of "(`) fst"] by (simp add: keys_plan_steps image_image)
  then have "mset (jm_keys (plan_steps v)) = mset (jm_keys (plan_steps w))" using wf by (simp only: set_eq_iff_mset_eq_distinct)
  from plan_order_same_graph[OF deps this, of "[]"] show ?thesis using ok by simp
qed

section \<open>Submissions\<close>

text \<open>
  An accepted submission names 1 to 16 artifacts apart, and every piece of evidence is a claim of an agent about
  one of them and about the code version of the submission, one per check.
\<close>

lemma check_artifacts_ids:
  "check_artifacts ids as = Inr ids' \<Longrightarrow> distinct ids \<Longrightarrow> distinct ids' \<and> ids' = ids @ map (\<lambda>a. field_text a ''id'') as"
proof (induction as arbitrary: ids)
  case (Cons a as)
  then have c: "check_artifact ids a = None" and r: "check_artifacts (ids @ [field_text a ''id'']) as = Inr ids'" by (auto split: option.splits)
  from c have "field_text a ''id'' \<notin> set ids" by (auto simp: check_artifact_def text_satisfies_def field_text_def split: option.splits json.splits)
  then have "distinct (ids @ [field_text a ''id''])" using Cons.prems(2) by simp
  from Cons.IH[OF r this] show ?case unfolding append_assoc append_Cons append_Nil list.map by blast
qed simp

lemma check_evidences_all:
  "check_evidences v ids checks es = None \<Longrightarrow> distinct checks \<Longrightarrow> distinct (checks @ map (\<lambda>e. field_text e ''check_id'') es) \<and>
    (\<forall>e \<in> set es. field_text e ''artifact_id'' \<in> set ids \<and> field_text e ''source_kind'' = ''agent_claim'' \<and> obj_field e ''code_revision'' = map_of v ''code_revision'')"
proof (induction es arbitrary: checks)
  case (Cons e es)
  then have c: "check_evidence v ids checks e = None" and r: "check_evidences v ids (checks @ [field_text e ''check_id'']) es = None"
    by (auto split: option.splits)
  from c have "field_text e ''check_id'' \<notin> set checks" "field_text e ''artifact_id'' \<in> set ids" "field_text e ''source_kind'' = ''agent_claim''"
      "obj_field e ''code_revision'' = map_of v ''code_revision''"
    by (auto simp: check_evidence_def text_satisfies_def field_text_def split: option.splits json.splits)
  then show ?case using Cons.IH[OF r] Cons.prems(2) by auto
qed simp

lemma accepted_submission_is_coherent:
  assumes "validateSubmission v = None"
  defines "artifacts \<equiv> array_items (map_of v ''artifacts'')" and "evidence \<equiv> array_items (map_of v ''evidence'')"
  shows "artifacts \<noteq> [] \<and> length artifacts \<le> 16 \<and> length evidence \<le> 32 \<and> distinct (map (\<lambda>a. field_text a ''id'') artifacts)
    \<and> distinct (map (\<lambda>e. field_text e ''check_id'') evidence)
    \<and> (\<forall>e \<in> set evidence. field_text e ''artifact_id'' \<in> (\<lambda>a. field_text a ''id'') ` set artifacts
          \<and> field_text e ''source_kind'' = ''agent_claim'' \<and> obj_field e ''code_revision'' = map_of v ''code_revision'')"
proof -
  obtain ids where h: "check_submission_head v = None" "check_artifacts [] artifacts = Inr ids" "length evidence \<le> 32" "check_evidences v ids [] evidence = None"
    using assms(1) unfolding validateSubmission_def artifacts_def evidence_def by (auto simp: Let_def not_less split: option.splits sum.splits if_splits)
  have "artifacts \<noteq> []" "length artifacts \<le> 16" using h(1) by (auto simp: check_submission_head_def artifacts_def Let_def not_less simp del: first_error.simps)
  then show ?thesis using h(3) check_artifacts_ids[OF h(2)] check_evidences_all[OF h(4)] by auto
qed

text \<open>A settled attempt keeps its state whatever its call reports later.\<close>

lemma reconciled_attempt_is_final:
  "reconciledAttemptState (reconciledAttemptState a ''completed'') c = reconciledAttemptState a ''completed'' "
  by (simp add: reconciledAttemptState_def)

section \<open>Concrete plans\<close>

definition sample_step :: "string \<Rightarrow> string list \<Rightarrow> json" where
  "sample_step i ds = JObj [(''step_id'', JStr i), (''title'', JStr ''t''), (''instruction'', JStr ''i''), (''acceptance'', JStr ''a''),
     (''required'', JBool True), (''depends_on'', JArr (map JStr ds)),
     (''review_policy'', JObj [(''reviewer_user_id'', JNum 7), (''primary_offer_id'', JStr ''o''), (''required_checks'', JArr [])])]"

definition sample_plan :: "json list \<Rightarrow> json" where
  "sample_plan ss = JObj [(''request_id'', JStr ''r''), (''expected_revision'', JNum 0), (''team_session_id'', JStr ''s''),
     (''context_version'', JNum 0), (''spec_revision'', JNum 1), (''steps'', JArr ss)]"

lemmas sample_eval = validateTaskPlan_def check_plan_head_def sample_plan_def sample_step_def obj_field_def closed_object_def boundedText_def
  refuse_if_def safe_at_least_def is_safe_integer_def MAX_SAFE_INTEGER_def positiveRevision_def is_array_def array_items_def check_step_def
  identifier_text_def step_name_def is_bool_def validateReviewPolicy_def stringList_def is_str_def jm_values_def step_required_def
  unknown_dependency_def depends_on_def strings_of_def str_of_def js_trim_def js_trim_start_def js_space_def

lemma sample_size: "utf8_length (json_stringify (sample_plan [sample_step ''b'' [''a''], sample_step ''a'' []])) < 1000"
  by (simp add: sample_plan_def sample_step_def utf8_length_def json_quote_def json_char_def int_str_def nat_str.simps digit_char_def)

lemma sample_size': "utf8_length (json_stringify (sample_plan [sample_step ''a'' [], sample_step ''b'' [''a'']])) < 1000"
  by (simp add: sample_plan_def sample_step_def utf8_length_def json_quote_def json_char_def int_str_def nat_str.simps digit_char_def)

lemma sample_head: "check_plan_head (sample_plan [sample_step ''b'' [''a''], sample_step ''a'' []]) = None"
    "check_plan_head (sample_plan [sample_step ''a'' [], sample_step ''b'' [''a'']]) = None"
  using sample_size sample_size' unfolding check_plan_head_def
  by (simp_all add: sample_plan_def obj_field_def closed_object_def boundedText_def safe_at_least_def is_safe_integer_def MAX_SAFE_INTEGER_def
      positiveRevision_def is_array_def array_items_def js_trim_def js_trim_start_def js_space_def refuse_if_def)

lemma sample_steps: "collect_steps [] [sample_step ''b'' [''a''], sample_step ''a'' []] = Inr [(''b'', sample_step ''b'' [''a'']), (''a'', sample_step ''a'' [])]"
    "collect_steps [] [sample_step ''a'' [], sample_step ''b'' [''a'']] = Inr [(''a'', sample_step ''a'' []), (''b'', sample_step ''b'' [''a''])]"
  by (simp_all add: sample_eval)

lemma sample_order: "plan_order [(''b'', sample_step ''b'' [''a'']), (''a'', sample_step ''a'' [])] [''b'', ''a''] [] = Some [''a'', ''b'']"
    "plan_order [(''a'', sample_step ''a'' []), (''b'', sample_step ''b'' [''a''])] [''a'', ''b''] [] = Some [''a'', ''b'']"
  by (simp_all add: plan_order.simps ready_steps_def sample_step_def obj_field_def depends_on_def strings_of_def str_of_def array_items_def)

lemma sample_items: "plan_items (sample_plan ss) = ss"
  by (simp add: plan_items_def sample_plan_def obj_field_def array_items_def)

lemma sample_orders:
  "validateTaskPlan (sample_plan [sample_step ''b'' [''a''], sample_step ''a'' []]) = Inr [''a'', ''b'']"
  "validateTaskPlan (sample_plan [sample_step ''a'' [], sample_step ''b'' [''a'']]) = Inr [''a'', ''b'']"
  unfolding validateTaskPlan_def sample_head sample_items sample_steps option.case sum.case list.map fst_conv sample_order
  by (simp_all add: jm_values_def step_required_def unknown_dependency_def sample_step_def obj_field_def depends_on_def
      strings_of_def str_of_def array_items_def step_name_def)

theorem plan_order_is_topological_witness:
  "validateTaskPlan (sample_plan [sample_step ''b'' [''a''], sample_step ''a'' []]) = Inr [''a'', ''b''] \<and> distinct [''a'', ''b'']
    \<and> length [''a'', ''b''] = length (plan_items (sample_plan [sample_step ''b'' [''a''], sample_step ''a'' []]))"
  using plan_order_is_topological[OF sample_orders(1)] sample_orders(1) by simp

theorem plan_is_refused_iff_cyclic_witness:
  "acyclic (plan_edges (plan_steps (sample_plan [sample_step ''b'' [''a''], sample_step ''a'' []])))"
  using plan_is_refused_iff_cyclic[OF conjunct1[OF validateTaskPlan_cases[OF sample_orders(1)]]] sample_orders(1) by simp

lemma plan_order_ignores_listing_example:
  "\<exists>p q ord ord'. p \<noteq> q \<and> validateTaskPlan p = Inr ord \<and> validateTaskPlan q = Inr ord' \<and> ord = ord'"
proof -
  have "(\<lambda>s. (step_name s, set (depends_on s))) ` set (plan_items (sample_plan [sample_step ''b'' [''a''], sample_step ''a'' []]))
      = (\<lambda>s. (step_name s, set (depends_on s))) ` set (plan_items (sample_plan [sample_step ''a'' [], sample_step ''b'' [''a'']]))"
    by (simp only: sample_items list.set image_insert insert_commute image_empty)
  from plan_order_ignores_listing[OF sample_orders this]
  have "[''a'', ''b''] = [''a'', ''b'']" .
  moreover have "sample_plan [sample_step ''b'' [''a''], sample_step ''a'' []] \<noteq> sample_plan [sample_step ''a'' [], sample_step ''b'' [''a'']]"
    by (simp add: sample_plan_def sample_step_def)
  ultimately show ?thesis using sample_orders by blast
qed

end
