(* ===== verification/Team_Wakeups.thy ===== *)
theory Team_Wakeups
  imports Team_Plan
begin

text \<open>
  The wakeups of the step scheduler: the table \<open>team_step_wakeups\<close> and its trigger function
  \<open>signal_team_step_wakeup\<close> (\<open>relay/src/team/plan-schema.ts\<close>), the repository that leases a wakeup,
  settles it or puts it back (\<open>step-wakeup-repository.ts\<close>) and one pass of the worker
  (\<open>step-worker.ts\<close>). A statement runs at one value of the clock, in microseconds; \<open>updated_at\<close>, which
  no statement reads, is left out.
\<close>

section \<open>Tables\<close>

record task_row =
  tk_task_id :: string
  tk_team_id :: string
  tk_state :: string
  tk_creator_user_id :: int

record team_row =
  tm_team_id :: string
  tm_state :: string

record step_wakeup =
  sw_task_id :: string
  sw_generation :: int
  sw_acknowledged_generation :: int
  sw_lease_token :: int
  sw_lease_owner :: "string option"
  sw_lease_until :: "int option"
  sw_available_at :: int
  sw_last_error_code :: "string option"

record StepWakeupClaim =
  wc_task_id :: string
  wc_generation :: int
  wc_lease_token :: int
  wc_lease_owner :: string

section \<open>Signals\<close>

definition new_wakeup :: "int \<Rightarrow> string \<Rightarrow> step_wakeup" where
  "new_wakeup now t = \<lparr>sw_task_id = t, sw_generation = 1, sw_acknowledged_generation = 0, sw_lease_token = 0, sw_lease_owner = None,
     sw_lease_until = None, sw_available_at = now, sw_last_error_code = None\<rparr>"

text \<open>\<open>heads\<close> are the tasks with a row in \<open>team_task_plan_heads\<close>.\<close>

definition signal_team_step_wakeup :: "string set \<Rightarrow> int \<Rightarrow> string \<Rightarrow> step_wakeup list \<Rightarrow> step_wakeup list" where
  "signal_team_step_wakeup heads now t rows =
     (if t \<notin> heads then rows
      else if t \<in> sw_task_id ` set rows
        then map (\<lambda>w. if sw_task_id w = t then w\<lparr>sw_generation := sw_generation w + 1, sw_available_at := min (sw_available_at w) now\<rparr> else w) rows
      else rows @ [new_wakeup now t])"

section \<open>The repository\<close>

datatype wakeup_error = Invalid_Argument string | StepWakeupLeaseLost

definition wakeup_due :: "int \<Rightarrow> step_wakeup \<Rightarrow> bool" where
  "wakeup_due now w = (sw_acknowledged_generation w < sw_generation w \<and> sw_available_at w \<le> now \<and>
     (case sw_lease_until w of None \<Rightarrow> True | Some u \<Rightarrow> u \<le> now))"

definition wakeup_enabled :: "string list \<Rightarrow> task_row list \<Rightarrow> team_row list \<Rightarrow> step_wakeup \<Rightarrow> bool" where
  "wakeup_enabled teamIds tasks teams w =
     list_ex (\<lambda>t. tk_task_id t = sw_task_id w \<and> tk_state t \<in> {''open'', ''in_progress''} \<and> tk_team_id t \<in> set teamIds
        \<and> list_ex (\<lambda>m. tm_team_id m = tk_team_id t \<and> tm_state m = ''active'') teams) tasks"

text \<open>The row the statement leases; \<open>locked\<close> are the rows other transactions hold (\<open>SKIP LOCKED\<close>).\<close>

definition wakeup_candidate ::
  "(string \<Rightarrow> 'k::linorder) \<Rightarrow> int \<Rightarrow> string list \<Rightarrow> string set \<Rightarrow> task_row list \<Rightarrow> team_row list \<Rightarrow> step_wakeup list \<Rightarrow> step_wakeup option" where
  "wakeup_candidate collation now teamIds locked tasks teams rows =
     (case sort_key sw_available_at (sort_key (\<lambda>w. collation (sw_task_id w))
        (filter (\<lambda>w. wakeup_due now w \<and> wakeup_enabled teamIds tasks teams w \<and> sw_task_id w \<notin> locked) rows)) of
        [] \<Rightarrow> None
      | w # _ \<Rightarrow> Some w)"

definition lease_wakeup :: "int \<Rightarrow> int \<Rightarrow> string \<Rightarrow> step_wakeup \<Rightarrow> step_wakeup" where
  "lease_wakeup now leaseMs owner w =
     w\<lparr>sw_lease_owner := Some owner, sw_lease_token := sw_lease_token w + 1, sw_lease_until := Some (now + 1000 * leaseMs)\<rparr>"

definition claim_wakeup ::
  "(string \<Rightarrow> 'k::linorder) \<Rightarrow> int \<Rightarrow> string list \<Rightarrow> int \<Rightarrow> string \<Rightarrow> string set \<Rightarrow> task_row list \<Rightarrow> team_row list \<Rightarrow> step_wakeup list
    \<Rightarrow> (wakeup_error + StepWakeupClaim option) \<times> step_wakeup list" where
  "claim_wakeup collation now teamIds leaseMs owner locked tasks teams rows =
     (if 100 < length teamIds \<or> \<not> list_all (identifier_text 128) teamIds then (Inl (Invalid_Argument ''invalid wakeup Team allowlist''), rows)
      else if leaseMs < 100 \<or> 60000 < leaseMs then (Inl (Invalid_Argument ''invalid wakeup lease duration''), rows)
      else if teamIds = [] then (Inr None, rows)
      else (case wakeup_candidate collation now teamIds locked tasks teams rows of
              None \<Rightarrow> (Inr None, rows)
            | Some c \<Rightarrow>
                (Inr (Some \<lparr>wc_task_id = sw_task_id c, wc_generation = sw_generation c, wc_lease_token = sw_lease_token c + 1, wc_lease_owner = owner\<rparr>),
                 map (\<lambda>w. if sw_task_id w = sw_task_id c then lease_wakeup now leaseMs owner w else w) rows)))"

text \<open>\<open>parameters\<close>: the values of the claim, or the exception.\<close>

definition claim_invalid :: "StepWakeupClaim \<Rightarrow> bool" where
  "claim_invalid c = (\<not> identifier_text 128 (wc_task_id c) \<or> \<not> uuid_text False (wc_lease_owner c)
     \<or> wc_lease_token c < 1 \<or> 10 ^ 19 \<le> wc_lease_token c \<or> wc_generation c < 1 \<or> 10 ^ 19 \<le> wc_generation c)"

text \<open>The lease of the claim on a row: owner, token, and the time it runs to.\<close>

definition holds_lease :: "int \<Rightarrow> StepWakeupClaim \<Rightarrow> step_wakeup \<Rightarrow> bool" where
  "holds_lease now c w = (sw_task_id w = wc_task_id c \<and> sw_lease_owner w = Some (wc_lease_owner c) \<and> sw_lease_token w = wc_lease_token c
     \<and> sw_acknowledged_generation w < wc_generation c \<and> (case sw_lease_until w of Some u \<Rightarrow> now < u | None \<Rightarrow> False))"

definition wakeup_fence :: "int \<Rightarrow> StepWakeupClaim \<Rightarrow> step_wakeup \<Rightarrow> bool" where
  "wakeup_fence now c w = (holds_lease now c w \<and> wc_generation c \<le> sw_generation w)"

definition settle_wakeup :: "int \<Rightarrow> StepWakeupClaim \<Rightarrow> step_wakeup list \<Rightarrow> step_wakeup list" where
  "settle_wakeup now c rows = map (\<lambda>w. if wakeup_fence now c w
     then w\<lparr>sw_acknowledged_generation := wc_generation c, sw_lease_owner := None, sw_lease_until := None, sw_last_error_code := None\<rparr> else w) rows"

text \<open>
  \<open>processClaim\<close> is one transaction: \<open>apply\<close> is the caller's callback, a function of the wakeups and of the rest
  of the database that may throw. An exception rolls everything back.
\<close>

definition processClaim ::
  "int \<Rightarrow> int \<Rightarrow> (step_wakeup list \<times> 'd \<Rightarrow> 'e + ('r \<times> step_wakeup list \<times> 'd)) \<Rightarrow> StepWakeupClaim \<Rightarrow> step_wakeup list \<times> 'd
    \<Rightarrow> ((wakeup_error + 'e) + 'r) \<times> step_wakeup list \<times> 'd" where
  "processClaim now later callback c db =
     (if claim_invalid c then (Inl (Inl (Invalid_Argument ''invalid wakeup claim'')), db)
      else if \<not> list_ex (wakeup_fence now c) (fst db) then (Inl (Inl StepWakeupLeaseLost), db)
      else (case callback db of
              Inl e \<Rightarrow> (Inl (Inr e), db)
            | Inr (r, rows, d) \<Rightarrow>
                if length (filter (wakeup_fence later c) rows) \<noteq> 1 then (Inl (Inl StepWakeupLeaseLost), db)
                else (Inr r, settle_wakeup later c rows, d)))"

definition RETRY_CODES :: "string list" where
  "RETRY_CODES = [''retry_pending'', ''authorization_changed'', ''dependency_unavailable'', ''budget_exhausted'']"

definition retry_wakeup ::
  "int \<Rightarrow> StepWakeupClaim \<Rightarrow> string \<Rightarrow> int \<Rightarrow> step_wakeup list \<Rightarrow> (wakeup_error + bool) \<times> step_wakeup list" where
  "retry_wakeup now c code delayMs rows =
     (if code \<notin> set RETRY_CODES \<or> delayMs < 0 \<or> 60000 < delayMs then (Inl (Invalid_Argument ''invalid wakeup retry''), rows)
      else if claim_invalid c then (Inl (Invalid_Argument ''invalid wakeup claim''), rows)
      else (Inr (length (filter (holds_lease now c) rows) = 1),
            map (\<lambda>w. if holds_lease now c w
              then w\<lparr>sw_lease_owner := None, sw_lease_until := None, sw_last_error_code := Some code,
                     sw_available_at := (if wc_generation c < sw_generation w then now else now + 1000 * delayMs)\<rparr> else w) rows))"

section \<open>The worker\<close>

text \<open>The retry code and the delay \<open>processOne\<close> chooses for the code of an exception.\<close>

definition retry_code :: "string option \<Rightarrow> string" where
  "retry_code code =
     (if code = Some ''budget_exhausted'' then ''budget_exhausted''
      else if code \<in> {Some ''creator_required'', Some ''participant_required'', Some ''team_access_denied'', Some ''team_feature_disabled''}
        then ''authorization_changed''
      else if code \<in> {Some ''reviewer_required'', Some ''capability_not_supported'', Some ''agent_unavailable'', Some ''artifact_unavailable'',
          Some ''acceptance_required'', Some ''evidence_required'', Some ''input_limit_exceeded''} then ''dependency_unavailable''
      else ''retry_pending'')"

definition retry_delay :: "string \<Rightarrow> int" where
  "retry_delay code = (if code = ''retry_pending'' then 1000 else 30000)"

text \<open>
  After a claim, \<open>processOne\<close> runs the scheduler on it. An error other than a lost lease puts the wakeup back with
  the delay of its code; the clock is read by every statement.
\<close>

definition process_claimed ::
  "int \<Rightarrow> int \<Rightarrow> int \<Rightarrow> (step_wakeup list \<times> 'd \<Rightarrow> string option + ('r \<times> step_wakeup list \<times> 'd)) \<Rightarrow> StepWakeupClaim \<Rightarrow> step_wakeup list \<times> 'd
    \<Rightarrow> step_wakeup list \<times> 'd" where
  "process_claimed now later retry_at callback c db =
     (case processClaim now later callback c db of
        (Inr _, db') \<Rightarrow> db'
      | (Inl (Inl StepWakeupLeaseLost), db') \<Rightarrow> db'
      | (Inl e, rows, d) \<Rightarrow>
          (let code = retry_code (case e of Inr k \<Rightarrow> k | Inl _ \<Rightarrow> None)
           in (snd (retry_wakeup retry_at c code (retry_delay code) rows), d)))"

end
