(* ===== verification/Team_Plan_Service.thy ===== *)
theory Team_Plan_Service
  imports Team_Plan_Correct Team_Wakeups
begin

text \<open>
  Drafts of task plans in the database (\<open>relay/src/team/plan-service.ts\<close> with \<open>access.ts\<close> and the tables of
  \<open>plan-schema.ts\<close>): saving a draft, reading a plan, looking a receipt up. A method runs in one transaction that
  locks the task, so it is a function on the tables; an exception rolls it back. Saving twice is idempotent, and a
  saved plan is read back in its topological order.
\<close>

section \<open>Tables\<close>

record membership_row =
  mb_team_id :: string
  mb_user_id :: int
  mb_state :: string
  mb_role :: string

record collaboration_session =
  cs_team_session_id :: string
  cs_team_id :: string
  cs_state :: string
  cs_task_id :: "string option"
  cs_current_context_version :: int

record participant_row =
  pt_team_session_id :: string
  pt_user_id :: int
  pt_state :: string

record offer_row =
  of_offer_id :: string
  of_team_id :: string
  of_owner_user_id :: int
  of_daemon_id :: string
  of_state :: string

record agent_binding_row =
  bi_binding_id :: string
  bi_offer_id :: string
  bi_team_session_id :: string
  bi_state :: string

record bound_daemon_row =
  dm_daemon_id :: string
  dm_user_id :: int
  dm_status :: string
  dm_capabilities :: "string list"

record call_row =
  ca_call_id :: string
  ca_task_id :: "string option"
  ca_team_session_id :: string
  ca_binding_id :: "string option"
  ca_state :: string

record step_attempt =
  at_attempt_id :: string
  at_task_id :: string
  at_plan_revision :: int
  at_step_id :: string
  at_attempt_no :: int
  at_state :: string
  at_call_id :: "string option"
  at_accepted_submission_id :: "string option"
  at_lease_token :: int
  at_frozen_inputs :: json
  at_input_hash :: string

record plan_revision_row =
  pv_task_id :: string
  pv_revision :: int
  pv_team_session_id :: string
  pv_context_version :: int
  pv_context_hash :: "string option"
  pv_spec_revision :: int
  pv_plan_hash :: string
  pv_created_by_user_id :: int

record plan_step_row =
  pst_task_id :: string
  pst_plan_revision :: int
  pst_step_id :: string
  pst_position :: nat
  pst_definition :: json
  pst_step_hash :: string

record plan_receipt =
  rc_task_id :: string
  rc_actor_user_id :: int
  rc_request_id :: string
  rc_request_hash :: string
  rc_response :: json

text \<open>
  The tables the methods read and write: accounts with \<open>team_enabled\<close>; calls; template sources by task and
  session; the specification revision, the context versions with their hash, the attempts; the head revision of a
  plan, whose state is always \<open>draft\<close>. A column of type \<open>jsonb\<close> is the value it stores, whatever the order of its keys.
\<close>

record plan_db =
  pd_users :: "(int \<times> bool) list"
  pd_tasks :: "task_row list"
  pd_teams :: "team_row list"
  pd_memberships :: "membership_row list"
  pd_sessions :: "collaboration_session list"
  pd_participants :: "participant_row list"
  pd_calls :: "call_row list"
  pd_template_sources :: "(string \<times> string) list"
  pd_delivery_heads :: "(string \<times> int) list"
  pd_context_versions :: "((string \<times> int) \<times> string) list"
  pd_attempts :: "step_attempt list"
  pd_offers :: "offer_row list"
  pd_bindings :: "agent_binding_row list"
  pd_daemons :: "bound_daemon_row list"
  pd_revisions :: "plan_revision_row list"
  pd_steps :: "plan_step_row list"
  pd_heads :: "(string \<times> int) list"
  pd_receipts :: "plan_receipt list"
  pd_wakeups :: "step_wakeup list"

section \<open>Access\<close>

definition teamAccountsEnabled :: "plan_db \<Rightarrow> int list \<Rightarrow> bool" where
  "teamAccountsEnabled db userIds =
     (let ids = remdups userIds; rows = filter (\<lambda>(i, _). i \<in> set ids) (pd_users db) in
      ids \<noteq> [] \<and> list_all (\<lambda>i. is_safe_integer i \<and> 0 < i) ids \<and> length rows = length ids \<and> list_all snd rows)"

definition requireTeamAccess :: "plan_db \<Rightarrow> int \<Rightarrow> team_failure option" where
  "requireTeamAccess db userId =
     (if teamAccountsEnabled db [userId] then None else Some (TeamRepositoryError ''team_access_denied'' ''Team is not enabled for this account''))"

definition find_task :: "plan_db \<Rightarrow> string \<Rightarrow> task_row option" where
  "find_task db taskId = find (\<lambda>t. tk_task_id t = taskId) (pd_tasks db)"

definition not_found :: "string \<Rightarrow> team_failure" where
  "not_found m = TeamRepositoryError ''team_not_found'' m"

text \<open>The task and the role of a member who may read it, and the further checks of a writer.\<close>

definition task_member :: "plan_db \<Rightarrow> string \<Rightarrow> int \<Rightarrow> team_failure + (task_row \<times> string)" where
  "task_member db taskId actor =
     (case first_error [boundedText (Some (JStr taskId)) ''task_id'' 128 False, requireTeamAccess db actor] of
        Some e \<Rightarrow> Inl e
      | None \<Rightarrow>
     (case find_task db taskId of
        None \<Rightarrow> Inl (not_found ''task not found'')
      | Some task \<Rightarrow>
          if \<not> list_ex (\<lambda>t. tm_team_id t = tk_team_id task \<and> tm_state t = ''active'') (pd_teams db) then Inl (not_found ''task not found'')
          else (case find (\<lambda>m. mb_team_id m = tk_team_id task \<and> mb_user_id m = actor \<and> mb_state m = ''active'') (pd_memberships db) of
                  None \<Rightarrow> Inl (not_found ''task not found'')
                | Some member \<Rightarrow> Inr (task, mb_role member))))"

definition plan_access :: "(string \<Rightarrow> bool) \<Rightarrow> plan_db \<Rightarrow> string \<Rightarrow> int \<Rightarrow> bool \<Rightarrow> team_failure + (task_row \<times> string)" where
  "plan_access writesEnabledForTeam db taskId actor for_write =
     (case task_member db taskId actor of
        Inl e \<Rightarrow> Inl e
      | Inr (task, role) \<Rightarrow>
          if for_write \<and> (role = ''viewer'' \<or> (role \<noteq> ''admin'' \<and> tk_creator_user_id task \<noteq> actor))
            then Inl (TeamRepositoryError ''creator_required'' ''task creator or Team admin required'')
          else if for_write \<and> \<not> writesEnabledForTeam (tk_team_id task)
            then Inl (TeamRepositoryError ''team_feature_disabled'' ''task plan draft writes disabled for this Team'')
          else Inr (task, role))"

section \<open>Reading\<close>

definition plan_head :: "plan_db \<Rightarrow> string \<Rightarrow> int" where
  "plan_head db taskId = (case map_of (pd_heads db) taskId of Some r \<Rightarrow> r | None \<Rightarrow> 0)"

definition snapshot_steps :: "plan_db \<Rightarrow> string \<Rightarrow> int \<Rightarrow> json list" where
  "snapshot_steps db taskId revision = map pst_definition
     (sort_key pst_position (filter (\<lambda>s. pst_task_id s = taskId \<and> pst_plan_revision s = revision) (pd_steps db)))"

definition plan_snapshot :: "plan_db \<Rightarrow> string \<Rightarrow> int \<Rightarrow> (plan_revision_row \<times> json list) option" where
  "plan_snapshot db taskId revision =
     (case find (\<lambda>p. pv_task_id p = taskId \<and> pv_revision p = revision) (pd_revisions db) of
        None \<Rightarrow> None
      | Some p \<Rightarrow> Some (p, snapshot_steps db taskId revision))"

record plan_view =
  vw_revision :: int
  vw_state :: string
  vw_plan :: "(plan_revision_row \<times> json list) option"
  vw_writes_enabled :: bool

definition getPlan :: "(string \<Rightarrow> bool) \<Rightarrow> plan_db \<Rightarrow> string \<Rightarrow> int \<Rightarrow> int option \<Rightarrow> team_failure + plan_view" where
  "getPlan writesEnabledForTeam db taskId actor revision =
     (if (case revision of Some r \<Rightarrow> \<not> is_safe_integer r \<or> r < 1 | None \<Rightarrow> False) then Inl (deliveryInvalid ''invalid plan revision'')
      else (case plan_access writesEnabledForTeam db taskId actor False of
              Inl e \<Rightarrow> Inl e
            | Inr (task, role) \<Rightarrow>
                if tk_state task = ''deleted'' then Inl (not_found ''task not found'')
                else
                  (let current = plan_head db taskId;
                       plan = (if current \<noteq> 0 then plan_snapshot db taskId (case revision of Some r \<Rightarrow> r | None \<Rightarrow> current) else None) in
                   if revision \<noteq> None \<and> plan = None then Inl (not_found ''plan revision not found'')
                   else Inr \<lparr>vw_revision = current, vw_state = (if map_of (pd_heads db) taskId = None then ''absent'' else ''draft''), vw_plan = plan,
                     vw_writes_enabled = (writesEnabledForTeam (tk_team_id task) \<and> role \<noteq> ''viewer'' \<and> (role = ''admin'' \<or> tk_creator_user_id task = actor))\<rparr>)))"

definition find_receipt :: "plan_db \<Rightarrow> string \<Rightarrow> int \<Rightarrow> string \<Rightarrow> plan_receipt option" where
  "find_receipt db taskId actor requestId =
     find (\<lambda>r. rc_task_id r = taskId \<and> rc_actor_user_id r = actor \<and> rc_request_id r = requestId) (pd_receipts db)"

definition lookupReceipt :: "(string \<Rightarrow> bool) \<Rightarrow> plan_db \<Rightarrow> string \<Rightarrow> int \<Rightarrow> string \<Rightarrow> team_failure + json option" where
  "lookupReceipt writesEnabledForTeam db taskId actor requestId =
     (case boundedText (Some (JStr requestId)) ''request_id'' 128 False of
        Some e \<Rightarrow> Inl e
      | None \<Rightarrow>
          (case plan_access writesEnabledForTeam db taskId actor False of
             Inl e \<Rightarrow> Inl e
           | Inr (task, _) \<Rightarrow>
               if tk_state task = ''deleted'' then Inl (not_found ''task not found'')
               else Inr (map_option rc_response (find_receipt db taskId actor requestId))))"

section \<open>Saving a draft\<close>

definition field_int :: "json \<Rightarrow> string \<Rightarrow> int" where
  "field_int v k = (case obj_field v k of Some (JNum n) \<Rightarrow> n | _ \<Rightarrow> 0)"

definition step_policy :: "json \<Rightarrow> json" where
  "step_policy s = the (obj_field s ''review_policy'')"

text \<open>The definitions of the steps that have an attempt.\<close>

definition started_steps :: "plan_db \<Rightarrow> string \<Rightarrow> (string \<times> json) list" where
  "started_steps db taskId = remdups (concat (map (\<lambda>a.
     if at_task_id a = taskId then map (\<lambda>s. (pst_step_id s, pst_definition s))
       (filter (\<lambda>s. pst_task_id s = taskId \<and> pst_plan_revision s = at_plan_revision a \<and> pst_step_id s = at_step_id a) (pd_steps db)) else []) (pd_attempts db)))"

definition reviewers_available :: "plan_db \<Rightarrow> string \<Rightarrow> json list \<Rightarrow> team_failure option" where
  "reviewers_available db teamId steps =
     (let reviewers = sort (remdups (map (\<lambda>s. field_int (step_policy s) ''reviewer_user_id'') steps)) in
      if \<not> teamAccountsEnabled db reviewers then Some (TeamRepositoryError ''reviewer_required'' ''reviewer account unavailable'')
      else if length (filter (\<lambda>m. mb_team_id m = teamId \<and> mb_user_id m \<in> set reviewers \<and> mb_state m = ''active'' \<and> mb_role m \<noteq> ''viewer'') (pd_memberships db))
          \<noteq> length reviewers
        then Some (TeamRepositoryError ''reviewer_required'' ''reviewers must be writable members of this Team'')
      else None)"

definition DELIVERY_CAPABILITIES :: "string list" where
  "DELIVERY_CAPABILITIES = [''team_collaboration_dispatch_v1'', ''team_collaboration_context_v1'', ''team_task_delivery_v1'']"

text \<open>The rows of the join over offers, bindings, memberships, accounts and daemons.\<close>

definition available_offers :: "plan_db \<Rightarrow> string \<Rightarrow> string \<Rightarrow> string list \<Rightarrow> string list" where
  "available_offers db sessionId teamId offers =
     [of_offer_id x. x \<leftarrow> pd_offers db, of_team_id x = teamId, of_state x = ''active'', of_offer_id x \<in> set offers,
        b \<leftarrow> pd_bindings db, bi_offer_id b = of_offer_id x, bi_team_session_id b = sessionId, bi_state b = ''active'',
        m \<leftarrow> pd_memberships db, mb_team_id m = of_team_id x, mb_user_id m = of_owner_user_id x, mb_state m = ''active'',
        u \<leftarrow> pd_users db, fst u = of_owner_user_id x, snd u,
        d \<leftarrow> pd_daemons db, dm_daemon_id d = of_daemon_id x, dm_user_id d = of_owner_user_id x, dm_status d = ''online'',
          list_all (\<lambda>c. c \<in> set (dm_capabilities d)) DELIVERY_CAPABILITIES]"

definition offers_available :: "plan_db \<Rightarrow> string \<Rightarrow> string \<Rightarrow> json list \<Rightarrow> team_failure option" where
  "offers_available db sessionId teamId steps =
     (let offers = remdups (map (\<lambda>s. field_text (step_policy s) ''primary_offer_id'') steps) in
      if length (available_offers db sessionId teamId offers) = length offers then None
      else Some (TeamRepositoryError ''agent_unavailable'' ''each step needs an active bound Agent with delivery capability''))"

text \<open>The checks between the idempotency receipt and the first write.\<close>

definition draft_checks ::
  "(string \<Rightarrow> string) \<Rightarrow> (string \<Rightarrow> 'k::linorder) \<Rightarrow> plan_db \<Rightarrow> task_row \<Rightarrow> collaboration_session \<Rightarrow> json \<Rightarrow> team_failure option" where
  "draft_checks sha256 collation db task session v =
     (let taskId = tk_task_id task; sid = cs_team_session_id session; revision = plan_head db taskId; version = field_int v ''context_version'' in
      first_error
        [(if tk_state task \<in> {''open'', ''in_progress''} then None
          else Some (TeamRepositoryError ''invalid_state'' ''restore or reopen task before editing plan'')),
         refuse_if (cs_task_id session \<noteq> Some taskId \<and> \<not> list_ex (\<lambda>c. ca_task_id c = Some taskId \<and> ca_team_session_id c = sid) (pd_calls db) \<and> (taskId, sid) \<notin> set (pd_template_sources db))
           ''session does not belong to this task'',
         (if revision = field_int v ''expected_revision'' then None
          else Some \<lparr>tf_code = ''revision_conflict'', tf_message = ''plan revision changed'', tf_current_revision = Some revision\<rparr>),
         (if revision < 100 then None else Some (TeamRepositoryError ''invalid_state'' ''plan revision limit reached'')),
         (if map_of (pd_delivery_heads db) taskId = Some (field_int v ''spec_revision'') then None
          else Some (TeamRepositoryError ''revision_conflict'' ''task specification changed'')),
         (if cs_current_context_version session = version then None
          else Some (TeamRepositoryError ''context_revision_conflict'' ''shared Context version changed'')),
         (if 0 < version \<and> map_of (pd_context_versions db) (sid, version) = None
          then Some (TeamRepositoryError ''context_revision_conflict'' ''shared Context version unavailable'') else None),
         requireUnchangedStartedSteps sha256 collation (plan_items v) (started_steps db taskId),
         reviewers_available db (tk_team_id task) (plan_items v),
         offers_available db sid (tk_team_id task) (plan_items v)])"

definition context_hash :: "plan_db \<Rightarrow> string \<Rightarrow> int \<Rightarrow> string option" where
  "context_hash db sid version = (if version = 0 then None else map_of (pd_context_versions db) (sid, version))"

definition optional_text :: "string option \<Rightarrow> json" where
  "optional_text s = (case s of None \<Rightarrow> JNull | Some x \<Rightarrow> JStr x)"

definition ordered_steps :: "json \<Rightarrow> string list \<Rightarrow> json list" where
  "ordered_steps v order = map (\<lambda>i. the (find (\<lambda>s. step_name s = i) (plan_items v))) order"

definition plan_hash :: "(string \<Rightarrow> string) \<Rightarrow> (string \<Rightarrow> 'k::linorder) \<Rightarrow> plan_db \<Rightarrow> json \<Rightarrow> json list \<Rightarrow> string" where
  "plan_hash sha256 collation db v steps = stableDigest sha256 collation (JObj
     [(''team_session_id'', JStr (field_text v ''team_session_id'')), (''context_version'', JNum (field_int v ''context_version'')),
      (''context_hash'', optional_text (context_hash db (field_text v ''team_session_id'') (field_int v ''context_version''))),
      (''spec_revision'', JNum (field_int v ''spec_revision'')),
      (''steps'', JArr (map (\<lambda>s. JObj [(''step_id'', JStr (step_name s)), (''hash'', JStr (stepDigest sha256 collation s))]) steps))])"

definition draft_response :: "string \<Rightarrow> int \<Rightarrow> string \<Rightarrow> json" where
  "draft_response taskId revision hash = JObj [(''task_id'', JStr taskId), (''revision'', JNum revision), (''state'', JStr ''draft''),
     (''plan_hash'', JStr hash), (''execution_enabled'', JBool False)]"

text \<open>The writes; the trigger on the head signals the step scheduler.\<close>

definition store_draft ::
  "(string \<Rightarrow> string) \<Rightarrow> (string \<Rightarrow> 'k::linorder) \<Rightarrow> int \<Rightarrow> plan_db \<Rightarrow> string \<Rightarrow> int \<Rightarrow> json \<Rightarrow> string list \<Rightarrow> json \<times> plan_db" where
  "store_draft sha256 collation now db taskId actor v order =
     (let steps = ordered_steps v order; revision = plan_head db taskId + 1; sid = field_text v ''team_session_id'';
          version = field_int v ''context_version''; hash = plan_hash sha256 collation db v steps;
          response = draft_response taskId revision hash; heads = jm_set taskId revision (pd_heads db) in
      (response, db\<lparr>
         pd_revisions := pd_revisions db @ [\<lparr>pv_task_id = taskId, pv_revision = revision, pv_team_session_id = sid, pv_context_version = version,
           pv_context_hash = context_hash db sid version, pv_spec_revision = field_int v ''spec_revision'', pv_plan_hash = hash, pv_created_by_user_id = actor\<rparr>],
         pd_steps := pd_steps db @ map (\<lambda>(position, s). \<lparr>pst_task_id = taskId, pst_plan_revision = revision, pst_step_id = step_name s,
           pst_position = position, pst_definition = s, pst_step_hash = stepDigest sha256 collation s\<rparr>) (enumerate 0 steps),
         pd_heads := heads,
         pd_wakeups := signal_team_step_wakeup (fst ` set heads) now taskId (pd_wakeups db),
         pd_receipts := pd_receipts db @ [\<lparr>rc_task_id = taskId, rc_actor_user_id = actor, rc_request_id = field_text v ''request_id'',
           rc_request_hash = stableDigest sha256 collation v, rc_response = response\<rparr>]\<rparr>))"

text \<open>The checks before the receipt is looked up.\<close>

definition draft_request ::
  "(string \<Rightarrow> bool) \<Rightarrow> plan_db \<Rightarrow> string \<Rightarrow> int \<Rightarrow> json \<Rightarrow> team_failure + (string list \<times> task_row \<times> collaboration_session)" where
  "draft_request writesEnabledForTeam db taskId actor v =
     (case validateTaskPlan v of
        Inl e \<Rightarrow> Inl e
      | Inr order \<Rightarrow>
     (case plan_access writesEnabledForTeam db taskId actor True of
        Inl e \<Rightarrow> Inl e
      | Inr (task, _) \<Rightarrow>
     (case find (\<lambda>s. cs_team_session_id s = field_text v ''team_session_id'' \<and> cs_team_id s = tk_team_id task \<and> cs_state s = ''active'') (pd_sessions db) of
        None \<Rightarrow> Inl (not_found ''active shared session not found'')
      | Some session \<Rightarrow>
          if \<not> list_ex (\<lambda>p. pt_team_session_id p = field_text v ''team_session_id'' \<and> pt_user_id p = actor \<and> pt_state p = ''active'') (pd_participants db)
            then Inl (TeamRepositoryError ''participant_required'' ''active session participant required'')
          else if tk_state task = ''deleted'' then Inl (not_found ''task not found'')
          else Inr (order, task, session))))"

definition saveDraft ::
  "(string \<Rightarrow> string) \<Rightarrow> (string \<Rightarrow> 'k::linorder) \<Rightarrow> (string \<Rightarrow> bool) \<Rightarrow> int \<Rightarrow> plan_db \<Rightarrow> string \<Rightarrow> int \<Rightarrow> json \<Rightarrow> (team_failure + json) \<times> plan_db" where
  "saveDraft sha256 collation writesEnabledForTeam now db taskId actor v =
     (case draft_request writesEnabledForTeam db taskId actor v of
        Inl e \<Rightarrow> (Inl e, db)
      | Inr (order, task, session) \<Rightarrow>
          (case find_receipt db taskId actor (field_text v ''request_id'') of
             Some prior \<Rightarrow>
               if rc_request_hash prior \<noteq> stableDigest sha256 collation v
                 then (Inl (TeamRepositoryError ''idempotency_conflict'' ''request ID reused with different content''), db)
               else (Inr (rc_response prior), db)
           | None \<Rightarrow>
               (case draft_checks sha256 collation db task session v of
                  Some e \<Rightarrow> (Inl e, db)
                | None \<Rightarrow> (case store_draft sha256 collation now db taskId actor v order of (response, db') \<Rightarrow> (Inr response, db')))))"

section \<open>What a draft leaves in the database\<close>

lemma saveDraft_cases:
  assumes "saveDraft sha256 collation writes now db taskId actor v = (Inr resp, db')"
  obtains (replayed) order task session prior where "draft_request writes db taskId actor v = Inr (order, task, session)"
      "find_receipt db taskId actor (field_text v ''request_id'') = Some prior" "rc_request_hash prior = stableDigest sha256 collation v"
      "resp = rc_response prior" "db' = db"
    | (stored) order task session where "draft_request writes db taskId actor v = Inr (order, task, session)"
      "find_receipt db taskId actor (field_text v ''request_id'') = None" "draft_checks sha256 collation db task session v = None"
      "store_draft sha256 collation now db taskId actor v order = (resp, db')"
  using assms unfolding saveDraft_def by (auto split: sum.splits option.splits if_splits prod.splits)

lemma draft_request_Inr:
  assumes "draft_request writes db taskId actor v = Inr (order, task, session)"
  shows "validateTaskPlan v = Inr order \<and> tk_state task \<noteq> ''deleted'' \<and> (\<exists>role. plan_access writes db taskId actor True = Inr (task, role))"
  using assms unfolding draft_request_def by (auto split: sum.splits option.splits if_splits)

text \<open>The tables a request needs before its receipt is looked up.\<close>

definition same_access :: "plan_db \<Rightarrow> plan_db \<Rightarrow> bool" where
  "same_access db db' \<longleftrightarrow> pd_users db' = pd_users db \<and> pd_tasks db' = pd_tasks db \<and> pd_teams db' = pd_teams db
     \<and> pd_memberships db' = pd_memberships db \<and> pd_sessions db' = pd_sessions db \<and> pd_participants db' = pd_participants db"

lemma task_member_same:
  assumes "same_access db db'" shows "task_member db' taskId actor = task_member db taskId actor"
proof -
  have "requireTeamAccess db' = requireTeamAccess db" "find_task db' = find_task db" "pd_teams db' = pd_teams db" "pd_memberships db' = pd_memberships db"
    using assms by (simp_all add: same_access_def requireTeamAccess_def teamAccountsEnabled_def find_task_def fun_eq_iff)
  then show ?thesis by (simp only: task_member_def)
qed

lemma draft_request_same:
  assumes "same_access db db'" shows "draft_request writes db' taskId actor v = draft_request writes db taskId actor v"
proof -
  have "plan_access writes db' taskId actor True = plan_access writes db taskId actor True" by (simp only: plan_access_def task_member_same[OF assms])
  moreover have "pd_sessions db' = pd_sessions db" "pd_participants db' = pd_participants db" using assms by (simp_all add: same_access_def)
  ultimately show ?thesis by (simp only: draft_request_def)
qed

lemma store_draft_access: "store_draft sha256 collation now db taskId actor v order = (resp, db') \<Longrightarrow> same_access db db'"
  by (auto simp: store_draft_def Let_def same_access_def)

lemma plan_access_read:
  assumes "plan_access writes db taskId actor True = Inr (task, role)"
  shows "plan_access writes db taskId actor False = Inr (task, role) \<and> tk_task_id task = taskId"
proof -
  have m: "task_member db taskId actor = Inr (task, role)" using assms by (auto simp: plan_access_def split: sum.splits if_splits)
  then have "find_task db taskId = Some task" by (auto simp: task_member_def split: option.splits if_splits)
  then show ?thesis using m by (auto simp: plan_access_def find_task_def find_Some_iff)
qed

lemma find_snoc: "find P xs = None \<Longrightarrow> P x \<Longrightarrow> find P (xs @ [x]) = Some x"
  by (induction xs) (auto split: if_splits)

lemma stored_receipt:
  assumes "store_draft sha256 collation now db taskId actor v order = (resp, db')" "find_receipt db taskId actor (field_text v ''request_id'') = None"
  shows "\<exists>r. find_receipt db' taskId actor (field_text v ''request_id'') = Some r \<and> rc_request_hash r = stableDigest sha256 collation v \<and> rc_response r = resp"
  using assms by (auto simp: store_draft_def Let_def find_receipt_def find_snoc)

text \<open>
  C34. Saving a draft can be repeated: after an accepted draft the same request, at any later time while the access
  of its author and the receipt are unchanged, returns the first response and changes nothing, and the request
  identifier cannot be used for another plan.
\<close>

theorem draft_retry_is_idempotent:
  assumes save: "saveDraft sha256 collation writes now db taskId actor v = (Inr resp, db')"
    and same: "same_access db' db''" "find_receipt db'' taskId actor (field_text v ''request_id'') = find_receipt db' taskId actor (field_text v ''request_id'')"
  shows "saveDraft sha256 collation writes later db'' taskId actor v = (Inr resp, db'')
    \<and> (\<forall>w. field_text w ''request_id'' = field_text v ''request_id'' \<and> stableDigest sha256 collation w \<noteq> stableDigest sha256 collation v
          \<longrightarrow> (\<exists>e. saveDraft sha256 collation writes later db'' taskId actor w = (Inl e, db'')))"
proof -
  obtain order task session r where q: "draft_request writes db taskId actor v = Inr (order, task, session)" and acc: "same_access db db'"
    and r: "find_receipt db' taskId actor (field_text v ''request_id'') = Some r" "rc_request_hash r = stableDigest sha256 collation v" "rc_response r = resp"
    using save
  proof (cases rule: saveDraft_cases)
    case (replayed order task session prior)
    then show thesis using that by (simp add: same_access_def)
  next
    case (stored order task session)
    then show thesis using that[OF stored(1) store_draft_access[OF stored(4)]] stored_receipt[OF stored(4,2)] by blast
  qed
  have "draft_request writes db'' taskId actor v = Inr (order, task, session)"
    using draft_request_same[OF same(1)] draft_request_same[OF acc] q by simp
  then have "saveDraft sha256 collation writes later db'' taskId actor v = (Inr resp, db'')" using r same(2) by (simp add: saveDraft_def)
  moreover have "\<exists>e. saveDraft sha256 collation writes later db'' taskId actor w = (Inl e, db'')"
    if "field_text w ''request_id'' = field_text v ''request_id''" "stableDigest sha256 collation w \<noteq> stableDigest sha256 collation v" for w
    using that r same(2) by (cases "draft_request writes db'' taskId actor w") (auto simp: saveDraft_def)
  ultimately show ?thesis by blast
qed

text \<open>Every stored revision is at most the head, and the wakeups satisfy the constraint of their table.\<close>

definition plan_db_ok :: "plan_db \<Rightarrow> bool" where
  "plan_db_ok db \<longleftrightarrow> (\<forall>t. 0 \<le> plan_head db t) \<and> (\<forall>p \<in> set (pd_revisions db). pv_revision p \<le> plan_head db (pv_task_id p))
     \<and> (\<forall>s \<in> set (pd_steps db). pst_plan_revision s \<le> plan_head db (pst_task_id s))
     \<and> (\<forall>w \<in> set (pd_wakeups db). sw_acknowledged_generation w \<le> sw_generation w)"

lemma plan_head_stored:
  "store_draft sha256 collation now db taskId actor v order = (resp, db') \<Longrightarrow> plan_head db' t = (if t = taskId then plan_head db taskId + 1 else plan_head db t)"
  by (auto simp: store_draft_def Let_def plan_head_def)

lemma signal_keeps_constraint:
  "(\<forall>w \<in> set rows. sw_acknowledged_generation w \<le> sw_generation w) \<Longrightarrow> w \<in> set (signal_team_step_wakeup heads now t rows) \<Longrightarrow>
   sw_acknowledged_generation w \<le> sw_generation w"
  by (auto simp: signal_team_step_wakeup_def new_wakeup_def split: if_splits)

lemma signal_wakes:
  assumes rows: "\<forall>w \<in> set rows. sw_acknowledged_generation w \<le> sw_generation w" and t: "t \<in> heads"
  shows "\<exists>w \<in> set (signal_team_step_wakeup heads now t rows). sw_task_id w = t \<and> sw_acknowledged_generation w < sw_generation w \<and> sw_available_at w \<le> now"
proof (cases "t \<in> sw_task_id ` set rows")
  case True
  let ?f = "\<lambda>w. if sw_task_id w = t then w\<lparr>sw_generation := sw_generation w + 1, sw_available_at := min (sw_available_at w) now\<rparr> else w"
  obtain w where w: "w \<in> set rows" "sw_task_id w = t" using True by blast
  then have "?f w \<in> set (signal_team_step_wakeup heads now t rows)" using True t by (simp add: signal_team_step_wakeup_def)
  moreover have "sw_acknowledged_generation w \<le> sw_generation w" using rows w(1) by blast
  ultimately show ?thesis using w(2) by (intro bexI[of _ "?f w"]) auto
qed (use t in \<open>simp add: signal_team_step_wakeup_def new_wakeup_def\<close>)

lemma saveDraft_keeps_ok:
  assumes ok: "plan_db_ok db" and "saveDraft sha256 collation writes now db taskId actor v = (res, db')"
  shows "plan_db_ok db'"
proof -
  have "db' = db \<or> (\<exists>order resp. store_draft sha256 collation now db taskId actor v order = (resp, db'))"
    using assms(2) unfolding saveDraft_def by (auto split: sum.splits option.splits if_splits prod.splits)
  then show ?thesis
  proof
    assume "\<exists>order resp. store_draft sha256 collation now db taskId actor v order = (resp, db')"
    then obtain order resp where s: "store_draft sha256 collation now db taskId actor v order = (resp, db')" by blast
    note head = plan_head_stored[OF s]
    have "pd_revisions db' = pd_revisions db @ [last (pd_revisions db')] \<and> pv_task_id (last (pd_revisions db')) = taskId \<and> pv_revision (last (pd_revisions db')) = plan_head db taskId + 1"
      using s by (auto simp: store_draft_def Let_def)
    moreover have "\<And>x. x \<in> set (pd_steps db') \<Longrightarrow> x \<in> set (pd_steps db) \<or> (pst_task_id x = taskId \<and> pst_plan_revision x = plan_head db taskId + 1)"
      using s by (auto simp: store_draft_def Let_def)
    moreover have "sw_acknowledged_generation w \<le> sw_generation w" if "w \<in> set (pd_wakeups db')" for w
      using that ok s signal_keeps_constraint by (auto simp: store_draft_def Let_def plan_db_ok_def)
    ultimately show ?thesis using ok unfolding plan_db_ok_def head
      by (smt (verit, best) Un_iff empty_iff insert_iff list.set set_append)
  qed (use ok in simp)
qed

lemma sort_key_id: "sorted (map f xs) \<Longrightarrow> sort_key f xs = xs"
  by (induction xs) (auto simp: insort_is_Cons)

lemma stored_steps:
  assumes s: "store_draft sha256 collation now db taskId actor v order = (resp, db')" and ok: "plan_db_ok db"
  shows "snapshot_steps db' taskId (plan_head db' taskId) = ordered_steps v order"
proof -
  let ?r = "plan_head db taskId + 1" and ?steps = "ordered_steps v order"
  let ?new = "map (\<lambda>(position, s). \<lparr>pst_task_id = taskId, pst_plan_revision = ?r, pst_step_id = step_name s,
      pst_position = position, pst_definition = s, pst_step_hash = stepDigest sha256 collation s\<rparr>) (enumerate 0 ?steps)"
  have head: "plan_head db' taskId = ?r" using plan_head_stored[OF s] by simp
  have "pd_steps db' = pd_steps db @ ?new" using s by (auto simp: store_draft_def Let_def)
  moreover have "filter (\<lambda>s. pst_task_id s = taskId \<and> pst_plan_revision s = ?r) (pd_steps db) = []"
    using ok by (auto simp: plan_db_ok_def filter_empty_conv)
  moreover have "filter (\<lambda>s. pst_task_id s = taskId \<and> pst_plan_revision s = ?r) ?new = ?new"
    by (auto simp: filter_id_conv)
  ultimately have rows: "filter (\<lambda>s. pst_task_id s = taskId \<and> pst_plan_revision s = ?r) (pd_steps db') = ?new" by simp
  have "map pst_position ?new = [0..<length ?steps]" by (simp add: comp_def case_prod_beta map_fst_enumerate[unfolded comp_def])
  then have "sort_key pst_position ?new = ?new" by (intro sort_key_id) (simp del: map_map)
  moreover have "map pst_definition ?new = ?steps" by (simp add: comp_def case_prod_beta map_snd_enumerate[unfolded comp_def])
  ultimately show ?thesis unfolding snapshot_steps_def head rows by (simp del: map_map)
qed

lemma ordered_steps_names:
  assumes "validateTaskPlan v = Inr order"
  shows "map step_name (ordered_steps v order) = order \<and> mset (ordered_steps v order) = mset (plan_items v)"
proof -
  have f: "distinct order" "set order = step_name ` set (plan_items v)" "distinct (map step_name (plan_items v))"
    using validated_order[OF assms] by (simp_all add: keys_plan_steps plan_steps_def comp_def image_image)
  have found: "\<exists>s \<in> set (plan_items v). find (\<lambda>s. step_name s = i) (plan_items v) = Some s \<and> step_name s = i" if "i \<in> set order" for i
  proof (cases "find (\<lambda>s. step_name s = i) (plan_items v)")
    case None
    then show ?thesis using that f(2) by (auto simp: find_None_iff)
  qed (auto simp: find_Some_iff)
  have names: "map step_name (ordered_steps v order) = order" using found unfolding ordered_steps_def map_map comp_def by (intro map_idI) fastforce
  have sub: "set (ordered_steps v order) \<subseteq> set (plan_items v)" using found by (fastforce simp: ordered_steps_def)
  have "step_name ` set (ordered_steps v order) = step_name ` set (plan_items v)" using names f(2) by (metis set_map)
  with sub f(3) have "set (ordered_steps v order) = set (plan_items v)" by (metis distinct_map inj_on_image_eq_iff subset_refl)
  moreover have "distinct (ordered_steps v order)" "distinct (plan_items v)" using names f(1,3) by (metis distinct_map)+
  ultimately show ?thesis using names by (simp add: set_eq_iff_mset_eq_distinct)
qed

text \<open>
  C35. A new draft gets the next revision, is read back by \<open>getPlan\<close> with exactly its steps in the topological order
  of \<open>validateTaskPlan\<close>, and leaves a wakeup of the step scheduler that is pending and due.
\<close>

theorem saved_plan_reads_back:
  assumes ok: "plan_db_ok db" and save: "saveDraft sha256 collation writes now db taskId actor v = (Inr resp, db')"
    and new: "find_receipt db taskId actor (field_text v ''request_id'') = None"
  shows "\<exists>order view row steps. validateTaskPlan v = Inr order \<and> getPlan writes db' taskId actor None = Inr view
    \<and> vw_revision view = field_int v ''expected_revision'' + 1 \<and> vw_plan view = Some (row, steps) \<and> pv_revision row = vw_revision view
    \<and> map step_name steps = order \<and> mset steps = mset (plan_items v)
    \<and> (\<exists>w \<in> set (pd_wakeups db'). sw_task_id w = taskId \<and> sw_acknowledged_generation w < sw_generation w \<and> sw_available_at w \<le> now)"
  using save
proof (cases rule: saveDraft_cases)
  case (stored order task session)
  note s = stored(4)
  obtain role where q: "validateTaskPlan v = Inr order" "tk_state task \<noteq> ''deleted''" "plan_access writes db taskId actor True = Inr (task, role)"
    using draft_request_Inr[OF stored(1)] by blast
  have rd: "plan_access writes db' taskId actor False = Inr (task, role)" "tk_task_id task = taskId"
    using plan_access_read[OF q(3)] by (simp_all add: plan_access_def task_member_same[OF store_draft_access[OF s]])
  have head: "plan_head db' taskId = plan_head db taskId + 1" using plan_head_stored[OF s] by simp
  have "plan_head db taskId = field_int v ''expected_revision''"
    using stored(3) rd(2) by (auto simp: draft_checks_def Let_def simp del: first_error.simps split: if_splits)
  moreover have pos: "0 \<le> plan_head db taskId" using ok by (simp add: plan_db_ok_def)
  moreover obtain row where row: "find (\<lambda>p. pv_task_id p = taskId \<and> pv_revision p = plan_head db' taskId) (pd_revisions db') = Some row"
  proof -
    have "\<exists>p \<in> set (pd_revisions db'). pv_task_id p = taskId \<and> pv_revision p = plan_head db' taskId"
      unfolding head using s by (auto simp: store_draft_def Let_def)
    then show thesis using that by (metis (mono_tags, lifting) find_None_iff option.exhaust)
  qed
  moreover have "pv_revision row = plan_head db' taskId" using row by (auto simp: find_Some_iff)
  moreover have "\<exists>w \<in> set (pd_wakeups db'). sw_task_id w = taskId \<and> sw_acknowledged_generation w < sw_generation w \<and> sw_available_at w \<le> now"
  proof -
    have "taskId \<in> fst ` set (jm_set taskId (plan_head db taskId + 1) (pd_heads db))" by (simp add: dom_update)
    from signal_wakes[OF _ this] ok show ?thesis using s by (auto simp: store_draft_def Let_def plan_db_ok_def)
  qed
  ultimately show ?thesis
    using rd q(1,2) head ordered_steps_names[OF q(1)] stored_steps[OF s ok]
    by (intro exI[of _ order]) (auto simp: getPlan_def Let_def plan_snapshot_def)
qed (use new in simp)

section \<open>A concrete draft\<close>

definition draft_plan :: json where
  "draft_plan = sample_plan [sample_step ''b'' [''a''], sample_step ''a'' []]"

definition draft_db :: plan_db where
  "draft_db = \<lparr>pd_users = [(7, True)], pd_tasks = [\<lparr>tk_task_id = ''t'', tk_team_id = ''m'', tk_state = ''open'', tk_creator_user_id = 7\<rparr>],
     pd_teams = [\<lparr>tm_team_id = ''m'', tm_state = ''active''\<rparr>],
     pd_memberships = [\<lparr>mb_team_id = ''m'', mb_user_id = 7, mb_state = ''active'', mb_role = ''member''\<rparr>],
     pd_sessions = [\<lparr>cs_team_session_id = ''s'', cs_team_id = ''m'', cs_state = ''active'', cs_task_id = Some ''t'', cs_current_context_version = 0\<rparr>],
     pd_participants = [\<lparr>pt_team_session_id = ''s'', pt_user_id = 7, pt_state = ''active''\<rparr>],
     pd_calls = [], pd_template_sources = [], pd_delivery_heads = [(''t'', 1)], pd_context_versions = [], pd_attempts = [],
     pd_offers = [\<lparr>of_offer_id = ''o'', of_team_id = ''m'', of_owner_user_id = 7, of_daemon_id = ''d'', of_state = ''active''\<rparr>],
     pd_bindings = [\<lparr>bi_binding_id = ''b'', bi_offer_id = ''o'', bi_team_session_id = ''s'', bi_state = ''active''\<rparr>],
     pd_daemons = [\<lparr>dm_daemon_id = ''d'', dm_user_id = 7, dm_status = ''online'', dm_capabilities = DELIVERY_CAPABILITIES\<rparr>],
     pd_revisions = [], pd_steps = [], pd_heads = [], pd_receipts = [], pd_wakeups = []\<rparr>"

lemmas field_eval = field_text_def field_int_def obj_field_def sample_plan_def

lemma draft_fields: "field_text (sample_plan ss) ''team_session_id'' = ''s''" "field_text (sample_plan ss) ''request_id'' = ''r''"
    "field_int (sample_plan ss) ''expected_revision'' = 0" "field_int (sample_plan ss) ''context_version'' = 0" "field_int (sample_plan ss) ''spec_revision'' = 1"
  by (simp_all add: field_eval)

lemma draft_task: "task_member draft_db ''t'' 7 = Inr (hd (pd_tasks draft_db), ''member'')"
  by (simp add: task_member_def boundedText_def refuse_if_def js_trim_def js_trim_start_def js_space_def requireTeamAccess_def teamAccountsEnabled_def
      find_task_def is_safe_integer_def MAX_SAFE_INTEGER_def draft_db_def)

lemma draft_accepted: "draft_request (\<lambda>_. True) draft_db ''t'' 7 draft_plan = Inr ([''a'', ''b''], hd (pd_tasks draft_db), hd (pd_sessions draft_db))"
  by (simp add: draft_request_def draft_plan_def sample_orders plan_access_def draft_task) (simp add: draft_db_def draft_fields)

lemma draft_policy: "field_int (step_policy (sample_step i ds)) ''reviewer_user_id'' = 7" "field_text (step_policy (sample_step i ds)) ''primary_offer_id'' = ''o''"
  by (simp_all add: step_policy_def sample_step_def field_int_def field_text_def obj_field_def)

lemma draft_checked: "draft_checks (\<lambda>s. s) (\<lambda>s. s) draft_db (hd (pd_tasks draft_db)) (hd (pd_sessions draft_db)) draft_plan = None"
  by (simp add: draft_checks_def draft_plan_def draft_fields sample_items Let_def requireUnchangedStartedSteps_def started_steps_def reviewers_available_def
      offers_available_def draft_policy refuse_if_def plan_head_def teamAccountsEnabled_def is_safe_integer_def MAX_SAFE_INTEGER_def
      available_offers_def draft_db_def list_all_iff)

lemma draft_saved: "\<exists>resp db'. saveDraft (\<lambda>s. s) (\<lambda>s. s) (\<lambda>_. True) 0 draft_db ''t'' 7 draft_plan = (Inr resp, db')"
proof -
  obtain resp db' where st: "store_draft (\<lambda>s. s) (\<lambda>s. s) 0 draft_db ''t'' 7 draft_plan [''a'', ''b''] = (resp, db')" by fastforce
  have "find_receipt draft_db ''t'' 7 (field_text draft_plan ''request_id'') = None" by (simp add: find_receipt_def draft_db_def)
  then show ?thesis unfolding saveDraft_def draft_accepted by (simp add: draft_checked st)
qed

theorem draft_retry_is_idempotent_witness:
  "\<exists>resp db'. saveDraft (\<lambda>s. s) (\<lambda>s. s) (\<lambda>_. True) 0 draft_db ''t'' 7 draft_plan = (Inr resp, db')
     \<and> saveDraft (\<lambda>s. s) (\<lambda>s. s) (\<lambda>_. True) 9 db' ''t'' 7 draft_plan = (Inr resp, db')"
proof -
  obtain resp db' where s: "saveDraft (\<lambda>s. s) (\<lambda>s. s) (\<lambda>_. True) 0 draft_db ''t'' 7 draft_plan = (Inr resp, db')" using draft_saved by blast
  have "same_access db' db'" by (simp add: same_access_def)
  from draft_retry_is_idempotent[OF s this refl] s show ?thesis by blast
qed

theorem saved_plan_reads_back_witness:
  "\<exists>resp db' view. saveDraft (\<lambda>s. s) (\<lambda>s. s) (\<lambda>_. True) 0 draft_db ''t'' 7 draft_plan = (Inr resp, db')
     \<and> getPlan (\<lambda>_. True) db' ''t'' 7 None = Inr view \<and> vw_revision view = 1"
proof -
  obtain resp db' where s: "saveDraft (\<lambda>s. s) (\<lambda>s. s) (\<lambda>_. True) 0 draft_db ''t'' 7 draft_plan = (Inr resp, db')" using draft_saved by blast
  have "plan_db_ok draft_db" by (simp add: plan_db_ok_def plan_head_def draft_db_def)
  moreover have "find_receipt draft_db ''t'' 7 (field_text draft_plan ''request_id'') = None" by (simp add: find_receipt_def draft_db_def)
  moreover have "field_int draft_plan ''expected_revision'' = 0" by (simp add: draft_plan_def draft_fields)
  ultimately show ?thesis using saved_plan_reads_back[OF _ s] s by fastforce
qed

end
