(* ===== verification/Team_Scheduler.thy ===== *)
theory Team_Scheduler
  imports Team_Plan_Service
begin

text \<open>
  The scheduler of plan steps (\<open>relay/src/team/step-scheduler.ts\<close>) with the budget it checks
  (\<open>budget-repository.ts\<close>) over the tables of \<open>plan-schema.ts\<close> and \<open>delivery-schema.ts\<close>: reconciling attempts
  with their calls, choosing the next step that is ready, and reserving an attempt for it. A pass is one
  transaction; an exception rolls it back. Freezing the accepted inputs and appending the message that
  creates the call belong to other services and are parameters, as are the rows other transactions hold
  (\<open>NOWAIT\<close>), the identifiers and the clock. The text of the message is not modelled.
\<close>

section \<open>Tables\<close>

record plan_runtime =
  ru_task_id :: string
  ru_plan_revision :: int
  ru_revision :: int
  ru_state :: string
  ru_initiator_user_id :: int
  ru_invocation_limit :: int
  ru_budget_policy :: json
  ru_started_at :: int

record delivery_head =
  dh_attempt_id :: string
  dh_task_id :: string
  dh_spec_revision :: int
  dh_revision :: int
  dh_latest_submission_id :: "string option"

record acceptance_row =
  ad_task_id :: string
  ad_submission_id :: string
  ad_decision :: string

text \<open>
  The tables of the plan drafts and the further ones: runtimes, delivery heads of attempts, acceptance decisions,
  specifications by task, delivery specifications of calls, the outbox with task, kind and payload, and the
  receipts of controls.
\<close>

record exec_db =
  xd_plan :: plan_db
  xd_runtimes :: "plan_runtime list"
  xd_step_heads :: "delivery_head list"
  xd_decisions :: "acceptance_row list"
  xd_specs :: "(string \<times> int) list"
  xd_call_specs :: "(string \<times> string \<times> int) list"
  xd_outbox :: "(string \<times> string \<times> json) list"
  xd_control_receipts :: "plan_receipt list"

text \<open>
  What a pass depends on besides the tables: \<open>freezeAcceptedPlanInputs\<close> for a task, a plan revision, a step and
  the selected attempts, and \<open>appendMessage\<close> for a session, an actor, a step and an offer, which returns the
  identifiers of the calls it created.
\<close>

record scheduler_env =
  se_enabledForTeam :: "string \<Rightarrow> bool"
  se_busy_call :: "string \<Rightarrow> bool"
  se_busy_offer :: "string \<Rightarrow> bool"
  se_freeze :: "exec_db \<Rightarrow> string \<Rightarrow> int \<Rightarrow> string \<Rightarrow> (string \<times> string \<times> string option) list \<Rightarrow> team_failure + json list"
  se_append :: "exec_db \<Rightarrow> string \<Rightarrow> int \<Rightarrow> json \<Rightarrow> string \<Rightarrow> team_failure + string list"
  se_attempt_id :: string
  se_now :: int
  se_later :: int

section \<open>Attempts and calls\<close>

text \<open>The states an attempt is not reconciled from, and those of a call that may still run.\<close>

definition SETTLED_STATES :: "string list" where
  "SETTLED_STATES = [''accepted'', ''failed'', ''cancelled'', ''awaiting_review'']"

definition OPEN_CALL_STATES :: "string list" where
  "OPEN_CALL_STATES = [''pending'', ''dispatched'', ''accepted'', ''uncertain'']"

text \<open>The attempts of a task, later ones of a step before earlier ones.\<close>

definition task_attempts :: "exec_db \<Rightarrow> string \<Rightarrow> step_attempt list" where
  "task_attempts db t = sort_key (\<lambda>a. - at_attempt_no a) (filter (\<lambda>a. at_task_id a = t) (pd_attempts (xd_plan db)))"

definition latest_attempt :: "step_attempt list \<Rightarrow> string \<Rightarrow> step_attempt option" where
  "latest_attempt attempts i = find (\<lambda>a. at_step_id a = i) attempts"

definition task_calls :: "exec_db \<Rightarrow> string \<Rightarrow> call_row list" where
  "task_calls db t = filter (\<lambda>c. ca_task_id c = Some t) (pd_calls (xd_plan db))"

definition call_of :: "call_row list \<Rightarrow> step_attempt \<Rightarrow> call_row option" where
  "call_of calls a = (case at_call_id a of None \<Rightarrow> None | Some i \<Rightarrow> find (\<lambda>c. ca_call_id c = i) calls)"

definition attempt_changes :: "call_row list \<Rightarrow> step_attempt list \<Rightarrow> (string \<times> string) list" where
  "attempt_changes calls attempts = concat (map (\<lambda>a.
     if at_state a \<in> set SETTLED_STATES then []
     else (case call_of calls a of
             None \<Rightarrow> []
           | Some c \<Rightarrow>
               (let s = reconciledAttemptState (at_state a) (ca_state c) in if s \<noteq> at_state a then [(at_attempt_id a, s)] else []))) attempts)"

text \<open>The triggers on the tables of a plan signal the wakeup of its task.\<close>

definition wake :: "int \<Rightarrow> string \<Rightarrow> plan_db \<Rightarrow> plan_db" where
  "wake now t p = p\<lparr>pd_wakeups := signal_team_step_wakeup (fst ` set (pd_heads p)) now t (pd_wakeups p)\<rparr>"

definition set_attempt_state :: "int \<Rightarrow> string \<Rightarrow> string \<times> string \<Rightarrow> exec_db \<Rightarrow> exec_db" where
  "set_attempt_state now t change db = db\<lparr>xd_plan := wake now t ((xd_plan db)\<lparr>pd_attempts :=
     map (\<lambda>a. if at_attempt_id a = fst change then a\<lparr>at_state := snd change\<rparr> else a) (pd_attempts (xd_plan db))\<rparr>)\<rparr>"

section \<open>The budget\<close>

definition policy_limit :: "json \<Rightarrow> string \<Rightarrow> int option" where
  "policy_limit policy k = (case obj_field policy k of Some (JNum n) \<Rightarrow> Some n | _ \<Rightarrow> None)"

definition duration_exhausted :: "int \<Rightarrow> plan_runtime \<Rightarrow> bool" where
  "duration_exhausted now r = (case policy_limit (ru_budget_policy r) ''max_duration_seconds'' of
     None \<Rightarrow> False | Some n \<Rightarrow> 1000000 * n \<le> now - ru_started_at r)"

definition attempt_in_flight :: "call_row list \<Rightarrow> step_attempt \<Rightarrow> bool" where
  "attempt_in_flight calls a = (case call_of calls a of
     Some c \<Rightarrow> ca_state c \<in> set OPEN_CALL_STATES
   | None \<Rightarrow> at_state a \<in> {''reserved'', ''dispatched'', ''running'', ''unknown''})"

definition plan_budget :: "int \<Rightarrow> exec_db \<Rightarrow> plan_runtime \<Rightarrow> budget_snapshot" where
  "plan_budget now db r =
     (let attempts = filter (\<lambda>a. at_task_id a = ru_task_id r) (pd_attempts (xd_plan db)) in
      \<lparr>bs_invocation_count = int (length attempts), bs_invocation_limit = ru_invocation_limit r,
       bs_in_flight = int (length (filter (attempt_in_flight (pd_calls (xd_plan db))) attempts)),
       bs_max_concurrent_calls = policy_limit (ru_budget_policy r) ''max_concurrent_calls'',
       bs_duration_exhausted = duration_exhausted now r\<rparr>)"

section \<open>Retries\<close>

record retry_request =
  rq_actor :: int
  rq_attemptId :: string
  rq_deliveryRevision :: int
  rq_newVersionReason :: "string option"

definition has_decision :: "exec_db \<Rightarrow> string option \<Rightarrow> (acceptance_row \<Rightarrow> bool) \<Rightarrow> bool" where
  "has_decision db submission p = (case submission of None \<Rightarrow> False
     | Some s \<Rightarrow> list_ex (\<lambda>d. ad_submission_id d = s \<and> p d) (xd_decisions db))"

text \<open>
  The attempt a retry or a new version follows: the latest of its step, with the delivery revision the caller saw,
  and with a failed or cancelled call, requested changes, or for a new version an accepted delivery.
\<close>

definition retry_attempt :: "exec_db \<Rightarrow> string \<Rightarrow> call_row list \<Rightarrow> step_attempt list \<Rightarrow> retry_request \<Rightarrow> team_failure + step_attempt" where
  "retry_attempt db t calls attempts q =
     (case find (\<lambda>a. at_attempt_id a = rq_attemptId q) attempts of
        None \<Rightarrow> Inl (TeamRepositoryError ''revision_conflict'' ''retry requires the latest step attempt'')
      | Some a \<Rightarrow>
          if map_option at_attempt_id (latest_attempt attempts (at_step_id a)) \<noteq> Some (rq_attemptId q)
            then Inl (TeamRepositoryError ''revision_conflict'' ''retry requires the latest step attempt'')
          else
            (case find (\<lambda>h. dh_attempt_id h = rq_attemptId q) (xd_step_heads db) of
               None \<Rightarrow> Inl (TeamRepositoryError ''revision_conflict'' ''step delivery changed before retry'')
             | Some h \<Rightarrow>
                 if dh_revision h \<noteq> rq_deliveryRevision q then Inl (TeamRepositoryError ''revision_conflict'' ''step delivery changed before retry'')
                 else
                   (case call_of calls a of
                      None \<Rightarrow> Inl (TeamRepositoryError ''invalid_state'' ''reconcile the original Call; retry requires a known failure, cancellation or requested changes'')
                    | Some c \<Rightarrow>
                        (let rejected = (ca_state c = ''completed'' \<and> at_state a = ''awaiting_review''
                               \<and> has_decision db (dh_latest_submission_id h) (\<lambda>d. ad_decision d = ''changes_requested''));
                             accepted = (ca_state c = ''completed'' \<and> at_state a = ''accepted'' \<and> at_accepted_submission_id a = dh_latest_submission_id h
                               \<and> has_decision db (dh_latest_submission_id h) (\<lambda>d. ad_task_id d = t \<and> ad_decision d = ''accepted''));
                             refused = (case rq_newVersionReason q of
                                 Some _ \<Rightarrow> \<not> accepted
                               | None \<Rightarrow> at_state a = ''accepted'' \<or> (ca_state c \<notin> {''failed'', ''blocked'', ''cancelled''} \<and> \<not> rejected)) in
                         if refused
                           then Inl (TeamRepositoryError ''invalid_state'' ''reconcile the original Call; retry requires a known failure, cancellation or requested changes'')
                         else if reconciledAttemptState (at_state a) (ca_state c) \<noteq> at_state a
                           then Inl (TeamRepositoryError ''invalid_state'' ''reconcile the original Call before retry'')
                         else Inr a))))"

section \<open>Candidates\<close>

text \<open>The steps a pass may start: new ones, or the one that is retried, with every dependency accepted.\<close>

definition startable_steps :: "step_attempt list \<Rightarrow> step_attempt option \<Rightarrow> json list \<Rightarrow> json list" where
  "startable_steps attempts retried steps = filter (\<lambda>s.
     (case retried of Some a \<Rightarrow> step_name s = at_step_id a | None \<Rightarrow> latest_attempt attempts (step_name s) = None)
     \<and> list_all (\<lambda>d. map_option at_state (latest_attempt attempts d) = Some ''accepted'') (depends_on s)) steps"

definition STEP_CAPABILITIES :: "string list" where
  "STEP_CAPABILITIES = DELIVERY_CAPABILITIES @ [''team_task_steps_v1'']"

text \<open>The bindings of an offer that can execute steps in the session.\<close>

definition step_bindings :: "plan_db \<Rightarrow> string \<Rightarrow> string \<Rightarrow> string \<Rightarrow> string list" where
  "step_bindings p sessionId teamId offerId =
     [bi_binding_id b. x \<leftarrow> pd_offers p, of_team_id x = teamId, of_state x = ''active'', of_offer_id x = offerId,
        b \<leftarrow> pd_bindings p, bi_offer_id b = of_offer_id x, bi_team_session_id b = sessionId, bi_state b = ''active'',
        m \<leftarrow> pd_memberships p, mb_team_id m = of_team_id x, mb_user_id m = of_owner_user_id x, mb_state m = ''active'', mb_role m \<noteq> ''viewer'',
        u \<leftarrow> pd_users p, fst u = of_owner_user_id x, snd u,
        d \<leftarrow> pd_daemons p, dm_daemon_id d = of_daemon_id x, dm_user_id d = of_owner_user_id x, dm_status d = ''online'',
          list_all (\<lambda>c. c \<in> set (dm_capabilities d)) STEP_CAPABILITIES]"

definition writable_member :: "plan_db \<Rightarrow> string \<Rightarrow> int \<Rightarrow> bool" where
  "writable_member p teamId user = list_ex (\<lambda>m. mb_team_id m = teamId \<and> mb_user_id m = user \<and> mb_state m = ''active'' \<and> mb_role m \<noteq> ''viewer'') (pd_memberships p)"

text \<open>\<open>requireBoundedStepInputs\<close> of \<open>step-input-service.ts\<close>.\<close>

definition requireBoundedStepInputs :: "(string \<Rightarrow> 'k::linorder) \<Rightarrow> json list \<Rightarrow> team_failure option" where
  "requireBoundedStepInputs collation inputs =
     (let artifacts = concat (map (\<lambda>i. array_items (obj_field i ''artifacts'')) inputs) in
      if 128 < length artifacts \<or> 67108864 < sum_list (map (\<lambda>a. field_int a ''byte_size'') artifacts)
          \<or> 131072 < utf8_length (stableJSON collation (JArr inputs))
      then Some (TeamRepositoryError ''input_limit_exceeded'' ''step inputs exceed the bounded materialization limit'') else None)"

definition no_code :: "string \<Rightarrow> team_failure" where
  "no_code m = TeamRepositoryError [] m"

text \<open>One round of the loop: offer, binding, inputs and call of the step, or the exception.\<close>

definition step_candidate ::
  "(string \<Rightarrow> 'k::linorder) \<Rightarrow> scheduler_env \<Rightarrow> exec_db \<Rightarrow> task_row \<Rightarrow> plan_revision_row \<Rightarrow> int \<Rightarrow> step_attempt list \<Rightarrow> json
    \<Rightarrow> team_failure + (string \<times> string \<times> json list \<times> string)" where
  "step_candidate collation env db task plan actor attempts s =
     (let p = xd_plan db; sid = pv_team_session_id plan; reviewer = field_int (step_policy s) ''reviewer_user_id''; offer = field_text (step_policy s) ''primary_offer_id'' in
      if \<not> teamAccountsEnabled p [reviewer] \<or> \<not> writable_member p (tk_team_id task) reviewer
        then Inl (TeamRepositoryError ''reviewer_required'' ''step reviewer unavailable'')
      else (case step_bindings p sid (tk_team_id task) offer of
              [] \<Rightarrow> Inl (TeamRepositoryError ''capability_not_supported'' ''selected Agent cannot execute steps'')
            | binding # _ \<Rightarrow>
                if se_busy_offer env offer then Inl (TeamRepositoryError ''55P03'' ''could not obtain lock'')
                else if list_ex (\<lambda>c. ca_binding_id c = Some binding \<and> ca_state c \<in> set OPEN_CALL_STATES) (pd_calls p)
                  then Inl (TeamRepositoryError ''agent_unavailable'' ''selected native session is busy; retry the same wakeup'')
                else
                  (case se_freeze env db (tk_task_id task) (pv_revision plan) (step_name s)
                      (map (\<lambda>d. let a = the (latest_attempt attempts d) in (d, at_attempt_id a, at_accepted_submission_id a)) (depends_on s)) of
                     Inl e \<Rightarrow> Inl e
                   | Inr inputs \<Rightarrow>
                       (case requireBoundedStepInputs collation inputs of
                          Some e \<Rightarrow> Inl e
                        | None \<Rightarrow>
                            (case se_append env db sid actor s offer of
                               Inl e \<Rightarrow> Inl e
                             | Inr [call] \<Rightarrow> Inr (offer, binding, inputs, call)
                             | Inr _ \<Rightarrow> Inl (no_code ''step requires exactly one Call''))))))"

definition BLOCKED_CODES :: "string list" where
  "BLOCKED_CODES = [''55P03'', ''reviewer_required'', ''capability_not_supported'', ''agent_unavailable'', ''artifact_unavailable'', ''acceptance_required'',
     ''evidence_required'', ''revision_conflict'', ''team_feature_disabled'', ''offer_owner_required'', ''no_callable_agent'', ''input_limit_exceeded'']"

text \<open>
  The loop over the candidates: a blocked step lets the next one have its turn, another exception ends the pass. Each
  round ends in a rollback to its savepoint or is the last one, so the tables are those before the loop.
\<close>

primrec select_candidate :: "(json \<Rightarrow> team_failure + 'c) \<Rightarrow> team_failure \<Rightarrow> json list \<Rightarrow> team_failure + (json \<times> 'c)" where
  "select_candidate candidate lastBlocked [] = Inl lastBlocked"
| "select_candidate candidate lastBlocked (s # ss) =
     (case candidate s of
        Inr c \<Rightarrow> Inr (s, c)
      | Inl e \<Rightarrow> if tf_code e \<in> set BLOCKED_CODES then select_candidate candidate e ss else Inl e)"

section \<open>The reservation\<close>

definition next_spec :: "exec_db \<Rightarrow> string \<Rightarrow> int" where
  "next_spec db t = Max (insert 0 (snd ` set (filter (\<lambda>(t', r). t' = t) (xd_specs db)))) + 1"

definition begin_task :: "string \<Rightarrow> plan_db \<Rightarrow> plan_db" where
  "begin_task t p = p\<lparr>pd_tasks := map (\<lambda>k. if tk_task_id k = t then k\<lparr>tk_state := ''in_progress''\<rparr> else k) (pd_tasks p)\<rparr>"

definition new_attempt :: "(string \<Rightarrow> string) \<Rightarrow> (string \<Rightarrow> 'k::linorder) \<Rightarrow> string \<Rightarrow> string \<Rightarrow> plan_runtime \<Rightarrow> step_attempt option \<Rightarrow> int \<Rightarrow> json \<Rightarrow> json list \<Rightarrow> string \<Rightarrow> step_attempt" where
  "new_attempt sha256 collation i t runtime retried leaseToken s inputs call =
     \<lparr>at_attempt_id = i, at_task_id = t, at_plan_revision = ru_plan_revision runtime, at_step_id = step_name s,
      at_attempt_no = (case retried of Some a \<Rightarrow> at_attempt_no a + 1 | None \<Rightarrow> 1), at_state = ''reserved'', at_call_id = Some call,
      at_accepted_submission_id = None, at_lease_token = leaseToken, at_frozen_inputs = JArr inputs, at_input_hash = stableDigest sha256 collation (JArr inputs)\<rparr>"

text \<open>
  The writes of the reservation. \<open>appendMessage\<close> has created the call in the session, with the binding of the offer
  and the state \<open>pending\<close>; the insertion of the attempt and that of the outbox row signal the scheduler.
\<close>

definition reserve_step ::
  "scheduler_env \<Rightarrow> string \<Rightarrow> string \<Rightarrow> step_attempt \<Rightarrow> string \<Rightarrow> string \<Rightarrow> exec_db \<Rightarrow> exec_db" where
  "reserve_step env t sid a binding call db =
     (let spec = next_spec db t; p = xd_plan db;
          p1 = begin_task t (p\<lparr>pd_calls := pd_calls p @ [\<lparr>ca_call_id = call, ca_task_id = Some t, ca_team_session_id = sid, ca_binding_id = Some binding, ca_state = ''pending''\<rparr>]\<rparr>);
          p2 = wake (se_now env) t (p1\<lparr>pd_attempts := pd_attempts p1 @ [a]\<rparr>);
          payload = JObj [(''attempt_id'', JStr (at_attempt_id a)), (''call_id'', JStr call), (''plan_revision'', JNum (at_plan_revision a)), (''step_id'', JStr (at_step_id a))] in
      db\<lparr>xd_plan := wake (se_now env) t p2,
         xd_specs := xd_specs db @ [(t, spec)],
         xd_call_specs := xd_call_specs db @ [(call, t, spec)],
         xd_step_heads := xd_step_heads db @ [\<lparr>dh_attempt_id = at_attempt_id a, dh_task_id = t, dh_spec_revision = spec, dh_revision = 1, dh_latest_submission_id = None\<rparr>],
         xd_outbox := xd_outbox db @ [(t, ''step_reserved'', payload)]\<rparr>)"

section \<open>A pass\<close>

datatype StepAdvanceResult = Inactive | Waiting | Reconciled | Reserved string string

definition find_runtime :: "exec_db \<Rightarrow> string \<Rightarrow> plan_runtime option" where
  "find_runtime db t = find (\<lambda>r. ru_task_id r = t) (xd_runtimes db)"

definition find_revision :: "plan_db \<Rightarrow> string \<Rightarrow> int \<Rightarrow> plan_revision_row option" where
  "find_revision p t r = find (\<lambda>v. pv_task_id v = t \<and> pv_revision v = r) (pd_revisions p)"

text \<open>The join of runtime, task and plan revision.\<close>

definition plan_identity :: "exec_db \<Rightarrow> string \<Rightarrow> (plan_runtime \<times> task_row \<times> plan_revision_row) option" where
  "plan_identity db t =
     (case (find_runtime db t, find_task (xd_plan db) t) of
        (Some r, Some k) \<Rightarrow> (case find_revision (xd_plan db) t (ru_plan_revision r) of Some v \<Rightarrow> Some (r, k, v) | None \<Rightarrow> None)
      | _ \<Rightarrow> None)"

definition controls_task :: "plan_db \<Rightarrow> task_row \<Rightarrow> int \<Rightarrow> bool" where
  "controls_task p task actor =
     (list_ex (\<lambda>m. tm_team_id m = tk_team_id task \<and> tm_state m = ''active'') (pd_teams p)
      \<and> (case find (\<lambda>m. mb_team_id m = tk_team_id task \<and> mb_user_id m = actor \<and> mb_state m = ''active'') (pd_memberships p) of
           None \<Rightarrow> False
         | Some m \<Rightarrow> mb_role m \<noteq> ''viewer'' \<and> (mb_role m = ''admin'' \<or> tk_creator_user_id task = actor)))"

definition session_active :: "plan_db \<Rightarrow> string \<Rightarrow> bool" where
  "session_active p sid = list_ex (\<lambda>s. cs_team_session_id s = sid \<and> cs_state s = ''active'') (pd_sessions p)"

definition participates :: "plan_db \<Rightarrow> string \<Rightarrow> int \<Rightarrow> bool" where
  "participates p sid user = list_ex (\<lambda>q. pt_team_session_id q = sid \<and> pt_user_id q = user \<and> pt_state q = ''active'') (pd_participants p)"

text \<open>The reservation of the next step, after the attempts agree with their calls.\<close>

definition reserve_next ::
  "(string \<Rightarrow> string) \<Rightarrow> (string \<Rightarrow> 'k::linorder) \<Rightarrow> scheduler_env \<Rightarrow> exec_db \<Rightarrow> plan_runtime \<Rightarrow> task_row \<Rightarrow> plan_revision_row \<Rightarrow> int \<Rightarrow> int
    \<Rightarrow> step_attempt option \<Rightarrow> (team_failure + StepAdvanceResult) \<times> exec_db" where
  "reserve_next sha256 collation env db runtime task plan actor leaseToken retried =
     (let t = tk_task_id task; attempts = task_attempts db t;
          ready = startable_steps attempts retried (snapshot_steps (xd_plan db) t (ru_plan_revision runtime)) in
      if ready = [] then
        (if retried = None then Inr Waiting else Inl (TeamRepositoryError ''acceptance_required'' ''retry dependencies are not accepted''), db)
      else
        (case requireTaskBudgetCapacity (plan_budget (se_now env) db runtime) of
           Some e \<Rightarrow> (Inl e, db)
         | None \<Rightarrow>
             (case select_candidate (step_candidate collation env db task plan actor attempts) (no_code []) ready of
                Inl e \<Rightarrow> (Inl e, db)
              | Inr (s, offer, binding, inputs, call) \<Rightarrow>
                  (let a = new_attempt sha256 collation (se_attempt_id env) t runtime retried leaseToken s inputs call in
                   if duration_exhausted (se_later env) runtime
                     then (Inl (TeamRepositoryError ''budget_exhausted'' ''plan duration limit reached; issued Calls are not stopped''), db)
                   else (Inr (Reserved (at_attempt_id a) call), reserve_step env t (pv_team_session_id plan) a binding call db)))))"

text \<open>
  \<open>advance\<close>. The runtime is read twice in the code, before and after the locks; here a pass reads one state of the
  tables, in which the initiator is the actor of a pass without a retry.
\<close>

definition advance_step ::
  "(string \<Rightarrow> string) \<Rightarrow> (string \<Rightarrow> 'k::linorder) \<Rightarrow> scheduler_env \<Rightarrow> exec_db \<Rightarrow> string \<Rightarrow> int \<Rightarrow> retry_request option
    \<Rightarrow> (team_failure + StepAdvanceResult) \<times> exec_db" where
  "advance_step sha256 collation env db t leaseToken retry =
     (case plan_identity db t of
        None \<Rightarrow> (Inr Inactive, db)
      | Some (runtime, task, plan) \<Rightarrow>
          (let p = xd_plan db; sid = pv_team_session_id plan; actor = (case retry of Some q \<Rightarrow> rq_actor q | None \<Rightarrow> ru_initiator_user_id runtime);
               calls = task_calls db t; attempts = task_attempts db t; changes = attempt_changes calls attempts in
           if \<not> se_enabledForTeam env (tk_team_id task) then (Inr Inactive, db)
           else if \<not> teamAccountsEnabled p [actor] then (Inl (TeamRepositoryError ''team_access_denied'' ''Team is not enabled for this account''), db)
           else if \<not> controls_task p task actor then (Inl (TeamRepositoryError ''creator_required'' ''plan initiator is no longer authorized''), db)
           else if tk_state task \<notin> {''open'', ''in_progress''} \<or> \<not> session_active p sid then (Inr Inactive, db)
           else if \<not> participates p sid actor then (Inl (TeamRepositoryError ''participant_required'' ''plan initiator left the session''), db)
           else if list_ex (\<lambda>c. se_busy_call env (ca_call_id c)) calls then (Inl (TeamRepositoryError ''55P03'' ''could not obtain lock''), db)
           else if changes \<noteq> [] \<and> retry = None then (Inr Reconciled, fold (set_attempt_state (se_now env) t) changes db)
           else if ru_state runtime \<noteq> ''active'' then (Inr Inactive, db)
           else (case retry of
                   None \<Rightarrow> reserve_next sha256 collation env db runtime task plan actor leaseToken None
                 | Some q \<Rightarrow>
                     (case retry_attempt db t calls attempts q of
                        Inl e \<Rightarrow> (Inl e, db)
                      | Inr a \<Rightarrow> reserve_next sha256 collation env db runtime task plan actor leaseToken (Some a)))))"

text \<open>\<open>process\<close>: the pass inside the fenced transaction of a wakeup; a lock that was not free is reported as busy.\<close>

definition busy_source :: "team_failure \<Rightarrow> team_failure" where
  "busy_source e = (if tf_code e = ''55P03'' then TeamRepositoryError ''source_busy'' ''step source is busy; retry the original wakeup'' else e)"

definition advance_callback ::
  "(string \<Rightarrow> string) \<Rightarrow> (string \<Rightarrow> 'k::linorder) \<Rightarrow> scheduler_env \<Rightarrow> StepWakeupClaim \<Rightarrow> step_wakeup list \<times> exec_db
    \<Rightarrow> team_failure + (StepAdvanceResult \<times> step_wakeup list \<times> exec_db)" where
  "advance_callback sha256 collation env c x =
     (case advance_step sha256 collation env ((snd x)\<lparr>xd_plan := (xd_plan (snd x))\<lparr>pd_wakeups := fst x\<rparr>\<rparr>) (wc_task_id c) (wc_lease_token c) None of
        (Inl e, _) \<Rightarrow> Inl (busy_source e)
      | (Inr r, db) \<Rightarrow> Inr (r, pd_wakeups (xd_plan db), db))"

definition scheduler_process ::
  "(string \<Rightarrow> string) \<Rightarrow> (string \<Rightarrow> 'k::linorder) \<Rightarrow> scheduler_env \<Rightarrow> StepWakeupClaim \<Rightarrow> exec_db \<Rightarrow> ((wakeup_error + team_failure) + StepAdvanceResult) \<times> exec_db" where
  "scheduler_process sha256 collation env c db =
     (case processClaim (se_now env) (se_later env) (advance_callback sha256 collation env c) c (pd_wakeups (xd_plan db), db) of
        (res, rows, db') \<Rightarrow> (res, db'\<lparr>xd_plan := (xd_plan db')\<lparr>pd_wakeups := rows\<rparr>\<rparr>))"

end
