(* ===== verification/Team_Control.thy ===== *)
theory Team_Control
  imports Team_Scheduler
begin

text \<open>
  The control of plan execution (\<open>relay/src/team/plan-execution-service.ts\<close>): activating, pausing, resuming and
  cancelling a plan, adopting a newer revision, retrying a step and reconciling an attempt with its call. A
  request is the value \<open>JSON.parse\<close> made of it; it carries the revision of the runtime its author saw, and a
  receipt makes it repeatable. \<open>getExecution\<close> and \<open>lookupReceipt\<close> only read and are left out.
\<close>

section \<open>The request\<close>

definition CONTROL_ACTIONS :: "string list" where
  "CONTROL_ACTIONS = [''activate'', ''pause'', ''resume'', ''adopt_revision'', ''cancel'', ''retry'', ''reconcile'', ''new_version'']"

definition CONTROL_FIELDS :: "string list" where
  "CONTROL_FIELDS = [''request_id'', ''expected_revision'', ''plan_revision'', ''action'', ''invocation_limit'', ''budget'', ''attempt_id'',
     ''expected_delivery_revision'', ''reason'']"

definition control_action :: "json \<Rightarrow> string" where
  "control_action v = field_text v ''action''"

definition step_action :: "string \<Rightarrow> bool" where
  "step_action a = (a \<in> {''retry'', ''reconcile'', ''new_version''})"

definition enables_work :: "string \<Rightarrow> bool" where
  "enables_work a = (a \<in> {''activate'', ''resume'', ''adopt_revision''})"

definition validate_control :: "string \<Rightarrow> json \<Rightarrow> team_failure option" where
  "validate_control taskId v =
     (let act = control_action v; given = (\<lambda>k. obj_field v k \<noteq> None) in first_error
        [refuse_if (case v of JObj _ \<Rightarrow> False | _ \<Rightarrow> True) ''invalid plan control request'',
         boundedText (Some (JStr taskId)) ''task_id'' 128 False,
         boundedText (obj_field v ''request_id'') ''request_id'' 128 False,
         refuse_if (act \<notin> set CONTROL_ACTIONS \<or> \<not> safe_at_least 0 (obj_field v ''expected_revision'') \<or> \<not> safe_at_least 1 (obj_field v ''plan_revision'')
             \<or> \<not> closed_object v CONTROL_FIELDS) ''invalid plan control request'',
         refuse_if (if act = ''activate'' then \<not> safe_at_least 1 (obj_field v ''invocation_limit'') \<or> 128 < field_int v ''invocation_limit'' else given ''invocation_limit'')
           ''activation requires an explicit invocation limit; later controls cannot reset it'',
         (case obj_field v ''budget'' of
            None \<Rightarrow> None
          | Some b \<Rightarrow> if act \<noteq> ''activate'' then Some (deliveryInvalid ''an activated plan budget cannot be reset'') else validateTaskBudget b),
         (if act = ''new_version'' then boundedText (obj_field v ''reason'') ''reason'' 1000 False
          else refuse_if (given ''reason'') ''reason is only valid for new versions''),
         refuse_if (if step_action act then (case obj_field v ''attempt_id'' of Some (JStr i) \<Rightarrow> \<not> uuid_text False i | _ \<Rightarrow> True) else given ''attempt_id'')
           ''step recovery requires an exact attempt identity'',
         refuse_if (if act \<in> {''retry'', ''new_version''} then \<not> safe_at_least 1 (obj_field v ''expected_delivery_revision'') else given ''expected_delivery_revision'')
           ''retry requires the current step delivery revision''])"

text \<open>The author's access, the plan revision named in the request and its session.\<close>

definition control_request :: "exec_db \<Rightarrow> string \<Rightarrow> int \<Rightarrow> json \<Rightarrow> team_failure + (task_row \<times> plan_revision_row \<times> collaboration_session)" where
  "control_request db taskId actor v =
     (case task_member (xd_plan db) taskId actor of
        Inl e \<Rightarrow> Inl e
      | Inr (task, role) \<Rightarrow>
     (case find_revision (xd_plan db) taskId (field_int v ''plan_revision'') of
        None \<Rightarrow> Inl (not_found ''plan not found'')
      | Some plan \<Rightarrow>
     (case find (\<lambda>s. cs_team_session_id s = pv_team_session_id plan \<and> cs_team_id s = tk_team_id task) (pd_sessions (xd_plan db)) of
        None \<Rightarrow> Inl (not_found ''task not found'')
      | Some session \<Rightarrow>
          if tk_state task = ''deleted'' then Inl (not_found ''task not found'')
          else if role = ''viewer'' \<or> (role \<noteq> ''admin'' \<and> tk_creator_user_id task \<noteq> actor)
            then Inl (TeamRepositoryError ''creator_required'' ''task creator or Team admin required'')
          else Inr (task, plan, session))))"

section \<open>The state of the runtime\<close>

definition runtime_revision :: "plan_runtime option \<Rightarrow> int" where
  "runtime_revision r = (case r of Some x \<Rightarrow> ru_revision x | None \<Rightarrow> 0)"

definition invalid_state :: "string \<Rightarrow> team_failure" where
  "invalid_state m = TeamRepositoryError ''invalid_state'' m"

definition fail_if :: "bool \<Rightarrow> team_failure \<Rightarrow> team_failure option" where
  "fail_if b e = (if b then Some e else None)"

lemma fail_if_None [simp]: "fail_if b e = None \<longleftrightarrow> \<not> b"
  by (simp add: fail_if_def)

definition control_state :: "plan_runtime option \<Rightarrow> json \<Rightarrow> team_failure option" where
  "control_state runtime v =
     (let act = control_action v in first_error
        [fail_if (runtime_revision runtime \<noteq> field_int v ''expected_revision'')
           \<lparr>tf_code = ''revision_conflict'', tf_message = ''plan execution control changed'', tf_current_revision = Some (runtime_revision runtime)\<rparr>,
         fail_if (if act = ''activate'' then runtime \<noteq> None else runtime = None) (invalid_state ''plan activation state does not match request''),
         (case runtime of
            None \<Rightarrow> None
          | Some r \<Rightarrow> first_error
              [fail_if (ru_state r = ''cancelled'' \<and> act \<noteq> ''reconcile'') (invalid_state ''cancelled plan execution cannot be resumed''),
               fail_if (act \<noteq> ''adopt_revision'' \<and> ru_plan_revision r \<noteq> field_int v ''plan_revision'')
                 (TeamRepositoryError ''revision_conflict'' ''active plan revision changed''),
               fail_if ((act = ''pause'' \<and> ru_state r \<noteq> ''active'') \<or> (act \<in> {''resume'', ''adopt_revision''} \<and> ru_state r \<noteq> ''paused''))
                 (invalid_state ''pause or resume boundary changed'')])])"

section \<open>Work on a step\<close>

text \<open>A retry or a new version reserves an attempt through the scheduler.\<close>

definition control_retry ::
  "(string \<Rightarrow> string) \<Rightarrow> (string \<Rightarrow> 'k::linorder) \<Rightarrow> scheduler_env \<Rightarrow> exec_db \<Rightarrow> task_row \<Rightarrow> collaboration_session \<Rightarrow> plan_runtime \<Rightarrow> int \<Rightarrow> json
    \<Rightarrow> team_failure + (json \<times> exec_db)" where
  "control_retry sha256 collation env db task session runtime actor v =
     (if \<not> se_enabledForTeam env (tk_team_id task) then Inl (TeamRepositoryError ''team_feature_disabled'' ''plan execution disabled'')
      else if ru_state runtime \<noteq> ''active'' \<or> tk_state task \<notin> {''open'', ''in_progress''} \<or> cs_state session \<noteq> ''active''
        then Inl (invalid_state ''retry requires active task, session and plan'')
      else
        (let q = \<lparr>rq_actor = actor, rq_attemptId = field_text v ''attempt_id'', rq_deliveryRevision = field_int v ''expected_delivery_revision'',
               rq_newVersionReason = (if control_action v = ''new_version'' then Some (field_text v ''reason'') else None)\<rparr> in
         case advance_step sha256 collation env db (tk_task_id task) 0 (Some q) of
           (Inl e, _) \<Rightarrow> Inl e
         | (Inr (Reserved i call), db') \<Rightarrow>
             Inr (JObj [(''previous_attempt_id'', JStr (field_text v ''attempt_id'')), (''attempt_id'', JStr i), (''call_id'', JStr call), (''attempt_state'', JStr ''reserved'')], db')
         | (Inr _, _) \<Rightarrow> Inl (invalid_state ''step retry did not reserve work'')))"

definition control_reconcile :: "scheduler_env \<Rightarrow> exec_db \<Rightarrow> string \<Rightarrow> json \<Rightarrow> team_failure + (json \<times> exec_db)" where
  "control_reconcile env db t v =
     (case find (\<lambda>a. at_task_id a = t \<and> at_attempt_id a = field_text v ''attempt_id'') (pd_attempts (xd_plan db)) of
        None \<Rightarrow> Inl (not_found ''step attempt not found'')
      | Some a \<Rightarrow>
          (case call_of (task_calls db t) a of
             None \<Rightarrow> Inl (invalid_state ''original step Call is unavailable'')
           | Some c \<Rightarrow>
               if se_busy_call env (ca_call_id c) then Inl (TeamRepositoryError ''55P03'' ''could not obtain lock'')
               else
                 (let s = reconciledAttemptState (at_state a) (ca_state c) in
                  Inr (JObj [(''attempt_id'', JStr (at_attempt_id a)), (''call_id'', JStr (ca_call_id c)), (''call_state'', JStr (ca_state c)), (''attempt_state'', JStr s),
                      (''new_call_created'', JBool False)],
                    if s \<noteq> at_state a then set_attempt_state (se_now env) t (at_attempt_id a, s) db else db))))"

section \<open>Enabling work\<close>

definition reviewers_writable :: "plan_db \<Rightarrow> string \<Rightarrow> json list \<Rightarrow> team_failure option" where
  "reviewers_writable p teamId steps =
     (let reviewers = sort (remdups (map (\<lambda>s. field_int (step_policy s) ''reviewer_user_id'') steps)) in first_error
        [fail_if (\<not> teamAccountsEnabled p reviewers) (TeamRepositoryError ''reviewer_required'' ''reviewer unavailable''),
         fail_if (length (filter (\<lambda>m. mb_team_id m = teamId \<and> mb_user_id m \<in> set reviewers \<and> mb_state m = ''active'' \<and> mb_role m \<noteq> ''viewer'') (pd_memberships p))
             \<noteq> length reviewers) (TeamRepositoryError ''reviewer_required'' ''reviewer must be a writable Team member'')])"

text \<open>The rows of the join over all offers of the steps.\<close>

definition offers_executable :: "plan_db \<Rightarrow> string \<Rightarrow> string \<Rightarrow> json list \<Rightarrow> team_failure option" where
  "offers_executable p sid teamId steps =
     (let offers = remdups (map (\<lambda>s. field_text (step_policy s) ''primary_offer_id'') steps) in
      fail_if (length (concat (map (step_bindings p sid teamId) offers)) \<noteq> length offers)
        (TeamRepositoryError ''capability_not_supported'' ''each selected Agent must support step execution''))"

definition unstarted_steps :: "plan_db \<Rightarrow> string \<Rightarrow> int \<Rightarrow> plan_step_row list" where
  "unstarted_steps p t r = filter (\<lambda>s. pst_task_id s = t \<and> pst_plan_revision s = r
     \<and> \<not> list_ex (\<lambda>a. at_task_id a = t \<and> at_step_id a = pst_step_id s) (pd_attempts p)) (pd_steps p)"

definition invocation_limit :: "plan_runtime option \<Rightarrow> json \<Rightarrow> int" where
  "invocation_limit runtime v = (case runtime of Some r \<Rightarrow> ru_invocation_limit r | None \<Rightarrow> field_int v ''invocation_limit'')"

definition enable_checks ::
  "(string \<Rightarrow> string) \<Rightarrow> (string \<Rightarrow> 'k::linorder) \<Rightarrow> scheduler_env \<Rightarrow> exec_db \<Rightarrow> task_row \<Rightarrow> plan_revision_row \<Rightarrow> collaboration_session \<Rightarrow> plan_runtime option \<Rightarrow> int \<Rightarrow> json
    \<Rightarrow> team_failure option" where
  "enable_checks sha256 collation env db task plan session runtime actor v =
     (let p = xd_plan db; t = tk_task_id task; act = control_action v; r = field_int v ''plan_revision''; steps = snapshot_steps p t r in first_error
        [fail_if (\<not> se_enabledForTeam env (tk_team_id task)) (TeamRepositoryError ''team_feature_disabled'' ''plan execution disabled''),
         fail_if (tk_state task \<notin> {''open'', ''in_progress''} \<or> cs_state session \<noteq> ''active'') (invalid_state ''task and session must be active''),
         fail_if (\<not> participates p (pv_team_session_id plan) actor) (TeamRepositoryError ''participant_required'' ''active session participant required''),
         fail_if (act \<noteq> ''resume'' \<and> map_of (pd_heads p) t \<noteq> Some r) (TeamRepositoryError ''revision_conflict'' ''activate the current draft revision explicitly''),
         fail_if (case runtime of None \<Rightarrow> False
             | Some x \<Rightarrow> ru_plan_revision x \<noteq> r \<and> map_option pv_team_session_id (find_revision p t (ru_plan_revision x)) \<noteq> Some (pv_team_session_id plan))
           (deliveryInvalid ''an active plan cannot migrate shared sessions''),
         fail_if (map_of (pd_delivery_heads p) t \<noteq> Some (pv_spec_revision plan)) (TeamRepositoryError ''revision_conflict'' ''task specification changed since plan save''),
         fail_if (cs_current_context_version session \<noteq> pv_context_version plan)
           (TeamRepositoryError ''context_revision_conflict'' ''shared Context changed since plan save''),
         requireUnchangedStartedSteps sha256 collation steps (started_steps p t),
         reviewers_writable p (tk_team_id task) steps,
         offers_executable p (pv_team_session_id plan) (tk_team_id task) steps,
         fail_if (invocation_limit runtime v < int (length (filter (\<lambda>a. at_task_id a = t) (pd_attempts p))) + int (length (unstarted_steps p t r)))
           (TeamRepositoryError ''budget_exhausted'' ''plan invocation limit cannot cover the planned work''),
         fail_if (act = ''activate'' \<and> list_ex (\<lambda>c. ca_state c \<in> set OPEN_CALL_STATES) (task_calls db t))
           (invalid_state ''reconcile outstanding execution before activation'')])"

section \<open>The control\<close>

definition next_state :: "plan_runtime option \<Rightarrow> string \<Rightarrow> string" where
  "next_state runtime act =
     (if step_action act then (case runtime of Some r \<Rightarrow> ru_state r | None \<Rightarrow> [])
      else if act = ''cancel'' then ''cancelled'' else if act \<in> {''pause'', ''adopt_revision''} then ''paused'' else ''active'')"

definition plan_policy :: "plan_runtime option \<Rightarrow> json \<Rightarrow> json" where
  "plan_policy runtime v = (case runtime of Some r \<Rightarrow> ru_budget_policy r
     | None \<Rightarrow> (case obj_field v ''budget'' of Some b \<Rightarrow> b | None \<Rightarrow> JObj []))"

text \<open>The upsert of the runtime: the limit, the budget and the start are those of the activation.\<close>

definition store_runtime :: "int \<Rightarrow> string \<Rightarrow> plan_runtime option \<Rightarrow> int \<Rightarrow> json \<Rightarrow> plan_runtime list \<Rightarrow> plan_runtime list" where
  "store_runtime now t runtime actor v rows =
     (let act = control_action v; state = next_state runtime act; r = field_int v ''plan_revision'' in
      case runtime of
        None \<Rightarrow> rows @ [\<lparr>ru_task_id = t, ru_plan_revision = r, ru_revision = 1, ru_state = state, ru_initiator_user_id = actor,
          ru_invocation_limit = field_int v ''invocation_limit'', ru_budget_policy = plan_policy None v, ru_started_at = now\<rparr>]
      | Some _ \<Rightarrow> map (\<lambda>x. if ru_task_id x = t then x\<lparr>ru_plan_revision := r, ru_revision := ru_revision x + 1, ru_state := state,
          ru_initiator_user_id := (if step_action act then ru_initiator_user_id x else actor)\<rparr> else x) rows)"

definition control_response :: "string \<Rightarrow> plan_runtime option \<Rightarrow> json \<Rightarrow> json option \<Rightarrow> json" where
  "control_response t runtime v recovery = JObj
     ([(''task_id'', JStr t), (''revision'', JNum (runtime_revision runtime + 1)), (''plan_revision'', JNum (field_int v ''plan_revision'')),
       (''state'', JStr (next_state runtime (control_action v))), (''invocation_limit'', JNum (invocation_limit runtime v)),
       (''budget'', plan_policy runtime v), (''issued_calls_stopped'', JBool False)]
      @ (case recovery of None \<Rightarrow> [] | Some x \<Rightarrow> [(''recovery'', x)]))"

text \<open>The writes; runtime and outbox signal the scheduler.\<close>

definition store_control ::
  "(string \<Rightarrow> string) \<Rightarrow> (string \<Rightarrow> 'k::linorder) \<Rightarrow> int \<Rightarrow> string \<Rightarrow> int \<Rightarrow> plan_runtime option \<Rightarrow> json \<Rightarrow> json option \<Rightarrow> exec_db \<Rightarrow> json \<times> exec_db" where
  "store_control sha256 collation now t actor runtime v recovery db =
     (let response = control_response t runtime v recovery;
          payload = JObj [(''plan_revision'', JNum (field_int v ''plan_revision'')), (''state'', JStr (next_state runtime (control_action v))),
            (''control_revision'', JNum (runtime_revision runtime + 1))] in
      (response, db\<lparr>xd_plan := wake now t (wake now t (xd_plan db)),
         xd_runtimes := store_runtime now t runtime actor v (xd_runtimes db),
         xd_outbox := xd_outbox db @ [(t, ''plan_control_changed'', payload)],
         xd_control_receipts := xd_control_receipts db @ [\<lparr>rc_task_id = t, rc_actor_user_id = actor, rc_request_id = field_text v ''request_id'',
           rc_request_hash = stableDigest sha256 collation v, rc_response = response\<rparr>]\<rparr>))"

definition find_control_receipt :: "exec_db \<Rightarrow> string \<Rightarrow> int \<Rightarrow> string \<Rightarrow> plan_receipt option" where
  "find_control_receipt db t actor requestId =
     find (\<lambda>r. rc_task_id r = t \<and> rc_actor_user_id r = actor \<and> rc_request_id r = requestId) (xd_control_receipts db)"

text \<open>What the action does before the runtime is written: a recovery of a step, or the checks that enable work.\<close>

definition control_effect ::
  "(string \<Rightarrow> string) \<Rightarrow> (string \<Rightarrow> 'k::linorder) \<Rightarrow> scheduler_env \<Rightarrow> exec_db \<Rightarrow> task_row \<Rightarrow> plan_revision_row \<Rightarrow> collaboration_session \<Rightarrow> plan_runtime option \<Rightarrow> int \<Rightarrow> json
    \<Rightarrow> team_failure + (json option \<times> exec_db)" where
  "control_effect sha256 collation env db task plan session runtime actor v =
     (let act = control_action v in
      if act = ''reconcile'' then map_sum id (map_prod Some id) (control_reconcile env db (tk_task_id task) v)
      else if step_action act then map_sum id (map_prod Some id) (control_retry sha256 collation env db task session (the runtime) actor v)
      else if enables_work act then
        (case enable_checks sha256 collation env db task plan session runtime actor v of Some e \<Rightarrow> Inl e | None \<Rightarrow> Inr (None, db))
      else Inr (None, db))"

definition control_busy :: "team_failure \<Rightarrow> team_failure" where
  "control_busy e = (if tf_code e = ''55P03'' then TeamRepositoryError ''source_busy'' ''original Call is busy; retry the same control request'' else e)"

definition control_plan ::
  "(string \<Rightarrow> string) \<Rightarrow> (string \<Rightarrow> 'k::linorder) \<Rightarrow> scheduler_env \<Rightarrow> exec_db \<Rightarrow> string \<Rightarrow> int \<Rightarrow> json \<Rightarrow> (team_failure + json) \<times> exec_db" where
  "control_plan sha256 collation env db taskId actor v =
     (case validate_control taskId v of
        Some e \<Rightarrow> (Inl e, db)
      | None \<Rightarrow>
     (case control_request db taskId actor v of
        Inl e \<Rightarrow> (Inl e, db)
      | Inr (task, plan, session) \<Rightarrow>
     (case find_control_receipt db taskId actor (field_text v ''request_id'') of
        Some prior \<Rightarrow>
          if rc_request_hash prior \<noteq> stableDigest sha256 collation v then (Inl (TeamRepositoryError ''idempotency_conflict'' ''request ID reused''), db)
          else (Inr (rc_response prior), db)
      | None \<Rightarrow>
          (let runtime = find_runtime db taskId in
           case control_state runtime v of
             Some e \<Rightarrow> (Inl e, db)
           | None \<Rightarrow>
               (case control_effect sha256 collation env db task plan session runtime actor v of
                  Inl e \<Rightarrow> (Inl (control_busy e), db)
                | Inr (recovery, db') \<Rightarrow>
                    (case store_control sha256 collation (se_now env) taskId actor runtime v recovery db' of (resp, db'') \<Rightarrow> (Inr resp, db'')))))))"

end
