(* ===== verification/Team_Execution.thy ===== *)
theory Team_Execution
  imports Team_Control
begin

text \<open>
  What holds over every run of the scheduler, the controls, the drafts and the rest of the relay on the tables of
  plan execution: the attempts of a step are numbered without gap and at most the last one is unsettled, the
  attempts of a task stay within the limit its activation named, and a cancelled plan starts nothing. A pass of
  the scheduler reserves one step, and only one whose dependencies are accepted.
\<close>

section \<open>What one operation does to the attempts\<close>

definition settled :: "step_attempt \<Rightarrow> bool" where
  "settled a \<longleftrightarrow> at_state a \<in> set SETTLED_STATES"

abbreviation attempts_of :: "exec_db \<Rightarrow> step_attempt list" where
  "attempts_of db \<equiv> pd_attempts (xd_plan db)"

definition attempt_key :: "step_attempt \<Rightarrow> string \<times> string \<times> string \<times> int" where
  "attempt_key a = (at_attempt_id a, at_task_id a, at_step_id a, at_attempt_no a)"

text \<open>An attempt keeps its identity, its step and its number, and stays settled.\<close>

definition moved :: "step_attempt \<Rightarrow> step_attempt \<Rightarrow> bool" where
  "moved a b \<longleftrightarrow> attempt_key b = attempt_key a \<and> (settled a \<longrightarrow> settled b)"

lemma moved_refl [simp]: "moved a a"
  by (simp add: moved_def)

lemma moved_list_refl [simp]: "list_all2 moved xs xs"
  by (simp add: list.rel_refl)

lemma wake_keeps [simp]: "pd_attempts (wake now t p) = pd_attempts p" "pd_revisions (wake now t p) = pd_revisions p" "pd_steps (wake now t p) = pd_steps p"
    "pd_calls (wake now t p) = pd_calls p" "pd_tasks (wake now t p) = pd_tasks p" "pd_heads (wake now t p) = pd_heads p"
  by (simp_all add: wake_def)

definition apply_change :: "string \<times> string \<Rightarrow> step_attempt \<Rightarrow> step_attempt" where
  "apply_change ch a = (if at_attempt_id a = fst ch then a\<lparr>at_state := snd ch\<rparr> else a)"

lemma set_attempt_state_attempts [simp]:
  "attempts_of (set_attempt_state now t ch db) = map (apply_change ch) (attempts_of db)" "xd_runtimes (set_attempt_state now t ch db) = xd_runtimes db"
  by (simp_all add: set_attempt_state_def apply_change_def)

lemma changes_attempts [simp]:
  "attempts_of (fold (set_attempt_state now t) chs db) = map (fold apply_change chs) (attempts_of db)" "xd_runtimes (fold (set_attempt_state now t) chs db) = xd_runtimes db"
  by (induction chs arbitrary: db) simp_all

lemma apply_changes: "attempt_key (fold apply_change chs a) = attempt_key a \<and> (at_attempt_id a \<notin> fst ` set chs \<longrightarrow> fold apply_change chs a = a)"
proof (induction chs arbitrary: a)
  case (Cons ch chs)
  have "attempt_key (apply_change ch a) = attempt_key a" "at_attempt_id a \<noteq> fst ch \<longrightarrow> apply_change ch a = a" by (simp_all add: apply_change_def attempt_key_def)
  then show ?case using Cons[of "apply_change ch a"] by (auto simp: attempt_key_def)
qed simp

lemma changes_move:
  assumes "distinct (map at_attempt_id xs)" "\<And>i. i \<in> fst ` set chs \<Longrightarrow> \<exists>a \<in> set xs. at_attempt_id a = i \<and> \<not> settled a"
  shows "list_all2 moved xs (map (fold apply_change chs) xs)"
proof -
  have "moved a (fold apply_change chs a)" if a: "a \<in> set xs" for a
  proof (cases "at_attempt_id a \<in> fst ` set chs")
    case True
    then obtain b where "b \<in> set xs" "at_attempt_id b = at_attempt_id a" "\<not> settled b" using assms(2) by blast
    moreover have "b = a" using calculation a assms(1) by (metis distinct_map inj_onD)
    ultimately show ?thesis using apply_changes[of chs a] by (simp add: moved_def)
  qed (use apply_changes[of chs a] in simp)
  then show ?thesis by (simp add: list_all2_conv_all_nth)
qed

lemma task_attempts_set: "set (task_attempts db t) = {a \<in> set (attempts_of db). at_task_id a = t}"
  by (auto simp: task_attempts_def)

lemma change_unsettled: "i \<in> fst ` set (attempt_changes calls attempts) \<Longrightarrow> \<exists>a \<in> set attempts. at_attempt_id a = i \<and> \<not> settled a"
  by (auto simp: attempt_changes_def settled_def Let_def split: if_splits option.splits)

lemma reconciled_settled: "settled a \<Longrightarrow> reconciledAttemptState (at_state a) s = at_state a"
  by (auto simp: settled_def SETTLED_STATES_def reconciledAttemptState_def)

lemma reserve_step_keeps [simp]:
  "attempts_of (reserve_step env t sid a binding call db) = attempts_of db @ [a]" "xd_runtimes (reserve_step env t sid a binding call db) = xd_runtimes db"
  by (simp_all add: reserve_step_def Let_def begin_task_def)

section \<open>Reservations\<close>

lemma find_sorted_min: "sorted (map f xs) \<Longrightarrow> find P xs = Some a \<Longrightarrow> b \<in> set xs \<Longrightarrow> P b \<Longrightarrow> f a \<le> f b"
  by (induction xs) (auto split: if_splits)

lemma latest_attempt_Some:
  assumes "latest_attempt (task_attempts db t) i = Some a"
  shows "a \<in> set (attempts_of db) \<and> at_task_id a = t \<and> at_step_id a = i \<and> (\<forall>b \<in> set (attempts_of db). at_task_id b = t \<and> at_step_id b = i \<longrightarrow> at_attempt_no b \<le> at_attempt_no a)"
proof -
  have a: "a \<in> set (task_attempts db t)" "at_step_id a = i" using assms by (auto simp: latest_attempt_def find_Some_iff)
  have "- at_attempt_no a \<le> - at_attempt_no b" if "b \<in> set (task_attempts db t)" "at_step_id b = i" for b
    by (rule find_sorted_min[OF _ assms[unfolded latest_attempt_def] that]) (simp add: task_attempts_def)
  then show ?thesis using a by (auto simp: task_attempts_set)
qed

lemma latest_attempt_None: "latest_attempt (task_attempts db t) i = None \<longleftrightarrow> (\<forall>b \<in> set (attempts_of db). at_task_id b = t \<longrightarrow> at_step_id b \<noteq> i)"
  by (auto simp: latest_attempt_def find_None_iff task_attempts_set)

text \<open>A retry follows the latest attempt of its step, and that attempt is settled.\<close>

lemma retry_attempt_Inr:
  assumes "retry_attempt db t calls (task_attempts db t) q = Inr a" "distinct (map at_attempt_id (attempts_of db))"
  shows "latest_attempt (task_attempts db t) (at_step_id a) = Some a \<and> settled a"
proof -
  let ?as = "task_attempts db t"
  obtain x where x: "find (\<lambda>a. at_attempt_id a = rq_attemptId q) ?as = Some x" using assms(1)
    by (cases "find (\<lambda>a. at_attempt_id a = rq_attemptId q) ?as") (simp_all add: retry_attempt_def)
  obtain h where h: "find (\<lambda>h. dh_attempt_id h = rq_attemptId q) (xd_step_heads db) = Some h" using assms(1) x
    by (cases "find (\<lambda>h. dh_attempt_id h = rq_attemptId q) (xd_step_heads db)") (simp_all add: retry_attempt_def split: if_splits)
  obtain c where c: "call_of calls x = Some c" using assms(1) x h
    by (cases "call_of calls x") (simp_all add: retry_attempt_def split: if_splits)
  have l: "map_option at_attempt_id (latest_attempt ?as (at_step_id x)) = Some (rq_attemptId q)" and ax: "a = x"
      and r: "reconciledAttemptState (at_state a) (ca_state c) = at_state a"
    using assms(1) x h c by (simp_all add: retry_attempt_def Let_def split: if_splits)
  have k: "rq_newVersionReason q = None \<longrightarrow> ca_state c \<in> {''failed'', ''blocked'', ''cancelled''} \<or> at_state a = ''awaiting_review''"
      "rq_newVersionReason q \<noteq> None \<longrightarrow> at_state a = ''accepted''"
    using assms(1) x h c ax by (auto simp: retry_attempt_def Let_def split: if_splits option.splits)
  obtain b where b: "latest_attempt ?as (at_step_id a) = Some b" "at_attempt_id b = rq_attemptId q" using l ax by auto
  have "a \<in> set ?as" "at_attempt_id a = rq_attemptId q" using x ax by (auto simp: find_Some_iff)
  then have "a \<in> set (attempts_of db)" "at_attempt_id a = rq_attemptId q" by (auto simp: task_attempts_set)
  then have "b = a" using b latest_attempt_Some[OF b(1)] assms(2) by (metis distinct_map inj_onD)
  moreover have "settled a"
  proof (rule ccontr)
    assume n: "\<not> settled a"
    then have "ca_state c \<in> {''failed'', ''blocked'', ''cancelled''}" using k by (auto simp: settled_def SETTLED_STATES_def)
    then show False using n r by (auto simp: settled_def SETTLED_STATES_def reconciledAttemptState_def split: if_splits)
  qed
  ultimately show ?thesis using b(1) by simp
qed

lemma select_candidate_Inr: "select_candidate f e ss = Inr (s, c) \<Longrightarrow> s \<in> set ss \<and> f s = Inr c"
  by (induction ss arbitrary: e) (auto split: sum.splits if_splits)

lemma reserve_next_Inr:
  assumes "reserve_next sha256 collation env db runtime task plan actor tok retried = (Inr r, db')"
  shows "(r = Waiting \<and> db' = db) \<or>
    (\<exists>s offer binding inputs call. r = Reserved (se_attempt_id env) call
      \<and> db' = reserve_step env (tk_task_id task) (pv_team_session_id plan)
          (new_attempt sha256 collation (se_attempt_id env) (tk_task_id task) runtime retried tok s inputs call) binding call db
      \<and> s \<in> set (startable_steps (task_attempts db (tk_task_id task)) retried (snapshot_steps (xd_plan db) (tk_task_id task) (ru_plan_revision runtime)))
      \<and> step_candidate collation env db task plan actor (task_attempts db (tk_task_id task)) s = Inr (offer, binding, inputs, call)
      \<and> requireTaskBudgetCapacity (plan_budget (se_now env) db runtime) = None)"
proof -
  let ?as = "task_attempts db (tk_task_id task)"
  define ready where "ready = startable_steps ?as retried (snapshot_steps (xd_plan db) (tk_task_id task) (ru_plan_revision runtime))"
  show ?thesis
  proof (cases "ready = []")
    case True
    then show ?thesis using assms by (simp add: reserve_next_def Let_def flip: ready_def split: if_splits)
  next
    case False
    have b: "requireTaskBudgetCapacity (plan_budget (se_now env) db runtime) = None"
      using assms False by (simp add: reserve_next_def Let_def flip: ready_def split: option.splits)
    obtain s offer binding inputs call where c: "select_candidate (step_candidate collation env db task plan actor ?as) (no_code []) ready = Inr (s, offer, binding, inputs, call)"
      using assms False b by (auto simp: reserve_next_def Let_def simp flip: ready_def split: sum.splits)
    have "s \<in> set ready \<and> step_candidate collation env db task plan actor ?as s = Inr (offer, binding, inputs, call)" using select_candidate_Inr[OF c] .
    then show ?thesis using assms False b c
      by (auto simp: reserve_next_def Let_def new_attempt_def simp flip: ready_def split: if_splits)
  qed
qed

text \<open>The three outcomes of a pass: nothing, a reconciliation, or what \<^const>\<open>reserve_next\<close> does.\<close>

lemma advance_Inr:
  assumes "advance_step sha256 collation env db t tok retry = (Inr r, db')"
  shows "(r = Inactive \<and> db' = db) \<or> (r = Reconciled \<and> db' = fold (set_attempt_state (se_now env) t) (attempt_changes (task_calls db t) (task_attempts db t)) db)
    \<or> (\<exists>runtime task plan actor retried. plan_identity db t = Some (runtime, task, plan) \<and> ru_state runtime = ''active'' \<and> tk_state task \<in> {''open'', ''in_progress''}
        \<and> (case retry of None \<Rightarrow> retried = None | Some q \<Rightarrow> \<exists>a. retried = Some a \<and> retry_attempt db t (task_calls db t) (task_attempts db t) q = Inr a)
        \<and> reserve_next sha256 collation env db runtime task plan actor tok retried = (Inr r, db'))"
proof (cases "plan_identity db t")
  case None
  then show ?thesis using assms by (simp add: advance_step_def)
next
  case (Some x)
  obtain runtime task plan where x: "x = (runtime, task, plan)" by (cases x)
  show ?thesis
  proof (cases "r = Inactive \<and> db' = db \<or> r = Reconciled \<and> db' = fold (set_attempt_state (se_now env) t) (attempt_changes (task_calls db t) (task_attempts db t)) db")
    case True
    then show ?thesis by blast
  next
    case False
    let ?actor = "case retry of Some q \<Rightarrow> rq_actor q | None \<Rightarrow> ru_initiator_user_id runtime"
    have a: "ru_state runtime = ''active''" "tk_state task \<in> {''open'', ''in_progress''}"
      and rest: "(case retry of None \<Rightarrow> reserve_next sha256 collation env db runtime task plan ?actor tok None
          | Some q \<Rightarrow> (case retry_attempt db t (task_calls db t) (task_attempts db t) q of
              Inl e \<Rightarrow> (Inl e, db) | Inr a \<Rightarrow> reserve_next sha256 collation env db runtime task plan ?actor tok (Some a))) = (Inr r, db')"
      using assms False Some unfolding advance_step_def x by (simp_all add: Let_def split: if_splits)
    show ?thesis
    proof (cases retry)
      case None
      then show ?thesis using a rest Some x by auto
    next
      case (Some q)
      then show ?thesis using a rest \<open>plan_identity db t = Some x\<close> x
        by (cases "retry_attempt db t (task_calls db t) (task_attempts db t) q") auto
    qed
  qed
qed

lemma plan_identity_Some:
  "plan_identity db t = Some (runtime, task, plan) \<Longrightarrow> find_runtime db t = Some runtime \<and> find_task (xd_plan db) t = Some task \<and> tk_task_id task = t \<and> ru_task_id runtime = t"
  by (auto simp: plan_identity_def find_runtime_def find_task_def find_Some_iff split: option.splits)

text \<open>When an attempt may be added: the plan is active and within its limit, and the latest attempt of the step is settled.\<close>

definition task_count :: "exec_db \<Rightarrow> string \<Rightarrow> int" where
  "task_count db t = int (length (filter (\<lambda>a. at_task_id a = t) (attempts_of db)))"

definition may_reserve :: "exec_db \<Rightarrow> step_attempt \<Rightarrow> bool" where
  "may_reserve db a \<longleftrightarrow> (\<exists>r. find_runtime db (at_task_id a) = Some r \<and> ru_state r = ''active'' \<and> task_count db (at_task_id a) < ru_invocation_limit r)
     \<and> (case latest_attempt (task_attempts db (at_task_id a)) (at_step_id a) of
          None \<Rightarrow> at_attempt_no a = 1
        | Some b \<Rightarrow> settled b \<and> at_attempt_no a = at_attempt_no b + 1)"

text \<open>What the scheduler does to runtimes and attempts.\<close>

lemma advance_ledger:
  assumes adv: "advance_step sha256 collation env db t tok retry = (Inr r, db')" and ids: "distinct (map at_attempt_id (attempts_of db))"
  shows "xd_runtimes db' = xd_runtimes db \<and> (list_all2 moved (attempts_of db) (attempts_of db') \<and> (\<forall>i c. r \<noteq> Reserved i c)
    \<or> (\<exists>a. attempts_of db' = attempts_of db @ [a] \<and> at_attempt_id a = se_attempt_id env \<and> at_task_id a = t \<and> may_reserve db a))"
  using advance_Inr[OF adv]
proof (elim disjE exE conjE)
  fix runtime task plan actor retried
  assume i: "plan_identity db t = Some (runtime, task, plan)" and act: "ru_state runtime = ''active''"
    and retr: "case retry of None \<Rightarrow> retried = None | Some q \<Rightarrow> \<exists>a. retried = Some a \<and> retry_attempt db t (task_calls db t) (task_attempts db t) q = Inr a"
    and res: "reserve_next sha256 collation env db runtime task plan actor tok retried = (Inr r, db')"
  note id = plan_identity_Some[OF i]
  from reserve_next_Inr[OF res] show ?thesis
  proof (elim disjE exE conjE)
    fix s offer binding inputs call
    let ?a = "new_attempt sha256 collation (se_attempt_id env) (tk_task_id task) runtime retried tok s inputs call"
    assume db': "db' = reserve_step env (tk_task_id task) (pv_team_session_id plan) ?a binding call db"
      and s: "s \<in> set (startable_steps (task_attempts db (tk_task_id task)) retried (snapshot_steps (xd_plan db) (tk_task_id task) (ru_plan_revision runtime)))"
      and b: "requireTaskBudgetCapacity (plan_budget (se_now env) db runtime) = None"
    have "task_count db t < ru_invocation_limit runtime"
      using b id by (auto simp: requireTaskBudgetCapacity_def plan_budget_def task_count_def Let_def split: if_splits)
    moreover have "case latest_attempt (task_attempts db t) (step_name s) of None \<Rightarrow> at_attempt_no ?a = 1 | Some b \<Rightarrow> settled b \<and> at_attempt_no ?a = at_attempt_no b + 1"
    proof (cases retry)
      case None
      then show ?thesis using retr s id by (auto simp: startable_steps_def new_attempt_def)
    next
      case (Some q)
      then obtain a where a: "retried = Some a" "retry_attempt db t (task_calls db t) (task_attempts db t) q = Inr a" using retr by auto
      then show ?thesis using retry_attempt_Inr[OF a(2) ids] s by (auto simp: startable_steps_def new_attempt_def)
    qed
    moreover have at: "at_task_id ?a = t" "at_step_id ?a = step_name s" "at_attempt_id ?a = se_attempt_id env" using id by (simp_all add: new_attempt_def)
    ultimately have "may_reserve db ?a" unfolding may_reserve_def at using id act by blast
    then show ?thesis using db' at by auto
  qed auto
next
  assume "r = Reconciled" "db' = fold (set_attempt_state (se_now env) t) (attempt_changes (task_calls db t) (task_attempts db t)) db"
  moreover have "list_all2 moved (attempts_of db) (map (fold apply_change (attempt_changes (task_calls db t) (task_attempts db t))) (attempts_of db))"
    using change_unsettled[of _ "task_calls db t" "task_attempts db t"] by (intro changes_move[OF ids]) (auto simp: task_attempts_set)
  ultimately show ?thesis by simp
qed simp

section \<open>The ledger of attempts\<close>

text \<open>The attempts of a step, in the order they were made: numbered from one, all but the last one settled.\<close>

definition step_log :: "exec_db \<Rightarrow> string \<Rightarrow> string \<Rightarrow> step_attempt list" where
  "step_log db t i = filter (\<lambda>a. at_task_id a = t \<and> at_step_id a = i) (attempts_of db)"

definition numbered :: "step_attempt list \<Rightarrow> bool" where
  "numbered as \<longleftrightarrow> map at_attempt_no as = map int [1..<Suc (length as)] \<and> list_all settled (butlast as)"

definition exec_ok :: "exec_db \<Rightarrow> bool" where
  "exec_ok db \<longleftrightarrow> distinct (map ru_task_id (xd_runtimes db)) \<and> distinct (map at_attempt_id (attempts_of db))
     \<and> (\<forall>a \<in> set (attempts_of db). find_runtime db (at_task_id a) \<noteq> None)
     \<and> (\<forall>t r. find_runtime db t = Some r \<longrightarrow> task_count db t \<le> ru_invocation_limit r)
     \<and> (\<forall>t i. numbered (step_log db t i))"

lemma numbered_nth:
  assumes "numbered as" "j < length as" shows "at_attempt_no (as ! j) = int j + 1"
proof -
  have "map at_attempt_no as ! j = map int [1..<Suc (length as)] ! j" using assms(1) by (simp only: numbered_def)
  also have "\<dots> = int ([1..<Suc (length as)] ! j)" using assms(2) by (intro nth_map) simp
  also have "[1..<Suc (length as)] ! j = 1 + j" using assms(2) by (intro nth_upt) simp
  finally show ?thesis using assms(2) by simp
qed

lemma numbered_append:
  assumes n: "numbered as" and a: "case latest of None \<Rightarrow> as = [] \<and> at_attempt_no a = 1
      | Some b \<Rightarrow> b \<in> set as \<and> (\<forall>x \<in> set as. at_attempt_no x \<le> at_attempt_no b) \<and> settled b \<and> at_attempt_no a = at_attempt_no b + 1"
  shows "numbered (as @ [a])"
proof (cases "as = []")
  case True
  then show ?thesis using a by (auto simp: numbered_def split: option.splits)
next
  case False
  then obtain b where b: "b \<in> set as" "\<forall>x \<in> set as. at_attempt_no x \<le> at_attempt_no b" "settled b" "at_attempt_no a = at_attempt_no b + 1" using a by (auto split: option.splits)
  obtain j where j: "j < length as" "b = as ! j" using b(1) by (metis in_set_conv_nth)
  have "at_attempt_no (last as) = int (length as)" using numbered_nth[OF n, of "length as - 1"] False by (simp add: last_conv_nth of_nat_diff Suc_le_eq)
  then have "int (length as) \<le> int j + 1" using b(2) numbered_nth[OF n j(1)] j(2) False by (metis last_in_set)
  then have "j = length as - 1" using j(1) by simp
  then have "b = last as" "at_attempt_no a = int (length as) + 1" using b(4) j False numbered_nth[OF n j(1)] by (simp_all add: last_conv_nth of_nat_diff Suc_le_eq)
  moreover have "list_all settled (butlast as @ [last as])" using n b(3) calculation(1) by (simp add: numbered_def)
  moreover have "butlast as @ [last as] = as" using False by (rule append_butlast_last_id)
  ultimately have "b = last as" "at_attempt_no a = int (length as) + 1" "list_all settled as" by simp_all
  then show ?thesis using n by (simp add: numbered_def)
qed

lemma moved_numbered:
  assumes "list_all2 moved xs ys" "numbered xs"
  shows "numbered ys"
proof -
  have len: "length ys = length xs" using assms(1) by (simp add: list_all2_lengthD)
  have "map at_attempt_no ys = map at_attempt_no xs"
    using assms(1) by (intro nth_equalityI) (auto simp: len moved_def attempt_key_def dest: list_all2_nthD)
  moreover have "list_all settled (butlast ys)"
  proof -
    have "settled (ys ! n)" if "n < length xs - 1" for n
    proof -
      have "moved (xs ! n) (ys ! n)" using list_all2_nthD[OF assms(1), of n] that by simp
      moreover have "settled (butlast xs ! n)" using assms(2) that by (simp add: numbered_def list_all_length)
      ultimately show ?thesis using that by (simp add: moved_def nth_butlast)
    qed
    then show ?thesis by (simp add: list_all_length nth_butlast len)
  qed
  ultimately show ?thesis using assms(2) by (simp add: numbered_def len)
qed

lemma moved_filter:
  assumes "list_all2 moved xs ys" "\<And>a b. attempt_key a = attempt_key b \<Longrightarrow> P a = P b"
  shows "list_all2 moved (filter P xs) (filter P ys)"
  using assms(1)
proof (induction rule: list_all2_induct)
  case (Cons x xs y ys)
  then have "P x = P y" using assms(2) by (metis moved_def)
  then show ?case using Cons by simp
qed simp

lemma moved_keys: "list_all2 moved xs ys \<Longrightarrow> map attempt_key ys = map attempt_key xs"
  by (induction rule: list_all2_induct) (simp_all add: moved_def)

lemma moved_log: "list_all2 moved (attempts_of db) (attempts_of db') \<Longrightarrow> list_all2 moved (step_log db t i) (step_log db' t i)"
  unfolding step_log_def by (rule moved_filter) (auto simp: attempt_key_def)

lemma moved_count: "list_all2 moved (attempts_of db) (attempts_of db') \<Longrightarrow> task_count db' t = task_count db t"
  unfolding task_count_def using moved_filter[of "attempts_of db" "attempts_of db'" "\<lambda>a. at_task_id a = t"]
  by (auto simp: attempt_key_def dest: list_all2_lengthD)

lemma find_runtime_cong: "xd_runtimes db' = xd_runtimes db \<Longrightarrow> find_runtime db' = find_runtime db"
  by (simp add: find_runtime_def fun_eq_iff)

lemma moved_ok:
  assumes "exec_ok db" "xd_runtimes db' = xd_runtimes db" "list_all2 moved (attempts_of db) (attempts_of db')"
  shows "exec_ok db'"
proof -
  note k = moved_keys[OF assms(3)]
  have "map at_attempt_id (attempts_of db') = map at_attempt_id (attempts_of db)" "map at_task_id (attempts_of db') = map at_task_id (attempts_of db)"
    using arg_cong[OF k, of "map fst"] arg_cong[OF k, of "map (fst \<circ> snd)"] by (simp_all add: attempt_key_def comp_def)
  then have "distinct (map at_attempt_id (attempts_of db'))" "at_task_id ` set (attempts_of db') = at_task_id ` set (attempts_of db)"
    using assms(1) by (simp_all add: exec_ok_def flip: set_map)
  moreover have "numbered (step_log db' t i)" for t i using moved_numbered[OF moved_log[OF assms(3)]] assms(1) by (simp add: exec_ok_def)
  ultimately show ?thesis using assms(1,2) moved_count[OF assms(3)] find_runtime_cong[OF assms(2)] unfolding exec_ok_def by (metis image_iff)
qed

lemma reserved_ok:
  assumes ok: "exec_ok db" and same: "xd_runtimes db' = xd_runtimes db" and app: "attempts_of db' = attempts_of db @ [a]"
    and fresh: "at_attempt_id a \<notin> at_attempt_id ` set (attempts_of db)" and may: "may_reserve db a"
  shows "exec_ok db'"
proof -
  have f: "find_runtime db' = find_runtime db" by (rule find_runtime_cong[OF same])
  have count: "task_count db' t = task_count db t + (if t = at_task_id a then 1 else 0)" for t using app by (simp add: task_count_def)
  have "numbered (step_log db' t i)" for t i
  proof (cases "t = at_task_id a \<and> i = at_step_id a")
    case True
    let ?l = "latest_attempt (task_attempts db t) i"
    have "case ?l of None \<Rightarrow> step_log db t i = [] \<and> at_attempt_no a = 1
        | Some b \<Rightarrow> b \<in> set (step_log db t i) \<and> (\<forall>x \<in> set (step_log db t i). at_attempt_no x \<le> at_attempt_no b) \<and> settled b \<and> at_attempt_no a = at_attempt_no b + 1"
    proof (cases ?l)
      case None
      then have "\<forall>b \<in> set (attempts_of db). at_task_id b = t \<longrightarrow> at_step_id b \<noteq> i" by (simp only: latest_attempt_None)
      then show ?thesis using may True None by (simp add: may_reserve_def step_log_def filter_empty_conv)
    next
      case (Some b)
      then show ?thesis using may True latest_attempt_Some[OF Some] by (simp add: may_reserve_def step_log_def)
    qed
    then have "numbered (step_log db t i @ [a])" using ok by (intro numbered_append) (simp add: exec_ok_def)
    then show ?thesis using True app by (simp add: step_log_def)
  next
    case False
    then have "step_log db' t i = step_log db t i" using app by (auto simp: step_log_def)
    then show ?thesis using ok by (simp add: exec_ok_def)
  qed
  moreover have "task_count db' t \<le> ru_invocation_limit r" if "find_runtime db' t = Some r" for t r
    using that ok may count[of t] f by (auto simp: exec_ok_def may_reserve_def)
  moreover have "find_runtime db' (at_task_id x) \<noteq> None" if "x \<in> set (attempts_of db')" for x using that ok may f app by (auto simp: exec_ok_def may_reserve_def)
  ultimately show ?thesis using ok same app fresh by (simp add: exec_ok_def)
qed

section \<open>Controls\<close>

lemma control_retry_Inr:
  assumes "control_retry sha256 collation env db task session runtime actor v = Inr (rec, db')"
  shows "\<exists>q i c. advance_step sha256 collation env db (tk_task_id task) 0 (Some q) = (Inr (Reserved i c), db')"
proof -
  define q where "q = \<lparr>rq_actor = actor, rq_attemptId = field_text v ''attempt_id'', rq_deliveryRevision = field_int v ''expected_delivery_revision'',
    rq_newVersionReason = (if control_action v = ''new_version'' then Some (field_text v ''reason'') else None)\<rparr>"
  obtain res db1 where a: "advance_step sha256 collation env db (tk_task_id task) 0 (Some q) = (res, db1)" by fastforce
  then have k: "(case (res, db1) of (Inl e, _) \<Rightarrow> Inl e
      | (Inr (Reserved i call), db') \<Rightarrow> Inr (JObj [(''previous_attempt_id'', JStr (field_text v ''attempt_id'')), (''attempt_id'', JStr i), (''call_id'', JStr call), (''attempt_state'', JStr ''reserved'')], db')
      | (Inr _, _) \<Rightarrow> Inl (invalid_state ''step retry did not reserve work'')) = Inr (rec, db')"
    using assms unfolding control_retry_def Let_def q_def[symmetric] a by (simp split: if_splits)
  have "\<exists>i c. res = Inr (Reserved i c) \<and> db1 = db'"
  proof (cases res)
    case (Inr r)
    then show ?thesis using k by (cases r) simp_all
  qed (use k in simp)
  then show ?thesis using a by blast
qed

lemma control_reconcile_Inr:
  assumes "control_reconcile env db t v = Inr (rec, db')" and ids: "distinct (map at_attempt_id (attempts_of db))"
  shows "xd_runtimes db' = xd_runtimes db \<and> list_all2 moved (attempts_of db) (attempts_of db')"
proof -
  obtain a where f: "find (\<lambda>a. at_task_id a = t \<and> at_attempt_id a = field_text v ''attempt_id'') (attempts_of db) = Some a"
    using assms(1) by (cases "find (\<lambda>a. at_task_id a = t \<and> at_attempt_id a = field_text v ''attempt_id'') (attempts_of db)") (simp_all add: control_reconcile_def)
  then have a: "a \<in> set (attempts_of db)" by (auto simp: find_Some_iff)
  obtain c where c: "call_of (task_calls db t) a = Some c" using assms(1) f by (cases "call_of (task_calls db t) a") (simp_all add: control_reconcile_def)
  let ?s = "reconciledAttemptState (at_state a) (ca_state c)"
  have db': "db' = (if ?s \<noteq> at_state a then set_attempt_state (se_now env) t (at_attempt_id a, ?s) db else db)"
    using assms(1) f c by (simp add: control_reconcile_def Let_def split: if_splits)
  show ?thesis
  proof (cases "?s = at_state a")
    case False
    then have "\<not> settled a" using reconciled_settled by blast
    then have "list_all2 moved (attempts_of db) (map (fold apply_change [(at_attempt_id a, ?s)]) (attempts_of db))"
      using a by (intro changes_move[OF ids]) auto
    then show ?thesis using db' False by simp
  qed (use db' in simp)
qed

text \<open>What an accepted control does before it writes the runtime.\<close>

lemma control_effect_ledger:
  assumes eff: "control_effect sha256 collation env db task plan session runtime actor v = Inr (rec, db')" and ids: "distinct (map at_attempt_id (attempts_of db))"
  shows "xd_runtimes db' = xd_runtimes db \<and> (list_all2 moved (attempts_of db) (attempts_of db')
    \<or> (\<exists>a. attempts_of db' = attempts_of db @ [a] \<and> at_attempt_id a = se_attempt_id env \<and> at_task_id a = tk_task_id task \<and> may_reserve db a \<and> control_action v \<noteq> ''reconcile''))"
proof (cases "control_action v = ''reconcile''")
  case True
  then obtain x where "control_reconcile env db (tk_task_id task) v = Inr (x, db')" using eff
    by (cases "control_reconcile env db (tk_task_id task) v") (auto simp: control_effect_def Let_def)
  then show ?thesis using control_reconcile_Inr ids by blast
next
  case other: False
  show ?thesis
  proof (cases "step_action (control_action v)")
    case True
    then obtain x where "control_retry sha256 collation env db task session (the runtime) actor v = Inr (x, db')" using eff other
      by (cases "control_retry sha256 collation env db task session (the runtime) actor v") (auto simp: control_effect_def Let_def)
    then obtain q i c where "advance_step sha256 collation env db (tk_task_id task) 0 (Some q) = (Inr (Reserved i c), db')" using control_retry_Inr by blast
    from advance_ledger[OF this ids] other show ?thesis by auto
  next
    case False
    then have "db' = db" using eff other by (auto simp: control_effect_def Let_def split: if_splits option.splits)
    then show ?thesis by simp
  qed
qed

lemma activation_limit:
  assumes "control_effect sha256 collation env db task plan session None actor v = Inr (rec, db')" "control_action v = ''activate''"
  shows "task_count db (tk_task_id task) \<le> field_int v ''invocation_limit''"
proof -
  have "enable_checks sha256 collation env db task plan session None actor v = None"
    using assms by (auto simp: control_effect_def Let_def step_action_def enables_work_def split: option.splits)
  then show ?thesis by (auto simp: enable_checks_def Let_def invocation_limit_def task_count_def simp del: first_error.simps)
qed

lemma find_map_key: "(\<And>x. f (g x) = f x) \<Longrightarrow> find (\<lambda>x. f x = k) (map g xs) = map_option g (find (\<lambda>x. f x = k) xs)"
  by (induction xs) auto

lemma find_append_one: "find P (xs @ [x]) = (case find P xs of Some y \<Rightarrow> Some y | None \<Rightarrow> if P x then Some x else None)"
  by (induction xs) auto

text \<open>The runtime after a control: the activation's, or the old one with a new state; other tasks keep theirs.\<close>

lemma store_runtime_find:
  assumes "runtime = find (\<lambda>r. ru_task_id r = t) rows"
  shows "\<exists>r. find (\<lambda>r. ru_task_id r = t') (store_runtime now t runtime actor v rows) = (if t' = t then Some r else find (\<lambda>r. ru_task_id r = t') rows)
    \<and> ru_state r = next_state runtime (control_action v) \<and> ru_invocation_limit r = invocation_limit runtime v \<and> ru_budget_policy r = plan_policy runtime v"
proof (cases runtime)
  case None
  let ?r = "\<lparr>ru_task_id = t, ru_plan_revision = field_int v ''plan_revision'', ru_revision = 1, ru_state = next_state None (control_action v), ru_initiator_user_id = actor,
    ru_invocation_limit = field_int v ''invocation_limit'', ru_budget_policy = plan_policy None v, ru_started_at = now\<rparr>"
  show ?thesis using assms None
    by (intro exI[of _ ?r]) (auto simp: store_runtime_def Let_def find_append_one invocation_limit_def split: option.splits)
next
  case (Some r)
  let ?g = "\<lambda>x. if ru_task_id x = t then x\<lparr>ru_plan_revision := field_int v ''plan_revision'', ru_revision := ru_revision x + 1, ru_state := next_state runtime (control_action v),
    ru_initiator_user_id := (if step_action (control_action v) then ru_initiator_user_id x else actor)\<rparr> else x"
  have r: "ru_task_id r = t" using Some assms by (auto simp: find_Some_iff)
  have g: "find (\<lambda>r. ru_task_id r = t') (map ?g rows) = map_option ?g (find (\<lambda>r. ru_task_id r = t') rows)" by (rule find_map_key) simp
  have "find (\<lambda>r. ru_task_id r = t') (map ?g rows) = (if t' = t then Some (?g r) else find (\<lambda>r. ru_task_id r = t') rows)"
  proof (cases "t' = t")
    case True
    have "find (\<lambda>r. ru_task_id r = t') rows = Some r" using True Some assms by simp
    then show ?thesis unfolding g using True by simp
  next
    case False
    have "?g y = y" if "find (\<lambda>r. ru_task_id r = t') rows = Some y" for y
    proof -
      have "ru_task_id y = t'" using that by (auto simp: find_Some_iff)
      then show ?thesis using False by simp
    qed
    then show ?thesis unfolding g using False by (cases "find (\<lambda>r. ru_task_id r = t') rows") simp_all
  qed
  moreover have "store_runtime now t runtime actor v rows = map ?g rows" using Some by (simp add: store_runtime_def Let_def)
  ultimately show ?thesis using Some r by (intro exI[of _ "?g r"]) (simp add: invocation_limit_def plan_policy_def)
qed

lemma store_runtime_distinct:
  assumes "runtime = find (\<lambda>r. ru_task_id r = t) rows" "distinct (map ru_task_id rows)"
  shows "distinct (map ru_task_id (store_runtime now t runtime actor v rows))"
proof (cases runtime)
  case None
  then have "t \<notin> ru_task_id ` set rows" using assms(1) by (auto simp: find_None_iff dest: sym)
  then show ?thesis using None assms(2) by (simp add: store_runtime_def Let_def)
next
  case (Some r)
  then have "map ru_task_id (store_runtime now t runtime actor v rows) = map ru_task_id rows" by (simp add: store_runtime_def Let_def)
  then show ?thesis using assms(2) by simp
qed

lemma task_member_id: "task_member p t actor = Inr (task, role) \<Longrightarrow> tk_task_id task = t"
proof -
  assume m: "task_member p t actor = Inr (task, role)"
  then have "find_task p t = Some task"
    by (cases "find_task p t") (auto simp: task_member_def split: option.splits if_splits)
  then show ?thesis by (auto simp: find_task_def find_Some_iff)
qed

lemma control_plan_Inr:
  assumes "control_plan sha256 collation env db t actor v = (Inr resp, db')"
  shows "db' = db \<or> (\<exists>task plan session rec db1. tk_task_id task = t \<and> control_state (find_runtime db t) v = None
    \<and> control_effect sha256 collation env db task plan session (find_runtime db t) actor v = Inr (rec, db1)
    \<and> xd_runtimes db' = store_runtime (se_now env) t (find_runtime db t) actor v (xd_runtimes db1) \<and> attempts_of db' = attempts_of db1)"
proof -
  have "validate_control t v = None" using assms by (cases "validate_control t v") (simp_all add: control_plan_def)
  moreover obtain task plan session where q: "control_request db t actor v = Inr (task, plan, session)"
    using assms calculation by (cases "control_request db t actor v") (auto simp: control_plan_def)
  ultimately show ?thesis
  proof (cases "find_control_receipt db t actor (field_text v ''request_id'')")
    case None
    have st: "control_state (find_runtime db t) v = None"
      using assms q None \<open>validate_control t v = None\<close> by (cases "control_state (find_runtime db t) v") (simp_all add: control_plan_def)
    obtain rec db1 where eff: "control_effect sha256 collation env db task plan session (find_runtime db t) actor v = Inr (rec, db1)"
      using assms q None st \<open>validate_control t v = None\<close>
      by (cases "control_effect sha256 collation env db task plan session (find_runtime db t) actor v") (auto simp: control_plan_def)
    have "db' = snd (store_control sha256 collation (se_now env) t actor (find_runtime db t) v rec db1)"
      using assms q None st eff \<open>validate_control t v = None\<close> by (simp add: control_plan_def split: prod.splits)
    moreover have "tk_task_id task = t" using q by (auto simp: control_request_def dest!: task_member_id split: sum.splits option.splits if_splits)
    ultimately show ?thesis using st eff by (intro disjI2 exI[of _ task] exI[of _ plan] exI[of _ session] exI[of _ rec] exI[of _ db1]) (simp add: store_control_def Let_def)
  qed (use assms q in \<open>simp add: control_plan_def split: if_splits\<close>)
qed

lemma control_state_None:
  assumes "control_state runtime v = None"
  shows "(runtime = None \<longrightarrow> control_action v = ''activate'') \<and> (\<forall>r. runtime = Some r \<and> ru_state r = ''cancelled'' \<longrightarrow> control_action v = ''reconcile'')"
  using assms by (cases runtime) (auto simp: control_state_def Let_def simp del: first_error.simps split: if_splits)

lemma scheduler_process_Inr:
  assumes "scheduler_process sha256 collation env c db = (Inr r, db')"
  shows "\<exists>db1. advance_step sha256 collation env db (wc_task_id c) (wc_lease_token c) None = (Inr r, db1)
    \<and> xd_runtimes db' = xd_runtimes db1 \<and> attempts_of db' = attempts_of db1"
proof -
  let ?cb = "advance_callback sha256 collation env c"
  obtain rows db1 where pc: "processClaim (se_now env) (se_later env) ?cb c (pd_wakeups (xd_plan db), db) = (Inr r, rows, db1)"
    and db': "db' = db1\<lparr>xd_plan := (xd_plan db1)\<lparr>pd_wakeups := rows\<rparr>\<rparr>"
    using assms by (auto simp: scheduler_process_def split: prod.splits)
  obtain rows1 where "?cb (pd_wakeups (xd_plan db), db) = Inr (r, rows1, db1)"
    using pc by (auto simp: processClaim_def split: if_splits sum.splits prod.splits)
  then have "advance_step sha256 collation env db (wc_task_id c) (wc_lease_token c) None = (Inr r, db1)"
    by (auto simp: advance_callback_def split: prod.splits sum.splits)
  then show ?thesis using db' by auto
qed

section \<open>Runs\<close>

text \<open>
  The rest of the relay changes calls, deliveries, decisions, memberships and sessions at any time, and the state of
  an attempt when a delivery is published or accepted; it neither adds an attempt nor touches a runtime. The
  identifier of an attempt is fresh (\<open>randomUUID\<close>).
\<close>

definition outside :: "exec_db \<Rightarrow> exec_db \<Rightarrow> bool" where
  "outside db db' \<longleftrightarrow> xd_runtimes db' = xd_runtimes db \<and> list_all2 moved (attempts_of db) (attempts_of db')"

definition fresh_attempt :: "scheduler_env \<Rightarrow> exec_db \<Rightarrow> bool" where
  "fresh_attempt env db \<longleftrightarrow> se_attempt_id env \<notin> at_attempt_id ` set (attempts_of db)"

inductive plan_exec_step :: "exec_db \<Rightarrow> exec_db \<Rightarrow> bool" where
  pass: "fresh_attempt env db \<Longrightarrow> scheduler_process sha256 (collation :: string \<Rightarrow> string) env c db = (Inr r, db') \<Longrightarrow> plan_exec_step db db'"
| control: "fresh_attempt env db \<Longrightarrow> control_plan sha256 (collation :: string \<Rightarrow> string) env db t actor v = (Inr resp, db') \<Longrightarrow> plan_exec_step db db'"
| draft: "saveDraft sha256 (collation :: string \<Rightarrow> string) writes now (xd_plan db) t actor v = (Inr resp, p) \<Longrightarrow> plan_exec_step db (db\<lparr>xd_plan := p\<rparr>)"
| other: "outside db db' \<Longrightarrow> plan_exec_step db db'"

definition exec_start :: "exec_db \<Rightarrow> bool" where
  "exec_start db \<longleftrightarrow> xd_runtimes db = [] \<and> attempts_of db = []"

definition attempts_step :: "exec_db \<Rightarrow> exec_db \<Rightarrow> bool" where
  "attempts_step db db' \<longleftrightarrow> list_all2 moved (attempts_of db) (attempts_of db')
     \<or> (\<exists>a. attempts_of db' = attempts_of db @ [a] \<and> at_attempt_id a \<notin> at_attempt_id ` set (attempts_of db) \<and> may_reserve db a)"

definition runtimes_step :: "exec_db \<Rightarrow> exec_db \<Rightarrow> bool" where
  "runtimes_step db db' \<longleftrightarrow> (\<forall>t r. find_runtime db t = Some r \<longrightarrow> (\<exists>r'. find_runtime db' t = Some r' \<and> ru_invocation_limit r' = ru_invocation_limit r
     \<and> ru_budget_policy r' = ru_budget_policy r \<and> (ru_state r = ''cancelled'' \<longrightarrow> ru_state r' = ''cancelled'')))"

lemma runtimes_same: "xd_runtimes db' = xd_runtimes db \<Longrightarrow> runtimes_step db db'"
  by (simp add: runtimes_step_def find_runtime_def)

lemma ledger_ok: "exec_ok db \<Longrightarrow> xd_runtimes db' = xd_runtimes db \<Longrightarrow> attempts_step db db' \<Longrightarrow> exec_ok db'"
  unfolding attempts_step_def using moved_ok reserved_ok by blast

lemma draft_attempts: "saveDraft sha256 collation writes now p t actor v = (Inr resp, p') \<Longrightarrow> pd_attempts p' = pd_attempts p"
  by (erule saveDraft_cases) (auto simp: store_draft_def Let_def)

lemma may_reserve_attempts: "xd_runtimes db' = xd_runtimes db \<Longrightarrow> attempts_of db' = attempts_of db \<Longrightarrow> may_reserve db' a = may_reserve db a"
  by (simp add: may_reserve_def find_runtime_def task_count_def task_attempts_def)

lemma control_steps:
  assumes ok: "exec_ok db" and c: "control_plan sha256 collation env db t actor v = (Inr resp, db')" and fresh: "fresh_attempt env db"
  shows "exec_ok db' \<and> attempts_step db db' \<and> runtimes_step db db'"
  using control_plan_Inr[OF c]
proof (elim disjE exE conjE)
  fix task plan session rec db1
  let ?r = "find_runtime db t"
  assume t: "tk_task_id task = t" and st: "control_state ?r v = None" and eff: "control_effect sha256 collation env db task plan session ?r actor v = Inr (rec, db1)"
    and rows: "xd_runtimes db' = store_runtime (se_now env) t ?r actor v (xd_runtimes db1)" and as: "attempts_of db' = attempts_of db1"
  have "distinct (map at_attempt_id (attempts_of db))" using ok by (simp add: exec_ok_def)
  note led = control_effect_ledger[OF eff this]
  then have as1: "attempts_step db db1" using fresh by (auto simp: attempts_step_def fresh_attempt_def)
  have rows1: "xd_runtimes db1 = xd_runtimes db" using led by blast
  have ok1: "exec_ok db1" by (rule ledger_ok[OF ok rows1 as1])
  have fr: "?r = find (\<lambda>r. ru_task_id r = t) (xd_runtimes db1)" using rows1 by (simp add: find_runtime_def)
  have f: "\<exists>r. find_runtime db' t' = (if t' = t then Some r else find_runtime db1 t') \<and> ru_state r = next_state ?r (control_action v)
      \<and> ru_invocation_limit r = invocation_limit ?r v \<and> ru_budget_policy r = plan_policy ?r v" for t'
    unfolding find_runtime_def[of db'] find_runtime_def[of db1] rows by (rule store_runtime_find[OF fr])
  have same: "find_runtime db1 = find_runtime db" by (rule find_runtime_cong[OF rows1])
  have count: "task_count db' t' = task_count db1 t'" for t' by (simp add: task_count_def as)
  have lim: "task_count db1 t \<le> invocation_limit ?r v"
  proof (cases ?r)
    case None
    then have "db1 = db" using eff control_state_None[OF st] by (auto simp: control_effect_def Let_def step_action_def split: if_splits option.splits)
    then show ?thesis using activation_limit[of sha256 collation env db task plan session actor v rec db1] eff None control_state_None[OF st] t by (simp add: invocation_limit_def)
  next
    case (Some r)
    then show ?thesis using ok1 same by (simp add: invocation_limit_def exec_ok_def)
  qed
  have "task_count db' t' \<le> ru_invocation_limit r" if "find_runtime db' t' = Some r" for t' r
    using that f[of t'] lim ok1 count by (cases "t' = t") (auto simp: exec_ok_def)
  moreover have "find_runtime db' (at_task_id a) \<noteq> None" if "a \<in> set (attempts_of db')" for a
    using that f[of "at_task_id a"] ok1 as by (auto simp: exec_ok_def split: if_splits)
  moreover have "distinct (map ru_task_id (xd_runtimes db'))" using store_runtime_distinct[OF fr] ok1 by (simp add: rows exec_ok_def)
  ultimately have "exec_ok db'" using ok1 by (simp add: exec_ok_def as step_log_def)
  moreover have "attempts_step db db'" using as1 by (simp add: attempts_step_def as)
  moreover have "runtimes_step db db'" unfolding runtimes_step_def
  proof (intro allI impI)
    fix t' r
    assume r: "find_runtime db t' = Some r"
    show "\<exists>r'. find_runtime db' t' = Some r' \<and> ru_invocation_limit r' = ru_invocation_limit r \<and> ru_budget_policy r' = ru_budget_policy r
      \<and> (ru_state r = ''cancelled'' \<longrightarrow> ru_state r' = ''cancelled'')"
      using f[of t'] r same control_state_None[OF st]
      by (cases "t' = t") (auto simp: invocation_limit_def plan_policy_def next_state_def step_action_def)
  qed
  ultimately show ?thesis by simp
qed (use ok in \<open>auto simp: attempts_step_def runtimes_same\<close>)

lemma plan_exec_steps:
  assumes ok: "exec_ok db" and step: "plan_exec_step db db'"
  shows "exec_ok db' \<and> attempts_step db db' \<and> runtimes_step db db'"
  using step
proof cases
  case (pass env sha256 collation c r)
  obtain db1 where adv: "advance_step sha256 collation env db (wc_task_id c) (wc_lease_token c) None = (Inr r, db1)"
    and same: "xd_runtimes db' = xd_runtimes db1" "attempts_of db' = attempts_of db1" using scheduler_process_Inr[OF pass(2)] by blast
  have "distinct (map at_attempt_id (attempts_of db))" using ok by (simp add: exec_ok_def)
  from advance_ledger[OF adv this] have l: "xd_runtimes db' = xd_runtimes db" "attempts_step db db'"
    using pass(1) same by (auto simp: attempts_step_def fresh_attempt_def)
  then show ?thesis using ledger_ok[OF ok l] runtimes_same[OF l(1)] by simp
next
  case (control env sha256 collation t actor v resp)
  show ?thesis by (rule control_steps[OF ok control(2,1)])
next
  case (draft sha256 collation writes now t actor v resp p)
  then have "attempts_step db db'" "xd_runtimes db' = xd_runtimes db" using draft_attempts[OF draft(2)] by (simp_all add: attempts_step_def)
  then show ?thesis using ledger_ok[OF ok] runtimes_same by simp
next
  case other
  then have "attempts_step db db'" "xd_runtimes db' = xd_runtimes db" by (simp_all add: outside_def attempts_step_def)
  then show ?thesis using ledger_ok[OF ok] runtimes_same by simp
qed

interpretation plan_runs: transition_system exec_start plan_exec_step exec_ok
  by unfold_locales (simp add: exec_start_def exec_ok_def step_log_def numbered_def find_runtime_def, use plan_exec_steps in blast)

section \<open>What runs guarantee\<close>


text \<open>
  C30. In every run the attempts of a task never exceed the invocation limit of its activation; the attempts of a step
  are numbered from one without gap, and all but the last one are settled, so no step runs twice at the same time.
\<close>

theorem plan_attempts_stay_within_limits:
  assumes "exec_start db0" "plan_exec_step\<^sup>*\<^sup>* db0 db"
  shows "(task_count db t = 0 \<or> (\<exists>r. find_runtime db t = Some r \<and> task_count db t \<le> ru_invocation_limit r))
    \<and> map at_attempt_no (step_log db t i) = map int [1..<Suc (length (step_log db t i))] \<and> list_all settled (butlast (step_log db t i))"
proof -
  have ok: "exec_ok db" using plan_runs.inv_reachable[OF assms] .
  have run: "\<exists>r. find_runtime db t = Some r" if "task_count db t \<noteq> 0"
  proof -
    have "filter (\<lambda>a. at_task_id a = t) (attempts_of db) \<noteq> []" using that by (auto simp: task_count_def)
    then obtain a where "a \<in> set (attempts_of db)" "at_task_id a = t" by (auto simp: filter_empty_conv)
    then show ?thesis using ok by (auto simp: exec_ok_def)
  qed
  have "numbered (step_log db t i)" using ok by (simp add: exec_ok_def)
  moreover have "task_count db t = 0 \<or> (\<exists>r. find_runtime db t = Some r \<and> task_count db t \<le> ru_invocation_limit r)"
    using run ok unfolding exec_ok_def by blast
  ultimately show ?thesis unfolding numbered_def by blast
qed

text \<open>
  C31. A cancelled plan stays cancelled in every further run, keeps its limits, and no attempt of its task is ever
  added.
\<close>

theorem cancelled_plan_starts_nothing:
  assumes "exec_start db0" "plan_exec_step\<^sup>*\<^sup>* db0 db" and r: "find_runtime db t = Some r" "ru_state r = ''cancelled''" and run: "plan_exec_step\<^sup>*\<^sup>* db db'"
  shows "\<exists>r'. find_runtime db' t = Some r' \<and> ru_state r' = ''cancelled'' \<and> ru_invocation_limit r' = ru_invocation_limit r
    \<and> ru_budget_policy r' = ru_budget_policy r \<and> task_count db' t = task_count db t"
  using run
proof (induction rule: rtranclp_induct)
  case base
  then show ?case using r by simp
next
  case (step x y)
  then obtain rx where rx: "find_runtime x t = Some rx" "ru_state rx = ''cancelled''" "ru_invocation_limit rx = ru_invocation_limit r" "ru_budget_policy rx = ru_budget_policy r"
    and count: "task_count x t = task_count db t" by blast
  have "exec_ok x" using plan_runs.inv_reachable[OF assms(1)] assms(2) step(1) by (metis rtranclp_trans)
  note e = plan_exec_steps[OF this step(2)]
  then obtain ry where ry: "find_runtime y t = Some ry" "ru_invocation_limit ry = ru_invocation_limit rx" "ru_budget_policy ry = ru_budget_policy rx" "ru_state ry = ''cancelled''"
    using rx(1,2) unfolding runtimes_step_def by blast
  have "task_count y t = task_count x t"
    using e rx moved_count[of x y t] by (auto simp: attempts_step_def may_reserve_def task_count_def)
  then show ?case using rx ry count by simp
qed

section \<open>A concrete run\<close>

text \<open>A plan of two steps, the second after the first, with a wakeup that is leased.\<close>

definition run_owner :: string where
  "run_owner = ''00000000-0000-0000-0000-000000000000''"

definition run_step :: "string \<Rightarrow> nat \<Rightarrow> string list \<Rightarrow> plan_step_row" where
  "run_step i n ds = \<lparr>pst_task_id = ''t'', pst_plan_revision = 1, pst_step_id = i, pst_position = n, pst_definition = sample_step i ds, pst_step_hash = []\<rparr>"

definition run_plan :: plan_db where
  "run_plan = draft_db\<lparr>pd_daemons := [\<lparr>dm_daemon_id = ''d'', dm_user_id = 7, dm_status = ''online'', dm_capabilities = STEP_CAPABILITIES\<rparr>],
     pd_revisions := [\<lparr>pv_task_id = ''t'', pv_revision = 1, pv_team_session_id = ''s'', pv_context_version = 0, pv_context_hash = None, pv_spec_revision = 1,
       pv_plan_hash = [], pv_created_by_user_id = 7\<rparr>],
     pd_steps := [run_step ''a'' 0 [], run_step ''b'' 1 [''a'']], pd_heads := [(''t'', 1)],
     pd_wakeups := [\<lparr>sw_task_id = ''t'', sw_generation = 1, sw_acknowledged_generation = 0, sw_lease_token = 1, sw_lease_owner = Some run_owner,
       sw_lease_until = Some 9, sw_available_at = 0, sw_last_error_code = None\<rparr>]\<rparr>"

definition run_db :: exec_db where
  "run_db = \<lparr>xd_plan = run_plan, xd_runtimes = [], xd_step_heads = [], xd_decisions = [], xd_specs = [(''t'', 1)], xd_call_specs = [], xd_outbox = [], xd_control_receipts = []\<rparr>"

definition run_env :: scheduler_env where
  "run_env = \<lparr>se_enabledForTeam = \<lambda>_. True, se_busy_call = \<lambda>_. False, se_busy_offer = \<lambda>_. False, se_freeze = \<lambda>_ _ _ _ _. Inr [],
     se_append = \<lambda>_ _ _ _ _. Inr [''call''], se_attempt_id = ''x'', se_now = 0, se_later = 0\<rparr>"

definition run_claim :: StepWakeupClaim where
  "run_claim = \<lparr>wc_task_id = ''t'', wc_generation = 1, wc_lease_token = 1, wc_lease_owner = run_owner\<rparr>"

definition run_request :: "string \<Rightarrow> string \<Rightarrow> int \<Rightarrow> (string \<times> json) list \<Rightarrow> json" where
  "run_request i act revision fs = JObj ([(''request_id'', JStr i), (''expected_revision'', JNum revision), (''plan_revision'', JNum 1), (''action'', JStr act)] @ fs)"

definition active_runtime :: plan_runtime where
  "active_runtime = \<lparr>ru_task_id = ''t'', ru_plan_revision = 1, ru_revision = 1, ru_state = ''active'', ru_initiator_user_id = 7, ru_invocation_limit = 5,
     ru_budget_policy = JObj [], ru_started_at = 0\<rparr>"

lemmas request_eval = run_request_def control_action_def field_text_def field_int_def obj_field_def

lemma run_requests:
  "validate_control ''t'' (run_request ''r'' ''activate'' 0 [(''invocation_limit'', JNum 5)]) = None" "validate_control ''t'' (run_request ''q'' ''cancel'' 1 []) = None"
  by (simp_all add: validate_control_def request_eval refuse_if_def boundedText_def js_trim_def js_trim_start_def js_space_def CONTROL_ACTIONS_def CONTROL_FIELDS_def
      closed_object_def safe_at_least_def is_safe_integer_def MAX_SAFE_INTEGER_def step_action_def)

lemma run_member: "pd_users p = pd_users draft_db \<Longrightarrow> pd_tasks p = pd_tasks draft_db \<Longrightarrow> pd_teams p = pd_teams draft_db \<Longrightarrow> pd_memberships p = pd_memberships draft_db \<Longrightarrow>
    pd_sessions p = pd_sessions draft_db \<Longrightarrow> pd_participants p = pd_participants draft_db \<Longrightarrow> task_member p ''t'' 7 = Inr (hd (pd_tasks draft_db), ''member'')"
  using task_member_same[of draft_db p "''t''" 7] draft_task by (simp add: same_access_def)

lemma run_access: "control_request db ''t'' 7 (run_request i act n fs) = Inr (hd (pd_tasks draft_db), hd (pd_revisions run_plan), hd (pd_sessions draft_db))"
  if "xd_plan db = wake a ''t'' (wake b ''t'' run_plan) \<or> xd_plan db = run_plan"
proof -
  have "task_member (xd_plan db) ''t'' 7 = Inr (hd (pd_tasks draft_db), ''member'')" using that by (intro run_member) (auto simp: wake_def run_plan_def)
  moreover have "pd_revisions (xd_plan db) = pd_revisions run_plan" "pd_sessions (xd_plan db) = pd_sessions draft_db" using that by (auto simp: wake_def run_plan_def)
  ultimately show ?thesis by (simp add: control_request_def find_revision_def run_plan_def draft_db_def request_eval)
qed

lemma run_snapshot: "snapshot_steps run_plan ''t'' 1 = [sample_step ''a'' [], sample_step ''b'' [''a'']]"
  by (simp add: snapshot_steps_def run_plan_def run_step_def)

lemma run_bindings: "step_bindings run_plan ''s'' ''m'' ''o'' = [''b'']"
  by (simp add: step_bindings_def run_plan_def draft_db_def STEP_CAPABILITIES_def DELIVERY_CAPABILITIES_def)

lemma run_enabled:
  "enable_checks (\<lambda>s. s) (\<lambda>s. s) run_env run_db (hd (pd_tasks draft_db)) (hd (pd_revisions run_plan)) (hd (pd_sessions draft_db)) None 7
     (run_request ''r'' ''activate'' 0 [(''invocation_limit'', JNum 5)]) = None"
proof -
  have t: "tk_task_id (hd (pd_tasks draft_db)) = ''t''" "tk_team_id (hd (pd_tasks draft_db)) = ''m''" "xd_plan run_db = run_plan"
      "pv_team_session_id (hd (pd_revisions run_plan)) = ''s''" "field_int (run_request ''r'' ''activate'' 0 [(''invocation_limit'', JNum 5)]) ''plan_revision'' = 1"
      "field_int (run_request ''r'' ''activate'' 0 [(''invocation_limit'', JNum 5)]) ''invocation_limit'' = 5"
    by (simp_all add: draft_db_def run_db_def run_plan_def request_eval)
  have "requireUnchangedStartedSteps (\<lambda>s. s) (\<lambda>s. s) [sample_step ''a'' [], sample_step ''b'' [''a'']] (started_steps run_plan ''t'') = None"
    by (simp add: requireUnchangedStartedSteps_def started_steps_def run_plan_def draft_db_def)
  moreover have "reviewers_writable run_plan ''m'' [sample_step ''a'' [], sample_step ''b'' [''a'']] = None"
    by (simp add: reviewers_writable_def draft_policy teamAccountsEnabled_def is_safe_integer_def MAX_SAFE_INTEGER_def run_plan_def draft_db_def fail_if_def)
  moreover have "offers_executable run_plan ''s'' ''m'' [sample_step ''a'' [], sample_step ''b'' [''a'']] = None"
    by (simp add: offers_executable_def draft_policy run_bindings)
  moreover have "length (unstarted_steps run_plan ''t'' 1) = 2" by (simp add: unstarted_steps_def run_plan_def run_step_def draft_db_def)
  ultimately show ?thesis unfolding enable_checks_def Let_def t run_snapshot
    by (simp del: first_error.simps add: run_env_def invocation_limit_def t) (simp add: participates_def task_calls_def t(3) run_plan_def draft_db_def)
qed

lemma run_activate:
  "\<exists>resp db. control_plan (\<lambda>s. s) (\<lambda>s. s) run_env run_db ''t'' 7 (run_request ''r'' ''activate'' 0 [(''invocation_limit'', JNum 5)]) = (Inr resp, db)
     \<and> xd_plan db = wake 0 ''t'' (wake 0 ''t'' run_plan) \<and> xd_runtimes db = [active_runtime] \<and> (\<forall>x \<in> set (xd_control_receipts db). rc_request_id x = ''r'')"
proof -
  let ?v = "run_request ''r'' ''activate'' 0 [(''invocation_limit'', JNum 5)]"
  have v: "control_action ?v = ''activate''" "field_int ?v ''expected_revision'' = 0" "field_text ?v ''request_id'' = ''r''" "field_int ?v ''plan_revision'' = 1"
      "field_int ?v ''invocation_limit'' = 5" "obj_field ?v ''budget'' = None"
    by (simp_all add: request_eval)
  have q: "control_request run_db ''t'' 7 ?v = Inr (hd (pd_tasks draft_db), hd (pd_revisions run_plan), hd (pd_sessions draft_db))"
    by (rule run_access) (simp add: run_db_def)
  have n: "find_runtime run_db ''t'' = None" "find_control_receipt run_db ''t'' 7 ''r'' = None" by (simp_all add: run_db_def find_runtime_def find_control_receipt_def)
  have st: "control_state None ?v = None" by (simp add: control_state_def v runtime_revision_def fail_if_def)
  have eff: "control_effect (\<lambda>s. s) (\<lambda>s. s) run_env run_db (hd (pd_tasks draft_db)) (hd (pd_revisions run_plan)) (hd (pd_sessions draft_db)) None 7 ?v = Inr (None, run_db)"
    by (simp add: control_effect_def v step_action_def enables_work_def run_enabled)
  show ?thesis unfolding control_plan_def run_requests option.case q sum.case prod.case v(3) n Let_def st eff
    by (simp add: store_control_def Let_def store_runtime_def v next_state_def step_action_def plan_policy_def active_runtime_def run_db_def run_env_def)
qed

text \<open>After the activation the pass reserves the first step.\<close>

lemma run_candidate:
  assumes "xd_plan db = wake a ''t'' (wake b ''t'' run_plan)"
  shows "step_candidate (\<lambda>s. s) run_env db (hd (pd_tasks draft_db)) (hd (pd_revisions run_plan)) 7 attempts (sample_step ''a'' []) = Inr (''o'', ''b'', [], ''call'')"
proof -
  have p: "step_bindings (xd_plan db) ''s'' ''m'' ''o'' = [''b'']" "pd_calls (xd_plan db) = []" "teamAccountsEnabled (xd_plan db) [7]" "writable_member (xd_plan db) ''m'' 7"
    using run_bindings unfolding assms
    by (simp_all add: wake_def step_bindings_def writable_member_def teamAccountsEnabled_def is_safe_integer_def MAX_SAFE_INTEGER_def)
      (simp_all add: run_plan_def draft_db_def)
  have "requireBoundedStepInputs (\<lambda>s. s) [] = None" by (simp add: requireBoundedStepInputs_def stableJSON_def utf8_length_def)
  moreover have "tk_team_id (hd (pd_tasks draft_db)) = ''m''" "pv_team_session_id (hd (pd_revisions run_plan)) = ''s''" by (simp_all add: draft_db_def run_plan_def)
  ultimately show ?thesis by (simp add: step_candidate_def Let_def draft_policy p run_env_def)
qed

lemma run_advance:
  assumes "xd_plan db = wake a ''t'' (wake b ''t'' run_plan)" "xd_runtimes db = [active_runtime]"
  shows "\<exists>x. advance_step (\<lambda>s. s) (\<lambda>s. s) run_env db ''t'' 1 None = (Inr (Reserved ''x'' ''call''), reserve_step run_env ''t'' ''s'' x ''b'' ''call'' db)"
proof -
  have p: "pd_tasks (xd_plan db) = pd_tasks draft_db" "pd_revisions (xd_plan db) = pd_revisions run_plan" "pd_attempts (xd_plan db) = []" "pd_calls (xd_plan db) = []"
      "pd_sessions (xd_plan db) = pd_sessions draft_db" "pd_participants (xd_plan db) = pd_participants draft_db" "pd_users (xd_plan db) = pd_users draft_db"
      "pd_teams (xd_plan db) = pd_teams draft_db" "pd_memberships (xd_plan db) = pd_memberships draft_db" "snapshot_steps (xd_plan db) ''t'' 1 = [sample_step ''a'' [], sample_step ''b'' [''a'']]"
    using run_snapshot unfolding assms(1) by (simp_all add: snapshot_steps_def wake_def) (simp_all add: run_plan_def draft_db_def)
  have i: "plan_identity db ''t'' = Some (active_runtime, hd (pd_tasks draft_db), hd (pd_revisions run_plan))"
  proof -
    have "find_runtime db ''t'' = Some active_runtime" by (simp add: find_runtime_def assms(2)) (simp add: active_runtime_def)
    moreover have "find_task (xd_plan db) ''t'' = Some (hd (pd_tasks draft_db))" by (simp add: find_task_def p) (simp add: draft_db_def)
    moreover have "ru_plan_revision active_runtime = 1" by (simp add: active_runtime_def)
    moreover have "find_revision (xd_plan db) ''t'' 1 = Some (hd (pd_revisions run_plan))" by (simp add: find_revision_def p) (simp add: run_plan_def)
    ultimately show ?thesis by (simp add: plan_identity_def)
  qed
  have t: "tk_task_id (hd (pd_tasks draft_db)) = ''t''" "pv_team_session_id (hd (pd_revisions run_plan)) = ''s''" "ru_initiator_user_id active_runtime = 7"
      "ru_plan_revision active_runtime = 1" "ru_state active_runtime = ''active''" "tk_state (hd (pd_tasks draft_db)) = ''open''"
    by (simp_all add: draft_db_def run_plan_def active_runtime_def)
  have as: "task_attempts db ''t'' = []" by (simp add: task_attempts_def p)
  have ready: "startable_steps [] None [sample_step ''a'' [], sample_step ''b'' [''a'']] = [sample_step ''a'' []]"
    by (simp add: startable_steps_def latest_attempt_def sample_step_def depends_on_def step_name_def strings_of_def array_items_def str_of_def obj_field_def)
  have budget: "requireTaskBudgetCapacity (plan_budget (se_now run_env) db active_runtime) = None" "\<not> duration_exhausted (se_later run_env) active_runtime"
    by (simp_all add: requireTaskBudgetCapacity_def plan_budget_def p active_runtime_def policy_limit_def obj_field_def duration_exhausted_def)
  have access: "teamAccountsEnabled (xd_plan db) [7]" "controls_task (xd_plan db) (hd (pd_tasks draft_db)) 7" "session_active (xd_plan db) ''s''" "participates (xd_plan db) ''s'' 7"
    by (simp_all add: teamAccountsEnabled_def is_safe_integer_def MAX_SAFE_INTEGER_def controls_task_def session_active_def participates_def p) (simp_all add: draft_db_def)
  have "reserve_next (\<lambda>s. s) (\<lambda>s. s) run_env db active_runtime (hd (pd_tasks draft_db)) (hd (pd_revisions run_plan)) 7 1 None
      = (Inr (Reserved ''x'' ''call''), reserve_step run_env ''t'' ''s'' (new_attempt (\<lambda>s. s) (\<lambda>s. s) ''x'' ''t'' active_runtime None 1 (sample_step ''a'' []) [] ''call'') ''b'' ''call'' db)"
    unfolding reserve_next_def Let_def t as p ready budget(1) option.case using budget(2)
    by (simp add: run_candidate[OF assms(1)] new_attempt_def) (simp add: run_env_def)
  moreover have "se_enabledForTeam run_env (tk_team_id (hd (pd_tasks draft_db)))" by (simp add: run_env_def)
  ultimately show ?thesis
    unfolding advance_step_def i option.case prod.case Let_def t as
    by (simp add: access task_calls_def p attempt_changes_def) blast
qed

lemma run_pass:
  assumes "xd_plan db = wake 0 ''t'' (wake 0 ''t'' run_plan)" "xd_runtimes db = [active_runtime]"
  shows "\<exists>db'. scheduler_process (\<lambda>s. s) (\<lambda>s. s) run_env run_claim db = (Inr (Reserved ''x'' ''call''), db')"
proof -
  obtain x where adv: "advance_step (\<lambda>s. s) (\<lambda>s. s) run_env db ''t'' 1 None = (Inr (Reserved ''x'' ''call''), reserve_step run_env ''t'' ''s'' x ''b'' ''call'' db)"
    using run_advance[OF assms] by blast
  have valid: "\<not> claim_invalid run_claim"
    unfolding claim_invalid_def run_claim_def run_owner_def by code_simp
  have h: "pd_heads (xd_plan db) = [(''t'', 1)]" by (simp add: assms(1) run_plan_def)
  have w: "pd_wakeups (xd_plan db) = [\<lparr>sw_task_id = ''t'', sw_generation = 3, sw_acknowledged_generation = 0, sw_lease_token = 1, sw_lease_owner = Some run_owner,
       sw_lease_until = Some 9, sw_available_at = 0, sw_last_error_code = None\<rparr>]"
    unfolding assms(1) by (simp add: wake_def run_plan_def signal_team_step_wakeup_def)
  have w': "pd_wakeups (xd_plan (reserve_step run_env ''t'' ''s'' x ''b'' ''call'' db)) = [\<lparr>sw_task_id = ''t'', sw_generation = 5, sw_acknowledged_generation = 0, sw_lease_token = 1,
       sw_lease_owner = Some run_owner, sw_lease_until = Some 9, sw_available_at = 0, sw_last_error_code = None\<rparr>]"
    by (simp add: reserve_step_def Let_def wake_def begin_task_def h w signal_team_step_wakeup_def run_env_def)
  have fence: "wakeup_fence 0 run_claim \<lparr>sw_task_id = ''t'', sw_generation = g, sw_acknowledged_generation = 0, sw_lease_token = 1, sw_lease_owner = Some run_owner,
       sw_lease_until = Some 9, sw_available_at = 0, sw_last_error_code = None\<rparr>" if "1 \<le> g" for g
    using that by (simp add: wakeup_fence_def holds_lease_def run_claim_def)
  have cb: "advance_callback (\<lambda>s. s) (\<lambda>s. s) run_env run_claim (pd_wakeups (xd_plan db), db)
      = Inr (Reserved ''x'' ''call'', pd_wakeups (xd_plan (reserve_step run_env ''t'' ''s'' x ''b'' ''call'' db)), reserve_step run_env ''t'' ''s'' x ''b'' ''call'' db)"
    using adv by (simp add: advance_callback_def run_claim_def)
  have "se_now run_env = 0" "se_later run_env = 0" by (simp_all add: run_env_def)
  then show ?thesis unfolding scheduler_process_def processClaim_def cb using valid by (simp add: w w' fence)
qed

text \<open>Or the plan is cancelled.\<close>

lemma run_cancel:
  assumes "xd_plan db = wake 0 ''t'' (wake 0 ''t'' run_plan)" "xd_runtimes db = [active_runtime]" "\<forall>x \<in> set (xd_control_receipts db). rc_request_id x = ''r''"
  shows "\<exists>resp db'. control_plan (\<lambda>s. s) (\<lambda>s. s) run_env db ''t'' 7 (run_request ''q'' ''cancel'' 1 []) = (Inr resp, db')
    \<and> find_runtime db' ''t'' = Some (active_runtime\<lparr>ru_revision := 2, ru_state := ''cancelled''\<rparr>) \<and> attempts_of db' = []"
proof -
  let ?v = "run_request ''q'' ''cancel'' 1 []"
  have v: "control_action ?v = ''cancel''" "field_int ?v ''expected_revision'' = 1" "field_text ?v ''request_id'' = ''q''" "field_int ?v ''plan_revision'' = 1" by (simp_all add: request_eval)
  have q: "control_request db ''t'' 7 ?v = Inr (hd (pd_tasks draft_db), hd (pd_revisions run_plan), hd (pd_sessions draft_db))" by (rule run_access[of _ 0 0]) (simp add: assms(1))
  have n: "find_runtime db ''t'' = Some active_runtime" by (simp add: find_runtime_def assms(2)) (simp add: active_runtime_def)
  have receipt: "find_control_receipt db ''t'' 7 ''q'' = None" using assms(3) by (auto simp: find_control_receipt_def find_None_iff)
  have st: "control_state (Some active_runtime) ?v = None" by (simp add: control_state_def v runtime_revision_def fail_if_def active_runtime_def)
  have eff: "control_effect (\<lambda>s. s) (\<lambda>s. s) run_env db (hd (pd_tasks draft_db)) (hd (pd_revisions run_plan)) (hd (pd_sessions draft_db)) (Some active_runtime) 7 ?v = Inr (None, db)"
    by (simp add: control_effect_def v step_action_def enables_work_def)
  have "pd_attempts (xd_plan db) = []" by (simp add: assms(1) run_plan_def draft_db_def)
  then show ?thesis unfolding control_plan_def run_requests option.case q sum.case prod.case v(3) receipt n Let_def st eff
    by (simp add: store_control_def Let_def store_runtime_def v next_state_def step_action_def find_runtime_def assms(2) active_runtime_def)
qed

lemma run_start: "exec_start run_db" "fresh_attempt run_env run_db"
  by (simp_all add: exec_start_def fresh_attempt_def run_db_def run_plan_def draft_db_def)

lemma run_reachable: "\<exists>db. plan_exec_step run_db db \<and> xd_plan db = wake 0 ''t'' (wake 0 ''t'' run_plan) \<and> xd_runtimes db = [active_runtime]
    \<and> (\<forall>x \<in> set (xd_control_receipts db). rc_request_id x = ''r'') \<and> attempts_of db = []"
proof -
  obtain resp db where c: "control_plan (\<lambda>s. s) (\<lambda>s. s) run_env run_db ''t'' 7 (run_request ''r'' ''activate'' 0 [(''invocation_limit'', JNum 5)]) = (Inr resp, db)"
    and db: "xd_plan db = wake 0 ''t'' (wake 0 ''t'' run_plan)" "xd_runtimes db = [active_runtime]" "\<forall>x \<in> set (xd_control_receipts db). rc_request_id x = ''r''" using run_activate by blast
  have "plan_exec_step run_db db" by (rule plan_exec_step.control[OF run_start(2) c])
  moreover have "attempts_of db = []" by (simp add: db(1) run_plan_def draft_db_def)
  ultimately show ?thesis using db by blast
qed


theorem plan_attempts_stay_within_limits_witness:
  "\<exists>db r. plan_exec_step\<^sup>*\<^sup>* run_db db \<and> find_runtime db ''t'' = Some r \<and> task_count db ''t'' = 1 \<and> task_count db ''t'' \<le> ru_invocation_limit r
     \<and> map at_attempt_no (step_log db ''t'' ''a'') = map int [1..<Suc (length (step_log db ''t'' ''a''))]"
proof -
  obtain db where db: "plan_exec_step run_db db" "xd_plan db = wake 0 ''t'' (wake 0 ''t'' run_plan)" "xd_runtimes db = [active_runtime]" and none: "attempts_of db = []" using run_reachable by blast
  obtain db' where p: "scheduler_process (\<lambda>s. s) (\<lambda>s. s) run_env run_claim db = (Inr (Reserved ''x'' ''call''), db')" using run_pass[OF db(2,3)] by blast
  obtain db1 a where adv: "advance_step (\<lambda>s. s) (\<lambda>s. s) run_env db ''t'' 1 None = (Inr (Reserved ''x'' ''call''), db1)" and "attempts_of db' = attempts_of db1"
    using scheduler_process_Inr[OF p] by (auto simp: run_claim_def)
  then obtain a where a: "attempts_of db' = [a]" "at_task_id a = ''t''" using advance_ledger[OF adv] none by auto
  have "fresh_attempt run_env db" by (simp add: fresh_attempt_def none)
  then have run: "plan_exec_step\<^sup>*\<^sup>* run_db db'" using db(1) plan_exec_step.pass[OF _ p] by (meson rtranclp.simps)
  have "task_count db' ''t'' = 1" using a by (simp add: task_count_def)
  with plan_attempts_stay_within_limits[OF run_start(1) run, of "''t''" "''a''"] run show ?thesis by auto
qed

theorem cancelled_plan_starts_nothing_witness:
  "\<exists>db db' r. plan_exec_step\<^sup>*\<^sup>* run_db db \<and> plan_exec_step\<^sup>*\<^sup>* db db' \<and> find_runtime db' ''t'' = Some r \<and> ru_state r = ''cancelled'' \<and> task_count db' ''t'' = 0"
proof -
  obtain db where db: "plan_exec_step run_db db" "xd_plan db = wake 0 ''t'' (wake 0 ''t'' run_plan)" "xd_runtimes db = [active_runtime]" "\<forall>x \<in> set (xd_control_receipts db). rc_request_id x = ''r''"
    and none: "attempts_of db = []" using run_reachable by blast
  obtain resp db1 where c: "control_plan (\<lambda>s. s) (\<lambda>s. s) run_env db ''t'' 7 (run_request ''q'' ''cancel'' 1 []) = (Inr resp, db1)"
    and r: "find_runtime db1 ''t'' = Some (active_runtime\<lparr>ru_revision := 2, ru_state := ''cancelled''\<rparr>)" "attempts_of db1 = []" using run_cancel[OF db(2-4)] by blast
  have "plan_exec_step db db1" using plan_exec_step.control[OF _ c] none by (simp add: fresh_attempt_def)
  then have run: "plan_exec_step\<^sup>*\<^sup>* run_db db1" using db(1) by (meson rtranclp.simps)
  have further: "plan_exec_step\<^sup>*\<^sup>* db1 db1" by simp
  have "task_count db1 ''t'' = 0" by (simp add: task_count_def r(2))
  with cancelled_plan_starts_nothing[OF run_start(1) run r(1) _ further] run further show ?thesis by auto
qed

end
