(* ===== verification/Team_Wakeups_Correct.thy ===== *)
theory Team_Wakeups_Correct
  imports Team_Wakeups
begin

text \<open>
  The wakeup queue as a transition system over the table and the history of its signals, leases and
  settlements. No signal is lost: it is pending until a worker settles a lease it took after the signal.
  A lease settles at most once, and never after a newer lease of the same task was handed out.
\<close>

section \<open>Runs\<close>

datatype wakeup_event = Signalled string int | Leased StepWakeupClaim | Settled StepWakeupClaim

text \<open>The table and its history, the newest event first.\<close>

record wakeup_run =
  wr_rows :: "step_wakeup list"
  wr_log :: "wakeup_event list"

definition run_signal :: "string set \<Rightarrow> int \<times> string \<Rightarrow> wakeup_run \<Rightarrow> wakeup_run" where
  "run_signal heads sig run = (case sig of (now, t) \<Rightarrow>
     let rows = signal_team_step_wakeup heads now t (wr_rows run) in
     \<lparr>wr_rows = rows, wr_log = (if t \<in> heads then map (\<lambda>w. Signalled t (sw_generation w)) (filter (\<lambda>w. sw_task_id w = t) rows) else []) @ wr_log run\<rparr>)"

text \<open>
  The transactions on the table: a signal, a lease, a settlement whose callback signals tasks itself, a
  retry. A worker settles or retries only a claim it was given; a transaction that throws changes nothing.
\<close>

inductive wakeup_step :: "wakeup_run \<Rightarrow> wakeup_run \<Rightarrow> bool" where
  signal: "wakeup_step run (run_signal heads sig run)"
| lease: "claim_wakeup (collation :: string \<Rightarrow> string) now teamIds leaseMs owner locked tasks teams (wr_rows run) = (Inr (Some c), rows) \<Longrightarrow>
    wakeup_step run \<lparr>wr_rows = rows, wr_log = Leased c # wr_log run\<rparr>"
| settle: "Leased c \<in> set (wr_log run) \<Longrightarrow> run' = fold (run_signal heads) sigs run \<Longrightarrow>
    callback (wr_rows run, d) = Inr (r, wr_rows run', d') \<Longrightarrow>
    processClaim now later (callback :: _ \<Rightarrow> string option + (string \<times> _)) c (wr_rows run, d :: string) = (Inr r, rows, d') \<Longrightarrow>
    wakeup_step run \<lparr>wr_rows = rows, wr_log = Settled c # wr_log run'\<rparr>"
| retry: "Leased c \<in> set (wr_log run) \<Longrightarrow> retry_wakeup now c code delayMs (wr_rows run) = (res, rows) \<Longrightarrow>
    wakeup_step run \<lparr>wr_rows = rows, wr_log = wr_log run\<rparr>"

definition no_wakeups :: "wakeup_run \<Rightarrow> bool" where
  "no_wakeups run \<longleftrightarrow> wr_rows run = [] \<and> wr_log run = []"

section \<open>The invariant\<close>

text \<open>What an event may add to the history before it.\<close>

fun log_ok :: "wakeup_event list \<Rightarrow> bool" where
  "log_ok [] = True"
| "log_ok (Signalled t g # l) \<longleftrightarrow> 1 \<le> g \<and> (\<forall>c. Leased c \<in> set l \<longrightarrow> wc_task_id c = t \<longrightarrow> wc_generation c < g) \<and> log_ok l"
| "log_ok (Leased c # l) \<longleftrightarrow> (\<forall>c'. Leased c' \<in> set l \<longrightarrow> wc_task_id c' = wc_task_id c \<longrightarrow> wc_lease_token c' < wc_lease_token c) \<and> log_ok l"
| "log_ok (Settled c # l) \<longleftrightarrow> Leased c \<in> set l \<and> Settled c \<notin> set l
     \<and> (\<forall>c'. Leased c' \<in> set l \<longrightarrow> wc_task_id c' = wc_task_id c \<longrightarrow> wc_lease_token c' \<le> wc_lease_token c) \<and> log_ok l"

text \<open>What a row says about the history of its task.\<close>

definition row_ok :: "wakeup_event list \<Rightarrow> step_wakeup \<Rightarrow> bool" where
  "row_ok l w \<longleftrightarrow> 1 \<le> sw_generation w
     \<and> (\<forall>g. Signalled (sw_task_id w) g \<in> set l \<longrightarrow> g \<le> sw_generation w)
     \<and> (\<forall>c. Leased c \<in> set l \<longrightarrow> wc_task_id c = sw_task_id w \<longrightarrow> wc_generation c \<le> sw_generation w \<and> wc_lease_token c \<le> sw_lease_token w)
     \<and> (\<forall>c. Settled c \<in> set l \<longrightarrow> wc_task_id c = sw_task_id w \<longrightarrow> wc_lease_token c < sw_lease_token w \<or> (wc_lease_token c = sw_lease_token w \<and> sw_lease_owner w = None))
     \<and> (sw_acknowledged_generation w = 0 \<or>
          (\<exists>c. Settled c \<in> set l \<and> wc_task_id c = sw_task_id w \<and> wc_generation c = sw_acknowledged_generation w))"

definition event_task :: "wakeup_event \<Rightarrow> string" where
  "event_task e = (case e of Signalled t _ \<Rightarrow> t | Leased c \<Rightarrow> wc_task_id c | Settled c \<Rightarrow> wc_task_id c)"

definition wakeup_inv :: "wakeup_run \<Rightarrow> bool" where
  "wakeup_inv run \<longleftrightarrow> distinct (map sw_task_id (wr_rows run)) \<and> log_ok (wr_log run) \<and> (\<forall>w \<in> set (wr_rows run). row_ok (wr_log run) w)
     \<and> event_task ` set (wr_log run) \<subseteq> sw_task_id ` set (wr_rows run)"

lemma row_ok_other: "row_ok l w \<Longrightarrow> event_task e \<noteq> sw_task_id w \<Longrightarrow> row_ok (e # l) w"
  by (auto simp: row_ok_def event_task_def)

lemma row_ok_neutral:
  assumes "row_ok l w" and "sw_task_id w' = sw_task_id w" "sw_generation w' = sw_generation w" "sw_lease_token w' = sw_lease_token w"
    "sw_acknowledged_generation w' = sw_acknowledged_generation w" "sw_lease_owner w' = None"
  shows "row_ok l w'"
  using assms unfolding row_ok_def by (simp, blast)

lemma unique_row:
  "distinct (map sw_task_id rows) \<Longrightarrow> w \<in> set rows \<Longrightarrow> filter (\<lambda>v. sw_task_id v = sw_task_id w) rows = [w]"
  by (induction rows) (auto simp: filter_empty_conv rev_image_eqI)

text \<open>A statement that maps the rows of a table and keeps their keys.\<close>

lemma map_update_keys: "(\<And>w. w \<in> set rows \<Longrightarrow> sw_task_id (f w) = sw_task_id w) \<Longrightarrow> map sw_task_id (map f rows) = map sw_task_id rows"
  by simp

lemma inv_map_rows:
  assumes inv: "wakeup_inv run" and keys: "\<And>w. sw_task_id (f w) = sw_task_id w" and l: "log_ok (es @ wr_log run)"
    and ok: "\<And>w. w \<in> set (wr_rows run) \<Longrightarrow> row_ok (wr_log run) w \<Longrightarrow> row_ok (es @ wr_log run) (f w)"
    and known: "event_task ` set es \<subseteq> sw_task_id ` set (wr_rows run)"
  shows "wakeup_inv \<lparr>wr_rows = map f (wr_rows run), wr_log = es @ wr_log run\<rparr>"
  using assms unfolding wakeup_inv_def by (auto simp: comp_def image_image)

section \<open>Signals\<close>

lemma run_signal_inv:
  assumes inv: "wakeup_inv run" shows "wakeup_inv (run_signal heads sig run)"
proof (cases sig)
  case (Pair now t)
  let ?rows = "wr_rows run" and ?l = "wr_log run"
  have dist: "distinct (map sw_task_id ?rows)" and lok: "log_ok ?l" and rok: "\<And>w. w \<in> set ?rows \<Longrightarrow> row_ok ?l w"
    and kn: "event_task ` set ?l \<subseteq> sw_task_id ` set ?rows" using inv by (auto simp: wakeup_inv_def)
  consider "t \<notin> heads" | w where "t \<in> heads" "w \<in> set ?rows" "sw_task_id w = t" | "t \<in> heads" "t \<notin> sw_task_id ` set ?rows" by auto
  then show ?thesis
  proof cases
    case 1
    then show ?thesis using inv Pair by (simp add: run_signal_def signal_team_step_wakeup_def wakeup_inv_def)
  next
    case 2
    let ?f = "\<lambda>w. if sw_task_id w = t then w\<lparr>sw_generation := sw_generation w + 1, sw_available_at := min (sw_available_at w) now\<rparr> else w"
    let ?e = "Signalled t (sw_generation w + 1)"
    have "filter (\<lambda>v. sw_task_id v = t) (map ?f ?rows) = map ?f (filter (\<lambda>v. sw_task_id v = t) ?rows)"
      by (simp add: filter_map comp_def if_distrib cong: filter_cong)
    then have "filter (\<lambda>v. sw_task_id v = t) (map ?f ?rows) = [?f w]" using unique_row[OF dist 2(2)] 2(3) by simp
    then have run: "run_signal heads sig run = \<lparr>wr_rows = map ?f ?rows, wr_log = [?e] @ ?l\<rparr>"
      using 2 Pair by (simp add: run_signal_def signal_team_step_wakeup_def image_iff) (metis 2(3))
    show ?thesis unfolding run
    proof (rule inv_map_rows[OF inv])
      show "log_ok ([?e] @ ?l)" using lok rok[OF 2(2)] 2(3) by (auto simp: row_ok_def)
      show "row_ok ([?e] @ ?l) (?f v)" if v: "v \<in> set ?rows" "row_ok ?l v" for v
      proof (cases "sw_task_id v = t")
        case True
        then have "v = w" using unique_row[OF dist v(1)] unique_row[OF dist 2(2)] 2(3) by simp
        then show ?thesis using v(2) True by (auto simp: row_ok_def) (force+)?
      qed (use v row_ok_other in \<open>auto simp: event_task_def\<close>)
    qed (use 2 in \<open>auto simp: event_task_def\<close>)
  next
    case 3
    then have run: "run_signal heads sig run = \<lparr>wr_rows = ?rows @ [new_wakeup now t], wr_log = Signalled t 1 # ?l\<rparr>"
      using Pair by (auto simp: run_signal_def signal_team_step_wakeup_def new_wakeup_def filter_empty_conv image_iff)
    have none: "\<And>e. e \<in> set ?l \<Longrightarrow> event_task e \<noteq> t" using 3 kn by auto
    have "log_ok (Signalled t 1 # ?l)" using lok none by (fastforce simp: event_task_def)
    moreover have "row_ok (Signalled t 1 # ?l) (new_wakeup now t)" using none by (fastforce simp: row_ok_def new_wakeup_def event_task_def)
    moreover have "row_ok (Signalled t 1 # ?l) w" if "w \<in> set ?rows" for w
      using that 3 rok by (intro row_ok_other) (auto simp: event_task_def)
    ultimately show ?thesis unfolding run wakeup_inv_def using dist 3 kn by (auto simp: new_wakeup_def event_task_def)
  qed
qed

lemma run_signals_inv: "wakeup_inv run \<Longrightarrow> wakeup_inv (fold (run_signal heads) sigs run)"
  by (induction sigs arbitrary: run) (auto intro: run_signal_inv)

lemma run_signals_log: "set (wr_log run) \<subseteq> set (wr_log (fold (run_signal heads) sigs run))"
  by (induction sigs arbitrary: run) (force simp: run_signal_def Let_def split: prod.splits)+

section \<open>Leases, settlements and retries\<close>

lemma same_row: "wakeup_inv run \<Longrightarrow> v \<in> set (wr_rows run) \<Longrightarrow> w \<in> set (wr_rows run) \<Longrightarrow> sw_task_id v = sw_task_id w \<Longrightarrow> v = w"
  using unique_row unfolding wakeup_inv_def by (metis list.inject)

lemma claim_candidate_in: "wakeup_candidate collation now teamIds locked tasks teams rows = Some w \<Longrightarrow> w \<in> set rows \<and> wakeup_due now w"
proof -
  let ?xs = "sort_key sw_available_at (sort_key (\<lambda>w. collation (sw_task_id w)) (filter (\<lambda>w. wakeup_due now w \<and> wakeup_enabled teamIds tasks teams w \<and> sw_task_id w \<notin> locked) rows))"
  assume "wakeup_candidate collation now teamIds locked tasks teams rows = Some w"
  then have "w \<in> set ?xs" unfolding wakeup_candidate_def by (cases ?xs) auto
  then show ?thesis by simp
qed

lemma lease_inv:
  assumes inv: "wakeup_inv run" and c: "claim_wakeup (collation :: string \<Rightarrow> string) now teamIds leaseMs owner locked tasks teams (wr_rows run) = (Inr (Some c), rows)"
  shows "wakeup_inv \<lparr>wr_rows = rows, wr_log = Leased c # wr_log run\<rparr>"
proof -
  obtain w where w: "w \<in> set (wr_rows run)"
      "c = \<lparr>wc_task_id = sw_task_id w, wc_generation = sw_generation w, wc_lease_token = sw_lease_token w + 1, wc_lease_owner = owner\<rparr>"
      "rows = map (\<lambda>v. if sw_task_id v = sw_task_id w then lease_wakeup now leaseMs owner v else v) (wr_rows run)"
    using c claim_candidate_in[of collation now teamIds locked tasks teams "wr_rows run"]
    by (auto simp: claim_wakeup_def split: if_splits option.splits)
  have rok: "row_ok (wr_log run) w" using inv w(1) by (simp add: wakeup_inv_def)
  have "wakeup_inv \<lparr>wr_rows = rows, wr_log = [Leased c] @ wr_log run\<rparr>" unfolding w(3)
  proof (rule inv_map_rows[OF inv])
    have "wc_lease_token c' < wc_lease_token c" if "Leased c' \<in> set (wr_log run)" "wc_task_id c' = wc_task_id c" for c'
      using rok that w(2) unfolding row_ok_def by fastforce
    then show "log_ok ([Leased c] @ wr_log run)" using inv by (simp add: wakeup_inv_def)
    show "row_ok ([Leased c] @ wr_log run) (if sw_task_id v = sw_task_id w then lease_wakeup now leaseMs owner v else v)"
      if v: "v \<in> set (wr_rows run)" "row_ok (wr_log run) v" for v
    proof (cases "sw_task_id v = sw_task_id w")
      case True
      then have "v = w" using same_row[OF inv v(1) w(1)] by simp
      then show ?thesis using rok w(2) by (auto simp: row_ok_def lease_wakeup_def)
    qed (use v w(2) row_ok_other in \<open>auto simp: event_task_def\<close>)
  qed (use w in \<open>auto simp: event_task_def lease_wakeup_def\<close>)
  then show ?thesis by simp
qed

lemma settle_inv:
  assumes inv: "wakeup_inv run" and known: "Leased c \<in> set (wr_log run)" and one: "length (filter (wakeup_fence later c) (wr_rows run)) = 1"
  shows "wakeup_inv \<lparr>wr_rows = settle_wakeup later c (wr_rows run), wr_log = Settled c # wr_log run\<rparr>"
proof -
  obtain w where "filter (wakeup_fence later c) (wr_rows run) = [w]" using one by (auto simp: length_Suc_conv)
  then have w: "w \<in> set (wr_rows run)" "wakeup_fence later c w" by (auto simp: filter_eq_Cons_iff)
  have fence: "sw_task_id w = wc_task_id c" "sw_lease_owner w = Some (wc_lease_owner c)" "sw_lease_token w = wc_lease_token c"
    using w(2) by (auto simp: wakeup_fence_def holds_lease_def)
  have rok: "row_ok (wr_log run) w" using inv w(1) by (simp add: wakeup_inv_def)
  let ?f = "\<lambda>v. if wakeup_fence later c v then v\<lparr>sw_acknowledged_generation := wc_generation c, sw_lease_owner := None, sw_lease_until := None, sw_last_error_code := None\<rparr> else v"
  have "wakeup_inv \<lparr>wr_rows = map ?f (wr_rows run), wr_log = [Settled c] @ wr_log run\<rparr>"
  proof (rule inv_map_rows[OF inv])
    have "Settled c \<notin> set (wr_log run)" using rok fence unfolding row_ok_def by force
    moreover have "wc_lease_token c' \<le> wc_lease_token c" if "Leased c' \<in> set (wr_log run)" "wc_task_id c' = wc_task_id c" for c'
      using rok fence that unfolding row_ok_def by force
    ultimately show "log_ok ([Settled c] @ wr_log run)" using inv known by (simp add: wakeup_inv_def)
    show "row_ok ([Settled c] @ wr_log run) (?f v)" if v: "v \<in> set (wr_rows run)" "row_ok (wr_log run) v" for v
    proof (cases "sw_task_id v = wc_task_id c")
      case True
      then have "v = w" using same_row[OF inv v(1) w(1)] fence by simp
      then show ?thesis using rok w(2) fence by (auto simp: row_ok_def)
    next
      case False
      then have "\<not> wakeup_fence later c v" by (auto simp: wakeup_fence_def holds_lease_def)
      then show ?thesis using v(2) False row_ok_other[of "wr_log run" v "Settled c"] by (simp add: event_task_def)
    qed
    show "event_task ` set [Settled c] \<subseteq> sw_task_id ` set (wr_rows run)" using imageI[OF w(1), of sw_task_id] fence(1) by (simp add: event_task_def)
  qed simp
  then show ?thesis by (simp add: settle_wakeup_def)
qed

lemma retry_inv:
  assumes inv: "wakeup_inv run" and r: "retry_wakeup now c code delayMs (wr_rows run) = (res, rows)"
  shows "wakeup_inv \<lparr>wr_rows = rows, wr_log = wr_log run\<rparr>"
proof -
  let ?f = "\<lambda>w. if holds_lease now c w then w\<lparr>sw_lease_owner := None, sw_lease_until := None, sw_last_error_code := Some code,
      sw_available_at := (if wc_generation c < sw_generation w then now else now + 1000 * delayMs)\<rparr> else w"
  have "rows = wr_rows run \<or> rows = map ?f (wr_rows run)" using r by (auto simp: retry_wakeup_def split: if_splits)
  moreover have "wakeup_inv \<lparr>wr_rows = map ?f (wr_rows run), wr_log = [] @ wr_log run\<rparr>"
    by (rule inv_map_rows[OF inv]) (use inv in \<open>auto simp: wakeup_inv_def intro: row_ok_neutral\<close>)
  moreover have "wakeup_inv \<lparr>wr_rows = wr_rows run, wr_log = wr_log run\<rparr>" using inv by (simp add: wakeup_inv_def)
  ultimately show ?thesis by (elim disjE) (simp_all only: append_Nil)
qed

lemma processClaim_committed:
  assumes "processClaim now later callback c (rows, d) = (Inr r, rows', d')"
  obtains r1 rows1 d1 where "callback (rows, d) = Inr (r1, rows1, d1)" "length (filter (wakeup_fence later c) rows1) = 1" "rows' = settle_wakeup later c rows1"
  using assms by (auto simp: processClaim_def split: if_splits sum.splits)

interpretation wakeup_runs: transition_system no_wakeups wakeup_step wakeup_inv
proof
  show "wakeup_inv s" if "no_wakeups s" for s using that by (simp add: no_wakeups_def wakeup_inv_def)
  show "wakeup_inv t" if inv: "wakeup_inv s" and st: "wakeup_step s t" for s t
    using st
  proof cases
    case (settle c run' heads sigs callback d r d' now later rows)
    obtain rows1 where "length (filter (wakeup_fence later c) rows1) = 1" "rows = settle_wakeup later c rows1" "rows1 = wr_rows run'"
      using settle(4,5) by (auto elim: processClaim_committed)
    moreover have "wakeup_inv run'" "Leased c \<in> set (wr_log run')"
      using settle(2,3) run_signals_inv[OF inv] run_signals_log[of s heads sigs] by auto
    ultimately show ?thesis using settle_inv[of run' c later] settle(1) by simp
  qed (use inv in \<open>auto intro: run_signal_inv lease_inv retry_inv\<close>)
qed

section \<open>Properties\<close>

lemma log_ok_suffix: "log_ok (xs @ ys) \<Longrightarrow> log_ok ys"
proof (induction xs)
  case (Cons e xs)
  then show ?case by (cases e) auto
qed simp

lemma split_before:
  assumes "xs @ u # ys = later @ v # earlier" "u \<noteq> v" "u \<notin> set earlier"
  shows "\<exists>zs. later = xs @ u # zs"
  using assms by (auto simp: append_eq_append_conv2 Cons_eq_append_conv append_eq_Cons_conv)

text \<open>
  C27. No signal of the step scheduler is lost. In every run, a signal of a task is still pending, or a worker
  took a lease of the task after the signal and settled it, which commits a pass over the plan.
\<close>

theorem wakeups_are_never_lost:
  assumes "no_wakeups run0" "wakeup_step\<^sup>*\<^sup>* run0 run" and log: "wr_log run = later @ Signalled t g # earlier"
  shows "(\<exists>w \<in> set (wr_rows run). sw_task_id w = t \<and> sw_acknowledged_generation w < g \<and> g \<le> sw_generation w)
    \<or> (\<exists>c xs ys zs. wc_task_id c = t \<and> g \<le> wc_generation c \<and> later = xs @ Settled c # ys @ Leased c # zs)"
proof (rule disjCI)
  have inv: "wakeup_inv run" using wakeup_runs.inv_reachable assms(1,2) by blast
  then have ok: "log_ok (wr_log run)" by (simp add: wakeup_inv_def)
  from inv log have "t \<in> sw_task_id ` set (wr_rows run)" by (force simp: wakeup_inv_def event_task_def)
  then obtain w where w: "w \<in> set (wr_rows run)" "sw_task_id w = t" "row_ok (wr_log run) w" using inv by (auto simp: wakeup_inv_def)
  have g: "g \<le> sw_generation w" using w log by (auto simp: row_ok_def)
  have s: "log_ok (Signalled t g # earlier)" using ok log log_ok_suffix by metis
  assume "\<not> (\<exists>c xs ys zs. wc_task_id c = t \<and> g \<le> wc_generation c \<and> later = xs @ Settled c # ys @ Leased c # zs)"
  moreover have "\<exists>c xs ys zs. wc_task_id c = t \<and> g \<le> wc_generation c \<and> later = xs @ Settled c # ys @ Leased c # zs"
    if a: "g \<le> sw_acknowledged_generation w"
  proof -
    obtain c where c: "Settled c \<in> set (wr_log run)" "wc_task_id c = t" "wc_generation c = sw_acknowledged_generation w"
      using w a s by (auto simp: row_ok_def)
    obtain xs ys where x: "wr_log run = xs @ Settled c # ys" using c(1) by (meson split_list)
    then have "Leased c \<in> set ys" using ok log_ok_suffix[of xs "Settled c # ys"] by simp
    then obtain y1 y2 where y: "ys = y1 @ Leased c # y2" by (meson split_list)
    have "Leased c \<notin> set earlier" using s c a by auto
    moreover have "(xs @ Settled c # y1) @ Leased c # y2 = later @ Signalled t g # earlier" using x y log by simp
    ultimately obtain zs where "later = (xs @ Settled c # y1) @ Leased c # zs" using split_before[of "xs @ Settled c # y1" "Leased c" y2 later "Signalled t g" earlier] by auto
    then show ?thesis using c a by (intro exI[of _ c] exI[of _ xs] exI[of _ y1] exI[of _ zs]) simp
  qed
  ultimately show "\<exists>w \<in> set (wr_rows run). sw_task_id w = t \<and> sw_acknowledged_generation w < g \<and> g \<le> sw_generation w"
    using w g by force
qed

text \<open>
  C28. A lease of a wakeup settles at most once, and not at all once a newer lease of the task has been handed
  out: a worker that was too slow commits nothing.
\<close>

theorem wakeup_lease_is_exclusive:
  assumes "no_wakeups run0" "wakeup_step\<^sup>*\<^sup>* run0 run"
  shows "(wr_log run = later @ Settled c # earlier \<longrightarrow> Leased c \<in> set earlier \<and> Settled c \<notin> set later \<union> set earlier)
    \<and> (wr_log run = later @ Leased c' # earlier \<and> Leased c \<in> set earlier \<and> wc_task_id c = wc_task_id c'
        \<longrightarrow> wc_lease_token c < wc_lease_token c' \<and> Settled c \<notin> set later)"
proof (intro conjI impI)
  have "wakeup_inv run" using wakeup_runs.inv_reachable assms by blast
  then have ok: "log_ok (wr_log run)" by (simp add: wakeup_inv_def)
  have tail: "log_ok (e # ys)" if "wr_log run = xs @ e # ys" for xs e ys using ok log_ok_suffix that by metis
  {
    assume l: "wr_log run = later @ Settled c # earlier"
    from tail[OF l] show "Leased c \<in> set earlier" by simp
    have "Settled c \<notin> set later"
    proof
      assume "Settled c \<in> set later"
      then obtain xs ys where "later = xs @ Settled c # ys" by (meson split_list)
      then show False using tail[of xs "Settled c" "ys @ Settled c # earlier"] l by simp
    qed
    with tail[OF l] show "Settled c \<notin> set later \<union> set earlier" by simp
  }
  assume l: "wr_log run = later @ Leased c' # earlier \<and> Leased c \<in> set earlier \<and> wc_task_id c = wc_task_id c'"
  then show lt: "wc_lease_token c < wc_lease_token c'" using tail[of later "Leased c'" earlier] by auto
  show "Settled c \<notin> set later"
  proof
    assume "Settled c \<in> set later"
    then obtain xs ys where "later = xs @ Settled c # ys" by (meson split_list)
    then have "wc_lease_token c' \<le> wc_lease_token c" using tail[of xs "Settled c" "ys @ Leased c' # earlier"] l by auto
    with lt show False by simp
  qed
qed

section \<open>A concrete run\<close>

definition sample_owner :: string where
  "sample_owner = ''00000000-0000-0000-0000-000000000000''"

definition sample_wakeup_claim :: StepWakeupClaim where
  "sample_wakeup_claim = \<lparr>wc_task_id = ''t'', wc_generation = 1, wc_lease_token = 1, wc_lease_owner = sample_owner\<rparr>"

definition leased_row :: step_wakeup where
  "leased_row = \<lparr>sw_task_id = ''t'', sw_generation = 1, sw_acknowledged_generation = 0, sw_lease_token = 1, sw_lease_owner = Some sample_owner,
     sw_lease_until = Some 30000005, sw_available_at = 0, sw_last_error_code = None\<rparr>"

definition settled_run :: wakeup_run where
  "settled_run = \<lparr>wr_rows = [leased_row\<lparr>sw_acknowledged_generation := 1, sw_lease_owner := None, sw_lease_until := None\<rparr>],
     wr_log = [Settled sample_wakeup_claim, Leased sample_wakeup_claim, Signalled ''t'' 1]\<rparr>"

lemma sample_claim_valid: "\<not> claim_invalid sample_wakeup_claim"
  unfolding claim_invalid_def sample_wakeup_claim_def sample_owner_def by code_simp

lemma settled_run_reachable: "wakeup_step\<^sup>*\<^sup>* \<lparr>wr_rows = [], wr_log = []\<rparr> settled_run"
proof -
  let ?r0 = "\<lparr>wr_rows = [], wr_log = []\<rparr>" and ?r1 = "\<lparr>wr_rows = [new_wakeup 0 ''t''], wr_log = [Signalled ''t'' 1]\<rparr>"
  let ?r2 = "\<lparr>wr_rows = [leased_row], wr_log = [Leased sample_wakeup_claim, Signalled ''t'' 1]\<rparr>"
  have "run_signal {''t''} (0, ''t'') ?r0 = ?r1" by (simp add: run_signal_def signal_team_step_wakeup_def new_wakeup_def)
  then have s1: "wakeup_step ?r0 ?r1" by (metis wakeup_step.signal)
  have "claim_wakeup (\<lambda>s. s) 5 [''m''] 30000 sample_owner {} [\<lparr>tk_task_id = ''t'', tk_team_id = ''m'', tk_state = ''open'', tk_creator_user_id = 1\<rparr>]
      [\<lparr>tm_team_id = ''m'', tm_state = ''active''\<rparr>] (wr_rows ?r1) = (Inr (Some sample_wakeup_claim), [leased_row])"
    by (simp add: claim_wakeup_def wakeup_candidate_def wakeup_due_def wakeup_enabled_def new_wakeup_def lease_wakeup_def leased_row_def
        sample_wakeup_claim_def identifier_text_def Let_def)
  from wakeup_step.lease[OF this] have s2: "wakeup_step ?r1 ?r2" by simp
  have f: "wakeup_fence 6 sample_wakeup_claim leased_row" by (simp add: wakeup_fence_def holds_lease_def sample_wakeup_claim_def leased_row_def)
  then have "processClaim 6 6 (\<lambda>(rows, d). Inr ([], rows, d)) sample_wakeup_claim ([leased_row], [])
      = (Inr [] :: (wakeup_error + string option) + string, settle_wakeup 6 sample_wakeup_claim [leased_row], [])"
    using sample_claim_valid by (simp add: processClaim_def)
  moreover have "settle_wakeup 6 sample_wakeup_claim [leased_row] = wr_rows settled_run"
    using f by (simp add: settle_wakeup_def settled_run_def sample_wakeup_claim_def leased_row_def)
  ultimately have "wakeup_step ?r2 \<lparr>wr_rows = wr_rows settled_run, wr_log = Settled sample_wakeup_claim # wr_log ?r2\<rparr>"
    by (intro wakeup_step.settle[where run' = ?r2 and sigs = "[]" and callback = "\<lambda>(rows, d). Inr ([], rows, d)" and d = "[]" and d' = "[]" and r = "[]"]) simp_all
  then have "wakeup_step ?r2 settled_run" by (simp add: settled_run_def)
  with s1 s2 show ?thesis by (meson converse_rtranclp_into_rtranclp rtranclp.rtrancl_refl)
qed

theorem wakeups_are_never_lost_witness:
  "\<exists>c xs ys zs. wc_task_id c = ''t'' \<and> 1 \<le> wc_generation c \<and> [Settled sample_wakeup_claim, Leased sample_wakeup_claim] = xs @ Settled c # ys @ Leased c # zs"
  using wakeups_are_never_lost[OF _ settled_run_reachable, of "[Settled sample_wakeup_claim, Leased sample_wakeup_claim]" "''t''" 1 "[]"]
  by (simp add: no_wakeups_def settled_run_def leased_row_def)

theorem wakeup_lease_is_exclusive_witness:
  "Leased sample_wakeup_claim \<in> set [Leased sample_wakeup_claim, Signalled ''t'' 1] \<and> Settled sample_wakeup_claim \<notin> set [Leased sample_wakeup_claim, Signalled ''t'' 1]"
  using wakeup_lease_is_exclusive[OF _ settled_run_reachable, of "[]" sample_wakeup_claim "[Leased sample_wakeup_claim, Signalled ''t'' 1]"]
  by (simp add: no_wakeups_def settled_run_def)

end
