(* ===== verification/Web_Batcher.thy ===== *)
theory Web_Batcher
  imports Prelude
begin

text \<open>
  The batcher of live session events of the web client (\<open>web/src/utils/liveSessionEventBatcher.ts\<close>) with its
  scheduler: the animation frames and timers that are requested and not cancelled. A callback runs when the
  scheduler fires it. \<open>flush\<close> is the last thing every function that delivers does, so calls it makes itself are
  the next steps of the run. The batcher delivers the events of a context in wire order, without loss or
  repetition, and pending events always have a frame and a timer that will deliver them.
\<close>

section \<open>The batcher\<close>

record 'a batcher =
  ba_contextKey :: "string option"
  ba_pending :: "'a list"
  ba_frameId :: "nat option"
  ba_fallbackId :: "nat option"
  ba_disposed :: bool

text \<open>The scheduler: outstanding frames and timers, and the next identifier it hands out.\<close>

record scheduler =
  sc_frames :: "nat set"
  sc_timers :: "nat set"
  sc_next :: nat

definition requestFrame :: "scheduler \<Rightarrow> nat \<times> scheduler" where
  "requestFrame sc = (sc_next sc, sc\<lparr>sc_frames := insert (sc_next sc) (sc_frames sc), sc_next := sc_next sc + 1\<rparr>)"

definition setFallback :: "scheduler \<Rightarrow> nat \<times> scheduler" where
  "setFallback sc = (sc_next sc, sc\<lparr>sc_timers := insert (sc_next sc) (sc_timers sc), sc_next := sc_next sc + 1\<rparr>)"

definition cancelFrame :: "nat option \<Rightarrow> scheduler \<Rightarrow> scheduler" where
  "cancelFrame i sc = (case i of None \<Rightarrow> sc | Some n \<Rightarrow> sc\<lparr>sc_frames := sc_frames sc - {n}\<rparr>)"

definition clearFallback :: "nat option \<Rightarrow> scheduler \<Rightarrow> scheduler" where
  "clearFallback i sc = (case i of None \<Rightarrow> sc | Some n \<Rightarrow> sc\<lparr>sc_timers := sc_timers sc - {n}\<rparr>)"

definition new_batcher :: "'a batcher" where
  "new_batcher = \<lparr>ba_contextKey = None, ba_pending = [], ba_frameId = None, ba_fallbackId = None, ba_disposed = False\<rparr>"

definition cancelScheduling :: "'a batcher \<times> scheduler \<Rightarrow> 'a batcher \<times> scheduler" where
  "cancelScheduling s = (case s of (b, sc) \<Rightarrow>
     (b\<lparr>ba_frameId := None, ba_fallbackId := None\<rparr>, clearFallback (ba_fallbackId b) (cancelFrame (ba_frameId b) sc)))"

text \<open>The batches handed to \<open>flush\<close>, none or one.\<close>

definition deliverPending :: "'a batcher \<times> scheduler \<Rightarrow> 'a list list \<times> 'a batcher \<times> scheduler" where
  "deliverPending s = (case s of (b, sc) \<Rightarrow>
     if ba_pending b = [] then ([], b, sc) else ([ba_pending b], b\<lparr>ba_pending := []\<rparr>, sc))"

definition frameFlush :: "'a batcher \<times> scheduler \<Rightarrow> 'a list list \<times> 'a batcher \<times> scheduler" where
  "frameFlush s = (case s of (b, sc) \<Rightarrow>
     deliverPending (b\<lparr>ba_frameId := None, ba_fallbackId := None\<rparr>, clearFallback (ba_fallbackId b) sc))"

definition fallbackFlush :: "'a batcher \<times> scheduler \<Rightarrow> 'a list list \<times> 'a batcher \<times> scheduler" where
  "fallbackFlush s = (case s of (b, sc) \<Rightarrow>
     deliverPending (b\<lparr>ba_frameId := None, ba_fallbackId := None\<rparr>, cancelFrame (ba_frameId b) sc))"

definition switches :: "'a batcher \<Rightarrow> string \<Rightarrow> bool" where
  "switches b k \<longleftrightarrow> ba_contextKey b \<noteq> None \<and> ba_contextKey b \<noteq> Some k"

definition arm :: "'a batcher \<times> scheduler \<Rightarrow> 'a batcher \<times> scheduler" where
  "arm s = (case s of (b, sc) \<Rightarrow>
     if ba_frameId b = None \<and> ba_fallbackId b = None
     then let (f, sc1) = requestFrame sc; (t, sc2) = setFallback sc1 in (b\<lparr>ba_frameId := Some f, ba_fallbackId := Some t\<rparr>, sc2)
     else (b, sc))"

definition enqueue_live :: "string \<Rightarrow> 'a \<Rightarrow> 'a batcher \<times> scheduler \<Rightarrow> 'a batcher \<times> scheduler" where
  "enqueue_live k e s = (if ba_disposed (fst s) then s
     else let (b, sc) = (if switches (fst s) k then map_prod (\<lambda>b. b\<lparr>ba_pending := []\<rparr>) id (cancelScheduling s) else s)
       in arm (b\<lparr>ba_contextKey := Some k, ba_pending := ba_pending b @ [e]\<rparr>, sc))"

definition flush_live :: "'a batcher \<times> scheduler \<Rightarrow> 'a list list \<times> 'a batcher \<times> scheduler" where
  "flush_live s = (if ba_disposed (fst s) then ([], (fst s)\<lparr>ba_pending := []\<rparr>, snd s) else deliverPending (cancelScheduling s))"

definition reset_live :: "string \<Rightarrow> 'a batcher \<times> scheduler \<Rightarrow> 'a batcher \<times> scheduler" where
  "reset_live k s = (case cancelScheduling s of (b, sc) \<Rightarrow> (b\<lparr>ba_pending := [], ba_contextKey := Some k\<rparr>, sc))"

definition dispose_live :: "'a batcher \<times> scheduler \<Rightarrow> 'a batcher \<times> scheduler" where
  "dispose_live s = (case cancelScheduling ((fst s)\<lparr>ba_disposed := True\<rparr>, snd s) of (b, sc) \<Rightarrow> (b\<lparr>ba_pending := []\<rparr>, sc))"

section \<open>Runs\<close>

text \<open>The history, the newest entry first: events that entered, batches that left, and where pending events were dropped.\<close>

datatype 'a live_entry = Entered string 'a | Delivered "'a list" | Dropped

record 'a live_run =
  lr_state :: "'a batcher \<times> scheduler"
  lr_log :: "'a live_entry list"

inductive live_step :: "'a live_run \<Rightarrow> 'a live_run \<Rightarrow> bool" where
  enqueue: "\<not> ba_disposed (fst s) \<Longrightarrow> live_step \<lparr>lr_state = s, lr_log = l\<rparr>
     \<lparr>lr_state = enqueue_live k e s, lr_log = Entered k e # (if switches (fst s) k then Dropped # l else l)\<rparr>"
| ignored: "ba_disposed (fst s) \<Longrightarrow> live_step \<lparr>lr_state = s, lr_log = l\<rparr> \<lparr>lr_state = enqueue_live k e s, lr_log = l\<rparr>"
| flush: "flush_live s = (out, s') \<Longrightarrow> live_step \<lparr>lr_state = s, lr_log = l\<rparr> \<lparr>lr_state = s', lr_log = map Delivered out @ l\<rparr>"
| reset: "live_step \<lparr>lr_state = s, lr_log = l\<rparr> \<lparr>lr_state = reset_live k s, lr_log = Dropped # l\<rparr>"
| dispose: "live_step \<lparr>lr_state = s, lr_log = l\<rparr> \<lparr>lr_state = dispose_live s, lr_log = Dropped # l\<rparr>"
| frame: "i \<in> sc_frames sc \<Longrightarrow> frameFlush (b, sc\<lparr>sc_frames := sc_frames sc - {i}\<rparr>) = (out, s') \<Longrightarrow>
     live_step \<lparr>lr_state = (b, sc), lr_log = l\<rparr> \<lparr>lr_state = s', lr_log = map Delivered out @ l\<rparr>"
| timer: "i \<in> sc_timers sc \<Longrightarrow> fallbackFlush (b, sc\<lparr>sc_timers := sc_timers sc - {i}\<rparr>) = (out, s') \<Longrightarrow>
     live_step \<lparr>lr_state = (b, sc), lr_log = l\<rparr> \<lparr>lr_state = s', lr_log = map Delivered out @ l\<rparr>"

definition live_start :: "'a live_run \<Rightarrow> bool" where
  "live_start r \<longleftrightarrow> r = \<lparr>lr_state = (new_batcher, \<lparr>sc_frames = {}, sc_timers = {}, sc_next = 1\<rparr>), lr_log = []\<rparr>"

text \<open>What entered and what left since events were last dropped, in order.\<close>

fun entered_since :: "'a live_entry list \<Rightarrow> (string \<times> 'a) list" where
  "entered_since (Entered k e # l) = entered_since l @ [(k, e)]"
| "entered_since (Delivered es # l) = entered_since l"
| "entered_since _ = []"

fun delivered_since :: "'a live_entry list \<Rightarrow> 'a list" where
  "delivered_since (Entered k e # l) = delivered_since l"
| "delivered_since (Delivered es # l) = delivered_since l @ es"
| "delivered_since _ = []"

definition live_inv :: "'a live_run \<Rightarrow> bool" where
  "live_inv r \<longleftrightarrow> (let b = fst (lr_state r); sc = snd (lr_state r) in
     map snd (entered_since (lr_log r)) = delivered_since (lr_log r) @ ba_pending b
     \<and> (\<forall>(k, e) \<in> set (entered_since (lr_log r)). ba_contextKey b = Some k)
     \<and> [] \<notin> {es. Delivered es \<in> set (lr_log r)}
     \<and> sc_frames sc = set_option (ba_frameId b) \<and> sc_timers sc = set_option (ba_fallbackId b)
     \<and> (ba_frameId b = None \<longleftrightarrow> ba_fallbackId b = None) \<and> (ba_pending b \<noteq> [] \<longrightarrow> ba_frameId b \<noteq> None)
     \<and> (ba_disposed b \<longrightarrow> ba_pending b = []))"

lemmas batcher_defs = enqueue_live_def flush_live_def reset_live_def dispose_live_def frameFlush_def fallbackFlush_def deliverPending_def
  cancelScheduling_def cancelFrame_def clearFallback_def arm_def requestFrame_def setFallback_def

lemma live_step_inv: "live_step r r' \<Longrightarrow> live_inv r \<Longrightarrow> live_inv r'"
proof (induction rule: live_step.induct)
  case (enqueue s l k e)
  obtain b sc where s: "s = (b, sc)" by force
  show ?case
  proof (cases "switches b k")
    case True
    then show ?thesis using enqueue s by (auto simp: live_inv_def batcher_defs Let_def split: option.splits)
  next
    case False
    then show ?thesis using enqueue s by (auto simp: live_inv_def batcher_defs Let_def switches_def split: option.splits if_splits)
  qed
next
  case (flush s out s' l)
  obtain b sc where s: "s = (b, sc)" by force
  show ?case using flush s by (auto simp: live_inv_def batcher_defs Let_def split: option.splits if_splits)
next
  case (frame i sc b out s' l)
  then show ?case by (auto simp: live_inv_def batcher_defs Let_def split: option.splits if_splits)
next
  case (timer i sc b out s' l)
  then show ?case by (auto simp: live_inv_def batcher_defs Let_def split: option.splits if_splits)
qed (auto simp: live_inv_def batcher_defs Let_def split: option.splits prod.splits if_splits)

interpretation live_runs: transition_system live_start live_step live_inv
proof
  show "live_inv r" if "live_start r" for r :: "'a live_run" using that by (simp add: live_start_def live_inv_def new_batcher_def)
  show "live_inv r'" if "live_inv r" "live_step r r'" for r r' :: "'a live_run" using that by (blast intro: live_step_inv)
qed


text \<open>
  Pending events always have one outstanding frame and one outstanding timer, there is never another one, and
  whichever of the two fires first delivers all pending events as one batch and disarms the other.
\<close>

lemma pending_events_have_a_flush:
  fixes r0 r :: "'a live_run"
  assumes "live_start r0" "live_step\<^sup>*\<^sup>* r0 r" and state: "lr_state r = (b, sc)" and pending: "ba_pending b \<noteq> []"
  shows "\<exists>f t. sc_frames sc = {f} \<and> sc_timers sc = {t}
    \<and> (\<forall>out b' sc'. frameFlush (b, sc\<lparr>sc_frames := {}\<rparr>) = (out, b', sc') \<or> fallbackFlush (b, sc\<lparr>sc_timers := {}\<rparr>) = (out, b', sc')
          \<longrightarrow> out = [ba_pending b] \<and> ba_pending b' = [] \<and> sc_frames sc' = {} \<and> sc_timers sc' = {})"
proof -
  have inv: "live_inv r" using live_runs.inv_reachable[OF assms(1,2)] .
  then obtain f t where "ba_frameId b = Some f" "ba_fallbackId b = Some t" "sc_frames sc = {f}" "sc_timers sc = {t}"
    using state pending by (auto simp: live_inv_def Let_def)
  then show ?thesis using pending by (auto simp: batcher_defs)
qed

section \<open>A concrete run\<close>

definition waiting_run :: "nat live_run" where
  "waiting_run = \<lparr>lr_state = (\<lparr>ba_contextKey = Some ''s'', ba_pending = [5], ba_frameId = Some 1, ba_fallbackId = Some 2, ba_disposed = False\<rparr>,
     \<lparr>sc_frames = {1}, sc_timers = {2}, sc_next = 3\<rparr>), lr_log = [Entered ''s'' 5]\<rparr>"

lemma waiting_run_reachable: "live_step\<^sup>*\<^sup>* \<lparr>lr_state = (new_batcher, \<lparr>sc_frames = {}, sc_timers = {}, sc_next = 1\<rparr>), lr_log = []\<rparr> waiting_run"
  using live_step.enqueue[of "(new_batcher, \<lparr>sc_frames = {}, sc_timers = {}, sc_next = 1\<rparr>)" "[]" "''s''" "5 :: nat"]
  by (simp add: new_batcher_def waiting_run_def batcher_defs switches_def numeral_eq_Suc r_into_rtranclp)


lemma pending_events_have_a_flush_example: "sc_frames (snd (lr_state waiting_run)) = {1} \<and> sc_timers (snd (lr_state waiting_run)) = {2}"
  using pending_events_have_a_flush[OF _ waiting_run_reachable surjective_pairing] by (simp add: live_start_def waiting_run_def)

end
