(* ===== verification/Web_Parts.thy ===== *)
theory Web_Parts
  imports Prelude
begin

text \<open>
  The merge of mutable message parts in the chat view of the web client
  (\<open>web/src/utils/opencodePartMerge.ts\<close>). A part is a message that later events replace or extend; events carry
  the identifier of their predecessor, and an event that arrives early waits in the part. The snapshots of a causal
  chain end in the same message in whatever order they arrive.
\<close>

section \<open>Events and messages\<close>

record RevisionedPartEvent =
  pe_type :: string
  pe_text :: "string option"
  pe_snapshot :: "string option"
  pe_message_id :: "string option"
  pe_part_id :: "string option"
  pe_revision :: "int option"
  pe_event_id :: "string option"
  pe_previous_event_id :: "string option"
  pe_replace :: bool
  pe_streaming :: "bool option"
  pe_usage :: "json option"
  pe_metadata :: "(string, json) jsmap"

text \<open>A message of the list; \<open>ch_deferred\<close> is \<open>_deferredPartEvents\<close>, empty when the field is absent.\<close>

record chat_message =
  ch_id :: string
  ch_type :: string
  ch_role :: string
  ch_content :: "string option"
  ch_streaming :: bool
  ch_messageId :: "string option"
  ch_partId :: "string option"
  ch_revision :: "int option"
  ch_eventId :: "string option"
  ch_usage :: "json option"
  ch_metadata :: "(string, json) jsmap"
  ch_deferred :: "RevisionedPartEvent list"

datatype PartMergeResult = Inserted | Updated | Deferred | Ignored | Legacy

text \<open>A string that is present and not empty, a JSON value that is present and truthy.\<close>

definition nonempty :: "string option \<Rightarrow> bool" where
  "nonempty s = (case s of Some x \<Rightarrow> x \<noteq> [] | None \<Rightarrow> False)"

definition part_truthy :: "json option \<Rightarrow> bool" where
  "part_truthy v = (v \<noteq> None \<and> v \<notin> {Some JNull, Some (JBool False), Some (JNum 0), Some (JStr [])})"

definition or_else :: "'a option \<Rightarrow> 'a option \<Rightarrow> 'a option" where
  "or_else x y = (case x of Some v \<Rightarrow> Some v | None \<Rightarrow> y)"

definition text_or_empty :: "string option \<Rightarrow> string" where
  "text_or_empty s = (case s of Some x \<Rightarrow> x | None \<Rightarrow> [])"

definition turnMetadataKeys :: "string list" where
  "turnMetadataKeys = [''turn_id'', ''source_turn_id'', ''turn_status'', ''turn_reason'', ''turn_origin'', ''turn_confidence'', ''previous_turn_id'',
     ''continuation_reason'', ''actor_scope'', ''flow_scope'', ''content_class'', ''classifier_version'']"

definition turnMetadata :: "RevisionedPartEvent \<Rightarrow> (string, json) jsmap" where
  "turnMetadata e = concat (map (\<lambda>k. case map_of (pe_metadata e) k of Some v \<Rightarrow> [(k, v)] | None \<Rightarrow> []) turnMetadataKeys)"

definition copyTurnMetadata :: "RevisionedPartEvent \<Rightarrow> chat_message \<Rightarrow> chat_message" where
  "copyTurnMetadata e m = m\<lparr>ch_metadata := fold (\<lambda>(k, v). jm_set k v) (turnMetadata e) (ch_metadata m)\<rparr>"

section \<open>Deferred events\<close>

definition MAX_DEFERRED_PART_EVENTS :: nat where
  "MAX_DEFERRED_PART_EVENTS = 32"

definition has_successor :: "RevisionedPartEvent list \<Rightarrow> RevisionedPartEvent \<Rightarrow> bool" where
  "has_successor deferred i = list_ex (\<lambda>s. pe_previous_event_id s = pe_event_id i) deferred"

text \<open>The first event that satisfies \<open>p\<close>, with \<open>f\<close> applied to it.\<close>

fun update_first :: "('a \<Rightarrow> bool) \<Rightarrow> ('a \<Rightarrow> 'a) \<Rightarrow> 'a list \<Rightarrow> 'a list" where
  "update_first p f [] = []"
| "update_first p f (x # xs) = (if p x then f x # xs else x # update_first p f xs)"

text \<open>
  Over the limit the oldest event with a known successor is removed and its successor takes over its predecessor;
  if there is none the new event is dropped.
\<close>

definition enqueueDeferredPartEvent :: "RevisionedPartEvent list \<Rightarrow> RevisionedPartEvent \<Rightarrow> RevisionedPartEvent list" where
  "enqueueDeferredPartEvent deferred e =
     (if list_ex (\<lambda>i. pe_event_id i = pe_event_id e) deferred then deferred
      else let d = deferred @ [e] in
        if length d \<le> MAX_DEFERRED_PART_EVENTS then d
        else (case List.extract (has_successor d) d of
                None \<Rightarrow> butlast d
              | Some (xs, removable, _) \<Rightarrow>
                  let d' = update_first (\<lambda>i. pe_previous_event_id i = pe_event_id removable)
                        (\<lambda>i. i\<lparr>pe_previous_event_id := pe_previous_event_id removable\<rparr>) d
                  in take (length xs) d' @ drop (Suc (length xs)) d'))"

definition applyPartEvent :: "RevisionedPartEvent \<Rightarrow> chat_message \<Rightarrow> chat_message" where
  "applyPartEvent e m = copyTurnMetadata e (m\<lparr>
     ch_content := Some (case pe_snapshot e of Some s \<Rightarrow> s
        | None \<Rightarrow> if pe_replace e then text_or_empty (pe_text e) else text_or_empty (ch_content m) @ text_or_empty (pe_text e)),
     ch_revision := pe_revision e,
     ch_eventId := (if nonempty (pe_event_id e) then pe_event_id e else ch_eventId m),
     ch_streaming := (case pe_streaming e of Some b \<Rightarrow> b | None \<Rightarrow> False),
     ch_messageId := (if nonempty (pe_message_id e) then pe_message_id e else ch_messageId m),
     ch_usage := (if part_truthy (pe_usage e) then pe_usage e else ch_usage m)\<rparr>)"

lemma deferred_apply [simp]: "ch_deferred (applyPartEvent e m) = ch_deferred m"
  by (simp add: applyPartEvent_def copyTurnMetadata_def)

text \<open>The loop that applies the successors that wait.\<close>

function drainDeferredPartEvents :: "chat_message \<Rightarrow> chat_message" where
  "drainDeferredPartEvents m =
     (if \<not> nonempty (ch_eventId m) then m
      else (case List.extract (\<lambda>e. pe_previous_event_id e = ch_eventId m) (ch_deferred m) of
              None \<Rightarrow> m
            | Some (xs, successor, ys) \<Rightarrow> drainDeferredPartEvents (applyPartEvent successor (m\<lparr>ch_deferred := xs @ ys\<rparr>))))"
  by pat_completeness auto

termination
  by (relation "measure (\<lambda>m. length (ch_deferred m))") (auto dest!: arg_cong[where f = length] simp: extract_Some_iff)

declare drainDeferredPartEvents.simps [simp del]

section \<open>The merge\<close>

definition new_part :: "RevisionedPartEvent \<Rightarrow> string \<Rightarrow> int \<Rightarrow> chat_message" where
  "new_part e partId revision = \<lparr>ch_id = ''part:'' @ partId, ch_type = pe_type e, ch_role = ''agent'',
     ch_content = Some (text_or_empty (or_else (pe_snapshot e) (pe_text e))),
     ch_streaming = (case pe_streaming e of Some b \<Rightarrow> b | None \<Rightarrow> False), ch_messageId = pe_message_id e, ch_partId = Some partId,
     ch_revision = Some revision, ch_eventId = pe_event_id e, ch_usage = pe_usage e, ch_metadata = turnMetadata e, ch_deferred = []\<rparr>"

text \<open>What the merge does to the part that exists.\<close>

definition merge_existing :: "RevisionedPartEvent \<Rightarrow> int \<Rightarrow> chat_message \<Rightarrow> PartMergeResult \<times> chat_message" where
  "merge_existing e revision existing =
     (let m = copyTurnMetadata e existing; update = drainDeferredPartEvents (applyPartEvent e m) in
      if nonempty (pe_event_id e) \<and> \<not> nonempty (ch_eventId m) \<and> pe_snapshot e \<noteq> None then (Updated, update)
      else if nonempty (pe_event_id e) \<and> nonempty (ch_eventId m) then
        if pe_event_id e = ch_eventId m then (Ignored, m)
        else if pe_previous_event_id e \<noteq> ch_eventId m then
          if nonempty (pe_previous_event_id e) \<and> pe_snapshot e \<noteq> None
          then (Deferred, m\<lparr>ch_deferred := enqueueDeferredPartEvent (ch_deferred m) e\<rparr>)
          else (Ignored, m)
        else (Updated, update)
      else if revision \<le> (case ch_revision m of Some r \<Rightarrow> r | None \<Rightarrow> 0) then (Ignored, m)
      else (Updated, update))"

definition mergeRevisionedPart :: "RevisionedPartEvent \<Rightarrow> chat_message list \<Rightarrow> PartMergeResult \<times> chat_message list" where
  "mergeRevisionedPart e target =
     (case (pe_part_id e, pe_revision e) of
        (Some partId, Some revision) \<Rightarrow>
          if partId = [] \<or> revision < 1 then (Legacy, target)
          else (case find (\<lambda>m. ch_partId m = Some partId) target of
                  None \<Rightarrow> (Inserted, target @ [new_part e partId revision])
                | Some existing \<Rightarrow>
                    (fst (merge_existing e revision existing),
                     update_first (\<lambda>m. ch_partId m = Some partId) (\<lambda>m. snd (merge_existing e revision m)) target))
      | _ \<Rightarrow> (Legacy, target))"

section \<open>Causal chains\<close>

text \<open>A chain of full snapshots of one part, each naming the one before it.\<close>

definition causal_chain :: "string \<Rightarrow> RevisionedPartEvent list \<Rightarrow> bool" where
  "causal_chain p es \<longleftrightarrow> p \<noteq> [] \<and> distinct (map pe_event_id es)
     \<and> (\<forall>e \<in> set es. pe_part_id e = Some p \<and> nonempty (pe_event_id e) \<and> pe_snapshot e \<noteq> None \<and> (\<exists>r \<ge> 1. pe_revision e = Some r))
     \<and> (\<forall>i. Suc i < length es \<longrightarrow> pe_previous_event_id (es ! Suc i) = pe_event_id (es ! i))"

text \<open>The part shows event \<open>m\<close> of the chain and keeps the later ones of \<open>A\<close>, in the order of their arrival.\<close>

definition shows_event :: "RevisionedPartEvent list \<Rightarrow> nat \<Rightarrow> RevisionedPartEvent list \<Rightarrow> chat_message \<Rightarrow> bool" where
  "shows_event es m D c \<longleftrightarrow> m < length es \<and> ch_eventId c = pe_event_id (es ! m) \<and> ch_content c = pe_snapshot (es ! m)
     \<and> ch_deferred c = D \<and> ch_partId c = pe_part_id (es ! m)"

lemma shows_copy [simp]: "shows_event es m D (copyTurnMetadata e c) = shows_event es m D c"
  by (simp add: shows_event_def copyTurnMetadata_def)

lemma deferred_update [simp]: "shows_event es m D (c\<lparr>ch_deferred := D'\<rparr>) \<longleftrightarrow> D = D' \<and> shows_event es m (ch_deferred c) c"
  by (auto simp: shows_event_def)

lemma chain_event: "causal_chain p es \<Longrightarrow> i < length es \<Longrightarrow> nonempty (pe_event_id (es ! i)) \<and> pe_snapshot (es ! i) \<noteq> None \<and> pe_part_id (es ! i) = Some p"
  by (simp add: causal_chain_def)

lemma chain_id_inj: "causal_chain p es \<Longrightarrow> i < length es \<Longrightarrow> j < length es \<Longrightarrow> pe_event_id (es ! i) = pe_event_id (es ! j) \<longleftrightarrow> i = j"
  by (metis causal_chain_def length_map nth_eq_iff_index_eq nth_map)

lemma chain_distinct: "causal_chain p es \<Longrightarrow> distinct es"
  by (simp add: causal_chain_def distinct_map)

lemma chain_previous:
  "causal_chain p es \<Longrightarrow> 0 < j \<Longrightarrow> j < length es \<Longrightarrow> m < length es \<Longrightarrow> pe_previous_event_id (es ! j) = pe_event_id (es ! m) \<longleftrightarrow> j = Suc m"
  using chain_id_inj[of p es "j - 1" m] by (cases j) (auto simp: causal_chain_def)

lemma shows_apply:
  assumes "causal_chain p es" "j < length es" "shows_event es m D c"
  shows "shows_event es j D (applyPartEvent (es ! j) c)"
  using chain_event[OF assms(1,2)] chain_event[OF assms(1), of m] assms
  by (auto simp: shows_event_def applyPartEvent_def copyTurnMetadata_def)

text \<open>A waiting list: events of the chain after \<open>m\<close>, without repetition.\<close>

definition waiting :: "RevisionedPartEvent list \<Rightarrow> nat \<Rightarrow> RevisionedPartEvent list \<Rightarrow> bool" where
  "waiting es m D \<longleftrightarrow> distinct D \<and> set D \<subseteq> {es ! j | j. m < j \<and> j < length es}"

lemma drain_chain:
  assumes "causal_chain p es" "shows_event es m D c" "waiting es m D"
  shows "\<exists>m' D'. m \<le> m' \<and> shows_event es m' D' (drainDeferredPartEvents c) \<and> waiting es m' D' \<and> es ! Suc m' \<notin> set D'
    \<and> set D = set D' \<union> {es ! j | j. m < j \<and> j \<le> m'}"
  using assms
proof (induction "length D" arbitrary: D c m)
  case (0 D c m)
  then have "drainDeferredPartEvents c = c" by (simp add: shows_event_def drainDeferredPartEvents.simps[of c] extract_def)
  then show ?case using 0 by (intro exI[of _ m] exI[of _ D]) auto
next
  case (Suc n D c m)
  have m: "m < length es" "ch_eventId c = pe_event_id (es ! m)" "ch_deferred c = D" "nonempty (ch_eventId c)"
    using Suc.prems chain_event[of p es m] by (auto simp: shows_event_def)
  have prev: "pe_previous_event_id e = ch_eventId c \<longleftrightarrow> Suc m < length es \<and> e = es ! Suc m" if d: "e \<in> set D" for e
  proof -
    obtain j where j: "m < j" "j < length es" "e = es ! j" using d Suc.prems(3) by (auto simp: waiting_def)
    then show ?thesis using chain_previous[OF Suc.prems(1) _ j(2) m(1)] m(2) chain_distinct[OF Suc.prems(1)] by (auto simp: nth_eq_iff_index_eq)
  qed
  show ?case
  proof (cases "List.extract (\<lambda>e. pe_previous_event_id e = ch_eventId c) D")
    case None
    then have "drainDeferredPartEvents c = c" using m by (simp add: drainDeferredPartEvents.simps[of c])
    moreover have "es ! Suc m \<notin> set D"
    proof
      assume d: "es ! Suc m \<in> set D"
      then obtain j where "m < j" "j < length es" using Suc.prems(3) by (auto simp: waiting_def)
      then show False using None d prev[OF d] by (auto simp: extract_None_iff)
    qed
    ultimately show ?thesis using Suc.prems by (intro exI[of _ m] exI[of _ D]) auto
  next
    case (Some t)
    obtain xs e ys where t: "t = (xs, e, ys)" by (cases t)
    then have D: "D = xs @ e # ys" and e: "Suc m < length es" "e = es ! Suc m" using Some prev[of e] by (auto simp: extract_Some_iff)
    let ?c = "applyPartEvent e (c\<lparr>ch_deferred := xs @ ys\<rparr>)"
    have step: "drainDeferredPartEvents c = drainDeferredPartEvents ?c" using Some t m by (simp add: drainDeferredPartEvents.simps[of c])
    have sh: "shows_event es (Suc m) (xs @ ys) ?c" unfolding e(2)
      using Suc.prems(2) e m by (intro shows_apply[OF Suc.prems(1) e(1), of m]) (simp add: shows_event_def)
    have w: "waiting es (Suc m) (xs @ ys)"
    proof -
      have "z \<in> {es ! j | j. Suc m < j \<and> j < length es}" if z: "z \<in> set (xs @ ys)" for z
      proof -
        have "z \<noteq> es ! Suc m" using z Suc.prems(3) D e by (auto simp: waiting_def)
        moreover obtain j where "m < j" "j < length es" "z = es ! j" using z D Suc.prems(3) by (auto simp: waiting_def)
        ultimately show ?thesis by (metis (mono_tags, lifting) Suc_lessI mem_Collect_eq)
      qed
      then show ?thesis using Suc.prems(3) D by (auto simp: waiting_def)
    qed
    have len: "n = length (xs @ ys)" using Suc.hyps(2) D by simp
    from Suc.hyps(1)[OF len Suc.prems(1) sh w] obtain m' D' where
      "Suc m \<le> m'" "shows_event es m' D' (drainDeferredPartEvents ?c)" "waiting es m' D'" "es ! Suc m' \<notin> set D'"
      "set (xs @ ys) = set D' \<union> {es ! j | j. Suc m < j \<and> j \<le> m'}" by blast
    moreover have "{es ! j | j. m < j \<and> j \<le> m'} = insert (es ! Suc m) {es ! j | j. Suc m < j \<and> j \<le> m'}"
      using \<open>Suc m \<le> m'\<close> by (auto simp: Suc_le_eq) (metis Suc_lessI)
    ultimately show ?thesis unfolding step using D e by (intro exI[of _ m'] exI[of _ D']) auto
  qed
qed

section \<open>Arrivals in any order\<close>

text \<open>After the events \<open>A\<close> arrived: a prefix of the chain is applied and the rest of \<open>A\<close> waits.\<close>

definition arrived :: "RevisionedPartEvent list \<Rightarrow> RevisionedPartEvent set \<Rightarrow> chat_message \<Rightarrow> bool" where
  "arrived es A c \<longleftrightarrow> (\<exists>m D. shows_event es m D c \<and> waiting es m D \<and> es ! Suc m \<notin> set D \<and> A = set D \<union> {es ! j | j. 0 < j \<and> j \<le> m})"

lemma arrival:
  assumes chain: "causal_chain p es" and a: "arrived es A c" and k: "0 < k" "k < length es" "es ! k \<notin> A" and small: "length es \<le> 34"
  shows "arrived es (insert (es ! k) A) (snd (merge_existing (es ! k) r c))"
proof -
  obtain m D where s: "shows_event es m D c" and w: "waiting es m D" and nx: "es ! Suc m \<notin> set D" and A: "A = set D \<union> {es ! j | j. 0 < j \<and> j \<le> m}"
    using a by (auto simp: arrived_def)
  let ?e = "es ! k" and ?c = "copyTurnMetadata (es ! k) c"
  have s': "shows_event es m D ?c" using s by simp
  then have c: "m < length es" "ch_eventId ?c = pe_event_id (es ! m)" "ch_deferred ?c = D" by (simp_all add: shows_event_def)
  have ev: "nonempty (pe_event_id ?e)" "nonempty (ch_eventId ?c)" using chain_event[OF chain] k(2) c by auto
  have mk: "m < k" using k A by (metis (mono_tags, lifting) Un_iff linorder_not_le mem_Collect_eq)
  have ne: "pe_event_id ?e \<noteq> ch_eventId ?c" using chain_id_inj[OF chain k(2) c(1)] mk c(2) by simp
  show ?thesis
  proof (cases "k = Suc m")
    case True
    then have "pe_previous_event_id ?e = ch_eventId ?c" using chain_previous[OF chain k(1,2) c(1)] c(2) by simp
    then have upd: "snd (merge_existing ?e r c) = drainDeferredPartEvents (applyPartEvent ?e ?c)"
      using ev ne by (simp add: merge_existing_def Let_def)
    have "waiting es k D" using w nx True unfolding waiting_def by (smt (verit) Suc_lessI mem_Collect_eq subset_iff)
    from drain_chain[OF chain shows_apply[OF chain k(2) s'] this] obtain m' D' where d:
      "k \<le> m'" "shows_event es m' D' (drainDeferredPartEvents (applyPartEvent ?e ?c))" "waiting es m' D'" "es ! Suc m' \<notin> set D'"
      "set D = set D' \<union> {es ! j | j. k < j \<and> j \<le> m'}" by blast
    have "{j. 0 < j \<and> j \<le> m'} = insert k ({j. k < j \<and> j \<le> m'} \<union> {j. 0 < j \<and> j \<le> m})" using d(1) True by auto
    then have "{es ! j | j. 0 < j \<and> j \<le> m'} = insert ?e ({es ! j | j. k < j \<and> j \<le> m'} \<union> {es ! j | j. 0 < j \<and> j \<le> m})"
      by (simp only: setcompr_eq_image image_insert image_Un)
    then show ?thesis using d A unfolding upd arrived_def by (intro exI[of _ m'] exI[of _ D']) auto
  next
    case False
    have "pe_previous_event_id ?e \<noteq> ch_eventId ?c" using chain_previous[OF chain k(1,2) c(1)] c(2) False by simp
    moreover have "nonempty (pe_previous_event_id ?e)" using chain chain_event[OF chain, of "k - 1"] k by (cases k) (auto simp: causal_chain_def)
    moreover have "pe_snapshot ?e \<noteq> None" using chain_event[OF chain k(2)] by simp
    ultimately have upd: "snd (merge_existing ?e r c) = ?c\<lparr>ch_deferred := enqueueDeferredPartEvent D ?e\<rparr>"
      using ev ne c(3) by (simp add: merge_existing_def Let_def)
    have fresh: "\<not> list_ex (\<lambda>i. pe_event_id i = pe_event_id ?e) D"
    proof
      assume "list_ex (\<lambda>i. pe_event_id i = pe_event_id ?e) D"
      then obtain i where i: "i \<in> set D" "pe_event_id i = pe_event_id ?e" by (auto simp: list_ex_iff)
      then obtain j where "j < length es" "i = es ! j" using w by (auto simp: waiting_def)
      then show False using i chain_id_inj[OF chain _ k(2)] k(3) A by auto
    qed
    have "set D \<subseteq> (!) es ` ({Suc (Suc m)..<length es} - {k})"
    proof
      fix x assume x: "x \<in> set D"
      then obtain j where j: "m < j" "j < length es" "x = es ! j" using w by (auto simp: waiting_def)
      moreover have "j \<noteq> Suc m" "j \<noteq> k" using x j(3) nx k(3) A by auto
      ultimately show "x \<in> (!) es ` ({Suc (Suc m)..<length es} - {k})" by auto
    qed
    then have "card (set D) \<le> card ({Suc (Suc m)..<length es} - {k})" by (rule surj_card_le[rotated]) simp
    moreover have "k \<in> {Suc (Suc m)..<length es}" using k(2) mk False by simp
    ultimately have "length D < 32" using w small by (simp add: waiting_def distinct_card)
    then have "enqueueDeferredPartEvent D ?e = D @ [?e]" using fresh small by (simp add: enqueueDeferredPartEvent_def MAX_DEFERRED_PART_EVENTS_def)
    moreover have "waiting es m (D @ [?e])" using w mk k A by (auto simp: waiting_def)
    moreover have "es ! Suc m \<noteq> ?e" using False k(2) mk chain_distinct[OF chain] by (auto simp: nth_eq_iff_index_eq)
    ultimately show ?thesis unfolding upd arrived_def using s' nx A c(3)
      by (intro exI[of _ m] exI[of _ "D @ [?e]"]) (auto simp: shows_event_def)
  qed
qed

lemma first_arrived: "causal_chain p es \<Longrightarrow> es \<noteq> [] \<Longrightarrow> arrived es {} (new_part (es ! 0) p r)"
  using chain_event[of p es 0] by (auto simp: arrived_def shows_event_def waiting_def new_part_def or_else_def text_or_empty_def intro!: exI[of _ 0])

lemma all_arrived:
  assumes chain: "causal_chain p es" and a: "arrived es {es ! j | j. 0 < j \<and> j < length es} c"
  shows "shows_event es (length es - 1) [] c"
proof -
  obtain m D where s: "shows_event es m D c" and w: "waiting es m D" and nx: "es ! Suc m \<notin> set D"
    and A: "{es ! j | j. 0 < j \<and> j < length es} = set D \<union> {es ! j | j. 0 < j \<and> j \<le> m}" using a by (auto simp: arrived_def)
  have m: "m < length es" using s by (simp add: shows_event_def)
  have "\<not> Suc m < length es"
  proof
    assume l: "Suc m < length es"
    then have "es ! Suc m \<in> set D \<union> {es ! j | j. 0 < j \<and> j \<le> m}" using A by blast
    then obtain j where "j \<le> m" "es ! Suc m = es ! j" using nx by blast
    then show False using chain_distinct[OF chain] l by (auto simp: nth_eq_iff_index_eq)
  qed
  then have "m = length es - 1" using m by simp
  moreover from this have "D = []" using w by (cases D) (auto simp: waiting_def)
  ultimately show ?thesis using s by simp
qed

lemma partId_merge [simp]: "ch_partId (snd (merge_existing e r c)) = ch_partId c"
proof -
  have drain: "ch_partId (drainDeferredPartEvents m) = ch_partId m" for m
    by (induction m rule: drainDeferredPartEvents.induct)
       (subst drainDeferredPartEvents.simps, auto simp: applyPartEvent_def copyTurnMetadata_def split: option.splits)
  show ?thesis by (simp add: merge_existing_def Let_def drain applyPartEvent_def copyTurnMetadata_def)
qed

lemma merge_in_place:
  assumes "pe_part_id e = Some p" "pe_revision e = Some r" "1 \<le> r" "p \<noteq> []" "\<forall>m \<in> set target. ch_partId m \<noteq> Some p" "ch_partId c = Some p"
  shows "snd (mergeRevisionedPart e (target @ [c])) = target @ [snd (merge_existing e r c)]"
proof -
  have f: "find (\<lambda>m. ch_partId m = Some p) (target @ [c]) = Some c" using assms(5,6) by (induction target) auto
  have "update_first (\<lambda>m. ch_partId m = Some p) g (target @ [c]) = target @ [g c]" for g using assms(5,6) by (induction target) auto
  then show ?thesis using assms f by (simp add: mergeRevisionedPart_def)
qed

lemma merge_arrivals:
  assumes chain: "causal_chain p es" and "arrived es A c" "ch_partId c = Some p" "\<forall>m \<in> set target. ch_partId m \<noteq> Some p"
    and "distinct arrivals" "set arrivals \<subseteq> {es ! j | j. 0 < j \<and> j < length es} - A" "length es \<le> 34"
  shows "\<exists>c'. fold (\<lambda>e t. snd (mergeRevisionedPart e t)) arrivals (target @ [c]) = target @ [c'] \<and> arrived es (A \<union> set arrivals) c'"
  using assms
proof (induction arrivals arbitrary: A c)
  case (Cons e arrivals)
  obtain k where k: "0 < k" "k < length es" "e = es ! k" "es ! k \<notin> A" using Cons.prems(6) by auto
  obtain r where r: "pe_revision e = Some r" "1 \<le> r" "p \<noteq> []" "pe_part_id e = Some p" using chain k(3) nth_mem[OF k(2)] by (auto simp: causal_chain_def)
  let ?c = "snd (merge_existing e r c)"
  have "arrived es (insert e A) ?c" using arrival[OF chain Cons.prems(2) k(1,2,4)] Cons.prems(7) k(3) by simp
  moreover have "set arrivals \<subseteq> {es ! j | j. 0 < j \<and> j < length es} - insert e A" using Cons.prems(5,6) by auto
  ultimately obtain c' where "fold (\<lambda>e t. snd (mergeRevisionedPart e t)) arrivals (target @ [?c]) = target @ [c']" "arrived es (insert e A \<union> set arrivals) c'"
    using Cons.IH[OF chain, of "insert e A" ?c] Cons.prems by auto
  then show ?case using merge_in_place[OF r(4,1,2,3) Cons.prems(4,3)] by auto
qed auto


section \<open>A concrete chain\<close>

definition sample_part :: "string \<Rightarrow> string \<Rightarrow> RevisionedPartEvent" where
  "sample_part i prev = \<lparr>pe_type = ''agent_text'', pe_text = None, pe_snapshot = Some (''text '' @ i), pe_message_id = None, pe_part_id = Some ''p'',
     pe_revision = Some 1, pe_event_id = Some i, pe_previous_event_id = Some prev, pe_replace = False, pe_streaming = Some True, pe_usage = None, pe_metadata = []\<rparr>"


end
