(* ===== verification/Web_Diff.thy ===== *)
theory Web_Diff
  imports Prelude
begin

text \<open>
  The windowed parser of unified diffs of the web client (\<open>web/src/utils/unifiedDiff.ts\<close>): a window reads the diff
  from its first line, keeps the rows from \<open>start\<close> on and stops at the first row it cannot keep. It returns exactly
  the slice of the rows of the whole diff, with the line numbers they have there.
\<close>

section \<open>Rows\<close>

datatype UnifiedDiffLineKind = Context_Line | Addition | Deletion | Metadata

record UnifiedDiffRow =
  dr_kind :: UnifiedDiffLineKind
  dr_oldLine :: "nat option"
  dr_newLine :: "nat option"
  dr_text :: string

lemma length_dropWhile_less: "s \<noteq> [] \<Longrightarrow> length (dropWhile P s) - Suc 0 < length s"
  using length_dropWhile_le[of P s] length_greater_0_conv[of s] by linarith

text \<open>\<open>linesUntilStopped\<close>: the lines of the text; a line feed at the end starts no further line.\<close>

function linesUntilStopped :: "string \<Rightarrow> string list" where
  "linesUntilStopped s =
     (if s = [] then []
      else let l = takeWhile (\<lambda>c. c \<noteq> CHR 0x0A) s; r = dropWhile (\<lambda>c. c \<noteq> CHR 0x0A) s in
        if r = [] then [l] else l # linesUntilStopped (tl r))"
  by pat_completeness auto

termination
  by (relation "measure length") (auto intro: length_dropWhile_less)

declare linesUntilStopped.simps [simp del]

text \<open>
  \<open>/^@@ -(\d+)(?:,\d+)? \+(\d+)(?:,\d+)? @@(?:.*)$/\<close>: a number with its optional count, and the two starts of the
  header. The dot does not match a carriage return.
\<close>

definition skip_literal :: "string \<Rightarrow> string \<Rightarrow> string option" where
  "skip_literal p s = (if starts_with s p then Some (drop (length p) s) else None)"

definition read_digits :: "string \<Rightarrow> (string \<times> string) option" where
  "read_digits s = (let d = takeWhile is_digit s in if d = [] then None else Some (d, dropWhile is_digit s))"

definition skip_count :: "string \<Rightarrow> string" where
  "skip_count s = (case s of [] \<Rightarrow> s | c # r \<Rightarrow>
     if c = CHR '','' then (case read_digits r of Some (_, r') \<Rightarrow> r' | None \<Rightarrow> s) else s)"

definition hunkHeader :: "string \<Rightarrow> (nat \<times> nat) option" where
  "hunkHeader line =
     (case skip_literal ''@@ -'' line of None \<Rightarrow> None | Some r1 \<Rightarrow>
      (case read_digits r1 of None \<Rightarrow> None | Some (old, r2) \<Rightarrow>
       (case skip_literal '' +'' (skip_count r2) of None \<Rightarrow> None | Some r3 \<Rightarrow>
        (case read_digits r3 of None \<Rightarrow> None | Some (new, r4) \<Rightarrow>
         (case skip_literal '' @@'' (skip_count r4) of None \<Rightarrow> None | Some r5 \<Rightarrow>
           if CHR 0x0D \<in> set r5 \<or> CHR 0x0A \<in> set r5 then None else Some (decimal_value old, decimal_value new))))))"

type_synonym line_counters = "nat option \<times> nat option"

definition bump :: "nat option \<Rightarrow> nat option" where
  "bump n = map_option Suc n"

text \<open>The row of a line and the counters after it.\<close>

definition diff_row :: "line_counters \<Rightarrow> string \<Rightarrow> UnifiedDiffRow \<times> line_counters" where
  "diff_row st line = (case st of (oldLine, newLine) \<Rightarrow>
     (case hunkHeader line of
        Some (o', n') \<Rightarrow> (\<lparr>dr_kind = Metadata, dr_oldLine = None, dr_newLine = None, dr_text = line\<rparr>, (Some o', Some n'))
      | None \<Rightarrow>
          if starts_with line ''@@'' \<or> starts_with line ''--- '' \<or> starts_with line ''+++ '' \<or> starts_with line [CHR 0x5C]
            then (\<lparr>dr_kind = Metadata, dr_oldLine = None, dr_newLine = None, dr_text = line\<rparr>, st)
          else if starts_with line ''+'' then (\<lparr>dr_kind = Addition, dr_oldLine = None, dr_newLine = newLine, dr_text = tl line\<rparr>, (oldLine, bump newLine))
          else if starts_with line ''-'' then (\<lparr>dr_kind = Deletion, dr_oldLine = oldLine, dr_newLine = None, dr_text = tl line\<rparr>, (bump oldLine, newLine))
          else if starts_with line '' '' then (\<lparr>dr_kind = Context_Line, dr_oldLine = oldLine, dr_newLine = newLine, dr_text = tl line\<rparr>, (bump oldLine, bump newLine))
          else (\<lparr>dr_kind = Metadata, dr_oldLine = None, dr_newLine = None, dr_text = line\<rparr>, st)))"

section \<open>Windows\<close>

text \<open>The loop: the rows kept and whether it stopped at a row it could not keep.\<close>

fun diff_loop :: "nat \<Rightarrow> nat \<Rightarrow> string list \<Rightarrow> line_counters \<Rightarrow> nat \<Rightarrow> UnifiedDiffRow list \<Rightarrow> UnifiedDiffRow list \<times> bool" where
  "diff_loop start limit [] st rendered rows = (rows, False)"
| "diff_loop start limit (line # lines) st rendered rows =
     (case diff_row st line of (row, st') \<Rightarrow>
        if start \<le> rendered then
          if length rows < limit then diff_loop start limit lines st' (rendered + 1) (rows @ [row])
          else (rows, True)
        else diff_loop start limit lines st' (rendered + 1) rows)"

record diff_window =
  dw_rows :: "UnifiedDiffRow list"
  dw_next :: nat
  dw_hasMore :: bool

definition parseUnifiedDiffWindow :: "string \<Rightarrow> int \<Rightarrow> int \<Rightarrow> diff_window" where
  "parseUnifiedDiffWindow diff start limit =
     (let safeStart = nat (max 0 start); safeLimit = nat (max 0 limit);
          (rows, hasMore) = diff_loop safeStart safeLimit (linesUntilStopped diff) (None, None) 0 []
      in \<lparr>dw_rows = rows, dw_next = safeStart + length rows, dw_hasMore = hasMore\<rparr>)"

section \<open>The whole diff\<close>

text \<open>All rows, without a window.\<close>

fun all_rows :: "line_counters \<Rightarrow> string list \<Rightarrow> UnifiedDiffRow list" where
  "all_rows st [] = []"
| "all_rows st (line # lines) = (case diff_row st line of (row, st') \<Rightarrow> row # all_rows st' lines)"

definition diff_rows :: "string \<Rightarrow> UnifiedDiffRow list" where
  "diff_rows diff = all_rows (None, None) (linesUntilStopped diff)"

lemma nat_max_zero: "nat (max 0 i) = nat i"
  by (simp add: max_def)

lemma diff_loop_keeps:
  "start \<le> rendered \<Longrightarrow> length rows \<le> limit \<Longrightarrow>
   diff_loop start limit lines st rendered rows = (rows @ take (limit - length rows) (all_rows st lines), limit - length rows < length (all_rows st lines))"
proof (induction lines arbitrary: st rendered rows)
  case (Cons line lines)
  obtain row st' where r: "diff_row st line = (row, st')" by (metis surj_pair)
  show ?case
  proof (cases "length rows < limit")
    case True
    then have "limit - length rows = Suc (limit - Suc (length rows))" by simp
    then show ?thesis using Cons.IH[of "rendered + 1" "rows @ [row]" st'] Cons.prems True r by simp
  qed (use Cons.prems r in simp)
qed simp

lemma diff_loop_skips:
  "rendered \<le> start \<Longrightarrow>
   diff_loop start limit lines st rendered [] = (take limit (drop (start - rendered) (all_rows st lines)), start - rendered + limit < length (all_rows st lines))"
proof (induction lines arbitrary: st rendered)
  case (Cons line lines)
  obtain row st' where r: "diff_row st line = (row, st')" by (metis surj_pair)
  show ?case
  proof (cases "rendered = start")
    case True
    then show ?thesis using diff_loop_keeps[of start rendered "[]" limit "line # lines" st] by simp
  next
    case False
    then have "start - rendered = Suc (start - Suc rendered)" using Cons.prems by simp
    then show ?thesis using Cons.IH[of "rendered + 1" st'] Cons.prems False r by simp
  qed
qed simp

text \<open>
  A window is the slice of the whole diff: the rows of the window are those of the full parse from \<open>start\<close> on, at
  most \<open>limit\<close> of them and with the same line numbers, \<open>next\<close> is the row after them, and \<open>hasMore\<close> tells whether
  there is one. Reading window after window from \<open>next\<close> therefore shows every row once.
\<close>

lemma diff_window_is_slice:
  "parseUnifiedDiffWindow diff start limit =
     (let s = nat start; n = nat limit; all = diff_rows diff in
      \<lparr>dw_rows = take n (drop s all), dw_next = s + length (take n (drop s all)), dw_hasMore = (s + n < length all)\<rparr>)"
  using diff_loop_skips[of 0 "nat start" "nat limit" "linesUntilStopped diff" "(None, None)"]
  by (simp add: parseUnifiedDiffWindow_def diff_rows_def Let_def nat_max_zero)

text \<open>The lines of a text: joined by line feeds they are the text again, up to one line feed at its end.\<close>

lemma lines_nonempty: "s \<noteq> [] \<Longrightarrow> linesUntilStopped s \<noteq> []"
  by (subst linesUntilStopped.simps) (simp add: Let_def)

lemma lines_join: "s \<noteq> [] \<Longrightarrow> join_with [CHR 0x0A] (linesUntilStopped s) = s \<or> join_with [CHR 0x0A] (linesUntilStopped s) @ [CHR 0x0A] = s"
proof (induction s rule: linesUntilStopped.induct)
  case (1 s)
  let ?l = "takeWhile (\<lambda>c. c \<noteq> CHR 0x0A) s" and ?r = "dropWhile (\<lambda>c. c \<noteq> CHR 0x0A) s"
  show ?case
  proof (cases "?r = []")
    case True
    then have "?l = s" by (metis append_Nil2 takeWhile_dropWhile_id)
    then show ?thesis using "1.prems" True by (simp add: linesUntilStopped.simps[of s] Let_def)
  next
    case False
    then have r: "?r = CHR 0x0A # tl ?r" using hd_dropWhile[of "\<lambda>c. c \<noteq> CHR 0x0A" s] by (metis list.collapse)
    have eq: "linesUntilStopped s = ?l # linesUntilStopped (tl ?r)" using "1.prems" False by (auto simp: linesUntilStopped.simps[of s] Let_def)
    have s: "s = ?l @ CHR 0x0A # tl ?r" using r takeWhile_dropWhile_id[of "\<lambda>c. c \<noteq> CHR 0x0A" s] by simp
    show ?thesis
    proof (cases "tl ?r = []")
      case True
      then show ?thesis unfolding eq using s by (simp add: linesUntilStopped.simps[of "[]"])
    next
      case ne: False
      then obtain x xs where x: "linesUntilStopped (tl ?r) = x # xs" by (meson lines_nonempty neq_Nil_conv)
      have "join_with [CHR 0x0A] (linesUntilStopped s) = ?l @ CHR 0x0A # join_with [CHR 0x0A] (linesUntilStopped (tl ?r))" unfolding eq x by simp
      with "1.IH"[OF "1.prems" refl refl False ne] show ?thesis using s by (metis append.assoc append_Cons)
    qed
  qed
qed

end
