(* ===== verification/Memory_Review.thy ===== *)
theory Memory_Review
  imports Prelude
begin

text \<open>
  The publication quorum of the memory service (\<open>memory/src/governance/authority.ts\<close>): stored review decisions are
  checked against the current memberships, and the quorum is evaluated on those that are left. Publication needs no
  open objection, enough distinct approvals and a reviewer other than the proposer where the policy asks for one.
\<close>

section \<open>Decisions\<close>

datatype ReviewDecisionKind = Approve | Request_Changes | Reject

record BoundReviewDecision =
  rd_decisionId :: string
  rd_membershipId :: string
  rd_membershipRevision :: string
  rd_decision :: ReviewDecisionKind

record CurrentMembershipFact =
  mf_membershipId :: string
  mf_membershipRevision :: string
  mf_state :: string
  mf_roles :: "string list"

text \<open>The decision with its membership, as \<open>currentReviewDecisions\<close> returns it.\<close>

record QuorumDecision =
  qd_decisionId :: string
  qd_membershipId :: string
  qd_decision :: ReviewDecisionKind

definition can_review :: "CurrentMembershipFact \<Rightarrow> bool" where
  "can_review m = list_ex (\<lambda>role. role \<in> {''reviewer'', ''publisher'', ''scope_administrator''}) (mf_roles m)"

definition membership_map :: "CurrentMembershipFact list \<Rightarrow> (string, CurrentMembershipFact) jsmap" where
  "membership_map ms = fold (\<lambda>m. jm_set (mf_membershipId m) m) ms []"

definition currentReviewDecisions :: "BoundReviewDecision list \<Rightarrow> CurrentMembershipFact list \<Rightarrow> QuorumDecision list" where
  "currentReviewDecisions decisions memberships =
     (let current = membership_map memberships in
      concat (map (\<lambda>d. case jm_get current (rd_membershipId d) of
          None \<Rightarrow> []
        | Some m \<Rightarrow>
            if mf_state m \<noteq> ''active'' \<or> \<not> can_review m \<or> mf_membershipRevision m \<noteq> rd_membershipRevision d then []
            else [\<lparr>qd_decisionId = rd_decisionId d, qd_membershipId = rd_membershipId d, qd_decision = rd_decision d\<rparr>]) decisions))"

section \<open>The quorum\<close>

text \<open>The fields of the policy the evaluation reads.\<close>

record ReviewPolicyDocument =
  rp_minimum_approvals :: int
  rp_require_independent_reviewer :: bool
  rp_publisher_may_count_as_reviewer :: bool
  rp_allow_self_publish :: bool

datatype quorum_reason = Ok | Insufficient_Approvals | Missing_Independent_Reviewer | Pending_Change_Request | Rejected

record QuorumEvaluation =
  qe_ok :: bool
  qe_reason :: quorum_reason
  qe_countedDecisionMemberships :: "string list"

definition quorum_failed :: "quorum_reason \<Rightarrow> string list \<Rightarrow> QuorumEvaluation" where
  "quorum_failed r counted = \<lparr>qe_ok = False, qe_reason = r, qe_countedDecisionMemberships = counted\<rparr>"

text \<open>The values of the map from members to their approvals, in the order of the first approval of each.\<close>

definition quorum_approvals :: "QuorumDecision list \<Rightarrow> ReviewPolicyDocument \<Rightarrow> string option \<Rightarrow> QuorumDecision list" where
  "quorum_approvals decisions policy publisher = jm_values
     (fold (\<lambda>d. jm_set (qd_membershipId d) d)
       (filter (\<lambda>d. qd_decision d = Approve \<and> (rp_publisher_may_count_as_reviewer policy \<or> Some (qd_membershipId d) \<noteq> publisher)) decisions) [])"

definition evaluateQuorum :: "QuorumDecision list \<Rightarrow> ReviewPolicyDocument \<Rightarrow> string option \<Rightarrow> string option \<Rightarrow> QuorumEvaluation" where
  "evaluateQuorum decisions policy proposer publisher =
     (if list_ex (\<lambda>d. qd_decision d = Reject) decisions then quorum_failed Rejected []
      else if list_ex (\<lambda>d. qd_decision d = Request_Changes) decisions then quorum_failed Pending_Change_Request []
      else
        (let approvals = quorum_approvals decisions policy publisher; counted = map qd_membershipId approvals in
         if rp_require_independent_reviewer policy \<and> \<not> list_ex (\<lambda>a. Some (qd_membershipId a) \<noteq> proposer) approvals
           then quorum_failed Missing_Independent_Reviewer []
         else if proposer = publisher \<and> \<not> rp_allow_self_publish policy \<and> list_all (\<lambda>a. Some (qd_membershipId a) = proposer) approvals
           then quorum_failed Missing_Independent_Reviewer []
         else if int (length counted) < rp_minimum_approvals policy then quorum_failed Insufficient_Approvals counted
         else \<lparr>qe_ok = True, qe_reason = Ok, qe_countedDecisionMemberships = counted\<rparr>))"

section \<open>What a quorum means\<close>

text \<open>The members whose approval counts, and the conditions for publication, as the policy describes them.\<close>

definition approvers :: "QuorumDecision set \<Rightarrow> ReviewPolicyDocument \<Rightarrow> string option \<Rightarrow> string set" where
  "approvers ds policy publisher = {qd_membershipId d | d. d \<in> ds \<and> qd_decision d = Approve
     \<and> (rp_publisher_may_count_as_reviewer policy \<or> Some (qd_membershipId d) \<noteq> publisher)}"

definition may_publish :: "QuorumDecision set \<Rightarrow> ReviewPolicyDocument \<Rightarrow> string option \<Rightarrow> string option \<Rightarrow> bool" where
  "may_publish ds policy proposer publisher \<longleftrightarrow> (\<forall>d \<in> ds. qd_decision d = Approve)
     \<and> rp_minimum_approvals policy \<le> int (card (approvers ds policy publisher))
     \<and> (rp_require_independent_reviewer policy \<or> (proposer = publisher \<and> \<not> rp_allow_self_publish policy)
          \<longrightarrow> (\<exists>a \<in> approvers ds policy publisher. Some a \<noteq> proposer))"

lemma fold_map_keys:
  "jm_wf m \<Longrightarrow> (\<And>k v. (k, v) \<in> set m \<Longrightarrow> key v = k) \<Longrightarrow>
   (let m' = fold (\<lambda>d. jm_set (key d) d) ds m in jm_wf m' \<and> set (jm_keys m') = set (jm_keys m) \<union> key ` set ds \<and> (\<forall>(k, v) \<in> set m'. key v = k))"
proof (induction ds arbitrary: m)
  case (Cons d ds)
  have "jm_wf (jm_set (key d) d m)" using Cons.prems by simp
  moreover have "key v = k" if "(k, v) \<in> set (jm_set (key d) d m)" for k v
    using that calculation Cons.prems jm_get_in_set[of "jm_set (key d) d m" k v] jm_get_in_set[of m k v] by (auto split: if_splits)
  ultimately show ?case using Cons.IH[of "jm_set (key d) d m"] by (auto simp: Let_def dom_update)
qed (auto simp: Let_def)

lemma counted_approvals:
  "distinct (map qd_membershipId (quorum_approvals ds policy publisher)) \<and> qd_membershipId ` set (quorum_approvals ds policy publisher) = approvers (set ds) policy publisher"
proof -
  let ?fs = "filter (\<lambda>d. qd_decision d = Approve \<and> (rp_publisher_may_count_as_reviewer policy \<or> Some (qd_membershipId d) \<noteq> publisher)) ds"
  define m where "m = fold (\<lambda>d. jm_set (qd_membershipId d) d) ?fs []"
  have m: "jm_wf m" "set (jm_keys m) = qd_membershipId ` set ?fs" and key: "\<And>k v. (k, v) \<in> set m \<Longrightarrow> qd_membershipId v = k"
    using fold_map_keys[of "[]" qd_membershipId ?fs] unfolding m_def[symmetric] Let_def by (simp_all del: set_filter, blast)
  have "map qd_membershipId (jm_values m) = jm_keys m" using key by (simp add: jm_values_def)
  moreover have "qd_membershipId ` set ?fs = approvers (set ds) policy publisher" by (auto simp: approvers_def)
  moreover have "quorum_approvals ds policy publisher = jm_values m" by (simp add: quorum_approvals_def m_def)
  ultimately show ?thesis using m by (simp flip: set_map)
qed

text \<open>
  C38. The quorum decides exactly what the policy says: publication is allowed if and only if nobody objects, enough
  distinct members approved, and one of them is not the proposer where the policy or a self-publication asks for it;
  the counted memberships are those members, each once.
\<close>

theorem quorum_is_exact:
  "(qe_ok (evaluateQuorum ds policy proposer publisher) \<longleftrightarrow> may_publish (set ds) policy proposer publisher)
   \<and> (qe_ok (evaluateQuorum ds policy proposer publisher) \<longrightarrow>
        distinct (qe_countedDecisionMemberships (evaluateQuorum ds policy proposer publisher))
        \<and> set (qe_countedDecisionMemberships (evaluateQuorum ds policy proposer publisher)) = approvers (set ds) policy publisher)"
proof (cases "\<forall>d \<in> set ds. qd_decision d = Approve")
  case True
  let ?a = "quorum_approvals ds policy publisher" and ?A = "approvers (set ds) policy publisher"
  have c: "distinct (map qd_membershipId ?a)" "qd_membershipId ` set ?a = ?A" using counted_approvals by auto
  then have len: "length ?a = card ?A" by (metis distinct_card length_map set_map)
  define other where "other = (\<exists>a \<in> ?A. Some a \<noteq> proposer)"
  have "list_ex (\<lambda>a. Some (qd_membershipId a) \<noteq> proposer) ?a = other" "list_all (\<lambda>a. Some (qd_membershipId a) = proposer) ?a = (\<not> other)"
    unfolding other_def c(2)[symmetric] by (auto simp: list_ex_iff list_all_iff)
  moreover have "\<not> list_ex (\<lambda>d. qd_decision d = Reject) ds" "\<not> list_ex (\<lambda>d. qd_decision d = Request_Changes) ds" using True by (auto simp: list_ex_iff)
  ultimately have ev: "evaluateQuorum ds policy proposer publisher =
      (if \<not> other \<and> (rp_require_independent_reviewer policy \<or> proposer = publisher \<and> \<not> rp_allow_self_publish policy) then quorum_failed Missing_Independent_Reviewer []
       else if int (card ?A) < rp_minimum_approvals policy then quorum_failed Insufficient_Approvals (map qd_membershipId ?a)
       else \<lparr>qe_ok = True, qe_reason = Ok, qe_countedDecisionMemberships = map qd_membershipId ?a\<rparr>)"
    by (simp only: evaluateQuorum_def Let_def length_map len if_False) (cases other; cases "proposer = publisher"; simp)
  have may: "may_publish (set ds) policy proposer publisher \<longleftrightarrow> rp_minimum_approvals policy \<le> int (card ?A)
      \<and> (rp_require_independent_reviewer policy \<or> proposer = publisher \<and> \<not> rp_allow_self_publish policy \<longrightarrow> other)"
    using True by (simp add: may_publish_def other_def)
  show ?thesis unfolding ev may using c by (auto simp: quorum_failed_def)
next
  case False
  then obtain d where d: "d \<in> set ds" "qd_decision d \<noteq> Approve" by blast
  then have "list_ex (\<lambda>d. qd_decision d = Reject) ds \<or> list_ex (\<lambda>d. qd_decision d = Request_Changes) ds"
    by (cases "qd_decision d") (auto simp: list_ex_iff)
  then show ?thesis using d by (auto simp: evaluateQuorum_def may_publish_def quorum_failed_def)
qed

theorem quorum_is_exact_witness:
  "qe_ok (evaluateQuorum [\<lparr>qd_decisionId = ''1'', qd_membershipId = ''a'', qd_decision = Approve\<rparr>]
     \<lparr>rp_minimum_approvals = 1, rp_require_independent_reviewer = True, rp_publisher_may_count_as_reviewer = False, rp_allow_self_publish = False\<rparr> (Some ''b'') None)
   \<and> set (qe_countedDecisionMemberships (evaluateQuorum [\<lparr>qd_decisionId = ''1'', qd_membershipId = ''a'', qd_decision = Approve\<rparr>]
     \<lparr>rp_minimum_approvals = 1, rp_require_independent_reviewer = True, rp_publisher_may_count_as_reviewer = False, rp_allow_self_publish = False\<rparr> (Some ''b'') None)) = {''a''}"
proof -
  let ?ds = "[\<lparr>qd_decisionId = ''1'', qd_membershipId = ''a'', qd_decision = Approve\<rparr>]"
  let ?p = "\<lparr>rp_minimum_approvals = 1, rp_require_independent_reviewer = True, rp_publisher_may_count_as_reviewer = False, rp_allow_self_publish = False\<rparr>"
  have a: "approvers (set ?ds) ?p None = {''a''}" by (auto simp: approvers_def)
  have "may_publish (set ?ds) ?p (Some ''b'') None" unfolding may_publish_def a by simp
  then show ?thesis using quorum_is_exact[of ?ds ?p "Some ''b''" None] unfolding a by simp
qed

lemma membership_map_get: "jm_get (membership_map ms) i = Some m \<Longrightarrow> m \<in> set ms \<and> mf_membershipId m = i"
proof -
  have "jm_get (fold (\<lambda>m. jm_set (mf_membershipId m) m) ms acc) i = Some m \<Longrightarrow> (m \<in> set ms \<and> mf_membershipId m = i) \<or> jm_get acc i = Some m" for acc
  proof (induction ms arbitrary: acc)
    case (Cons x ms)
    then show ?case using Cons.IH[of "jm_set (mf_membershipId x) x acc"] by (auto split: if_splits)
  qed simp
  from this[of "[]"] show "jm_get (membership_map ms) i = Some m \<Longrightarrow> m \<in> set ms \<and> mf_membershipId m = i" by (simp add: membership_map_def)
qed

lemma current_decision:
  assumes "q \<in> set (currentReviewDecisions decisions memberships)"
  shows "\<exists>d \<in> set decisions. \<exists>m \<in> set memberships. rd_membershipId d = qd_membershipId q \<and> rd_decision d = qd_decision q
    \<and> mf_membershipId m = qd_membershipId q \<and> mf_state m = ''active'' \<and> can_review m \<and> mf_membershipRevision m = rd_membershipRevision d"
proof -
  obtain d where d: "d \<in> set decisions" "q \<in> set (case jm_get (membership_map memberships) (rd_membershipId d) of None \<Rightarrow> []
      | Some m \<Rightarrow> if mf_state m \<noteq> ''active'' \<or> \<not> can_review m \<or> mf_membershipRevision m \<noteq> rd_membershipRevision d then []
          else [\<lparr>qd_decisionId = rd_decisionId d, qd_membershipId = rd_membershipId d, qd_decision = rd_decision d\<rparr>])"
    using assms unfolding currentReviewDecisions_def Let_def by auto
  then obtain m where m: "jm_get (membership_map memberships) (rd_membershipId d) = Some m"
    by (cases "jm_get (membership_map memberships) (rd_membershipId d)") auto
  show ?thesis using d m membership_map_get[OF m] by (intro bexI[of _ d] bexI[of _ m]) (auto split: if_splits)
qed

text \<open>
  Only current reviewers are counted: when publication is allowed on the decisions that are still valid, every
  counted member approved, is active now with a review role, and has the membership revision the decision was bound to.
\<close>

lemma publication_needs_current_reviewers:
  assumes "evaluateQuorum (currentReviewDecisions decisions memberships) policy proposer publisher = e" "qe_ok e" "i \<in> set (qe_countedDecisionMemberships e)"
  shows "\<exists>d \<in> set decisions. \<exists>m \<in> set memberships. rd_membershipId d = i \<and> rd_decision d = Approve \<and> mf_membershipId m = i \<and> mf_state m = ''active''
    \<and> can_review m \<and> mf_membershipRevision m = rd_membershipRevision d"
proof -
  let ?ds = "currentReviewDecisions decisions memberships"
  have "qe_countedDecisionMemberships e = map qd_membershipId (quorum_approvals ?ds policy publisher)"
    using assms(1,2) by (auto simp: evaluateQuorum_def quorum_failed_def Let_def split: if_splits)
  then have "i \<in> approvers (set ?ds) policy publisher" using assms(3) counted_approvals by auto
  then obtain q where "q \<in> set ?ds" "qd_decision q = Approve" "qd_membershipId q = i" by (auto simp: approvers_def)
  then show ?thesis using current_decision[of q decisions memberships] by auto
qed

lemma publication_needs_current_reviewers_example:
  "\<exists>d \<in> set [\<lparr>rd_decisionId = ''1'', rd_membershipId = ''a'', rd_membershipRevision = ''3'', rd_decision = Approve\<rparr>].
   \<exists>m \<in> set [\<lparr>mf_membershipId = ''a'', mf_membershipRevision = ''3'', mf_state = ''active'', mf_roles = [''reviewer'']\<rparr>].
     rd_membershipId d = ''a'' \<and> rd_decision d = Approve \<and> mf_membershipId m = ''a'' \<and> mf_state m = ''active'' \<and> can_review m \<and> mf_membershipRevision m = rd_membershipRevision d"
  by (rule publication_needs_current_reviewers[where proposer = "Some ''b''" and publisher = None, OF refl,
        of _ _ "\<lparr>rp_minimum_approvals = 1, rp_require_independent_reviewer = True, rp_publisher_may_count_as_reviewer = False, rp_allow_self_publish = False\<rparr>"])
     (simp_all add: evaluateQuorum_def currentReviewDecisions_def membership_map_def can_review_def quorum_approvals_def jm_values_def)

end
