(* ===== verification/Memory_Context.thy ===== *)
theory Memory_Context
  imports Prelude
begin

text \<open>
  The token budget of rendered context packs in the memory service (\<open>memory/src/context/token-budget.ts\<close>): the
  estimate of a text, the greedy admission of items under two token budgets and an item limit, and the removal of
  near duplicates. Ranks are numbers of any linear order; the keys of the items of a pack are different.
\<close>

section \<open>Estimates\<close>

text \<open>\<open>Math.max(1, Math.ceil(bytes / 3))\<close>.\<close>

definition estimateTokens :: "string \<Rightarrow> nat" where
  "estimateTokens text = max 1 ((utf8_length text + 2) div 3)"

lemma estimate_covers: "utf8_length text \<le> 3 * estimateTokens text"
  unfolding estimateTokens_def by (simp add: max_def) linarith

section \<open>The budget\<close>

datatype budget_section = Stable | Dynamic

record 'r BudgetItem =
  bu_key :: string
  bu_section :: budget_section
  bu_estimatedTokens :: nat
  bu_rank :: 'r
  bu_pinned :: bool

text \<open>The comparison of \<open>sort\<close>: pinned first, then the higher rank, then the smaller key.\<close>

definition budget_before :: "'r::linorder BudgetItem \<Rightarrow> 'r BudgetItem \<Rightarrow> bool" where
  "budget_before a b \<longleftrightarrow> (bu_pinned a \<and> \<not> bu_pinned b) \<or> (bu_pinned a = bu_pinned b
     \<and> (bu_rank b < bu_rank a \<or> (bu_rank a = bu_rank b \<and> bu_key a < bu_key b)))"

fun insert_before :: "('a \<Rightarrow> 'a \<Rightarrow> bool) \<Rightarrow> 'a \<Rightarrow> 'a list \<Rightarrow> 'a list" where
  "insert_before lt x [] = [x]"
| "insert_before lt x (y # ys) = (if lt y x then y # insert_before lt x ys else x # y # ys)"

definition sort_before :: "('a \<Rightarrow> 'a \<Rightarrow> bool) \<Rightarrow> 'a list \<Rightarrow> 'a list" where
  "sort_before lt xs = foldr (insert_before lt) xs []"

record BudgetOutcome =
  bo_kept :: "string list"
  bo_pruned :: "string list"

record budget_state =
  bt_kept :: "string list"
  bt_pruned :: "string list"
  bt_stableUsed :: nat
  bt_dynamicUsed :: nat

record budget_limits =
  bl_stableTokens :: nat
  bl_dynamicTokens :: nat
  bl_maxItems :: nat

definition admit_item :: "budget_limits \<Rightarrow> 'r BudgetItem \<Rightarrow> budget_state \<Rightarrow> budget_state" where
  "admit_item l i s =
     (let prune = s\<lparr>bt_pruned := bt_pruned s @ [bu_key i]\<rparr>; keep = s\<lparr>bt_kept := bt_kept s @ [bu_key i]\<rparr> in
      if bl_maxItems l \<le> length (bt_kept s) then prune
      else (case bu_section i of
              Stable \<Rightarrow> if bl_stableTokens l < bt_stableUsed s + bu_estimatedTokens i then prune
                else keep\<lparr>bt_stableUsed := bt_stableUsed s + bu_estimatedTokens i\<rparr>
            | Dynamic \<Rightarrow> if bl_dynamicTokens l < bt_dynamicUsed s + bu_estimatedTokens i then prune
                else keep\<lparr>bt_dynamicUsed := bt_dynamicUsed s + bu_estimatedTokens i\<rparr>))"

definition budget_order :: "'r::linorder BudgetItem list \<Rightarrow> 'r BudgetItem list" where
  "budget_order items = sort_before budget_before (filter (\<lambda>i. bu_section i = Stable) items)
     @ sort_before budget_before (filter (\<lambda>i. bu_section i = Dynamic) items)"

definition applyTokenBudget :: "budget_limits \<Rightarrow> 'r::linorder BudgetItem list \<Rightarrow> BudgetOutcome" where
  "applyTokenBudget l items =
     (let s = fold (admit_item l) (budget_order items) \<lparr>bt_kept = [], bt_pruned = [], bt_stableUsed = 0, bt_dynamicUsed = 0\<rparr>
      in \<lparr>bo_kept = bt_kept s, bo_pruned = bt_pruned s\<rparr>)"

section \<open>Duplicates\<close>

text \<open>\<open>toLowerCase\<close> in the modelled range, and the text with every run of white space as one blank.\<close>

definition js_lower :: "char \<Rightarrow> char" where
  "js_lower c = (let n = (of_char c :: nat) in
     if (65 \<le> n \<and> n \<le> 90) \<or> (192 \<le> n \<and> n \<le> 222 \<and> n \<noteq> 215) then char_of (n + 32) else c)"

fun collapse_space :: "bool \<Rightarrow> string \<Rightarrow> string" where
  "collapse_space in_space [] = []"
| "collapse_space in_space (c # s) =
     (if js_space c then (if in_space then collapse_space True s else CHR '' '' # collapse_space True s) else c # collapse_space False s)"

definition rendered_key :: "string \<Rightarrow> string" where
  "rendered_key t = js_trim (collapse_space False (map js_lower t))"

record 'r dedupe_item =
  dd_normalizedKey :: string
  dd_renderedText :: string
  dd_rank :: 'r

definition dedupe_before :: "'r::linorder dedupe_item \<Rightarrow> 'r dedupe_item \<Rightarrow> bool" where
  "dedupe_before a b \<longleftrightarrow> dd_rank b < dd_rank a \<or> (dd_rank a = dd_rank b \<and> dd_normalizedKey a < dd_normalizedKey b)"

definition same_entry :: "'r dedupe_item \<Rightarrow> 'r dedupe_item \<Rightarrow> bool" where
  "same_entry a b \<longleftrightarrow> dd_normalizedKey a = dd_normalizedKey b \<or> rendered_key (dd_renderedText a) = rendered_key (dd_renderedText b)"

text \<open>The two maps of the code hold the kept items by normalized key and by rendered key.\<close>

definition dedupe_step :: "'r dedupe_item \<Rightarrow> 'r dedupe_item list \<Rightarrow> 'r dedupe_item list" where
  "dedupe_step i kept =
     (if dd_normalizedKey i \<in> dd_normalizedKey ` set kept \<or> rendered_key (dd_renderedText i) \<in> (\<lambda>k. rendered_key (dd_renderedText k)) ` set kept then kept
      else kept @ [i])"

definition dedupeItems :: "'r::linorder dedupe_item list \<Rightarrow> 'r dedupe_item list" where
  "dedupeItems items = fold dedupe_step (sort_before dedupe_before items) []"

section \<open>Sorting\<close>

text \<open>The interface of the two comparisons: a strict order that is total on what the code compares.\<close>

locale comparison =
  fixes lt :: "'a \<Rightarrow> 'a \<Rightarrow> bool"
  assumes lt_trans: "lt x y \<Longrightarrow> lt y z \<Longrightarrow> lt x z"
    and lt_irrefl: "\<not> lt x x"
    and le_trans: "\<not> lt y x \<Longrightarrow> \<not> lt z y \<Longrightarrow> \<not> lt z x"
begin

lemma mset_insert: "mset (insert_before lt x ys) = add_mset x (mset ys)"
  by (induction ys) auto

lemma mset_sort_before [simp]: "mset (sort_before lt xs) = mset xs"
  unfolding sort_before_def by (induction xs) (auto simp: mset_insert)

lemma set_sort_before [simp]: "set (sort_before lt xs) = set xs"
  by (metis mset_sort_before set_mset_mset)

lemma sorted_insert: "sorted_wrt (\<lambda>a b. \<not> lt b a) ys \<Longrightarrow> sorted_wrt (\<lambda>a b. \<not> lt b a) (insert_before lt x ys)"
proof (induction ys)
  case (Cons y ys)
  show ?case
  proof (cases "lt y x")
    case True
    have "set (insert_before lt x ys) = insert x (set ys)" by (metis mset_insert set_mset_add_mset_insert set_mset_mset)
    moreover have "\<not> lt x y" using True lt_trans lt_irrefl by blast
    ultimately show ?thesis using Cons True by simp
  next
    case False
    then show ?thesis using Cons.prems le_trans by (auto dest: lt_trans)
  qed
qed simp

lemma sorted_sort_before: "sorted_wrt (\<lambda>a b. \<not> lt b a) (sort_before lt xs)"
  unfolding sort_before_def by (induction xs) (auto intro: sorted_insert)

end

interpretation budget_cmp: comparison "budget_before :: 'r::linorder BudgetItem \<Rightarrow> _"
  by unfold_locales (auto simp: budget_before_def)

interpretation dedupe_cmp: comparison "dedupe_before :: 'r::linorder dedupe_item \<Rightarrow> _"
  by unfold_locales (auto simp: dedupe_before_def)

section \<open>What the budget keeps\<close>

definition section_tokens :: "budget_section \<Rightarrow> 'r BudgetItem list \<Rightarrow> nat" where
  "section_tokens sec is = sum_list (map bu_estimatedTokens (filter (\<lambda>i. bu_section i = sec) is))"

definition section_limit :: "budget_limits \<Rightarrow> budget_section \<Rightarrow> nat" where
  "section_limit l sec = (case sec of Stable \<Rightarrow> bl_stableTokens l | Dynamic \<Rightarrow> bl_dynamicTokens l)"

text \<open>A selection of items under the limits that no pruned item could join, and in which an item with a lower priority
  replaces only a strictly larger one of its section.\<close>

definition good_selection :: "budget_limits \<Rightarrow> 'r::linorder BudgetItem list \<Rightarrow> 'r BudgetItem list \<Rightarrow> bool" where
  "good_selection l ks ps \<longleftrightarrow> length ks \<le> bl_maxItems l \<and> (\<forall>sec. section_tokens sec ks \<le> section_limit l sec)
     \<and> (\<forall>p \<in> set ps. bl_maxItems l \<le> length ks \<or> section_limit l (bu_section p) < section_tokens (bu_section p) ks + bu_estimatedTokens p)
     \<and> (\<forall>p \<in> set ps. \<forall>q \<in> set ks. bu_section p = bu_section q \<and> budget_before p q \<longrightarrow> bu_estimatedTokens q < bu_estimatedTokens p)"

lemma section_tokens_snoc: "section_tokens sec (ks @ [x]) = section_tokens sec ks + (if bu_section x = sec then bu_estimatedTokens x else 0)"
  by (simp add: section_tokens_def)

lemma good_keep:
  assumes g: "good_selection l ks ps" and "length ks < bl_maxItems l"
    and fits: "section_tokens (bu_section x) ks + bu_estimatedTokens x \<le> section_limit l (bu_section x)"
  shows "good_selection l (ks @ [x]) ps"
  using assms unfolding good_selection_def by (auto simp: section_tokens_snoc)

lemma good_prune:
  assumes g: "good_selection l ks ps"
    and full: "bl_maxItems l \<le> length ks \<or> section_limit l (bu_section x) < section_tokens (bu_section x) ks + bu_estimatedTokens x"
    and after: "\<And>q. q \<in> set ks \<Longrightarrow> bu_section q = bu_section x \<Longrightarrow> \<not> budget_before x q"
  shows "good_selection l ks (ps @ [x])"
  using assms unfolding good_selection_def by auto

text \<open>The state of the loop with the items it kept and pruned.\<close>

definition budget_run :: "'r BudgetItem list \<Rightarrow> 'r BudgetItem list \<Rightarrow> budget_state" where
  "budget_run ks ps = \<lparr>bt_kept = map bu_key ks, bt_pruned = map bu_key ps,
     bt_stableUsed = section_tokens Stable ks, bt_dynamicUsed = section_tokens Dynamic ks\<rparr>"

lemma admit_full:
  "bl_maxItems l \<le> length ks \<or> section_limit l (bu_section x) < section_tokens (bu_section x) ks + bu_estimatedTokens x \<Longrightarrow>
   admit_item l x (budget_run ks ps) = budget_run ks (ps @ [x])"
  by (cases "bu_section x") (auto simp: admit_item_def Let_def section_limit_def budget_run_def)

lemma admit_fits:
  "length ks < bl_maxItems l \<Longrightarrow> section_tokens (bu_section x) ks + bu_estimatedTokens x \<le> section_limit l (bu_section x) \<Longrightarrow>
   admit_item l x (budget_run ks ps) = budget_run (ks @ [x]) ps"
  by (cases "bu_section x") (auto simp: admit_item_def Let_def section_limit_def budget_run_def section_tokens_snoc)

lemma admit_run:
  assumes "sorted_wrt (\<lambda>a b. bu_section a = bu_section b \<longrightarrow> \<not> budget_before b a) (xs :: 'r::linorder BudgetItem list)"
  shows "\<exists>ks ps. fold (admit_item l) xs (budget_run ([] :: 'r BudgetItem list) []) = budget_run ks ps \<and> mset xs = mset ks + mset ps \<and> good_selection l ks ps"
  using assms
proof (induction xs rule: rev_induct)
  case Nil
  have "good_selection l [] ([] :: 'r BudgetItem list)" by (simp add: good_selection_def section_tokens_def)
  then show ?case by (intro exI[of _ "[]"]) simp
next
  case (snoc x xs)
  then obtain ks ps where run: "fold (admit_item l) xs (budget_run ([] :: 'r BudgetItem list) []) = budget_run ks ps"
    and m: "mset xs = mset ks + mset ps" and g: "good_selection l ks ps" by (auto simp: sorted_wrt_append)
  have after: "\<not> budget_before x q" if "q \<in> set ks" "bu_section q = bu_section x" for q
    using snoc.prems that mset_eq_setD[of xs "ks @ ps"] m by (auto simp: sorted_wrt_append)
  show ?case
  proof (cases "bl_maxItems l \<le> length ks \<or> section_limit l (bu_section x) < section_tokens (bu_section x) ks + bu_estimatedTokens x")
    case True
    from good_prune[OF g True after] admit_full[OF True] show ?thesis
      by (intro exI[of _ ks] exI[of _ "ps @ [x]"]) (simp add: run m)
  next
    case False
    then have "good_selection l (ks @ [x]) ps" by (intro good_keep[OF g]) auto
    with False admit_fits[of ks l x ps] show ?thesis
      by (intro exI[of _ "ks @ [x]"] exI[of _ ps]) (simp add: run m)
  qed
qed

lemma budget_order_sorted: "sorted_wrt (\<lambda>a b. bu_section a = bu_section b \<longrightarrow> \<not> budget_before b a) (budget_order items)"
proof -
  have "sorted_wrt (\<lambda>a b. bu_section a = bu_section b \<longrightarrow> \<not> budget_before b a) (sort_before budget_before xs)" for xs :: "'a BudgetItem list"
    by (rule sorted_wrt_mono_rel[OF _ budget_cmp.sorted_sort_before]) simp
  then show ?thesis by (auto simp: budget_order_def sorted_wrt_append)
qed

lemma mset_budget_order: "mset (budget_order items) = mset items"
proof -
  have "filter (\<lambda>i. bu_section i = Dynamic) items = filter (\<lambda>i. \<not> bu_section i = Stable) items"
    by (intro filter_cong) (auto intro: budget_section.exhaust)
  then show ?thesis using multiset_partition[of "mset items" "\<lambda>i. bu_section i = Stable"] by (simp add: budget_order_def)
qed

text \<open>
  C39. The budget splits the items into kept and pruned ones. The kept items stay within the item limit and within the
  tokens of each section, no pruned item would still fit, and an item is kept in place of one with a higher priority
  in its section only if it needs strictly fewer tokens.
\<close>

theorem token_budget_is_maximal:
  fixes items :: "'r::linorder BudgetItem list"
  shows "\<exists>ks ps. applyTokenBudget l items = \<lparr>bo_kept = map bu_key ks, bo_pruned = map bu_key ps\<rparr> \<and> mset items = mset ks + mset ps \<and> good_selection l ks ps"
proof -
  obtain ks ps where "fold (admit_item l) (budget_order items) (budget_run ([] :: 'r BudgetItem list) []) = budget_run ks ps" "mset items = mset ks + mset ps" "good_selection l ks ps"
    using admit_run[OF budget_order_sorted[of items], of l] by (auto simp: mset_budget_order)
  then show ?thesis by (intro exI[of _ ks] exI[of _ ps]) (simp add: applyTokenBudget_def budget_run_def section_tokens_def)
qed

text \<open>
  A pinned item with more tokens than its budget is pruned, and an item without a pin is kept after it.
\<close>

lemma pinned_item_can_be_pruned:
  "applyTokenBudget \<lparr>bl_stableTokens = 5, bl_dynamicTokens = 0, bl_maxItems = 9\<rparr>
     [\<lparr>bu_key = ''a'', bu_section = Stable, bu_estimatedTokens = 6, bu_rank = 2 :: int, bu_pinned = True\<rparr>,
      \<lparr>bu_key = ''b'', bu_section = Stable, bu_estimatedTokens = 5, bu_rank = 1, bu_pinned = False\<rparr>]
   = \<lparr>bo_kept = [''b''], bo_pruned = [''a'']\<rparr>"
  by (simp add: applyTokenBudget_def budget_order_def sort_before_def budget_before_def admit_item_def)

section \<open>What the deduplication keeps\<close>

lemma dedupe_run:
  assumes "sorted_wrt (\<lambda>a b. \<not> dedupe_before b a) (xs :: 'r::linorder dedupe_item list)"
  shows "(let kept = fold dedupe_step xs [] in set kept \<subseteq> set xs \<and> sorted_wrt (\<lambda>a b. \<not> same_entry a b) kept
    \<and> (\<forall>i \<in> set xs. \<exists>k \<in> set kept. (k = i \<or> same_entry k i) \<and> dd_rank i \<le> dd_rank k))"
  using assms
proof (induction xs rule: rev_induct)
  case (snoc x xs)
  let ?kept = "fold dedupe_step xs []"
  have IH: "set ?kept \<subseteq> set xs" "sorted_wrt (\<lambda>a b. \<not> same_entry a b) ?kept"
      "\<forall>i \<in> set xs. \<exists>k \<in> set ?kept. (k = i \<or> same_entry k i) \<and> dd_rank i \<le> dd_rank k"
    using snoc by (auto simp: sorted_wrt_append Let_def)
  show ?case
  proof (cases "\<exists>k \<in> set ?kept. same_entry k x")
    case True
    then obtain k where k: "k \<in> set ?kept" "same_entry k x" by blast
    then have "\<not> dedupe_before x k" using IH(1) snoc.prems by (auto simp: sorted_wrt_append)
    then have "dd_rank x \<le> dd_rank k" by (simp add: dedupe_before_def not_less)
    moreover have "dd_normalizedKey x \<in> dd_normalizedKey ` set ?kept \<or> rendered_key (dd_renderedText x) \<in> (\<lambda>k. rendered_key (dd_renderedText k)) ` set ?kept"
      using k unfolding same_entry_def by (metis (no_types, lifting) image_eqI)
    then have "dedupe_step x ?kept = ?kept" by (simp add: dedupe_step_def)
    ultimately show ?thesis using IH k by (auto simp: Let_def)
  next
    case False
    then have "dedupe_step x ?kept = ?kept @ [x]" by (auto simp: dedupe_step_def same_entry_def)
    then show ?thesis using IH False by (auto simp: Let_def sorted_wrt_append)
  qed
qed simp

text \<open>
  Removing near duplicates keeps a list of items of the input, no two of which have the same identity or the same
  rendered text, and every item of the input is kept or is represented by a kept item with the same identity or text
  and at least its rank.
\<close>

lemma dedupe_keeps_representatives:
  "set (dedupeItems items) \<subseteq> set items \<and> sorted_wrt (\<lambda>a b. \<not> same_entry a b) (dedupeItems items)
   \<and> (\<forall>i \<in> set items. \<exists>k \<in> set (dedupeItems items). (k = i \<or> same_entry k i) \<and> dd_rank i \<le> dd_rank k)"
  using dedupe_run[OF dedupe_cmp.sorted_sort_before, of items] by (simp add: dedupeItems_def Let_def)

end
