(* ===== verification/Memory_Versions.thy ===== *)
theory Memory_Versions
  imports Prelude
begin

text \<open>
  The validity intervals of claim revisions in the memory service (\<open>memory/src/claims/version-selection.ts\<close>): the
  half-open interval a revision is effective in, and the activation of a new revision, which ends the interval of its
  predecessor where its own begins. Times are in microseconds. In every run of publications the intervals of a claim
  partition the time since its first revision.
\<close>

section \<open>Revisions\<close>

record knowledge_version =
  kv_installation_id :: string
  kv_claim_id :: string
  kv_version_id :: string
  kv_created_at :: int
  kv_effective_from :: "int option"
  kv_effective_until :: "int option"

text \<open>\<open>COALESCE(effective_from, created_at)\<close>.\<close>

definition revision_start :: "knowledge_version \<Rightarrow> int" where
  "revision_start v = (case kv_effective_from v of Some f \<Rightarrow> f | None \<Rightarrow> kv_created_at v)"

definition revisionTime :: "int \<Rightarrow> knowledge_version \<Rightarrow> bool" where
  "revisionTime at v \<longleftrightarrow> revision_start v \<le> at \<and> (case kv_effective_until v of None \<Rightarrow> True | Some u \<Rightarrow> at < u)"

definition names_version :: "string \<Rightarrow> string \<Rightarrow> string \<Rightarrow> knowledge_version \<Rightarrow> bool" where
  "names_version i c v r \<longleftrightarrow> kv_installation_id r = i \<and> kv_claim_id r = c \<and> kv_version_id r = v"

definition interval_eligible :: "int \<Rightarrow> knowledge_version \<Rightarrow> bool" where
  "interval_eligible now v \<longleftrightarrow> kv_effective_until v = None \<and> revision_start v \<le> now"

definition interval_boundary :: "int \<Rightarrow> knowledge_version \<Rightarrow> int" where
  "interval_boundary now v = max now (revision_start v + 1)"

definition end_interval :: "int \<Rightarrow> knowledge_version \<Rightarrow> knowledge_version" where
  "end_interval boundary r = r\<lparr>kv_effective_from := Some (revision_start r), kv_effective_until := Some boundary\<rparr>"

definition begin_interval :: "int \<Rightarrow> knowledge_version \<Rightarrow> knowledge_version" where
  "begin_interval boundary r = r\<lparr>kv_effective_from := Some boundary, kv_effective_until := None\<rparr>"

text \<open>An \<open>UPDATE\<close>: the number of rows that match, and the table after it.\<close>

definition update_rows :: "('a \<Rightarrow> bool) \<Rightarrow> ('a \<Rightarrow> 'a) \<Rightarrow> 'a list \<Rightarrow> nat \<times> 'a list" where
  "update_rows p f rows = (length (filter p rows), map (\<lambda>r. if p r then f r else r) rows)"

text \<open>\<^const>\<open>None\<close> is the exception \<open>ClaimVersionIntervalError\<close>, which ends the caller's transaction.\<close>

definition activateRevisionInterval :: "int \<Rightarrow> string \<Rightarrow> string \<Rightarrow> string \<Rightarrow> string \<Rightarrow> knowledge_version list \<Rightarrow> knowledge_version list option" where
  "activateRevisionInterval now i c previous v rows =
     (case find (names_version i c previous) rows of
        None \<Rightarrow> None
      | Some p \<Rightarrow>
          if \<not> interval_eligible now p then None
          else
            (let boundary = interval_boundary now p;
                 (old, rows1) = update_rows (\<lambda>r. names_version i c previous r \<and> kv_effective_until r = None) (end_interval boundary) rows;
                 (new, rows2) = update_rows (\<lambda>r. names_version i c v r \<and> v \<noteq> previous \<and> kv_effective_from r = None \<and> kv_effective_until r = None)
                   (begin_interval boundary) rows1
             in if old = 1 \<and> new = 1 then Some rows2 else None))"

section \<open>Runs of publications\<close>

definition new_version :: "string \<Rightarrow> string \<Rightarrow> string \<Rightarrow> int \<Rightarrow> knowledge_version" where
  "new_version i c v created = \<lparr>kv_installation_id = i, kv_claim_id = c, kv_version_id = v, kv_created_at = created, kv_effective_from = None, kv_effective_until = None\<rparr>"

definition of_claim :: "string \<Rightarrow> string \<Rightarrow> knowledge_version list \<Rightarrow> knowledge_version list" where
  "of_claim i c rows = filter (\<lambda>r. kv_installation_id r = i \<and> kv_claim_id r = c) rows"

text \<open>
  A claim gets its first revision, or a further one with a fresh identifier that is activated after the last one in the
  same transaction; a transaction that throws changes nothing. Clocks may go backwards.
\<close>

inductive publication :: "knowledge_version list \<Rightarrow> knowledge_version list \<Rightarrow> bool" where
  first: "of_claim i c rows = [] \<Longrightarrow> v \<notin> kv_version_id ` set rows \<Longrightarrow> publication rows (rows @ [new_version i c v created])"
| further: "of_claim i c rows \<noteq> [] \<Longrightarrow> previous = kv_version_id (last (of_claim i c rows)) \<Longrightarrow> v \<notin> kv_version_id ` set rows \<Longrightarrow>
    activateRevisionInterval now i c previous v (rows @ [new_version i c v created]) = Some rows' \<Longrightarrow> publication rows rows'"

text \<open>Every interval ends where the next one begins, and the last one is open.\<close>

fun interval_chain :: "knowledge_version list \<Rightarrow> bool" where
  "interval_chain [] = True"
| "interval_chain [r] \<longleftrightarrow> kv_effective_until r = None"
| "interval_chain (r # r' # rs) \<longleftrightarrow> kv_effective_until r = Some (revision_start r') \<and> revision_start r < revision_start r' \<and> interval_chain (r' # rs)"

definition versions_ok :: "knowledge_version list \<Rightarrow> bool" where
  "versions_ok rows \<longleftrightarrow> distinct (map kv_version_id rows) \<and> (\<forall>i c. interval_chain (of_claim i c rows))"

lemma interval_chain_append:
  "interval_chain (rs @ [p]) \<Longrightarrow> kv_effective_until n = None \<Longrightarrow> revision_start p' = revision_start p \<Longrightarrow> kv_effective_until p' = Some (revision_start n) \<Longrightarrow>
   revision_start p < revision_start n \<Longrightarrow> interval_chain (rs @ [p', n])"
proof (induction rs)
  case (Cons r rs)
  then show ?case by (cases rs) auto
qed simp

lemma interval_chain_starts: "interval_chain (r # rs) \<Longrightarrow> x \<in> set rs \<Longrightarrow> revision_start r < revision_start x"
proof (induction rs arbitrary: r)
  case (Cons r' rs)
  have l: "revision_start r < revision_start r'" "interval_chain (r' # rs)" using Cons.prems(1) by simp_all
  show ?case
  proof (cases "x = r'")
    case False
    then have "revision_start r' < revision_start x" using Cons.IH[OF l(2)] Cons.prems(2) by simp
    then show ?thesis using l(1) by simp
  qed (use l(1) in simp)
qed simp

lemma interval_chain_unique:
  assumes "interval_chain (r # rs)" "revision_start r \<le> t"
  shows "\<exists>!j. j < length (r # rs) \<and> revisionTime t ((r # rs) ! j)"
  using assms
proof (induction rs arbitrary: r)
  case Nil
  then show ?case by (auto simp: revisionTime_def)
next
  case (Cons r' rs)
  have l: "kv_effective_until r = Some (revision_start r')" "interval_chain (r' # rs)" using Cons.prems(1) by simp_all
  show ?case
  proof (cases "t < revision_start r'")
    case True
    have "\<not> revisionTime t ((r' # rs) ! j)" if "j < length (r' # rs)" for j
    proof -
      have "revision_start r' \<le> revision_start ((r' # rs) ! j)"
        using interval_chain_starts[OF l(2), of "(r' # rs) ! j"] that by (cases j) (auto intro: less_imp_le)
      then show ?thesis using True by (auto simp: revisionTime_def)
    qed
    then have "j = 0" if "j < length (r # r' # rs)" "revisionTime t ((r # r' # rs) ! j)" for j using that by (cases j) auto
    moreover have "revisionTime t r" using l(1) Cons.prems(2) True by (simp add: revisionTime_def)
    ultimately show ?thesis by (intro ex1I[of _ 0]) auto
  next
    case False
    then have "\<exists>!j. j < length (r' # rs) \<and> revisionTime t ((r' # rs) ! j)" using Cons.IH[OF l(2)] by (simp only: not_less)
    then obtain j where j: "j < length (r' # rs)" "revisionTime t ((r' # rs) ! j)"
      and uniq: "\<And>k. k < length (r' # rs) \<Longrightarrow> revisionTime t ((r' # rs) ! k) \<Longrightarrow> k = j" by blast
    have "\<not> revisionTime t r" using l(1) False by (simp add: revisionTime_def)
    then have "k = Suc j" if "k < length (r # r' # rs)" "revisionTime t ((r # r' # rs) ! k)" for k using that uniq by (cases k) auto
    then show ?thesis using j by (intro ex1I[of _ "Suc j"]) auto
  qed
qed

section \<open>Activation\<close>

lemma find_keyed:
  assumes "distinct (map f rows)" "p \<in> set rows" "P p" "\<And>r. r \<in> set rows \<Longrightarrow> P r \<Longrightarrow> f r = f p"
  shows "find P rows = Some p"
proof -
  obtain q where q: "find P rows = Some q" using assms(2,3) by (cases "find P rows") (auto simp: find_None_iff)
  then have "q \<in> set rows" "P q" by (auto simp: find_Some_iff)
  then have "q = p" using assms(1,2,4) by (metis distinct_map inj_onD)
  then show ?thesis using q by simp
qed

lemma update_appended: "(\<And>r. r \<in> set xs \<Longrightarrow> \<not> P (g r)) \<Longrightarrow> g n = n \<Longrightarrow> P n \<Longrightarrow> map (\<lambda>r. if P r then f r else r) (map g (xs @ [n])) = map g xs @ [f n]"
  by simp

lemma activation_rows:
  assumes "v \<notin> kv_version_id ` set rows" "activateRevisionInterval now i c previous v (rows @ [new_version i c v created]) = Some rows'"
    "previous \<in> kv_version_id ` set rows"
  shows "\<exists>p b. find (names_version i c previous) rows = Some p \<and> kv_effective_until p = None \<and> b = interval_boundary now p
    \<and> rows' = map (\<lambda>r. if names_version i c previous r \<and> kv_effective_until r = None then end_interval b r else r) rows @ [begin_interval b (new_version i c v created)]"
proof -
  let ?n = "new_version i c v created"
  have nv: "v \<noteq> previous" using assms(1,3) by auto
  have fn: "find (names_version i c previous) (rows @ [?n]) = find (names_version i c previous) rows"
    using nv by (induction rows) (simp_all add: names_version_def new_version_def)
  obtain p where p: "find (names_version i c previous) rows = Some p" using assms(2) fn
    by (cases "find (names_version i c previous) rows") (auto simp: activateRevisionInterval_def)
  have e: "interval_eligible now p" using assms(2) p fn by (simp add: activateRevisionInterval_def split: if_splits)
  let ?b = "interval_boundary now p"
  let ?g = "\<lambda>r. if names_version i c previous r \<and> kv_effective_until r = None then end_interval ?b r else r"
  let ?begins = "\<lambda>r. names_version i c v r \<and> v \<noteq> previous \<and> kv_effective_from r = None \<and> kv_effective_until r = None"
  have "kv_version_id (?g r) = kv_version_id r" for r by (simp add: end_interval_def)
  then have old: "\<not> ?begins (?g r)" if "r \<in> set rows" for r using that assms(1) by (auto simp: names_version_def)
  have new: "?g ?n = ?n" "?begins ?n" using nv by (simp_all add: names_version_def new_version_def)
  have "map (\<lambda>r. if ?begins r then begin_interval ?b r else r) (map ?g (rows @ [?n])) = map ?g rows @ [begin_interval ?b ?n]"
    by (rule update_appended) (use old new in blast)+
  moreover have "rows' = map (\<lambda>r. if ?begins r then begin_interval ?b r else r) (map ?g (rows @ [?n]))"
    using assms(2) e unfolding activateRevisionInterval_def fn p update_rows_def Let_def option.case prod.case
    by (simp only: not_True_eq_False if_False option.inject option.distinct(1) split: if_splits)
  ultimately have "rows' = map ?g rows @ [begin_interval ?b ?n]" by simp
  then show ?thesis using p e by (auto simp: interval_eligible_def)
qed

text \<open>The activation ends the last interval of the claim and appends the next one; other claims keep theirs.\<close>

lemma activation_links:
  assumes ok: "versions_ok rows" and last: "of_claim i c rows = ps @ [p]" and fresh: "v \<notin> kv_version_id ` set rows"
    and act: "activateRevisionInterval now i c (kv_version_id p) v (rows @ [new_version i c v created]) = Some rows'"
  shows "\<exists>n b. n = begin_interval b (new_version i c v created) \<and> revision_start p < b \<and> map kv_version_id rows' = map kv_version_id rows @ [v]
    \<and> of_claim i c rows' = ps @ [end_interval b p, n] \<and> (\<forall>i' c'. (i', c') \<noteq> (i, c) \<longrightarrow> of_claim i' c' rows' = of_claim i' c' rows)"
proof -
  let ?n = "new_version i c v created"
  have d: "distinct (map kv_version_id rows)" and "interval_chain (ps @ [p])" using ok last by (auto simp: versions_ok_def simp flip: last)
  have p: "p \<in> set rows" "kv_installation_id p = i" "kv_claim_id p = c"
    using arg_cong[OF last, of set] by (auto simp: of_claim_def)
  then have f: "find (names_version i c (kv_version_id p)) rows = Some p"
    by (intro find_keyed[OF d]) (auto simp: names_version_def)
  obtain b where b: "kv_effective_until p = None" "b = interval_boundary now p"
    and rows': "rows' = map (\<lambda>r. if names_version i c (kv_version_id p) r \<and> kv_effective_until r = None then end_interval b r else r) rows @ [begin_interval b ?n]"
    using activation_rows[OF fresh act] p f by auto
  let ?g = "\<lambda>r. if names_version i c (kv_version_id p) r \<and> kv_effective_until r = None then end_interval b r else r"
  have g: "?g r = (if r = p then end_interval b p else r)" if "r \<in> set rows" for r
  proof (cases "r = p")
    case False
    then have "kv_version_id r \<noteq> kv_version_id p" using d p that by (metis distinct_map inj_onD)
    then show ?thesis using False by (simp add: names_version_def)
  qed (use p b in \<open>simp add: names_version_def\<close>)
  have keep: "kv_installation_id (end_interval b r) = kv_installation_id r" "kv_claim_id (end_interval b r) = kv_claim_id r" "kv_version_id (end_interval b r) = kv_version_id r" for r
    by (simp_all add: end_interval_def)
  have claims: "of_claim i' c' (map ?g rows) = map ?g (of_claim i' c' rows)" for i' c'
    unfolding of_claim_def filter_map by (rule arg_cong[where f = "map ?g"], rule filter_cong) (simp_all add: keep)
  have "distinct (of_claim i c rows)" using d by (simp add: of_claim_def distinct_map)
  then have "p \<notin> set ps" using last by simp
  moreover have "set ps \<subseteq> set rows" using arg_cong[OF last, of set] by (auto simp: of_claim_def)
  ultimately have "?g r = r" if "r \<in> set ps" for r using g[of r] that by (metis subsetD)
  then have "map ?g ps = ps" by (rule map_idI)
  then have own: "map ?g (of_claim i c rows) = ps @ [end_interval b p]" using g[OF p(1)] by (simp add: last)
  have other: "map ?g (of_claim i' c' rows) = of_claim i' c' rows" if "(i', c') \<noteq> (i, c)" for i' c'
    using that p by (intro map_idI) (auto simp: of_claim_def names_version_def)
  have new: "kv_installation_id (begin_interval b ?n) = i" "kv_claim_id (begin_interval b ?n) = c" "kv_version_id (begin_interval b ?n) = v"
    by (simp_all add: begin_interval_def new_version_def)
  have append: "of_claim i' c' (xs @ [x]) = of_claim i' c' xs @ (if kv_installation_id x = i' \<and> kv_claim_id x = c' then [x] else [])" for i' c' xs x
    by (simp add: of_claim_def)
  show ?thesis
  proof (intro exI conjI allI impI)
    show "revision_start p < b" using b by (simp add: interval_boundary_def)
    show "map kv_version_id rows' = map kv_version_id rows @ [v]" unfolding rows' using new by (simp add: keep)
    show "of_claim i c rows' = ps @ [end_interval b p, begin_interval b ?n]" unfolding rows' append claims own using new by simp
    show "of_claim i' c' rows' = of_claim i' c' rows" if "(i', c') \<noteq> (i, c)" for i' c'
      unfolding rows' append claims other[OF that] using that new by auto
  qed simp
qed

lemma publication_keeps_intervals: "versions_ok rows \<Longrightarrow> publication rows rows' \<Longrightarrow> versions_ok rows'"
proof (erule publication.cases, goal_cases)
  case (1 i c xs v created)
  then show ?case by (auto simp: versions_ok_def of_claim_def new_version_def)
next
  case (2 i c xs previous v now created ys)
  then have ok: "versions_ok xs" by simp
  obtain ps p where last: "of_claim i c xs = ps @ [p]" using 2 by (metis append_butlast_last_id)
  obtain n b where n: "n = begin_interval b (new_version i c v created)" "revision_start p < b" "map kv_version_id ys = map kv_version_id xs @ [v]"
      "of_claim i c ys = ps @ [end_interval b p, n]" and other: "\<And>i' c'. (i', c') \<noteq> (i, c) \<Longrightarrow> of_claim i' c' ys = of_claim i' c' xs"
    using activation_links[OF ok last, of v now created ys] 2 last by fastforce
  have start: "revision_start n = b" "kv_effective_until n = None" "revision_start (end_interval b p) = revision_start p" "kv_effective_until (end_interval b p) = Some b"
    unfolding n(1) by (simp_all add: revision_start_def begin_interval_def end_interval_def)
  have "interval_chain (ps @ [p])" using ok by (simp add: versions_ok_def flip: last)
  then have "interval_chain (of_claim i c ys)" unfolding n(4) by (rule interval_chain_append) (use n start in simp_all)
  then have "interval_chain (of_claim i' c' ys)" for i' c'
    using other[of i' c'] ok by (cases "(i', c') = (i, c)") (auto simp: versions_ok_def)
  then show ?case using ok 2 n(3) by (simp add: versions_ok_def)
qed

interpretation revision_runs: transition_system "\<lambda>rows. rows = []" publication versions_ok
  by unfold_locales (simp add: versions_ok_def of_claim_def, rule publication_keeps_intervals)

text \<open>
  C40. The revisions of a claim partition time: in every run of publications, at every moment since the first revision
  of a claim began exactly one of its revisions is effective. The half-open intervals never overlap and leave no gap,
  even where clocks go backwards.
\<close>

theorem revision_intervals_partition_time:
  assumes "publication\<^sup>*\<^sup>* [] rows" "of_claim i c rows = r # rs" "revision_start r \<le> t"
  shows "\<exists>!j. j < length (of_claim i c rows) \<and> revisionTime t (of_claim i c rows ! j)"
proof -
  have "interval_chain (r # rs)" using revision_runs.inv_reachable[OF refl assms(1)] assms(2) by (metis versions_ok_def)
  then show ?thesis unfolding assms(2) using assms(3) by (rule interval_chain_unique)
qed

definition published_twice :: "knowledge_version list" where
  "published_twice = [end_interval 20 (new_version ''i'' ''c'' ''v1'' 10), begin_interval 20 (new_version ''i'' ''c'' ''v2'' 15)]"

lemma publish_two: "publication\<^sup>*\<^sup>* [] published_twice"
proof -
  have "publication [] ([] @ [new_version ''i'' ''c'' ''v1'' 10])" by (rule first) (simp_all add: of_claim_def)
  moreover have "publication [new_version ''i'' ''c'' ''v1'' 10] published_twice"
    by (rule further[of "''i''" "''c''" _ "''v1''" "''v2''" 20 15])
      (simp_all add: of_claim_def new_version_def published_twice_def activateRevisionInterval_def names_version_def interval_eligible_def
        revision_start_def interval_boundary_def update_rows_def end_interval_def begin_interval_def)
  ultimately show ?thesis by (simp add: converse_rtranclp_into_rtranclp)
qed

theorem revision_intervals_partition_time_witness:
  "(\<exists>!j. j < length (of_claim ''i'' ''c'' published_twice) \<and> revisionTime 20 (of_claim ''i'' ''c'' published_twice ! j))
   \<and> kv_version_id (of_claim ''i'' ''c'' published_twice ! 1) = ''v2''"
proof
  show "\<exists>!j. j < length (of_claim ''i'' ''c'' published_twice) \<and> revisionTime 20 (of_claim ''i'' ''c'' published_twice ! j)"
    by (rule revision_intervals_partition_time[OF publish_two, where r = "published_twice ! 0" and rs = "[published_twice ! 1]"])
      (simp_all add: published_twice_def of_claim_def new_version_def end_interval_def begin_interval_def revision_start_def)
  show "kv_version_id (of_claim ''i'' ''c'' published_twice ! 1) = ''v2''"
    by (simp add: published_twice_def of_claim_def new_version_def end_interval_def begin_interval_def)
qed

end
