(* ===== verification/Spec2Isabelle.thy ===== *)
theory Spec2Isabelle
  imports Prelude Rate_Limit Connection_Guards Ingress_Pipeline Message_Queue_Correct Replay_Page Inbox_Worker_Correct Inbox_Retention Login_Stores
    Session_Admissions_Correct Lifecycle_Jobs_Correct Lifecycle_Schedule Lifecycle_Eligibility_Correct
    Team_Execution Team_Wakeups_Correct Web_Batcher Web_Parts Web_Diff Memory_Review Memory_Context Memory_Versions
begin

text \<open>
  \<^bold>\<open>The program.\<close> pocketctl lets a user drive coding agents that run on his own machines from a
  phone or a browser. A daemon on each machine (Go, \<open>cmd\<close> and \<open>internal\<close>) streams agent events to a
  relay (TypeScript, \<open>relay/src\<close>); the relay stores them in PostgreSQL, materialises sessions from
  them and pushes the changes to the user's clients; commands travel the other way. This library
  models the relay's durable path and the guards around it, the retention of idle sessions, the plans of
  team tasks, and pure parts of the web client and of the memory service:

  \<^item> a connection is admitted (rate limits, concurrent authentication, leases);
  \<^item> each event frame is classified, given an envelope and queued fairly between daemons;
  \<^item> a flush takes a batch and persists it in one transaction, and only then the daemon is told
    which sequence numbers it may forget;
  \<^item> workers claim inbox rows in stream order, materialise them and complete them together with the
    deliveries for the clients, which an outbox consumer sends;
  \<^item> retention removes what is settled;
  \<^item> messages of the user wait in a queue per session until the agent is free, and sessions are
    started only within the quota of the account;
  \<^item> idle sessions are archived and purged by a lifecycle whose work is leased job by job and gives way to
    new activity;
  \<^item> a team task has a plan of steps with dependencies, and each change of it wakes the step scheduler;
  \<^item> the client batches live events, merges parts of an answer and shows windows of diffs;
  \<^item> the memory service publishes reviewed claims, keeps their revisions apart in time and fits context
    packs into a token budget.

  \<^bold>\<open>Theories.\<close>

  \<^descr> \<open>Prelude\<close> holds the shared vocabulary: JavaScript maps with insertion order as association lists
    (\<open>jsmap\<close>), JSON values, safe integers, string helpers, expiring tables (the locale \<open>expiring\<close> with
    its \<open>sweep\<close> and \<open>live_get\<close>), and the locale \<open>transition_system\<close> for invariants of runs, which every
    state machine below interprets.
  \<^descr> \<open>Rate_Limit\<close> models \<open>relay/src/rate-limit.ts\<close>: the burst and long windows and the ban ladder.
    Shown: the bound on allowed connections, bans after repeated failures, and that garbage
    collection changes no decision.
  \<^descr> \<open>Connection_Guards\<close> models \<open>connection-admission.ts\<close>, \<open>ingress/bounded-executor.ts\<close>,
    \<open>ingress/auth-lease.ts\<close> and \<open>push-deduper.ts\<close>. Shown: counters equal the admissions held, the executor
    is bounded and first-in first-out, a usable lease is recent, pushes of one key are spaced.
  \<^descr> \<open>Event_Policy\<close> models \<open>ingress/event-policy.ts\<close> and the envelope of \<open>ingress/types.ts\<close>.
  \<^descr> \<open>Fair_Queue\<close> models the class of \<open>ingress/fair-queue.ts\<close> with deficit round robin;
    \<open>Fair_Queue_Structure\<close> its well-formedness, \<open>Fair_Queue_Drain\<close> the drain loop, \<open>Fair_Queue_Correct\<close>
    capacity, requeue and commit, \<open>Fair_Queue_Service\<close> that a non-empty queue yields a batch.
  \<^descr> \<open>Inbox_Repository\<close> models \<open>ingress/inbox-repository.ts\<close> over the tables of
    \<open>schema/durable-ingress.ts\<close>; \<open>Inbox_Persist\<close> proves the persist transaction (the locale for its
    watermark law is interpreted there), \<open>Inbox_Durability\<close> that watermarks cover only stored events,
    \<open>Inbox_Claims\<close> claim order, claim fences and finality of outcomes.
  \<^descr> \<open>Ingress_Controller\<close> models \<open>ingress/controller.ts\<close>, cut at its awaits; \<open>Ingress_Pipeline\<close> composes
    controller, queue and repository into one step relation and proves that accepted events are
    never lost and that queued events always have a wake-up.
  \<^descr> \<open>Inbox_Worker\<close> models \<open>inbox-worker.ts\<close>; \<open>Inbox_Worker_Correct\<close> proves what one row, one pass and a
    lost claim do, through the locale \<open>claim_outcome\<close> with one interpretation per outcome.
  \<^descr> \<open>Realtime_Outbox\<close> models \<open>materialization/realtime-outbox.ts\<close>; \<open>Outbox_Delivery\<close> proves atomic
    completion and that a run marks exactly what it delivered.
  \<^descr> \<open>Inbox_Retention\<close> models \<open>inbox-retention.ts\<close> over the same tables and proves what it may delete.
  \<^descr> \<open>Replay_Page\<close> models \<open>replay-page.ts\<close> and characterises the boundary it finds.
  \<^descr> \<open>Message_Queue\<close> models \<open>session-message-queue/state.ts\<close> and \<open>service.ts\<close>; \<open>Message_Queue_Correct\<close> proves
    the invariant of its runs, idempotent enqueue, reorder, completion and the paged catch-up.
  \<^descr> \<open>Login_Stores\<close> models \<open>config/qr-sessions.ts\<close>, \<open>config/ws-tickets.ts\<close> and \<open>auth-rate-limit.ts\<close> with its
    statement in \<open>db.ts\<close>. Shown: a login needs a confirmation, a ticket works once and in time, and the
    shared limit bounds attempts.
  \<^descr> \<open>Quota\<close> models \<open>quota.ts\<close>; \<open>Quota_Correct\<close> proves the budget of concurrent sessions and that a grant
    leaves it only by settlement, and exhibits the case in which the budget is exceeded.
  \<^descr> \<open>Session_Admissions\<close> models \<open>session-message-admissions.ts\<close> and \<open>session-observer-policy.ts\<close>;
    \<open>Session_Admissions_Correct\<close> proves that a request is recorded once, that its verdict never flips and
    that a retried message finds its admission after a rename.
  \<^descr> \<open>Lifecycle_Time\<close>, \<open>Lifecycle_Policy\<close>, \<open>Lifecycle_Schedule\<close> model \<open>time.ts\<close>, \<open>policy.ts\<close>, \<open>config.ts\<close>,
    \<open>release.ts\<close>, \<open>schedule.ts\<close> and \<open>scan-progress.ts\<close> of \<open>session-lifecycle\<close>: timestamps that round-trip, the
    retention decision, configuration and the fair schedule.
  \<^descr> \<open>Lifecycle_Jobs\<close> and \<open>Lifecycle_Resume\<close> model the work ledger: \<open>schema.ts\<close>, \<open>repository.ts\<close>, the updates of
    \<open>executor.ts\<close> and \<open>worker.ts\<close>, and the trigger of \<open>resume-schema.ts\<close>. \<open>Lifecycle_Jobs_Correct\<close> proves the types
    of the tables, that leases refine an abstract history of attempts, that a lease is used once, and that
    new activity overtakes open jobs. The identifiers the database issues are fresh (\<open>jl_issued\<close>), and the clock
    of a statement and that of its transaction may differ.
  \<^descr> \<open>Lifecycle_Eligibility\<close> models \<open>eligibility.ts\<close>; \<open>Lifecycle_Eligibility_Correct\<close> proves that the dependency
    search ends with the connected component, that cycles of ancestors are found exactly, and that an
    action needs a safe component.
  \<^descr> \<open>Team_Plan\<close> models \<open>plan-contract.ts\<close>, \<open>delivery-contract.ts\<close> and \<open>budget-service.ts\<close> of \<open>relay/src/team\<close>;
    \<open>Team_Plan_Correct\<close> proves that the order of a plan is topological, depends on the graph only, and is
    refused exactly for cycles.
  \<^descr> \<open>Team_Wakeups\<close> models \<open>step-wakeup-repository.ts\<close>, the trigger function of \<open>plan-schema.ts\<close> and a pass of
    \<open>step-worker.ts\<close>; \<open>Team_Wakeups_Correct\<close> proves over every run that no signal is lost and that a lease
    settles at most once and never after a newer one.
  \<^descr> \<open>Team_Plan_Service\<close> models \<open>plan-service.ts\<close> and \<open>access.ts\<close> over those tables: a draft is idempotent under
    its request identifier and reads back in its order.
  \<^descr> \<open>Team_Scheduler\<close> models \<open>step-scheduler.ts\<close> with the limits of \<open>budget-repository.ts\<close>, and \<open>Team_Control\<close> the
    control of \<open>plan-execution-service.ts\<close>. \<open>Team_Execution\<close> composes them with wakeups and drafts: a pass starts
    only a step whose dependencies are accepted, the attempts of a task stay within its limit and are
    numbered without gap with at most the last one unsettled, and a cancelled plan starts nothing.
  \<^descr> \<open>Web_Batcher\<close>, \<open>Web_Parts\<close> and \<open>Web_Diff\<close> model \<open>liveSessionEventBatcher.ts\<close>, \<open>opencodePartMerge.ts\<close> and
    \<open>unifiedDiff.ts\<close> of \<open>web/src/utils\<close>: events keep the order of the wire and always have a flush, snapshots
    converge in whatever order they arrive, a window is a slice of the full parse.
  \<^descr> \<open>Memory_Review\<close>, \<open>Memory_Context\<close> and \<open>Memory_Versions\<close> model \<open>governance/authority.ts\<close>,
    \<open>context/token-budget.ts\<close> and the intervals of \<open>claims/version-selection.ts\<close> in \<open>memory/src\<close>: the quorum is
    exact, the budget is respected and used, the revisions of a claim partition time.

  \<^bold>\<open>How code becomes definitions.\<close> A class or a closure with private state is a record, and a method
  is a function from the record to its result and the new record. A thrown error is \<open>Inl\<close> or a
  constructor of an error datatype. A table is a list of rows; a statement is a function on the
  tables; a transaction is one step, and a rollback returns the tables it started from. An
  asynchronous method is cut at each await, and the pieces are the rules of an inductive step
  relation, so other events may happen in between. Clocks, random values, hashes and HMACs, rows locked
  by other sessions (\<open>SKIP LOCKED\<close>), the collation of \<open>localeCompare\<close>, and injected callbacks (materialiser,
  delivery, the work of a wakeup) are arguments, as are two services the step scheduler calls, which freeze
  accepted inputs and append the message of a step. The frames and timers of a browser are a table of
  outstanding callbacks, any of which may fire next.
  JavaScript numbers that the code keeps integral are \<open>int\<close>, with the safe-integer checks written
  out where the code has them.

  \<^bold>\<open>Loops and fuel.\<close> \<open>drain_loop\<close> of the fair queue runs at most \<open>maxVisits\<close> rounds, the bound the code
  computes itself. \<open>contiguous_from\<close>, the recursive query behind the watermark, has the number of receipts
  as fuel, which is enough because each round consumes one. \<open>drain_events\<close> of the message queue has no
  fuel: it terminates because the cursor grows past at least one pending event per page.
  \<open>drain_passes\<close> of the worker runs the number of passes the code allows. \<open>cyclic\<close>, the depth-first search for
  ancestors, has the number of rows and two as fuel, and it is proved that this is enough. \<open>close_dependencies\<close>,
  \<open>plan_order\<close>, \<open>drainDeferredPartEvents\<close> and \<open>linesUntilStopped\<close> are total: each round adds a member, takes a
  ready step, takes a deferred event, or moves the offset.

  \<^bold>\<open>Not modelled.\<close> The daemon and the command line tool are Go. Of the web client (\<open>web/src\<close>, a Vue user
  interface) and of the memory service (\<open>memory/src\<close>, a program of its own with its own database) only the
  functions named above are modelled. In the relay: \<open>server.ts\<close>, \<open>router.ts\<close> and the rest of \<open>db.ts\<close> connect
  sockets, routes and statements to the components above; \<open>materialization/event-materializer.ts\<close> is reached
  by the worker through its interface; the lifecycle's executor and scanner move bodies to object storage,
  and only their updates of the work ledger are here; session archive and history, documents, sharing,
  token usage, extensions, and the dispatch, delivery and conversation features of teams are outside the
  parts chosen; of the step worker the polling timer is left out. Metrics and logging carry no state the program reads.
\<close>

end
